(* ===== verification/Gguf_Types.thy ===== *)
theory Gguf_Types
  imports Prelude
begin

text \<open>
  The constants and type tags of the GGUF format (\<open>crates/oxillama-gguf/src/types.rs\<close>) and
  the errors of the crate (\<open>error.rs\<close>). The Rust enums are \<open>repr(u32)\<close>: \<open>as u32\<close> is
  \<open>value_type_as_u32\<close> and \<open>tensor_type_as_u32\<close> here.

  An error carries the fields of the source's variant; where the source formats a message,
  the model has a \<open>reason\<close>: one constructor per message, with the values it prints.
\<close>

section \<open>Errors\<close>

datatype reason =
    UnknownValueType u32
  | UnknownElementType u32
  | NestingTooDeep
  | ArrayCountTooLarge u64 nat nat
  | BadAlignment u64
  | ExpectedString
  | ExpectedU32
  | ExpectedU64
  | ExpectedF32
  | BadDimensionCount u32
  | TensorCountMismatch u64 nat
  | DuplicateTensorName
  | DimensionsOverflow "u64 list"
  | ZeroBlockSize
  | DataSizeOverflow u64 u64
  | OffsetOverflow
  | DeclaredTensorsPresent
  | BufferedTensorsPresent
  | AllTensorsWritten string nat
  | WrongTensorOrder string nat nat string
  | WrongDataLength string u64 u64
  | StreamOverflow string
  | StreamTooLong string u64 u64
  | StreamTooShort string u64 u64
  | TensorsMissing nat nat
  | IoError string

datatype gguf_error =
    InvalidMagic u32
  | UnsupportedVersion u32
  | InvalidMetadata string reason
  | TensorNotFound string
  | UnsupportedQuantType u32
  | MmapError string
  | UnexpectedEof u64
  | AlignmentError nat u64
  | InvalidString u64
  | WriteError reason
  | IntegrityError string reason
  | HashMismatch string string string
  | ResumeMismatch string string string
  | ShardMismatch string
  | ShardDuplicateTensor string
  | CannotRequantize string string
  | HttpError string
  | SafetensorsParseError string
  | UnsupportedDtype string

type_synonym 'a gguf_result = "gguf_error + 'a"

section \<open>Constants\<close>

definition GGUF_MAGIC :: u32 where
  "GGUF_MAGIC = 0x46554747"

definition GGUF_DEFAULT_ALIGNMENT :: u64 where
  "GGUF_DEFAULT_ALIGNMENT = 32"

section \<open>Metadata value types\<close>

datatype value_type =
    TUint8
  | TInt8
  | TUint16
  | TInt16
  | TUint32
  | TInt32
  | TFloat32
  | TBool
  | TString
  | TArray
  | TUint64
  | TInt64
  | TFloat64

fun value_type_as_u32 :: "value_type \<Rightarrow> u32" where
  "value_type_as_u32 TUint8 = 0"
| "value_type_as_u32 TInt8 = 1"
| "value_type_as_u32 TUint16 = 2"
| "value_type_as_u32 TInt16 = 3"
| "value_type_as_u32 TUint32 = 4"
| "value_type_as_u32 TInt32 = 5"
| "value_type_as_u32 TFloat32 = 6"
| "value_type_as_u32 TBool = 7"
| "value_type_as_u32 TString = 8"
| "value_type_as_u32 TArray = 9"
| "value_type_as_u32 TUint64 = 10"
| "value_type_as_u32 TInt64 = 11"
| "value_type_as_u32 TFloat64 = 12"

definition value_type_from_u32 :: "u32 \<Rightarrow> value_type option" where
  "value_type_from_u32 v =
     (if v = 0 then Some TUint8
      else if v = 1 then Some TInt8
      else if v = 2 then Some TUint16
      else if v = 3 then Some TInt16
      else if v = 4 then Some TUint32
      else if v = 5 then Some TInt32
      else if v = 6 then Some TFloat32
      else if v = 7 then Some TBool
      else if v = 8 then Some TString
      else if v = 9 then Some TArray
      else if v = 10 then Some TUint64
      else if v = 11 then Some TInt64
      else if v = 12 then Some TFloat64
      else None)"

section \<open>Tensor types\<close>

datatype tensor_type =
    F32
  | F16
  | Q4_0
  | Q4_1
  | Q5_0
  | Q5_1
  | Q8_0
  | Q8_1
  | Q2K
  | Q3K
  | Q4K
  | Q5K
  | Q6K
  | Q8K
  | Iq2Xxs
  | Iq2Xs
  | Iq3Xxs
  | Iq1S
  | Iq4Nl
  | Iq3S
  | Iq2S
  | Iq4Xs
  | I8
  | I16
  | I32
  | I64
  | F64
  | Iq1M
  | Bf16
  | Q4_0_4_4
  | Q4_0_4_8
  | Q4_0_8_8
  | Tq1_0
  | Tq2_0
  | Iq4Nl4x4
  | Iq4Nl4x8
  | Iq4Nl8x8
  | Q1_0G128

fun tensor_type_as_u32 :: "tensor_type \<Rightarrow> u32" where
  "tensor_type_as_u32 F32 = 0"
| "tensor_type_as_u32 F16 = 1"
| "tensor_type_as_u32 Q4_0 = 2"
| "tensor_type_as_u32 Q4_1 = 3"
| "tensor_type_as_u32 Q5_0 = 6"
| "tensor_type_as_u32 Q5_1 = 7"
| "tensor_type_as_u32 Q8_0 = 8"
| "tensor_type_as_u32 Q8_1 = 9"
| "tensor_type_as_u32 Q2K = 10"
| "tensor_type_as_u32 Q3K = 11"
| "tensor_type_as_u32 Q4K = 12"
| "tensor_type_as_u32 Q5K = 13"
| "tensor_type_as_u32 Q6K = 14"
| "tensor_type_as_u32 Q8K = 15"
| "tensor_type_as_u32 Iq2Xxs = 16"
| "tensor_type_as_u32 Iq2Xs = 17"
| "tensor_type_as_u32 Iq3Xxs = 18"
| "tensor_type_as_u32 Iq1S = 19"
| "tensor_type_as_u32 Iq4Nl = 20"
| "tensor_type_as_u32 Iq3S = 21"
| "tensor_type_as_u32 Iq2S = 22"
| "tensor_type_as_u32 Iq4Xs = 23"
| "tensor_type_as_u32 I8 = 24"
| "tensor_type_as_u32 I16 = 25"
| "tensor_type_as_u32 I32 = 26"
| "tensor_type_as_u32 I64 = 27"
| "tensor_type_as_u32 F64 = 28"
| "tensor_type_as_u32 Iq1M = 29"
| "tensor_type_as_u32 Bf16 = 30"
| "tensor_type_as_u32 Q4_0_4_4 = 31"
| "tensor_type_as_u32 Q4_0_4_8 = 32"
| "tensor_type_as_u32 Q4_0_8_8 = 33"
| "tensor_type_as_u32 Tq1_0 = 34"
| "tensor_type_as_u32 Tq2_0 = 35"
| "tensor_type_as_u32 Iq4Nl4x4 = 36"
| "tensor_type_as_u32 Iq4Nl4x8 = 37"
| "tensor_type_as_u32 Iq4Nl8x8 = 38"
| "tensor_type_as_u32 Q1_0G128 = 39"

definition tensor_type_from_u32 :: "u32 \<Rightarrow> tensor_type option" where
  "tensor_type_from_u32 v =
     (if v = 0 then Some F32
      else if v = 1 then Some F16
      else if v = 2 then Some Q4_0
      else if v = 3 then Some Q4_1
      else if v = 6 then Some Q5_0
      else if v = 7 then Some Q5_1
      else if v = 8 then Some Q8_0
      else if v = 9 then Some Q8_1
      else if v = 10 then Some Q2K
      else if v = 11 then Some Q3K
      else if v = 12 then Some Q4K
      else if v = 13 then Some Q5K
      else if v = 14 then Some Q6K
      else if v = 15 then Some Q8K
      else if v = 16 then Some Iq2Xxs
      else if v = 17 then Some Iq2Xs
      else if v = 18 then Some Iq3Xxs
      else if v = 19 then Some Iq1S
      else if v = 20 then Some Iq4Nl
      else if v = 21 then Some Iq3S
      else if v = 22 then Some Iq2S
      else if v = 23 then Some Iq4Xs
      else if v = 24 then Some I8
      else if v = 25 then Some I16
      else if v = 26 then Some I32
      else if v = 27 then Some I64
      else if v = 28 then Some F64
      else if v = 29 then Some Iq1M
      else if v = 30 then Some Bf16
      else if v = 31 then Some Q4_0_4_4
      else if v = 32 then Some Q4_0_4_8
      else if v = 33 then Some Q4_0_8_8
      else if v = 34 then Some Tq1_0
      else if v = 35 then Some Tq2_0
      else if v = 36 then Some Iq4Nl4x4
      else if v = 37 then Some Iq4Nl4x8
      else if v = 38 then Some Iq4Nl8x8
      else if v = 39 then Some Q1_0G128
      else None)"

fun block_size :: "tensor_type \<Rightarrow> nat" where
  "block_size F32 = 1"
| "block_size F16 = 1"
| "block_size Q4_0 = 32"
| "block_size Q4_1 = 32"
| "block_size Q5_0 = 32"
| "block_size Q5_1 = 32"
| "block_size Q8_0 = 32"
| "block_size Q8_1 = 32"
| "block_size Q2K = 256"
| "block_size Q3K = 256"
| "block_size Q4K = 256"
| "block_size Q5K = 256"
| "block_size Q6K = 256"
| "block_size Q8K = 256"
| "block_size Iq2Xxs = 256"
| "block_size Iq2Xs = 256"
| "block_size Iq3Xxs = 256"
| "block_size Iq1S = 256"
| "block_size Iq4Nl = 32"
| "block_size Iq3S = 256"
| "block_size Iq2S = 256"
| "block_size Iq4Xs = 256"
| "block_size I8 = 1"
| "block_size I16 = 1"
| "block_size I32 = 1"
| "block_size I64 = 1"
| "block_size F64 = 1"
| "block_size Iq1M = 256"
| "block_size Bf16 = 1"
| "block_size Q4_0_4_4 = 32"
| "block_size Q4_0_4_8 = 32"
| "block_size Q4_0_8_8 = 32"
| "block_size Tq1_0 = 256"
| "block_size Tq2_0 = 256"
| "block_size Iq4Nl4x4 = 32"
| "block_size Iq4Nl4x8 = 32"
| "block_size Iq4Nl8x8 = 32"
| "block_size Q1_0G128 = 128"

fun block_bytes :: "tensor_type \<Rightarrow> nat" where
  "block_bytes F32 = 4"
| "block_bytes F16 = 2"
| "block_bytes Q4_0 = 18"
| "block_bytes Q4_1 = 20"
| "block_bytes Q5_0 = 22"
| "block_bytes Q5_1 = 24"
| "block_bytes Q8_0 = 34"
| "block_bytes Q8_1 = 36"
| "block_bytes Q2K = 84"
| "block_bytes Q3K = 110"
| "block_bytes Q4K = 144"
| "block_bytes Q5K = 176"
| "block_bytes Q6K = 210"
| "block_bytes Q8K = 292"
| "block_bytes Iq2Xxs = 66"
| "block_bytes Iq2Xs = 74"
| "block_bytes Iq3Xxs = 98"
| "block_bytes Iq1S = 50"
| "block_bytes Iq4Nl = 18"
| "block_bytes Iq3S = 110"
| "block_bytes Iq2S = 82"
| "block_bytes Iq4Xs = 136"
| "block_bytes I8 = 1"
| "block_bytes I16 = 2"
| "block_bytes I32 = 4"
| "block_bytes I64 = 8"
| "block_bytes F64 = 8"
| "block_bytes Iq1M = 56"
| "block_bytes Bf16 = 2"
| "block_bytes Q4_0_4_4 = 18"
| "block_bytes Q4_0_4_8 = 18"
| "block_bytes Q4_0_8_8 = 18"
| "block_bytes Tq1_0 = 54"
| "block_bytes Tq2_0 = 66"
| "block_bytes Iq4Nl4x4 = 34"
| "block_bytes Iq4Nl4x8 = 34"
| "block_bytes Iq4Nl8x8 = 34"
| "block_bytes Q1_0G128 = 18"

fun tensor_type_name :: "tensor_type \<Rightarrow> string" where
  "tensor_type_name F32 = ''F32''"
| "tensor_type_name F16 = ''F16''"
| "tensor_type_name Q4_0 = ''Q4_0''"
| "tensor_type_name Q4_1 = ''Q4_1''"
| "tensor_type_name Q5_0 = ''Q5_0''"
| "tensor_type_name Q5_1 = ''Q5_1''"
| "tensor_type_name Q8_0 = ''Q8_0''"
| "tensor_type_name Q8_1 = ''Q8_1''"
| "tensor_type_name Q2K = ''Q2_K''"
| "tensor_type_name Q3K = ''Q3_K''"
| "tensor_type_name Q4K = ''Q4_K''"
| "tensor_type_name Q5K = ''Q5_K''"
| "tensor_type_name Q6K = ''Q6_K''"
| "tensor_type_name Q8K = ''Q8_K''"
| "tensor_type_name Iq2Xxs = ''IQ2_XXS''"
| "tensor_type_name Iq2Xs = ''IQ2_XS''"
| "tensor_type_name Iq3Xxs = ''IQ3_XXS''"
| "tensor_type_name Iq1S = ''IQ1_S''"
| "tensor_type_name Iq4Nl = ''IQ4_NL''"
| "tensor_type_name Iq3S = ''IQ3_S''"
| "tensor_type_name Iq2S = ''IQ2_S''"
| "tensor_type_name Iq4Xs = ''IQ4_XS''"
| "tensor_type_name I8 = ''I8''"
| "tensor_type_name I16 = ''I16''"
| "tensor_type_name I32 = ''I32''"
| "tensor_type_name I64 = ''I64''"
| "tensor_type_name F64 = ''F64''"
| "tensor_type_name Iq1M = ''IQ1_M''"
| "tensor_type_name Bf16 = ''BF16''"
| "tensor_type_name Q4_0_4_4 = ''Q4_0_4x4''"
| "tensor_type_name Q4_0_4_8 = ''Q4_0_4x8''"
| "tensor_type_name Q4_0_8_8 = ''Q4_0_8x8''"
| "tensor_type_name Tq1_0 = ''TQ1_0''"
| "tensor_type_name Tq2_0 = ''TQ2_0''"
| "tensor_type_name Iq4Nl4x4 = ''IQ4_NL_4x4''"
| "tensor_type_name Iq4Nl4x8 = ''IQ4_NL_4x8''"
| "tensor_type_name Iq4Nl8x8 = ''IQ4_NL_8x8''"
| "tensor_type_name Q1_0G128 = ''Q1_0_G128''"

section \<open>The tags are read back as written\<close>

lemma value_type_from_as [simp, codec]:
  "value_type_from_u32 (value_type_as_u32 t) = Some t"
  by (cases t) (simp_all add: value_type_from_u32_def)

lemma tensor_type_from_as [simp, codec]:
  "tensor_type_from_u32 (tensor_type_as_u32 t) = Some t"
  by (cases t) (simp_all add: tensor_type_from_u32_def)

lemma value_type_as_from:
  "value_type_from_u32 v = Some t \<Longrightarrow> value_type_as_u32 t = v"
  by (auto simp: value_type_from_u32_def split: if_splits)

lemma tensor_type_as_from:
  "tensor_type_from_u32 v = Some t \<Longrightarrow> tensor_type_as_u32 t = v"
  by (auto simp: tensor_type_from_u32_def split: if_splits)

lemma value_type_as_inj [simp]:
  "value_type_as_u32 s = value_type_as_u32 t \<longleftrightarrow> s = t"
  using value_type_from_as by (metis option.inject)

lemma tensor_type_as_inj [simp]:
  "tensor_type_as_u32 s = tensor_type_as_u32 t \<longleftrightarrow> s = t"
  using tensor_type_from_as by (metis option.inject)

lemma block_size_pos [simp]: "0 < block_size t"
  by (cases t) simp_all

lemma block_bytes_pos [simp]: "0 < block_bytes t"
  by (cases t) simp_all

lemma block_size_le: "block_size t \<le> 256"
  by (cases t) simp_all

lemma block_bytes_le: "block_bytes t \<le> 292"
  by (cases t) simp_all

text \<open>As \<open>u64\<close>, which is how the sizes of a tensor are computed.\<close>

lemma unat_block_size [simp]: "unat (word_of_nat (block_size t) :: u64) = block_size t"
  using block_size_le [of t] by (intro unat_of_nat_small) simp

lemma unat_block_bytes [simp]: "unat (word_of_nat (block_bytes t) :: u64) = block_bytes t"
  using block_bytes_le [of t] by (intro unat_of_nat_small) simp

lemma block_size_word_nonzero [simp]: "(word_of_nat (block_size t) :: u64) \<noteq> 0"
  using unat_block_size [of t] block_size_pos [of t] by (metis less_numeral_extra(3) unat_0)

end
