(* ===== verification/Gguf_Reader.thy ===== *)
theory Gguf_Reader
  imports Gguf_Types
begin

text \<open>
  The bounds-checked cursor of \<open>crates/oxillama-gguf/src/reader.rs\<close> and the header parser of
  \<open>header.rs\<close>. A read takes the reader and returns the value with the moved reader, or an
  error; the Rust methods mutate \<open>self.pos\<close> instead. The floats are their bit patterns
  (\<open>from_le_bytes\<close> copies bits), the signed integers their two's-complement words.

  The locale \<open>codec\<close> is the interface between the readers and whatever writes the bytes:
  a decoder that returns a value on the bytes its encoder produced, whatever follows them, and
  moves past exactly these bytes.
\<close>

section \<open>BinaryReader\<close>

record reader =
  rd_data :: "u8 list"
  rd_pos :: nat

type_synonym 'a read = "reader \<Rightarrow> ('a \<times> reader) gguf_result"

definition reader_new :: "u8 list \<Rightarrow> nat \<Rightarrow> reader" where
  "reader_new data offset = \<lparr>rd_data = data, rd_pos = offset\<rparr>"

definition position :: "reader \<Rightarrow> nat" where
  "position r = rd_pos r"

definition reader_len :: "reader \<Rightarrow> nat" where
  "reader_len r = length (rd_data r)"

definition reader_is_empty :: "reader \<Rightarrow> bool" where
  "reader_is_empty r \<longleftrightarrow> rd_data r = []"

definition remaining :: "reader \<Rightarrow> nat" where
  "remaining r = length (rd_data r) - rd_pos r"

definition check :: "nat \<Rightarrow> reader \<Rightarrow> unit gguf_result" where
  "check n r =
     (if n > length (rd_data r) - rd_pos r then Inl (UnexpectedEof (of_nat (rd_pos r)))
      else Inr ())"

text \<open>The \<open>n\<close> bytes at the cursor, \<open>data[pos..pos + n]\<close>, and the cursor moved past them.\<close>

definition bytes_at :: "reader \<Rightarrow> nat \<Rightarrow> u8 list" where
  "bytes_at r n = take n (drop (rd_pos r) (rd_data r))"

definition advance :: "nat \<Rightarrow> reader \<Rightarrow> reader" where
  "advance n r = r\<lparr>rd_pos := rd_pos r + n\<rparr>"

definition read_u8 :: "u8 read" where
  "read_u8 r = and_then (check 1 r) (\<lambda>_. Inr (rd_data r ! rd_pos r, advance 1 r))"

definition read_u16 :: "u16 read" where
  "read_u16 r = and_then (check 2 r) (\<lambda>_. Inr (from_le_bytes (bytes_at r 2), advance 2 r))"

definition read_i16 :: "i16 read" where
  "read_i16 r = and_then (check 2 r) (\<lambda>_. Inr (from_le_bytes (bytes_at r 2), advance 2 r))"

definition read_u32 :: "u32 read" where
  "read_u32 r = and_then (check 4 r) (\<lambda>_. Inr (from_le_bytes (bytes_at r 4), advance 4 r))"

definition read_i32 :: "i32 read" where
  "read_i32 r = and_then (check 4 r) (\<lambda>_. Inr (from_le_bytes (bytes_at r 4), advance 4 r))"

definition read_u64 :: "u64 read" where
  "read_u64 r = and_then (check 8 r) (\<lambda>_. Inr (from_le_bytes (bytes_at r 8), advance 8 r))"

definition read_i64 :: "i64 read" where
  "read_i64 r = and_then (check 8 r) (\<lambda>_. Inr (from_le_bytes (bytes_at r 8), advance 8 r))"

definition read_f32 :: "u32 read" where
  "read_f32 r = and_then (check 4 r) (\<lambda>_. Inr (from_le_bytes (bytes_at r 4), advance 4 r))"

definition read_f64 :: "u64 read" where
  "read_f64 r = and_then (check 8 r) (\<lambda>_. Inr (from_le_bytes (bytes_at r 8), advance 8 r))"

definition read_bool :: "bool read" where
  "read_bool r = and_then (read_u8 r) (\<lambda>(val, r). Inr (val \<noteq> 0, r))"

definition read_string :: "string read" where
  "read_string r =
     and_then (read_u64 r) (\<lambda>(len_u64, r).
       if unat len_u64 > remaining r then Inl (UnexpectedEof (of_nat (rd_pos r)))
       else let len = unat len_u64; bytes = bytes_at r len; r = advance len r
            in and_then
                 (ok_or (string_from_utf8 bytes) (InvalidString (of_nat (rd_pos r - len))))
                 (\<lambda>s. Inr (s, r)))"

definition read_string_v2 :: "string read" where
  "read_string_v2 r =
     and_then (read_u32 r) (\<lambda>(len_u32, r).
       let len_u64 = ucast len_u32 :: u64
       in if unat len_u64 > remaining r then Inl (UnexpectedEof (of_nat (rd_pos r)))
          else let len = unat len_u64; bytes = bytes_at r len; r = advance len r
               in and_then
                    (ok_or (string_from_utf8 bytes) (InvalidString (of_nat (rd_pos r - len))))
                    (\<lambda>s. Inr (s, r)))"

definition read_bytes :: "nat \<Rightarrow> u8 list read" where
  "read_bytes n r = and_then (check n r) (\<lambda>_. Inr (bytes_at r n, advance n r))"

definition remaining_data :: "reader \<Rightarrow> u8 list" where
  "remaining_data r =
     (if rd_pos r \<ge> length (rd_data r) then [] else drop (rd_pos r) (rd_data r))"

definition align_to :: "nat \<Rightarrow> reader \<Rightarrow> reader" where
  "align_to alignment r =
     (if alignment > 0
      then let rem = rd_pos r mod alignment
           in if rem \<noteq> 0 then r\<lparr>rd_pos := rd_pos r + (alignment - rem)\<rparr> else r
      else r)"

definition skip :: "nat \<Rightarrow> unit read" where
  "skip n r = and_then (check n r) (\<lambda>_. Inr ((), advance n r))"

text \<open>The loop \<open>for _ in 0..n { out.push(read(reader)?) }\<close>.\<close>

fun read_n :: "nat \<Rightarrow> 'a read \<Rightarrow> 'a list read" where
  "read_n 0 p r = Inr ([], r)"
| "read_n (Suc n) p r =
     and_then (p r) (\<lambda>(v, r). and_then (read_n n p r) (\<lambda>(vs, r). Inr (v # vs, r)))"

lemma read_n_cong [fundef_cong]:
  assumes "n = n'" and "r = r'" and pq: "\<And>r. p r = q r"
  shows "read_n n p r = read_n n' q r'"
  using assms(1,2)
proof (induction n arbitrary: n' r r')
  case 0
  then show ?case by auto
next
  case (Suc n)
  then show ?case by (auto simp: pq intro!: and_then_cong)
qed

section \<open>What a read may touch\<close>

text \<open>
  A bounded read leaves the data alone, never moves the cursor back, and moves it within the
  data only.
\<close>

definition bounded :: "'a read \<Rightarrow> bool" where
  "bounded p \<longleftrightarrow>
     (\<forall>r v r'. p r = Inr (v, r') \<longrightarrow>
        rd_data r' = rd_data r \<and> rd_pos r \<le> rd_pos r' \<and>
        (rd_pos r \<le> length (rd_data r) \<longrightarrow> rd_pos r' \<le> length (rd_data r)))"

named_theorems bounded_intros \<open>compositional rules for bounded reads\<close>

lemma boundedI:
  assumes "\<And>r v r'. p r = Inr (v, r') \<Longrightarrow>
     rd_data r' = rd_data r \<and> rd_pos r \<le> rd_pos r' \<and>
     (rd_pos r \<le> length (rd_data r) \<longrightarrow> rd_pos r' \<le> length (rd_data r))"
  shows "bounded p"
  using assms by (auto simp: bounded_def)

lemma boundedD:
  assumes "bounded p" and "p r = Inr (v, r')"
  shows "rd_data r' = rd_data r" and "rd_pos r \<le> rd_pos r'"
    and "rd_pos r \<le> length (rd_data r) \<Longrightarrow> rd_pos r' \<le> length (rd_data r)"
  using assms unfolding bounded_def by blast+

lemma bounded_return [bounded_intros]: "bounded (\<lambda>r. Inr (f r, r))"
  by (auto simp: bounded_def)

lemma bounded_fail [bounded_intros]: "bounded (\<lambda>r. Inl (e r))"
  by (auto simp: bounded_def)

lemma bounded_if [bounded_intros]:
  "bounded p \<Longrightarrow> bounded q \<Longrightarrow> bounded (\<lambda>r. if b r then p r else q r)"
  unfolding bounded_def by (auto split: if_splits)

lemma bounded_and_then [bounded_intros]:
  assumes p: "bounded p" and q: "\<And>v. bounded (q v)"
  shows "bounded (\<lambda>r. and_then (p r) (\<lambda>(v, r). q v r))"
proof (rule boundedI)
  fix r v r'
  assume "and_then (p r) (\<lambda>(v, r). q v r) = Inr (v, r')"
  then obtain a r1 where 1: "p r = Inr (a, r1)" and 2: "q a r1 = Inr (v, r')"
    by (auto simp: and_then_Inr_iff)
  from boundedD [OF p 1] boundedD [OF q 2]
  show "rd_data r' = rd_data r \<and> rd_pos r \<le> rd_pos r' \<and>
     (rd_pos r \<le> length (rd_data r) \<longrightarrow> rd_pos r' \<le> length (rd_data r))"
    by auto
qed

lemma bounded_guard [bounded_intros]:
  "(\<And>a. x = Inr a \<Longrightarrow> bounded (q a)) \<Longrightarrow> bounded (\<lambda>r. and_then x (\<lambda>a. q a r))"
  by (cases x) (auto simp: bounded_def)

lemma bounded_read_n [bounded_intros]: "bounded p \<Longrightarrow> bounded (read_n n p)"
proof (induction n)
  case 0
  then show ?case by (simp add: bounded_def)
next
  case (Suc n)
  have "bounded (\<lambda>r. and_then (p r) (\<lambda>(v, r). and_then (read_n n p r) (\<lambda>(vs, r). Inr (v # vs, r))))"
    by (intro bounded_intros Suc)
  then show ?case by (simp add: bounded_def)
qed

lemma check_Inr: "check n r = Inr x \<longleftrightarrow> n \<le> length (rd_data r) - rd_pos r"
  by (auto simp: check_def)

lemma advance_sel [simp]:
  "rd_data (advance n r) = rd_data r" "rd_pos (advance n r) = rd_pos r + n"
  by (simp_all add: advance_def)

lemma advance_0 [simp]: "advance 0 r = r"
  by (simp add: advance_def)

lemma advance_advance [simp]: "advance m (advance n r) = advance (n + m) r"
  by (simp add: advance_def add.assoc)

lemma bounded_fixed:
  assumes "\<And>r. p r = and_then (check n r) (\<lambda>_. Inr (f r, advance n r))"
  shows "bounded p"
  unfolding bounded_def assms by (auto simp: and_then_Inr_iff check_Inr)

lemma bounded_primitives [bounded_intros]:
  "bounded read_u8" "bounded read_u16" "bounded read_i16" "bounded read_u32" "bounded read_i32"
  "bounded read_u64" "bounded read_i64" "bounded read_f32" "bounded read_f64"
  "bounded (read_bytes n)" "bounded (skip n)"
  by (rule bounded_fixed, rule read_u8_def read_u16_def read_i16_def read_u32_def read_i32_def
      read_u64_def read_i64_def read_f32_def read_f64_def read_bytes_def skip_def)+

lemma bounded_read_bool [bounded_intros]: "bounded read_bool"
proof -
  have "bounded (\<lambda>r. and_then (read_u8 r) (\<lambda>(val, r). Inr (val \<noteq> 0, r)))"
    by (intro bounded_intros)
  then show ?thesis by (simp add: read_bool_def [abs_def])
qed

lemma bounded_string_body:
  "bounded (\<lambda>r. if k > remaining r then Inl (e r)
     else let bytes = bytes_at r k; r = advance k r
          in and_then (ok_or (string_from_utf8 bytes) (e' r)) (\<lambda>s. Inr (s, r)))"
  by (auto simp: bounded_def and_then_Inr_iff Let_def remaining_def split: if_splits)

lemma bounded_read_string [bounded_intros]: "bounded read_string"
  unfolding read_string_def [abs_def] Let_def
  by (intro bounded_intros bounded_string_body [unfolded Let_def])

lemma bounded_read_string_v2 [bounded_intros]: "bounded read_string_v2"
  unfolding read_string_v2_def [abs_def] Let_def
  by (intro bounded_intros bounded_string_body [unfolded Let_def])

section \<open>Decoders that undo an encoder\<close>

definition parses :: "'a read \<Rightarrow> u8 list \<Rightarrow> 'a \<Rightarrow> bool" where
  "parses p bs v \<longleftrightarrow>
     (\<forall>r rest. remaining_data r = bs @ rest \<longrightarrow> p r = Inr (v, advance (length bs) r))"

lemma parsesI:
  assumes "\<And>r rest. remaining_data r = bs @ rest \<Longrightarrow> p r = Inr (v, advance (length bs) r)"
  shows "parses p bs v"
  using assms by (simp add: parses_def)

lemma parsesD:
  assumes "parses p bs v" and "remaining_data r = bs @ rest"
  shows "p r = Inr (v, advance (length bs) r)"
  using assms by (auto simp: parses_def)

lemma remaining_data_drop: "remaining_data r = drop (rd_pos r) (rd_data r)"
  by (simp add: remaining_data_def)

lemma remaining_length: "remaining r = length (remaining_data r)"
  by (simp add: remaining_data_drop remaining_def)

lemma remaining_data_advance:
  "remaining_data r = bs @ rest \<Longrightarrow> remaining_data (advance (length bs) r) = rest"
  by (simp add: remaining_data_drop add.commute [of _ "length bs"] flip: drop_drop)

lemma bytes_at_app:
  "remaining_data r = bs @ rest \<Longrightarrow> length bs = n \<Longrightarrow> bytes_at r n = bs"
  by (simp add: remaining_data_drop bytes_at_def)

lemma check_app:
  assumes "remaining_data r = bs @ rest" and "n \<le> length bs"
  shows "check n r = Inr ()"
proof -
  have "length (bs @ rest) = length (rd_data r) - rd_pos r"
    using assms(1) by (simp add: remaining_data_drop flip: assms(1))
  with assms(2) show ?thesis by (simp add: check_def)
qed

lemma parses_seq:
  assumes p: "parses p bs v" and q: "parses (q v) cs w"
  shows "parses (\<lambda>r. and_then (p r) (\<lambda>(v, r). q v r)) (bs @ cs) w"
proof (rule parsesI)
  fix r rest
  assume r: "remaining_data r = (bs @ cs) @ rest"
  then have 1: "p r = Inr (v, advance (length bs) r)"
    using parsesD [OF p] by simp
  from r have "remaining_data (advance (length bs) r) = cs @ rest"
    using remaining_data_advance [of r bs "cs @ rest"] by simp
  from parsesD [OF q this] 1
  show "and_then (p r) (\<lambda>(v, r). q v r) = Inr (w, advance (length (bs @ cs)) r)"
    by simp
qed

lemma parses_seq_bytes:
  assumes "parses p bs v" and "parses (q v) cs w" and "ds = bs @ cs"
  shows "parses (\<lambda>r. and_then (p r) (\<lambda>(v, r). q v r)) ds w"
  using parses_seq [where q = q, OF assms(1,2)] assms(3) by simp

lemma parses_return: "parses (\<lambda>r. Inr (v, r)) [] v"
  by (simp add: parses_def)

lemma parses_map:
  assumes "parses p bs v"
  shows "parses (\<lambda>r. and_then (p r) (\<lambda>(v, r). Inr (f v, r))) bs (f v)"
  using parses_seq [OF assms parses_return] by simp

lemma parses_fixed:
  assumes "\<And>r. p r = and_then (check n r) (\<lambda>_. Inr (f (bytes_at r n), advance n r))"
    and "length bs = n"
  shows "parses p bs (f bs)"
proof (rule parsesI)
  fix r rest
  assume r: "remaining_data r = bs @ rest"
  with check_app [OF r] bytes_at_app [OF r assms(2)] assms(2)
  show "p r = Inr (f bs, advance (length bs) r)"
    by (simp add: assms(1))
qed

locale codec =
  fixes enc :: "'a \<Rightarrow> u8 list"
    and dec :: "'a read"
    and wf :: "'a \<Rightarrow> bool"
  assumes dec_enc: "wf v \<Longrightarrow> parses dec (enc v) v"
begin

text \<open>Two encodings cannot be confused: the encoder's image is prefix free.\<close>

lemma prefix_free:
  assumes "wf v" and "wf w" and eq: "enc v @ xs = enc w @ ys"
  shows "v = w \<and> xs = ys"
proof -
  let ?r = "reader_new (enc v @ xs) 0"
  have "dec ?r = Inr (v, advance (length (enc v)) ?r)"
    by (rule parsesD [OF dec_enc [OF assms(1)], of _ xs])
       (simp add: remaining_data_drop reader_new_def)
  moreover have "dec ?r = Inr (w, advance (length (enc w)) ?r)"
    by (rule parsesD [OF dec_enc [OF assms(2)], of _ ys])
       (simp add: remaining_data_drop reader_new_def eq)
  ultimately have "v = w" by simp
  with eq show ?thesis by simp
qed

lemma enc_inj: "wf v \<Longrightarrow> wf w \<Longrightarrow> enc v = enc w \<Longrightarrow> v = w"
  using prefix_free [of v w "[]" "[]"] by simp

text \<open>The counted loop reads back a concatenation of encodings.\<close>

lemma read_n_enc:
  assumes "\<forall>v \<in> set vs. wf v"
  shows "parses (read_n (length vs) dec) (concat (map enc vs)) vs"
  using assms
proof (induction vs)
  case Nil
  then show ?case using parses_return [of "[]"] by (simp add: parses_def)
next
  case (Cons v vs)
  have "parses (\<lambda>r. and_then (dec r) (\<lambda>(x, r). and_then (read_n (length vs) dec r)
          (\<lambda>(xs, r). Inr (x # xs, r)))) (enc v @ concat (map enc vs)) (v # vs)"
    using Cons by (intro parses_seq [OF dec_enc] parses_map) simp_all
  then show ?case by (simp add: parses_def)
qed

end

lemma parses_le:
  fixes v :: "'a::len word"
  assumes "\<And>r. p r = and_then (check n r) (\<lambda>_. Inr (from_le_bytes (bytes_at r n), advance n r))"
    and "2 ^ LENGTH('a) \<le> (256::nat) ^ n"
  shows "parses p (to_le_bytes n v) v"
  using parses_fixed [OF assms(1) length_to_le_bytes, of v] from_to_le_bytes [OF assms(2)]
  by simp

lemma parses_read_u8 [codec]: "parses read_u8 [v] v"
proof (rule parsesI)
  fix r rest
  assume r: "remaining_data r = [v] @ rest"
  then have "rd_pos r < length (rd_data r)"
    by (metis append_is_Nil_conv list.distinct(1) not_less remaining_data_def)
  moreover from this r have "rd_data r ! rd_pos r = v"
    by (simp add: remaining_data_drop Cons_nth_drop_Suc [symmetric])
  ultimately show "read_u8 r = Inr (v, advance (length [v]) r)"
    using check_app [OF r, of 1] by (simp add: read_u8_def)
qed

lemma parses_ints [codec]:
  "parses read_u16 (to_le_bytes 2 a) a" "parses read_i16 (to_le_bytes 2 a) a"
  "parses read_u32 (to_le_bytes 4 b) b" "parses read_i32 (to_le_bytes 4 b) b"
  "parses read_u64 (to_le_bytes 8 c) c" "parses read_i64 (to_le_bytes 8 c) c"
  "parses read_f32 (to_le_bytes 4 b) b" "parses read_f64 (to_le_bytes 8 c) c"
  by (rule parses_le, rule read_u16_def read_i16_def read_u32_def read_i32_def read_u64_def
      read_i64_def read_f32_def read_f64_def, simp)+

definition bool_byte :: "bool \<Rightarrow> u8" where
  "bool_byte b = (if b then 1 else 0)"

lemma parses_read_bool [codec]: "parses read_bool [bool_byte b] b"
  using parses_map [OF parses_read_u8, of "\<lambda>val. val \<noteq> 0" "bool_byte b"]
  by (simp add: read_bool_def [abs_def] bool_byte_def split: if_splits)

section \<open>Strings: a length prefix and the bytes\<close>

definition string_v3_bytes :: "string \<Rightarrow> u8 list" where
  "string_v3_bytes s = to_le_bytes 8 (word_of_nat (length s) :: u64) @ str_bytes s"

definition string_v2_bytes :: "string \<Rightarrow> u8 list" where
  "string_v2_bytes s = to_le_bytes 4 (word_of_nat (length s) :: u32) @ str_bytes s"

lemma parses_string_body:
  assumes "utf8_string s" and "k = length s"
  shows "parses (\<lambda>r. if k > remaining r then Inl (e r)
     else let bytes = bytes_at r k; r = advance k r
          in and_then (ok_or (string_from_utf8 bytes) (e' r)) (\<lambda>s. Inr (s, r)))
     (str_bytes s) s"
proof (rule parsesI)
  fix r rest
  assume r: "remaining_data r = str_bytes s @ rest"
  then have "bytes_at r k = str_bytes s" and "\<not> k > remaining r"
    using assms(2) by (simp_all add: bytes_at_app remaining_length)
  then show "(if k > remaining r then Inl (e r)
     else let bytes = bytes_at r k; r = advance k r
          in and_then (ok_or (string_from_utf8 bytes) (e' r)) (\<lambda>s. Inr (s, r)))
     = Inr (s, advance (length (str_bytes s)) r)"
    using assms by (simp add: Let_def)
qed

lemma parses_read_string [codec]:
  assumes "utf8_string s" and "length s < 2 ^ 64"
  shows "parses read_string (string_v3_bytes s) s"
proof -
  have len: "unat (word_of_nat (length s) :: u64) = length s"
    using assms(2) by (intro unat_of_nat_small) simp
  show ?thesis
    unfolding read_string_def [abs_def] Let_def string_v3_bytes_def
    by (rule parses_seq, rule parses_ints, rule parses_string_body [unfolded Let_def],
      rule assms(1), rule len)
qed

lemma parses_read_string_v2 [codec]:
  assumes "utf8_string s" and "length s < 2 ^ 32"
  shows "parses read_string_v2 (string_v2_bytes s) s"
proof -
  have "unat (word_of_nat (length s) :: u32) = length s"
    using assms(2) by (intro unat_of_nat_small) simp
  then have len: "unat (ucast (word_of_nat (length s) :: u32) :: u64) = length s"
    using assms(2) by (simp add: unsigned_ucast_eq take_bit_nat_eq_self)
  show ?thesis
    unfolding read_string_v2_def [abs_def] Let_def string_v2_bytes_def
    by (rule parses_seq, rule parses_ints, rule parses_string_body [unfolded Let_def],
      rule assms(1), rule len)
qed

interpretation u8: codec "\<lambda>v. [v]" read_u8 "\<lambda>_. True"
  by unfold_locales (rule codec)

interpretation u32: codec "to_le_bytes 4" read_u32 "\<lambda>_. True"
  by unfold_locales (rule codec)

interpretation u64: codec "to_le_bytes 8" read_u64 "\<lambda>_. True"
  by unfold_locales (rule codec)

interpretation str_v3: codec string_v3_bytes read_string "\<lambda>s. utf8_string s \<and> length s < 2 ^ 64"
  by unfold_locales (blast intro: codec)

interpretation str_v2: codec string_v2_bytes read_string_v2 "\<lambda>s. utf8_string s \<and> length s < 2 ^ 32"
  by unfold_locales (blast intro: codec)

end
