(* ===== verification/Gguf_Header.thy ===== *)
theory Gguf_Header
  imports Gguf_Reader
begin

text \<open>
  The file header of \<open>crates/oxillama-gguf/src/header.rs\<close>: magic number, version, and the
  two counts, which are 8 bytes wide in version 3 and 4 bytes wide before.
\<close>

record gguf_header =
  version :: u32
  tensor_count :: u64
  metadata_kv_count :: u64

text \<open>The slice \<open>data[pos..pos + n]\<close>; every use is guarded by a length check.\<close>

definition slice :: "u8 list \<Rightarrow> nat \<Rightarrow> nat \<Rightarrow> u8 list" where
  "slice data pos n = take n (drop pos data)"

definition read_count :: "u8 list \<Rightarrow> nat \<Rightarrow> u32 \<Rightarrow> (u64 \<times> nat) gguf_result" where
  "read_count data pos ver =
     (if ver \<ge> 3 then
        if length data < pos + 8 then Inl (UnexpectedEof (of_nat pos))
        else Inr (from_le_bytes (slice data pos 8), pos + 8)
      else
        if length data < pos + 4 then Inl (UnexpectedEof (of_nat pos))
        else Inr (ucast (from_le_bytes (slice data pos 4) :: u32), pos + 4))"

definition header_parse :: "u8 list \<Rightarrow> u64 \<Rightarrow> (gguf_header \<times> u64) gguf_result" where
  "header_parse data offset =
     (let pos = unat offset in
      if length data < pos + 4 then Inl (UnexpectedEof offset)
      else let magic = from_le_bytes (slice data pos 4); pos = pos + 4 in
      if magic \<noteq> GGUF_MAGIC then Inl (InvalidMagic magic)
      else if length data < pos + 4 then Inl (UnexpectedEof (of_nat pos))
      else let ver = from_le_bytes (slice data pos 4); pos = pos + 4 in
      if \<not> (1 \<le> ver \<and> ver \<le> 3) then Inl (UnsupportedVersion ver)
      else and_then (read_count data pos ver) (\<lambda>(tensors, pos).
           and_then (read_count data pos ver) (\<lambda>(kvs, pos).
             Inr (\<lparr>version = ver, tensor_count = tensors, metadata_kv_count = kvs\<rparr>,
                  of_nat pos))))"

lemma slice_app: "length bs = n \<Longrightarrow> drop pos data = bs @ rest \<Longrightarrow> slice data pos n = bs"
  by (simp add: slice_def)

lemma read_count_bounds:
  assumes "read_count data pos ver = Inr (v, pos')"
  shows "pos < pos'" and "pos' \<le> length data"
  using assms by (auto simp: read_count_def split: if_splits)

text \<open>The bytes of a version 3 header, and that they are parsed as such.\<close>

definition header_bytes :: "u64 \<Rightarrow> u64 \<Rightarrow> u8 list" where
  "header_bytes tensors kvs =
     to_le_bytes 4 GGUF_MAGIC @ to_le_bytes 4 (3 :: u32) @ to_le_bytes 8 tensors @ to_le_bytes 8 kvs"

lemma length_header_bytes [simp]: "length (header_bytes t k) = 24"
  by (simp add: header_bytes_def)

lemma header_parse_bytes:
  "header_parse (header_bytes t k @ rest) 0 =
     Inr (\<lparr>version = 3, tensor_count = t, metadata_kv_count = k\<rparr>, 24)"
proof -
  let ?d = "header_bytes t k @ rest"
  have 0: "slice ?d 0 4 = to_le_bytes 4 GGUF_MAGIC"
    and 4: "slice ?d 4 4 = to_le_bytes 4 (3 :: u32)"
    and 8: "slice ?d 8 8 = to_le_bytes 8 t" and 16: "slice ?d 16 8 = to_le_bytes 8 k"
    by (simp_all add: slice_def header_bytes_def)
  have "length ?d \<ge> 24" by simp
  then show ?thesis
    unfolding header_parse_def Let_def read_count_def
    by (simp add: 0 4 8 16 from_to_le_bytes)
qed

text \<open>A header that parses: what the bytes were, in every version.\<close>

lemma header_parse_Inr:
  assumes "header_parse data 0 = Inr (h, off)"
  shows "1 \<le> version h" and "version h \<le> 3"
    and "unat off \<le> length data"
proof -
  from assms obtain t p1 k p2
    where v: "1 \<le> version h" "version h \<le> 3" and off: "off = of_nat p2"
      and "read_count data p1 (version h) = Inr (k, p2)"
    by (auto simp: header_parse_def Let_def and_then_Inr_iff split: if_splits)
  then have "p2 \<le> length data" by (auto dest: read_count_bounds)
  then have "unat off \<le> length data"
    unfolding off by (metis order_trans le_unat_uoi nat_le_linear unat_of_nat mod_less_eq_dividend)
  with v show "1 \<le> version h" and "version h \<le> 3"
    and "unat off \<le> length data" by auto
qed

end
