(* ===== verification/Gguf_Metadata.thy ===== *)
theory Gguf_Metadata
  imports Gguf_Types
begin

text \<open>
  The metadata values and the key-value store of \<open>crates/oxillama-gguf/src/metadata.rs\<close>.
  The store's \<open>HashMap\<close> is an association list with distinct keys: \<open>AList.update\<close> is
  \<open>insert\<close>, \<open>map_of\<close> is \<open>get\<close>; the list order stands for the map's iteration order, which
  the Rust type leaves open.
\<close>

datatype metadata_value =
    VUint8 u8
  | VInt8 i8
  | VUint16 u16
  | VInt16 i16
  | VUint32 u32
  | VInt32 i32
  | VFloat32 u32
  | VBool bool
  | VString string
  | VArray "metadata_value list"
  | VUint64 u64
  | VInt64 i64
  | VFloat64 u64

fun as_str :: "metadata_value \<Rightarrow> string option" where
  "as_str (VString s) = Some s"
| "as_str _ = None"

fun as_u32 :: "metadata_value \<Rightarrow> u32 option" where
  "as_u32 (VUint32 v) = Some v"
| "as_u32 (VUint8 v) = Some (ucast v)"
| "as_u32 (VUint16 v) = Some (ucast v)"
| "as_u32 _ = None"

fun as_u64 :: "metadata_value \<Rightarrow> u64 option" where
  "as_u64 (VUint64 v) = Some v"
| "as_u64 (VUint32 v) = Some (ucast v)"
| "as_u64 (VUint16 v) = Some (ucast v)"
| "as_u64 (VUint8 v) = Some (ucast v)"
| "as_u64 _ = None"

fun as_i32 :: "metadata_value \<Rightarrow> i32 option" where
  "as_i32 (VInt32 v) = Some v"
| "as_i32 (VInt8 v) = Some (scast v)"
| "as_i32 (VInt16 v) = Some (scast v)"
| "as_i32 _ = None"

fun as_f32 :: "metadata_value \<Rightarrow> u32 option" where
  "as_f32 (VFloat32 v) = Some v"
| "as_f32 _ = None"

fun as_bool :: "metadata_value \<Rightarrow> bool option" where
  "as_bool (VBool v) = Some v"
| "as_bool _ = None"

fun as_array :: "metadata_value \<Rightarrow> metadata_value list option" where
  "as_array (VArray v) = Some v"
| "as_array _ = None"

record metadata_store =
  md_entries :: "(string \<times> metadata_value) list"

definition md_new :: metadata_store where
  "md_new = \<lparr>md_entries = []\<rparr>"

definition md_insert :: "string \<Rightarrow> metadata_value \<Rightarrow> metadata_store \<Rightarrow> metadata_store" where
  "md_insert key value s = s\<lparr>md_entries := AList.update key value (md_entries s)\<rparr>"

definition md_get :: "metadata_store \<Rightarrow> string \<Rightarrow> metadata_value option" where
  "md_get s key = map_of (md_entries s) key"

definition md_get_string :: "metadata_store \<Rightarrow> string \<Rightarrow> string gguf_result" where
  "md_get_string s key =
     ok_or (Option.bind (md_get s key) as_str) (InvalidMetadata key ExpectedString)"

definition md_get_u32 :: "metadata_store \<Rightarrow> string \<Rightarrow> u32 gguf_result" where
  "md_get_u32 s key =
     ok_or (Option.bind (md_get s key) as_u32) (InvalidMetadata key ExpectedU32)"

definition md_get_u64 :: "metadata_store \<Rightarrow> string \<Rightarrow> u64 gguf_result" where
  "md_get_u64 s key =
     ok_or (Option.bind (md_get s key) as_u64) (InvalidMetadata key ExpectedU64)"

definition md_get_f32 :: "metadata_store \<Rightarrow> string \<Rightarrow> u32 gguf_result" where
  "md_get_f32 s key =
     ok_or (Option.bind (md_get s key) as_f32) (InvalidMetadata key ExpectedF32)"

definition md_get_string_or :: "metadata_store \<Rightarrow> string \<Rightarrow> string \<Rightarrow> string" where
  "md_get_string_or s key dflt =
     (case Option.bind (md_get s key) as_str of None \<Rightarrow> dflt | Some v \<Rightarrow> v)"

definition md_len :: "metadata_store \<Rightarrow> nat" where
  "md_len s = length (md_entries s)"

definition md_is_empty :: "metadata_store \<Rightarrow> bool" where
  "md_is_empty s \<longleftrightarrow> md_entries s = []"

definition md_keys :: "metadata_store \<Rightarrow> string list" where
  "md_keys s = map fst (md_entries s)"

text \<open>The invariant of the store: a key is there once.\<close>

definition md_wf :: "metadata_store \<Rightarrow> bool" where
  "md_wf s \<longleftrightarrow> distinct (md_keys s)"

lemma md_wf_new [simp]: "md_wf md_new"
  by (simp add: md_wf_def md_new_def md_keys_def)

lemma md_wf_insert [simp]: "md_wf s \<Longrightarrow> md_wf (md_insert k v s)"
  by (simp add: md_wf_def md_insert_def md_keys_def distinct_update)

lemma md_get_new [simp]: "md_get md_new k = None"
  by (simp add: md_get_def md_new_def)

lemma md_get_insert: "md_get (md_insert k v s) = (md_get s)(k \<mapsto> v)"
  by (rule ext) (simp add: md_get_def md_insert_def update_conv')

definition md_of_list :: "(string \<times> metadata_value) list \<Rightarrow> metadata_store" where
  "md_of_list kvs = fold (\<lambda>(k, v). md_insert k v) kvs md_new"

lemma md_get_fold_insert:
  "md_get (fold (\<lambda>(k, v). md_insert k v) kvs s) = md_get s ++ map_of (rev kvs)"
  by (induction kvs arbitrary: s) (auto simp: md_get_insert map_add_def fun_eq_iff split: option.splits)

lemma md_get_of_list: "md_get (md_of_list kvs) = map_of (rev kvs)"
  by (simp add: md_of_list_def md_get_fold_insert fun_eq_iff map_add_def split: option.splits)

lemma md_wf_of_list: "md_wf (md_of_list kvs)"
proof -
  have "md_wf s \<Longrightarrow> md_wf (fold (\<lambda>(k, v). md_insert k v) kvs s)" for s
    by (induction kvs arbitrary: s) auto
  then show ?thesis by (simp add: md_of_list_def)
qed

end
