(* ===== verification/Gguf_Tensor.thy ===== *)
theory Gguf_Tensor
  imports Gguf_Types
begin

text \<open>
  Tensor descriptions and the tensor registry of \<open>crates/oxillama-gguf/src/tensor_info.rs\<close>.
  The plain sizes (\<open>n_elements\<close>, \<open>data_size\<close>) are the wrapping \<open>u64\<close> arithmetic of a
  release build; the \<open>try_\<close> variants are the checked ones the parser uses on untrusted files.
\<close>

record tensor_info =
  ti_name :: string
  ti_n_dims :: u32
  ti_dimensions :: "u64 list"
  ti_type :: tensor_type
  ti_offset :: u64

definition n_elements :: "tensor_info \<Rightarrow> u64" where
  "n_elements t = (if ti_dimensions t = [] then 0 else prod_list (ti_dimensions t))"

definition data_size :: "tensor_info \<Rightarrow> u64" where
  "data_size t =
     (let n_blocks = div_ceil (n_elements t) (word_of_nat (block_size (ti_type t)))
      in n_blocks * word_of_nat (block_bytes (ti_type t)))"

fun try_product :: "gguf_error \<Rightarrow> u64 \<Rightarrow> u64 list \<Rightarrow> u64 gguf_result" where
  "try_product e acc [] = Inr acc"
| "try_product e acc (d # ds) =
     and_then (ok_or (checked_mul acc d) e) (\<lambda>acc. try_product e acc ds)"

definition try_n_elements :: "tensor_info \<Rightarrow> u64 gguf_result" where
  "try_n_elements t =
     (if ti_dimensions t = [] then Inr 0
      else try_product (IntegrityError (ti_name t) (DimensionsOverflow (ti_dimensions t)))
             1 (ti_dimensions t))"

definition try_data_size :: "tensor_info \<Rightarrow> u64 gguf_result" where
  "try_data_size t =
     and_then (try_n_elements t) (\<lambda>n_elements.
       let bsize = word_of_nat (block_size (ti_type t)) :: u64 in
       if bsize = 0 then Inl (IntegrityError (ti_name t) ZeroBlockSize)
       else let bbytes = word_of_nat (block_bytes (ti_type t)) :: u64;
                n_blocks = div_ceil n_elements bsize
            in ok_or (checked_mul n_blocks bbytes)
                 (IntegrityError (ti_name t) (DataSizeOverflow n_blocks bbytes)))"

record tensor_store =
  ts_infos :: "(string \<times> tensor_info) list"
  ts_data_offset :: u64

definition ts_new :: tensor_store where
  "ts_new = \<lparr>ts_infos = [], ts_data_offset = 0\<rparr>"

definition set_data_offset :: "u64 \<Rightarrow> tensor_store \<Rightarrow> tensor_store" where
  "set_data_offset offset s = s\<lparr>ts_data_offset := offset\<rparr>"

definition ts_insert :: "tensor_info \<Rightarrow> tensor_store \<Rightarrow> tensor_store" where
  "ts_insert info s = s\<lparr>ts_infos := AList.update (ti_name info) info (ts_infos s)\<rparr>"

definition ts_contains :: "tensor_store \<Rightarrow> string \<Rightarrow> bool" where
  "ts_contains s name \<longleftrightarrow> map_of (ts_infos s) name \<noteq> None"

definition ts_try_insert :: "tensor_info \<Rightarrow> tensor_store \<Rightarrow> tensor_store gguf_result" where
  "ts_try_insert info s =
     (if map_of (ts_infos s) (ti_name info) \<noteq> None
      then Inl (IntegrityError (ti_name info) DuplicateTensorName)
      else Inr (ts_insert info s))"

definition ts_get :: "tensor_store \<Rightarrow> string \<Rightarrow> tensor_info gguf_result" where
  "ts_get s name = ok_or (map_of (ts_infos s) name) (TensorNotFound name)"

definition ts_len :: "tensor_store \<Rightarrow> nat" where
  "ts_len s = length (ts_infos s)"

definition ts_is_empty :: "tensor_store \<Rightarrow> bool" where
  "ts_is_empty s \<longleftrightarrow> ts_infos s = []"

definition ts_names :: "tensor_store \<Rightarrow> string list" where
  "ts_names s = map fst (ts_infos s)"

definition set_type :: "string \<Rightarrow> tensor_type \<Rightarrow> tensor_store \<Rightarrow> tensor_store" where
  "set_type name new_type s =
     (case map_of (ts_infos s) name of
        None \<Rightarrow> s
      | Some info \<Rightarrow>
          s\<lparr>ts_infos := AList.update name (info\<lparr>ti_type := new_type\<rparr>) (ts_infos s)\<rparr>)"

definition absolute_offset :: "tensor_store \<Rightarrow> string \<Rightarrow> u64 gguf_result" where
  "absolute_offset s name =
     and_then (ts_get s name) (\<lambda>info. Inr (ts_data_offset s + ti_offset info))"

section \<open>Sizes\<close>

text \<open>The element count and byte size as mathematical numbers.\<close>

definition elements_of :: "u64 list \<Rightarrow> nat" where
  "elements_of dims = (if dims = [] then 0 else prod_list (map unat dims))"

definition bytes_of :: "u64 list \<Rightarrow> tensor_type \<Rightarrow> nat" where
  "bytes_of dims t = (elements_of dims + (block_size t - 1)) div block_size t * block_bytes t"

lemma div_offset: "x < b \<Longrightarrow> (x + b * k) div b = k" for x b k :: nat
  by (subst div_mult_self2) simp_all

lemma unat_div_ceil:
  fixes a b :: u64
  assumes "b \<noteq> 0"
  shows "unat (div_ceil a b) = (unat a + (unat b - 1)) div unat b"
proof -
  let ?q = "unat a div unat b" and ?m = "unat a mod unat b"
  have b: "0 < unat b" using assms by (simp add: unat_gt_0)
  have a: "unat a = unat b * ?q + ?m" and m: "?m < unat b" using b by simp_all
  show ?thesis
  proof (cases "a mod b > 0")
    case True
    then have pos: "0 < ?m" by (simp add: word_less_nat_alt unat_mod)
    have "b \<noteq> 1" using True by auto
    then have "1 < unat b" using b by (metis less_one linorder_neqE_nat unat_1 word_unat_eq_iff not_gr_zero)
    then have "?q < unat a" using pos by (intro div_less_dividend) (auto intro: gr0I)
    moreover have "unat a < 2 ^ 64" using unsigned_less [of a] by simp
    ultimately have "unat (a div b + 1) = ?q + 1"
      by (subst unat_add_small) (simp_all add: unat_div)
    moreover have "unat a + (unat b - 1) = (?m - 1) + unat b * (?q + 1)"
      using a b pos unfolding distrib_left mult_1_right by arith
    then have "(unat a + (unat b - 1)) div unat b = ?q + 1"
      using div_offset [of "?m - 1" "unat b" "?q + 1"] m by simp
    ultimately show ?thesis using True by (simp add: div_ceil_def)
  next
    case False
    then have "?m = 0" by (simp add: word_less_nat_alt unat_mod)
    then have "unat a + (unat b - 1) = (unat b - 1) + unat b * ?q" using a by linarith
    then have "(unat a + (unat b - 1)) div unat b = ?q"
      using div_offset [of "unat b - 1" "unat b" ?q] b by simp
    with False show ?thesis by (simp add: div_ceil_def unat_div)
  qed
qed

lemma try_product_Inr:
  "try_product e acc ds = Inr n \<Longrightarrow> unat n = unat acc * prod_list (map unat ds)"
  by (induction ds arbitrary: acc)
     (auto simp: and_then_Inr_iff ok_or_Inr_iff dest!: checked_mul_Some)

lemma try_product_small:
  assumes "unat acc * prod_list (map unat ds) < 2 ^ 64" and "0 \<notin> set ds"
  shows "\<exists>n. try_product e acc ds = Inr n"
  using assms
proof (induction ds arbitrary: acc)
  case Nil
  then show ?case by simp
next
  case (Cons d ds)
  have "0 < prod_list (map unat ds)"
    using Cons.prems(2) by (induction ds) (auto simp: unat_gt_0)
  then have "unat acc * unat d * 1 \<le> unat acc * unat d * prod_list (map unat ds)"
    by (intro mult_le_mono) simp_all
  with Cons.prems(1) have small: "unat acc * unat d < 2 ^ 64"
    by (simp only: list.map prod_list.Cons mult.assoc mult_1_right)
  then have c: "checked_mul acc d = Some (acc * d)" by (simp add: checked_mul_def)
  with Cons show ?case by (simp add: checked_mul_Some [OF c] mult.assoc)
qed

lemma try_product_word: "try_product e acc ds = Inr n \<Longrightarrow> n = acc * prod_list ds"
proof (induction ds arbitrary: acc)
  case Nil
  then show ?case by simp
next
  case (Cons d ds)
  then have "try_product e (acc * d) ds = Inr n"
    by (auto simp: and_then_Inr_iff ok_or_Inr_iff checked_mul_def split: if_splits)
  from Cons.IH [OF this] show ?case by (simp add: mult.assoc)
qed

lemma try_product_err: "try_product e acc ds = Inl e' \<Longrightarrow> e' = e"
  by (induction ds arbitrary: acc) (auto simp: and_then_def ok_or_def split: sum.splits option.splits)

lemma try_n_elements_Inr:
  assumes "try_n_elements t = Inr n"
  shows "unat n = elements_of (ti_dimensions t)" and "n = n_elements t"
proof -
  show "unat n = elements_of (ti_dimensions t)"
    using assms by (auto simp: try_n_elements_def elements_of_def split: if_splits dest!: try_product_Inr)
  show "n = n_elements t"
    using assms by (auto simp: try_n_elements_def n_elements_def split: if_splits dest!: try_product_word)
qed

lemma try_data_size_Inr:
  assumes "try_data_size t = Inr n"
  shows "unat n = bytes_of (ti_dimensions t) (ti_type t)" and "n = data_size t"
proof -
  let ?bs = "word_of_nat (block_size (ti_type t)) :: u64"
  let ?bb = "word_of_nat (block_bytes (ti_type t)) :: u64"
  from assms obtain e where e: "try_n_elements t = Inr e"
    and m: "checked_mul (div_ceil e ?bs) ?bb = Some n"
    by (auto simp: try_data_size_def Let_def and_then_Inr_iff ok_or_Inr_iff split: if_splits)
  show "unat n = bytes_of (ti_dimensions t) (ti_type t)"
    using checked_mul_Some [OF m] try_n_elements_Inr(1) [OF e]
    by (simp add: unat_div_ceil bytes_of_def)
  show "n = data_size t"
    using m try_n_elements_Inr(2) [OF e]
    by (simp add: data_size_def Let_def checked_mul_def split: if_splits)
qed

lemma try_data_size_small:
  assumes "0 \<notin> set (ti_dimensions t)" and "elements_of (ti_dimensions t) < 2 ^ 64"
    and "bytes_of (ti_dimensions t) (ti_type t) < 2 ^ 64"
  shows "try_data_size t = Inr (word_of_nat (bytes_of (ti_dimensions t) (ti_type t)))"
proof -
  let ?bs = "word_of_nat (block_size (ti_type t)) :: u64"
  let ?bb = "word_of_nat (block_bytes (ti_type t)) :: u64"
  obtain e where e: "try_n_elements t = Inr e"
  proof (cases "ti_dimensions t = []")
    case True
    then show ?thesis using that by (simp add: try_n_elements_def)
  next
    case False
    with assms(1,2) try_product_small [of 1 "ti_dimensions t"] that
    show ?thesis by (auto simp: try_n_elements_def elements_of_def)
  qed
  have eq: "unat (div_ceil e ?bs) * unat ?bb = bytes_of (ti_dimensions t) (ti_type t)"
    using try_n_elements_Inr(1) [OF e] by (simp add: unat_div_ceil bytes_of_def)
  then have "checked_mul (div_ceil e ?bs) ?bb = Some (div_ceil e ?bs * ?bb)"
    using assms(3) by (simp add: checked_mul_def)
  then have "try_data_size t = Inr (div_ceil e ?bs * ?bb)"
    using e by (simp add: try_data_size_def Let_def)
  then show ?thesis by (simp flip: try_data_size_Inr(1))
qed

section \<open>The registry\<close>

definition ts_wf :: "tensor_store \<Rightarrow> bool" where
  "ts_wf s \<longleftrightarrow> distinct (ts_names s) \<and> (\<forall>(k, t) \<in> set (ts_infos s). k = ti_name t)"

lemma ts_wf_new [simp]: "ts_wf ts_new"
  by (simp add: ts_wf_def ts_new_def ts_names_def)

lemma ts_try_insert_Inr:
  assumes "ts_try_insert info s = Inr s'"
  shows "map_of (ts_infos s) (ti_name info) = None"
    and "map_of (ts_infos s') = (map_of (ts_infos s))(ti_name info \<mapsto> info)"
    and "ts_len s' = Suc (ts_len s)"
    and "ts_data_offset s' = ts_data_offset s"
    and "ts_wf s \<Longrightarrow> ts_wf s'"
proof -
  from assms have new: "map_of (ts_infos s) (ti_name info) = None"
    and s': "s' = ts_insert info s"
    by (auto simp: ts_try_insert_def split: if_splits)
  have app: "AList.update (ti_name info) info (ts_infos s) = ts_infos s @ [(ti_name info, info)]"
    using new by (intro AList_update_new) (simp add: map_of_eq_None_iff)
  show "map_of (ts_infos s) (ti_name info) = None" by (rule new)
  show "map_of (ts_infos s') = (map_of (ts_infos s))(ti_name info \<mapsto> info)"
    by (simp add: s' ts_insert_def update_conv' fun_eq_iff)
  show "ts_len s' = Suc (ts_len s)" by (simp add: s' ts_insert_def ts_len_def app)
  show "ts_data_offset s' = ts_data_offset s" by (simp add: s' ts_insert_def)
  show "ts_wf s \<Longrightarrow> ts_wf s'"
    using new by (auto simp: s' ts_wf_def ts_insert_def ts_names_def app map_of_eq_None_iff)
qed

lemma ts_get_Inr: "ts_get s name = Inr t \<longleftrightarrow> map_of (ts_infos s) name = Some t"
  by (simp add: ts_get_def ok_or_Inr_iff)

lemma ts_wf_get: "ts_wf s \<Longrightarrow> ts_get s name = Inr t \<Longrightarrow> ti_name t = name"
  by (auto simp: ts_get_Inr ts_wf_def dest!: map_of_SomeD)

lemma set_type_get:
  "map_of (ts_infos (set_type name ty s)) n =
     (if n = name then map_option (\<lambda>t. t\<lparr>ti_type := ty\<rparr>) (map_of (ts_infos s) n)
      else map_of (ts_infos s) n)"
  by (auto simp: set_type_def update_conv' split: option.splits)

end
