(* ===== verification/Gguf_Parser.thy ===== *)
theory Gguf_Parser
  imports Gguf_Header Gguf_Metadata Gguf_Tensor
begin

text \<open>
  The file parser of \<open>crates/oxillama-gguf/src/parser.rs\<close>: metadata values with their
  bounded nesting and the count check that precedes an array, the metadata and tensor-info
  sections, the alignment of the data section, and the byte range of a tensor.

  The counted loops of the source recurse on the number of entries left. The nesting depth of
  \<open>read_metadata_value\<close> is the termination measure: the guard \<open>depth > 8\<close> is what bounds
  the recursion. \<open>usize_max\<close> is the largest \<open>usize\<close> of the target, which the
  conversions of \<open>tensor_data_range\<close> are about.
\<close>

definition MAX_METADATA_ARRAY_DEPTH :: nat where
  "MAX_METADATA_ARRAY_DEPTH = 8"

definition MAX_TENSOR_DIMS :: u32 where
  "MAX_TENSOR_DIMS = 4"

definition MAX_GGUF_ALIGNMENT :: u64 where
  "MAX_GGUF_ALIGNMENT = push_bit 30 1"

fun min_encoded_value_size :: "value_type \<Rightarrow> u32 \<Rightarrow> nat" where
  "min_encoded_value_size TUint8 ver = 1"
| "min_encoded_value_size TInt8 ver = 1"
| "min_encoded_value_size TBool ver = 1"
| "min_encoded_value_size TUint16 ver = 2"
| "min_encoded_value_size TInt16 ver = 2"
| "min_encoded_value_size TUint32 ver = 4"
| "min_encoded_value_size TInt32 ver = 4"
| "min_encoded_value_size TFloat32 ver = 4"
| "min_encoded_value_size TUint64 ver = 8"
| "min_encoded_value_size TInt64 ver = 8"
| "min_encoded_value_size TFloat64 ver = 8"
| "min_encoded_value_size TString ver = (if ver \<ge> 3 then 8 else 4)"
| "min_encoded_value_size TArray ver = (if ver \<ge> 3 then 12 else 8)"

text \<open>\<open>u64::is_power_of_two\<close> of the standard library.\<close>

definition is_power_of_two :: "u64 \<Rightarrow> bool" where
  "is_power_of_two n \<longleftrightarrow> n \<noteq> 0 \<and> n AND (n - 1) = 0"

definition validate_alignment :: "u64 \<Rightarrow> unit gguf_result" where
  "validate_alignment alignment =
     (if alignment = 0 then Inr ()
      else if \<not> is_power_of_two alignment \<or> alignment > MAX_GGUF_ALIGNMENT
      then Inl (InvalidMetadata ''general.alignment'' (BadAlignment alignment))
      else Inr ())"

definition align_up :: "u64 \<Rightarrow> u64 \<Rightarrow> u64" where
  "align_up val alignment =
     (if alignment = 0 then val
      else let rem = val mod alignment
           in if rem = 0 then val
              else let pad = alignment - rem in saturating_add val pad)"

definition read_str :: "u32 \<Rightarrow> string read" where
  "read_str ver = (if ver \<ge> 3 then read_string else read_string_v2)"

definition read_array_count :: "u32 \<Rightarrow> u64 read" where
  "read_array_count ver r =
     (if ver \<ge> 3 then read_u64 r else and_then (read_u32 r) (\<lambda>(n, r). Inr (ucast n, r)))"

definition read_as :: "('a \<Rightarrow> 'b) \<Rightarrow> 'a read \<Rightarrow> 'b read" where
  "read_as f p r = and_then (p r) (\<lambda>(v, r). Inr (f v, r))"

function read_metadata_value ::
    "value_type \<Rightarrow> u32 \<Rightarrow> nat \<Rightarrow> reader \<Rightarrow> (metadata_value \<times> reader) gguf_result" where
  "read_metadata_value value_type ver depth r =
     (if depth > MAX_METADATA_ARRAY_DEPTH
      then Inl (InvalidMetadata ''<array>'' NestingTooDeep)
      else case value_type of
        TUint8 \<Rightarrow> read_as VUint8 read_u8 r
      | TInt8 \<Rightarrow> read_as VInt8 read_u8 r
      | TUint16 \<Rightarrow> read_as VUint16 read_u16 r
      | TInt16 \<Rightarrow> read_as VInt16 read_i16 r
      | TUint32 \<Rightarrow> read_as VUint32 read_u32 r
      | TInt32 \<Rightarrow> read_as VInt32 read_i32 r
      | TFloat32 \<Rightarrow> read_as VFloat32 read_f32 r
      | TFloat64 \<Rightarrow> read_as VFloat64 read_f64 r
      | TBool \<Rightarrow> read_as VBool read_bool r
      | TString \<Rightarrow> read_as VString (read_str ver) r
      | TUint64 \<Rightarrow> read_as VUint64 read_u64 r
      | TInt64 \<Rightarrow> read_as VInt64 read_i64 r
      | TArray \<Rightarrow>
          and_then (read_u32 r) (\<lambda>(elem_type_id, r).
          and_then (ok_or (value_type_from_u32 elem_type_id)
                      (InvalidMetadata ''<array>'' (UnknownElementType elem_type_id)))
            (\<lambda>elem_type.
          and_then (read_array_count ver r) (\<lambda>(count_u64, r).
            let min_elem_size = min_encoded_value_size elem_type ver;
                max_count = remaining r div min_elem_size
            in if unat count_u64 > max_count
               then Inl (InvalidMetadata ''<array>''
                      (ArrayCountTooLarge count_u64 (remaining r) min_elem_size))
               else and_then
                      (read_n (unat count_u64) (\<lambda>r. read_metadata_value elem_type ver (depth + 1) r) r)
                      (\<lambda>(elements, r). Inr (VArray elements, r))))))"
  by pat_completeness auto
termination
  by (relation "measure (\<lambda>(vt, ver, depth, r). 9 - depth)")
     (auto simp: MAX_METADATA_ARRAY_DEPTH_def)

declare read_metadata_value.simps [simp del]

definition parse_kv :: "u32 \<Rightarrow> (string \<times> metadata_value) read" where
  "parse_kv ver r =
     and_then (read_str ver r) (\<lambda>(key, r).
     and_then (read_u32 r) (\<lambda>(value_type_id, r).
     and_then (ok_or (value_type_from_u32 value_type_id)
                 (InvalidMetadata key (UnknownValueType value_type_id)))
       (\<lambda>value_type.
     and_then (read_metadata_value value_type ver 0 r) (\<lambda>(val, r).
       Inr ((key, val), r)))))"

fun parse_metadata_loop :: "nat \<Rightarrow> u32 \<Rightarrow> metadata_store \<Rightarrow> metadata_store read" where
  "parse_metadata_loop 0 ver store r = Inr (store, r)"
| "parse_metadata_loop (Suc n) ver store r =
     and_then (parse_kv ver r) (\<lambda>((key, val), r).
       parse_metadata_loop n ver (md_insert key val store) r)"

definition parse_metadata :: "gguf_header \<Rightarrow> metadata_store read" where
  "parse_metadata header =
     parse_metadata_loop (unat (metadata_kv_count header)) (version header) md_new"

definition read_dim :: "u32 \<Rightarrow> u64 read" where
  "read_dim ver r =
     (if ver \<ge> 3 then read_u64 r else and_then (read_u32 r) (\<lambda>(d, r). Inr (ucast d, r)))"

definition read_offset :: "u32 \<Rightarrow> u64 read" where
  "read_offset ver r =
     (if ver \<ge> 2 then read_u64 r else and_then (read_u32 r) (\<lambda>(d, r). Inr (ucast d, r)))"

definition parse_tensor_info :: "u32 \<Rightarrow> tensor_info read" where
  "parse_tensor_info ver r =
     and_then (read_str ver r) (\<lambda>(name, r).
     and_then (read_u32 r) (\<lambda>(n_dims, r).
       if n_dims = 0 \<or> n_dims > MAX_TENSOR_DIMS
       then Inl (IntegrityError name (BadDimensionCount n_dims))
       else
     and_then (read_n (unat n_dims) (read_dim ver) r) (\<lambda>(dimensions, r).
     and_then (read_u32 r) (\<lambda>(type_id, r).
     and_then (ok_or (tensor_type_from_u32 type_id) (UnsupportedQuantType type_id))
       (\<lambda>tensor_type.
     and_then (read_offset ver r) (\<lambda>(offset, r).
       Inr (\<lparr>ti_name = name, ti_n_dims = n_dims, ti_dimensions = dimensions,
             ti_type = tensor_type, ti_offset = offset\<rparr>, r)))))))"

fun parse_tensor_infos_loop :: "nat \<Rightarrow> u32 \<Rightarrow> tensor_store \<Rightarrow> tensor_store read" where
  "parse_tensor_infos_loop 0 ver store r = Inr (store, r)"
| "parse_tensor_infos_loop (Suc n) ver store r =
     and_then (parse_tensor_info ver r) (\<lambda>(info, r).
     and_then (ts_try_insert info store) (\<lambda>store.
       parse_tensor_infos_loop n ver store r))"

definition parse_tensor_infos :: "gguf_header \<Rightarrow> tensor_store read" where
  "parse_tensor_infos header r =
     and_then (parse_tensor_infos_loop (unat (tensor_count header)) (version header) ts_new r)
       (\<lambda>(store, r).
         if of_nat (ts_len store) \<noteq> tensor_count header
         then Inl (IntegrityError ''<tensor_infos>''
                     (TensorCountMismatch (tensor_count header) (ts_len store)))
         else Inr (store, r))"

record gguf_file =
  gf_header :: gguf_header
  gf_metadata :: metadata_store
  gf_tensors :: tensor_store
  gf_alignment :: u64

definition file_alignment :: "metadata_store \<Rightarrow> u64" where
  "file_alignment metadata =
     (case Option.bind (md_get metadata ''general.alignment'') as_u64 of
        None \<Rightarrow> GGUF_DEFAULT_ALIGNMENT | Some a \<Rightarrow> a)"

definition gguf_parse :: "u8 list \<Rightarrow> gguf_file gguf_result" where
  "gguf_parse data =
     and_then (header_parse data 0) (\<lambda>(header, offset).
     and_then (parse_metadata header (reader_new data (unat offset))) (\<lambda>(metadata, r).
       let alignment = file_alignment metadata in
     and_then (validate_alignment alignment) (\<lambda>_.
     and_then (parse_tensor_infos header r) (\<lambda>(tensors, r).
       let data_offset = align_up (of_nat (position r)) alignment in
       Inr \<lparr>gf_header = header, gf_metadata = metadata,
            gf_tensors = set_data_offset data_offset tensors, gf_alignment = alignment\<rparr>))))"

definition tensor_data_range ::
    "nat \<Rightarrow> gguf_file \<Rightarrow> nat \<Rightarrow> string \<Rightarrow> (nat \<times> nat) gguf_result" where
  "tensor_data_range usize_max f data_len name =
     and_then (ts_get (gf_tensors f) name) (\<lambda>info.
       let base_offset = ts_data_offset (gf_tensors f) in
     and_then (ok_or (checked_add base_offset (ti_offset info)) (UnexpectedEof base_offset))
       (\<lambda>abs_offset.
     and_then (try_data_size info) (\<lambda>size.
       if unat abs_offset > usize_max then Inl (UnexpectedEof abs_offset)
       else let start = unat abs_offset in
       if unat size > usize_max then Inl (UnexpectedEof abs_offset)
       else let size_usize = unat size in
       if start + size_usize > usize_max then Inl (UnexpectedEof abs_offset)
       else let end_pos = start + size_usize in
       if end_pos > data_len then Inl (UnexpectedEof abs_offset)
       else Inr (start, size_usize))))"

definition tensor_data :: "nat \<Rightarrow> gguf_file \<Rightarrow> u8 list \<Rightarrow> string \<Rightarrow> u8 list gguf_result" where
  "tensor_data usize_max f data name =
     and_then (tensor_data_range usize_max f (length data) name)
       (\<lambda>(start, len). Inr (take len (drop start data)))"

definition architecture :: "gguf_file \<Rightarrow> string gguf_result" where
  "architecture f = md_get_string (gf_metadata f) ''general.architecture''"

definition model_name :: "gguf_file \<Rightarrow> string option" where
  "model_name f = Option.bind (md_get (gf_metadata f) ''general.name'') as_str"

end
