(* ===== verification/Gguf_Writer.thy ===== *)
theory Gguf_Writer
  imports Gguf_Metadata Gguf_Tensor
begin

text \<open>
  The GGUF v3 writer of \<open>crates/oxillama-gguf/src/writer.rs\<close>, in both of its paths: buffered
  (\<open>add_tensor\<close>, \<open>write_to\<close>) and streaming (\<open>declare_tensor\<close>, \<open>into_data_writer\<close>,
  \<open>write_tensor\<close>, \<open>write_tensor_from_chunks\<close>, \<open>finish\<close>).

  The Rust code is generic in \<open>W: Write\<close>. Here the sink is a value \<open>w\<close> threaded through the
  calls, and the trait's two methods are the fields of \<open>write_ops\<close>, which may fail with the
  text of an \<open>io::Error\<close>. The locale \<open>byte_sink\<close> states what \<open>std::io::Write\<close> promises of
  them; \<open>Vec<u8>\<close> (which never fails) is its interpretation.
\<close>

section \<open>Writer state\<close>

record tensor_meta =
  tm_name :: string
  tm_dimensions :: "u64 list"
  tm_type :: tensor_type
  tm_data_size :: u64

record pending_tensor =
  pt_meta :: tensor_meta
  pt_data :: "u8 list"

record gguf_writer =
  gw_metadata :: "(string \<times> metadata_value) list"
  gw_tensors :: "pending_tensor list"
  gw_tensor_metas :: "tensor_meta list"

definition writer_new :: gguf_writer where
  "writer_new = \<lparr>gw_metadata = [], gw_tensors = [], gw_tensor_metas = []\<rparr>"

definition add_metadata :: "string \<Rightarrow> metadata_value \<Rightarrow> gguf_writer \<Rightarrow> gguf_writer" where
  "add_metadata key val g = g\<lparr>gw_metadata := gw_metadata g @ [(key, val)]\<rparr>"

definition add_tensor ::
    "string \<Rightarrow> u64 list \<Rightarrow> tensor_type \<Rightarrow> u8 list \<Rightarrow> gguf_writer \<Rightarrow> gguf_writer" where
  "add_tensor name dims ty data g =
     g\<lparr>gw_tensors := gw_tensors g @
        [\<lparr>pt_meta = \<lparr>tm_name = name, tm_dimensions = dims, tm_type = ty,
                    tm_data_size = of_nat (length data)\<rparr>,
          pt_data = data\<rparr>]\<rparr>"

definition compute_tensor_data_size ::
    "string \<Rightarrow> u64 list \<Rightarrow> tensor_type \<Rightarrow> u64 gguf_result" where
  "compute_tensor_data_size name dims ty =
     try_data_size \<lparr>ti_name = name, ti_n_dims = of_nat (length dims), ti_dimensions = dims,
                    ti_type = ty, ti_offset = 0\<rparr>"

definition declare_tensor ::
    "string \<Rightarrow> u64 list \<Rightarrow> tensor_type \<Rightarrow> gguf_writer \<Rightarrow> gguf_writer gguf_result" where
  "declare_tensor name dims ty g =
     and_then (compute_tensor_data_size name dims ty) (\<lambda>data_size.
       Inr (g\<lparr>gw_tensor_metas := gw_tensor_metas g @
                [\<lparr>tm_name = name, tm_dimensions = dims, tm_type = ty,
                  tm_data_size = data_size\<rparr>]\<rparr>))"

definition alignment_padding :: "u64 \<Rightarrow> u64 \<Rightarrow> u64" where
  "alignment_padding offset alignment =
     (if alignment = 0 then 0
      else let rem = offset mod alignment in if rem = 0 then 0 else alignment - rem)"

section \<open>The sink\<close>

record 'w write_ops =
  op_write_all :: "u8 list \<Rightarrow> 'w \<Rightarrow> string + 'w"
  op_flush :: "'w \<Rightarrow> string + 'w"

definition io_write_err :: "string \<Rightarrow> gguf_error" where
  "io_write_err e = WriteError (IoError e)"

definition put :: "'w write_ops \<Rightarrow> u8 list \<Rightarrow> 'w \<Rightarrow> 'w gguf_result" where
  "put io bs w = (case op_write_all io bs w of Inl e \<Rightarrow> Inl (io_write_err e) | Inr w \<Rightarrow> Inr w)"

text \<open>A write that reports the number of bytes the source adds to its running offset.\<close>

definition put_n :: "'w write_ops \<Rightarrow> u8 list \<Rightarrow> u64 \<Rightarrow> 'w \<Rightarrow> (u64 \<times> 'w) gguf_result" where
  "put_n io bs n w = and_then (put io bs w) (\<lambda>w. Inr (n, w))"

definition zero_pad :: "u64 \<Rightarrow> u8 list" where
  "zero_pad n = replicate (unat n) 0"

section \<open>Header, strings and metadata values\<close>

definition write_header :: "'w write_ops \<Rightarrow> u64 \<Rightarrow> u64 \<Rightarrow> 'w \<Rightarrow> (u64 \<times> 'w) gguf_result" where
  "write_header io tensors kvs w =
     and_then (put io (to_le_bytes 4 GGUF_MAGIC) w) (\<lambda>w.
     and_then (put io (to_le_bytes 4 (3 :: u32)) w) (\<lambda>w.
     and_then (put io (to_le_bytes 8 tensors) w) (\<lambda>w.
     and_then (put io (to_le_bytes 8 kvs) w) (\<lambda>w. Inr (24, w)))))"

definition write_string :: "'w write_ops \<Rightarrow> string \<Rightarrow> 'w \<Rightarrow> (u64 \<times> 'w) gguf_result" where
  "write_string io s w =
     and_then (put io (to_le_bytes 8 (of_nat (length s) :: u64)) w) (\<lambda>w.
     and_then (put io (str_bytes s) w) (\<lambda>w. Inr (8 + of_nat (length s), w)))"

fun value_type_of :: "metadata_value \<Rightarrow> value_type" where
  "value_type_of (VUint8 _) = TUint8"
| "value_type_of (VInt8 _) = TInt8"
| "value_type_of (VUint16 _) = TUint16"
| "value_type_of (VInt16 _) = TInt16"
| "value_type_of (VUint32 _) = TUint32"
| "value_type_of (VInt32 _) = TInt32"
| "value_type_of (VFloat32 _) = TFloat32"
| "value_type_of (VBool _) = TBool"
| "value_type_of (VString _) = TString"
| "value_type_of (VArray _) = TArray"
| "value_type_of (VUint64 _) = TUint64"
| "value_type_of (VInt64 _) = TInt64"
| "value_type_of (VFloat64 _) = TFloat64"

definition metadata_value_type_id :: "metadata_value \<Rightarrow> u32" where
  "metadata_value_type_id v = value_type_as_u32 (value_type_of v)"

definition array_elem_type :: "metadata_value list \<Rightarrow> u32" where
  "array_elem_type elements =
     (case elements of [] \<Rightarrow> value_type_as_u32 TUint8 | e # _ \<Rightarrow> metadata_value_type_id e)"

definition write_bool :: "'w write_ops \<Rightarrow> bool \<Rightarrow> 'w \<Rightarrow> (u64 \<times> 'w) gguf_result" where
  "write_bool io v w = put_n io [if v then 1 else 0] 1 w"

fun write_array :: "'w write_ops \<Rightarrow> metadata_value list \<Rightarrow> 'w \<Rightarrow> (u64 \<times> 'w) gguf_result"
and write_elements ::
    "'w write_ops \<Rightarrow> metadata_value list \<Rightarrow> u64 \<Rightarrow> 'w \<Rightarrow> (u64 \<times> 'w) gguf_result"
and write_array_element ::
    "'w write_ops \<Rightarrow> metadata_value \<Rightarrow> 'w \<Rightarrow> (u64 \<times> 'w) gguf_result" where
  "write_array io elements w =
     and_then (put io (to_le_bytes 4 (array_elem_type elements)) w) (\<lambda>w.
     and_then (put io (to_le_bytes 8 (of_nat (length elements) :: u64)) w) (\<lambda>w.
       write_elements io elements (4 + 8) w))"
| "write_elements io [] written w = Inr (written, w)"
| "write_elements io (e # es) written w =
     and_then (write_array_element io e w) (\<lambda>(n, w). write_elements io es (written + n) w)"
| "write_array_element io (VUint8 v) w = put_n io [v] 1 w"
| "write_array_element io (VInt8 v) w = put_n io [v] 1 w"
| "write_array_element io (VUint16 v) w = put_n io (to_le_bytes 2 v) 2 w"
| "write_array_element io (VInt16 v) w = put_n io (to_le_bytes 2 v) 2 w"
| "write_array_element io (VUint32 v) w = put_n io (to_le_bytes 4 v) 4 w"
| "write_array_element io (VInt32 v) w = put_n io (to_le_bytes 4 v) 4 w"
| "write_array_element io (VFloat32 v) w = put_n io (to_le_bytes 4 v) 4 w"
| "write_array_element io (VBool v) w = write_bool io v w"
| "write_array_element io (VString s) w = write_string io s w"
| "write_array_element io (VUint64 v) w = put_n io (to_le_bytes 8 v) 8 w"
| "write_array_element io (VInt64 v) w = put_n io (to_le_bytes 8 v) 8 w"
| "write_array_element io (VFloat64 v) w = put_n io (to_le_bytes 8 v) 8 w"
| "write_array_element io (VArray elements) w = write_array io elements w"

definition write_metadata_value ::
    "'w write_ops \<Rightarrow> metadata_value \<Rightarrow> 'w \<Rightarrow> (u64 \<times> 'w) gguf_result" where
  "write_metadata_value io v w =
     and_then (put io (to_le_bytes 4 (metadata_value_type_id v)) w) (\<lambda>w.
     and_then
       (case v of
          VUint8 v \<Rightarrow> put_n io [v] 1 w
        | VInt8 v \<Rightarrow> put_n io [v] 1 w
        | VUint16 v \<Rightarrow> put_n io (to_le_bytes 2 v) 2 w
        | VInt16 v \<Rightarrow> put_n io (to_le_bytes 2 v) 2 w
        | VUint32 v \<Rightarrow> put_n io (to_le_bytes 4 v) 4 w
        | VInt32 v \<Rightarrow> put_n io (to_le_bytes 4 v) 4 w
        | VFloat32 v \<Rightarrow> put_n io (to_le_bytes 4 v) 4 w
        | VBool v \<Rightarrow> write_bool io v w
        | VString s \<Rightarrow> write_string io s w
        | VUint64 v \<Rightarrow> put_n io (to_le_bytes 8 v) 8 w
        | VInt64 v \<Rightarrow> put_n io (to_le_bytes 8 v) 8 w
        | VFloat64 v \<Rightarrow> put_n io (to_le_bytes 8 v) 8 w
        | VArray elements \<Rightarrow> write_array io elements w)
       (\<lambda>(n, w). Inr (4 + n, w)))"

section \<open>The prelude of a file\<close>

text \<open>The loops over metadata, offsets and tensor infos of \<open>write_gguf_prelude\<close>.\<close>

fun write_kvs ::
    "'w write_ops \<Rightarrow> (string \<times> metadata_value) list \<Rightarrow> u64 \<Rightarrow> 'w \<Rightarrow> (u64 \<times> 'w) gguf_result" where
  "write_kvs io [] offset w = Inr (offset, w)"
| "write_kvs io ((key, val) # kvs) offset w =
     and_then (write_string io key w) (\<lambda>(n, w).
     and_then (write_metadata_value io val w) (\<lambda>(m, w).
       write_kvs io kvs (offset + n + m) w))"

fun tensor_offsets :: "tensor_meta list \<Rightarrow> u64 \<Rightarrow> u64 list gguf_result" where
  "tensor_offsets [] tensor_data_offset = Inr []"
| "tensor_offsets (m # ms) tensor_data_offset =
     and_then (ok_or (checked_add tensor_data_offset (tm_data_size m))
                 (IntegrityError (tm_name m) OffsetOverflow)) (\<lambda>next_offset.
       let padding = alignment_padding next_offset GGUF_DEFAULT_ALIGNMENT in
     and_then (tensor_offsets ms (saturating_add next_offset padding)) (\<lambda>offs.
       Inr (tensor_data_offset # offs)))"

fun write_dims :: "'w write_ops \<Rightarrow> u64 list \<Rightarrow> u64 \<Rightarrow> 'w \<Rightarrow> (u64 \<times> 'w) gguf_result" where
  "write_dims io [] offset w = Inr (offset, w)"
| "write_dims io (d # ds) offset w =
     and_then (put io (to_le_bytes 8 d) w) (\<lambda>w. write_dims io ds (offset + 8) w)"

fun write_tensor_infos ::
    "'w write_ops \<Rightarrow> (tensor_meta \<times> u64) list \<Rightarrow> u64 \<Rightarrow> 'w \<Rightarrow> (u64 \<times> 'w) gguf_result" where
  "write_tensor_infos io [] offset w = Inr (offset, w)"
| "write_tensor_infos io ((m, toff) # ms) offset w =
     and_then (write_string io (tm_name m) w) (\<lambda>(n, w).
     and_then (put io (to_le_bytes 4 (of_nat (length (tm_dimensions m)) :: u32)) w) (\<lambda>w.
     and_then (write_dims io (tm_dimensions m) (offset + n + 4) w) (\<lambda>(offset, w).
     and_then (put io (to_le_bytes 4 (tensor_type_as_u32 (tm_type m))) w) (\<lambda>w.
     and_then (put io (to_le_bytes 8 toff) w) (\<lambda>w.
       write_tensor_infos io ms (offset + 4 + 8) w)))))"

definition write_gguf_prelude ::
    "'w write_ops \<Rightarrow> (string \<times> metadata_value) list \<Rightarrow> tensor_meta list \<Rightarrow> 'w \<Rightarrow> 'w gguf_result" where
  "write_gguf_prelude io metadata metas w =
     and_then (write_header io (of_nat (length metas)) (of_nat (length metadata)) w)
       (\<lambda>(offset, w).
     and_then (write_kvs io metadata offset w) (\<lambda>(offset, w).
     and_then (tensor_offsets metas 0) (\<lambda>offsets.
     and_then (write_tensor_infos io (zip metas offsets) offset w) (\<lambda>(offset, w).
       let header_pad = alignment_padding offset GGUF_DEFAULT_ALIGNMENT
       in if header_pad > 0 then put io (zero_pad header_pad) w else Inr w))))"

section \<open>Streaming the tensor data\<close>

record 'w data_writer =
  dw_writer :: 'w
  dw_metas :: "tensor_meta list"
  dw_next_index :: nat
  dw_cumulative_offset :: u64

definition validate_next :: "'w data_writer \<Rightarrow> string \<Rightarrow> u64 gguf_result" where
  "validate_next d name =
     (if dw_next_index d < length (dw_metas d)
      then let meta = dw_metas d ! dw_next_index d in
           if tm_name meta \<noteq> name
           then Inl (WriteError (WrongTensorOrder (tm_name meta) (dw_next_index d)
                       (length (dw_metas d)) name))
           else Inr (tm_data_size meta)
      else Inl (WriteError (AllTensorsWritten name (length (dw_metas d)))))"

definition advance_after_tensor ::
    "'w write_ops \<Rightarrow> u64 \<Rightarrow> 'w data_writer \<Rightarrow> 'w data_writer gguf_result" where
  "advance_after_tensor io written d =
     and_then (ok_or (checked_add (dw_cumulative_offset d) written) (WriteError OffsetOverflow))
       (\<lambda>offset.
     let d = d\<lparr>dw_cumulative_offset := offset, dw_next_index := dw_next_index d + 1\<rparr> in
     if dw_next_index d < length (dw_metas d)
     then let pad = alignment_padding (dw_cumulative_offset d) GGUF_DEFAULT_ALIGNMENT in
          and_then (if pad > 0 then put io (zero_pad pad) (dw_writer d) else Inr (dw_writer d))
            (\<lambda>w. Inr (d\<lparr>dw_writer := w,
                       dw_cumulative_offset := saturating_add (dw_cumulative_offset d) pad\<rparr>))
     else Inr d)"

definition write_tensor ::
    "'w write_ops \<Rightarrow> string \<Rightarrow> u8 list \<Rightarrow> 'w data_writer \<Rightarrow> 'w data_writer gguf_result" where
  "write_tensor io name data d =
     and_then (validate_next d name) (\<lambda>expected_size.
       let len = of_nat (length data) in
       if len \<noteq> expected_size then Inl (WriteError (WrongDataLength name len expected_size))
       else and_then (put io data (dw_writer d)) (\<lambda>w.
              advance_after_tensor io len (d\<lparr>dw_writer := w\<rparr>)))"

fun write_chunks ::
    "'w write_ops \<Rightarrow> string \<Rightarrow> u64 \<Rightarrow> u8 list list \<Rightarrow> u64 \<Rightarrow> 'w \<Rightarrow> (u64 \<times> 'w) gguf_result" where
  "write_chunks io name expected_size [] written w = Inr (written, w)"
| "write_chunks io name expected_size (bytes # chunks) written w =
     and_then (ok_or (checked_add written (of_nat (length bytes)))
                 (WriteError (StreamOverflow name))) (\<lambda>new_written.
       if new_written > expected_size
       then Inl (WriteError (StreamTooLong name new_written expected_size))
       else and_then (put io bytes w) (\<lambda>w.
              write_chunks io name expected_size chunks new_written w))"

definition write_tensor_from_chunks ::
    "'w write_ops \<Rightarrow> string \<Rightarrow> u8 list list \<Rightarrow> 'w data_writer \<Rightarrow> 'w data_writer gguf_result" where
  "write_tensor_from_chunks io name chunks d =
     and_then (validate_next d name) (\<lambda>expected_size.
     and_then (write_chunks io name expected_size chunks 0 (dw_writer d)) (\<lambda>(written, w).
       if written \<noteq> expected_size
       then Inl (WriteError (StreamTooShort name written expected_size))
       else advance_after_tensor io written (d\<lparr>dw_writer := w\<rparr>)))"

definition finish :: "'w write_ops \<Rightarrow> 'w data_writer \<Rightarrow> 'w gguf_result" where
  "finish io d =
     (if dw_next_index d \<noteq> length (dw_metas d)
      then Inl (WriteError (TensorsMissing (length (dw_metas d) - dw_next_index d)
                  (length (dw_metas d))))
      else case op_flush io (dw_writer d) of Inl e \<Rightarrow> Inl (io_write_err e) | Inr w \<Rightarrow> Inr w)"

fun write_all_tensors ::
    "'w write_ops \<Rightarrow> pending_tensor list \<Rightarrow> 'w data_writer \<Rightarrow> 'w data_writer gguf_result" where
  "write_all_tensors io [] d = Inr d"
| "write_all_tensors io (t # ts) d =
     and_then (write_tensor io (tm_name (pt_meta t)) (pt_data t) d) (\<lambda>d.
       write_all_tensors io ts d)"

definition write_to :: "'w write_ops \<Rightarrow> gguf_writer \<Rightarrow> 'w \<Rightarrow> 'w gguf_result" where
  "write_to io g w =
     (if gw_tensor_metas g \<noteq> [] then Inl (WriteError DeclaredTensorsPresent)
      else let metas = map pt_meta (gw_tensors g) in
           and_then (write_gguf_prelude io (gw_metadata g) metas w) (\<lambda>w.
           and_then (write_all_tensors io (gw_tensors g)
                       \<lparr>dw_writer = w, dw_metas = metas, dw_next_index = 0,
                        dw_cumulative_offset = 0\<rparr>) (\<lambda>d.
             finish io d)))"

definition into_data_writer ::
    "'w write_ops \<Rightarrow> gguf_writer \<Rightarrow> 'w \<Rightarrow> 'w data_writer gguf_result" where
  "into_data_writer io g w =
     (if gw_tensors g \<noteq> [] then Inl (WriteError BufferedTensorsPresent)
      else and_then (write_gguf_prelude io (gw_metadata g) (gw_tensor_metas g) w) (\<lambda>w.
             Inr \<lparr>dw_writer = w, dw_metas = gw_tensor_metas g, dw_next_index = 0,
                  dw_cumulative_offset = 0\<rparr>))"

end
