(* ===== verification/Gguf_Layout.thy ===== *)
theory Gguf_Layout
  imports Gguf_Writer Gguf_Header
begin

text \<open>
  What the writer promises: the byte layout of a GGUF v3 file as a pure function of the
  metadata, the tensor descriptions and the tensor data, and the proof that every write path of
  \<open>Gguf_Writer\<close> emits exactly these bytes on any sink that keeps the promise of
  \<open>std::io::Write\<close>. Sizes and offsets are natural numbers here, so the lemmas also show
  that the \<open>u64\<close> arithmetic of the writer does not wrap.
\<close>

section \<open>The layout\<close>

fun element_bytes :: "metadata_value \<Rightarrow> u8 list" where
  "element_bytes (VUint8 v) = [v]"
| "element_bytes (VInt8 v) = [v]"
| "element_bytes (VUint16 v) = to_le_bytes 2 v"
| "element_bytes (VInt16 v) = to_le_bytes 2 v"
| "element_bytes (VUint32 v) = to_le_bytes 4 v"
| "element_bytes (VInt32 v) = to_le_bytes 4 v"
| "element_bytes (VFloat32 v) = to_le_bytes 4 v"
| "element_bytes (VBool b) = [bool_byte b]"
| "element_bytes (VString s) = string_v3_bytes s"
| "element_bytes (VUint64 v) = to_le_bytes 8 v"
| "element_bytes (VInt64 v) = to_le_bytes 8 v"
| "element_bytes (VFloat64 v) = to_le_bytes 8 v"
| "element_bytes (VArray es) =
     to_le_bytes 4 (array_elem_type es) @ to_le_bytes 8 (word_of_nat (length es) :: u64) @
     concat (map element_bytes es)"

definition kv_bytes :: "string \<times> metadata_value \<Rightarrow> u8 list" where
  "kv_bytes kv =
     string_v3_bytes (fst kv) @ to_le_bytes 4 (metadata_value_type_id (snd kv)) @
     element_bytes (snd kv)"

definition tensor_info_bytes :: "tensor_meta \<times> u64 \<Rightarrow> u8 list" where
  "tensor_info_bytes mo =
     string_v3_bytes (tm_name (fst mo)) @
     to_le_bytes 4 (word_of_nat (length (tm_dimensions (fst mo))) :: u32) @
     concat (map (to_le_bytes 8) (tm_dimensions (fst mo))) @
     to_le_bytes 4 (tensor_type_as_u32 (tm_type (fst mo))) @ to_le_bytes 8 (snd mo)"

definition padding :: "nat \<Rightarrow> nat" where
  "padding k = (32 - k mod 32) mod 32"

definition round_up :: "nat \<Rightarrow> nat" where
  "round_up k = k + padding k"

text \<open>Where the tensors start in the data section, and the data section itself.\<close>

fun layout_offsets :: "nat \<Rightarrow> nat list \<Rightarrow> nat list" where
  "layout_offsets k [] = []"
| "layout_offsets k (n # ns) = k # layout_offsets (round_up (k + n)) ns"

fun layout_end :: "nat \<Rightarrow> nat list \<Rightarrow> nat" where
  "layout_end k [] = k"
| "layout_end k (n # ns) = layout_end (round_up (k + n)) ns"

fun data_section :: "nat \<Rightarrow> u8 list list \<Rightarrow> u8 list" where
  "data_section k [] = []"
| "data_section k [d] = d"
| "data_section k (d # ds) =
     d @ replicate (padding (k + length d)) 0 @ data_section (round_up (k + length d)) ds"

definition prelude_body ::
    "(string \<times> metadata_value) list \<Rightarrow> tensor_meta list \<Rightarrow> u64 list \<Rightarrow> u8 list" where
  "prelude_body metadata metas offsets =
     header_bytes (word_of_nat (length metas)) (word_of_nat (length metadata)) @
     concat (map kv_bytes metadata) @ concat (map tensor_info_bytes (zip metas offsets))"

definition meta_offsets :: "tensor_meta list \<Rightarrow> nat list" where
  "meta_offsets metas = layout_offsets 0 (map (\<lambda>m. unat (tm_data_size m)) metas)"

definition prelude_bytes :: "(string \<times> metadata_value) list \<Rightarrow> tensor_meta list \<Rightarrow> u8 list" where
  "prelude_bytes metadata metas =
     (let body = prelude_body metadata metas (map word_of_nat (meta_offsets metas))
      in body @ replicate (padding (length body)) 0)"

definition file_bytes ::
    "(string \<times> metadata_value) list \<Rightarrow> tensor_meta list \<Rightarrow> u8 list list \<Rightarrow> u8 list" where
  "file_bytes metadata metas datas = prelude_bytes metadata metas @ data_section 0 datas"

text \<open>The condition under which the source's \<open>checked_add\<close> never fails.\<close>

definition fits_u64 :: "tensor_meta list \<Rightarrow> bool" where
  "fits_u64 metas \<longleftrightarrow> layout_end 0 (map (\<lambda>m. unat (tm_data_size m)) metas) < 2 ^ 64"

section \<open>Padding and rounding\<close>

lemma padding_less: "padding k < 32"
  by (simp add: padding_def)

lemma round_up_ge: "k \<le> round_up k"
  by (simp add: round_up_def)

lemma round_up_mod [simp]: "round_up k mod 32 = 0"
proof -
  have "(k + (32 - k mod 32) mod 32) mod 32 = (k + (32 - k mod 32)) mod 32"
    by (rule mod_add_right_eq)
  also have "k + (32 - k mod 32) = 32 * (k div 32 + 1)"
    using mult_div_mod_eq [of 32 k] mod_less_divisor [of 32 k] by arith
  also have "\<dots> mod 32 = 0" by (rule mod_mult_self1_is_0)
  finally show ?thesis by (simp add: round_up_def padding_def)
qed

lemma alignment_padding_nat:
  fixes k :: u64
  assumes "unat k mod 32 = n mod 32"
  shows "alignment_padding k GGUF_DEFAULT_ALIGNMENT = word_of_nat (padding n)"
proof (cases "n mod 32 = 0")
  case True
  with assms have "k mod 32 = 0" by (simp add: word_unat_eq_iff unat_mod)
  with True show ?thesis
    by (simp add: alignment_padding_def GGUF_DEFAULT_ALIGNMENT_def padding_def)
next
  case False
  have lt: "n mod 32 < 32" by simp
  have km: "k mod 32 = word_of_nat (n mod 32)"
    using assms lt by (simp add: word_unat_eq_iff unat_mod unat_of_nat)
  with False lt have "k mod 32 \<noteq> 0" by (simp add: word_unat_eq_iff unat_of_nat)
  moreover have "32 - k mod 32 = word_of_nat (32 - n mod 32)"
    unfolding km using lt by (simp add: of_nat_diff)
  ultimately show ?thesis
    using False lt by (simp add: alignment_padding_def GGUF_DEFAULT_ALIGNMENT_def padding_def)
qed

lemma unat_padding [simp]: "unat (word_of_nat (padding n) :: u64) = padding n"
  using padding_less [of n] by (intro unat_of_nat_small) simp

lemma zero_pad_padding: "zero_pad (word_of_nat (padding n)) = replicate (padding n) 0"
  by (simp add: zero_pad_def)

lemma mod32_of_nat: "unat (word_of_nat n :: u64) mod 32 = n mod 32"
proof -
  have "n mod 2 ^ 64 mod 32 = n mod (32 :: nat)"
    by (rule mod_mod_cancel) simp
  then show ?thesis by (simp add: unat_of_nat)
qed

lemma layout_end_ge: "k \<le> layout_end k ns"
proof (induction ns arbitrary: k)
  case Nil
  then show ?case by simp
next
  case (Cons n ns)
  have "k \<le> round_up (k + n)" using round_up_ge [of "k + n"] by linarith
  also have "\<dots> \<le> layout_end (round_up (k + n)) ns" by (rule Cons.IH)
  finally show ?case by simp
qed

lemma layout_offsets_length [simp]: "length (layout_offsets k ns) = length ns"
  by (induction ns arbitrary: k) simp_all

lemma meta_offsets_length [simp]: "length (meta_offsets ms) = length ms"
  by (simp add: meta_offsets_def)

lemma layout_step_small:
  fixes k :: u64
  assumes "layout_end (unat k) (n # ns) < 2 ^ 64"
  shows "unat k + n < 2 ^ 64" and "round_up (unat k + n) < 2 ^ 64"
proof -
  have "round_up (unat k + n) \<le> layout_end (unat k) (n # ns)"
    using layout_end_ge by simp
  with assms show "round_up (unat k + n) < 2 ^ 64" by linarith
  then show "unat k + n < 2 ^ 64" using round_up_ge [of "unat k + n"] by linarith
qed

text \<open>One step of the source's offset arithmetic, on words and on numbers.\<close>

lemma advance_offset:
  fixes k s :: u64
  assumes "round_up (unat k + unat s) < 2 ^ 64"
  shows "checked_add k s = Some (k + s)"
    and "unat (k + s) = unat k + unat s"
    and "alignment_padding (k + s) GGUF_DEFAULT_ALIGNMENT = word_of_nat (padding (unat k + unat s))"
    and "unat (saturating_add (k + s) (word_of_nat (padding (unat k + unat s)))) =
         round_up (unat k + unat s)"
proof -
  have small: "unat k + unat s < 2 ^ 64" using assms round_up_ge [of "unat k + unat s"] by linarith
  then show "checked_add k s = Some (k + s)" by (simp add: checked_add_def)
  show u: "unat (k + s) = unat k + unat s" using small by (intro unat_add_small) simp
  then show "alignment_padding (k + s) GGUF_DEFAULT_ALIGNMENT = word_of_nat (padding (unat k + unat s))"
    by (intro alignment_padding_nat) simp
  have "unat (k + s) + unat (word_of_nat (padding (unat k + unat s)) :: u64) < 2 ^ LENGTH(64)"
    using assms u by (simp add: round_up_def)
  then show "unat (saturating_add (k + s) (word_of_nat (padding (unat k + unat s)))) =
         round_up (unat k + unat s)"
    using u by (simp add: saturating_add_small unat_add_small round_up_def)
qed

lemma tensor_offsets_layout:
  assumes "layout_end (unat k) (map (\<lambda>m. unat (tm_data_size m)) ms) < 2 ^ 64"
  shows "tensor_offsets ms k =
    Inr (map word_of_nat (layout_offsets (unat k) (map (\<lambda>m. unat (tm_data_size m)) ms)))"
  using assms
proof (induction ms arbitrary: k)
  case Nil
  then show ?case by simp
next
  case (Cons m ms)
  let ?s = "tm_data_size m"
  from Cons.prems have r: "round_up (unat k + unat ?s) < 2 ^ 64"
    using layout_step_small(2) by simp
  note step = advance_offset [OF r]
  with Cons show ?case by (simp add: Let_def)
qed


lemma length_concat_le8 [simp]: "length (concat (map (to_le_bytes 8) ds)) = 8 * length ds"
  by (induction ds) simp_all

section \<open>Any sink\<close>

text \<open>
  \<open>emits\<close>: an operation either fails with an error of the sink, or appends exactly the given
  bytes and returns the given value. Its rules follow the source's sequencing.
\<close>

definition emits ::
    "('w \<Rightarrow> u8 list) \<Rightarrow> string set \<Rightarrow> ('w \<Rightarrow> ('x \<times> 'w) gguf_result) \<Rightarrow> u8 list \<Rightarrow> 'x \<Rightarrow> bool" where
  "emits contents errs f bs x \<longleftrightarrow>
     (\<forall>w. case f w of
        Inl e \<Rightarrow> e \<in> io_write_err ` errs
      | Inr (y, w') \<Rightarrow> y = x \<and> contents w' = contents w @ bs)"

definition emits_unit ::
    "('w \<Rightarrow> u8 list) \<Rightarrow> string set \<Rightarrow> ('w \<Rightarrow> 'w gguf_result) \<Rightarrow> u8 list \<Rightarrow> bool" where
  "emits_unit contents errs f bs \<longleftrightarrow>
     (\<forall>w. case f w of
        Inl e \<Rightarrow> e \<in> io_write_err ` errs
      | Inr w' \<Rightarrow> contents w' = contents w @ bs)"

lemma emits_return: "emits c E (\<lambda>w. Inr (x, w)) [] x"
  by (simp add: emits_def)

lemma emits_seq:
  assumes "emits c E f bs y" and "emits c E (g y) cs x"
  shows "emits c E (\<lambda>w. and_then (f w) (\<lambda>(y, w). g y w)) (bs @ cs) x"
  unfolding emits_def
proof
  fix w
  show "case and_then (f w) (\<lambda>(y, w). g y w) of Inl e \<Rightarrow> e \<in> io_write_err ` E
      | Inr (y, w') \<Rightarrow> y = x \<and> c w' = c w @ bs @ cs"
  proof (cases "f w")
    case (Inl e)
    with assms(1) show ?thesis by (auto simp: emits_def dest: spec [of _ w])
  next
    case (Inr p)
    with assms(1) obtain w1 where p: "p = (y, w1)" "c w1 = c w @ bs"
      by (cases p) (auto simp: emits_def dest: spec [of _ w])
    with assms(2) Inr show ?thesis
      by (auto simp: emits_def dest!: spec [of _ w1] split: sum.splits)
  qed
qed

lemma emits_unit_seq:
  assumes "emits_unit c E f bs" and "emits c E g cs x"
  shows "emits c E (\<lambda>w. and_then (f w) (\<lambda>w. g w)) (bs @ cs) x"
  unfolding emits_def
proof
  fix w
  show "case and_then (f w) (\<lambda>w. g w) of Inl e \<Rightarrow> e \<in> io_write_err ` E
      | Inr (y, w') \<Rightarrow> y = x \<and> c w' = c w @ bs @ cs"
  proof (cases "f w")
    case (Inl e)
    with assms(1) show ?thesis by (auto simp: emits_unit_def dest: spec [of _ w])
  next
    case (Inr w1)
    with assms(1) have "c w1 = c w @ bs" by (auto simp: emits_unit_def dest: spec [of _ w])
    with assms(2) Inr show ?thesis
      by (auto simp: emits_def dest!: spec [of _ w1] split: sum.splits)
  qed
qed

lemma emits_unitD:
  assumes "emits_unit c E f bs"
  shows "f w = Inl e \<Longrightarrow> e \<in> io_write_err ` E" and "f w = Inr w' \<Longrightarrow> c w' = c w @ bs"
  using assms by (auto simp: emits_unit_def dest: spec [of _ w])

lemma emitsD:
  assumes "emits c E f bs x"
  shows "f w = Inl e \<Longrightarrow> e \<in> io_write_err ` E"
    and "f w = Inr (y, w') \<Longrightarrow> y = x \<and> c w' = c w @ bs"
  using assms by (auto simp: emits_def dest: spec [of _ w])

lemma emits_then_unit:
  assumes f: "emits c E f bs y" and g: "emits_unit c E (g y) cs"
  shows "emits_unit c E (\<lambda>w. and_then (f w) (\<lambda>(y, w). g y w)) (bs @ cs)"
  unfolding emits_unit_def
proof
  fix w
  show "case and_then (f w) (\<lambda>(y, w). g y w) of Inl e \<Rightarrow> e \<in> io_write_err ` E
      | Inr w' \<Rightarrow> c w' = c w @ bs @ cs"
  proof (cases "f w")
    case (Inl e)
    with emitsD(1) [OF f] show ?thesis by auto
  next
    case (Inr p)
    then obtain w1 where p: "f w = Inr (y, w1)" "c w1 = c w @ bs"
      using emitsD(2) [OF f, of w] by (cases p) auto
    with emits_unitD [OF g, of w1] show ?thesis by (auto split: sum.splits)
  qed
qed

lemma emits_cong: "emits c E f bs x \<Longrightarrow> bs = cs \<Longrightarrow> x = y \<Longrightarrow> emits c E f cs y"
  by simp

locale byte_sink =
  fixes io :: "'w write_ops"
    and contents :: "'w \<Rightarrow> u8 list"
    and io_errors :: "string set"
  assumes write_all_spec:
      "case op_write_all io bs w of Inl e \<Rightarrow> e \<in> io_errors | Inr w' \<Rightarrow> contents w' = contents w @ bs"
    and flush_spec:
      "case op_flush io w of Inl e \<Rightarrow> e \<in> io_errors | Inr w' \<Rightarrow> contents w' = contents w"
begin

abbreviation em :: "('w \<Rightarrow> ('x \<times> 'w) gguf_result) \<Rightarrow> u8 list \<Rightarrow> 'x \<Rightarrow> bool" where
  "em \<equiv> emits contents io_errors"

lemma put_emits: "emits_unit contents io_errors (put io bs) bs"
  unfolding emits_unit_def
proof
  fix w
  show "case put io bs w of Inl e \<Rightarrow> e \<in> io_write_err ` io_errors
      | Inr w' \<Rightarrow> contents w' = contents w @ bs"
    using write_all_spec [where bs = bs and w = w] by (auto simp: put_def split: sum.splits)
qed

lemma put_n_emits: "em (put_n io bs n) bs n"
  unfolding put_n_def [abs_def]
  by (rule emits_cong [OF emits_unit_seq [OF put_emits emits_return]]) simp_all

lemma write_header_emits:
  "em (write_header io t k) (header_bytes t k) 24"
  unfolding write_header_def [abs_def] header_bytes_def
  by (rule emits_cong [OF emits_unit_seq [OF put_emits emits_unit_seq [OF put_emits
      emits_unit_seq [OF put_emits emits_unit_seq [OF put_emits emits_return]]]]]) simp_all

lemma write_string_emits:
  "em (write_string io s) (string_v3_bytes s) (8 + word_of_nat (length s))"
  unfolding write_string_def [abs_def] string_v3_bytes_def
  by (rule emits_cong [OF emits_unit_seq [OF put_emits
      emits_unit_seq [OF put_emits emits_return]]]) simp_all

lemma write_bool_emits: "em (write_bool io b) [bool_byte b] 1"
  unfolding write_bool_def [abs_def] bool_byte_def by (rule put_n_emits)

lemma write_elements_emits:
  assumes "\<And>e. e \<in> set es \<Longrightarrow>
    em (write_array_element io e) (element_bytes e) (word_of_nat (length (element_bytes e)))"
  shows "em (write_elements io es n) (concat (map element_bytes es))
           (n + word_of_nat (length (concat (map element_bytes es))))"
  using assms
proof (induction es arbitrary: n)
  case Nil
  then show ?case using emits_return [of contents io_errors n] by simp
next
  case (Cons e es)
  have "em (\<lambda>w. and_then (write_array_element io e w)
              (\<lambda>(m, w). write_elements io es (n + m) w))
          (element_bytes e @ concat (map element_bytes es))
          (n + word_of_nat (length (element_bytes e)) +
            word_of_nat (length (concat (map element_bytes es))))"
    by (rule emits_seq [OF Cons.prems Cons.IH]) (simp_all add: Cons.prems)
  then show ?case by (simp add: add.assoc)
qed

lemma write_array_emits_if:
  assumes "\<And>e. e \<in> set es \<Longrightarrow>
    em (write_array_element io e) (element_bytes e) (word_of_nat (length (element_bytes e)))"
  shows "em (write_array io es) (element_bytes (VArray es))
           (word_of_nat (length (element_bytes (VArray es))))"
proof -
  have "em (write_array io es) (element_bytes (VArray es))
     (4 + 8 + word_of_nat (length (concat (map element_bytes es))))"
    unfolding write_array.simps [abs_def] element_bytes.simps
    by (intro emits_unit_seq put_emits write_elements_emits assms)
  then show ?thesis by (simp add: add.assoc)
qed

lemma write_array_element_emits:
  "em (write_array_element io v) (element_bytes v) (word_of_nat (length (element_bytes v)))"
proof (induction v)
  case (VArray es)
  have "em (write_array io es) (element_bytes (VArray es))
           (word_of_nat (length (element_bytes (VArray es))))"
    by (rule write_array_emits_if) (rule VArray)
  then show ?case by (simp add: emits_def)
next
  case (VBool b)
  then show ?case using write_bool_emits by (simp add: emits_def)
next
  case (VString s)
  then show ?case using write_string_emits by (simp add: emits_def string_v3_bytes_def)
qed (insert put_n_emits, simp_all add: emits_def)

lemma write_array_emits:
  "em (write_array io es) (element_bytes (VArray es))
      (word_of_nat (length (element_bytes (VArray es))))"
  by (rule write_array_emits_if) (rule write_array_element_emits)

lemma write_metadata_value_emits:
  "em (write_metadata_value io v) (to_le_bytes 4 (metadata_value_type_id v) @ element_bytes v)
      (4 + word_of_nat (length (element_bytes v)))"
proof -
  have body: "em (\<lambda>w. case v of
          VUint8 v \<Rightarrow> put_n io [v] 1 w
        | VInt8 v \<Rightarrow> put_n io [v] 1 w
        | VUint16 v \<Rightarrow> put_n io (to_le_bytes 2 v) 2 w
        | VInt16 v \<Rightarrow> put_n io (to_le_bytes 2 v) 2 w
        | VUint32 v \<Rightarrow> put_n io (to_le_bytes 4 v) 4 w
        | VInt32 v \<Rightarrow> put_n io (to_le_bytes 4 v) 4 w
        | VFloat32 v \<Rightarrow> put_n io (to_le_bytes 4 v) 4 w
        | VBool v \<Rightarrow> write_bool io v w
        | VString s \<Rightarrow> write_string io s w
        | VUint64 v \<Rightarrow> put_n io (to_le_bytes 8 v) 8 w
        | VInt64 v \<Rightarrow> put_n io (to_le_bytes 8 v) 8 w
        | VFloat64 v \<Rightarrow> put_n io (to_le_bytes 8 v) 8 w
        | VArray elements \<Rightarrow> write_array io elements w)
     (element_bytes v) (word_of_nat (length (element_bytes v)))"
    using write_array_element_emits [of v] by (cases v) (simp_all add: emits_def)
  have ret: "em (\<lambda>w. Inr (4 + n, w)) [] (4 + n)" for n :: u64
    by (rule emits_return)
  show ?thesis
    unfolding write_metadata_value_def [abs_def]
    by (rule emits_unit_seq [OF put_emits emits_cong [OF emits_seq [OF body ret]]]) simp_all
qed

lemma write_kvs_emits:
  "em (write_kvs io kvs off) (concat (map kv_bytes kvs))
      (off + word_of_nat (length (concat (map kv_bytes kvs))))"
proof (induction kvs arbitrary: off)
  case Nil
  then show ?case using emits_return [of contents io_errors off] by simp
next
  case (Cons kv kvs)
  obtain k v where kv: "kv = (k, v)" by fastforce
  have "em (\<lambda>w. and_then (write_string io k w) (\<lambda>(n, w).
              and_then (write_metadata_value io v w) (\<lambda>(m, w). write_kvs io kvs (off + n + m) w)))
     (string_v3_bytes k @ (to_le_bytes 4 (metadata_value_type_id v) @ element_bytes v) @
        concat (map kv_bytes kvs))
     (off + (8 + word_of_nat (length k)) + (4 + word_of_nat (length (element_bytes v))) +
        word_of_nat (length (concat (map kv_bytes kvs))))"
    by (rule emits_seq, rule write_string_emits, rule emits_seq,
        rule write_metadata_value_emits, rule Cons.IH)
  moreover have "kv_bytes (k, v) =
      string_v3_bytes k @ to_le_bytes 4 (metadata_value_type_id v) @ element_bytes v"
    by (simp add: kv_bytes_def)
  ultimately show ?case
    by (simp add: kv string_v3_bytes_def algebra_simps)
qed

lemma write_dims_emits:
  "em (write_dims io ds off) (concat (map (to_le_bytes 8) ds)) (off + word_of_nat (8 * length ds))"
proof (induction ds arbitrary: off)
  case Nil
  then show ?case using emits_return [of contents io_errors off] by simp
next
  case (Cons d ds)
  have "em (\<lambda>w. and_then (put io (to_le_bytes 8 d) w) (\<lambda>w. write_dims io ds (off + 8) w))
          (to_le_bytes 8 d @ concat (map (to_le_bytes 8) ds)) (off + 8 + word_of_nat (8 * length ds))"
    by (intro emits_unit_seq put_emits Cons.IH)
  then show ?case by (simp add: algebra_simps)
qed

lemma write_tensor_infos_emits:
  "em (write_tensor_infos io ms off) (concat (map tensor_info_bytes ms))
      (off + word_of_nat (length (concat (map tensor_info_bytes ms))))"
proof (induction ms arbitrary: off)
  case Nil
  then show ?case using emits_return [of contents io_errors off] by simp
next
  case (Cons mo ms)
  obtain m t where mo: "mo = (m, t)" by fastforce
  let ?ds = "tm_dimensions m"
  have "em (\<lambda>w. and_then (write_string io (tm_name m) w) (\<lambda>(n, w).
     and_then (put io (to_le_bytes 4 (word_of_nat (length ?ds) :: u32)) w) (\<lambda>w.
     and_then (write_dims io ?ds (off + n + 4) w) (\<lambda>(offset, w).
     and_then (put io (to_le_bytes 4 (tensor_type_as_u32 (tm_type m))) w) (\<lambda>w.
     and_then (put io (to_le_bytes 8 t) w) (\<lambda>w.
       write_tensor_infos io ms (offset + 4 + 8) w))))))
     (string_v3_bytes (tm_name m) @ to_le_bytes 4 (word_of_nat (length ?ds) :: u32) @
        concat (map (to_le_bytes 8) ?ds) @ to_le_bytes 4 (tensor_type_as_u32 (tm_type m)) @
        to_le_bytes 8 t @ concat (map tensor_info_bytes ms))
     (off + (8 + word_of_nat (length (tm_name m))) + 4 + word_of_nat (8 * length ?ds) + 4 + 8 +
        word_of_nat (length (concat (map tensor_info_bytes ms))))"
    by (rule emits_seq, rule write_string_emits, rule emits_unit_seq, rule put_emits,
        rule emits_seq, rule write_dims_emits, (rule emits_unit_seq, rule put_emits)+, rule Cons.IH)
  moreover have "tensor_info_bytes (m, t) =
      string_v3_bytes (tm_name m) @ to_le_bytes 4 (word_of_nat (length ?ds) :: u32) @
      concat (map (to_le_bytes 8) ?ds) @ to_le_bytes 4 (tensor_type_as_u32 (tm_type m)) @
      to_le_bytes 8 t"
    by (simp add: tensor_info_bytes_def)
  ultimately show ?case
    by (simp add: mo string_v3_bytes_def algebra_simps)
qed

lemma put_if_emits:
  "emits_unit contents io_errors
     (\<lambda>w. if 0 < (word_of_nat (padding n) :: u64) then put io (zero_pad (word_of_nat (padding n))) w
          else Inr w)
     (replicate (padding n) 0)"
proof (cases "padding n = 0")
  case True
  then show ?thesis by (simp add: emits_unit_def)
next
  case False
  then have "0 < (word_of_nat (padding n) :: u64)"
    by (simp add: word_less_nat_alt)
  then show ?thesis using put_emits by (simp add: zero_pad_padding)
qed

lemma write_gguf_prelude_emits:
  assumes "fits_u64 metas"
  shows "emits_unit contents io_errors (write_gguf_prelude io metadata metas)
           (prelude_bytes metadata metas)"
proof -
  let ?offs = "map word_of_nat (meta_offsets metas) :: u64 list"
  let ?body = "prelude_body metadata metas ?offs"
  let ?kvs = "concat (map kv_bytes metadata)"
  let ?infos = "concat (map tensor_info_bytes (zip metas ?offs))"
  have offs: "tensor_offsets metas 0 = Inr ?offs"
    using assms tensor_offsets_layout [of 0 metas] by (simp add: fits_u64_def meta_offsets_def)
  have body: "?body = header_bytes (word_of_nat (length metas)) (word_of_nat (length metadata)) @
      ?kvs @ ?infos"
    by (simp add: prelude_body_def)
  have "24 + word_of_nat (length ?kvs) + word_of_nat (length ?infos) = (word_of_nat (length ?body) :: u64)"
    by (simp add: body)
  then have pad: "alignment_padding (24 + word_of_nat (length ?kvs) + word_of_nat (length ?infos))
      GGUF_DEFAULT_ALIGNMENT = word_of_nat (padding (length ?body))"
    by (simp add: alignment_padding_nat mod32_of_nat)
  have "emits_unit contents io_errors
     (\<lambda>w. and_then (write_header io (word_of_nat (length metas)) (word_of_nat (length metadata)) w)
       (\<lambda>(offset, w).
     and_then (write_kvs io metadata offset w) (\<lambda>(offset, w).
     and_then (write_tensor_infos io (zip metas ?offs) offset w) (\<lambda>(offset, w).
       if alignment_padding offset GGUF_DEFAULT_ALIGNMENT > 0
       then put io (zero_pad (alignment_padding offset GGUF_DEFAULT_ALIGNMENT)) w else Inr w))))
     (header_bytes (word_of_nat (length metas)) (word_of_nat (length metadata)) @ ?kvs @ ?infos @
        replicate (padding (length ?body)) 0)"
    by (rule emits_then_unit, rule write_header_emits, rule emits_then_unit, rule write_kvs_emits,
        rule emits_then_unit, rule write_tensor_infos_emits) (simp only: pad put_if_emits)
  then show ?thesis
    unfolding write_gguf_prelude_def [abs_def] offs Let_def and_then_simps prelude_bytes_def body
    by (simp only: append_assoc)
qed

section \<open>Tensor data\<close>

lemma advance_after_tensor_emits:
  assumes next_less: "dw_next_index d < length (dw_metas d)"
    and small: "round_up (unat (dw_cumulative_offset d) + unat written) < 2 ^ 64"
  shows "case advance_after_tensor io written d of
      Inl e \<Rightarrow> e \<in> io_write_err ` io_errors
    | Inr d' \<Rightarrow>
        dw_metas d' = dw_metas d \<and> dw_next_index d' = Suc (dw_next_index d) \<and>
        contents (dw_writer d') = contents (dw_writer d) @
          (if Suc (dw_next_index d) < length (dw_metas d)
           then replicate (padding (unat (dw_cumulative_offset d) + unat written)) 0 else []) \<and>
        (Suc (dw_next_index d) < length (dw_metas d) \<longrightarrow>
           unat (dw_cumulative_offset d') = round_up (unat (dw_cumulative_offset d) + unat written))"
proof (cases "Suc (dw_next_index d) < length (dw_metas d)")
  case True
  let ?n = "unat (dw_cumulative_offset d) + unat written"
  note step = advance_offset [OF small]
  show ?thesis
  proof (cases "if 0 < (word_of_nat (padding ?n) :: u64)
      then put io (zero_pad (word_of_nat (padding ?n))) (dw_writer d) else Inr (dw_writer d)")
    case (Inl e)
    then show ?thesis
      using emits_unitD(1) [OF put_if_emits [of ?n], of "dw_writer d" e] True
      by (auto simp: advance_after_tensor_def Let_def step split: if_splits)
  next
    case (Inr w)
    then show ?thesis
      using emits_unitD(2) [OF put_if_emits [of ?n], of "dw_writer d" w] True
      by (auto simp: advance_after_tensor_def Let_def step split: if_splits)
  qed
next
  case False
  then show ?thesis
    using advance_offset(1) [OF small] by (simp add: advance_after_tensor_def Let_def)
qed

text \<open>A tensor in one piece, or in chunks that add up to it.\<close>

lemma write_tensor_emits:
  assumes next_less: "dw_next_index d < length (dw_metas d)"
    and meta: "dw_metas d ! dw_next_index d = m" "tm_name m = name"
    and size: "unat (tm_data_size m) = length data"
    and small: "round_up (unat (dw_cumulative_offset d) + length data) < 2 ^ 64"
  shows "case write_tensor io name data d of
      Inl e \<Rightarrow> e \<in> io_write_err ` io_errors
    | Inr d' \<Rightarrow>
        dw_metas d' = dw_metas d \<and> dw_next_index d' = Suc (dw_next_index d) \<and>
        contents (dw_writer d') = contents (dw_writer d) @ data @
          (if Suc (dw_next_index d) < length (dw_metas d)
           then replicate (padding (unat (dw_cumulative_offset d) + length data)) 0 else []) \<and>
        (Suc (dw_next_index d) < length (dw_metas d) \<longrightarrow>
           unat (dw_cumulative_offset d') = round_up (unat (dw_cumulative_offset d) + length data))"
proof -
  have len: "word_of_nat (length data) = tm_data_size m"
    by (simp flip: size)
  have v: "validate_next d name = Inr (tm_data_size m)"
    using next_less meta by (simp add: validate_next_def Let_def)
  show ?thesis
  proof (cases "put io data (dw_writer d)")
    case (Inl e)
    then show ?thesis
      using emits_unitD(1) [OF put_emits [of data], of "dw_writer d" e] v len
      by (simp add: write_tensor_def Let_def)
  next
    case (Inr w)
    have "contents w = contents (dw_writer d) @ data"
      using emits_unitD(2) [OF put_emits Inr] .
    then show ?thesis
      using advance_after_tensor_emits [of "d\<lparr>dw_writer := w\<rparr>" "tm_data_size m"]
        next_less small v len Inr
      by (simp add: write_tensor_def Let_def size split: sum.splits)
  qed
qed

lemma write_all_tensors_emits:
  assumes "dw_metas d = pre @ map pt_meta ts" and "dw_next_index d = length pre"
    and "\<forall>t \<in> set ts. unat (tm_data_size (pt_meta t)) = length (pt_data t)"
    and "layout_end (unat (dw_cumulative_offset d)) (map (\<lambda>t. length (pt_data t)) ts) < 2 ^ 64"
  shows "case write_all_tensors io ts d of
      Inl e \<Rightarrow> e \<in> io_write_err ` io_errors
    | Inr d' \<Rightarrow>
        dw_metas d' = dw_metas d \<and> dw_next_index d' = length (dw_metas d) \<and>
        contents (dw_writer d') = contents (dw_writer d) @
          data_section (unat (dw_cumulative_offset d)) (map pt_data ts)"
  using assms
proof (induction ts arbitrary: d pre)
  case Nil
  then show ?case by simp
next
  case (Cons t ts)
  let ?k = "unat (dw_cumulative_offset d)" and ?n = "length (pt_data t)"
  have small: "round_up (?k + ?n) < 2 ^ 64"
    using Cons.prems(4) layout_step_small(2) by simp
  have hyps: "dw_next_index d < length (dw_metas d)" "dw_metas d ! dw_next_index d = pt_meta t"
      "unat (tm_data_size (pt_meta t)) = ?n"
    using Cons.prems by (simp_all add: nth_append)
  note step = write_tensor_emits [OF hyps(1,2) refl hyps(3) small]
  show ?case
  proof (cases "write_tensor io (tm_name (pt_meta t)) (pt_data t) d")
    case (Inl e)
    with step show ?thesis by simp
  next
    case (Inr d1)
    with step have d1: "dw_metas d1 = dw_metas d" "dw_next_index d1 = Suc (length pre)"
        "contents (dw_writer d1) = contents (dw_writer d) @ pt_data t @
           (if ts \<noteq> [] then replicate (padding (?k + ?n)) 0 else [])"
        "ts \<noteq> [] \<longrightarrow> unat (dw_cumulative_offset d1) = round_up (?k + ?n)"
      using Cons.prems(1,2) by auto
    show ?thesis
    proof (cases ts)
      case Nil
      with Inr d1 Cons.prems(1) show ?thesis by simp
    next
      case (Cons t' ts')
      with Cons.IH [of d1 "pre @ [pt_meta t]"] d1 Cons.prems Inr
      show ?thesis by (simp split: sum.splits)
    qed
  qed
qed

lemma finish_emits:
  assumes "dw_next_index d = length (dw_metas d)"
  shows "case finish io d of Inl e \<Rightarrow> e \<in> io_write_err ` io_errors
    | Inr w' \<Rightarrow> contents w' = contents (dw_writer d)"
  using assms flush_spec [where w = "dw_writer d"]
  by (auto simp: finish_def split: sum.splits)

text \<open>The tensors of a writer are consistent when \<open>add_tensor\<close> built them.\<close>

lemma write_to_emits:
  assumes "gw_tensor_metas g = []" and fits: "fits_u64 (map pt_meta (gw_tensors g))"
    and sizes: "\<forall>t \<in> set (gw_tensors g). unat (tm_data_size (pt_meta t)) = length (pt_data t)"
  shows "case write_to io g w of
      Inl e \<Rightarrow> e \<in> io_write_err ` io_errors
    | Inr w' \<Rightarrow> contents w' = contents w @
        file_bytes (gw_metadata g) (map pt_meta (gw_tensors g)) (map pt_data (gw_tensors g))"
proof -
  let ?ts = "gw_tensors g"
  let ?metas = "map pt_meta ?ts"
  note prelude = emits_unitD [OF write_gguf_prelude_emits [OF fits, of "gw_metadata g"]]
  show ?thesis
  proof (cases "write_gguf_prelude io (gw_metadata g) ?metas w")
    case (Inl e)
    with prelude(1) assms(1) show ?thesis by (simp add: write_to_def Let_def)
  next
    case (Inr w1)
    let ?d = "\<lparr>dw_writer = w1, dw_metas = ?metas, dw_next_index = 0, dw_cumulative_offset = 0\<rparr>"
    have "map (\<lambda>t. unat (tm_data_size (pt_meta t))) ?ts = map (\<lambda>t. length (pt_data t)) ?ts"
      using sizes by simp
    then have ends: "layout_end (unat (dw_cumulative_offset ?d)) (map (\<lambda>t. length (pt_data t)) ?ts) < 2 ^ 64"
      using fits by (simp add: fits_u64_def comp_def cong: map_cong)
    note tensors = write_all_tensors_emits [of ?d "[]" ?ts, OF _ _ sizes ends, simplified]
    show ?thesis
    proof (cases "write_all_tensors io ?ts ?d")
      case (Inl e)
      with tensors \<open>_ = Inr w1\<close> assms(1) show ?thesis by (simp add: write_to_def Let_def)
    next
      case (Inr d1)
      with tensors have d1: "dw_next_index d1 = length (dw_metas d1)"
          "contents (dw_writer d1) = contents w1 @ data_section 0 (map pt_data ?ts)"
        by simp_all
      with finish_emits [OF d1(1)] prelude(2) [OF \<open>_ = Inr w1\<close>] \<open>_ = Inr w1\<close> Inr assms(1)
      show ?thesis by (simp add: write_to_def Let_def file_bytes_def split: sum.splits)
    qed
  qed
qed

end

definition vec_ops :: "u8 list write_ops" where
  "vec_ops = \<lparr>op_write_all = (\<lambda>bs w. Inr (w @ bs)), op_flush = (\<lambda>w. Inr w)\<rparr>"

interpretation vec: byte_sink vec_ops "\<lambda>w. w" "{}"
  by unfold_locales (simp_all add: vec_ops_def)


section \<open>On a Vec\<close>

lemma put_vec [simp]: "put vec_ops bs w = Inr (w @ bs)"
  by (simp add: put_def vec_ops_def)

lemma write_to_vec:
  assumes "gw_tensor_metas g = []" and "fits_u64 (map pt_meta (gw_tensors g))"
    and "\<forall>t \<in> set (gw_tensors g). unat (tm_data_size (pt_meta t)) = length (pt_data t)"
  shows "write_to vec_ops g w =
    Inr (w @ file_bytes (gw_metadata g) (map pt_meta (gw_tensors g)) (map pt_data (gw_tensors g)))"
  using vec.write_to_emits [OF assms, of w] by (simp split: sum.splits)

lemma into_data_writer_vec:
  assumes "gw_tensors g = []" and "fits_u64 (gw_tensor_metas g)"
  shows "into_data_writer vec_ops g w =
    Inr \<lparr>dw_writer = w @ prelude_bytes (gw_metadata g) (gw_tensor_metas g),
         dw_metas = gw_tensor_metas g, dw_next_index = 0, dw_cumulative_offset = 0\<rparr>"
  using assms vec.write_gguf_prelude_emits [OF assms(2), of "gw_metadata g"]
  by (simp add: into_data_writer_def emits_unit_def and_then_def split: sum.splits)

lemma write_chunks_vec:
  assumes "written \<le> ex" and "length (concat chunks) < 2 ^ 64"
  shows "write_chunks vec_ops name ex chunks written w = Inr (n, w') \<longleftrightarrow>
    unat written + length (concat chunks) \<le> unat ex \<and>
    n = written + word_of_nat (length (concat chunks)) \<and> w' = w @ concat chunks"
  using assms
proof (induction chunks arbitrary: written w)
  case Nil
  then show ?case by (auto simp: word_le_nat_alt)
next
  case (Cons c cs)
  let ?c = "word_of_nat (length c) :: u64"
  have ex: "unat ex < 2 ^ 64" using unsigned_less [of ex] by simp
  have c: "unat ?c = length c" using Cons.prems(2) by (intro unat_of_nat_small) simp
  show ?case
  proof (cases "unat written + length c \<le> unat ex")
    case True
    with c ex have add: "checked_add written ?c = Some (written + ?c)"
      by (intro checked_add_SomeI) simp
    with c have u: "unat (written + ?c) = unat written + length c"
      using checked_add_Some by fastforce
    with True have le: "written + ?c \<le> ex"
      by (simp add: word_le_nat_alt)
    with add Cons.IH [OF le, of "w @ c"] Cons.prems(2) show ?thesis
      by (auto simp: u add.assoc not_less)
  next
    case False
    have "write_chunks vec_ops name ex (c # cs) written w \<noteq> Inr (n, w')"
    proof
      assume "write_chunks vec_ops name ex (c # cs) written w = Inr (n, w')"
      then obtain k where k: "checked_add written ?c = Some k" "k \<le> ex"
        by (auto simp: and_then_Inr_iff ok_or_Inr_iff split: if_splits)
      with checked_add_Some [OF k(1)] c False show False by (simp add: word_le_nat_alt)
    qed
    with False show ?thesis by simp
  qed
qed

text \<open>Streaming a tensor in chunks is writing it in one piece.\<close>

lemma write_tensor_from_chunks_vec:
  assumes "length (concat chunks) < 2 ^ 64"
  shows "write_tensor_from_chunks vec_ops name chunks d = Inr d' \<longleftrightarrow>
         write_tensor vec_ops name (concat chunks) d = Inr d'"
proof (cases "validate_next d name")
  case (Inl e)
  then show ?thesis by (simp add: write_tensor_from_chunks_def write_tensor_def)
next
  case (Inr ex)
  let ?n = "word_of_nat (length (concat chunks)) :: u64"
  have n: "unat ?n = length (concat chunks)"
    using assms by (intro unat_of_nat_small) simp
  have chunks: "write_chunks vec_ops name ex chunks 0 w = Inr (k, w') \<longleftrightarrow>
      length (concat chunks) \<le> unat ex \<and> k = ?n \<and> w' = w @ concat chunks" for k w w'
    using write_chunks_vec [of 0 ex chunks] assms by simp
  have "length (concat chunks) \<le> unat ex" if "?n = ex" using that n by simp
  with Inr chunks show ?thesis
    by (auto simp: write_tensor_from_chunks_def write_tensor_def and_then_Inr_iff Let_def)
qed

end
