(* ===== verification/Gguf_Roundtrip.thy ===== *)
theory Gguf_Roundtrip
  imports Gguf_Parser Gguf_Layout
begin

text \<open>
  Parsing what the writer wrote: metadata values, key-value pairs, tensor infos, the two loops
  over them, and the tensor payloads at the offsets the tensor infos announce. The statement
  about whole files is in the root theory.
\<close>

section \<open>Metadata values\<close>

text \<open>
  The values the format can carry at nesting depth \<open>d\<close>: strings are UTF-8, an array has one
  element type (only the first element's type is written), and arrays are not nested deeper
  than the parser follows.
\<close>

fun value_ok :: "nat \<Rightarrow> metadata_value \<Rightarrow> bool" where
  "value_ok d (VString s) = (d \<le> MAX_METADATA_ARRAY_DEPTH \<and> utf8_string s \<and> length s < 2 ^ 64)"
| "value_ok d (VArray es) =
     (d \<le> MAX_METADATA_ARRAY_DEPTH \<and> length es < 2 ^ 64 \<and>
      (\<forall>e \<in> set es. value_type_of e = value_type_of (hd es)) \<and>
      (\<forall>e \<in> set es. value_ok (Suc d) e))"
| "value_ok d _ = (d \<le> MAX_METADATA_ARRAY_DEPTH)"

lemma value_ok_depth: "value_ok d v \<Longrightarrow> d \<le> MAX_METADATA_ARRAY_DEPTH"
  by (cases v) simp_all

lemma element_bytes_min: "min_encoded_value_size (value_type_of v) 3 \<le> length (element_bytes v)"
  by (cases v) (simp_all add: string_v3_bytes_def)

lemma min_encoded_pos: "0 < min_encoded_value_size t ver"
  by (cases t) simp_all

lemma concat_length_min:
  assumes "\<forall>e \<in> set es. value_type_of e = t"
  shows "length es * min_encoded_value_size t 3 \<le> length (concat (map element_bytes es))"
  using assms
proof (induction es)
  case Nil
  then show ?case by simp
next
  case (Cons e es)
  then show ?case using element_bytes_min [of e] by simp
qed

lemma parses_guard:
  assumes "\<And>r rest. remaining_data r = bs @ rest \<Longrightarrow> \<not> b r" and "parses p bs v"
  shows "parses (\<lambda>r. if b r then Inl (e r) else p r) bs v"
  using assms by (auto simp: parses_def)

lemma parses_cong: "(\<And>r. p r = q r) \<Longrightarrow> parses q bs v \<Longrightarrow> parses p bs v"
  by (simp add: parses_def)

lemma parses_ok_or:
  assumes "x = Some a" and "parses (p a) bs v"
  shows "parses (\<lambda>r. and_then (ok_or x e) (\<lambda>a. p a r)) bs v"
  using assms by simp

lemma parses_read_as: "parses p bs v \<Longrightarrow> parses (read_as f p) bs (f v)"
  unfolding read_as_def [abs_def] by (rule parses_map)

lemma read_str_3 [simp]: "read_str 3 = read_string"
  by (rule ext) (simp add: read_str_def)

lemma read_array_count_3 [simp]: "read_array_count 3 = read_u64"
  by (rule ext) (simp add: read_array_count_def)

lemma read_dim_3 [simp]: "read_dim 3 = read_u64"
  by (rule ext) (simp add: read_dim_def)

lemma read_offset_3 [simp]: "read_offset 3 = read_u64"
  by (rule ext) (simp add: read_offset_def)

lemma parses_read_n:
  assumes "\<forall>v \<in> set vs. parses p (f v) v"
  shows "parses (read_n (length vs) p) (concat (map f vs)) vs"
  using codec.read_n_enc [of f p "\<lambda>v. parses p (f v) v" vs] assms
  by (simp add: codec_def)

text \<open>The count check in front of an array lets every array the writer wrote pass.\<close>

lemma parses_array_elements:
  assumes "\<forall>e \<in> set es. value_type_of e = t"
    and "unat (count :: u64) = length es"
    and "\<forall>e \<in> set es. parses (\<lambda>r. read_metadata_value t 3 (depth + 1) r) (element_bytes e) e"
  shows "parses (\<lambda>r.
     let min_elem_size = min_encoded_value_size t 3;
         max_count = remaining r div min_elem_size
     in if unat count > max_count
        then Inl (InvalidMetadata ''<array>'' (ArrayCountTooLarge count (remaining r) min_elem_size))
        else and_then
               (read_n (unat count) (\<lambda>r. read_metadata_value t 3 (depth + 1) r) r)
               (\<lambda>(elements, r). Inr (VArray elements, r)))
     (concat (map element_bytes es)) (VArray es)"
  unfolding Let_def assms(2)
proof (rule parses_guard)
  fix r rest
  assume "remaining_data r = concat (map element_bytes es) @ rest"
  then have "remaining r = length (concat (map element_bytes es) @ rest)"
    by (simp add: remaining_length)
  then have "length es * min_encoded_value_size t 3 \<le> remaining r"
    using concat_length_min [OF assms(1)] by simp
  then have "length es \<le> remaining r div min_encoded_value_size t 3"
    using min_encoded_pos [of t 3] by (simp add: less_eq_div_iff_mult_less_eq)
  then show "\<not> length es > remaining r div min_encoded_value_size t 3" by simp
next
  show "parses (\<lambda>r. and_then
       (read_n (length es) (\<lambda>r. read_metadata_value t 3 (depth + 1) r) r)
       (\<lambda>(elements, r). Inr (VArray elements, r)))
     (concat (map element_bytes es)) (VArray es)"
    by (intro parses_map parses_read_n assms(3))
qed

lemmas read_scalar =
  read_metadata_value.simps [of TUint8, unfolded value_type.case]
  read_metadata_value.simps [of TInt8, unfolded value_type.case]
  read_metadata_value.simps [of TUint16, unfolded value_type.case]
  read_metadata_value.simps [of TInt16, unfolded value_type.case]
  read_metadata_value.simps [of TUint32, unfolded value_type.case]
  read_metadata_value.simps [of TInt32, unfolded value_type.case]
  read_metadata_value.simps [of TFloat32, unfolded value_type.case]
  read_metadata_value.simps [of TBool, unfolded value_type.case]
  read_metadata_value.simps [of TString, unfolded value_type.case]
  read_metadata_value.simps [of TUint64, unfolded value_type.case]
  read_metadata_value.simps [of TInt64, unfolded value_type.case]
  read_metadata_value.simps [of TFloat64, unfolded value_type.case]

lemma parses_scalar:
  assumes "value_ok depth v"
    and "\<And>r. read_metadata_value (value_type_of v) 3 depth r =
           (if depth > MAX_METADATA_ARRAY_DEPTH then Inl (InvalidMetadata ''<array>'' NestingTooDeep)
            else read_as c p r)"
    and "parses p bs x" and "v = c x"
  shows "parses (\<lambda>r. read_metadata_value (value_type_of v) 3 depth r) bs v"
proof -
  have "\<not> depth > MAX_METADATA_ARRAY_DEPTH" using value_ok_depth [OF assms(1)] by simp
  then have "\<And>r. read_metadata_value (value_type_of v) 3 depth r = read_as c p r"
    by (simp add: assms(2))
  then show ?thesis unfolding assms(4) by (rule parses_cong) (rule parses_read_as [OF assms(3)])
qed

lemma parses_array:
  assumes ok: "value_ok depth (VArray es)"
    and IH: "\<And>e. e \<in> set es \<Longrightarrow> value_ok (Suc depth) e \<Longrightarrow>
      parses (\<lambda>r. read_metadata_value (value_type_of e) 3 (Suc depth) r) (element_bytes e) e"
  shows "parses (\<lambda>r. read_metadata_value (value_type_of (VArray es)) 3 depth r)
           (element_bytes (VArray es)) (VArray es)"
proof -
  define t where "t = (case es of [] \<Rightarrow> TUint8 | e # _ \<Rightarrow> value_type_of e)"
  note ok' = ok [unfolded value_ok.simps]
  have depth: "(depth > MAX_METADATA_ARRAY_DEPTH) = False"
    using conjunct1 [OF ok'] by simp
  have len: "length es < 2 ^ 64" and oks: "\<forall>e \<in> set es. value_ok (Suc depth) e"
    using ok' by blast+
  have "value_type_of (hd es) = t" if "es \<noteq> []"
    using that by (simp add: t_def split: list.split)
  moreover have "\<forall>e \<in> set es. value_type_of e = value_type_of (hd es)" using ok' by blast
  ultimately have types: "\<forall>e \<in> set es. value_type_of e = t" by fastforce
  have elem: "array_elem_type es = value_type_as_u32 t"
    by (simp add: array_elem_type_def t_def metadata_value_type_id_def split: list.split)
  have count: "unat (word_of_nat (length es) :: u64) = length es"
    using len by (intro unat_of_nat_small) simp
  have each: "\<forall>e \<in> set es. parses (\<lambda>r. read_metadata_value t 3 (depth + 1) r) (element_bytes e) e"
  proof
    fix e assume e: "e \<in> set es"
    show "parses (\<lambda>r. read_metadata_value t 3 (depth + 1) r) (element_bytes e) e"
      using IH [OF e] oks types e by simp
  qed
  note elements = parses_array_elements [OF types count each]
  show ?thesis
    unfolding element_bytes.simps elem value_type_of.simps
  proof (rule parses_cong)
    fix r
    show "read_metadata_value TArray 3 depth r =
      and_then (read_u32 r) (\<lambda>(elem_type_id, r).
        and_then (ok_or (value_type_from_u32 elem_type_id)
                    (InvalidMetadata ''<array>'' (UnknownElementType elem_type_id)))
          (\<lambda>elem_type.
        and_then (read_array_count 3 r) (\<lambda>(count_u64, r).
            let min_elem_size = min_encoded_value_size elem_type 3;
                max_count = remaining r div min_elem_size
            in if unat count_u64 > max_count
               then Inl (InvalidMetadata ''<array>''
                      (ArrayCountTooLarge count_u64 (remaining r) min_elem_size))
               else and_then
                      (read_n (unat count_u64) (\<lambda>r. read_metadata_value elem_type 3 (depth + 1) r) r)
                      (\<lambda>(elements, r). Inr (VArray elements, r)))))"
      by (subst read_metadata_value.simps, subst depth, subst if_False, subst value_type.case) (rule refl)
  next
    show "parses (\<lambda>r. and_then (read_u32 r) (\<lambda>(elem_type_id, r).
        and_then (ok_or (value_type_from_u32 elem_type_id)
                    (InvalidMetadata ''<array>'' (UnknownElementType elem_type_id)))
          (\<lambda>elem_type.
        and_then (read_array_count 3 r) (\<lambda>(count_u64, r).
            let min_elem_size = min_encoded_value_size elem_type 3;
                max_count = remaining r div min_elem_size
            in if unat count_u64 > max_count
               then Inl (InvalidMetadata ''<array>''
                      (ArrayCountTooLarge count_u64 (remaining r) min_elem_size))
               else and_then
                      (read_n (unat count_u64) (\<lambda>r. read_metadata_value elem_type 3 (depth + 1) r) r)
                      (\<lambda>(elements, r). Inr (VArray elements, r))))))
      (to_le_bytes 4 (value_type_as_u32 t) @
       to_le_bytes 8 (word_of_nat (length es) :: u64) @ concat (map element_bytes es)) (VArray es)"
      unfolding read_array_count_3
      by (rule parses_seq, rule parses_ints(3), rule parses_ok_or, rule value_type_from_as,
          rule parses_seq, rule parses_ints(5), rule elements)
  qed
qed

lemma parses_value:
  "value_ok depth v \<Longrightarrow>
   parses (\<lambda>r. read_metadata_value (value_type_of v) 3 depth r) (element_bytes v) v"
proof (induction v arbitrary: depth)
  case (VArray es)
  show ?case by (rule parses_array [OF VArray.prems]) (rule VArray.IH)
next
  case (VUint8 x)
  show ?case
    by (rule parses_scalar [where c = VUint8 and p = read_u8, OF VUint8.prems])
       (simp_all only: value_type_of.simps element_bytes.simps read_scalar read_str_3 parses_read_u8)
next
  case (VInt8 x)
  show ?case
    by (rule parses_scalar [where c = VInt8 and p = read_u8, OF VInt8.prems])
       (simp_all only: value_type_of.simps element_bytes.simps read_scalar read_str_3 parses_read_u8)
next
  case (VUint16 x)
  show ?case
    by (rule parses_scalar [where c = VUint16 and p = read_u16, OF VUint16.prems])
       (simp_all only: value_type_of.simps element_bytes.simps read_scalar read_str_3 parses_ints(1))
next
  case (VInt16 x)
  show ?case
    by (rule parses_scalar [where c = VInt16 and p = read_i16, OF VInt16.prems])
       (simp_all only: value_type_of.simps element_bytes.simps read_scalar read_str_3 parses_ints(2))
next
  case (VUint32 x)
  show ?case
    by (rule parses_scalar [where c = VUint32 and p = read_u32, OF VUint32.prems])
       (simp_all only: value_type_of.simps element_bytes.simps read_scalar read_str_3 parses_ints(3))
next
  case (VInt32 x)
  show ?case
    by (rule parses_scalar [where c = VInt32 and p = read_i32, OF VInt32.prems])
       (simp_all only: value_type_of.simps element_bytes.simps read_scalar read_str_3 parses_ints(4))
next
  case (VFloat32 x)
  show ?case
    by (rule parses_scalar [where c = VFloat32 and p = read_f32, OF VFloat32.prems])
       (simp_all only: value_type_of.simps element_bytes.simps read_scalar read_str_3 parses_ints(7))
next
  case (VBool x)
  show ?case
    by (rule parses_scalar [where c = VBool and p = read_bool, OF VBool.prems])
       (simp_all only: value_type_of.simps element_bytes.simps read_scalar read_str_3 parses_read_bool)
next
  case (VUint64 x)
  show ?case
    by (rule parses_scalar [where c = VUint64 and p = read_u64, OF VUint64.prems])
       (simp_all only: value_type_of.simps element_bytes.simps read_scalar read_str_3 parses_ints(5))
next
  case (VInt64 x)
  show ?case
    by (rule parses_scalar [where c = VInt64 and p = read_i64, OF VInt64.prems])
       (simp_all only: value_type_of.simps element_bytes.simps read_scalar read_str_3 parses_ints(6))
next
  case (VFloat64 x)
  show ?case
    by (rule parses_scalar [where c = VFloat64 and p = read_f64, OF VFloat64.prems])
       (simp_all only: value_type_of.simps element_bytes.simps read_scalar read_str_3 parses_ints(8))
next
  case (VString x)
  then have ok: "utf8_string x" "length x < 2 ^ 64" by simp_all
  show ?case
    by (rule parses_scalar [where c = VString and p = read_string, OF VString.prems])
       (simp_all only: value_type_of.simps element_bytes.simps read_scalar read_str_3
          parses_read_string [OF ok])
qed

section \<open>Entries and loops\<close>

lemma parses_kv:
  assumes "utf8_string key" and "length key < 2 ^ 64" and "value_ok 0 val"
  shows "parses (parse_kv 3) (kv_bytes (key, val)) (key, val)"
proof -
  have ret: "parses (\<lambda>r. and_then (read_metadata_value (value_type_of val) 3 0 r)
      (\<lambda>(val, r). Inr ((key, val), r))) (element_bytes val) (key, val)"
    by (rule parses_map) (rule parses_value [OF assms(3)])
  show ?thesis
    unfolding parse_kv_def [abs_def] kv_bytes_def fst_conv snd_conv read_str_3
      metadata_value_type_id_def
    by (rule parses_seq, rule parses_read_string [OF assms(1,2)], rule parses_seq,
        rule parses_ints, rule parses_ok_or, rule value_type_from_as, rule ret)
qed

lemma parses_metadata_loop:
  assumes "\<forall>(k, v) \<in> set kvs. utf8_string k \<and> length k < 2 ^ 64 \<and> value_ok 0 v"
  shows "parses (parse_metadata_loop (length kvs) 3 s) (concat (map kv_bytes kvs))
           (fold (\<lambda>(k, v). md_insert k v) kvs s)"
  using assms
proof (induction kvs arbitrary: s)
  case Nil
  then show ?case using parses_return by (simp add: parses_def)
next
  case (Cons kv kvs)
  obtain k v where kv: "kv = (k, v)" by fastforce
  have "parses (\<lambda>r. and_then (parse_kv 3 r)
        (\<lambda>(x, r). (\<lambda>(key, val) r. parse_metadata_loop (length kvs) 3 (md_insert key val s) r) x r))
     (kv_bytes (k, v) @ concat (map kv_bytes kvs))
     (fold (\<lambda>(k, v). md_insert k v) kvs (md_insert k v s))"
    using Cons kv by (intro parses_seq [OF parses_kv]) auto
  then show ?case
    by (simp add: kv parses_def case_prod_unfold)
qed

definition info_of :: "tensor_meta \<times> u64 \<Rightarrow> tensor_info" where
  "info_of mo =
     \<lparr>ti_name = tm_name (fst mo), ti_n_dims = word_of_nat (length (tm_dimensions (fst mo))),
      ti_dimensions = tm_dimensions (fst mo), ti_type = tm_type (fst mo), ti_offset = snd mo\<rparr>"

definition meta_ok :: "tensor_meta \<Rightarrow> bool" where
  "meta_ok m \<longleftrightarrow> utf8_string (tm_name m) \<and> length (tm_name m) < 2 ^ 64 \<and>
     tm_dimensions m \<noteq> [] \<and> length (tm_dimensions m) \<le> 4"

lemma parses_tensor_info:
  assumes "meta_ok m"
  shows "parses (parse_tensor_info 3) (tensor_info_bytes (m, off)) (info_of (m, off))"
proof -
  let ?n = "word_of_nat (length (tm_dimensions m)) :: u32"
  have name: "utf8_string (tm_name m)" "length (tm_name m) < 2 ^ 64"
    and dims: "tm_dimensions m \<noteq> []" "length (tm_dimensions m) \<le> 4"
    using assms by (auto simp: meta_ok_def)
  have n: "unat ?n = length (tm_dimensions m)"
    using dims(2) by (intro unat_of_nat_small) simp
  have bad: "(?n = 0 \<or> ?n > MAX_TENSOR_DIMS) = False"
    using n dims by (auto simp: MAX_TENSOR_DIMS_def word_less_nat_alt)
  have rd: "parses (read_n (unat ?n) read_u64) (concat (map (to_le_bytes 8) (tm_dimensions m)))
      (tm_dimensions m)"
    unfolding n by (intro parses_read_n ballI parses_ints)
  show ?thesis
    unfolding parse_tensor_info_def [abs_def] tensor_info_bytes_def fst_conv snd_conv
      read_str_3 read_dim_3 read_offset_3 info_of_def
    apply (rule parses_seq, rule parses_read_string [OF name], rule parses_seq, rule parses_ints)
    unfolding bad if_False
    by (rule parses_seq, rule rd, rule parses_seq, rule parses_ints, rule parses_ok_or,
        rule tensor_type_from_as, rule parses_map, rule parses_ints)
qed

lemma parses_tensor_infos_loop:
  assumes "\<forall>(m, off) \<in> set ms. meta_ok m" and "distinct (map (tm_name \<circ> fst) ms)"
    and "\<forall>(m, off) \<in> set ms. tm_name m \<notin> fst ` set (ts_infos s)"
  shows "parses (parse_tensor_infos_loop (length ms) 3 s) (concat (map tensor_info_bytes ms))
           (s\<lparr>ts_infos := ts_infos s @ map (\<lambda>i. (ti_name (info_of i), info_of i)) ms\<rparr>)"
  using assms
proof (induction ms arbitrary: s)
  case Nil
  then show ?case using parses_return by (simp add: parses_def)
next
  case (Cons mo ms)
  obtain m off where mo: "mo = (m, off)" by fastforce
  let ?i = "info_of (m, off)"
  let ?s = "s\<lparr>ts_infos := ts_infos s @ [(tm_name m, ?i)]\<rparr>"
  have nm: "ti_name ?i = tm_name m" by (simp add: info_of_def)
  have new: "tm_name m \<notin> fst ` set (ts_infos s)" using Cons.prems(3) mo by auto
  then have ins: "ts_try_insert ?i s = Inr ?s"
    using AList_update_new [OF new, of ?i] by (simp add: ts_try_insert_def ts_insert_def nm map_of_eq_None_iff)
  have rest: "parses (parse_tensor_infos_loop (length ms) 3 ?s) (concat (map tensor_info_bytes ms))
      (?s\<lparr>ts_infos := ts_infos ?s @ map (\<lambda>i. (ti_name (info_of i), info_of i)) ms\<rparr>)"
    using Cons.prems mo by (intro Cons.IH) (auto simp: image_iff split_beta)
  have "parses (\<lambda>r. and_then (parse_tensor_info 3 r) (\<lambda>(info, r).
          and_then (ts_try_insert info s) (\<lambda>s. parse_tensor_infos_loop (length ms) 3 s r)))
     (tensor_info_bytes (m, off) @ concat (map tensor_info_bytes ms))
     (?s\<lparr>ts_infos := ts_infos ?s @ map (\<lambda>i. (ti_name (info_of i), info_of i)) ms\<rparr>)"
  proof (rule parses_seq)
    show "parses (parse_tensor_info 3) (tensor_info_bytes (m, off)) ?i"
      using Cons.prems(1) mo by (intro parses_tensor_info) auto
    show "parses (\<lambda>r. and_then (ts_try_insert ?i s) (\<lambda>s. parse_tensor_infos_loop (length ms) 3 s r))
       (concat (map tensor_info_bytes ms))
       (?s\<lparr>ts_infos := ts_infos ?s @ map (\<lambda>i. (ti_name (info_of i), info_of i)) ms\<rparr>)"
      using rest by (simp add: ins)
  qed
  then show ?case by (simp add: mo nm parses_def)
qed

section \<open>Where the payloads are\<close>

lemma data_section_at:
  assumes "i < length ds"
  shows "\<exists>j. layout_offsets k (map length ds) ! i = k + j \<and>
             take (length (ds ! i)) (drop j (data_section k ds)) = ds ! i \<and>
             j + length (ds ! i) \<le> length (data_section k ds)"
  using assms
proof (induction k ds arbitrary: i rule: data_section.induct)
  case (1 k)
  then show ?case by simp
next
  case (2 k d)
  then show ?case by simp
next
  case (3 k d d' ds)
  show ?case
  proof (cases i)
    case 0
    then show ?thesis by simp
  next
    case (Suc i')
    let ?k = "round_up (k + length d)"
    obtain j where j: "layout_offsets ?k (map length (d' # ds)) ! i' = ?k + j"
        "take (length ((d' # ds) ! i')) (drop j (data_section ?k (d' # ds))) = (d' # ds) ! i'"
        "j + length ((d' # ds) ! i') \<le> length (data_section ?k (d' # ds))"
      using "3.IH" [of i'] "3.prems" Suc by auto
    have eq: "layout_offsets k (map length (d # d' # ds)) ! i =
        k + (length d + padding (k + length d) + j)"
      using j(1) Suc by (simp add: round_up_def add.assoc)
    show ?thesis
      using j(2,3) Suc
      by (intro exI [of _ "length d + padding (k + length d) + j"] conjI eq)
         (simp_all add: add.assoc)
  qed
qed

lemma layout_end_data: "layout_end k (map length ds) \<le> k + length (data_section k ds) + 31"
proof (induction k ds rule: data_section.induct)
  case (1 k)
  then show ?case by simp
next
  case (2 k d)
  then show ?case using padding_less [of "k + length d"] by (simp add: round_up_def)
next
  case (3 k d d' ds)
  then show ?case by (simp add: round_up_def)
qed

lemma saturating_add_zero: "saturating_add (a :: u64) 0 = a"
  using saturating_add_small [of a 0] unsigned_less [of a] by simp

lemma align_up_default:
  assumes "n + 32 < 2 ^ 64"
  shows "align_up (word_of_nat n) GGUF_DEFAULT_ALIGNMENT = word_of_nat (round_up n)"
proof -
  let ?w = "word_of_nat n :: u64"
  have n: "unat ?w = n" using assms by (intro unat_of_nat_small) simp
  then have pad: "alignment_padding ?w GGUF_DEFAULT_ALIGNMENT = word_of_nat (padding n)"
    by (intro alignment_padding_nat) simp
  have "align_up ?w GGUF_DEFAULT_ALIGNMENT =
      saturating_add ?w (alignment_padding ?w GGUF_DEFAULT_ALIGNMENT)"
    by (simp add: align_up_def alignment_padding_def GGUF_DEFAULT_ALIGNMENT_def Let_def
        saturating_add_zero)
  also have "\<dots> = ?w + word_of_nat (padding n)"
    unfolding pad using assms padding_less [of n] n by (intro saturating_add_small) simp
  finally show ?thesis by (simp add: round_up_def)
qed

lemma validate_default: "validate_alignment GGUF_DEFAULT_ALIGNMENT = Inr ()"
  by (simp add: validate_alignment_def GGUF_DEFAULT_ALIGNMENT_def is_power_of_two_def
      MAX_GGUF_ALIGNMENT_def)

section \<open>The whole file\<close>

text \<open>
  What the writer must be given for the file to be readable: UTF-8 names, values the format can
  carry, one to four dimensions, payloads of the size their shape and type announce, distinct
  tensor names, and no \<open>general.alignment\<close> other than the one the writer always uses.
\<close>

definition payload_ok :: "pending_tensor \<Rightarrow> bool" where
  "payload_ok t \<longleftrightarrow> meta_ok (pt_meta t) \<and> unat (tm_data_size (pt_meta t)) = length (pt_data t) \<and>
     compute_tensor_data_size (tm_name (pt_meta t)) (tm_dimensions (pt_meta t)) (tm_type (pt_meta t)) =
       Inr (tm_data_size (pt_meta t))"

definition kv_ok :: "string \<times> metadata_value \<Rightarrow> bool" where
  "kv_ok kv \<longleftrightarrow> utf8_string (fst kv) \<and> length (fst kv) < 2 ^ 64 \<and> value_ok 0 (snd kv)"

definition writer_shape :: "gguf_writer \<Rightarrow> bool" where
  "writer_shape g \<longleftrightarrow> gw_tensor_metas g = [] \<and>
     list_all kv_ok (gw_metadata g) \<and> length (gw_metadata g) < 2 ^ 64 \<and>
     list_all payload_ok (gw_tensors g) \<and> length (gw_tensors g) < 2 ^ 64 \<and>
     distinct (map (tm_name \<circ> pt_meta) (gw_tensors g))"

definition writer_ok :: "gguf_writer \<Rightarrow> bool" where
  "writer_ok g \<longleftrightarrow>
     writer_shape g \<and> file_alignment (md_of_list (gw_metadata g)) = GGUF_DEFAULT_ALIGNMENT"

definition written_bytes :: "gguf_writer \<Rightarrow> u8 list" where
  "written_bytes g =
     file_bytes (gw_metadata g) (map pt_meta (gw_tensors g)) (map pt_data (gw_tensors g))"

definition writer_offsets :: "gguf_writer \<Rightarrow> nat list" where
  "writer_offsets g = layout_offsets 0 (map (length \<circ> pt_data) (gw_tensors g))"

definition writer_infos :: "gguf_writer \<Rightarrow> tensor_info list" where
  "writer_infos g = map info_of (zip (map pt_meta (gw_tensors g)) (map word_of_nat (writer_offsets g)))"

definition writer_body :: "gguf_writer \<Rightarrow> u8 list" where
  "writer_body g = prelude_body (gw_metadata g) (map pt_meta (gw_tensors g))
     (map word_of_nat (writer_offsets g))"

end
