(* ===== verification/Gguf_File.thy ===== *)
theory Gguf_File
  imports Gguf_Roundtrip
begin

text \<open>
  Whole files: \<open>gguf_parse\<close> of what \<open>write_to\<close> wrote, and what any file that parses satisfies.
\<close>

section \<open>Parsing a written file\<close>

lemma writer_meta_offsets:
  assumes "writer_shape g"
  shows "meta_offsets (map pt_meta (gw_tensors g)) = writer_offsets g"
    and "fits_u64 (map pt_meta (gw_tensors g)) \<longleftrightarrow>
         layout_end 0 (map length (map pt_data (gw_tensors g))) < 2 ^ 64"
proof -
  have eq: "map (\<lambda>m. unat (tm_data_size m)) (map pt_meta (gw_tensors g)) =
      map (length \<circ> pt_data) (gw_tensors g)"
    using assms by (simp add: writer_shape_def payload_ok_def list_all_iff)
  show "meta_offsets (map pt_meta (gw_tensors g)) = writer_offsets g"
    unfolding meta_offsets_def writer_offsets_def eq ..
  show "fits_u64 (map pt_meta (gw_tensors g)) \<longleftrightarrow>
         layout_end 0 (map length (map pt_data (gw_tensors g))) < 2 ^ 64"
    unfolding fits_u64_def eq by (simp add: comp_def)
qed

lemma written_bytes_body:
  assumes "writer_shape g"
  shows "written_bytes g =
    writer_body g @ replicate (padding (length (writer_body g))) 0 @
    data_section 0 (map pt_data (gw_tensors g))"
  using writer_meta_offsets(1) [OF assms]
  by (simp add: written_bytes_def file_bytes_def prelude_bytes_def Let_def writer_body_def)

lemma written_fits:
  assumes "writer_shape g" and "length (written_bytes g) \<le> isize_max"
  shows "fits_u64 (map pt_meta (gw_tensors g))"
proof -
  have "length (data_section 0 (map pt_data (gw_tensors g))) \<le> isize_max"
    using assms by (simp add: written_bytes_body)
  then show ?thesis
    using layout_end_data [of 0 "map pt_data (gw_tensors g)"] writer_meta_offsets(2) [OF assms(1)]
    by simp
qed

lemma write_to_written:
  assumes "writer_shape g" and "length (written_bytes g) \<le> isize_max"
  shows "write_to vec_ops g [] = Inr (written_bytes g)"
  using write_to_vec [OF _ written_fits [OF assms], of "[]"] assms(1)
  by (simp add: writer_shape_def payload_ok_def list_all_iff written_bytes_def)

definition written_file_at :: "u64 \<Rightarrow> u64 \<Rightarrow> gguf_writer \<Rightarrow> gguf_file" where
  "written_file_at data_offset alignment g =
     \<lparr>gf_header = \<lparr>version = 3, tensor_count = word_of_nat (length (gw_tensors g)),
                   metadata_kv_count = word_of_nat (length (gw_metadata g))\<rparr>,
      gf_metadata = md_of_list (gw_metadata g),
      gf_tensors = \<lparr>ts_infos = map (\<lambda>i. (ti_name i, i)) (writer_infos g),
                    ts_data_offset = data_offset\<rparr>,
      gf_alignment = alignment\<rparr>"

definition written_file :: "gguf_writer \<Rightarrow> gguf_file" where
  "written_file g =
     written_file_at (word_of_nat (round_up (length (writer_body g)))) GGUF_DEFAULT_ALIGNMENT g"

lemma written_file_sel [simp]:
  "gf_metadata (written_file g) = md_of_list (gw_metadata g)"
  "gf_alignment (written_file g) = GGUF_DEFAULT_ALIGNMENT"
  "version (gf_header (written_file g)) = 3"
  "ts_infos (gf_tensors (written_file g)) = map (\<lambda>i. (ti_name i, i)) (writer_infos g)"
  "ts_data_offset (gf_tensors (written_file g)) = word_of_nat (round_up (length (writer_body g)))"
  by (simp_all add: written_file_def written_file_at_def)

lemma writer_infos_length [simp]: "length (writer_infos g) = length (gw_tensors g)"
  by (simp add: writer_infos_def writer_offsets_def)

lemma writer_infos_nth:
  assumes "i < length (gw_tensors g)"
  shows "writer_infos g ! i =
    info_of (pt_meta (gw_tensors g ! i), word_of_nat (writer_offsets g ! i))"
  using assms by (simp add: writer_infos_def writer_offsets_def)

lemma writer_infos_names:
  "map ti_name (writer_infos g) = map (tm_name \<circ> pt_meta) (gw_tensors g)"
  by (rule nth_equalityI) (simp_all add: writer_infos_nth info_of_def)

lemma parse_metadata_written:
  assumes "list_all kv_ok kvs" and "length kvs < 2 ^ 64"
    and "remaining_data r = concat (map kv_bytes kvs) @ rest"
    and "metadata_kv_count h = word_of_nat (length kvs)" and "version h = 3"
  shows "parse_metadata h r =
    Inr (md_of_list kvs, advance (length (concat (map kv_bytes kvs))) r)"
proof -
  have "unat (metadata_kv_count h) = length kvs"
    unfolding assms(4) using assms(2) by (intro unat_of_nat_small) simp
  moreover have "parses (parse_metadata_loop (length kvs) 3 md_new) (concat (map kv_bytes kvs))
      (md_of_list kvs)"
    unfolding md_of_list_def using assms(1)
    by (intro parses_metadata_loop) (auto simp: list_all_iff kv_ok_def)
  ultimately show ?thesis
    using parsesD [OF _ assms(3)] assms(5) by (simp add: parse_metadata_def)
qed

lemma parse_tensor_infos_written:
  assumes ok: "\<forall>(m, off) \<in> set ms. meta_ok m" and names: "distinct (map (tm_name \<circ> fst) ms)"
    and small: "length ms < 2 ^ 64" and r: "remaining_data r = concat (map tensor_info_bytes ms) @ rest"
    and h: "tensor_count h = word_of_nat (length ms)" "version h = 3"
  shows "parse_tensor_infos h r =
    Inr (\<lparr>ts_infos = map (\<lambda>i. (ti_name (info_of i), info_of i)) ms, ts_data_offset = 0\<rparr>,
         advance (length (concat (map tensor_info_bytes ms))) r)"
proof -
  have n: "unat (tensor_count h) = length ms"
    unfolding h(1) using small by (intro unat_of_nat_small) simp
  have "parse_tensor_infos_loop (length ms) 3 ts_new r =
      Inr (ts_new\<lparr>ts_infos := ts_infos ts_new @ map (\<lambda>i. (ti_name (info_of i), info_of i)) ms\<rparr>,
           advance (length (concat (map tensor_info_bytes ms))) r)"
    by (rule parsesD [OF parses_tensor_infos_loop [OF ok names] r]) (simp add: ts_new_def)
  then show ?thesis
    by (simp add: parse_tensor_infos_def n [unfolded h(1)] h ts_len_def ts_new_def)
qed

lemma gguf_parse_written_at:
  assumes ok: "writer_shape g" and al: "validate_alignment (file_alignment (md_of_list (gw_metadata g))) = Inr ()"
  shows "gguf_parse (written_bytes g) = Inr (written_file_at
    (align_up (word_of_nat (length (writer_body g))) (file_alignment (md_of_list (gw_metadata g))))
    (file_alignment (md_of_list (gw_metadata g))) g)"
proof -
  let ?kvs = "gw_metadata g" and ?ts = "gw_tensors g"
  let ?ms = "zip (map pt_meta ?ts) (map word_of_nat (writer_offsets g)) :: (tensor_meta \<times> u64) list"
  let ?h = "\<lparr>version = 3, tensor_count = word_of_nat (length ?ts),
             metadata_kv_count = word_of_nat (length ?kvs)\<rparr>"
  let ?K = "concat (map kv_bytes ?kvs)" and ?T = "concat (map tensor_info_bytes ?ms)"
  let ?tail = "replicate (padding (length (writer_body g))) 0 @ data_section 0 (map pt_data ?ts)"
  have body: "writer_body g = header_bytes (word_of_nat (length ?ts)) (word_of_nat (length ?kvs)) @ ?K @ ?T"
    by (simp add: writer_body_def prelude_body_def)
  have bytes: "written_bytes g =
      header_bytes (word_of_nat (length ?ts)) (word_of_nat (length ?kvs)) @ ?K @ ?T @ ?tail"
    unfolding written_bytes_body [OF ok] body by simp
  have len: "24 + length ?K + length ?T = length (writer_body g)" unfolding body by simp
  let ?r = "reader_new (written_bytes g) 24"
  have r: "remaining_data ?r = ?K @ ?T @ ?tail"
    unfolding bytes by (simp add: reader_new_def remaining_data_drop)
  have header: "header_parse (written_bytes g) 0 = Inr (?h, 24)"
    unfolding bytes by (rule header_parse_bytes)
  have md: "parse_metadata ?h ?r = Inr (md_of_list ?kvs, advance (length ?K) ?r)"
    using ok r by (intro parse_metadata_written) (simp_all add: writer_shape_def)
  have ms_len: "length ?ms = length ?ts" by (simp add: writer_offsets_def)
  have ms_names: "map (tm_name \<circ> fst) ?ms = map (tm_name \<circ> pt_meta) ?ts"
    by (rule nth_equalityI) (simp_all add: writer_offsets_def)
  have ti: "parse_tensor_infos ?h (advance (length ?K) ?r) =
      Inr (\<lparr>ts_infos = map (\<lambda>i. (ti_name (info_of i), info_of i)) ?ms, ts_data_offset = 0\<rparr>,
           advance (length ?T) (advance (length ?K) ?r))"
  proof (rule parse_tensor_infos_written)
    show "\<forall>(m, off) \<in> set ?ms. meta_ok m"
    proof -
      have "\<forall>m \<in> set (map pt_meta ?ts). meta_ok m"
        using ok by (simp add: writer_shape_def payload_ok_def list_all_iff)
      then show ?thesis by (blast dest: set_zip_leftD)
    qed
    show "distinct (map (tm_name \<circ> fst) ?ms)" unfolding ms_names using ok by (simp add: writer_shape_def)
    show "length ?ms < 2 ^ 64" unfolding ms_len using ok by (simp add: writer_shape_def)
    show "remaining_data (advance (length ?K) ?r) = ?T @ ?tail"
      by (rule remaining_data_advance [OF r])
  qed (simp_all only: gguf_header.select_convs ms_len)
  have pos: "position (advance (length ?K + length ?T) ?r) = length (writer_body g)"
    using len by (simp add: position_def reader_new_def)
  show ?thesis
    unfolding gguf_parse_def header
    by (simp add: md al ti pos written_file_at_def set_data_offset_def
        writer_infos_def comp_def Let_def)
qed

lemma writer_ok_shape: "writer_ok g \<Longrightarrow> writer_shape g"
  by (simp add: writer_ok_def)

lemma gguf_parse_written:
  assumes ok: "writer_ok g" and small: "length (written_bytes g) \<le> isize_max"
  shows "gguf_parse (written_bytes g) = Inr (written_file g)"
proof -
  have "length (writer_body g) \<le> isize_max"
    using small unfolding written_bytes_body [OF writer_ok_shape [OF ok]] by simp
  then have up: "align_up (word_of_nat (length (writer_body g))) GGUF_DEFAULT_ALIGNMENT =
      word_of_nat (round_up (length (writer_body g)))"
    by (intro align_up_default) simp
  have al: "file_alignment (md_of_list (gw_metadata g)) = GGUF_DEFAULT_ALIGNMENT"
    using ok by (simp add: writer_ok_def)
  show ?thesis
    using gguf_parse_written_at [OF writer_ok_shape [OF ok]] up
    by (simp add: al validate_default written_file_def)
qed

text \<open>Reading a payload back.\<close>

lemma try_data_size_cong:
  assumes "ti_name t = ti_name u" and "ti_dimensions t = ti_dimensions u" and "ti_type t = ti_type u"
  shows "try_data_size t = try_data_size u"
  unfolding try_data_size_def try_n_elements_def assms ..

lemma writer_offset_bound:
  assumes ok: "writer_ok g" and i: "i < length (gw_tensors g)"
  shows "take (length (pt_data (gw_tensors g ! i)))
           (drop (round_up (length (writer_body g)) + writer_offsets g ! i) (written_bytes g)) =
         pt_data (gw_tensors g ! i)"
    and "round_up (length (writer_body g)) + writer_offsets g ! i +
         length (pt_data (gw_tensors g ! i)) \<le> length (written_bytes g)"
proof -
  let ?ds = "map pt_data (gw_tensors g)"
  obtain j where j: "layout_offsets 0 (map length ?ds) ! i = 0 + j"
      "take (length (?ds ! i)) (drop j (data_section 0 ?ds)) = ?ds ! i"
      "j + length (?ds ! i) \<le> length (data_section 0 ?ds)"
    using data_section_at [of i ?ds 0] i by auto
  have off: "writer_offsets g ! i = j" using j(1) by (simp add: writer_offsets_def)
  have skip: "drop (round_up (length (writer_body g)) + j) (written_bytes g) =
      drop j (data_section 0 ?ds)"
    unfolding written_bytes_body [OF writer_ok_shape [OF ok]] by (simp add: round_up_def)
  show "take (length (pt_data (gw_tensors g ! i)))
           (drop (round_up (length (writer_body g)) + writer_offsets g ! i) (written_bytes g)) =
         pt_data (gw_tensors g ! i)"
    using j(2) i by (simp add: off skip)
  show "round_up (length (writer_body g)) + writer_offsets g ! i +
         length (pt_data (gw_tensors g ! i)) \<le> length (written_bytes g)"
    using j(3) i by (simp add: off written_bytes_body [OF writer_ok_shape [OF ok]] round_up_def)
qed

lemma written_file_info:
  assumes ok: "writer_ok g" and i: "i < length (gw_tensors g)"
  shows "ts_get (gf_tensors (written_file g)) (tm_name (pt_meta (gw_tensors g ! i))) =
    Inr (info_of (pt_meta (gw_tensors g ! i), word_of_nat (writer_offsets g ! i)))"
proof -
  have dist: "distinct (map ti_name (writer_infos g))"
    using ok by (simp add: writer_infos_names writer_ok_def writer_shape_def)
  let ?m = "map (\<lambda>i. (ti_name i, i)) (writer_infos g)"
  have "(ti_name (writer_infos g ! i), writer_infos g ! i) \<in> set ?m"
    using i by (auto intro!: image_eqI nth_mem)
  moreover have "distinct (map fst ?m)" using dist by (simp add: comp_def)
  ultimately have "map_of ?m (ti_name (writer_infos g ! i)) = Some (writer_infos g ! i)"
    by (rule map_of_is_SomeI [rotated])
  then show ?thesis
    using i by (simp add: ts_get_Inr written_file_def written_file_at_def writer_infos_nth) (simp add: info_of_def)
qed

lemma tensor_data_written:
  assumes ok: "writer_ok g" and small: "length (written_bytes g) \<le> isize_max"
    and usize: "length (written_bytes g) \<le> usize_max" and i: "i < length (gw_tensors g)"
  shows "tensor_data usize_max (written_file g) (written_bytes g)
           (tm_name (pt_meta (gw_tensors g ! i))) = Inr (pt_data (gw_tensors g ! i))"
proof -
  let ?t = "gw_tensors g ! i" and ?base = "round_up (length (writer_body g))"
  let ?off = "writer_offsets g ! i"
  let ?info = "info_of (pt_meta ?t, word_of_nat ?off)"
  have pay: "payload_ok ?t" using ok i by (simp add: writer_ok_def writer_shape_def list_all_iff)
  note bound = writer_offset_bound [OF ok i]
  have base: "unat (word_of_nat ?base :: u64) = ?base"
    using bound(2) small by (intro unat_of_nat_small) simp
  have off: "unat (word_of_nat ?off :: u64) = ?off"
    using bound(2) small by (intro unat_of_nat_small) simp
  let ?abs = "word_of_nat ?base + word_of_nat ?off :: u64"
  have add: "checked_add (word_of_nat ?base :: u64) (word_of_nat ?off) = Some ?abs"
    using bound(2) small base off by (intro checked_add_SomeI) simp
  have abs: "unat ?abs = ?base + ?off"
    using checked_add_Some [OF add] base off by simp
  have size: "try_data_size ?info = Inr (tm_data_size (pt_meta ?t))"
  proof -
    have "try_data_size ?info = compute_tensor_data_size (tm_name (pt_meta ?t))
        (tm_dimensions (pt_meta ?t)) (tm_type (pt_meta ?t))"
      unfolding compute_tensor_data_size_def
      by (rule try_data_size_cong) (simp_all add: info_of_def)
    with pay show ?thesis by (simp add: payload_ok_def)
  qed
  have n: "unat (tm_data_size (pt_meta ?t)) = length (pt_data ?t)"
    using pay by (simp add: payload_ok_def)
  have ioff: "ti_offset ?info = word_of_nat ?off" by (simp add: info_of_def)
  have tbase: "ts_data_offset (gf_tensors (written_file g)) = word_of_nat ?base"
    by (simp add: written_file_def written_file_at_def)
  have "tensor_data_range usize_max (written_file g) (length (written_bytes g)) (tm_name (pt_meta ?t)) =
      Inr (?base + ?off, length (pt_data ?t))"
    unfolding tensor_data_range_def written_file_info [OF ok i] tbase
    using bound(2) usize
    by (simp add: Let_def size add abs n ioff)
  then show ?thesis
    using bound(1) by (simp add: tensor_data_def)
qed

lemma utf8_ascii:
  assumes "list_all (\<lambda>c. of_char c < (128 :: nat)) s"
  shows "utf8_string s"
  unfolding utf8_string_def
proof (rule utf8_valid_ascii, rule ballI)
  fix b assume "b \<in> set (str_bytes s)"
  then obtain c where c: "c \<in> set s" "b = byte_of_char c" by (auto simp: str_bytes_def)
  then have "of_char c < (128 :: nat)" using assms by (auto simp: list_all_iff)
  then have "unat (word_of_nat (of_char c) :: u8) < 128"
    by (subst unat_of_nat_small) simp_all
  then show "b \<le> 0x7F" by (simp add: c(2) byte_of_char_def word_le_nat_alt)
qed

end
