(* ===== verification/Gguf_Stream.thy ===== *)
theory Gguf_Stream
  imports Gguf_File
begin

text \<open>
  The streaming path of the writer as a client runs it: add the metadata, declare every tensor, turn the
  writer into a data writer, stream every payload in chunks, finish. What it leaves in the vector is the
  file of the buffered path for the payloads that were streamed, and it fails when one has the wrong length.
\<close>

fun declare_all :: "tensor_meta list \<Rightarrow> gguf_writer \<Rightarrow> gguf_writer gguf_result" where
  "declare_all [] g = Inr g"
| "declare_all (m # ms) g =
     and_then (declare_tensor (tm_name m) (tm_dimensions m) (tm_type m) g) (declare_all ms)"

fun stream_all :: "'w write_ops \<Rightarrow> (string \<times> u8 list list) list \<Rightarrow> 'w data_writer \<Rightarrow> 'w data_writer gguf_result" where
  "stream_all io [] d = Inr d"
| "stream_all io ((name, chunks) # ts) d =
     and_then (write_tensor_from_chunks io name chunks d) (stream_all io ts)"

definition stream_file ::
    "(string \<times> metadata_value) list \<Rightarrow> tensor_meta list \<Rightarrow> u8 list list list \<Rightarrow> u8 list gguf_result" where
  "stream_file metadata metas payloads =
     and_then (declare_all metas (fold (\<lambda>(key, val). add_metadata key val) metadata writer_new)) (\<lambda>g.
     and_then (into_data_writer vec_ops g []) (\<lambda>d.
     and_then (stream_all vec_ops (zip (map tm_name metas) payloads) d) (finish vec_ops)))"

text \<open>The writer whose tensors carry the streamed payloads.\<close>

definition with_payload :: "pending_tensor \<Rightarrow> u8 list list \<Rightarrow> pending_tensor" where
  "with_payload t chunks = t\<lparr>pt_data := concat chunks\<rparr>"

definition with_payloads :: "gguf_writer \<Rightarrow> u8 list list list \<Rightarrow> gguf_writer" where
  "with_payloads g payloads = g\<lparr>gw_tensors := map2 with_payload (gw_tensors g) payloads\<rparr>"

lemma with_payload_meta [simp]: "pt_meta (with_payload t cs) = pt_meta t" "pt_data (with_payload t cs) = concat cs"
  by (simp_all add: with_payload_def)

lemma map2_with_payload:
  "length ts = length css \<Longrightarrow> map pt_meta (map2 with_payload ts css) = map pt_meta ts"
  "length ts = length css \<Longrightarrow> map pt_data (map2 with_payload ts css) = map concat css"
  by (induction ts css rule: list_induct2) simp_all

section \<open>Declaring\<close>

lemma fold_add_metadata:
  "fold (\<lambda>(key, val). add_metadata key val) kvs g = g\<lparr>gw_metadata := gw_metadata g @ kvs\<rparr>"
  by (induction kvs arbitrary: g) (auto simp: add_metadata_def)

lemma declare_all_payloads:
  "list_all payload_ok ts \<Longrightarrow>
    declare_all (map pt_meta ts) g = Inr (g\<lparr>gw_tensor_metas := gw_tensor_metas g @ map pt_meta ts\<rparr>)"
  by (induction ts arbitrary: g) (simp_all add: payload_ok_def declare_tensor_def)

section \<open>Streaming\<close>

lemma stream_all_write:
  assumes "length ts = length css" and "\<And>cs. cs \<in> set css \<Longrightarrow> length (concat cs) < 2 ^ 64"
  shows "stream_all vec_ops (zip (map tm_name (map pt_meta ts)) css) d = Inr d' \<longleftrightarrow>
    write_all_tensors vec_ops (map2 with_payload ts css) d = Inr d'"
  using assms
proof (induction ts css arbitrary: d rule: list_induct2)
  case (Cons t ts cs css)
  then have "length (concat cs) < 2 ^ 64" by simp
  note step = write_tensor_from_chunks_vec[OF this, of "tm_name (pt_meta t)" d]
  from Cons show ?case by (auto simp: and_then_Inr_iff step)
qed simp

lemma advance_after_tensor_index:
  "advance_after_tensor io n d = Inr d' \<Longrightarrow> dw_metas d' = dw_metas d \<and> dw_next_index d' = Suc (dw_next_index d)"
  by (auto simp: advance_after_tensor_def and_then_Inr_iff Let_def split: if_splits)

text \<open>Nothing is written past a payload of the wrong length.\<close>

lemma write_tensor_checks:
  assumes "write_tensor io name data d = Inr d'" and "dw_metas d = pre @ m # ms" and "dw_next_index d = length pre"
  shows "word_of_nat (length data) = tm_data_size m \<and> dw_metas d' = dw_metas d \<and> dw_next_index d' = Suc (length pre)"
  using assms
  by (auto simp: write_tensor_def validate_next_def and_then_Inr_iff Let_def dest!: advance_after_tensor_index split: if_splits)

lemma write_all_tensors_checks:
  assumes "write_all_tensors io ts d = Inr d'" and "dw_metas d = pre @ map pt_meta ts" and "dw_next_index d = length pre"
  shows "\<forall>t \<in> set ts. word_of_nat (length (pt_data t)) = tm_data_size (pt_meta t)"
  using assms
proof (induction ts arbitrary: d pre)
  case (Cons t ts)
  obtain d1 where d1: "write_tensor io (tm_name (pt_meta t)) (pt_data t) d = Inr d1" "write_all_tensors io ts d1 = Inr d'"
    using Cons.prems(1) by (auto simp: and_then_Inr_iff)
  note check = write_tensor_checks[OF d1(1), of pre "pt_meta t" "map pt_meta ts"]
  show ?case
    using Cons.IH[OF d1(2), of "pre @ [pt_meta t]"] check Cons.prems(2,3) by simp
qed simp

section \<open>The whole file\<close>

lemma with_payloads_sel [simp]:
  "gw_metadata (with_payloads g css) = gw_metadata g" "gw_tensor_metas (with_payloads g css) = gw_tensor_metas g"
  "gw_tensors (with_payloads g css) = map2 with_payload (gw_tensors g) css"
  by (simp_all add: with_payloads_def)

lemma data_section_length:
  "map length ds = map length es \<Longrightarrow> length (data_section k ds) = length (data_section k es)"
proof (induction k ds arbitrary: es rule: data_section.induct)
  case (2 k d)
  then show ?case by (cases es) auto
next
  case (3 k d d' ds)
  then obtain e e' es' where es: "es = e # e' # es'" by (auto simp: Cons_eq_map_conv)
  with 3 have "length (data_section (round_up (k + length d)) (d' # ds)) =
      length (data_section (round_up (k + length d)) (e' # es'))" "length d = length e"
    by (auto simp del: data_section.simps)
  then show ?case by (simp add: es)
qed simp

lemma payloads_ok:
  "length ts = length css \<Longrightarrow> list_all payload_ok ts \<Longrightarrow> map (length \<circ> concat) css = map (length \<circ> pt_data) ts \<Longrightarrow>
    list_all payload_ok (map2 with_payload ts css)"
  by (induction ts css rule: list_induct2) (simp_all add: payload_ok_def)

text \<open>A writer stays in order when its payloads are replaced by others of the same lengths.\<close>

lemma with_payloads_ok:
  assumes "writer_ok g" and lens: "map (length \<circ> concat) css = map (length \<circ> pt_data) (gw_tensors g)"
  shows "writer_ok (with_payloads g css)" and "length (written_bytes (with_payloads g css)) = length (written_bytes g)"
    and "written_bytes (with_payloads g css) = file_bytes (gw_metadata g) (map pt_meta (gw_tensors g)) (map concat css)"
proof -
  have n: "length (gw_tensors g) = length css" using map_eq_imp_length_eq[OF lens] by simp
  note shape = assms(1)[unfolded writer_ok_def writer_shape_def]
  have "map (tm_name \<circ> pt_meta) (map2 with_payload (gw_tensors g) css) = map (tm_name \<circ> pt_meta) (gw_tensors g)"
    using map2_with_payload(1)[OF n] by (metis map_map)
  then show "writer_ok (with_payloads g css)"
    using shape payloads_ok[OF n _ lens] n by (simp add: writer_ok_def writer_shape_def)
  show bytes: "written_bytes (with_payloads g css) =
      file_bytes (gw_metadata g) (map pt_meta (gw_tensors g)) (map concat css)"
    unfolding written_bytes_def with_payloads_sel map2_with_payload[OF n] ..
  have "map length (map concat css) = map length (map pt_data (gw_tensors g))"
    using lens by simp
  from data_section_length[OF this, of 0]
  show "length (written_bytes (with_payloads g css)) = length (written_bytes g)"
    unfolding bytes by (simp add: written_bytes_def file_bytes_def)
qed

text \<open>Payloads of the right lengths give the file; any other is refused.\<close>

lemma stream_file_fits:
  assumes ok: "writer_ok g" and small: "length (written_bytes g) \<le> isize_max"
    and lens: "map (length \<circ> concat) css = map (length \<circ> pt_data) (gw_tensors g)"
  shows "stream_file (gw_metadata g) (map pt_meta (gw_tensors g)) css = Inr (written_bytes (with_payloads g css))"
proof -
  let ?ts = "gw_tensors g" and ?metas = "map pt_meta (gw_tensors g)"
  let ?g = "\<lparr>gw_metadata = gw_metadata g, gw_tensors = [], gw_tensor_metas = ?metas\<rparr>"
  let ?us = "map2 with_payload ?ts css"
  let ?d = "\<lparr>dw_writer = prelude_bytes (gw_metadata g) ?metas, dw_metas = ?metas, dw_next_index = 0, dw_cumulative_offset = 0\<rparr>"
  have n: "length ?ts = length css" using map_eq_imp_length_eq[OF lens] by simp
  note shape = writer_ok_shape [OF ok]
  have fits: "fits_u64 ?metas" by (rule written_fits [OF shape small])
  have pay: "list_all payload_ok ?ts" using shape by (simp add: writer_shape_def)
  have "declare_all ?metas (fold (\<lambda>(key, val). add_metadata key val) (gw_metadata g) writer_new) = Inr ?g"
    using declare_all_payloads [OF pay] by (simp add: fold_add_metadata writer_new_def)
  moreover have "into_data_writer vec_ops ?g [] = Inr ?d"
    using into_data_writer_vec [of ?g "[]"] fits by simp
  moreover obtain d' where d': "write_all_tensors vec_ops ?us ?d = Inr d'" "dw_metas d' = ?metas"
      "dw_next_index d' = length ?metas" "dw_writer d' = dw_writer ?d @ data_section 0 (map pt_data ?us)"
  proof -
    have sizes: "\<forall>t \<in> set ?us. unat (tm_data_size (pt_meta t)) = length (pt_data t)"
      using payloads_ok [OF n pay lens] by (simp add: list_all_iff payload_ok_def)
    have "map (\<lambda>t. length (pt_data t)) ?us = map length (map pt_data ?ts)"
      using arg_cong [OF map2_with_payload(2) [OF n], of "map length"] lens by (simp add: comp_def)
    then have "layout_end (unat (dw_cumulative_offset ?d)) (map (\<lambda>t. length (pt_data t)) ?us) < 2 ^ 64"
      using fits writer_meta_offsets(2) [OF shape] by simp
    from vec.write_all_tensors_emits [of ?d "[]" ?us, OF _ _ sizes this] that show thesis
      using map2_with_payload(1) [OF n] by (auto split: sum.splits)
  qed
  moreover have "stream_all vec_ops (zip (map tm_name ?metas) css) ?d = Inr d'"
  proof -
    have "length (concat cs) < 2 ^ 64" if "cs \<in> set css" for cs
    proof -
      have "length (concat cs) \<in> set (map (length \<circ> concat) css)" using that by (auto simp: image_iff)
      then obtain t where "t \<in> set ?ts" "length (concat cs) = length (pt_data t)" unfolding lens by auto
      then have "length (concat cs) = unat (tm_data_size (pt_meta t))"
        using pay by (simp add: list_all_iff payload_ok_def)
      then show ?thesis using unsigned_less [of "tm_data_size (pt_meta t)"] by simp
    qed
    then show ?thesis using stream_all_write [OF n] d'(1) by simp
  qed
  moreover have "finish vec_ops d' = Inr (dw_writer d')"
    using d'(2,3) by (simp add: finish_def vec_ops_def)
  ultimately show ?thesis
    using d'(4) with_payloads_ok(3) [OF ok lens] map2_with_payload(2) [OF n]
    by (simp add: stream_file_def file_bytes_def)
qed

lemma stream_file_refuses:
  assumes ok: "writer_ok g" and small: "length (written_bytes g) \<le> isize_max"
    and n: "length css = length (gw_tensors g)" and css: "\<And>cs. cs \<in> set css \<Longrightarrow> length (concat cs) < 2 ^ 64"
    and run: "stream_file (gw_metadata g) (map pt_meta (gw_tensors g)) css = Inr bs"
  shows "map (length \<circ> concat) css = map (length \<circ> pt_data) (gw_tensors g)"
proof -
  let ?ts = "gw_tensors g" and ?metas = "map pt_meta (gw_tensors g)"
  let ?g = "\<lparr>gw_metadata = gw_metadata g, gw_tensors = [], gw_tensor_metas = ?metas\<rparr>"
  let ?d = "\<lparr>dw_writer = prelude_bytes (gw_metadata g) ?metas, dw_metas = ?metas, dw_next_index = 0, dw_cumulative_offset = 0\<rparr>"
  note shape = writer_ok_shape [OF ok]
  have pay: "list_all payload_ok ?ts" using shape by (simp add: writer_shape_def)
  have "declare_all ?metas (fold (\<lambda>(key, val). add_metadata key val) (gw_metadata g) writer_new) = Inr ?g"
    using declare_all_payloads [OF pay] by (simp add: fold_add_metadata writer_new_def)
  moreover have "into_data_writer vec_ops ?g [] = Inr ?d"
    using into_data_writer_vec [of ?g "[]"] written_fits [OF shape small] by simp
  ultimately obtain d' where "stream_all vec_ops (zip (map tm_name ?metas) css) ?d = Inr d'"
    using run by (auto simp: stream_file_def and_then_Inr_iff)
  then have w: "write_all_tensors vec_ops (map2 with_payload ?ts css) ?d = Inr d'"
    using stream_all_write [OF n [symmetric] css] by simp
  have sizes: "\<forall>t \<in> set (map2 with_payload ?ts css). word_of_nat (length (pt_data t)) = tm_data_size (pt_meta t)"
    using write_all_tensors_checks [OF w, of "[]"] map2_with_payload(1) [OF n [symmetric]] by simp
  have "length (concat (css ! i)) = length (pt_data (?ts ! i))" if i: "i < length ?ts" for i
  proof -
    have "map2 with_payload ?ts css ! i = with_payload (?ts ! i) (css ! i)" using i n by simp
    then have "with_payload (?ts ! i) (css ! i) \<in> set (map2 with_payload ?ts css)"
      using i n by (metis length_map length_zip min.idem nth_mem)
    with sizes have "word_of_nat (length (concat (css ! i))) = tm_data_size (pt_meta (?ts ! i))" by fastforce
    moreover have "unat (word_of_nat (length (concat (css ! i))) :: u64) = length (concat (css ! i))"
      using css [of "css ! i"] i n by (intro unat_of_nat_small) simp
    moreover have "unat (tm_data_size (pt_meta (?ts ! i))) = length (pt_data (?ts ! i))"
      using pay i by (simp add: list_all_length payload_ok_def)
    ultimately show ?thesis by simp
  qed
  then show ?thesis using n by (intro nth_equalityI) simp_all
qed

end
