(* ===== verification/Gguf_Safety.thy ===== *)
theory Gguf_Safety
  imports Gguf_Roundtrip
begin

text \<open>
  What holds of every input, trusted or not: the parser stays inside the file, what it
  allocates is paid for by bytes it consumed, nesting is bounded, the parsed file is well
  formed, and a tensor range never leaves the file.
\<close>

section \<open>Reads that pay for what they return\<close>

text \<open>\<open>costs c p\<close>: a successful \<open>p\<close> is bounded and consumes at least \<open>c v\<close> bytes for its result.\<close>

definition costs :: "('a \<Rightarrow> nat) \<Rightarrow> 'a read \<Rightarrow> bool" where
  "costs c p \<longleftrightarrow> bounded p \<and> (\<forall>r v r'. p r = Inr (v, r') \<longrightarrow> rd_pos r + c v \<le> rd_pos r')"

lemma costs_bounded: "costs c p \<Longrightarrow> bounded p"
  by (simp add: costs_def)

lemma costsD:
  assumes "costs c p" and "p r = Inr (v, r')"
  shows "rd_pos r + c v \<le> rd_pos r'"
  using assms by (simp add: costs_def)

lemma costs_weaken: "costs c p \<Longrightarrow> (\<And>v. d v \<le> c v) \<Longrightarrow> costs d p"
  unfolding costs_def by (meson add_le_mono le_refl order_trans)

lemma costs_fixed:
  assumes "\<And>r. p r = and_then (check n r) (\<lambda>_. Inr (f r, advance n r))"
  shows "costs (\<lambda>_. n) p"
proof -
  have "bounded p" by (rule bounded_fixed, rule assms)
  then show ?thesis by (simp add: costs_def) (auto simp: and_then_Inr_iff assms)
qed

lemma costs_primitives:
  "costs (\<lambda>_. 1) read_u8" "costs (\<lambda>_. 2) read_u16" "costs (\<lambda>_. 2) read_i16"
  "costs (\<lambda>_. 4) read_u32" "costs (\<lambda>_. 4) read_i32" "costs (\<lambda>_. 8) read_u64"
  "costs (\<lambda>_. 8) read_i64" "costs (\<lambda>_. 4) read_f32" "costs (\<lambda>_. 8) read_f64"
  by (rule costs_fixed, rule read_u8_def read_u16_def read_i16_def read_u32_def read_i32_def
      read_u64_def read_i64_def read_f32_def read_f64_def)+

lemma costs_seq:
  assumes p: "costs c p" and q: "\<And>v. costs (d v) (q v)" and le: "\<And>v w. e w \<le> c v + d v w"
  shows "costs e (\<lambda>r. and_then (p r) (\<lambda>(v, r). q v r))"
proof -
  have "rd_pos r + e w \<le> rd_pos r'" if "and_then (p r) (\<lambda>(v, r). q v r) = Inr (w, r')" for r w r'
  proof -
    from that obtain v r1 where 1: "p r = Inr (v, r1)" "q v r1 = Inr (w, r')"
      by (auto simp: and_then_Inr_iff)
    from costsD [OF p 1(1)] costsD [OF q 1(2)] le [of w v] show ?thesis by linarith
  qed
  moreover have "bounded (\<lambda>r. and_then (p r) (\<lambda>(v, r). q v r))"
    by (intro bounded_and_then costs_bounded [OF p] costs_bounded [OF q])
  ultimately show ?thesis by (simp add: costs_def)
qed

lemma costs_return: "d = 0 \<Longrightarrow> costs (\<lambda>_. d) (\<lambda>r. Inr (f r, r))"
  by (auto simp: costs_def intro: bounded_return)

lemma costs_map:
  assumes "costs c p" and "\<And>v. e (f v) \<le> c v"
  shows "costs e (\<lambda>r. and_then (p r) (\<lambda>(v, r). Inr (f v, r)))"
  using assms bounded_and_then [OF costs_bounded [OF assms(1)] bounded_return [of "\<lambda>_. f _"]]
  by (fastforce simp: costs_def and_then_Inr_iff intro: order_trans [OF add_left_mono])

lemma costs_read_as: "costs c p \<Longrightarrow> (\<And>v. e (f v) \<le> c v) \<Longrightarrow> costs e (read_as f p)"
  unfolding read_as_def [abs_def] by (rule costs_map)

lemma costs_guard:
  "(\<And>a. x = Inr a \<Longrightarrow> costs c (q a)) \<Longrightarrow> costs c (\<lambda>r. and_then x (\<lambda>a. q a r))"
  by (cases x) (auto simp: costs_def bounded_def)

lemma costs_if:
  "costs c p \<Longrightarrow> costs c q \<Longrightarrow> costs c (\<lambda>r. if b r then p r else q r)"
  using bounded_if [of p q b] unfolding costs_def by auto

lemma costs_fail: "costs c (\<lambda>r. Inl (e r))"
  using bounded_fail by (simp add: costs_def)

lemma costs_read_n: "costs c p \<Longrightarrow> costs (\<lambda>vs. sum_list (map c vs)) (read_n n p)"
proof (induction n)
  case 0
  then show ?case by (auto simp: costs_def bounded_def)
next
  case (Suc n)
  have "costs (\<lambda>vs. sum_list (map c vs))
      (\<lambda>r. and_then (p r) (\<lambda>(v, r). and_then (read_n n p r) (\<lambda>(vs, r). Inr (v # vs, r))))"
  proof (rule costs_seq [OF Suc.prems])
    show "costs (\<lambda>ws. if \<exists>vs. ws = v # vs then sum_list (map c (tl ws)) else sum_list (map c ws))
        (\<lambda>r. and_then (read_n n p r) (\<lambda>(vs, r). Inr (v # vs, r)))" for v
      by (rule costs_map [OF Suc.IH [OF Suc.prems]]) simp
  qed (auto simp: neq_Nil_conv)
  then show ?case by (simp add: costs_def bounded_def)
qed

lemma costs_string_body:
  "costs length (\<lambda>r. if k > remaining r then Inl (e r)
     else let bytes = bytes_at r k; r = advance k r
          in and_then (ok_or (string_from_utf8 bytes) (e' r)) (\<lambda>s. Inr (s, r)))"
  using bounded_string_body [of k e e']
  by (auto simp: costs_def and_then_Inr_iff ok_or_Inr_iff Let_def string_from_utf8_def
      bytes_at_def split: if_splits)

lemma costs_read_str: "costs (\<lambda>s. 4 + length s) (read_str ver)"
proof -
  have "costs (\<lambda>s. 4 + length s) read_string"
    unfolding read_string_def [abs_def] Let_def
    by (rule costs_seq [OF costs_primitives(6) costs_string_body [unfolded Let_def]]) simp
  moreover have "costs (\<lambda>s. 4 + length s) read_string_v2"
    unfolding read_string_v2_def [abs_def] Let_def
    by (rule costs_seq [OF costs_primitives(4) costs_string_body [unfolded Let_def]]) simp
  ultimately show ?thesis by (simp add: read_str_def)
qed

section \<open>Metadata values\<close>

text \<open>The memory a value needs, up to a constant factor.\<close>

fun value_size :: "metadata_value \<Rightarrow> nat" where
  "value_size (VString s) = 1 + length s"
| "value_size (VArray es) = 1 + sum_list (map value_size es)"
| "value_size _ = 1"

lemma costs_array_count: "costs (\<lambda>_. 4) (read_array_count ver)"
proof -
  have "costs (\<lambda>_. 4) (\<lambda>r. and_then (read_u32 r) (\<lambda>(n, r). Inr (ucast n :: u64, r)))"
    by (rule costs_map [OF costs_primitives(4)]) simp
  moreover have "costs (\<lambda>_. 4) read_u64" by (rule costs_weaken [OF costs_primitives(6)]) simp
  ultimately show ?thesis unfolding read_array_count_def [abs_def] by (rule costs_if [rotated])
qed

lemmas costs_scalar = costs_primitives [THEN costs_weaken, where d = "\<lambda>_. 1", simplified]

lemma costs_read_bool: "costs (\<lambda>_. 1) read_bool"
  unfolding read_bool_def [abs_def] by (rule costs_map [OF costs_primitives(1)]) simp

lemma costs_array_body:
  assumes "\<And>t. costs value_size (read_metadata_value t ver (depth + 1))"
  shows "costs value_size (\<lambda>r.
     and_then (read_u32 r) (\<lambda>(elem_type_id, r).
     and_then (ok_or (value_type_from_u32 elem_type_id)
                 (InvalidMetadata ''<array>'' (UnknownElementType elem_type_id)))
       (\<lambda>elem_type.
     and_then (read_array_count ver r) (\<lambda>(count_u64, r).
       if unat count_u64 > remaining r div min_encoded_value_size elem_type ver
       then Inl (InvalidMetadata ''<array>''
              (ArrayCountTooLarge count_u64 (remaining r) (min_encoded_value_size elem_type ver)))
       else and_then
              (read_n (unat count_u64) (\<lambda>r. read_metadata_value elem_type ver (depth + 1) r) r)
              (\<lambda>(elements, r). Inr (VArray elements, r))))))"
  apply (rule costs_seq [OF costs_primitives(4), where d = "\<lambda>_ w. value_size w - 1"])
   apply (rule costs_guard)
   apply (rule costs_seq [OF costs_array_count, where d = "\<lambda>_ w. value_size w - 1"])
    apply (rule costs_if)
     apply (rule costs_fail)
    apply (rule costs_map [OF costs_read_n [OF assms]])
    apply simp_all
  done

lemma costs_read_metadata_value: "costs value_size (read_metadata_value t ver depth)"
proof (induction "9 - depth" arbitrary: t depth rule: less_induct)
  case less
  have fail: "costs value_size (\<lambda>r. Inl (InvalidMetadata ''<array>'' NestingTooDeep))"
    by (rule costs_fail)
  show ?case
  proof (cases "depth > MAX_METADATA_ARRAY_DEPTH")
    case True
    then have "read_metadata_value t ver depth = (\<lambda>r. Inl (InvalidMetadata ''<array>'' NestingTooDeep))"
      by (intro ext, subst read_metadata_value.simps) simp
    then show ?thesis using fail by simp
  next
    case False
    then have "9 - (depth + 1) < 9 - depth" by (simp add: MAX_METADATA_ARRAY_DEPTH_def)
    note array = costs_array_body [OF less [OF this], simplified]
    note scalar = costs_scalar [THEN costs_read_as] costs_read_bool [THEN costs_read_as]
      costs_read_str [THEN costs_read_as]
    show ?thesis
      unfolding ext [OF read_metadata_value.simps [of t ver depth]]
      using False array by (cases t) (simp_all add: scalar Let_def)
  qed
qed

section \<open>What the parser lets through\<close>

lemma read_n_all:
  assumes "\<And>r v r'. p r = Inr (v, r') \<Longrightarrow> P v"
  shows "read_n n p r = Inr (vs, r') \<Longrightarrow> length vs = n \<and> (\<forall>v \<in> set vs. P v)"
proof (induction n arbitrary: r vs)
  case 0
  then show ?case by simp
next
  case (Suc n)
  then show ?case by (auto simp: and_then_Inr_iff dest: assms)
qed

lemma string_body_ok:
  assumes "string_from_utf8 (bytes_at r (unat (n :: u64))) = Some s"
  shows "utf8_string s \<and> length s < 2 ^ 64"
proof -
  have "length s = length (str_bytes s)" by (simp add: str_bytes_def)
  also have "\<dots> \<le> unat n" by (simp add: string_from_utf8_Some(2) [OF assms] bytes_at_def)
  also have "\<dots> < 2 ^ 64" using unsigned_less [of n] by simp
  finally show ?thesis using string_from_utf8_Some(1) [OF assms] by simp
qed

lemma read_str_utf8:
  assumes "read_str ver r = Inr (s, r')"
  shows "utf8_string s \<and> length s < 2 ^ 64"
proof (cases "ver \<ge> 3")
  case True
  with assms have "\<exists>n r1. string_from_utf8 (bytes_at r1 (unat (n :: u64))) = Some s"
    by (auto simp: read_str_def read_string_def and_then_Inr_iff ok_or_Inr_iff Let_def
        split: if_splits)
  then show ?thesis using string_body_ok by blast
next
  case False
  with assms have "\<exists>n r1. string_from_utf8 (bytes_at r1 (unat (ucast (n :: u32) :: u64))) = Some s"
    by (auto simp: read_str_def read_string_v2_def and_then_Inr_iff ok_or_Inr_iff Let_def
        split: if_splits)
  then show ?thesis using string_body_ok by blast
qed

text \<open>A value the parser returns has the announced type and can be written back.\<close>

lemma read_metadata_value_ok:
  "read_metadata_value t ver depth r = Inr (v, r') \<Longrightarrow> value_type_of v = t \<and> value_ok depth v"
proof (induction "9 - depth" arbitrary: t depth v r r' rule: less_induct)
  case less
  note res = less.prems [unfolded read_metadata_value.simps [of t ver depth r]]
  from res have depth: "\<not> depth > MAX_METADATA_ARRAY_DEPTH" by (auto split: if_splits)
  then have small: "9 - (depth + 1) < 9 - depth" by (simp add: MAX_METADATA_ARRAY_DEPTH_def)
  show ?case
  proof (cases t)
    case TArray
    with res depth obtain et n es r1 r2 where
        v: "v = VArray es"
        and es: "read_n (unat (n :: u64)) (\<lambda>r. read_metadata_value et ver (depth + 1) r) r1 = Inr (es, r2)"
      by (auto simp: and_then_Inr_iff Let_def split: if_splits)
    have n: "unat n < 2 ^ 64" using unsigned_less [of n] by simp
    have all: "length es = unat n \<and> (\<forall>w \<in> set es. value_type_of w = et \<and> value_ok (depth + 1) w)"
      by (rule read_n_all [OF _ es]) (rule less.hyps [OF small])
    from all n depth show ?thesis
      by (cases es) (auto simp: v TArray)
  next
    case TString
    with res depth show ?thesis
      by (auto simp: read_as_def and_then_Inr_iff dest: read_str_utf8)
  qed (use res depth in \<open>auto simp: read_as_def and_then_Inr_iff\<close>)
qed

lemma parse_kv_ok: "parse_kv ver r = Inr (kv, r') \<Longrightarrow> kv_ok kv"
  unfolding parse_kv_def kv_ok_def
  by (auto simp: and_then_Inr_iff dest: read_str_utf8 read_metadata_value_ok)

text \<open>A table of entries weighs the sum of its entries; replacing one never adds more than the new one.\<close>

definition kv_size :: "string \<times> metadata_value \<Rightarrow> nat" where
  "kv_size kv = length (fst kv) + value_size (snd kv)"

definition store_size :: "metadata_store \<Rightarrow> nat" where
  "store_size s = sum_list (map kv_size (md_entries s))"

lemma sum_list_update:
  "sum_list (map f (AList.update k v al)) \<le> sum_list (map f al) + (f (k, v) :: nat)"
  by (induction al) (auto simp: add.assoc intro: le_add2)

lemma store_size_insert: "store_size (md_insert k v s) \<le> store_size s + kv_size (k, v)"
  by (simp add: store_size_def md_insert_def sum_list_update)

lemma costs_parse_kv: "costs (\<lambda>kv. 8 + kv_size kv) (parse_kv ver)"
proof -
  have "rd_pos r + (8 + kv_size kv) \<le> rd_pos r'" if "parse_kv ver r = Inr (kv, r')" for r kv r'
  proof -
    from that obtain k r1 t r2 ty v where
        kv: "kv = (k, v)" and 1: "read_str ver r = Inr (k, r1)" and 2: "read_u32 r1 = Inr (t, r2)"
        and 3: "read_metadata_value ty ver 0 r2 = Inr (v, r')"
      unfolding parse_kv_def by (auto simp: and_then_Inr_iff)
    from costsD [OF costs_read_str 1] costsD [OF costs_primitives(4) 2]
      costsD [OF costs_read_metadata_value 3]
    show ?thesis by (simp add: kv kv_size_def)
  qed
  moreover have "bounded (parse_kv ver)"
    unfolding parse_kv_def [abs_def]
    by (intro bounded_intros costs_bounded [OF costs_read_str]
        costs_bounded [OF costs_read_metadata_value])
  ultimately show ?thesis by (simp add: costs_def)
qed

section \<open>The metadata table\<close>

definition store_ok :: "metadata_store \<Rightarrow> bool" where
  "store_ok s \<longleftrightarrow> md_wf s \<and> list_all kv_ok (md_entries s)"

lemma store_ok_insert: "store_ok s \<Longrightarrow> kv_ok (k, v) \<Longrightarrow> store_ok (md_insert k v s)"
proof -
  assume s: "store_ok s" and kv: "kv_ok (k, v)"
  have "set (AList.update k v al) \<subseteq> insert (k, v) (set al)" for al :: "(string \<times> metadata_value) list"
    by (induction al) auto
  with s kv show ?thesis
    by (fastforce simp: store_ok_def list_all_iff md_insert_def md_wf_def md_keys_def distinct_update)
qed

lemma parse_metadata_loop_Inr:
  assumes "parse_metadata_loop n ver s r = Inr (s', r')" and "store_ok s"
  shows "store_ok s' \<and> rd_data r' = rd_data r \<and>
         store_size s' + 8 * n + rd_pos r \<le> store_size s + rd_pos r' \<and>
         (rd_pos r \<le> length (rd_data r) \<longrightarrow> rd_pos r' \<le> length (rd_data r))"
  using assms
proof (induction n arbitrary: s r)
  case 0
  then show ?case by simp
next
  case (Suc n)
  from Suc.prems(1) obtain k v r1 where kv: "parse_kv ver r = Inr ((k, v), r1)"
    and rest: "parse_metadata_loop n ver (md_insert k v s) r1 = Inr (s', r')"
    by (auto simp: and_then_Inr_iff)
  have "store_ok (md_insert k v s)"
    using Suc.prems(2) parse_kv_ok [OF kv] by (rule store_ok_insert)
  from Suc.IH [OF rest this] boundedD [OF costs_bounded [OF costs_parse_kv] kv]
    costsD [OF costs_parse_kv kv] store_size_insert [of k v s]
  show ?case by auto
qed

section \<open>Tensor infos\<close>

definition info_ok :: "tensor_info \<Rightarrow> bool" where
  "info_ok i \<longleftrightarrow> utf8_string (ti_name i) \<and> length (ti_name i) < 2 ^ 64 \<and>
     unat (ti_n_dims i) = length (ti_dimensions i) \<and>
     1 \<le> length (ti_dimensions i) \<and> length (ti_dimensions i) \<le> 4"

lemma bounded_read_str [bounded_intros]: "bounded (read_str ver)"
  by (rule costs_bounded [OF costs_read_str])

lemma bounded_dim [bounded_intros]: "bounded (read_dim ver)" "bounded (read_offset ver)"
  unfolding read_dim_def [abs_def] read_offset_def [abs_def] by (intro bounded_intros)+

lemma bounded_tensor_info: "bounded (parse_tensor_info ver)"
  unfolding parse_tensor_info_def [abs_def] by (intro bounded_intros)

lemma parse_tensor_info_Inr:
  assumes "parse_tensor_info ver r = Inr (i, r')"
  shows "info_ok i \<and> rd_pos r + (12 + length (ti_name i)) \<le> rd_pos r'"
proof -
  from assms obtain name r1 n r2 dims r3 t r4 ty off where
      1: "read_str ver r = Inr (name, r1)" and 2: "read_u32 r1 = Inr (n, r2)"
      and n: "n \<noteq> 0" "n \<le> MAX_TENSOR_DIMS"
      and 3: "read_n (unat n) (read_dim ver) r2 = Inr (dims, r3)"
      and 4: "read_u32 r3 = Inr (t, r4)" and 5: "read_offset ver r4 = Inr (off, r')"
      and i: "i = \<lparr>ti_name = name, ti_n_dims = n, ti_dimensions = dims, ti_type = ty, ti_offset = off\<rparr>"
    unfolding parse_tensor_info_def by (auto simp: and_then_Inr_iff not_less split: if_splits)
  have "length dims = unat n" using read_n_all [where P = "\<lambda>_. True", OF _ 3] by simp
  moreover have "1 \<le> unat n" "unat n \<le> 4"
    using n by (auto simp: MAX_TENSOR_DIMS_def word_le_nat_alt unat_gt_0 Suc_le_eq)
  moreover from boundedD(2) [OF bounded_read_n [OF bounded_dim(1)] 3] boundedD(2) [OF bounded_dim(2) 5]
    costsD [OF costs_read_str 1] costsD [OF costs_primitives(4) 2] costsD [OF costs_primitives(4) 4]
  have "rd_pos r + (12 + length name) \<le> rd_pos r'" by linarith
  ultimately show ?thesis using read_str_utf8 [OF 1] by (simp add: i info_ok_def)
qed

definition tstore_ok :: "tensor_store \<Rightarrow> bool" where
  "tstore_ok s \<longleftrightarrow> ts_wf s \<and> list_all (\<lambda>(k, i). info_ok i) (ts_infos s)"

lemma tstore_ok_insert:
  assumes "ts_try_insert i s = Inr s'" and "tstore_ok s" and "info_ok i"
  shows "tstore_ok s'"
proof -
  have "ts_infos s' = ts_infos s @ [(ti_name i, i)]"
    using assms(1) AList_update_new [of "ti_name i" "ts_infos s" i]
    by (auto simp: ts_try_insert_def ts_insert_def map_of_eq_None_iff split: if_splits)
  then show ?thesis
    using ts_try_insert_Inr(5) [OF assms(1)] assms(2,3) by (simp add: tstore_ok_def)
qed

lemma parse_tensor_infos_loop_Inr:
  assumes "parse_tensor_infos_loop n ver s r = Inr (s', r')" and "tstore_ok s"
  shows "tstore_ok s' \<and> ts_len s' = ts_len s + n \<and> rd_data r' = rd_data r \<and>
         12 * n + rd_pos r \<le> rd_pos r' \<and>
         (rd_pos r \<le> length (rd_data r) \<longrightarrow> rd_pos r' \<le> length (rd_data r))"
  using assms
proof (induction n arbitrary: s r)
  case 0
  then show ?case by simp
next
  case (Suc n)
  from Suc.prems(1) obtain i r1 s1 where i: "parse_tensor_info ver r = Inr (i, r1)"
    and s1: "ts_try_insert i s = Inr s1"
    and rest: "parse_tensor_infos_loop n ver s1 r1 = Inr (s', r')"
    by (auto simp: and_then_Inr_iff)
  note info = parse_tensor_info_Inr [OF i]
  have "tstore_ok s1" using tstore_ok_insert [OF s1 Suc.prems(2)] info by blast
  from Suc.IH [OF rest this] boundedD [OF bounded_tensor_info i] info ts_try_insert_Inr(3) [OF s1]
  show ?case by auto
qed

section \<open>The parsed file\<close>

definition alignment_ok :: "u64 \<Rightarrow> bool" where
  "alignment_ok a \<longleftrightarrow> a = 0 \<or> (is_power_of_two a \<and> a \<le> MAX_GGUF_ALIGNMENT)"

lemma validate_alignment_Inr: "validate_alignment a = Inr u \<longleftrightarrow> alignment_ok a"
  by (auto simp: validate_alignment_def alignment_ok_def)

text \<open>Everything the rest of the engine may rely on after a successful parse.\<close>

definition file_ok :: "u8 list \<Rightarrow> gguf_file \<Rightarrow> bool" where
  "file_ok data f \<longleftrightarrow>
     version (gf_header f) \<in> {1, 2, 3} \<and>
     store_ok (gf_metadata f) \<and> tstore_ok (gf_tensors f) \<and>
     ts_len (gf_tensors f) = unat (tensor_count (gf_header f)) \<and>
     alignment_ok (gf_alignment f) \<and> gf_alignment f = file_alignment (gf_metadata f) \<and>
     store_size (gf_metadata f) + 8 * unat (metadata_kv_count (gf_header f)) +
       12 * unat (tensor_count (gf_header f)) \<le> length data"

lemma gguf_parse_Inr:
  assumes "gguf_parse data = Inr f"
  obtains off r1 ts r2 where
    "header_parse data 0 = Inr (gf_header f, off)"
    and "parse_metadata (gf_header f) (reader_new data (unat off)) = Inr (gf_metadata f, r1)"
    and "validate_alignment (gf_alignment f) = Inr ()"
    and "gf_alignment f = file_alignment (gf_metadata f)"
    and "parse_tensor_infos (gf_header f) r1 = Inr (ts, r2)"
    and "gf_tensors f = set_data_offset (align_up (of_nat (position r2)) (gf_alignment f)) ts"
  using assms unfolding gguf_parse_def by (auto simp: and_then_Inr_iff Let_def)

lemma version_cases: "1 \<le> v \<Longrightarrow> v \<le> 3 \<Longrightarrow> v \<in> {1, 2, 3 :: u32}"
proof -
  assume "1 \<le> v" "v \<le> 3"
  then have "unat v \<in> {1, 2, 3}" by (auto simp: word_le_nat_alt)
  then show ?thesis by (auto simp: word_unat_eq_iff)
qed

lemma gguf_parse_file_ok:
  assumes parse: "gguf_parse data = Inr f"
  shows "file_ok data f"
proof -
  from gguf_parse_Inr [OF parse] obtain off r1 ts r2 where
      h: "header_parse data 0 = Inr (gf_header f, off)"
      and m: "parse_metadata (gf_header f) (reader_new data (unat off)) = Inr (gf_metadata f, r1)"
      and a: "validate_alignment (gf_alignment f) = Inr ()"
        "gf_alignment f = file_alignment (gf_metadata f)"
      and t: "parse_tensor_infos (gf_header f) r1 = Inr (ts, r2)"
      and ft: "gf_tensors f = set_data_offset (align_up (of_nat (position r2)) (gf_alignment f)) ts" .
  note header = header_parse_Inr [OF h]
  have new: "store_ok md_new" "store_size md_new = 0"
    by (simp_all add: store_ok_def store_size_def md_new_def md_wf_def md_keys_def)
  note meta = parse_metadata_loop_Inr [OF m [unfolded parse_metadata_def] new(1)]
  from t have loop: "parse_tensor_infos_loop (unat (tensor_count (gf_header f)))
      (version (gf_header f)) ts_new r1 = Inr (ts, r2)"
    by (auto simp: parse_tensor_infos_def and_then_Inr_iff split: if_splits)
  have "tstore_ok ts_new" by (simp add: tstore_ok_def) (simp add: ts_new_def)
  note tens = parse_tensor_infos_loop_Inr [OF loop this]
  have "tstore_ok (gf_tensors f)" and "ts_len (gf_tensors f) = unat (tensor_count (gf_header f))"
    using tens unfolding ft
    by (simp_all add: tstore_ok_def ts_wf_def set_data_offset_def ts_names_def ts_len_def ts_new_def)
  then show ?thesis
    using header version_cases [OF header(1,2)] meta tens a new(2)
    by (auto simp: file_ok_def validate_alignment_Inr reader_new_def)
qed

section \<open>Tensor ranges\<close>

lemma tensor_data_range_Inr:
  assumes "tensor_data_range usize_max f data_len name = Inr (start, len)"
  obtains t where "ts_get (gf_tensors f) name = Inr t"
    and "start = unat (ts_data_offset (gf_tensors f)) + unat (ti_offset t)"
    and "len = bytes_of (ti_dimensions t) (ti_type t)"
    and "start + len \<le> data_len" and "start + len \<le> usize_max"
proof -
  from assms obtain t a n where t: "ts_get (gf_tensors f) name = Inr t"
    and a: "checked_add (ts_data_offset (gf_tensors f)) (ti_offset t) = Some a"
    and n: "try_data_size t = Inr n"
    and r: "start = unat a" "len = unat n" "unat a + unat n \<le> usize_max" "unat a + unat n \<le> data_len"
    unfolding tensor_data_range_def and_then_Inr_iff ok_or_Inr_iff Let_def
    by (clarsimp split: if_splits)
  have "start + len \<le> data_len" and "start + len \<le> usize_max" using r by simp_all
  then show thesis
    using that [OF t _ _] checked_add_Some [OF a] try_data_size_Inr(1) [OF n] r(1,2) by simp
qed

end
