(* ===== verification/Gguf_Properties.thy ===== *)
theory Gguf_Properties
  imports Gguf_Stream Gguf_Safety
begin

text \<open>
  The properties of the GGUF components: what is written is read back, what is read is safe,
  and both ways of writing give files that read back.
\<close>

section \<open>Write, then parse\<close>

text \<open>A small model used by the witnesses: two metadata entries and two tensors.\<close>

definition sample_tensor :: "string \<Rightarrow> u64 \<Rightarrow> u8 list \<Rightarrow> pending_tensor" where
  "sample_tensor name n data =
     \<lparr>pt_meta = \<lparr>tm_name = name, tm_dimensions = [n], tm_type = F32,
                 tm_data_size = of_nat (length data)\<rparr>,
      pt_data = data\<rparr>"

definition sample_writer :: gguf_writer where
  "sample_writer =
     \<lparr>gw_metadata = [(''general.architecture'', VString ''llama''),
                     (''tokens'', VArray [VUint8 1, VUint8 2])],
      gw_tensors = [sample_tensor ''a'' 1 [1, 2, 3, 4], sample_tensor ''b'' 2 [5, 6, 7, 8, 9, 10, 11, 12]],
      gw_tensor_metas = []\<rparr>"

lemma sample_tensor_ok:
  assumes "list_all (\<lambda>c. of_char c < (128 :: nat)) name" and "length name < 100"
    and "length data = 4 * unat n" and "unat n < 100" and "n \<noteq> 0"
  shows "payload_ok (sample_tensor name n data)"
proof -
  have small: "unat (word_of_nat (length data) :: u64) = length data"
    using assms by (intro unat_of_nat_small) simp
  let ?t = "\<lparr>ti_name = name, ti_n_dims = word_of_nat (length [n]), ti_dimensions = [n],
             ti_type = F32, ti_offset = 0\<rparr>"
  have "bytes_of [n] F32 = length data" using assms(3) by (simp add: bytes_of_def elements_of_def)
  then have "try_data_size ?t = Inr (word_of_nat (length data))"
    using try_data_size_small [of ?t] assms(3-5) by (simp add: elements_of_def)
  then show ?thesis
    using utf8_ascii [OF assms(1)] assms(2) small
    by (simp add: payload_ok_def sample_tensor_def meta_ok_def compute_tensor_data_size_def)
qed

lemma sample_writer_ok: "writer_ok sample_writer"
proof -
  have kvs: "list_all kv_ok (gw_metadata sample_writer)"
    using utf8_ascii [of "''general.architecture''"] utf8_ascii [of "''llama''"] utf8_ascii [of "''tokens''"]
    by (simp add: sample_writer_def kv_ok_def MAX_METADATA_ARRAY_DEPTH_def)
  have ts: "list_all payload_ok (gw_tensors sample_writer)"
    using sample_tensor_ok [of "''a''" "[1, 2, 3, 4]" 1]
      sample_tensor_ok [of "''b''" "[5, 6, 7, 8, 9, 10, 11, 12]" 2]
    by (simp add: sample_writer_def)
  have al: "file_alignment (md_of_list (gw_metadata sample_writer)) = GGUF_DEFAULT_ALIGNMENT"
    by (simp add: file_alignment_def md_get_of_list sample_writer_def)
  show ?thesis
    using kvs ts al by (simp add: writer_ok_def writer_shape_def) (simp add: sample_writer_def sample_tensor_def)
qed

lemma sample_writer_size: "length (written_bytes sample_writer) \<le> 1000"
  unfolding written_bytes_body [OF writer_ok_shape [OF sample_writer_ok]]
  by (simp add: writer_body_def prelude_body_def
      sample_writer_def sample_tensor_def kv_bytes_def string_v3_bytes_def writer_offsets_def
      tensor_info_bytes_def padding_def round_up_def)

text \<open>C1: A file produced by the writer's buffered path parses: the bytes \<open>write_to\<close> appends to
  an empty vector are a version 3 file whose metadata is the map of the entries added (the last
  value of a key wins), whose tensors have the names, shapes and types added, in order, and
  whose every tensor reads back the bytes that were added under its name.\<close>

theorem gguf_write_parse:
  assumes "writer_ok g" and "length (written_bytes g) \<le> isize_max"
    and "length (written_bytes g) \<le> usize_max"
  shows "\<exists>bs f. write_to vec_ops g [] = Inr bs \<and> gguf_parse bs = Inr f \<and>
    version (gf_header f) = 3 \<and>
    md_get (gf_metadata f) = map_of (rev (gw_metadata g)) \<and>
    ts_names (gf_tensors f) = map (tm_name \<circ> pt_meta) (gw_tensors g) \<and>
    (\<forall>i < length (gw_tensors g). let t = gw_tensors g ! i in
       (\<exists>info. ts_get (gf_tensors f) (tm_name (pt_meta t)) = Inr info \<and>
          ti_dimensions info = tm_dimensions (pt_meta t) \<and> ti_type info = tm_type (pt_meta t)) \<and>
       tensor_data usize_max f bs (tm_name (pt_meta t)) = Inr (pt_data t))"
proof (intro exI conjI)
  show "write_to vec_ops g [] = Inr (written_bytes g)" by (rule write_to_written [OF writer_ok_shape [OF assms(1)] assms(2)])
  show "gguf_parse (written_bytes g) = Inr (written_file g)" by (rule gguf_parse_written [OF assms(1,2)])
  show "version (gf_header (written_file g)) = 3" by (simp add: written_file_def written_file_at_def)
  show "md_get (gf_metadata (written_file g)) = map_of (rev (gw_metadata g))"
    by (simp add: written_file_def written_file_at_def md_get_of_list)
  show "ts_names (gf_tensors (written_file g)) = map (tm_name \<circ> pt_meta) (gw_tensors g)"
    using writer_infos_names [of g] by (simp add: written_file_def written_file_at_def ts_names_def comp_def)
  show "\<forall>i < length (gw_tensors g). let t = gw_tensors g ! i in
       (\<exists>info. ts_get (gf_tensors (written_file g)) (tm_name (pt_meta t)) = Inr info \<and>
          ti_dimensions info = tm_dimensions (pt_meta t) \<and> ti_type info = tm_type (pt_meta t)) \<and>
       tensor_data usize_max (written_file g) (written_bytes g) (tm_name (pt_meta t)) = Inr (pt_data t)"
    using written_file_info [OF assms(1)] tensor_data_written [OF assms]
    by (simp add: Let_def info_of_def)
qed

lemma gguf_write_parse_witness:
  "\<exists>bs f. write_to vec_ops sample_writer [] = Inr bs \<and> gguf_parse bs = Inr f \<and>
     tensor_data 1000 f bs ''b'' = Inr [5, 6, 7, 8, 9, 10, 11, 12]"
proof -
  have "length (written_bytes sample_writer) \<le> isize_max" using sample_writer_size by simp
  from gguf_write_parse [OF sample_writer_ok this sample_writer_size] obtain bs f where
    "write_to vec_ops sample_writer [] = Inr bs" "gguf_parse bs = Inr f"
    "\<forall>i < length (gw_tensors sample_writer). let t = gw_tensors sample_writer ! i in
       (\<exists>info. ts_get (gf_tensors f) (tm_name (pt_meta t)) = Inr info \<and>
          ti_dimensions info = tm_dimensions (pt_meta t) \<and> ti_type info = tm_type (pt_meta t)) \<and>
       tensor_data 1000 f bs (tm_name (pt_meta t)) = Inr (pt_data t)"
    by blast
  then show ?thesis
    by (intro exI [of _ bs] exI [of _ f])
       (auto simp: sample_writer_def sample_tensor_def Let_def dest: spec [of _ 1])
qed

section \<open>Parse, then write\<close>

text \<open>A writer holding what a parsed file holds.\<close>

definition copy_tensor :: "nat \<Rightarrow> gguf_file \<Rightarrow> u8 list \<Rightarrow> string \<times> tensor_info \<Rightarrow> pending_tensor" where
  "copy_tensor usize_max f data ni =
     (let d = (case tensor_data usize_max f data (fst ni) of Inl _ \<Rightarrow> [] | Inr d \<Rightarrow> d)
      in \<lparr>pt_meta = \<lparr>tm_name = fst ni, tm_dimensions = ti_dimensions (snd ni),
                    tm_type = ti_type (snd ni), tm_data_size = word_of_nat (length d)\<rparr>,
          pt_data = d\<rparr>)"

definition copy_writer :: "nat \<Rightarrow> gguf_file \<Rightarrow> u8 list \<Rightarrow> gguf_writer" where
  "copy_writer usize_max f data =
     \<lparr>gw_metadata = md_entries (gf_metadata f),
      gw_tensors = map (copy_tensor usize_max f data) (ts_infos (gf_tensors f)),
      gw_tensor_metas = []\<rparr>"

lemma md_of_entries_from:
  assumes "distinct (map fst (md_entries s @ kvs))"
  shows "fold (\<lambda>(k, v). md_insert k v) kvs s = s\<lparr>md_entries := md_entries s @ kvs\<rparr>"
  using assms
proof (induction kvs arbitrary: s)
  case Nil
  then show ?case by simp
next
  case (Cons kv kvs)
  then have "md_insert (fst kv) (snd kv) s = s\<lparr>md_entries := md_entries s @ [kv]\<rparr>"
    by (simp add: md_insert_def AList_update_new)
  with Cons show ?case by (simp add: case_prod_unfold)
qed

lemma md_of_entries: "md_wf s \<Longrightarrow> md_of_list (md_entries s) = s"
  using md_of_entries_from [of md_new "md_entries s"]
  by (simp add: md_of_list_def md_wf_def md_keys_def md_new_def)

lemma value_size_pos: "0 < value_size v"
  by (cases v) simp_all

lemma entries_le_size: "length (md_entries s) \<le> store_size s"
proof -
  have "length kvs \<le> sum_list (map kv_size kvs)" for kvs
  proof (induction kvs)
    case (Cons kv kvs)
    then show ?case using value_size_pos [of "snd kv"] by (simp add: kv_size_def)
  qed simp
  then show ?thesis by (simp add: store_size_def)
qed

lemma tensor_data_Inr:
  assumes "tensor_data usize_max f data name = Inr d"
  obtains t where "ts_get (gf_tensors f) name = Inr t" and "try_data_size t = Inr (word_of_nat (length d))"
    and "unat (word_of_nat (length d) :: u64) = length d"
proof -
  from assms obtain st len where r: "tensor_data_range usize_max f (length data) name = Inr (st, len)"
    and d: "d = take len (drop st data)" by (auto simp: tensor_data_def and_then_Inr_iff)
  from r obtain t a n where t: "ts_get (gf_tensors f) name = Inr t" and n: "try_data_size t = Inr n"
    and sl: "st = unat (a :: u64)" "len = unat n" "unat a + unat n \<le> length data"
    unfolding tensor_data_range_def and_then_Inr_iff ok_or_Inr_iff Let_def
    by (clarsimp split: if_splits)
  then have len: "length d = unat n" by (simp add: d)
  then have "word_of_nat (length d) = n" by simp
  with that [OF t] n len show thesis by simp
qed

lemma copy_tensor_ok:
  assumes f: "file_ok data f" and ni: "ni \<in> set (ts_infos (gf_tensors f))"
    and d: "tensor_data usize_max f data (fst ni) = Inr d"
  shows "payload_ok (copy_tensor usize_max f data ni)"
proof -
  obtain name i where ni': "ni = (name, i)" by fastforce
  have wf: "ts_wf (gf_tensors f)" and io: "info_ok i"
    using f ni by (auto simp: file_ok_def tstore_ok_def list_all_iff ni')
  then have name: "name = ti_name i" and dist: "distinct (map fst (ts_infos (gf_tensors f)))"
    using ni by (auto simp: ts_wf_def ni' ts_names_def)
  obtain t where t: "ts_get (gf_tensors f) name = Inr t" "try_data_size t = Inr (word_of_nat (length d))"
    "unat (word_of_nat (length d) :: u64) = length d"
    using d ni' by (auto elim: tensor_data_Inr)
  have "map_of (ts_infos (gf_tensors f)) name = Some i"
    using ni ni' by (intro map_of_is_SomeI dist) simp
  then have "t = i" using t(1) by (simp add: ts_get_Inr)
  then have "compute_tensor_data_size name (ti_dimensions i) (ti_type i) = Inr (word_of_nat (length d))"
    using t(2) name try_data_size_cong [of "\<lparr>ti_name = name, ti_n_dims = _, ti_dimensions = ti_dimensions i,
      ti_type = ti_type i, ti_offset = 0\<rparr>" i]
    by (simp add: compute_tensor_data_size_def)
  moreover have "meta_ok \<lparr>tm_name = name, tm_dimensions = ti_dimensions i, tm_type = ti_type i,
      tm_data_size = word_of_nat (length d)\<rparr>"
    using io name by (auto simp: info_ok_def meta_ok_def)
  ultimately show ?thesis using d t(3) by (simp add: payload_ok_def copy_tensor_def ni' Let_def)
qed

lemma copy_writer_ok:
  assumes "gguf_parse data = Inr f" and "length data < 2 ^ 64" and "gf_alignment f = GGUF_DEFAULT_ALIGNMENT"
    and "\<forall>name \<in> set (ts_names (gf_tensors f)). \<exists>d. tensor_data usize_max f data name = Inr d"
  shows "writer_ok (copy_writer usize_max f data)"
proof -
  have f: "file_ok data f" by (rule gguf_parse_file_ok [OF assms(1)])
  have md: "store_ok (gf_metadata f)" and ts: "tstore_ok (gf_tensors f)" using f by (simp_all add: file_ok_def)
  have "md_of_list (md_entries (gf_metadata f)) = gf_metadata f"
    using md by (simp add: md_of_entries store_ok_def)
  then have al: "file_alignment (md_of_list (md_entries (gf_metadata f))) = GGUF_DEFAULT_ALIGNMENT"
    using f assms(3) by (simp add: file_ok_def)
  have n: "length (md_entries (gf_metadata f)) < 2 ^ 64"
    using entries_le_size [of "gf_metadata f"] f assms(2) by (simp add: file_ok_def)
  have "ts_len (gf_tensors f) = unat (tensor_count (gf_header f))" using f by (simp add: file_ok_def)
  then have m: "length (ts_infos (gf_tensors f)) < 2 ^ 64"
    using unsigned_less [of "tensor_count (gf_header f)"] by (simp add: ts_len_def)
  have names: "map (tm_name \<circ> pt_meta) (map (copy_tensor usize_max f data) (ts_infos (gf_tensors f))) =
      ts_names (gf_tensors f)"
    by (simp add: copy_tensor_def ts_names_def Let_def comp_def)
  have pay: "payload_ok (copy_tensor usize_max f data ni)" if "ni \<in> set (ts_infos (gf_tensors f))" for ni
  proof -
    have "fst ni \<in> set (ts_names (gf_tensors f))" using that by (simp add: ts_names_def)
    then obtain d where "tensor_data usize_max f data (fst ni) = Inr d" using assms(4) by blast
    then show ?thesis by (rule copy_tensor_ok [OF f that])
  qed
  have dist: "distinct (ts_names (gf_tensors f))" using ts by (simp add: tstore_ok_def ts_wf_def)
  have "list_all kv_ok (md_entries (gf_metadata f))" using md by (simp add: store_ok_def)
  then show ?thesis
    using al n m pay dist names unfolding writer_ok_def writer_shape_def copy_writer_def
    by (simp add: list_all_iff comp_def)
qed

text \<open>Re-encoding is faithful: when a file of any supported version parses with the default
  alignment and every tensor of it can be read, writing its metadata and tensors again gives a
  file that parses to the same metadata, the same tensor names, and the same bytes for every
  tensor.\<close>

theorem gguf_transcode:
  assumes "gguf_parse data = Inr f" and "length data < 2 ^ 64"
    and "gf_alignment f = GGUF_DEFAULT_ALIGNMENT"
    and "\<forall>name \<in> set (ts_names (gf_tensors f)). \<exists>d. tensor_data usize_max f data name = Inr d"
    and "length (written_bytes (copy_writer usize_max f data)) \<le> isize_max"
    and "length (written_bytes (copy_writer usize_max f data)) \<le> usize_max"
  shows "\<exists>bs f'. write_to vec_ops (copy_writer usize_max f data) [] = Inr bs \<and>
    gguf_parse bs = Inr f' \<and> gf_metadata f' = gf_metadata f \<and>
    ts_names (gf_tensors f') = ts_names (gf_tensors f) \<and>
    (\<forall>name \<in> set (ts_names (gf_tensors f)).
       tensor_data usize_max f' bs name = tensor_data usize_max f data name)"
proof (intro exI conjI ballI)
  let ?g = "copy_writer usize_max f data"
  have ok: "writer_ok ?g" by (rule copy_writer_ok [OF assms(1-4)])
  show "write_to vec_ops ?g [] = Inr (written_bytes ?g)" by (rule write_to_written [OF writer_ok_shape [OF ok] assms(5)])
  show "gguf_parse (written_bytes ?g) = Inr (written_file ?g)" by (rule gguf_parse_written [OF ok assms(5)])
  have "md_wf (gf_metadata f)"
    using gguf_parse_file_ok [OF assms(1)] by (simp add: file_ok_def store_ok_def)
  then show "gf_metadata (written_file ?g) = gf_metadata f"
    by (simp add: written_file_def written_file_at_def md_of_entries) (simp add: copy_writer_def md_of_entries)
  have names: "map (tm_name \<circ> pt_meta) (gw_tensors ?g) = ts_names (gf_tensors f)"
    by (simp add: copy_writer_def copy_tensor_def ts_names_def Let_def comp_def)
  then show "ts_names (gf_tensors (written_file ?g)) = ts_names (gf_tensors f)"
    using writer_infos_names [of ?g] by (simp add: written_file_def written_file_at_def ts_names_def comp_def)
  fix name assume name: "name \<in> set (ts_names (gf_tensors f))"
  then obtain i where i: "i < length (gw_tensors ?g)" "tm_name (pt_meta (gw_tensors ?g ! i)) = name"
    using names by (metis comp_apply in_set_conv_nth length_map nth_map)
  obtain d where d: "tensor_data usize_max f data name = Inr d" using assms(4) name by blast
  have "gw_tensors ?g ! i = copy_tensor usize_max f data (ts_infos (gf_tensors f) ! i)"
    using i(1) by (simp add: copy_writer_def)
  then have "pt_data (gw_tensors ?g ! i) = d" using i(2) d by (simp add: copy_tensor_def Let_def)
  then show "tensor_data usize_max (written_file ?g) (written_bytes ?g) name = tensor_data usize_max f data name"
    using tensor_data_written [OF ok assms(5,6) i(1)] i(2) d by simp
qed

definition sample_data :: "u8 list" where
  "sample_data = written_bytes sample_writer"

lemma sample_parse: "gguf_parse sample_data = Inr (written_file sample_writer)"
  unfolding sample_data_def
  by (rule gguf_parse_written [OF sample_writer_ok]) (use sample_writer_size in simp)

lemma sample_read:
  "i < 2 \<Longrightarrow> tensor_data 1000 (written_file sample_writer) sample_data
     (tm_name (pt_meta (gw_tensors sample_writer ! i))) = Inr (pt_data (gw_tensors sample_writer ! i))"
  unfolding sample_data_def
  by (rule tensor_data_written [OF sample_writer_ok])
     (use sample_writer_size in \<open>simp_all add: sample_writer_def\<close>)

lemma sample_read_ab:
  "tensor_data 1000 (written_file sample_writer) sample_data ''a'' = Inr [1, 2, 3, 4]"
  "tensor_data 1000 (written_file sample_writer) sample_data ''b'' = Inr [5, 6, 7, 8, 9, 10, 11, 12]"
  using sample_read [of 0] sample_read [of 1] by (simp_all add: sample_writer_def sample_tensor_def)

lemma sample_infos:
  "ts_infos (gf_tensors (written_file sample_writer)) =
     [(''a'', info_of (pt_meta (sample_tensor ''a'' 1 [1, 2, 3, 4]), 0)),
      (''b'', info_of (pt_meta (sample_tensor ''b'' 2 [5, 6, 7, 8, 9, 10, 11, 12]), 32))]"
  by (simp add: written_file_def written_file_at_def writer_infos_def writer_offsets_def sample_writer_def
      sample_tensor_def info_of_def round_up_def padding_def)

lemma sample_copy: "copy_writer 1000 (written_file sample_writer) sample_data = sample_writer"
proof -
  have "tensor_data 1000 (written_file sample_writer) sample_data ''a'' = Inr [1, 2, 3, 4]"
    and "tensor_data 1000 (written_file sample_writer) sample_data ''b'' = Inr [5, 6, 7, 8, 9, 10, 11, 12]"
    using sample_read [of 0] sample_read [of 1] by (simp_all add: sample_writer_def sample_tensor_def)
  moreover have "md_entries (gf_metadata (written_file sample_writer)) = gw_metadata sample_writer"
    by (simp add: written_file_def written_file_at_def md_of_list_def md_insert_def md_new_def sample_writer_def)
  ultimately show ?thesis
    unfolding copy_writer_def sample_infos
    by (simp add: copy_tensor_def info_of_def) (simp add: sample_writer_def sample_tensor_def)
qed

lemma gguf_transcode_witness:
  "\<exists>bs f'. write_to vec_ops (copy_writer 1000 (written_file sample_writer) sample_data) [] = Inr bs \<and>
     gguf_parse bs = Inr f' \<and> gf_metadata f' = gf_metadata (written_file sample_writer)"
proof -
  let ?f = "written_file sample_writer"
  have al: "gf_alignment ?f = GGUF_DEFAULT_ALIGNMENT" by (simp add: written_file_def written_file_at_def)
  have rd: "\<forall>name \<in> set (ts_names (gf_tensors ?f)). \<exists>d. tensor_data 1000 ?f sample_data name = Inr d"
    unfolding ts_names_def sample_infos by (simp add: sample_read_ab)
  have small: "length sample_data < 2 ^ 64" using sample_writer_size by (simp add: sample_data_def)
  have copy: "length (written_bytes (copy_writer 1000 ?f sample_data)) \<le> 1000"
    unfolding sample_copy by (rule sample_writer_size)
  then have "length (written_bytes (copy_writer 1000 ?f sample_data)) \<le> isize_max" by simp
  from gguf_transcode [OF sample_parse small al rd this copy] show ?thesis by blast
qed

section \<open>Any input\<close>

text \<open>C2: Every file the parser accepts, however hostile, is well formed: a supported version,
  metadata with unique UTF-8 keys and values that are nested at most nine deep and have one
  element type per array, unique tensor names with one to four dimensions, as many tensors as the
  header announced, an alignment that is zero or a power of two of at most MAX_GGUF_ALIGNMENT; and all
  that was allocated for it was paid for by bytes of the file.\<close>

theorem gguf_parse_wellformed:
  assumes "gguf_parse data = Inr f"
  shows "version (gf_header f) \<in> {1, 2, 3} \<and>
    distinct (md_keys (gf_metadata f)) \<and> list_all kv_ok (md_entries (gf_metadata f)) \<and>
    distinct (ts_names (gf_tensors f)) \<and>
    list_all (\<lambda>(name, i). name = ti_name i \<and> info_ok i) (ts_infos (gf_tensors f)) \<and>
    ts_len (gf_tensors f) = unat (tensor_count (gf_header f)) \<and>
    (gf_alignment f = 0 \<or> is_power_of_two (gf_alignment f) \<and> gf_alignment f \<le> MAX_GGUF_ALIGNMENT) \<and>
    store_size (gf_metadata f) + 8 * unat (metadata_kv_count (gf_header f)) +
      12 * unat (tensor_count (gf_header f)) \<le> length data"
  using gguf_parse_file_ok [OF assms]
  by (auto simp: file_ok_def store_ok_def tstore_ok_def ts_wf_def md_wf_def alignment_ok_def list_all_iff)

lemma gguf_parse_wellformed_witness:
  "store_size (gf_metadata (written_file sample_writer)) \<le> length sample_data \<and>
   version (gf_header (written_file sample_writer)) \<in> {1, 2, 3}"
  using gguf_parse_wellformed [OF sample_parse] by linarith

text \<open>C27: A tensor range never leaves the file, starts in the data section, and has exactly the
  size the tensor's shape and type give; no arithmetic on the way wraps.\<close>

theorem tensor_data_range_safe:
  assumes "tensor_data_range usize_max f data_len name = Inr (start, len)"
  shows "start + len \<le> data_len \<and> unat (ts_data_offset (gf_tensors f)) \<le> start \<and>
    (\<exists>t. ts_get (gf_tensors f) name = Inr t \<and>
       start = unat (ts_data_offset (gf_tensors f)) + unat (ti_offset t) \<and>
       len = bytes_of (ti_dimensions t) (ti_type t))"
  using assms by (elim tensor_data_range_Inr) auto

lemma tensor_data_range_safe_witness:
  "\<exists>start len. tensor_data_range 1000 (written_file sample_writer) (length sample_data) ''b'' = Inr (start, len) \<and>
     start + len \<le> length sample_data"
proof -
  have "tensor_data 1000 (written_file sample_writer) sample_data ''b'' = Inr [5, 6, 7, 8, 9, 10, 11, 12]"
    using sample_read [of 1] by (simp add: sample_writer_def sample_tensor_def)
  then obtain st len where r:
    "tensor_data_range 1000 (written_file sample_writer) (length sample_data) ''b'' = Inr (st, len)"
    by (auto simp: tensor_data_def and_then_Inr_iff)
  from tensor_data_range_safe [OF r] r show ?thesis by blast
qed

section \<open>Writers\<close>

text \<open>Over any sink that behaves like \<open>std::io::Write\<close> (a successful write appends exactly its
  bytes, a flush none, errors are the sink's own), the buffered writer either fails with an
  error of the sink or has appended exactly the bytes of the file layout: header, entries,
  tensor infos with aligned offsets, padding, and the payloads at those offsets.\<close>

theorem write_to_any_sink:
  assumes "byte_sink io contents io_errors"
    and "gw_tensor_metas g = []" and "fits_u64 (map pt_meta (gw_tensors g))"
    and "\<forall>t \<in> set (gw_tensors g). unat (tm_data_size (pt_meta t)) = length (pt_data t)"
  shows "case write_to io g w of
      Inl e \<Rightarrow> e \<in> io_write_err ` io_errors
    | Inr w' \<Rightarrow> contents w' = contents w @
        file_bytes (gw_metadata g) (map pt_meta (gw_tensors g)) (map pt_data (gw_tensors g))"
  by (rule byte_sink.write_to_emits [OF assms])

lemma write_to_any_sink_witness:
  "write_to vec_ops sample_writer [7] = Inr (7 # written_bytes sample_writer)"
proof -
  have "byte_sink vec_ops (\<lambda>w. w) {}" by unfold_locales
  moreover have "fits_u64 (map pt_meta (gw_tensors sample_writer))"
    using sample_writer_size by (intro written_fits [OF writer_ok_shape [OF sample_writer_ok]]) simp
  ultimately have "case write_to vec_ops sample_writer [7] of
      Inl e \<Rightarrow> e \<in> io_write_err ` {}
    | Inr w' \<Rightarrow> w' = [7] @ file_bytes (gw_metadata sample_writer)
        (map pt_meta (gw_tensors sample_writer)) (map pt_data (gw_tensors sample_writer))"
    using write_to_any_sink [where io = vec_ops and g = sample_writer and contents = "\<lambda>w. w"
        and io_errors = "{}" and w = "[7]"]
      sample_writer_ok by (simp add: writer_ok_def writer_shape_def payload_ok_def list_all_iff)
  then show ?thesis by (simp add: written_bytes_def split: sum.splits)
qed

text \<open>C39: The streaming path writes a file that reads back: after declaring the tensors and streaming a
  payload for each in chunks of any sizes, either the payloads all have the declared lengths, and then the
  bytes parse and every tensor has its shape and type and reads back the payload that was streamed under its
  name, or one of them has not, and then no file comes out.\<close>

theorem streamed_file_parses:
  assumes "writer_ok g" and "length (written_bytes g) \<le> isize_max" and "length (written_bytes g) \<le> usize_max"
    and "length css = length (gw_tensors g)" and "\<And>cs. cs \<in> set css \<Longrightarrow> length (concat cs) < 2 ^ 64"
  shows "case stream_file (gw_metadata g) (map pt_meta (gw_tensors g)) css of
      Inl e \<Rightarrow> \<exists>i < length css. length (concat (css ! i)) \<noteq> length (pt_data (gw_tensors g ! i))
    | Inr bs \<Rightarrow>
        (\<forall>i < length css. length (concat (css ! i)) = length (pt_data (gw_tensors g ! i))) \<and>
        (\<exists>f. gguf_parse bs = Inr f \<and> md_get (gf_metadata f) = map_of (rev (gw_metadata g)) \<and>
           ts_names (gf_tensors f) = map (tm_name \<circ> pt_meta) (gw_tensors g) \<and>
           (\<forall>i < length css. let m = pt_meta (gw_tensors g ! i) in
              (\<exists>info. ts_get (gf_tensors f) (tm_name m) = Inr info \<and>
                 ti_dimensions info = tm_dimensions m \<and> ti_type info = tm_type m) \<and>
              tensor_data usize_max f bs (tm_name m) = Inr (concat (css ! i))))"
proof (cases "map (length \<circ> concat) css = map (length \<circ> pt_data) (gw_tensors g)")
  case True
  let ?g = "with_payloads g css"
  note ok = with_payloads_ok(1,2) [OF assms(1) True]
  have small: "length (written_bytes ?g) \<le> isize_max" "length (written_bytes ?g) \<le> usize_max"
    using assms(2,3) by (simp_all add: ok(2))
  have nth: "gw_tensors ?g ! i = with_payload (gw_tensors g ! i) (css ! i)" if "i < length css" for i
    using that assms(4) by simp
  have "map (tm_name \<circ> pt_meta) (gw_tensors ?g) = map (tm_name \<circ> pt_meta) (gw_tensors g)"
    using map2_with_payload(1) [OF assms(4) [symmetric]] unfolding with_payloads_sel by (metis map_map)
  then have "ts_names (gf_tensors (written_file ?g)) = map (tm_name \<circ> pt_meta) (gw_tensors g)"
    using writer_infos_names [of ?g] by (simp add: written_file_def written_file_at_def ts_names_def comp_def)
  moreover have "md_get (gf_metadata (written_file ?g)) = map_of (rev (gw_metadata g))"
    by (simp add: written_file_def written_file_at_def md_get_of_list)
  moreover have "length (concat (css ! i)) = length (pt_data (gw_tensors g ! i))" if "i < length css" for i
    using arg_cong [OF True, of "\<lambda>ns. ns ! i"] that assms(4) by simp
  moreover have "(\<exists>info. ts_get (gf_tensors (written_file ?g)) (tm_name (pt_meta (gw_tensors g ! i))) = Inr info \<and>
        ti_dimensions info = tm_dimensions (pt_meta (gw_tensors g ! i)) \<and> ti_type info = tm_type (pt_meta (gw_tensors g ! i))) \<and>
      tensor_data usize_max (written_file ?g) (written_bytes ?g) (tm_name (pt_meta (gw_tensors g ! i))) = Inr (concat (css ! i))"
    if i: "i < length css" for i
    using written_file_info [OF ok(1), of i] tensor_data_written [OF ok(1) small, of i] nth [OF i] i assms(4)
    by (simp add: info_of_def)
  ultimately show ?thesis
    using gguf_parse_written [OF ok(1) small(1)] by (simp add: stream_file_fits [OF assms(1,2) True] Let_def)
next
  case False
  then have "\<exists>i < length css. length (concat (css ! i)) \<noteq> length (pt_data (gw_tensors g ! i))"
    using assms(4) by (auto simp: list_eq_iff_nth_eq)
  moreover have "stream_file (gw_metadata g) (map pt_meta (gw_tensors g)) css \<noteq> Inr bs" for bs
    using False stream_file_refuses [OF assms(1,2,4,5)] by blast
  ultimately show ?thesis by (simp split: sum.split)
qed

lemma streamed_file_parses_witness:
  "\<exists>bs f. stream_file (gw_metadata sample_writer) (map pt_meta (gw_tensors sample_writer))
       [[[9, 8], [7, 6]], [[1], [2, 3, 4, 5, 6], [7, 8]]] = Inr bs \<and>
     gguf_parse bs = Inr f \<and> tensor_data 1000 f bs ''a'' = Inr [9, 8, 7, 6] \<and>
     tensor_data 1000 f bs ''b'' = Inr [1, 2, 3, 4, 5, 6, 7, 8]"
proof -
  let ?css = "[[[9, 8], [7, 6]], [[1], [2, 3, 4, 5, 6], [7, 8]]] :: u8 list list list"
  have small: "length (written_bytes sample_writer) \<le> isize_max" using sample_writer_size by simp
  have ts: "gw_tensors sample_writer = [sample_tensor ''a'' 1 [1, 2, 3, 4], sample_tensor ''b'' 2 [5, 6, 7, 8, 9, 10, 11, 12]]"
    by (simp add: sample_writer_def)
  have n: "length ?css = length (gw_tensors sample_writer)" and "\<And>cs. cs \<in> set ?css \<Longrightarrow> length (concat cs) < 2 ^ 64"
    by (auto simp: ts)
  from streamed_file_parses [OF sample_writer_ok small sample_writer_size this] show ?thesis
    by (auto simp: ts sample_tensor_def Let_def less_Suc_eq split: sum.splits)
qed

text \<open>Streaming one tensor in chunks is writing it in one piece: the same data writer comes
  out, and one way succeeds exactly when the other does.\<close>

theorem chunks_equal_whole:
  assumes "length (concat chunks) < 2 ^ 64"
  shows "write_tensor_from_chunks vec_ops name chunks d = Inr d' \<longleftrightarrow>
         write_tensor vec_ops name (concat chunks) d = Inr d'"
  by (rule write_tensor_from_chunks_vec [OF assms])

lemma chunks_equal_whole_witness:
  "write_tensor_from_chunks vec_ops ''a'' [[1, 2], [3, 4]]
     \<lparr>dw_writer = [], dw_metas = [pt_meta (sample_tensor ''a'' 1 [1, 2, 3, 4])], dw_next_index = 0,
      dw_cumulative_offset = 0\<rparr> = Inr
     \<lparr>dw_writer = [1, 2, 3, 4], dw_metas = [pt_meta (sample_tensor ''a'' 1 [1, 2, 3, 4])],
      dw_next_index = 1, dw_cumulative_offset = 4\<rparr>"
proof -
  have "length (concat [[1, 2], [3, 4 :: u8]]) < 2 ^ 64" by simp
  from chunks_equal_whole [OF this] show ?thesis
    by (simp add: write_tensor_def validate_next_def sample_tensor_def advance_after_tensor_def
        checked_add_def Let_def)
qed

section \<open>Sizes and tags\<close>

text \<open>The checked size is the true size: when it succeeds it is the number of blocks the
  elements need times the bytes of a block, computed without wrapping, and equals the unchecked
  size; and it succeeds whenever no dimension is zero and element count and byte count fit in 64 bits.\<close>

theorem try_data_size_exact:
  "(\<forall>n. try_data_size t = Inr n \<longrightarrow>
      unat n = bytes_of (ti_dimensions t) (ti_type t) \<and> n = data_size t) \<and>
   (0 \<notin> set (ti_dimensions t) \<and> elements_of (ti_dimensions t) < 2 ^ 64 \<and>
    bytes_of (ti_dimensions t) (ti_type t) < 2 ^ 64 \<longrightarrow>
      try_data_size t = Inr (word_of_nat (bytes_of (ti_dimensions t) (ti_type t))))"
  using try_data_size_Inr try_data_size_small by blast

lemma try_data_size_exact_witness:
  "try_data_size \<lparr>ti_name = ''w'', ti_n_dims = 2, ti_dimensions = [33, 2], ti_type = Q4_0, ti_offset = 0\<rparr> = Inr 54"
  using try_data_size_exact [of "\<lparr>ti_name = ''w'', ti_n_dims = 2, ti_dimensions = [33, 2], ti_type = Q4_0, ti_offset = 0\<rparr>"]
  by (simp add: elements_of_def bytes_of_def)

text \<open>Type tags are a partial bijection: every value type and tensor type is recovered from the
  number written for it, and a number that is accepted is the number of the type it is accepted as.\<close>

theorem type_tags_roundtrip:
  "value_type_from_u32 (value_type_as_u32 vt) = Some vt \<and>
   tensor_type_from_u32 (tensor_type_as_u32 tt) = Some tt \<and>
   (value_type_from_u32 n = Some vt' \<longrightarrow> value_type_as_u32 vt' = n) \<and>
   (tensor_type_from_u32 n = Some tt' \<longrightarrow> tensor_type_as_u32 tt' = n)"
  using value_type_as_from tensor_type_as_from by simp

lemma type_tags_roundtrip_witness:
  "tensor_type_as_u32 Q4_0 = 2 \<and> value_type_as_u32 TString = 8"
  using type_tags_roundtrip [of TString Q4_0 8 TString Q4_0]
    type_tags_roundtrip [of TString Q4_0 2 TString Q4_0]
  by (simp add: value_type_from_u32_def tensor_type_from_u32_def)

section \<open>The writer ignores the alignment it writes\<close>

definition aligned_writer :: gguf_writer where
  "aligned_writer =
     \<lparr>gw_metadata = [(''general.alignment'', VUint64 64)],
      gw_tensors = [sample_tensor ''a'' 1 [1, 2, 3, 4]], gw_tensor_metas = []\<rparr>"

lemma aligned_writer_shape: "writer_shape aligned_writer"
  using utf8_ascii [of "''general.alignment''"] sample_tensor_ok [of "''a''" "[1, 2, 3, 4]" 1]
  by (simp add: writer_shape_def aligned_writer_def kv_ok_def MAX_METADATA_ARRAY_DEPTH_def)

lemma aligned_sizes: "length (writer_body aligned_writer) = 94" "length (written_bytes aligned_writer) = 100"
proof -
  show body: "length (writer_body aligned_writer) = 94"
    by (simp add: writer_body_def prelude_body_def aligned_writer_def sample_tensor_def kv_bytes_def
        string_v3_bytes_def writer_offsets_def tensor_info_bytes_def)
  show "length (written_bytes aligned_writer) = 100"
    unfolding written_bytes_body [OF aligned_writer_shape] length_append length_replicate body
    by (simp add: aligned_writer_def sample_tensor_def padding_def)
qed

lemma aligned_alignment: "file_alignment (md_of_list (gw_metadata aligned_writer)) = 64"
  by (simp add: file_alignment_def md_get_of_list aligned_writer_def)

text \<open>C40: A file whose metadata asks for an alignment of 64 is still laid out for 32: the writer
  pads its header and tensors to the constant 32 whatever \<open>general.alignment\<close> it has just
  written, while the parser honours the entry, so the parsed file looks for the tensor past the
  end of the file and cannot read what was written.\<close>

theorem writer_ignores_alignment:
  "\<exists>bs f. write_to vec_ops aligned_writer [] = Inr bs \<and> gguf_parse bs = Inr f \<and>
     gf_alignment f = 64 \<and> tensor_data 1000 f bs ''a'' = Inl (UnexpectedEof 128)"
proof (intro exI conjI)
  let ?f = "written_file_at 128 64 aligned_writer"
  show "write_to vec_ops aligned_writer [] = Inr (written_bytes aligned_writer)"
    by (rule write_to_written [OF aligned_writer_shape]) (simp add: aligned_sizes)
  have "validate_alignment 64 = Inr ()"
    by (simp add: validate_alignment_def is_power_of_two_def MAX_GGUF_ALIGNMENT_def)
  moreover have "align_up 94 64 = 128" by (simp add: align_up_def saturating_add_def checked_add_def)
  ultimately show "gguf_parse (written_bytes aligned_writer) = Inr ?f"
    using gguf_parse_written_at [OF aligned_writer_shape] by (simp add: aligned_alignment aligned_sizes)
  show "gf_alignment ?f = 64" by (simp add: written_file_at_def)
  let ?i = "info_of (pt_meta (sample_tensor ''a'' 1 [1, 2, 3, 4]), 0)"
  have "ts_infos (gf_tensors ?f) = [(''a'', ?i)]"
    by (simp add: written_file_at_def writer_infos_def writer_offsets_def aligned_writer_def
        sample_tensor_def info_of_def)
  then have get: "ts_get (gf_tensors ?f) ''a'' = Inr ?i" by (simp add: ts_get_def)
  have "try_data_size ?i = Inr (word_of_nat (bytes_of [1] F32))"
    using try_data_size_small [of ?i] by (simp add: info_of_def sample_tensor_def bytes_of_def elements_of_def)
  then have size: "try_data_size ?i = Inr 4" by (simp add: bytes_of_def elements_of_def)
  have "ti_offset ?i = 0" by (simp add: info_of_def)
  moreover have "ts_data_offset (gf_tensors ?f) = 128" by (simp add: written_file_at_def)
  ultimately show "tensor_data 1000 ?f (written_bytes aligned_writer) ''a'' = Inl (UnexpectedEof 128)"
    unfolding tensor_data_def tensor_data_range_def get aligned_sizes
    by (simp add: size checked_add_def)
qed

end
