(* ===== verification/Seq_State.thy ===== *)
theory Seq_State
  imports Prelude
begin

text \<open>
  Per-sequence state of \<open>crates/oxillama-arch/src/common/sequence_state.rs\<close> and the Jamba
  state of \<open>crates/oxillama-arch/src/jamba/model.rs\<close>: position counters, recurrent hidden
  states, and their snapshots. The trait \<open>SequenceState\<close> is the record \<open>seq_ops\<close> of its
  methods; its documented contract is the locale \<open>seq_state\<close>, and the documented saturation at
  the capacity the locale \<open>saturating_seq_state\<close>. An \<open>f32\<close> is kept as its bit pattern, of which
  the code only copies and zeroes.
\<close>

section \<open>The trait\<close>

datatype seq_snapshot =
    AttentionSnap nat
  | Mamba2Snap "u32 list list" nat
  | JambaSnap nat "u32 list list"

datatype arch_error = ConfigMismatch string nat nat

record 's seq_ops =
  so_reset :: "'s \<Rightarrow> 's"
  so_step_position :: "'s \<Rightarrow> nat"
  so_advance :: "'s \<Rightarrow> 's"
  so_capacity :: "'s \<Rightarrow> nat"

text \<open>The default methods of the trait.\<close>

definition try_advance :: "'s seq_ops \<Rightarrow> 's \<Rightarrow> arch_error + 's" where
  "try_advance ops s =
     (let cap = so_capacity ops s in
      if so_step_position ops s \<ge> cap
      then Inl (ConfigMismatch ''sequence_state.position'' cap (so_step_position ops s))
      else Inr (so_advance ops s))"

definition default_snapshot :: "'s seq_ops \<Rightarrow> 's \<Rightarrow> seq_snapshot" where
  "default_snapshot ops s = AttentionSnap (so_step_position ops s)"

fun default_restore :: "'s seq_ops \<Rightarrow> seq_snapshot \<Rightarrow> 's \<Rightarrow> 's" where
  "default_restore ops (AttentionSnap pos) s = (so_advance ops ^^ pos) (so_reset ops s)"
| "default_restore ops _ s = s"

section \<open>Attention\<close>

record attention_state =
  as_position :: nat
  as_max_capacity :: nat

definition attention_new :: "nat \<Rightarrow> attention_state" where
  "attention_new max_capacity = \<lparr>as_position = 0, as_max_capacity = max_capacity\<rparr>"

definition attention_reset :: "attention_state \<Rightarrow> attention_state" where
  "attention_reset s = s\<lparr>as_position := 0\<rparr>"

definition attention_advance :: "attention_state \<Rightarrow> attention_state" where
  "attention_advance s =
     (if as_position s < as_max_capacity s then s\<lparr>as_position := as_position s + 1\<rparr> else s)"

definition attention_ops :: "attention_state seq_ops" where
  "attention_ops =
     \<lparr>so_reset = attention_reset, so_step_position = as_position,
      so_advance = attention_advance, so_capacity = as_max_capacity\<rparr>"

definition attention_snapshot :: "attention_state \<Rightarrow> seq_snapshot" where
  "attention_snapshot s = AttentionSnap (as_position s)"

fun attention_restore :: "seq_snapshot \<Rightarrow> attention_state \<Rightarrow> attention_state" where
  "attention_restore (AttentionSnap pos) s = s\<lparr>as_position := pos\<rparr>"
| "attention_restore _ s = s"

section \<open>Mamba-2\<close>

record ssm_layer =
  sl_h :: "u32 list"
  sl_d_state :: nat
  sl_d_inner :: nat

definition ssm_layer_new :: "nat \<Rightarrow> nat \<Rightarrow> ssm_layer" where
  "ssm_layer_new d_state d_inner =
     \<lparr>sl_h = replicate (d_state * d_inner) 0, sl_d_state = d_state, sl_d_inner = d_inner\<rparr>"

definition ssm_layer_clear :: "ssm_layer \<Rightarrow> ssm_layer" where
  "ssm_layer_clear l = l\<lparr>sl_h := replicate (length (sl_h l)) 0\<rparr>"

text \<open>\<open>layer.h[..n].copy_from_slice(&state[..n])\<close> for the shorter of the two lengths.\<close>

definition ssm_layer_copy :: "u32 list \<Rightarrow> ssm_layer \<Rightarrow> ssm_layer" where
  "ssm_layer_copy st l =
     (let copy_len = min (length st) (length (sl_h l))
      in l\<lparr>sl_h := take copy_len st @ drop copy_len (sl_h l)\<rparr>)"

text \<open>\<open>iter_mut().zip(states)\<close>: the layers past the end of the shorter list are kept.\<close>

fun zip_update :: "('a \<Rightarrow> 'b \<Rightarrow> 'b) \<Rightarrow> 'a list \<Rightarrow> 'b list \<Rightarrow> 'b list" where
  "zip_update f (x # xs) (y # ys) = f x y # zip_update f xs ys"
| "zip_update f _ ys = ys"

record mamba2_state =
  m2_layers :: "ssm_layer list"
  m2_position :: nat
  m2_max_capacity :: nat

definition mamba2_new :: "nat \<Rightarrow> nat \<Rightarrow> nat \<Rightarrow> nat \<Rightarrow> mamba2_state" where
  "mamba2_new n_layers d_state d_inner max_capacity =
     \<lparr>m2_layers = replicate n_layers (ssm_layer_new d_state d_inner), m2_position = 0,
      m2_max_capacity = max_capacity\<rparr>"

definition mamba2_reset :: "mamba2_state \<Rightarrow> mamba2_state" where
  "mamba2_reset s = s\<lparr>m2_position := 0, m2_layers := map ssm_layer_clear (m2_layers s)\<rparr>"

definition mamba2_advance :: "mamba2_state \<Rightarrow> mamba2_state" where
  "mamba2_advance s =
     (if m2_position s < m2_max_capacity s then s\<lparr>m2_position := m2_position s + 1\<rparr> else s)"

definition mamba2_ops :: "mamba2_state seq_ops" where
  "mamba2_ops =
     \<lparr>so_reset = mamba2_reset, so_step_position = m2_position,
      so_advance = mamba2_advance, so_capacity = m2_max_capacity\<rparr>"

definition mamba2_snapshot :: "mamba2_state \<Rightarrow> seq_snapshot" where
  "mamba2_snapshot s = Mamba2Snap (map sl_h (m2_layers s)) (m2_position s)"

fun mamba2_restore :: "seq_snapshot \<Rightarrow> mamba2_state \<Rightarrow> mamba2_state" where
  "mamba2_restore (Mamba2Snap ssm_states pos) s =
     s\<lparr>m2_position := pos, m2_layers := zip_update ssm_layer_copy ssm_states (m2_layers s)\<rparr>"
| "mamba2_restore _ s = s"

section \<open>Jamba\<close>

datatype jamba_layer = JAttention attention_state | JSsm ssm_layer

datatype layer_kind = KAttention | KSsm

record jamba_state =
  jb_layers :: "jamba_layer list"
  jb_position :: nat
  jb_max_capacity :: nat

definition jamba_new :: "layer_kind list \<Rightarrow> nat \<Rightarrow> nat \<Rightarrow> nat \<Rightarrow> jamba_state" where
  "jamba_new pattern d_state d_inner max_capacity =
     \<lparr>jb_layers = map (\<lambda>kind. case kind of
          KAttention \<Rightarrow> JAttention (attention_new max_capacity)
        | KSsm \<Rightarrow> JSsm (ssm_layer_new d_state d_inner)) pattern,
      jb_position = 0, jb_max_capacity = max_capacity\<rparr>"

fun jamba_layer_reset :: "jamba_layer \<Rightarrow> jamba_layer" where
  "jamba_layer_reset (JAttention s) = JAttention (attention_reset s)"
| "jamba_layer_reset (JSsm l) = JSsm (ssm_layer_clear l)"

definition jamba_reset :: "jamba_state \<Rightarrow> jamba_state" where
  "jamba_reset s = s\<lparr>jb_position := 0, jb_layers := map jamba_layer_reset (jb_layers s)\<rparr>"

definition jamba_advance :: "jamba_state \<Rightarrow> jamba_state" where
  "jamba_advance s = s\<lparr>jb_position := jb_position s + 1\<rparr>"

definition jamba_ops :: "jamba_state seq_ops" where
  "jamba_ops =
     \<lparr>so_reset = jamba_reset, so_step_position = jb_position,
      so_advance = jamba_advance, so_capacity = jb_max_capacity\<rparr>"

fun jamba_layer_h :: "jamba_layer \<Rightarrow> u32 list" where
  "jamba_layer_h (JAttention _) = []"
| "jamba_layer_h (JSsm l) = sl_h l"

definition jamba_snapshot :: "jamba_state \<Rightarrow> seq_snapshot" where
  "jamba_snapshot s = JambaSnap (jb_position s) (map jamba_layer_h (jb_layers s))"

fun jamba_layer_copy :: "u32 list \<Rightarrow> jamba_layer \<Rightarrow> jamba_layer" where
  "jamba_layer_copy st (JAttention s) = JAttention s"
| "jamba_layer_copy st (JSsm l) = JSsm (ssm_layer_copy st l)"

fun jamba_restore :: "seq_snapshot \<Rightarrow> jamba_state \<Rightarrow> jamba_state" where
  "jamba_restore (JambaSnap pos ssm_states) s =
     s\<lparr>jb_position := pos, jb_layers := zip_update jamba_layer_copy ssm_states (jb_layers s)\<rparr>"
| "jamba_restore _ s = s"

section \<open>The contract of the trait\<close>

locale seq_state =
  fixes ops :: "'s seq_ops"
  assumes reset_position: "so_step_position ops (so_reset ops s) = 0"
    and reset_capacity: "so_capacity ops (so_reset ops s) = so_capacity ops s"
    and advance_position:
      "so_step_position ops s < so_capacity ops s \<Longrightarrow>
       so_step_position ops (so_advance ops s) = so_step_position ops s + 1"
    and advance_capacity: "so_capacity ops (so_advance ops s) = so_capacity ops s"
begin

lemma try_advance_ok:
  assumes "try_advance ops s = Inr s'"
  shows "so_step_position ops s' = so_step_position ops s + 1"
    and "so_step_position ops s' \<le> so_capacity ops s'"
    and "so_capacity ops s' = so_capacity ops s"
  using assms advance_position [of s]
  by (auto simp: try_advance_def Let_def advance_capacity split: if_splits)

lemma advances_capacity: "so_capacity ops ((so_advance ops ^^ n) s) = so_capacity ops s"
  by (induction n) (simp_all add: advance_capacity)

lemma advances_position:
  "so_step_position ops s + n \<le> so_capacity ops s \<Longrightarrow>
   so_step_position ops ((so_advance ops ^^ n) s) = so_step_position ops s + n"
  by (induction n) (simp_all add: advance_position advances_capacity)

lemma default_restore_position:
  assumes "so_step_position ops s \<le> so_capacity ops t"
  shows "so_step_position ops (default_restore ops (default_snapshot ops s) t) = so_step_position ops s"
  using advances_position [of "so_reset ops t" "so_step_position ops s"] assms
  by (simp add: default_snapshot_def reset_position reset_capacity)

end

text \<open>``Implementations must not advance past capacity''.\<close>

locale saturating_seq_state = seq_state +
  assumes advance_full:
    "so_capacity ops s \<le> so_step_position ops s \<Longrightarrow>
     so_step_position ops (so_advance ops s) = so_step_position ops s"
begin

lemma advances_saturate:
  "so_step_position ops ((so_advance ops ^^ n) (so_reset ops s)) = min n (so_capacity ops s)"
proof (induction n)
  case 0
  then show ?case by (simp add: reset_position)
next
  case (Suc n)
  let ?s = "(so_advance ops ^^ n) (so_reset ops s)"
  have cap: "so_capacity ops ?s = so_capacity ops s"
    by (simp add: advances_capacity reset_capacity)
  show ?case
  proof (cases "so_step_position ops ?s < so_capacity ops ?s")
    case True
    with Suc cap show ?thesis by (simp add: advance_position)
  next
    case False
    with Suc cap show ?thesis by (simp add: advance_full)
  qed
qed

end

interpretation attention: saturating_seq_state attention_ops
  by unfold_locales (simp_all add: attention_ops_def attention_reset_def attention_advance_def)

interpretation mamba2: saturating_seq_state mamba2_ops
  by unfold_locales (simp_all add: mamba2_ops_def mamba2_reset_def mamba2_advance_def)

interpretation jamba: seq_state jamba_ops
  by unfold_locales (simp_all add: jamba_ops_def jamba_reset_def jamba_advance_def)

section \<open>Snapshots\<close>

definition same_shape :: "mamba2_state \<Rightarrow> mamba2_state \<Rightarrow> bool" where
  "same_shape s t \<longleftrightarrow>
     map (length \<circ> sl_h) (m2_layers s) = map (length \<circ> sl_h) (m2_layers t)"

lemma zip_update_length [simp]: "length (zip_update f xs ys) = length ys"
  by (induction f xs ys rule: zip_update.induct) simp_all

lemma zip_update_nth:
  "i < length ys \<Longrightarrow> length xs = length ys \<Longrightarrow> zip_update f xs ys ! i = f (xs ! i) (ys ! i)"
  by (induction f xs ys arbitrary: i rule: zip_update.induct) (auto simp: nth_Cons split: nat.split)

lemma ssm_layer_copy_same:
  "length st = length (sl_h l) \<Longrightarrow> ssm_layer_copy st l = l\<lparr>sl_h := st\<rparr>"
  by (simp add: ssm_layer_copy_def)

lemma zip_update_copy:
  assumes "map (length \<circ> sl_h) ls = map length sts"
  shows "map sl_h (zip_update ssm_layer_copy sts ls) = sts"
proof (rule nth_equalityI)
  have len: "length ls = length sts" using assms by (metis length_map)
  then show "length (map sl_h (zip_update ssm_layer_copy sts ls)) = length sts" by simp
  fix i assume "i < length (map sl_h (zip_update ssm_layer_copy sts ls))"
  then have i: "i < length ls" by simp
  then have "length (sl_h (ls ! i)) = length (sts ! i)"
    using assms len by (metis comp_apply nth_map)
  then show "map sl_h (zip_update ssm_layer_copy sts ls) ! i = sts ! i"
    using i len by (simp add: zip_update_nth ssm_layer_copy_same)
qed

end
