(* ===== verification/Kv_Pool.thy ===== *)
theory Kv_Pool
  imports Seq_State
begin

text \<open>
  The two free-list pools of the runtime: the KV page pool of
  \<open>crates/oxillama-runtime/src/kv_pool.rs\<close> and the SSM slot pool with its dispatching enum of
  \<open>crates/oxillama-runtime/src/sequence_pool.rs\<close>. What a client needs of either is the locale
  \<open>slot_pool\<close>: an index is never handed to two owners, and releasing what one does not own is
  an error. A free list is a Rust \<open>Vec\<close> used as a stack, so its top is the last element.
\<close>

section \<open>KV pages\<close>

datatype kv_pool_error = OutOfRange nat nat | DoubleFree nat

record kv_pool =
  kp_pages :: "u32 list list"
  kp_free_list :: "nat list"
  kp_in_use :: "bool list"
  kp_page_size :: nat

definition kv_pool_new :: "nat \<Rightarrow> nat \<Rightarrow> kv_pool" where
  "kv_pool_new page_size initial_pages =
     \<lparr>kp_pages = replicate initial_pages (replicate page_size 0),
      kp_free_list = [0..<initial_pages], kp_in_use = replicate initial_pages False,
      kp_page_size = page_size\<rparr>"

text \<open>\<open>Vec::pop\<close>.\<close>

definition pop :: "'a list \<Rightarrow> ('a \<times> 'a list) option" where
  "pop xs = (if xs = [] then None else Some (last xs, butlast xs))"

definition kv_pool_alloc :: "kv_pool \<Rightarrow> (nat \<times> kv_pool) option" where
  "kv_pool_alloc p =
     Option.bind (pop (kp_free_list p)) (\<lambda>(idx, free_list).
       Some (idx, p\<lparr>kp_free_list := free_list, kp_in_use := (kp_in_use p)[idx := True]\<rparr>))"

definition kv_pool_free :: "nat \<Rightarrow> kv_pool \<Rightarrow> kv_pool_error + kv_pool" where
  "kv_pool_free page_idx p =
     (if page_idx \<ge> length (kp_pages p) then Inl (OutOfRange page_idx (length (kp_pages p)))
      else if \<not> kp_in_use p ! page_idx then Inl (DoubleFree page_idx)
      else Inr (p\<lparr>kp_in_use := (kp_in_use p)[page_idx := False],
                  kp_free_list := kp_free_list p @ [page_idx]\<rparr>))"

definition kv_pool_is_allocated :: "kv_pool \<Rightarrow> nat \<Rightarrow> bool" where
  "kv_pool_is_allocated p page_idx \<longleftrightarrow>
     (if page_idx < length (kp_in_use p) then kp_in_use p ! page_idx else False)"

text \<open>Indexing panics out of range, which is \<open>None\<close> here.\<close>

definition kv_pool_page :: "kv_pool \<Rightarrow> nat \<Rightarrow> u32 list option" where
  "kv_pool_page p page_idx =
     (if page_idx < length (kp_pages p) then Some (kp_pages p ! page_idx) else None)"

text \<open>Writing one element through \<open>page_mut\<close>.\<close>

definition kv_pool_write :: "nat \<Rightarrow> nat \<Rightarrow> u32 \<Rightarrow> kv_pool \<Rightarrow> kv_pool option" where
  "kv_pool_write page_idx i x p =
     Option.bind (kv_pool_page p page_idx) (\<lambda>page.
       if i < length page
       then Some (p\<lparr>kp_pages := (kp_pages p)[page_idx := page[i := x]]\<rparr>) else None)"

definition kv_pool_total_pages :: "kv_pool \<Rightarrow> nat" where
  "kv_pool_total_pages p = length (kp_pages p)"

definition kv_pool_free_pages :: "kv_pool \<Rightarrow> nat" where
  "kv_pool_free_pages p = length (kp_free_list p)"

definition kv_pool_used_pages :: "kv_pool \<Rightarrow> nat" where
  "kv_pool_used_pages p = length (kp_pages p) - length (kp_free_list p)"

section \<open>SSM slots\<close>

datatype pool_error = Exhausted | InvalidSlot nat

record 's sequence_slot =
  ss_state :: 's
  ss_position :: nat
  ss_request_id :: u64

definition slot_new :: "'s seq_ops \<Rightarrow> 's \<Rightarrow> 's sequence_slot" where
  "slot_new ops st =
     \<lparr>ss_state = st, ss_position = so_step_position ops st, ss_request_id = 0\<rparr>"

definition slot_step :: "'s seq_ops \<Rightarrow> 's sequence_slot \<Rightarrow> 's sequence_slot" where
  "slot_step ops sl =
     (let st = so_advance ops (ss_state sl)
      in sl\<lparr>ss_state := st, ss_position := so_step_position ops st\<rparr>)"

definition slot_reset :: "'s seq_ops \<Rightarrow> 's sequence_slot \<Rightarrow> 's sequence_slot" where
  "slot_reset ops sl =
     sl\<lparr>ss_state := so_reset ops (ss_state sl), ss_position := 0, ss_request_id := 0\<rparr>"

record 's ssm_pool =
  sp_slots :: "'s sequence_slot option list"
  sp_free_list :: "nat list"
  sp_capacity :: nat

definition ssm_pool_new :: "'s seq_ops \<Rightarrow> nat \<Rightarrow> (nat \<Rightarrow> 's) \<Rightarrow> 's ssm_pool" where
  "ssm_pool_new ops capacity make_state =
     \<lparr>sp_slots = map (\<lambda>i. Some (slot_new ops (make_state i))) [0..<capacity],
      sp_free_list = [0..<capacity], sp_capacity = capacity\<rparr>"

text \<open>\<open>if let Some(slot) = self.slots[idx].as_mut()\<close>.\<close>

definition update_slot ::
    "('s sequence_slot \<Rightarrow> 's sequence_slot) \<Rightarrow> nat \<Rightarrow> 's ssm_pool \<Rightarrow> 's ssm_pool" where
  "update_slot f idx p = p\<lparr>sp_slots := (sp_slots p)[idx := map_option f (sp_slots p ! idx)]\<rparr>"

definition ssm_pool_alloc :: "u64 \<Rightarrow> 's ssm_pool \<Rightarrow> pool_error + nat \<times> 's ssm_pool" where
  "ssm_pool_alloc request_id p =
     and_then (ok_or (pop (sp_free_list p)) Exhausted) (\<lambda>(idx, free_list).
       Inr (idx, update_slot (\<lambda>sl. sl\<lparr>ss_request_id := request_id\<rparr>) idx
                   (p\<lparr>sp_free_list := free_list\<rparr>)))"

definition ssm_pool_release :: "'s seq_ops \<Rightarrow> nat \<Rightarrow> 's ssm_pool \<Rightarrow> pool_error + 's ssm_pool" where
  "ssm_pool_release ops idx p =
     (if idx \<ge> length (sp_slots p) then Inl (InvalidSlot idx)
      else if idx \<in> set (sp_free_list p) then Inl (InvalidSlot idx)
      else Inr ((update_slot (slot_reset ops) idx p)\<lparr>sp_free_list := sp_free_list p @ [idx]\<rparr>))"

definition ssm_pool_slot :: "'s ssm_pool \<Rightarrow> nat \<Rightarrow> 's sequence_slot option" where
  "ssm_pool_slot p idx = (if idx < length (sp_slots p) then sp_slots p ! idx else None)"

definition ssm_pool_used_count :: "'s ssm_pool \<Rightarrow> nat" where
  "ssm_pool_used_count p = sp_capacity p - length (sp_free_list p)"

section \<open>The dispatching enum\<close>

datatype 's sequence_pool = KvBased kv_pool | Ssm "'s ssm_pool"

abbreviation usize_MAX :: nat where
  "usize_MAX \<equiv> 2 ^ 64 - 1"

fun alloc_kv :: "'s sequence_pool \<Rightarrow> pool_error + nat \<times> 's sequence_pool" where
  "alloc_kv (KvBased p) =
     and_then (ok_or (kv_pool_alloc p) Exhausted) (\<lambda>(i, p). Inr (i, KvBased p))"
| "alloc_kv (Ssm p) = Inl (InvalidSlot usize_MAX)"

fun free_kv :: "nat \<Rightarrow> 's sequence_pool \<Rightarrow> pool_error + 's sequence_pool" where
  "free_kv page_idx (KvBased p) =
     (case kv_pool_free page_idx p of
        Inl _ \<Rightarrow> Inl (InvalidSlot page_idx) | Inr p \<Rightarrow> Inr (KvBased p))"
| "free_kv page_idx (Ssm p) = Inl (InvalidSlot page_idx)"

fun alloc_ssm :: "u64 \<Rightarrow> 's sequence_pool \<Rightarrow> pool_error + nat \<times> 's sequence_pool" where
  "alloc_ssm request_id (Ssm p) =
     and_then (ssm_pool_alloc request_id p) (\<lambda>(i, p). Inr (i, Ssm p))"
| "alloc_ssm request_id (KvBased p) = Inl (InvalidSlot usize_MAX)"

fun release_ssm :: "'s seq_ops \<Rightarrow> nat \<Rightarrow> 's sequence_pool \<Rightarrow> pool_error + 's sequence_pool" where
  "release_ssm ops idx (Ssm p) = and_then (ssm_pool_release ops idx p) (\<lambda>p. Inr (Ssm p))"
| "release_ssm ops idx (KvBased p) = Inl (InvalidSlot idx)"

fun ssm_slot :: "'s sequence_pool \<Rightarrow> nat \<Rightarrow> 's sequence_slot option" where
  "ssm_slot (Ssm p) idx = ssm_pool_slot p idx"
| "ssm_slot (KvBased p) idx = None"

fun is_kv_based :: "'s sequence_pool \<Rightarrow> bool" where
  "is_kv_based (KvBased _) = True"
| "is_kv_based (Ssm _) = False"

fun is_ssm :: "'s sequence_pool \<Rightarrow> bool" where
  "is_ssm (KvBased _) = False"
| "is_ssm (Ssm _) = True"

section \<open>The contract of a pool\<close>

text \<open>
  \<open>live p\<close> is the set of indices checked out. A history is a list of requests; the handles a
  client holds after it are the indices allocated and not yet released.
\<close>

datatype pool_request = Alloc | Release nat

fun serve :: "('p \<Rightarrow> (nat \<times> 'p) option) \<Rightarrow> (nat \<Rightarrow> 'p \<Rightarrow> 'p option) \<Rightarrow>
    pool_request list \<Rightarrow> 'p \<times> nat list \<Rightarrow> 'p \<times> nat list" where
  "serve alloc release [] s = s"
| "serve alloc release (Alloc # rs) (p, held) =
     (case alloc p of
        None \<Rightarrow> serve alloc release rs (p, held)
      | Some (i, p) \<Rightarrow> serve alloc release rs (p, i # held))"
| "serve alloc release (Release i # rs) (p, held) =
     (case release i p of
        None \<Rightarrow> serve alloc release rs (p, held)
      | Some p \<Rightarrow> serve alloc release rs (p, remove1 i held))"

locale slot_pool =
  fixes alloc :: "'p \<Rightarrow> (nat \<times> 'p) option"
    and release :: "nat \<Rightarrow> 'p \<Rightarrow> 'p option"
    and inv :: "'p \<Rightarrow> bool"
    and total :: "'p \<Rightarrow> nat"
    and live :: "'p \<Rightarrow> nat set"
  assumes live_bound: "inv p \<Longrightarrow> live p \<subseteq> {..<total p}"
    and alloc_Some: "inv p \<Longrightarrow> alloc p = Some (i, p') \<Longrightarrow>
      inv p' \<and> total p' = total p \<and> i \<notin> live p \<and> live p' = insert i (live p)"
    and alloc_None: "inv p \<Longrightarrow> alloc p = None \<longleftrightarrow> live p = {..<total p}"
    and release_Some: "inv p \<Longrightarrow> release i p = Some p' \<Longrightarrow>
      inv p' \<and> total p' = total p \<and> live p' = live p - {i}"
    and release_None: "inv p \<Longrightarrow> release i p = None \<longleftrightarrow> i \<notin> live p"
begin

lemma serve_exclusive:
  assumes "inv p" and "distinct held" and "set held = live p"
    and "serve alloc release rs (p, held) = (p', held')"
  shows "inv p' \<and> total p' = total p \<and> distinct held' \<and> set held' = live p'"
  using assms
proof (induction rs arbitrary: p held)
  case Nil
  then show ?case by simp
next
  case (Cons r rs)
  show ?case
  proof (cases r)
    case Alloc
    show ?thesis
    proof (cases "alloc p")
      case None
      with Cons Alloc show ?thesis by simp
    next
      case (Some a)
      then obtain i p1 where a: "alloc p = Some (i, p1)" by (cases a) auto
      from alloc_Some [OF Cons.prems(1) a] Cons.prems Cons.IH [of p1 "i # held"] a Alloc
      show ?thesis by simp
    qed
  next
    case (Release i)
    show ?thesis
    proof (cases "release i p")
      case None
      with Cons Release show ?thesis by simp
    next
      case (Some p1)
      from release_Some [OF Cons.prems(1) Some] Cons.prems Cons.IH [of p1 "remove1 i held"] Some Release
      show ?thesis by simp
    qed
  qed
qed

text \<open>Freeing twice fails, and freeing undoes allocating.\<close>

lemma release_twice:
  assumes "inv p" and "release i p = Some p'"
  shows "release i p' = None"
  using release_Some [OF assms] release_None by blast

lemma alloc_release: "inv p \<Longrightarrow> alloc p = Some (i, p') \<Longrightarrow> \<exists>q. release i p' = Some q \<and> live q = live p"
proof -
  assume inv: "inv p" and "alloc p = Some (i, p')"
  note new = alloc_Some [OF this]
  then obtain q where "release i p' = Some q"
    using release_None [of p' i] by (cases "release i p'") blast+
  with release_Some [of p' i q] new show ?thesis by auto
qed

end

section \<open>Both pools meet it\<close>

definition kv_pool_inv :: "kv_pool \<Rightarrow> bool" where
  "kv_pool_inv p \<longleftrightarrow>
     length (kp_in_use p) = length (kp_pages p) \<and> distinct (kp_free_list p) \<and>
     (\<forall>i < length (kp_pages p). kp_in_use p ! i \<longleftrightarrow> i \<notin> set (kp_free_list p)) \<and>
     set (kp_free_list p) \<subseteq> {..<length (kp_pages p)} \<and>
     (\<forall>page \<in> set (kp_pages p). length page = kp_page_size p)"

definition kv_try_free :: "nat \<Rightarrow> kv_pool \<Rightarrow> kv_pool option" where
  "kv_try_free i p = (case kv_pool_free i p of Inl _ \<Rightarrow> None | Inr p \<Rightarrow> Some p)"

definition kv_live :: "kv_pool \<Rightarrow> nat set" where
  "kv_live p = {i. i < length (kp_pages p) \<and> i \<notin> set (kp_free_list p)}"

lemma pop_Some: "pop xs = Some (x, ys) \<longleftrightarrow> xs = ys @ [x]"
  by (auto simp: pop_def)

lemma pop_None: "pop xs = None \<longleftrightarrow> xs = []"
  by (simp add: pop_def)

lemma live_all:
  assumes "set fl \<subseteq> {..<n :: nat}"
  shows "{i. i < n \<and> i \<notin> set fl} = {..<n} \<longleftrightarrow> fl = []"
  using assms by (cases fl) auto

lemma kv_pool_alloc_Some:
  "kv_pool_alloc p = Some (i, p') \<longleftrightarrow>
     (\<exists>fl. kp_free_list p = fl @ [i] \<and>
           p' = p\<lparr>kp_free_list := fl, kp_in_use := (kp_in_use p)[i := True]\<rparr>)"
  by (auto simp: kv_pool_alloc_def bind_eq_Some_conv pop_Some)

lemma kv_pool_new_inv: "kv_pool_inv (kv_pool_new page_size n)"
  by (auto simp: kv_pool_inv_def kv_pool_new_def)

interpretation kv: slot_pool kv_pool_alloc kv_try_free
  kv_pool_inv kv_pool_total_pages kv_live
proof unfold_locales
  fix p i p'
  assume inv: "kv_pool_inv p"
  then show "kv_live p \<subseteq> {..<kv_pool_total_pages p}"
    by (auto simp: kv_live_def kv_pool_total_pages_def)
  show "kv_pool_alloc p = None \<longleftrightarrow> kv_live p = {..<kv_pool_total_pages p}"
    using inv live_all [of "kp_free_list p" "length (kp_pages p)"]
    by (simp add: kv_pool_alloc_def pop_def kv_live_def kv_pool_inv_def kv_pool_total_pages_def)
  show "kv_pool_inv p' \<and> kv_pool_total_pages p' = kv_pool_total_pages p \<and> i \<notin> kv_live p \<and>
        kv_live p' = insert i (kv_live p)"
    if "kv_pool_alloc p = Some (i, p')"
    using that inv
    by (auto simp: kv_pool_alloc_Some kv_pool_inv_def kv_live_def kv_pool_total_pages_def nth_list_update
        split: if_splits)
  show "kv_pool_inv p' \<and> kv_pool_total_pages p' = kv_pool_total_pages p \<and> kv_live p' = kv_live p - {i}"
    if "kv_try_free i p = Some p'"
    using that inv
    by (auto simp: kv_try_free_def kv_pool_free_def kv_pool_inv_def kv_live_def kv_pool_total_pages_def nth_list_update
        split: if_splits)
  show "kv_try_free i p = None \<longleftrightarrow> i \<notin> kv_live p"
    using inv by (auto simp: kv_try_free_def kv_pool_free_def kv_pool_inv_def kv_live_def)
qed

definition ssm_pool_inv :: "'s ssm_pool \<Rightarrow> bool" where
  "ssm_pool_inv p \<longleftrightarrow>
     length (sp_slots p) = sp_capacity p \<and> distinct (sp_free_list p) \<and>
     set (sp_free_list p) \<subseteq> {..<sp_capacity p} \<and> None \<notin> set (sp_slots p)"

definition ssm_live :: "'s ssm_pool \<Rightarrow> nat set" where
  "ssm_live p = {i. i < sp_capacity p \<and> i \<notin> set (sp_free_list p)}"

definition ssm_try_alloc :: "u64 \<Rightarrow> 's ssm_pool \<Rightarrow> (nat \<times> 's ssm_pool) option" where
  "ssm_try_alloc rid p = (case ssm_pool_alloc rid p of Inl _ \<Rightarrow> None | Inr x \<Rightarrow> Some x)"

definition ssm_try_release :: "'s seq_ops \<Rightarrow> nat \<Rightarrow> 's ssm_pool \<Rightarrow> 's ssm_pool option" where
  "ssm_try_release ops i p = (case ssm_pool_release ops i p of Inl _ \<Rightarrow> None | Inr p \<Rightarrow> Some p)"

lemma ssm_pool_new_inv: "ssm_pool_inv (ssm_pool_new ops n mk)"
  by (auto simp: ssm_pool_inv_def ssm_pool_new_def)

lemma update_slot_inv:
  "ssm_pool_inv p \<Longrightarrow> i < sp_capacity p \<Longrightarrow> None \<notin> set ((sp_slots p)[i := map_option f (sp_slots p ! i)])"
  by (auto simp: ssm_pool_inv_def in_set_conv_nth nth_list_update)

lemma ssm_pool_alloc_Inr:
  "ssm_pool_alloc rid p = Inr (i, p') \<longleftrightarrow>
     (\<exists>fl. sp_free_list p = fl @ [i] \<and>
        p' = update_slot (\<lambda>sl. sl\<lparr>ss_request_id := rid\<rparr>) i (p\<lparr>sp_free_list := fl\<rparr>))"
  by (auto simp: ssm_pool_alloc_def and_then_Inr_iff ok_or_Inr_iff pop_Some)

interpretation ssm: slot_pool "ssm_try_alloc rid" "ssm_try_release ops" ssm_pool_inv sp_capacity ssm_live
  for rid :: u64 and ops :: "'s seq_ops"
proof unfold_locales
  fix p :: "'s ssm_pool" and i p'
  assume inv: "ssm_pool_inv p"
  then show "ssm_live p \<subseteq> {..<sp_capacity p}" by (auto simp: ssm_live_def)
  show "ssm_try_alloc rid p = None \<longleftrightarrow> ssm_live p = {..<sp_capacity p}"
    using inv live_all [of "sp_free_list p" "sp_capacity p"]
    by (simp add: ssm_try_alloc_def ssm_pool_alloc_def ssm_live_def ssm_pool_inv_def pop_def)
  show "ssm_pool_inv p' \<and> sp_capacity p' = sp_capacity p \<and> i \<notin> ssm_live p \<and>
        ssm_live p' = insert i (ssm_live p)"
    if "ssm_try_alloc rid p = Some (i, p')"
    using that inv update_slot_inv [OF inv]
    by (auto simp: ssm_try_alloc_def ssm_pool_alloc_Inr ssm_pool_inv_def ssm_live_def update_slot_def
        split: sum.splits)
  show "ssm_pool_inv p' \<and> sp_capacity p' = sp_capacity p \<and> ssm_live p' = ssm_live p - {i}"
    if "ssm_try_release ops i p = Some p'"
    using that inv update_slot_inv [OF inv]
    by (auto simp: ssm_try_release_def ssm_pool_release_def ssm_pool_inv_def ssm_live_def
        update_slot_def split: if_splits)
  show "ssm_try_release ops i p = None \<longleftrightarrow> i \<notin> ssm_live p"
    using inv by (auto simp: ssm_try_release_def ssm_pool_release_def ssm_pool_inv_def ssm_live_def)
qed

end
