(* ===== verification/Kv_Access.thy ===== *)
theory Kv_Access
  imports Prelude
begin

text \<open>
  The trait \<open>KvCacheAccess\<close> of \<open>crates/oxillama-arch/src/traits.rs\<close>: what a forward pass
  relies on when it stores the key and value rows of a token in every layer, advances, and
  reads the rows back. The contract is the locale \<open>kv_access\<close>; the paged and the contiguous
  cache are its interpretations. An \<open>f32\<close> is its bit pattern; a Rust slice panic is the error
  \<open>Panic\<close>, and the contract includes that it does not happen.
\<close>

datatype kv_error =
    LayerRange nat nat
  | SequenceFull nat nat
  | ShortVector nat nat nat
  | PositionRange nat nat
  | MultiPage nat nat
  | CannotBorrow nat
  | KvDimUnknown
  | KvCacheFull nat
  | SnapshotLayers nat nat nat
  | SnapshotShort nat nat
  | PayloadMismatch nat nat
  | Panic

type_synonym 'a kv_result = "kv_error + 'a"

type_synonym row = "u32 list"

text \<open>One token: the key and value row of every layer.\<close>

type_synonym token_kv = "nat \<Rightarrow> row \<times> row"

type_synonym 'c store_fn = "nat \<Rightarrow> row \<Rightarrow> row \<Rightarrow> 'c \<Rightarrow> 'c kv_result"

fun store_layers :: "'c store_fn \<Rightarrow> nat list \<Rightarrow> token_kv \<Rightarrow> 'c \<Rightarrow> 'c kv_result" where
  "store_layers st [] t c = Inr c"
| "store_layers st (l # ls) t c =
     and_then (st l (fst (t l)) (snd (t l)) c) (\<lambda>c. store_layers st ls t c)"

text \<open>A forward pass per token: all layers store, then the position advances.\<close>

fun feed :: "'c store_fn \<Rightarrow> ('c \<Rightarrow> 'c) \<Rightarrow> nat \<Rightarrow> token_kv list \<Rightarrow> 'c \<Rightarrow> 'c kv_result" where
  "feed st adv n [] c = Inr c"
| "feed st adv n (t # ts) c =
     and_then (store_layers st [0..<n] t c) (\<lambda>c. feed st adv n ts (adv c))"

text \<open>
  The default \<open>for_each_key\<close> of the trait: \<open>get_keys\<close> cut into rows of \<open>kv_dim\<close>
  (\<open>chunks_exact\<close>, which drops an incomplete last row).
\<close>

fun chunks_exact :: "nat \<Rightarrow> nat \<Rightarrow> 'a list \<Rightarrow> 'a list list" where
  "chunks_exact 0 d xs = []"
| "chunks_exact (Suc n) d xs = take d xs # chunks_exact n d (drop d xs)"

definition enumerated :: "row list \<Rightarrow> (nat \<times> row) list" where
  "enumerated rows = zip [0..<length rows] rows"

definition default_for_each :: "nat \<Rightarrow> (nat \<Rightarrow> row kv_result) \<Rightarrow> nat \<Rightarrow> (nat \<times> row) list kv_result" where
  "default_for_each dim get layer =
     (if dim = 0 then Inl KvDimUnknown
      else and_then (get layer) (\<lambda>keys.
        Inr (enumerated (chunks_exact (length keys div dim) dim keys))))"

text \<open>
  \<open>key_at c l p\<close> and \<open>value_at c l p\<close> are the rows at position \<open>p\<close> of layer \<open>l\<close> (of no meaning
  unless \<open>backed c l p\<close>), \<open>settled c\<close> says that no token is half stored, and \<open>enc\<close> is what
  storing does to an element (nothing for \<open>f32\<close>, rounding for \<open>f16\<close>).
\<close>

locale kv_access =
  fixes st :: "'c store_fn" and adv :: "'c \<Rightarrow> 'c"
    and keys_of :: "'c \<Rightarrow> nat \<Rightarrow> (nat \<times> row) list kv_result"
    and values_of :: "'c \<Rightarrow> nat \<Rightarrow> (nat \<times> row) list kv_result"
    and len :: "'c \<Rightarrow> nat" and cap :: "'c \<Rightarrow> nat" and dim :: "'c \<Rightarrow> nat" and layers :: "'c \<Rightarrow> nat"
    and inv :: "'c \<Rightarrow> bool" and settled :: "'c \<Rightarrow> bool"
    and key_at :: "'c \<Rightarrow> nat \<Rightarrow> nat \<Rightarrow> row" and value_at :: "'c \<Rightarrow> nat \<Rightarrow> nat \<Rightarrow> row"
    and backed :: "'c \<Rightarrow> nat \<Rightarrow> nat \<Rightarrow> bool" and enc :: "u32 \<Rightarrow> u32"
  assumes store_succeeds:
    "inv c \<Longrightarrow> l < layers c \<Longrightarrow> len c < cap c \<Longrightarrow> dim c \<le> length k \<Longrightarrow> dim c \<le> length v \<Longrightarrow>
     \<exists>c'. st l k v c = Inr c'"
    and store_shape:
    "inv c \<Longrightarrow> st l k v c = Inr c' \<Longrightarrow>
     inv c' \<and> len c' = len c \<and> cap c' = cap c \<and> dim c' = dim c \<and> layers c' = layers c"
    and store_new:
    "inv c \<Longrightarrow> st l k v c = Inr c' \<Longrightarrow>
     backed c' l (len c) \<and> key_at c' l (len c) = map enc (take (dim c) k) \<and>
     value_at c' l (len c) = map enc (take (dim c) v)"
    and store_old:
    "inv c \<Longrightarrow> st l k v c = Inr c' \<Longrightarrow> backed c l' p \<Longrightarrow> (l', p) \<noteq> (l, len c) \<Longrightarrow>
     backed c' l' p \<and> key_at c' l' p = key_at c l' p \<and> value_at c' l' p = value_at c l' p"
    and advance_shape:
    "inv c \<Longrightarrow> len c < cap c \<Longrightarrow>
     inv (adv c) \<and> len (adv c) = len c + 1 \<and> cap (adv c) = cap c \<and> dim (adv c) = dim c \<and>
     layers (adv c) = layers c \<and> settled (adv c)"
    and advance_rows:
    "inv c \<Longrightarrow> key_at (adv c) = key_at c \<and> value_at (adv c) = value_at c \<and> backed (adv c) = backed c"
    and read_keys:
    "inv c \<Longrightarrow> settled c \<Longrightarrow> 0 < dim c \<Longrightarrow> l < layers c \<Longrightarrow> (\<forall>p < len c. backed c l p) \<Longrightarrow>
     keys_of c l = Inr (map (\<lambda>p. (p, key_at c l p)) [0..<len c])"
    and read_values:
    "inv c \<Longrightarrow> settled c \<Longrightarrow> 0 < dim c \<Longrightarrow> l < layers c \<Longrightarrow> (\<forall>p < len c. backed c l p) \<Longrightarrow>
     values_of c l = Inr (map (\<lambda>p. (p, value_at c l p)) [0..<len c])"
begin

definition row_ok :: "'c \<Rightarrow> token_kv \<Rightarrow> bool" where
  "row_ok c t \<longleftrightarrow> (\<forall>l < layers c. dim c \<le> length (fst (t l)) \<and> dim c \<le> length (snd (t l)))"

lemma store_layers_effect:
  assumes "inv c" and "len c < cap c" and "row_ok c t" and "set ls \<subseteq> {..<layers c}"
  shows "\<exists>c'. store_layers st ls t c = Inr c' \<and> inv c' \<and> len c' = len c \<and> cap c' = cap c \<and>
    dim c' = dim c \<and> layers c' = layers c \<and>
    (\<forall>l \<in> set ls. backed c' l (len c) \<and> key_at c' l (len c) = map enc (take (dim c) (fst (t l))) \<and>
        value_at c' l (len c) = map enc (take (dim c) (snd (t l)))) \<and>
    (\<forall>l p. backed c l p \<longrightarrow> (p \<noteq> len c \<or> l \<notin> set ls) \<longrightarrow>
        backed c' l p \<and> key_at c' l p = key_at c l p \<and> value_at c' l p = value_at c l p)"
  using assms
proof (induction ls arbitrary: c)
  case Nil
  then show ?case by simp
next
  case (Cons l ls)
  have l: "l < layers c" "dim c \<le> length (fst (t l))" "dim c \<le> length (snd (t l))"
    using Cons.prems by (auto simp: row_ok_def)
  obtain c1 where c1: "st l (fst (t l)) (snd (t l)) c = Inr c1"
    using store_succeeds [OF Cons.prems(1) l(1) Cons.prems(2) l(2,3)] by blast
  note shape = store_shape [OF Cons.prems(1) c1] and new = store_new [OF Cons.prems(1) c1]
    and old = store_old [OF Cons.prems(1) c1]
  have "row_ok c1 t" using Cons.prems(3) shape by (simp add: row_ok_def)
  then obtain c' where c': "store_layers st ls t c1 = Inr c'" "inv c'" "len c' = len c"
      "cap c' = cap c" "dim c' = dim c" "layers c' = layers c"
    and nw: "\<forall>l \<in> set ls. backed c' l (len c) \<and>
        key_at c' l (len c) = map enc (take (dim c) (fst (t l))) \<and>
        value_at c' l (len c) = map enc (take (dim c) (snd (t l)))"
    and od: "\<forall>l p. backed c1 l p \<longrightarrow> (p \<noteq> len c \<or> l \<notin> set ls) \<longrightarrow>
        backed c' l p \<and> key_at c' l p = key_at c1 l p \<and> value_at c' l p = value_at c1 l p"
    using Cons.IH [of c1] Cons.prems shape by auto
  have "backed c' m (len c) \<and> key_at c' m (len c) = map enc (take (dim c) (fst (t m))) \<and>
        value_at c' m (len c) = map enc (take (dim c) (snd (t m)))" if "m \<in> set (l # ls)" for m
    using that new nw od by (cases "m \<in> set ls") auto
  moreover have "backed c' m p \<and> key_at c' m p = key_at c m p \<and> value_at c' m p = value_at c m p"
    if "backed c m p" "p \<noteq> len c \<or> m \<notin> set (l # ls)" for m p
  proof -
    have "(m, p) \<noteq> (l, len c)" using that(2) by auto
    from old [OF that(1) this] od that(2) show ?thesis by auto
  qed
  ultimately show ?case using c1 c' by auto
qed

text \<open>The rows read back are the rows of the tokens fed, position by position.\<close>

definition holds_tokens :: "'c \<Rightarrow> token_kv list \<Rightarrow> bool" where
  "holds_tokens c ts \<longleftrightarrow> len c = length ts \<and>
     (\<forall>l < layers c. \<forall>p < length ts. backed c l p \<and>
        key_at c l p = map enc (take (dim c) (fst ((ts ! p) l))) \<and>
        value_at c l p = map enc (take (dim c) (snd ((ts ! p) l))))"

lemma feed_holds:
  assumes "inv c" and "settled c" and "holds_tokens c us" and "length us + length ts \<le> cap c"
    and "\<forall>t \<in> set ts. row_ok c t"
  shows "\<exists>c'. feed st adv (layers c) ts c = Inr c' \<and> inv c' \<and> settled c' \<and>
    holds_tokens c' (us @ ts) \<and> cap c' = cap c \<and> dim c' = dim c \<and> layers c' = layers c"
  using assms
proof (induction ts arbitrary: c us)
  case Nil
  then show ?case by simp
next
  case (Cons t ts)
  have len: "len c = length us" using Cons.prems(3) by (simp add: holds_tokens_def)
  then have lt: "len c < cap c" using Cons.prems(4) by simp
  have ok: "row_ok c t" using Cons.prems(5) by simp
  have sub: "set [0..<layers c] \<subseteq> {..<layers c}" by auto
  obtain c1 where c1: "store_layers st [0..<layers c] t c = Inr c1" "inv c1" "len c1 = len c"
      "cap c1 = cap c" "dim c1 = dim c" "layers c1 = layers c"
    and nw: "\<forall>l < layers c. backed c1 l (len c) \<and>
        key_at c1 l (len c) = map enc (take (dim c) (fst (t l))) \<and>
        value_at c1 l (len c) = map enc (take (dim c) (snd (t l)))"
    and od: "\<forall>l p. backed c l p \<longrightarrow> p \<noteq> len c \<longrightarrow>
        backed c1 l p \<and> key_at c1 l p = key_at c l p \<and> value_at c1 l p = value_at c l p"
    using store_layers_effect [OF Cons.prems(1) lt ok sub] by auto
  have lt1: "len c1 < cap c1" using lt c1 by simp
  note sh = advance_shape [OF c1(2) lt1] and rw = advance_rows [OF c1(2)]
  have holds: "holds_tokens (adv c1) (us @ [t])"
    unfolding holds_tokens_def
  proof (intro conjI allI impI)
    show "len (adv c1) = length (us @ [t])" using sh c1 len by simp
    fix l p assume l: "l < layers (adv c1)" and p: "p < length (us @ [t])"
    have l': "l < layers c" using l sh c1 by simp
    have "backed c1 l p \<and> key_at c1 l p = map enc (take (dim c) (fst (((us @ [t]) ! p) l))) \<and>
        value_at c1 l p = map enc (take (dim c) (snd (((us @ [t]) ! p) l)))"
    proof (cases "p = length us")
      case True
      then show ?thesis using nw l' len by simp
    next
      case False
      then have "p < length us" using p by simp
      then show ?thesis using Cons.prems(3) od l' len by (simp add: holds_tokens_def nth_append)
    qed
    then show "backed (adv c1) l p"
      and "key_at (adv c1) l p = map enc (take (dim (adv c1)) (fst (((us @ [t]) ! p) l)))"
      and "value_at (adv c1) l p = map enc (take (dim (adv c1)) (snd (((us @ [t]) ! p) l)))"
      using rw sh c1 by simp_all
  qed
  have "\<forall>t \<in> set ts. row_ok (adv c1) t" using Cons.prems(5) sh c1 by (simp add: row_ok_def)
  then show ?case
    using Cons.IH [of "adv c1" "us @ [t]"] holds sh c1 Cons.prems(4) by auto
qed

lemma reads_tokens:
  assumes "inv c" and "settled c" and "holds_tokens c ts" and "0 < dim c" and "l < layers c"
  shows "keys_of c l =
      Inr (map (\<lambda>p. (p, map enc (take (dim c) (fst ((ts ! p) l))))) [0..<length ts])"
    and "values_of c l =
      Inr (map (\<lambda>p. (p, map enc (take (dim c) (snd ((ts ! p) l))))) [0..<length ts])"
  using read_keys [OF assms(1,2,4,5)] read_values [OF assms(1,2,4,5)] assms(3,5)
  by (auto simp: holds_tokens_def)

lemma feed_reads:
  assumes "inv c" and "settled c" and "len c = 0" and "length ts \<le> cap c" and "0 < dim c"
    and "\<forall>t \<in> set ts. \<forall>l < layers c. dim c \<le> length (fst (t l)) \<and> dim c \<le> length (snd (t l))"
  shows "\<exists>c'. feed st adv (layers c) ts c = Inr c' \<and> inv c' \<and> settled c' \<and> len c' = length ts \<and>
    (\<forall>l < layers c.
      keys_of c' l = Inr (map (\<lambda>p. (p, map enc (take (dim c) (fst ((ts ! p) l))))) [0..<length ts]) \<and>
      values_of c' l = Inr (map (\<lambda>p. (p, map enc (take (dim c) (snd ((ts ! p) l))))) [0..<length ts]))"
proof -
  have "holds_tokens c []" using assms(3) by (simp add: holds_tokens_def)
  moreover have "\<forall>t \<in> set ts. row_ok c t" using assms(6) by (simp add: row_ok_def)
  ultimately obtain c' where c': "feed st adv (layers c) ts c = Inr c'" "inv c'" "settled c'"
      "holds_tokens c' ts" "cap c' = cap c" "dim c' = dim c" "layers c' = layers c"
    using feed_holds [OF assms(1,2), of "[]" ts] assms(4) by auto
  then have "len c' = length ts" by (simp add: holds_tokens_def)
  with c' reads_tokens [OF c'(2-4)] assms(5) show ?thesis by auto
qed

end

text \<open>A cache that can also be rolled back to an earlier length.\<close>

locale kv_rollback = kv_access +
  fixes trunc :: "nat \<Rightarrow> 'a \<Rightarrow> 'a"
  assumes trunc_shape:
    "inv c \<Longrightarrow> inv (trunc n c) \<and> settled (trunc n c) \<and> len (trunc n c) = min n (len c) \<and>
     cap (trunc n c) = cap c \<and> dim (trunc n c) = dim c \<and> layers (trunc n c) = layers c"
    and trunc_rows:
    "inv c \<Longrightarrow> key_at (trunc n c) = key_at c \<and> value_at (trunc n c) = value_at c \<and>
     backed (trunc n c) = backed c"
begin

lemma rollback_holds:
  assumes "inv c" and "holds_tokens c ts"
  shows "holds_tokens (trunc n c) (take n ts)"
  using assms trunc_shape [OF assms(1), of n] trunc_rows [OF assms(1), of n]
  by (simp add: holds_tokens_def)

text \<open>Feeding a draft, rolling back to \<open>n\<close>, and feeding on reads as if the rest had never been fed.\<close>

lemma rollback_reads:
  assumes "inv c" and "settled c" and "len c = 0" and "0 < dim c"
    and "length ts \<le> cap c" and "min n (length ts) + length us \<le> cap c"
    and "\<forall>t \<in> set (ts @ us). \<forall>l < layers c. dim c \<le> length (fst (t l)) \<and> dim c \<le> length (snd (t l))"
  shows "\<exists>c1 c2. feed st adv (layers c) ts c = Inr c1 \<and>
    feed st adv (layers c) us (trunc n c1) = Inr c2 \<and>
    (\<forall>l < layers c.
      keys_of c2 l = Inr (map (\<lambda>p. (p, map enc (take (dim c) (fst (((take n ts @ us) ! p) l)))))
                           [0..<length (take n ts @ us)]) \<and>
      values_of c2 l = Inr (map (\<lambda>p. (p, map enc (take (dim c) (snd (((take n ts @ us) ! p) l)))))
                           [0..<length (take n ts @ us)]))"
proof -
  have rows: "\<forall>t \<in> set ts. row_ok c t" "\<forall>t \<in> set us. row_ok c t"
    using assms(7) by (auto simp: row_ok_def)
  have "holds_tokens c []" using assms(3) by (simp add: holds_tokens_def)
  then obtain c1 where c1: "feed st adv (layers c) ts c = Inr c1" "inv c1" "settled c1"
      "holds_tokens c1 ts" "cap c1 = cap c" "dim c1 = dim c" "layers c1 = layers c"
    using feed_holds [OF assms(1,2), of "[]" ts] assms(5) rows by auto
  note sh = trunc_shape [OF c1(2), of n]
  have rows': "\<forall>t \<in> set us. row_ok (trunc n c1) t"
    using rows(2) sh c1 by (simp add: row_ok_def)
  have "length (take n ts) + length us \<le> cap (trunc n c1)"
    using assms(6) sh c1 by (simp add: min.commute)
  then obtain c2 where c2: "feed st adv (layers (trunc n c1)) us (trunc n c1) = Inr c2" "inv c2"
      "settled c2" "holds_tokens c2 (take n ts @ us)" "dim c2 = dim c" "layers c2 = layers c"
    using feed_holds [OF _ _ rollback_holds [OF c1(2,4), of n], of us] sh rows' c1 by auto
  have "feed st adv (layers c) us (trunc n c1) = Inr c2" using c2(1) sh c1 by simp
  with c1 c2 reads_tokens [OF c2(2-4)] assms(4) show ?thesis by auto
qed

end

lemma chunks_exact_nth:
  "i < n \<Longrightarrow> chunks_exact n d xs ! i = take d (drop (i * d) xs)"
proof (induction n arbitrary: i xs)
  case 0
  then show ?case by simp
next
  case (Suc n)
  then show ?case by (cases i) (simp_all add: add.commute)
qed

lemma chunks_exact_length [simp]: "length (chunks_exact n d xs) = n"
  by (induction n arbitrary: xs) simp_all


section \<open>Rows in a flat buffer\<close>

text \<open>Overwriting one window of a list leaves every disjoint window alone.\<close>

lemma window_same:
  assumes "length new = d" and "a + d \<le> length xs"
  shows "take d (drop a (take a xs @ new @ drop (a + d) xs)) = new"
  using assms by simp

lemma window_other:
  assumes "length new = d" and "a + d \<le> length xs" and "b + d \<le> length xs"
    and "a + d \<le> b \<or> b + d \<le> a"
  shows "take d (drop b (take a xs @ new @ drop (a + d) xs)) = take d (drop b xs)"
  using assms by (intro nth_equalityI) (auto simp: nth_append)

lemma rows_apart:
  fixes p q d :: nat
  assumes "p \<noteq> q"
  shows "p * d + d \<le> q * d \<or> q * d + d \<le> p * d"
proof -
  have "p + 1 \<le> q \<or> q + 1 \<le> p" using assms by linarith
  then have "(p + 1) * d \<le> q * d \<or> (q + 1) * d \<le> p * d" using mult_le_mono1 by blast
  then show ?thesis by (simp add: add.commute)
qed

lemma row_fits:
  fixes p n d :: nat
  assumes "p < n"
  shows "p * d + d \<le> n * d"
proof -
  have "(p + 1) * d \<le> n * d" using assms by (intro mult_le_mono1) simp
  then show ?thesis by simp
qed

end
