(* ===== verification/Kv_Paged.thy ===== *)
theory Kv_Paged
  imports Kv_Access
begin

text \<open>
  The paged KV cache of \<open>crates/oxillama-runtime/src/kv_cache/paged.rs\<close>: pages of 16 tokens,
  allocated as the sequence grows. Page and slot of a position are its quotient and remainder
  by the page size.
\<close>

definition PAGE_SIZE :: nat where
  "PAGE_SIZE = 16"

type_synonym page = "u32 list"

definition page_new :: "nat \<Rightarrow> page" where
  "page_new kv_dim = replicate (PAGE_SIZE * kv_dim) 0"

text \<open>\<open>copy_from_slice\<close> between two slices; \<open>None\<close> is the panic of either slice expression.\<close>

definition write_token :: "nat \<Rightarrow> nat \<Rightarrow> row \<Rightarrow> page \<Rightarrow> page option" where
  "write_token slot kv_dim src pg =
     (let offset = slot * kv_dim in
      if offset + kv_dim > length pg \<or> kv_dim > length src then None
      else Some (take offset pg @ take kv_dim src @ drop (offset + kv_dim) pg))"

definition read_token :: "nat \<Rightarrow> nat \<Rightarrow> page \<Rightarrow> row option" where
  "read_token slot kv_dim pg =
     (let offset = slot * kv_dim in
      if offset + kv_dim > length pg then None else Some (take kv_dim (drop offset pg)))"

record layer_cache =
  lc_key_pages :: "page list"
  lc_value_pages :: "page list"

definition layer_cache_new :: layer_cache where
  "layer_cache_new = \<lparr>lc_key_pages = [], lc_value_pages = []\<rparr>"

text \<open>The loop \<open>while self.key_pages.len() < needed_pages\<close>.\<close>

function ensure_pages :: "nat \<Rightarrow> nat \<Rightarrow> layer_cache \<Rightarrow> layer_cache" where
  "ensure_pages needed_pages kv_dim lc =
     (if length (lc_key_pages lc) < needed_pages
      then ensure_pages needed_pages kv_dim
             (lc\<lparr>lc_key_pages := lc_key_pages lc @ [page_new kv_dim],
                 lc_value_pages := lc_value_pages lc @ [page_new kv_dim]\<rparr>)
      else lc)"
  by pat_completeness auto
termination
  by (relation "measure (\<lambda>(n, d, lc). n - length (lc_key_pages lc))") auto

declare ensure_pages.simps [simp del]

definition lc_ensure_capacity :: "nat \<Rightarrow> nat \<Rightarrow> layer_cache \<Rightarrow> layer_cache" where
  "lc_ensure_capacity token_pos kv_dim lc =
     (let needed_pages = token_pos div PAGE_SIZE + 1 in ensure_pages needed_pages kv_dim lc)"

text \<open>\<open>pages[page_idx].write_token(..)\<close>: indexing past the end panics.\<close>

definition write_page :: "nat \<Rightarrow> nat \<Rightarrow> nat \<Rightarrow> row \<Rightarrow> page list \<Rightarrow> page list option" where
  "write_page page_idx slot kv_dim src pages =
     (if page_idx \<ge> length pages then None
      else map_option (\<lambda>pg. pages[page_idx := pg]) (write_token slot kv_dim src (pages ! page_idx)))"

definition lc_store :: "nat \<Rightarrow> nat \<Rightarrow> row \<Rightarrow> row \<Rightarrow> layer_cache \<Rightarrow> layer_cache option" where
  "lc_store token_pos kv_dim key val lc =
     (let lc = lc_ensure_capacity token_pos kv_dim lc;
          page_idx = token_pos div PAGE_SIZE;
          slot = token_pos mod PAGE_SIZE
      in Option.bind (write_page page_idx slot kv_dim key (lc_key_pages lc)) (\<lambda>kp.
         Option.bind (write_page page_idx slot kv_dim val (lc_value_pages lc)) (\<lambda>vp.
           Some (lc\<lparr>lc_key_pages := kp, lc_value_pages := vp\<rparr>))))"

definition lc_num_pages :: "layer_cache \<Rightarrow> nat" where
  "lc_num_pages lc = length (lc_key_pages lc)"

definition lc_shrink_to :: "nat \<Rightarrow> layer_cache \<Rightarrow> layer_cache" where
  "lc_shrink_to seq_len lc =
     (let needed = (if seq_len = 0 then 0 else seq_len div PAGE_SIZE + 1)
      in lc\<lparr>lc_key_pages := take needed (lc_key_pages lc),
            lc_value_pages := take needed (lc_value_pages lc)\<rparr>)"

record paged_kv_cache =
  pg_layers :: "layer_cache list"
  pg_seq_len :: nat
  pg_max_seq_len :: nat
  pg_kv_dim :: nat
  pg_num_layers :: nat

definition paged_new :: "nat \<Rightarrow> nat \<Rightarrow> nat \<Rightarrow> paged_kv_cache" where
  "paged_new num_layers max_seq_len kv_dim =
     \<lparr>pg_layers = replicate num_layers layer_cache_new, pg_seq_len = 0,
      pg_max_seq_len = max_seq_len, pg_kv_dim = kv_dim, pg_num_layers = num_layers\<rparr>"

definition paged_total_pages :: "paged_kv_cache \<Rightarrow> nat" where
  "paged_total_pages c = sum_list (map lc_num_pages (pg_layers c))"

definition paged_memory_bytes :: "paged_kv_cache \<Rightarrow> nat" where
  "paged_memory_bytes c = paged_total_pages c * PAGE_SIZE * pg_kv_dim c * 4 * 2"

definition paged_clear :: "paged_kv_cache \<Rightarrow> paged_kv_cache" where
  "paged_clear c =
     c\<lparr>pg_seq_len := 0,
       pg_layers := map (\<lambda>lc. lc\<lparr>lc_key_pages := [], lc_value_pages := []\<rparr>) (pg_layers c)\<rparr>"

definition paged_shrink_to_fit :: "paged_kv_cache \<Rightarrow> paged_kv_cache" where
  "paged_shrink_to_fit c = c\<lparr>pg_layers := map (lc_shrink_to (pg_seq_len c)) (pg_layers c)\<rparr>"

definition paged_store_kv :: "nat \<Rightarrow> row \<Rightarrow> row \<Rightarrow> paged_kv_cache \<Rightarrow> paged_kv_cache kv_result" where
  "paged_store_kv layer key val c =
     (if layer \<ge> pg_num_layers c then Inl (LayerRange layer (pg_num_layers c))
      else if pg_seq_len c \<ge> pg_max_seq_len c
      then Inl (SequenceFull (pg_seq_len c) (pg_max_seq_len c))
      else if layer \<ge> length (pg_layers c) then Inl Panic
      else and_then (ok_or (lc_store (pg_seq_len c) (pg_kv_dim c) key val (pg_layers c ! layer)) Panic)
             (\<lambda>lc. Inr (c\<lparr>pg_layers := (pg_layers c)[layer := lc]\<rparr>)))"

definition paged_advance :: "paged_kv_cache \<Rightarrow> paged_kv_cache" where
  "paged_advance c =
     (if pg_seq_len c < pg_max_seq_len c then c\<lparr>pg_seq_len := pg_seq_len c + 1\<rparr> else c)"

text \<open>
  The key and the value side of every read are the same code over \<open>key_pages\<close> or
  \<open>value_pages\<close>; \<open>sel\<close> picks the side.
\<close>

definition token_at ::
    "(layer_cache \<Rightarrow> page list) \<Rightarrow> paged_kv_cache \<Rightarrow> nat \<Rightarrow> nat \<Rightarrow> row kv_result" where
  "token_at sel c layer pos =
     (if layer \<ge> length (pg_layers c) then Inl Panic
      else let page_idx = pos div PAGE_SIZE;
               slot = pos mod PAGE_SIZE;
               pages = sel (pg_layers c ! layer)
           in if page_idx \<ge> length pages then Inl Panic
              else ok_or (read_token slot (pg_kv_dim c) (pages ! page_idx)) Panic)"

text \<open>The loop over the positions, collecting what the callback sees.\<close>

fun visit_tokens ::
    "(layer_cache \<Rightarrow> page list) \<Rightarrow> paged_kv_cache \<Rightarrow> nat \<Rightarrow> nat list \<Rightarrow> (nat \<times> row) list kv_result" where
  "visit_tokens sel c layer [] = Inr []"
| "visit_tokens sel c layer (pos # ps) =
     and_then (token_at sel c layer pos) (\<lambda>data.
     and_then (visit_tokens sel c layer ps) (\<lambda>rest. Inr ((pos, data) # rest)))"

definition paged_iter ::
    "(layer_cache \<Rightarrow> page list) \<Rightarrow> paged_kv_cache \<Rightarrow> nat \<Rightarrow> (nat \<times> row) list kv_result" where
  "paged_iter sel c layer =
     (if layer \<ge> pg_num_layers c then Inl (LayerRange layer (pg_num_layers c))
      else visit_tokens sel c layer [0..<pg_seq_len c])"

definition paged_iter_keys :: "paged_kv_cache \<Rightarrow> nat \<Rightarrow> (nat \<times> row) list kv_result" where
  "paged_iter_keys = paged_iter lc_key_pages"

definition paged_iter_values :: "paged_kv_cache \<Rightarrow> nat \<Rightarrow> (nat \<times> row) list kv_result" where
  "paged_iter_values = paged_iter lc_value_pages"

definition paged_assemble ::
    "(layer_cache \<Rightarrow> page list) \<Rightarrow> paged_kv_cache \<Rightarrow> nat \<Rightarrow> row kv_result" where
  "paged_assemble sel c layer =
     and_then (visit_tokens sel c layer [0..<pg_seq_len c]) (\<lambda>rows. Inr (concat (map snd rows)))"

definition paged_get_keys_into :: "paged_kv_cache \<Rightarrow> nat \<Rightarrow> row kv_result" where
  "paged_get_keys_into c layer =
     (if layer \<ge> pg_num_layers c then Inl (LayerRange layer (pg_num_layers c))
      else paged_assemble lc_key_pages c layer)"

definition paged_get_values_into :: "paged_kv_cache \<Rightarrow> nat \<Rightarrow> row kv_result" where
  "paged_get_values_into c layer =
     (if layer \<ge> pg_num_layers c then Inl (LayerRange layer (pg_num_layers c))
      else paged_assemble lc_value_pages c layer)"

definition paged_token ::
    "(layer_cache \<Rightarrow> page list) \<Rightarrow> paged_kv_cache \<Rightarrow> nat \<Rightarrow> nat \<Rightarrow> row kv_result" where
  "paged_token sel c layer pos =
     (if layer \<ge> pg_num_layers c then Inl (LayerRange layer (pg_num_layers c))
      else if pos \<ge> pg_seq_len c then Inl (PositionRange pos (pg_seq_len c))
      else token_at sel c layer pos)"

definition paged_get_key_token :: "paged_kv_cache \<Rightarrow> nat \<Rightarrow> nat \<Rightarrow> row kv_result" where
  "paged_get_key_token = paged_token lc_key_pages"

definition paged_get_value_token :: "paged_kv_cache \<Rightarrow> nat \<Rightarrow> nat \<Rightarrow> row kv_result" where
  "paged_get_value_token = paged_token lc_value_pages"

text \<open>The borrowing read, which only serves a sequence within its first page.\<close>

definition paged_get ::
    "(layer_cache \<Rightarrow> page list) \<Rightarrow> paged_kv_cache \<Rightarrow> nat \<Rightarrow> row kv_result" where
  "paged_get sel c layer =
     (if layer \<ge> pg_num_layers c then Inl (LayerRange layer (pg_num_layers c))
      else if pg_seq_len c = 0 then Inr []
      else let pages_used = (pg_seq_len c - 1) div PAGE_SIZE + 1 in
           if pages_used = 1
           then let end_pos = pg_seq_len c * pg_kv_dim c in
                if layer \<ge> length (pg_layers c) then Inl Panic
                else (case sel (pg_layers c ! layer) of
                        [] \<Rightarrow> Inl Panic
                      | pg # _ \<Rightarrow> if end_pos > length pg then Inl Panic else Inr (take end_pos pg))
           else Inl (MultiPage (pg_seq_len c) pages_used))"

definition paged_get_keys :: "paged_kv_cache \<Rightarrow> nat \<Rightarrow> row kv_result" where
  "paged_get_keys = paged_get lc_key_pages"

definition paged_get_values :: "paged_kv_cache \<Rightarrow> nat \<Rightarrow> row kv_result" where
  "paged_get_values = paged_get lc_value_pages"

section \<open>Invariant and abstraction\<close>

definition layer_inv :: "nat \<Rightarrow> layer_cache \<Rightarrow> bool" where
  "layer_inv kv_dim lc \<longleftrightarrow>
     length (lc_value_pages lc) = length (lc_key_pages lc) \<and>
     (\<forall>pg \<in> set (lc_key_pages lc) \<union> set (lc_value_pages lc). length pg = PAGE_SIZE * kv_dim)"

definition paged_inv :: "paged_kv_cache \<Rightarrow> bool" where
  "paged_inv c \<longleftrightarrow> length (pg_layers c) = pg_num_layers c \<and> list_all (layer_inv (pg_kv_dim c)) (pg_layers c)"

definition page_row :: "nat \<Rightarrow> page list \<Rightarrow> nat \<Rightarrow> row" where
  "page_row kv_dim pages pos =
     take kv_dim (drop (pos mod PAGE_SIZE * kv_dim) (pages ! (pos div PAGE_SIZE)))"

definition paged_row :: "(layer_cache \<Rightarrow> page list) \<Rightarrow> paged_kv_cache \<Rightarrow> nat \<Rightarrow> nat \<Rightarrow> row" where
  "paged_row sel c l p = page_row (pg_kv_dim c) (sel (pg_layers c ! l)) p"

definition paged_backed :: "paged_kv_cache \<Rightarrow> nat \<Rightarrow> nat \<Rightarrow> bool" where
  "paged_backed c l p \<longleftrightarrow>
     l < length (pg_layers c) \<and> p div PAGE_SIZE < length (lc_key_pages (pg_layers c ! l))"

lemma paged_new_inv: "paged_inv (paged_new n m d)"
  by (simp add: paged_inv_def paged_new_def layer_inv_def layer_cache_new_def list_all_iff)

lemma paged_clear_inv: "paged_inv c \<Longrightarrow> paged_inv (paged_clear c)"
  by (simp add: paged_inv_def paged_clear_def layer_inv_def list_all_iff)

lemma paged_shrink_inv: "paged_inv c \<Longrightarrow> paged_inv (paged_shrink_to_fit c)"
  by (auto simp: paged_inv_def paged_shrink_to_fit_def layer_inv_def list_all_iff lc_shrink_to_def
      dest: in_set_takeD)

lemma ensure_pages_eq:
  assumes "length (lc_value_pages lc) = length (lc_key_pages lc)"
  shows "ensure_pages n d lc =
    lc\<lparr>lc_key_pages := lc_key_pages lc @ replicate (n - length (lc_key_pages lc)) (page_new d),
       lc_value_pages := lc_value_pages lc @ replicate (n - length (lc_key_pages lc)) (page_new d)\<rparr>"
  using assms
proof (induction n d lc rule: ensure_pages.induct)
  case (1 n d lc)
  show ?case
  proof (cases "length (lc_key_pages lc) < n")
    case True
    then obtain m where m: "n - length (lc_key_pages lc) = Suc m"
      by (cases "n - length (lc_key_pages lc)") auto
    then have m': "n - Suc (length (lc_key_pages lc)) = m" by simp
    let ?lc = "lc\<lparr>lc_key_pages := lc_key_pages lc @ [page_new d],
                 lc_value_pages := lc_value_pages lc @ [page_new d]\<rparr>"
    have "ensure_pages n d lc = ensure_pages n d ?lc"
      using True by (subst ensure_pages.simps) simp
    also have "\<dots> = ?lc\<lparr>lc_key_pages := lc_key_pages ?lc @ replicate m (page_new d),
        lc_value_pages := lc_value_pages ?lc @ replicate m (page_new d)\<rparr>"
      using "1.IH" [OF True] "1.prems" m' by simp
    finally show ?thesis using m by simp
  next
    case False
    then show ?thesis by (subst ensure_pages.simps) simp
  qed
qed

lemma slot_fits: "pos mod PAGE_SIZE * d + d \<le> PAGE_SIZE * d"
  by (rule row_fits) (simp add: PAGE_SIZE_def)

lemma write_page_Some:
  assumes "i < length pages" and "length (pages ! i) = PAGE_SIZE * d" and "d \<le> length src"
    and "i = pos div PAGE_SIZE"
  shows "\<exists>pages'. write_page i (pos mod PAGE_SIZE) d src pages = Some pages'"
  using assms slot_fits [of pos d]
  by (simp add: write_page_def write_token_def Let_def)

lemma write_page_row:
  assumes w: "write_page (pos div PAGE_SIZE) (pos mod PAGE_SIZE) d src pages = Some pages'"
    and pgs: "\<forall>pg \<in> set pages. length pg = PAGE_SIZE * d"
  shows "length pages' = length pages" and "\<forall>pg \<in> set pages'. length pg = PAGE_SIZE * d"
    and "page_row d pages' pos = take d src"
    and "q \<noteq> pos \<Longrightarrow> q div PAGE_SIZE < length pages \<Longrightarrow> page_row d pages' q = page_row d pages q"
proof -
  let ?i = "pos div PAGE_SIZE" and ?o = "pos mod PAGE_SIZE * d"
  let ?pg = "take ?o (pages ! ?i) @ take d src @ drop (?o + d) (pages ! ?i)"
  have i: "?i < length pages" and src: "d \<le> length src" and pages': "pages' = pages[?i := ?pg]"
    using w by (auto simp: write_page_def write_token_def Let_def split: if_splits)
  have len: "length (pages ! ?i) = PAGE_SIZE * d" using pgs i by simp
  have fits: "?o + d \<le> length (pages ! ?i)" using len slot_fits [of pos d] by simp
  have new: "length (take d src) = d" using src by simp
  have pg: "length ?pg = PAGE_SIZE * d" using fits len src by simp
  show "length pages' = length pages" by (simp add: pages')
  show "\<forall>pg \<in> set pages'. length pg = PAGE_SIZE * d"
    using pgs pg set_update_subset_insert [of pages ?i ?pg] unfolding pages' by fastforce
  show "page_row d pages' pos = take d src"
    using i window_same [OF new fits] by (simp add: page_row_def pages')
  assume q: "q \<noteq> pos" "q div PAGE_SIZE < length pages"
  show "page_row d pages' q = page_row d pages q"
  proof (cases "q div PAGE_SIZE = ?i")
    case False
    then show ?thesis by (simp add: page_row_def pages')
  next
    case True
    with q(1) have "q mod PAGE_SIZE \<noteq> pos mod PAGE_SIZE"
      by (metis div_mult_mod_eq)
    then have "?o + d \<le> q mod PAGE_SIZE * d \<or> q mod PAGE_SIZE * d + d \<le> ?o"
      using rows_apart by auto
    moreover have "q mod PAGE_SIZE * d + d \<le> length (pages ! ?i)" using len slot_fits [of q d] by simp
    ultimately show ?thesis
      using window_other [OF new fits] True i by (simp add: page_row_def pages')
  qed
qed

lemma page_row_append:
  "q div PAGE_SIZE < length pages \<Longrightarrow> page_row d (pages @ pages2) q = page_row d pages q"
  by (simp add: page_row_def nth_append)

lemma lc_ensure_inv:
  assumes "layer_inv d lc"
  shows "layer_inv d (lc_ensure_capacity pos d lc)"
    and "pos div PAGE_SIZE < length (lc_key_pages (lc_ensure_capacity pos d lc))"
    and "length (lc_key_pages lc) \<le> length (lc_key_pages (lc_ensure_capacity pos d lc))"
    and "q div PAGE_SIZE < length (lc_key_pages lc) \<Longrightarrow>
      page_row d (lc_key_pages (lc_ensure_capacity pos d lc)) q = page_row d (lc_key_pages lc) q"
    and "q div PAGE_SIZE < length (lc_key_pages lc) \<Longrightarrow>
      page_row d (lc_value_pages (lc_ensure_capacity pos d lc)) q = page_row d (lc_value_pages lc) q"
  using assms
  by (auto simp: lc_ensure_capacity_def ensure_pages_eq layer_inv_def page_new_def page_row_append)

lemma lc_store_ok:
  assumes "layer_inv d lc" and "d \<le> length k" and "d \<le> length v"
  shows "\<exists>lc'. lc_store pos d k v lc = Some lc'"
proof -
  let ?lc = "lc_ensure_capacity pos d lc"
  note en = lc_ensure_inv(1,2) [OF assms(1), where pos = pos]
  then have "length (lc_key_pages ?lc ! (pos div PAGE_SIZE)) = PAGE_SIZE * d"
    and "length (lc_value_pages ?lc ! (pos div PAGE_SIZE)) = PAGE_SIZE * d"
    and v: "pos div PAGE_SIZE < length (lc_value_pages ?lc)"
    by (auto simp: layer_inv_def)
  then show ?thesis
    using write_page_Some [OF en(2) _ assms(2) refl] write_page_Some [OF v _ assms(3) refl]
    by (auto simp: lc_store_def Let_def)
qed

lemma lc_store_Some:
  assumes inv: "layer_inv d lc" and st: "lc_store pos d k v lc = Some lc'"
  shows "layer_inv d lc'" and "pos div PAGE_SIZE < length (lc_key_pages lc')"
    and "length (lc_key_pages lc) \<le> length (lc_key_pages lc')"
    and "page_row d (lc_key_pages lc') pos = take d k" and "page_row d (lc_value_pages lc') pos = take d v"
    and "q \<noteq> pos \<Longrightarrow> q div PAGE_SIZE < length (lc_key_pages lc) \<Longrightarrow>
      page_row d (lc_key_pages lc') q = page_row d (lc_key_pages lc) q \<and>
      page_row d (lc_value_pages lc') q = page_row d (lc_value_pages lc) q"
proof -
  let ?lc = "lc_ensure_capacity pos d lc"
  note en = lc_ensure_inv [OF inv, where pos = pos]
  obtain kp vp where kp: "write_page (pos div PAGE_SIZE) (pos mod PAGE_SIZE) d k (lc_key_pages ?lc) = Some kp"
    and vp: "write_page (pos div PAGE_SIZE) (pos mod PAGE_SIZE) d v (lc_value_pages ?lc) = Some vp"
    and lc': "lc' = ?lc\<lparr>lc_key_pages := kp, lc_value_pages := vp\<rparr>"
    using st by (auto simp: lc_store_def Let_def bind_eq_Some_conv)
  have pk: "\<forall>pg \<in> set (lc_key_pages ?lc). length pg = PAGE_SIZE * d"
    and pv: "\<forall>pg \<in> set (lc_value_pages ?lc). length pg = PAGE_SIZE * d"
    and eq: "length (lc_value_pages ?lc) = length (lc_key_pages ?lc)"
    using en(1) by (auto simp: layer_inv_def)
  note wk = write_page_row [OF kp pk] and wv = write_page_row [OF vp pv]
  show "layer_inv d lc'" using wk(1,2) wv(1,2) eq by (auto simp: layer_inv_def lc')
  show "pos div PAGE_SIZE < length (lc_key_pages lc')" using en(2) wk(1) by (simp add: lc')
  show "length (lc_key_pages lc) \<le> length (lc_key_pages lc')" using en(3) wk(1) by (simp add: lc')
  show "page_row d (lc_key_pages lc') pos = take d k" and "page_row d (lc_value_pages lc') pos = take d v"
    using wk(3) wv(3) by (simp_all add: lc')
  assume q: "q \<noteq> pos" "q div PAGE_SIZE < length (lc_key_pages lc)"
  then have "q div PAGE_SIZE < length (lc_key_pages ?lc)" using en(3) by simp
  then show "page_row d (lc_key_pages lc') q = page_row d (lc_key_pages lc) q \<and>
      page_row d (lc_value_pages lc') q = page_row d (lc_value_pages lc) q"
    using wk(4) [OF q(1)] wv(4) [OF q(1)] en(4,5) [OF q(2)] eq by (simp add: lc')
qed

lemma visit_tokens_backed:
  assumes inv: "paged_inv c" and sel: "sel = lc_key_pages \<or> sel = lc_value_pages"
    and l: "l < pg_num_layers c" and "\<forall>p \<in> set ps. paged_backed c l p"
  shows "visit_tokens sel c l ps = Inr (map (\<lambda>p. (p, paged_row sel c l p)) ps)"
  using assms(4)
proof (induction ps)
  case Nil
  then show ?case by simp
next
  case (Cons p ps)
  have li: "layer_inv (pg_kv_dim c) (pg_layers c ! l)" and l': "l < length (pg_layers c)"
    using inv l by (auto simp: paged_inv_def list_all_iff)
  have b: "p div PAGE_SIZE < length (sel (pg_layers c ! l))"
    using Cons.prems sel li by (auto simp: paged_backed_def layer_inv_def)
  then have "sel (pg_layers c ! l) ! (p div PAGE_SIZE) \<in> set (sel (pg_layers c ! l))" by simp
  then have "length (sel (pg_layers c ! l) ! (p div PAGE_SIZE)) = PAGE_SIZE * pg_kv_dim c"
    using sel li by (auto simp: layer_inv_def)
  then have "token_at sel c l p = Inr (paged_row sel c l p)"
    using b l' slot_fits [of p "pg_kv_dim c"]
    by (simp add: token_at_def read_token_def Let_def paged_row_def page_row_def)
  with Cons show ?case by simp
qed

lemma paged_store_kv_Inr:
  assumes "paged_store_kv l k v c = Inr c'"
  obtains lc where "l < pg_num_layers c" and "pg_seq_len c < pg_max_seq_len c" and "l < length (pg_layers c)"
    and "lc_store (pg_seq_len c) (pg_kv_dim c) k v (pg_layers c ! l) = Some lc"
    and "c' = c\<lparr>pg_layers := (pg_layers c)[l := lc]\<rparr>"
  using assms by (auto simp: paged_store_kv_def and_then_Inr_iff ok_or_Inr_iff split: if_splits)

interpretation paged: kv_access paged_store_kv paged_advance paged_iter_keys paged_iter_values
  pg_seq_len pg_max_seq_len pg_kv_dim pg_num_layers paged_inv "\<lambda>_. True"
  "paged_row lc_key_pages" "paged_row lc_value_pages" paged_backed "\<lambda>x. x"
proof unfold_locales
  fix c c' :: paged_kv_cache and l l' p :: nat and k v :: row
  assume inv: "paged_inv c"
  have li: "layer_inv (pg_kv_dim c) (pg_layers c ! m)" if "m < length (pg_layers c)" for m
    using inv that by (simp add: paged_inv_def list_all_iff)
  show "\<exists>c'. paged_store_kv l k v c = Inr c'"
    if "l < pg_num_layers c" "pg_seq_len c < pg_max_seq_len c" "pg_kv_dim c \<le> length k" "pg_kv_dim c \<le> length v"
  proof -
    note fits = that(3,4)
    have l: "l < length (pg_layers c)" using inv that(1) by (simp add: paged_inv_def)
    obtain lc where "lc_store (pg_seq_len c) (pg_kv_dim c) k v (pg_layers c ! l) = Some lc"
      using fits lc_store_ok [OF li [OF l]] by blast
    with that l show ?thesis by (simp add: paged_store_kv_def)
  qed
  {
    assume st: "paged_store_kv l k v c = Inr c'"
    then obtain lc where l: "l < length (pg_layers c)"
      and lc: "lc_store (pg_seq_len c) (pg_kv_dim c) k v (pg_layers c ! l) = Some lc"
      and c': "c' = c\<lparr>pg_layers := (pg_layers c)[l := lc]\<rparr>"
      by (rule paged_store_kv_Inr)
    note s = lc_store_Some [OF li [OF l] lc]
    show "paged_inv c' \<and> pg_seq_len c' = pg_seq_len c \<and> pg_max_seq_len c' = pg_max_seq_len c \<and>
        pg_kv_dim c' = pg_kv_dim c \<and> pg_num_layers c' = pg_num_layers c"
      using inv s(1) l by (auto simp: c' paged_inv_def list_all_length nth_list_update)
    show "paged_backed c' l (pg_seq_len c) \<and>
        paged_row lc_key_pages c' l (pg_seq_len c) = map (\<lambda>x. x) (take (pg_kv_dim c) k) \<and>
        paged_row lc_value_pages c' l (pg_seq_len c) = map (\<lambda>x. x) (take (pg_kv_dim c) v)"
      using s(2,4,5) l by (simp add: c' paged_backed_def paged_row_def)
    show "paged_backed c' l' p \<and> paged_row lc_key_pages c' l' p = paged_row lc_key_pages c l' p \<and>
        paged_row lc_value_pages c' l' p = paged_row lc_value_pages c l' p"
      if "paged_backed c l' p" "(l', p) \<noteq> (l, pg_seq_len c)"
      using that s(3) s(6) [of p] l
      by (cases "l' = l") (auto simp: c' paged_backed_def paged_row_def)
  }
  show "paged_inv (paged_advance c) \<and> pg_seq_len (paged_advance c) = pg_seq_len c + 1 \<and>
      pg_max_seq_len (paged_advance c) = pg_max_seq_len c \<and> pg_kv_dim (paged_advance c) = pg_kv_dim c \<and>
      pg_num_layers (paged_advance c) = pg_num_layers c \<and> True"
    if "pg_seq_len c < pg_max_seq_len c"
    using inv that by (simp add: paged_advance_def paged_inv_def)
  show "paged_row lc_key_pages (paged_advance c) = paged_row lc_key_pages c \<and>
      paged_row lc_value_pages (paged_advance c) = paged_row lc_value_pages c \<and>
      paged_backed (paged_advance c) = paged_backed c"
    by (auto simp: paged_advance_def paged_row_def paged_backed_def fun_eq_iff)
  assume l: "l < pg_num_layers c" and b: "\<forall>p < pg_seq_len c. paged_backed c l p"
  then show "paged_iter_keys c l = Inr (map (\<lambda>p. (p, paged_row lc_key_pages c l p)) [0..<pg_seq_len c])"
    and "paged_iter_values c l = Inr (map (\<lambda>p. (p, paged_row lc_value_pages c l p)) [0..<pg_seq_len c])"
    using visit_tokens_backed [OF inv _ l, where ps = "[0..<pg_seq_len c]"]
    by (simp_all add: paged_iter_keys_def paged_iter_values_def paged_iter_def)
qed

end
