(* ===== verification/Kv_Contig.thy ===== *)
theory Kv_Contig
  imports Kv_Access
begin

text \<open>
  The contiguous KV cache of \<open>crates/oxillama-runtime/src/kv_cache/mod.rs\<close> over the buffers of
  \<open>kv_cache/storage.rs\<close>, in both element types. The conversions of the \<open>half\<close> crate are the
  parameter \<open>f16_conv\<close>. The allocator's spare capacity (\<open>memory_bytes\<close>) and the trace output are
  not modelled.
\<close>

section \<open>Buffers\<close>

datatype kv_dtype = DtF32 | DtF16

fun dtype_size_of :: "kv_dtype \<Rightarrow> nat" where
  "dtype_size_of DtF32 = 4"
| "dtype_size_of DtF16 = 2"

fun dtype_as_str :: "kv_dtype \<Rightarrow> string" where
  "dtype_as_str DtF32 = ''f32''"
| "dtype_as_str DtF16 = ''f16''"

record f16_conv =
  fc_from_f32 :: "u32 \<Rightarrow> u16"
  fc_to_f32 :: "u16 \<Rightarrow> u32"

definition DEFAULT_BLOCK_TOKENS :: nat where
  "DEFAULT_BLOCK_TOKENS = 256"

datatype layer_buf = BufF32 "u32 list" | BufF16 "u16 list"

fun buf_new :: "kv_dtype \<Rightarrow> layer_buf" where
  "buf_new DtF32 = BufF32 []"
| "buf_new DtF16 = BufF16 []"

fun buf_grow_to :: "nat \<Rightarrow> layer_buf \<Rightarrow> layer_buf" where
  "buf_grow_to n (BufF32 v) =
     (if length v < n then BufF32 (v @ replicate (n - length v) 0) else BufF32 v)"
| "buf_grow_to n (BufF16 v) =
     (if length v < n then BufF16 (v @ replicate (n - length v) 0) else BufF16 v)"

text \<open>The slice \<open>v[offset..offset + src.len()]\<close> panics when it leaves the buffer.\<close>

fun buf_write_at :: "f16_conv \<Rightarrow> nat \<Rightarrow> row \<Rightarrow> layer_buf \<Rightarrow> layer_buf option" where
  "buf_write_at fc offset src (BufF32 v) =
     (if offset + length src > length v then None
      else Some (BufF32 (take offset v @ src @ drop (offset + length src) v)))"
| "buf_write_at fc offset src (BufF16 v) =
     (if offset + length src > length v then None
      else Some (BufF16 (take offset v @ map (fc_from_f32 fc) src @ drop (offset + length src) v)))"

fun buf_as_f32_prefix :: "nat \<Rightarrow> layer_buf \<Rightarrow> row option" where
  "buf_as_f32_prefix end_pos (BufF32 v) = Some (take (min end_pos (length v)) v)"
| "buf_as_f32_prefix end_pos (BufF16 v) = None"

fun buf_copy_f32_prefix :: "f16_conv \<Rightarrow> nat \<Rightarrow> layer_buf \<Rightarrow> row" where
  "buf_copy_f32_prefix fc end_pos (BufF32 v) = take (min end_pos (length v)) v"
| "buf_copy_f32_prefix fc end_pos (BufF16 v) = map (fc_to_f32 fc) (take (min end_pos (length v)) v)"

fun buf_read_row :: "f16_conv \<Rightarrow> nat \<Rightarrow> nat \<Rightarrow> layer_buf \<Rightarrow> row option" where
  "buf_read_row fc offset n (BufF32 v) =
     (if offset + n > length v then None else Some (take n (drop offset v)))"
| "buf_read_row fc offset n (BufF16 v) =
     (if offset + n > length v then None else Some (map (fc_to_f32 fc) (take n (drop offset v))))"

section \<open>The cache\<close>

record kv_cache =
  kc_keys :: "layer_buf list"
  kc_values :: "layer_buf list"
  kc_seq_len :: nat
  kc_stored_len :: nat
  kc_capacity_tokens :: nat
  kc_block_tokens :: nat
  kc_max_seq_len :: nat
  kc_kv_dim :: nat
  kc_num_layers :: nat
  kc_dtype :: kv_dtype

definition kv_with_dtype :: "nat \<Rightarrow> nat \<Rightarrow> nat \<Rightarrow> kv_dtype \<Rightarrow> kv_cache" where
  "kv_with_dtype num_layers max_seq_len kv_dim dtype =
     \<lparr>kc_keys = replicate num_layers (buf_new dtype), kc_values = replicate num_layers (buf_new dtype),
      kc_seq_len = 0, kc_stored_len = 0, kc_capacity_tokens = 0,
      kc_block_tokens = max 1 (min DEFAULT_BLOCK_TOKENS (max max_seq_len 1)),
      kc_max_seq_len = max_seq_len, kc_kv_dim = kv_dim, kc_num_layers = num_layers,
      kc_dtype = dtype\<rparr>"

definition kv_new :: "nat \<Rightarrow> nat \<Rightarrow> nat \<Rightarrow> kv_cache" where
  "kv_new num_layers max_seq_len kv_dim = kv_with_dtype num_layers max_seq_len kv_dim DtF32"

definition kv_max_memory_bytes :: "kv_cache \<Rightarrow> nat" where
  "kv_max_memory_bytes c =
     kc_num_layers c * kc_max_seq_len c * kc_kv_dim c * dtype_size_of (kc_dtype c) * 2"

definition kv_ensure_capacity :: "nat \<Rightarrow> kv_cache \<Rightarrow> kv_cache" where
  "kv_ensure_capacity tokens c =
     (if tokens \<le> kc_capacity_tokens c then c
      else let blocks = (tokens + (kc_block_tokens c - 1)) div kc_block_tokens c;
               target = max (min (blocks * kc_block_tokens c) (kc_max_seq_len c)) tokens;
               elems = target * kc_kv_dim c
           in c\<lparr>kc_keys := map (buf_grow_to elems) (kc_keys c),
                kc_values := map (buf_grow_to elems) (kc_values c),
                kc_capacity_tokens := target\<rparr>)"

definition kv_clear :: "kv_cache \<Rightarrow> kv_cache" where
  "kv_clear c = c\<lparr>kc_seq_len := 0, kc_stored_len := 0\<rparr>"

definition kv_clear_and_release :: "kv_cache \<Rightarrow> kv_cache" where
  "kv_clear_and_release c =
     c\<lparr>kc_seq_len := 0, kc_stored_len := 0, kc_capacity_tokens := 0,
       kc_keys := map (\<lambda>_. buf_new (kc_dtype c)) (kc_keys c),
       kc_values := map (\<lambda>_. buf_new (kc_dtype c)) (kc_values c)\<rparr>"

definition kv_advance :: "kv_cache \<Rightarrow> kv_cache" where
  "kv_advance c =
     (if kc_seq_len c < kc_max_seq_len c
      then let c = c\<lparr>kc_seq_len := kc_seq_len c + 1\<rparr> in
           if kc_stored_len c < kc_seq_len c then c\<lparr>kc_stored_len := kc_seq_len c\<rparr> else c
      else c)"

definition kv_truncate :: "nat \<Rightarrow> kv_cache \<Rightarrow> kv_cache" where
  "kv_truncate n c =
     (let n = min n (kc_seq_len c) in c\<lparr>kc_seq_len := n, kc_stored_len := n\<rparr>)"

text \<open>\<open>self.keys[layer].write_at(..)\<close>; an index out of range panics.\<close>

definition write_layer :: "f16_conv \<Rightarrow> nat \<Rightarrow> nat \<Rightarrow> row \<Rightarrow> layer_buf list \<Rightarrow> layer_buf list kv_result" where
  "write_layer fc layer offset src bufs =
     (if layer \<ge> length bufs then Inl Panic
      else and_then (ok_or (buf_write_at fc offset src (bufs ! layer)) Panic)
             (\<lambda>b. Inr (bufs[layer := b])))"

definition kv_store_kv :: "f16_conv \<Rightarrow> nat \<Rightarrow> row \<Rightarrow> row \<Rightarrow> kv_cache \<Rightarrow> kv_cache kv_result" where
  "kv_store_kv fc layer key val c =
     (if layer \<ge> kc_num_layers c then Inl (LayerRange layer (kc_num_layers c))
      else if kc_seq_len c \<ge> kc_max_seq_len c
      then Inl (SequenceFull (kc_seq_len c) (kc_max_seq_len c))
      else if length key < kc_kv_dim c \<or> length val < kc_kv_dim c
      then Inl (ShortVector (length key) (length val) (kc_kv_dim c))
      else let c = kv_ensure_capacity (kc_seq_len c + 1) c;
               offset = kc_seq_len c * kc_kv_dim c
           in and_then (write_layer fc layer offset (take (kc_kv_dim c) key) (kc_keys c)) (\<lambda>ks.
              and_then (write_layer fc layer offset (take (kc_kv_dim c) val) (kc_values c)) (\<lambda>vs.
              let c = c\<lparr>kc_keys := ks, kc_values := vs\<rparr> in
              Inr (if kc_stored_len c \<le> kc_seq_len c
                   then c\<lparr>kc_stored_len := kc_seq_len c + 1\<rparr> else c))))"

section \<open>Reads\<close>

text \<open>The key and value side of a read differ in the buffer list, which \<open>sel\<close> picks.\<close>

definition kv_get :: "(kv_cache \<Rightarrow> layer_buf list) \<Rightarrow> kv_cache \<Rightarrow> nat \<Rightarrow> row kv_result" where
  "kv_get sel c layer =
     (if layer \<ge> kc_num_layers c then Inl (LayerRange layer (kc_num_layers c))
      else if layer \<ge> length (sel c) then Inl Panic
      else let end_pos = kc_stored_len c * kc_kv_dim c
           in ok_or (buf_as_f32_prefix end_pos (sel c ! layer)) (CannotBorrow layer))"

definition kv_get_keys :: "kv_cache \<Rightarrow> nat \<Rightarrow> row kv_result" where
  "kv_get_keys = kv_get kc_keys"

definition kv_get_values :: "kv_cache \<Rightarrow> nat \<Rightarrow> row kv_result" where
  "kv_get_values = kv_get kc_values"

definition kv_copy :: "f16_conv \<Rightarrow> (kv_cache \<Rightarrow> layer_buf list) \<Rightarrow> kv_cache \<Rightarrow> nat \<Rightarrow> row kv_result" where
  "kv_copy fc sel c layer =
     (if layer \<ge> kc_num_layers c then Inl (LayerRange layer (kc_num_layers c))
      else if layer \<ge> length (sel c) then Inl Panic
      else Inr (buf_copy_f32_prefix fc (kc_stored_len c * kc_kv_dim c) (sel c ! layer)))"

definition kv_copy_keys_into :: "f16_conv \<Rightarrow> kv_cache \<Rightarrow> nat \<Rightarrow> row kv_result" where
  "kv_copy_keys_into fc = kv_copy fc kc_keys"

definition kv_copy_values_into :: "f16_conv \<Rightarrow> kv_cache \<Rightarrow> nat \<Rightarrow> row kv_result" where
  "kv_copy_values_into fc = kv_copy fc kc_values"

fun read_rows :: "f16_conv \<Rightarrow> layer_buf \<Rightarrow> nat \<Rightarrow> nat list \<Rightarrow> (nat \<times> row) list kv_result" where
  "read_rows fc buf d [] = Inr []"
| "read_rows fc buf d (pos # ps) =
     and_then (ok_or (buf_read_row fc (pos * d) d buf) Panic) (\<lambda>r.
     and_then (read_rows fc buf d ps) (\<lambda>rest. Inr ((pos, r) # rest)))"

definition kv_for_each_row ::
    "f16_conv \<Rightarrow> (kv_cache \<Rightarrow> layer_buf list) \<Rightarrow> kv_cache \<Rightarrow> nat \<Rightarrow> (nat \<times> row) list kv_result" where
  "kv_for_each_row fc sel c layer =
     (if layer \<ge> kc_num_layers c then Inl (LayerRange layer (kc_num_layers c))
      else if kc_kv_dim c = 0 then Inr []
      else if layer \<ge> length (sel c) then Inl Panic
      else let buf = sel c ! layer in
           case buf_as_f32_prefix (kc_stored_len c * kc_kv_dim c) buf of
             Some elems \<Rightarrow>
               Inr (enumerated (chunks_exact (length elems div kc_kv_dim c) (kc_kv_dim c) elems))
           | None \<Rightarrow> read_rows fc buf (kc_kv_dim c) [0..<kc_stored_len c])"

definition kv_for_each_key :: "f16_conv \<Rightarrow> kv_cache \<Rightarrow> nat \<Rightarrow> (nat \<times> row) list kv_result" where
  "kv_for_each_key fc = kv_for_each_row fc kc_keys"

definition kv_for_each_value :: "f16_conv \<Rightarrow> kv_cache \<Rightarrow> nat \<Rightarrow> (nat \<times> row) list kv_result" where
  "kv_for_each_value fc = kv_for_each_row fc kc_values"

section \<open>Snapshots\<close>

record kv_cache_snapshot =
  ks_keys :: "row list"
  ks_values :: "row list"
  ks_seq_len :: nat

definition kv_snapshot_truncated :: "f16_conv \<Rightarrow> nat \<Rightarrow> kv_cache \<Rightarrow> kv_cache_snapshot" where
  "kv_snapshot_truncated fc n c =
     (let seq_len = min n (kc_seq_len c);
          copy_len = seq_len * kc_kv_dim c
      in \<lparr>ks_keys = map (buf_copy_f32_prefix fc copy_len) (kc_keys c),
          ks_values = map (buf_copy_f32_prefix fc copy_len) (kc_values c),
          ks_seq_len = seq_len\<rparr>)"

definition kv_snapshot :: "f16_conv \<Rightarrow> kv_cache \<Rightarrow> kv_cache_snapshot" where
  "kv_snapshot fc c = kv_snapshot_truncated fc (kc_seq_len c) c"

text \<open>The check loop and the copy loop of \<open>restore_from_snapshot\<close>, over the layer indices.\<close>

fun check_layers :: "nat list \<Rightarrow> nat \<Rightarrow> row list \<Rightarrow> row list \<Rightarrow> unit kv_result" where
  "check_layers [] copy_len keys vals = Inr ()"
| "check_layers (l # ls) copy_len keys vals =
     (if length (keys ! l) < copy_len \<or> length (vals ! l) < copy_len
      then Inl (SnapshotShort l copy_len) else check_layers ls copy_len keys vals)"

fun copy_layers :: "f16_conv \<Rightarrow> nat list \<Rightarrow> nat \<Rightarrow> row list \<Rightarrow> layer_buf list \<Rightarrow> layer_buf list kv_result" where
  "copy_layers fc [] copy_len src bufs = Inr bufs"
| "copy_layers fc (l # ls) copy_len src bufs =
     and_then (write_layer fc l 0 (take copy_len (src ! l)) bufs) (\<lambda>bufs.
       copy_layers fc ls copy_len src bufs)"

definition kv_restore_from_snapshot ::
    "f16_conv \<Rightarrow> row list \<Rightarrow> row list \<Rightarrow> nat \<Rightarrow> kv_cache \<Rightarrow> kv_cache kv_result" where
  "kv_restore_from_snapshot fc keys vals seq_len c =
     (if seq_len > kc_max_seq_len c then Inl (KvCacheFull (kc_max_seq_len c))
      else if length keys < kc_num_layers c \<or> length vals < kc_num_layers c
      then Inl (SnapshotLayers (length keys) (length vals) (kc_num_layers c))
      else let copy_len = seq_len * kc_kv_dim c in
           and_then (check_layers [0..<kc_num_layers c] copy_len keys vals) (\<lambda>_.
           let c = kv_ensure_capacity seq_len c in
           and_then (copy_layers fc [0..<kc_num_layers c] copy_len keys (kc_keys c)) (\<lambda>ks.
           and_then (copy_layers fc [0..<kc_num_layers c] copy_len vals (kc_values c)) (\<lambda>vs.
             Inr (c\<lparr>kc_keys := ks, kc_values := vs, kc_seq_len := seq_len,
                    kc_stored_len := seq_len\<rparr>)))))"

record kv_payload =
  kp_keys :: "row list"
  kp_values :: "row list"
  kp_seq_len :: nat
  kp_num_layers :: nat
  kp_max_seq_len :: nat
  kp_kv_dim :: nat

definition kv_to_payload :: "f16_conv \<Rightarrow> kv_cache \<Rightarrow> kv_payload" where
  "kv_to_payload fc c =
     (let copy_len = kc_seq_len c * kc_kv_dim c
      in \<lparr>kp_keys = map (buf_copy_f32_prefix fc copy_len) (kc_keys c),
          kp_values = map (buf_copy_f32_prefix fc copy_len) (kc_values c),
          kp_seq_len = kc_seq_len c, kp_num_layers = kc_num_layers c,
          kp_max_seq_len = kc_max_seq_len c, kp_kv_dim = kc_kv_dim c\<rparr>)"

definition kv_restore_from_payload :: "f16_conv \<Rightarrow> kv_payload \<Rightarrow> kv_cache \<Rightarrow> kv_cache kv_result" where
  "kv_restore_from_payload fc payload c =
     (if kp_num_layers payload \<noteq> kc_num_layers c
      then Inl (PayloadMismatch (kp_num_layers payload) (kc_num_layers c))
      else if kp_kv_dim payload \<noteq> kc_kv_dim c
      then Inl (PayloadMismatch (kp_kv_dim payload) (kc_kv_dim c))
      else kv_restore_from_snapshot fc (kp_keys payload) (kp_values payload) (kp_seq_len payload) c)"

section \<open>Elements\<close>

text \<open>A buffer as the \<open>f32\<close> elements a reader gets, and what storing does to an element.\<close>

fun elems :: "f16_conv \<Rightarrow> layer_buf \<Rightarrow> row" where
  "elems fc (BufF32 v) = v"
| "elems fc (BufF16 v) = map (fc_to_f32 fc) v"

fun buf_dtype :: "layer_buf \<Rightarrow> kv_dtype" where
  "buf_dtype (BufF32 _) = DtF32"
| "buf_dtype (BufF16 _) = DtF16"

fun enc_of :: "f16_conv \<Rightarrow> kv_dtype \<Rightarrow> u32 \<Rightarrow> u32" where
  "enc_of fc DtF32 x = x"
| "enc_of fc DtF16 x = fc_to_f32 fc (fc_from_f32 fc x)"

fun zero_of :: "f16_conv \<Rightarrow> kv_dtype \<Rightarrow> u32" where
  "zero_of fc DtF32 = 0"
| "zero_of fc DtF16 = fc_to_f32 fc 0"

lemma enc_of_F32 [simp]: "enc_of fc DtF32 = (\<lambda>x. x)"
  by (rule ext) simp

lemma enc_of_F16 [simp]: "enc_of fc DtF16 = fc_to_f32 fc \<circ> fc_from_f32 fc"
  by (rule ext) simp

fun buf_len :: "layer_buf \<Rightarrow> nat" where
  "buf_len (BufF32 v) = length v"
| "buf_len (BufF16 v) = length v"

lemma length_elems [simp]: "length (elems fc b) = buf_len b"
  by (cases b) simp_all

lemma buf_new_simps [simp]: "elems fc (buf_new dt) = []" "buf_dtype (buf_new dt) = dt"
  by (cases dt; simp)+

lemma buf_grow_simps:
  "elems fc (buf_grow_to n b) = elems fc b @ replicate (n - length (elems fc b)) (zero_of fc (buf_dtype b))"
  "buf_dtype (buf_grow_to n b) = buf_dtype b"
  by (cases b; simp)+

lemma buf_write_at_eq:
  "buf_write_at fc off src b = Some b' \<Longrightarrow>
     off + length src \<le> length (elems fc b) \<and> buf_dtype b' = buf_dtype b \<and>
     elems fc b' = take off (elems fc b) @ map (enc_of fc (buf_dtype b)) src @
       drop (off + length src) (elems fc b)"
  by (cases b) (auto simp: take_map drop_map split: if_splits)

lemma buf_write_at_Some:
  "off + length src \<le> length (elems fc b) \<Longrightarrow> \<exists>b'. buf_write_at fc off src b = Some b'"
  by (cases b) auto

lemma buf_copy_eq: "buf_copy_f32_prefix fc n b = take n (elems fc b)"
  by (cases b) (simp_all add: take_map min_def)

lemma buf_prefix_eq: "buf_as_f32_prefix n b = (if buf_dtype b = DtF32 then Some (take n (elems fc b)) else None)"
  by (cases b) (simp_all add: min_def)

lemma buf_read_row_eq:
  "off + n \<le> length (elems fc b) \<Longrightarrow> buf_read_row fc off n b = Some (take n (drop off (elems fc b)))"
  by (cases b) (simp_all add: take_map drop_map)

section \<open>Invariant\<close>

definition bufs_ok :: "kv_cache \<Rightarrow> layer_buf list \<Rightarrow> bool" where
  "bufs_ok c bufs \<longleftrightarrow> length bufs = kc_num_layers c \<and>
     list_all (\<lambda>b. buf_dtype b = kc_dtype c \<and> buf_len b = kc_capacity_tokens c * kc_kv_dim c) bufs"

definition kv_inv :: "kv_cache \<Rightarrow> bool" where
  "kv_inv c \<longleftrightarrow> bufs_ok c (kc_keys c) \<and> bufs_ok c (kc_values c) \<and>
     kc_capacity_tokens c \<le> kc_max_seq_len c \<and> 1 \<le> kc_block_tokens c \<and>
     kc_seq_len c \<le> kc_stored_len c \<and> kc_stored_len c \<le> kc_seq_len c + 1 \<and>
     kc_stored_len c \<le> kc_max_seq_len c"

lemma kv_with_dtype_inv: "kv_inv (kv_with_dtype n m d dt)"
  by (cases dt) (auto simp: kv_inv_def kv_with_dtype_def bufs_ok_def list_all_iff)

lemma kv_clear_inv: "kv_inv c \<Longrightarrow> kv_inv (kv_clear c)"
  by (simp add: kv_inv_def kv_clear_def bufs_ok_def)

lemma kv_release_inv: "kv_inv c \<Longrightarrow> kv_inv (kv_clear_and_release c)"
  by (cases "kc_dtype c") (simp_all add: kv_inv_def kv_clear_and_release_def bufs_ok_def list_all_iff)

lemma kv_truncate_inv: "kv_inv c \<Longrightarrow> kv_inv (kv_truncate n c)"
  by (auto simp: kv_inv_def kv_truncate_def bufs_ok_def Let_def)

lemma kv_advance_inv: "kv_inv c \<Longrightarrow> kv_inv (kv_advance c)"
  by (auto simp: kv_inv_def kv_advance_def bufs_ok_def Let_def)

text \<open>Growth keeps the invariant, covers what was asked for, and only appends.\<close>

lemma buf_grow_len: "buf_len (buf_grow_to n b) = max n (buf_len b)"
  by (cases b) auto

lemma kv_ensure_target:
  assumes "kv_inv c" and "tokens \<le> kc_max_seq_len c"
  shows "tokens \<le> kc_capacity_tokens (kv_ensure_capacity tokens c)"
    and "kc_capacity_tokens c \<le> kc_capacity_tokens (kv_ensure_capacity tokens c)"
    and "kc_capacity_tokens (kv_ensure_capacity tokens c) \<le> kc_max_seq_len c"
  using assms by (auto simp: kv_ensure_capacity_def Let_def kv_inv_def)

lemma kv_ensure_params [simp]:
  "kc_seq_len (kv_ensure_capacity t c) = kc_seq_len c"
  "kc_stored_len (kv_ensure_capacity t c) = kc_stored_len c"
  "kc_block_tokens (kv_ensure_capacity t c) = kc_block_tokens c"
  "kc_max_seq_len (kv_ensure_capacity t c) = kc_max_seq_len c"
  "kc_kv_dim (kv_ensure_capacity t c) = kc_kv_dim c"
  "kc_num_layers (kv_ensure_capacity t c) = kc_num_layers c"
  "kc_dtype (kv_ensure_capacity t c) = kc_dtype c"
  by (simp_all add: kv_ensure_capacity_def Let_def)

lemma kv_ensure_inv:
  assumes inv: "kv_inv c" and small: "tokens \<le> kc_max_seq_len c"
  shows "kv_inv (kv_ensure_capacity tokens c)"
proof (cases "tokens \<le> kc_capacity_tokens c")
  case True
  then show ?thesis using inv by (simp add: kv_ensure_capacity_def)
next
  case False
  let ?c = "kv_ensure_capacity tokens c"
  let ?n = "kc_capacity_tokens ?c * kc_kv_dim c"
  have bufs: "kc_keys ?c = map (buf_grow_to ?n) (kc_keys c)"
    "kc_values ?c = map (buf_grow_to ?n) (kc_values c)"
    using False by (simp_all add: kv_ensure_capacity_def Let_def)
  have "kc_capacity_tokens c * kc_kv_dim c \<le> ?n"
    by (rule mult_le_mono1) (rule kv_ensure_target(2) [OF assms])
  then have "bufs_ok ?c (kc_keys ?c)" and "bufs_ok ?c (kc_values ?c)"
    using inv by (auto simp: bufs kv_inv_def bufs_ok_def list_all_iff buf_grow_len buf_grow_simps)
  then show ?thesis
    using inv kv_ensure_target [OF assms] by (simp add: kv_inv_def)
qed

lemma kv_ensure_elems:
  assumes inv: "kv_inv c" and l: "l < kc_num_layers c"
  shows "\<exists>z. elems fc (kc_keys (kv_ensure_capacity t c) ! l) = elems fc (kc_keys c ! l) @ z"
    and "\<exists>z. elems fc (kc_values (kv_ensure_capacity t c) ! l) = elems fc (kc_values c ! l) @ z"
  using assms
  by (auto simp: kv_ensure_capacity_def Let_def kv_inv_def bufs_ok_def buf_grow_simps)

section \<open>Rows\<close>

definition kv_row :: "f16_conv \<Rightarrow> (kv_cache \<Rightarrow> layer_buf list) \<Rightarrow> kv_cache \<Rightarrow> nat \<Rightarrow> nat \<Rightarrow> row" where
  "kv_row fc sel c l p = take (kc_kv_dim c) (drop (p * kc_kv_dim c) (elems fc (sel c ! l)))"

definition kv_backed :: "kv_cache \<Rightarrow> nat \<Rightarrow> nat \<Rightarrow> bool" where
  "kv_backed c l p \<longleftrightarrow> l < kc_num_layers c \<and> p < kc_capacity_tokens c"

definition is_side :: "(kv_cache \<Rightarrow> layer_buf list) \<Rightarrow> bool" where
  "is_side sel \<longleftrightarrow> sel = kc_keys \<or> sel = kc_values"

lemma side_buf:
  assumes "kv_inv c" and "is_side sel" and "l < kc_num_layers c"
  shows "length (sel c) = kc_num_layers c" and "buf_dtype (sel c ! l) = kc_dtype c"
    and "buf_len (sel c ! l) = kc_capacity_tokens c * kc_kv_dim c"
  using assms by (auto simp: is_side_def kv_inv_def bufs_ok_def list_all_length)

lemma kv_ensure_row:
  assumes inv: "kv_inv c" and sel: "is_side sel" and b: "kv_backed c l p"
  shows "kv_row fc sel (kv_ensure_capacity t c) l p = kv_row fc sel c l p"
proof -
  have l: "l < kc_num_layers c" and p: "p < kc_capacity_tokens c" using b by (auto simp: kv_backed_def)
  obtain z where "elems fc (sel (kv_ensure_capacity t c) ! l) = elems fc (sel c ! l) @ z"
    using kv_ensure_elems [OF inv l, of fc t] sel by (auto simp: is_side_def)
  then show ?thesis
    using side_buf(3) [OF inv sel l] row_fits [OF p, of "kc_kv_dim c"] by (simp add: kv_row_def)
qed

text \<open>Writing one row of one layer.\<close>

lemma write_layer_row:
  assumes w: "write_layer fc l (p * d) src bufs = Inr bufs'" and src: "length src = d"
  shows "length bufs' = length bufs" and "l < length bufs"
    and "m \<noteq> l \<Longrightarrow> bufs' ! m = bufs ! m"
    and "buf_dtype (bufs' ! l) = buf_dtype (bufs ! l)" and "buf_len (bufs' ! l) = buf_len (bufs ! l)"
    and "take d (drop (p * d) (elems fc (bufs' ! l))) = map (enc_of fc (buf_dtype (bufs ! l))) src"
    and "q \<noteq> p \<Longrightarrow> q * d + d \<le> buf_len (bufs ! l) \<Longrightarrow>
      take d (drop (q * d) (elems fc (bufs' ! l))) = take d (drop (q * d) (elems fc (bufs ! l)))"
proof -
  from w obtain b where l: "l < length bufs" and b: "buf_write_at fc (p * d) src (bufs ! l) = Some b"
    and bufs': "bufs' = bufs[l := b]"
    by (auto simp: write_layer_def and_then_Inr_iff ok_or_Inr_iff split: if_splits)
  note e = buf_write_at_eq [OF b, unfolded src, simplified]
  show "length bufs' = length bufs" and "l < length bufs" and "m \<noteq> l \<Longrightarrow> bufs' ! m = bufs ! m"
    and "buf_dtype (bufs' ! l) = buf_dtype (bufs ! l)"
    using l e by (simp_all add: bufs')
  have "length (elems fc b) = length (elems fc (bufs ! l))" using e src by simp
  then show "buf_len (bufs' ! l) = buf_len (bufs ! l)" using l by (simp add: bufs')
  have new: "length (map (enc_of fc (buf_dtype (bufs ! l))) src) = d"
    and fits: "p * d + d \<le> length (elems fc (bufs ! l))" using e src by simp_all
  show "take d (drop (p * d) (elems fc (bufs' ! l))) = map (enc_of fc (buf_dtype (bufs ! l))) src"
    using window_same [OF new fits] e l by (simp add: bufs')
  assume q: "q \<noteq> p" "q * d + d \<le> buf_len (bufs ! l)"
  then have "q * d + d \<le> length (elems fc (bufs ! l))" by simp
  moreover have "p * d + d \<le> q * d \<or> q * d + d \<le> p * d" using q(1) by (intro rows_apart) auto
  ultimately show "take d (drop (q * d) (elems fc (bufs' ! l))) = take d (drop (q * d) (elems fc (bufs ! l)))"
    using window_other [OF new fits] e l by (simp add: bufs')
qed

lemma write_layer_ok:
  assumes "l < length bufs" and "off + length src \<le> buf_len (bufs ! l)"
  shows "\<exists>bufs'. write_layer fc l off src bufs = Inr bufs'"
  using assms buf_write_at_Some [of off src fc "bufs ! l"] by (auto simp: write_layer_def)

lemma kv_store_kv_Inr:
  assumes "kv_store_kv fc l k v c = Inr c'"
  obtains ks vs where "l < kc_num_layers c" and "kc_seq_len c < kc_max_seq_len c"
    and "kc_kv_dim c \<le> length k" and "kc_kv_dim c \<le> length v"
    and "write_layer fc l (kc_seq_len c * kc_kv_dim c) (take (kc_kv_dim c) k)
           (kc_keys (kv_ensure_capacity (kc_seq_len c + 1) c)) = Inr ks"
    and "write_layer fc l (kc_seq_len c * kc_kv_dim c) (take (kc_kv_dim c) v)
           (kc_values (kv_ensure_capacity (kc_seq_len c + 1) c)) = Inr vs"
    and "c' = (kv_ensure_capacity (kc_seq_len c + 1) c)\<lparr>kc_keys := ks, kc_values := vs,
           kc_stored_len := max (kc_stored_len c) (kc_seq_len c + 1)\<rparr>"
proof -
  from assms obtain ks vs where st: "l < kc_num_layers c" "kc_seq_len c < kc_max_seq_len c"
      "kc_kv_dim c \<le> length k" "kc_kv_dim c \<le> length v"
      "write_layer fc l (kc_seq_len c * kc_kv_dim c) (take (kc_kv_dim c) k)
           (kc_keys (kv_ensure_capacity (kc_seq_len c + 1) c)) = Inr ks"
      "write_layer fc l (kc_seq_len c * kc_kv_dim c) (take (kc_kv_dim c) v)
           (kc_values (kv_ensure_capacity (kc_seq_len c + 1) c)) = Inr vs"
    and c': "c' = (let c = (kv_ensure_capacity (kc_seq_len c + 1) c)\<lparr>kc_keys := ks, kc_values := vs\<rparr>
      in if kc_stored_len c \<le> kc_seq_len c then c\<lparr>kc_stored_len := kc_seq_len c + 1\<rparr> else c)"
    by (auto simp: kv_store_kv_def and_then_Inr_iff Let_def not_le not_less split: if_splits)
  have "c' = (kv_ensure_capacity (kc_seq_len c + 1) c)\<lparr>kc_keys := ks, kc_values := vs,
           kc_stored_len := max (kc_stored_len c) (kc_seq_len c + 1)\<rparr>"
    unfolding c' Let_def by (simp add: max_def)
  with st show thesis by (rule that)
qed

lemma write_layer_bufs_ok:
  assumes w: "write_layer fc l (p * d) src bufs = Inr bufs'" and src: "length src = d"
    and ok: "bufs_ok c bufs"
  shows "bufs_ok c bufs'"
  unfolding bufs_ok_def list_all_length
proof (intro conjI allI impI)
  note s = write_layer_row [OF w src]
  show "length bufs' = kc_num_layers c" using s(1) ok by (simp add: bufs_ok_def)
  fix m assume "m < length bufs'"
  then have "m < length bufs" using s(1) by simp
  then have "buf_dtype (bufs ! m) = kc_dtype c \<and> buf_len (bufs ! m) = kc_capacity_tokens c * kc_kv_dim c"
    using ok by (simp add: bufs_ok_def list_all_length)
  then show "buf_dtype (bufs' ! m) = kc_dtype c"
    and "buf_len (bufs' ! m) = kc_capacity_tokens c * kc_kv_dim c"
    using s(3) [of m] s(4,5) by (cases "m = l"; simp)+
qed

lemma values_not_keys: "(kc_values :: kv_cache \<Rightarrow> layer_buf list) \<noteq> kc_keys"
proof
  assume "(kc_values :: kv_cache \<Rightarrow> layer_buf list) = kc_keys"
  then have "kc_values ((kv_new 0 0 0)\<lparr>kc_keys := [BufF32 []]\<rparr>) =
      kc_keys ((kv_new 0 0 0)\<lparr>kc_keys := [BufF32 []]\<rparr>)" by (rule fun_cong)
  then show False by (simp add: kv_new_def kv_with_dtype_def)
qed

lemma kv_store_side:
  assumes st: "kv_store_kv fc l k v c = Inr c'" and sel: "is_side sel"
  shows "\<exists>src. length src = kc_kv_dim c \<and>
      write_layer fc l (kc_seq_len c * kc_kv_dim c) src
        (sel (kv_ensure_capacity (kc_seq_len c + 1) c)) = Inr (sel c') \<and>
      src = take (kc_kv_dim c) (if sel = kc_keys then k else v)"
proof -
  let ?e = "kv_ensure_capacity (kc_seq_len c + 1) c"
  obtain ks vs where len: "kc_kv_dim c \<le> length k" "kc_kv_dim c \<le> length v"
    and k: "write_layer fc l (kc_seq_len c * kc_kv_dim c) (take (kc_kv_dim c) k) (kc_keys ?e) = Inr ks"
    and v: "write_layer fc l (kc_seq_len c * kc_kv_dim c) (take (kc_kv_dim c) v) (kc_values ?e) = Inr vs"
    and c': "c' = ?e\<lparr>kc_keys := ks, kc_values := vs,
           kc_stored_len := max (kc_stored_len c) (kc_seq_len c + 1)\<rparr>"
    using st by (rule kv_store_kv_Inr)
  have "kc_keys c' = ks" "kc_values c' = vs" by (simp_all add: c')
  with len k v values_not_keys show ?thesis
    using sel unfolding is_side_def by (elim disjE) simp_all
qed

lemma kv_store_shape:
  assumes inv: "kv_inv c" and st: "kv_store_kv fc l k v c = Inr c'"
  shows "kv_inv c'" and "kc_seq_len c' = kc_seq_len c" and "kc_max_seq_len c' = kc_max_seq_len c"
    and "kc_kv_dim c' = kc_kv_dim c" and "kc_num_layers c' = kc_num_layers c"
    and "kc_dtype c' = kc_dtype c" and "kc_seq_len c < kc_max_seq_len c" and "l < kc_num_layers c"
    and "kc_capacity_tokens c' = kc_capacity_tokens (kv_ensure_capacity (kc_seq_len c + 1) c)"
proof -
  let ?e = "kv_ensure_capacity (kc_seq_len c + 1) c"
  obtain ks vs where 1: "l < kc_num_layers c" "kc_seq_len c < kc_max_seq_len c"
      "kc_kv_dim c \<le> length k" "kc_kv_dim c \<le> length v"
    and k: "write_layer fc l (kc_seq_len c * kc_kv_dim c) (take (kc_kv_dim c) k) (kc_keys ?e) = Inr ks"
    and v: "write_layer fc l (kc_seq_len c * kc_kv_dim c) (take (kc_kv_dim c) v) (kc_values ?e) = Inr vs"
    and c': "c' = ?e\<lparr>kc_keys := ks, kc_values := vs,
           kc_stored_len := max (kc_stored_len c) (kc_seq_len c + 1)\<rparr>"
    using st by (rule kv_store_kv_Inr)
  have e: "kv_inv ?e" using 1 by (intro kv_ensure_inv [OF inv]) simp
  have "bufs_ok ?e ks"
    using write_layer_bufs_ok [OF k] 1(3) e by (simp add: kv_inv_def)
  moreover have "bufs_ok ?e vs"
    using write_layer_bufs_ok [OF v] 1(4) e by (simp add: kv_inv_def)
  ultimately show "kv_inv c'"
    using e 1(2) inv by (auto simp: c' kv_inv_def bufs_ok_def)
  show "kc_seq_len c' = kc_seq_len c" "kc_max_seq_len c' = kc_max_seq_len c"
    "kc_kv_dim c' = kc_kv_dim c" "kc_num_layers c' = kc_num_layers c" "kc_dtype c' = kc_dtype c"
    "kc_seq_len c < kc_max_seq_len c" "l < kc_num_layers c"
    "kc_capacity_tokens c' = kc_capacity_tokens ?e"
    using 1 by (simp_all add: c')
qed

lemma kv_store_rows:
  assumes inv: "kv_inv c" and st: "kv_store_kv fc l k v c = Inr c'" and sel: "is_side sel"
  shows "kv_row fc sel c' l (kc_seq_len c) =
      map (enc_of fc (kc_dtype c)) (take (kc_kv_dim c) (if sel = kc_keys then k else v))"
    and "kv_backed c l' p \<Longrightarrow> (l', p) \<noteq> (l, kc_seq_len c) \<Longrightarrow>
      kv_row fc sel c' l' p = kv_row fc sel c l' p"
proof -
  let ?e = "kv_ensure_capacity (kc_seq_len c + 1) c" and ?d = "kc_kv_dim c"
  note sh = kv_store_shape [OF inv st]
  have e: "kv_inv ?e" using sh(7) by (intro kv_ensure_inv [OF inv]) simp
  obtain src where src: "length src = ?d" "src = take ?d (if sel = kc_keys then k else v)"
    and w: "write_layer fc l (kc_seq_len c * ?d) src (sel ?e) = Inr (sel c')"
    using kv_store_side [OF st sel] by blast
  note row = write_layer_row [OF w src(1)]
  have lb: "buf_dtype (sel ?e ! l) = kc_dtype c"
    and len: "m < kc_num_layers c \<Longrightarrow> buf_len (sel ?e ! m) = kc_capacity_tokens ?e * ?d" for m
    using side_buf(2,3) [OF e sel] sh(8) by simp_all
  show "kv_row fc sel c' l (kc_seq_len c) =
      map (enc_of fc (kc_dtype c)) (take ?d (if sel = kc_keys then k else v))"
    using row(6) lb src(2) by (simp add: kv_row_def sh(4))
  assume b: "kv_backed c l' p" and ne: "(l', p) \<noteq> (l, kc_seq_len c)"
  have "p < kc_capacity_tokens ?e"
    using b kv_ensure_target(2) [OF inv, of "kc_seq_len c + 1"] sh(7) by (simp add: kv_backed_def)
  then have fits: "p * ?d + ?d \<le> buf_len (sel ?e ! l)"
    using len [OF sh(8)] row_fits by simp
  have "kv_row fc sel c' l' p = kv_row fc sel ?e l' p"
  proof (cases "l' = l")
    case True
    with ne have "p \<noteq> kc_seq_len c" by simp
    then show ?thesis using row(7) [OF _ fits] True by (simp add: kv_row_def sh(4))
  next
    case False
    then show ?thesis using row(3) by (simp add: kv_row_def sh(4))
  qed
  then show "kv_row fc sel c' l' p = kv_row fc sel c l' p"
    using kv_ensure_row [OF inv sel b] by simp
qed

lemma kv_store_succeeds:
  assumes inv: "kv_inv c" and l: "l < kc_num_layers c" and full: "kc_seq_len c < kc_max_seq_len c"
    and k: "kc_kv_dim c \<le> length k" and v: "kc_kv_dim c \<le> length v"
  shows "\<exists>c'. kv_store_kv fc l k v c = Inr c'"
proof -
  let ?e = "kv_ensure_capacity (kc_seq_len c + 1) c" and ?d = "kc_kv_dim c"
  have e: "kv_inv ?e" using full by (intro kv_ensure_inv [OF inv]) simp
  have "kc_seq_len c < kc_capacity_tokens ?e"
    using kv_ensure_target(1) [OF inv, of "kc_seq_len c + 1"] full by simp
  then have fits: "kc_seq_len c * ?d + ?d \<le> kc_capacity_tokens ?e * ?d" by (rule row_fits)
  have "is_side kc_keys" "is_side kc_values" by (simp_all add: is_side_def)
  note sb = side_buf [OF e this(1), of l] side_buf [OF e this(2), of l]
  obtain ks where "write_layer fc l (kc_seq_len c * ?d) (take ?d k) (kc_keys ?e) = Inr ks"
    using write_layer_ok [of l "kc_keys ?e" "kc_seq_len c * ?d" "take ?d k" fc] sb l k fits by auto
  moreover obtain vs where "write_layer fc l (kc_seq_len c * ?d) (take ?d v) (kc_values ?e) = Inr vs"
    using write_layer_ok [of l "kc_values ?e" "kc_seq_len c * ?d" "take ?d v" fc] sb l v fits by auto
  ultimately show ?thesis using l full k v by (simp add: kv_store_kv_def Let_def)
qed

text \<open>What a visitor is shown: every stored row, in order.\<close>

lemma read_rows_eq:
  assumes "\<forall>p \<in> set ps. p * d + d \<le> buf_len b"
  shows "read_rows fc b d ps = Inr (map (\<lambda>p. (p, take d (drop (p * d) (elems fc b)))) ps)"
  using assms by (induction ps) (simp_all add: buf_read_row_eq)

lemma kv_for_each_row_eq:
  assumes inv: "kv_inv c" and sel: "is_side sel" and l: "l < kc_num_layers c" and d: "0 < kc_kv_dim c"
    and b: "\<forall>p < kc_stored_len c. kv_backed c l p"
  shows "kv_for_each_row fc sel c l = Inr (map (\<lambda>p. (p, kv_row fc sel c l p)) [0..<kc_stored_len c])"
proof -
  let ?d = "kc_kv_dim c" and ?n = "kc_stored_len c" and ?b = "sel c ! l"
  note sb = side_buf [OF inv sel l]
  have n: "?n \<le> kc_capacity_tokens c"
    using b by (cases ?n) (auto simp: kv_backed_def Suc_le_eq)
  show ?thesis
  proof (cases "kc_dtype c = DtF32")
    case True
    let ?es = "take (?n * ?d) (elems fc ?b)"
    have len: "length ?es = ?n * ?d" using sb(3) n by simp
    have "enumerated (chunks_exact ?n ?d ?es) = map (\<lambda>p. (p, kv_row fc sel c l p)) [0..<?n]"
      unfolding enumerated_def
    proof (rule nth_equalityI)
      fix i assume "i < length (zip [0..<length (chunks_exact ?n ?d ?es)] (chunks_exact ?n ?d ?es))"
      then have i: "i < ?n" by simp
      have "take ?d (drop (i * ?d) ?es) = take ?d (drop (i * ?d) (elems fc ?b))"
        using row_fits [OF i, of ?d] by (simp add: drop_take min_def)
      then show "zip [0..<length (chunks_exact ?n ?d ?es)] (chunks_exact ?n ?d ?es) ! i =
          map (\<lambda>p. (p, kv_row fc sel c l p)) [0..<?n] ! i"
        using i by (simp add: chunks_exact_nth kv_row_def)
    qed simp
    then show ?thesis
      using True sb d l len by (simp add: kv_for_each_row_def buf_prefix_eq [where fc = fc])
  next
    case False
    have "\<forall>p \<in> set [0..<?n]. p * ?d + ?d \<le> buf_len ?b"
      using sb(3) n row_fits by auto
    from read_rows_eq [OF this] False sb d l
    show ?thesis by (simp add: kv_for_each_row_def buf_prefix_eq [where fc = fc] kv_row_def)
  qed
qed

section \<open>The contract\<close>

definition kv_settled :: "kv_cache \<Rightarrow> bool" where
  "kv_settled c \<longleftrightarrow> kc_stored_len c = kc_seq_len c"

definition kv_inv_dt :: "kv_dtype \<Rightarrow> kv_cache \<Rightarrow> bool" where
  "kv_inv_dt dt c \<longleftrightarrow> kv_inv c \<and> kc_dtype c = dt"

lemma sides: "is_side kc_keys" "is_side kc_values"
  by (simp_all add: is_side_def)

lemma kv_advance_rows:
  "is_side sel \<Longrightarrow> kv_row fc sel (kv_advance c) = kv_row fc sel c \<and> kv_backed (kv_advance c) = kv_backed c"
  by (auto simp: kv_advance_def Let_def kv_row_def kv_backed_def is_side_def fun_eq_iff)

lemma kv_truncate_rows:
  "is_side sel \<Longrightarrow>
   kv_row fc sel (kv_truncate n c) = kv_row fc sel c \<and> kv_backed (kv_truncate n c) = kv_backed c"
  by (auto simp: kv_truncate_def Let_def kv_row_def kv_backed_def is_side_def fun_eq_iff)

interpretation contig: kv_rollback "kv_store_kv fc" kv_advance "kv_for_each_key fc" "kv_for_each_value fc"
  kc_seq_len kc_max_seq_len kc_kv_dim kc_num_layers "kv_inv_dt dt" kv_settled
  "kv_row fc kc_keys" "kv_row fc kc_values" kv_backed "enc_of fc dt" kv_truncate
  for fc :: f16_conv and dt :: kv_dtype
proof unfold_locales
  fix c c' :: kv_cache and l l' p n :: nat and k v :: row
  assume inv_dt: "kv_inv_dt dt c"
  then have inv: "kv_inv c" and dt: "kc_dtype c = dt" by (simp_all add: kv_inv_dt_def)
  show "\<exists>c'. kv_store_kv fc l k v c = Inr c'"
    if "l < kc_num_layers c" "kc_seq_len c < kc_max_seq_len c" "kc_kv_dim c \<le> length k" "kc_kv_dim c \<le> length v"
    by (rule kv_store_succeeds [OF inv that])
  {
    assume st: "kv_store_kv fc l k v c = Inr c'"
    note sh = kv_store_shape [OF inv st]
    show "kv_inv_dt dt c' \<and> kc_seq_len c' = kc_seq_len c \<and> kc_max_seq_len c' = kc_max_seq_len c \<and>
        kc_kv_dim c' = kc_kv_dim c \<and> kc_num_layers c' = kc_num_layers c"
      using sh dt by (simp add: kv_inv_dt_def)
    have cap: "kc_seq_len c < kc_capacity_tokens c'" "kc_capacity_tokens c \<le> kc_capacity_tokens c'"
      using kv_ensure_target(1,2) [OF inv, of "kc_seq_len c + 1"] sh(7,9) by simp_all
    show "kv_backed c' l (kc_seq_len c) \<and>
        kv_row fc kc_keys c' l (kc_seq_len c) = map (enc_of fc dt) (take (kc_kv_dim c) k) \<and>
        kv_row fc kc_values c' l (kc_seq_len c) = map (enc_of fc dt) (take (kc_kv_dim c) v)"
      using kv_store_rows(1) [OF inv st sides(1)] kv_store_rows(1) [OF inv st sides(2)]
        values_not_keys dt cap sh(5,8) by (simp add: kv_backed_def)
    show "kv_backed c' l' p \<and> kv_row fc kc_keys c' l' p = kv_row fc kc_keys c l' p \<and>
        kv_row fc kc_values c' l' p = kv_row fc kc_values c l' p"
      if "kv_backed c l' p" "(l', p) \<noteq> (l, kc_seq_len c)"
      using kv_store_rows(2) [OF inv st sides(1) that] kv_store_rows(2) [OF inv st sides(2) that]
        that(1) cap sh(5) by (simp add: kv_backed_def)
  }
  show "kv_inv_dt dt (kv_advance c) \<and> kc_seq_len (kv_advance c) = kc_seq_len c + 1 \<and>
      kc_max_seq_len (kv_advance c) = kc_max_seq_len c \<and> kc_kv_dim (kv_advance c) = kc_kv_dim c \<and>
      kc_num_layers (kv_advance c) = kc_num_layers c \<and> kv_settled (kv_advance c)"
    if "kc_seq_len c < kc_max_seq_len c"
    using kv_advance_inv [OF inv] inv dt that
    by (auto simp: kv_inv_dt_def kv_advance_def Let_def kv_settled_def kv_inv_def)
  show "kv_row fc kc_keys (kv_advance c) = kv_row fc kc_keys c \<and>
      kv_row fc kc_values (kv_advance c) = kv_row fc kc_values c \<and> kv_backed (kv_advance c) = kv_backed c"
    using kv_advance_rows sides by simp
  show "kv_inv_dt dt (kv_truncate n c) \<and> kv_settled (kv_truncate n c) \<and>
      kc_seq_len (kv_truncate n c) = min n (kc_seq_len c) \<and>
      kc_max_seq_len (kv_truncate n c) = kc_max_seq_len c \<and> kc_kv_dim (kv_truncate n c) = kc_kv_dim c \<and>
      kc_num_layers (kv_truncate n c) = kc_num_layers c"
    using kv_truncate_inv [OF inv] dt
    by (simp add: kv_inv_dt_def kv_truncate_def Let_def kv_settled_def)
  show "kv_row fc kc_keys (kv_truncate n c) = kv_row fc kc_keys c \<and>
      kv_row fc kc_values (kv_truncate n c) = kv_row fc kc_values c \<and>
      kv_backed (kv_truncate n c) = kv_backed c"
    using kv_truncate_rows sides by simp
  assume se: "kv_settled c" and d: "0 < kc_kv_dim c" and l: "l < kc_num_layers c"
    and b: "\<forall>p < kc_seq_len c. kv_backed c l p"
  then have b': "\<forall>p < kc_stored_len c. kv_backed c l p" by (simp add: kv_settled_def)
  show "kv_for_each_key fc c l = Inr (map (\<lambda>p. (p, kv_row fc kc_keys c l p)) [0..<kc_seq_len c])"
    using kv_for_each_row_eq [OF inv sides(1) l d b'] se by (simp add: kv_for_each_key_def kv_settled_def)
  show "kv_for_each_value fc c l = Inr (map (\<lambda>p. (p, kv_row fc kc_values c l p)) [0..<kc_seq_len c])"
    using kv_for_each_row_eq [OF inv sides(2) l d b'] se by (simp add: kv_for_each_value_def kv_settled_def)
qed

section \<open>Snapshots restore\<close>

lemma check_layers_ok:
  "(\<forall>l \<in> set ls. n \<le> length (ks ! l) \<and> n \<le> length (vs ! l)) \<Longrightarrow> check_layers ls n ks vs = Inr ()"
  by (induction ls) auto

lemma copy_layers_ok:
  assumes "distinct ls" and "\<forall>l \<in> set ls. l < length bufs \<and> n \<le> length (src ! l) \<and> n \<le> buf_len (bufs ! l)"
  shows "\<exists>bufs'. copy_layers fc ls n src bufs = Inr bufs' \<and> length bufs' = length bufs \<and>
    (\<forall>m. buf_dtype (bufs' ! m) = buf_dtype (bufs ! m) \<and> buf_len (bufs' ! m) = buf_len (bufs ! m) \<and>
      (if m \<in> set ls
       then take n (elems fc (bufs' ! m)) = map (enc_of fc (buf_dtype (bufs ! m))) (take n (src ! m))
       else bufs' ! m = bufs ! m))"
  using assms
proof (induction ls arbitrary: bufs)
  case Nil
  then show ?case by simp
next
  case (Cons l ls)
  have l: "l < length bufs" "n \<le> length (src ! l)" "n \<le> buf_len (bufs ! l)" using Cons.prems(2) by auto
  then have src: "length (take n (src ! l)) = n" by simp
  obtain b1 where w: "write_layer fc l (0 * n) (take n (src ! l)) bufs = Inr b1"
    using write_layer_ok [of l bufs 0 "take n (src ! l)" fc] l by auto
  note r = write_layer_row [OF w src]
  have dt: "buf_dtype (b1 ! m) = buf_dtype (bufs ! m) \<and> buf_len (b1 ! m) = buf_len (bufs ! m)" for m
    using r(3) [of m] r(4,5) by (cases "m = l") simp_all
  have "\<forall>l \<in> set ls. l < length b1 \<and> n \<le> length (src ! l) \<and> n \<le> buf_len (b1 ! l)"
    using Cons.prems(2) r(1) dt by simp
  then obtain b' where b': "copy_layers fc ls n src b1 = Inr b'" "length b' = length b1"
    and each: "\<And>m. buf_dtype (b' ! m) = buf_dtype (b1 ! m) \<and> buf_len (b' ! m) = buf_len (b1 ! m) \<and>
      (if m \<in> set ls
       then take n (elems fc (b' ! m)) = map (enc_of fc (buf_dtype (b1 ! m))) (take n (src ! m))
       else b' ! m = b1 ! m)"
    using Cons.IH [of b1] Cons.prems(1) by auto
  have "if m \<in> set (l # ls)
       then take n (elems fc (b' ! m)) = map (enc_of fc (buf_dtype (bufs ! m))) (take n (src ! m))
       else b' ! m = bufs ! m" for m
    using each [of m] dt [of m] r(3) [of m] r(6) Cons.prems(1) by (cases "m = l") auto
  then show ?case using w b' r(1) each dt by (intro exI [of _ b']) simp
qed

text \<open>Restoring a snapshot makes exactly the snapshot's rows readable.\<close>

lemma kv_restore_holds:
  assumes inv: "kv_inv c" and n: "n \<le> kc_max_seq_len c"
    and ks: "length ks = kc_num_layers c" "\<forall>l < kc_num_layers c. n * kc_kv_dim c \<le> length (ks ! l)"
    and vs: "length vs = kc_num_layers c" "\<forall>l < kc_num_layers c. n * kc_kv_dim c \<le> length (vs ! l)"
  shows "\<exists>c'. kv_restore_from_snapshot fc ks vs n c = Inr c' \<and> kv_inv c' \<and> kc_seq_len c' = n \<and>
    kc_stored_len c' = n \<and> kc_num_layers c' = kc_num_layers c \<and> kc_kv_dim c' = kc_kv_dim c \<and>
    (\<forall>l < kc_num_layers c.
      kv_copy_keys_into fc c' l =
        Inr (map (enc_of fc (kc_dtype c)) (take (n * kc_kv_dim c) (ks ! l))) \<and>
      kv_copy_values_into fc c' l =
        Inr (map (enc_of fc (kc_dtype c)) (take (n * kc_kv_dim c) (vs ! l))))"
proof -
  let ?e = "kv_ensure_capacity n c" and ?n = "n * kc_kv_dim c" and ?L = "[0..<kc_num_layers c]"
  have e: "kv_inv ?e" by (rule kv_ensure_inv [OF inv n])
  have "?n \<le> kc_capacity_tokens ?e * kc_kv_dim c"
    by (rule mult_le_mono1) (rule kv_ensure_target(1) [OF inv n])
  then have fit: "\<forall>l \<in> set ?L. l < length (kc_keys ?e) \<and> ?n \<le> buf_len (kc_keys ?e ! l) \<and>
      l < length (kc_values ?e) \<and> ?n \<le> buf_len (kc_values ?e ! l)"
    using side_buf(1,3) [OF e sides(1)] side_buf(1,3) [OF e sides(2)] by simp
  have dts: "\<forall>l \<in> set ?L. buf_dtype (kc_keys ?e ! l) = kc_dtype c \<and> buf_dtype (kc_values ?e ! l) = kc_dtype c"
    using side_buf(2) [OF e sides(1)] side_buf(2) [OF e sides(2)] by simp
  obtain kb where kb: "copy_layers fc ?L ?n ks (kc_keys ?e) = Inr kb" "length kb = length (kc_keys ?e)"
    and k: "\<And>m. buf_dtype (kb ! m) = buf_dtype (kc_keys ?e ! m) \<and> buf_len (kb ! m) = buf_len (kc_keys ?e ! m) \<and>
      (if m \<in> set ?L then take ?n (elems fc (kb ! m)) =
         map (enc_of fc (buf_dtype (kc_keys ?e ! m))) (take ?n (ks ! m)) else kb ! m = kc_keys ?e ! m)"
    using copy_layers_ok [of ?L "kc_keys ?e" ?n ks fc] fit ks by auto
  obtain vb where vb: "copy_layers fc ?L ?n vs (kc_values ?e) = Inr vb" "length vb = length (kc_values ?e)"
    and v: "\<And>m. buf_dtype (vb ! m) = buf_dtype (kc_values ?e ! m) \<and> buf_len (vb ! m) = buf_len (kc_values ?e ! m) \<and>
      (if m \<in> set ?L then take ?n (elems fc (vb ! m)) =
         map (enc_of fc (buf_dtype (kc_values ?e ! m))) (take ?n (vs ! m)) else vb ! m = kc_values ?e ! m)"
    using copy_layers_ok [of ?L "kc_values ?e" ?n vs fc] fit vs by auto
  let ?c = "?e\<lparr>kc_keys := kb, kc_values := vb, kc_seq_len := n, kc_stored_len := n\<rparr>"
  have "check_layers ?L ?n ks vs = Inr ()" using ks(2) vs(2) by (intro check_layers_ok) simp
  then have res: "kv_restore_from_snapshot fc ks vs n c = Inr ?c"
    using n ks(1) vs(1) kb(1) vb(1) by (simp add: kv_restore_from_snapshot_def Let_def)
  have "bufs_ok ?e kb" and "bufs_ok ?e vb"
    using e kb(2) vb(2) k v by (simp_all add: kv_inv_def bufs_ok_def list_all_length)
  then have "kv_inv ?c" using e n by (simp add: kv_inv_def bufs_ok_def)
  moreover have "kv_copy_keys_into fc ?c l = Inr (map (enc_of fc (kc_dtype c)) (take ?n (ks ! l))) \<and>
      kv_copy_values_into fc ?c l = Inr (map (enc_of fc (kc_dtype c)) (take ?n (vs ! l)))"
    if "l < kc_num_layers c" for l
    using that k [of l] v [of l] dts kb(2) vb(2) bspec [OF fit, of l]
    by (simp add: kv_copy_keys_into_def kv_copy_values_into_def kv_copy_def buf_copy_eq)
  ultimately show ?thesis using res by simp
qed

end
