(* ===== verification/Kv_Properties.thy ===== *)
theory Kv_Properties
  imports Kv_Pool Kv_Paged Kv_Contig
begin

text \<open>
  The properties of sequence state, of the free-list pools and of the KV caches.
\<close>

section \<open>Sequence state\<close>

text \<open>The position of an attention or Mamba-2 state never passes its capacity: after any
  number of advances from a reset it is the smaller of that number and the capacity.\<close>

theorem positions_saturate:
  "as_position ((attention_advance ^^ n) (attention_reset a)) = min n (as_max_capacity a) \<and>
   m2_position ((mamba2_advance ^^ n) (mamba2_reset m)) = min n (m2_max_capacity m)"
  using attention.advances_saturate [of n a] mamba2.advances_saturate [of n m]
  by (simp add: attention_ops_def mamba2_ops_def)

text \<open>The Jamba state does not keep the trait's rule that a state must not advance past its
  capacity: every number of advances is counted, so one advance more than the capacity leaves
  the position above it, while the checked \<open>try_advance\<close> refuses that step.\<close>

theorem jamba_advances_past_capacity:
  "jb_position ((jamba_advance ^^ n) (jamba_reset s)) = n \<and>
   jb_max_capacity ((jamba_advance ^^ n) (jamba_reset s)) = jb_max_capacity s \<and>
   try_advance jamba_ops ((jamba_advance ^^ jb_max_capacity s) (jamba_reset s)) =
     Inl (ConfigMismatch ''sequence_state.position'' (jb_max_capacity s) (jb_max_capacity s))"
proof -
  have pos: "jb_position ((jamba_advance ^^ k) (jamba_reset s)) = k \<and>
      jb_max_capacity ((jamba_advance ^^ k) (jamba_reset s)) = jb_max_capacity s" for k
    by (induction k) (simp_all add: jamba_advance_def jamba_reset_def)
  then show ?thesis by (simp add: try_advance_def jamba_ops_def Let_def)
qed

text \<open>A Mamba-2 snapshot restored into a state of the same shape gives back the hidden
  vectors of every layer and the position, whatever the state held before.\<close>

theorem mamba2_snapshot_restore:
  assumes "map (length \<circ> sl_h) (m2_layers t) = map (length \<circ> sl_h) (m2_layers s)"
  shows "map sl_h (m2_layers (mamba2_restore (mamba2_snapshot s) t)) = map sl_h (m2_layers s) \<and>
         m2_position (mamba2_restore (mamba2_snapshot s) t) = m2_position s \<and>
         m2_max_capacity (mamba2_restore (mamba2_snapshot s) t) = m2_max_capacity t"
  using zip_update_copy [of "m2_layers t" "map sl_h (m2_layers s)"] assms
  by (simp add: mamba2_snapshot_def)

lemma mamba2_snapshot_restore_witness:
  "map sl_h (m2_layers (mamba2_restore (mamba2_snapshot
       \<lparr>m2_layers = [\<lparr>sl_h = [1, 2], sl_d_state = 1, sl_d_inner = 2\<rparr>], m2_position = 3, m2_max_capacity = 8\<rparr>)
     (mamba2_new 1 1 2 8))) = [[1, 2]]"
proof -
  have "map (length \<circ> sl_h) (m2_layers (mamba2_new 1 1 2 8)) = map (length \<circ> sl_h) (m2_layers
     \<lparr>m2_layers = [\<lparr>sl_h = [1, 2], sl_d_state = 1, sl_d_inner = 2\<rparr>], m2_position = 3, m2_max_capacity = 8\<rparr>)"
    by (simp add: mamba2_new_def ssm_layer_new_def)
  from mamba2_snapshot_restore [OF this] show ?thesis by simp
qed

section \<open>Pools\<close>

text \<open>C37: No KV page ever has two owners: after any sequence of allocations and frees of a new
  pool, the handles held are distinct, they are exactly the pages marked in use, all are in
  range, and the pool has not lost a page.\<close>

theorem kv_pool_exclusive:
  assumes "serve kv_pool_alloc kv_try_free rs (kv_pool_new page_size n, []) = (p, held)"
  shows "distinct held \<and> set held = {i. i < n \<and> kv_pool_is_allocated p i} \<and>
    kv_pool_total_pages p = n \<and> kv_pool_used_pages p = length held \<and>
    kv_pool_free_pages p + kv_pool_used_pages p = n"
proof -
  have new: "kv_live (kv_pool_new page_size n) = {}" and tot: "kv_pool_total_pages (kv_pool_new page_size n) = n"
    by (auto simp: kv_live_def kv_pool_new_def kv_pool_total_pages_def)
  have "kv_pool_inv p \<and> kv_pool_total_pages p = n \<and> distinct held \<and> set held = kv_live p"
    using kv.serve_exclusive [OF kv_pool_new_inv _ _ assms] new tot by simp
  then have inv: "kv_pool_inv p" and n: "length (kp_pages p) = n" and d: "distinct held"
    and h: "set held = kv_live p" by (simp_all add: kv_pool_total_pages_def)
  have live: "kv_live p = {i. i < n \<and> kv_pool_is_allocated p i}"
    using inv n by (auto simp: kv_live_def kv_pool_is_allocated_def kv_pool_inv_def)
  have fl: "distinct (kp_free_list p)" "set (kp_free_list p) \<subseteq> {..<n}"
    using inv n by (auto simp: kv_pool_inv_def)
  have "kv_live p = {..<n} - set (kp_free_list p)" using n by (auto simp: kv_live_def)
  then have "length held = n - length (kp_free_list p)"
    using h d fl by (metis card_Diff_subset card_lessThan distinct_card finite_set)
  moreover have "length (kp_free_list p) \<le> n"
    using fl by (metis card_lessThan card_mono distinct_card finite_lessThan)
  ultimately show ?thesis
    using d h live n
    by (simp add: kv_pool_total_pages_def kv_pool_used_pages_def kv_pool_free_pages_def)
qed

lemma kv_pool_exclusive_witness:
  "\<exists>p held. serve kv_pool_alloc kv_try_free [Alloc, Alloc, Release 1, Release 1, Alloc] (kv_pool_new 4 2, []) =
     (p, held) \<and> distinct held \<and> kv_pool_used_pages p = length held"
proof -
  obtain p held where r: "serve kv_pool_alloc kv_try_free [Alloc, Alloc, Release 1, Release 1, Alloc]
      (kv_pool_new 4 2, []) = (p, held)" by fastforce
  from kv_pool_exclusive [OF r] r show ?thesis by blast
qed

text \<open>No SSM slot ever has two owners either, and a slot handed out is clean: whatever was
  done with the pool, an allocation gives a slot nobody holds, and a slot that was released
  comes back with position 0 and the reset state, bound to the new request.\<close>

theorem ssm_pool_exclusive:
  assumes "ssm_pool_inv p"
  shows "(\<forall>i p'. ssm_pool_alloc rid p = Inr (i, p') \<longrightarrow>
            ssm_pool_inv p' \<and> i \<notin> ssm_live p \<and> ssm_live p' = insert i (ssm_live p) \<and>
            (\<exists>sl. ssm_pool_slot p' i = Some sl \<and> ss_request_id sl = rid)) \<and>
         (\<forall>i p1. ssm_pool_release ops i p = Inr p1 \<longrightarrow>
            ssm_pool_inv p1 \<and> i \<in> ssm_live p \<and> ssm_live p1 = ssm_live p - {i} \<and>
            ssm_pool_release ops i p1 = Inl (InvalidSlot i) \<and>
            (\<exists>p2. ssm_pool_alloc rid p1 = Inr (i, p2) \<and>
               (\<exists>sl. ssm_pool_slot p i = Some sl \<and> ssm_pool_slot p2 i =
                 Some \<lparr>ss_state = so_reset ops (ss_state sl), ss_position = 0, ss_request_id = rid\<rparr>)))"
proof (intro conjI allI impI)
  fix i p' assume al: "ssm_pool_alloc rid p = Inr (i, p')"
  then have "ssm_try_alloc rid p = Some (i, p')" by (simp add: ssm_try_alloc_def)
  note new = ssm.alloc_Some [OF assms this]
  then show "ssm_pool_inv p'" "i \<notin> ssm_live p" "ssm_live p' = insert i (ssm_live p)" by simp_all
  obtain fl where fl: "sp_free_list p = fl @ [i]"
    and p': "p' = update_slot (\<lambda>sl. sl\<lparr>ss_request_id := rid\<rparr>) i (p\<lparr>sp_free_list := fl\<rparr>)"
    using al by (auto simp: ssm_pool_alloc_Inr)
  have i: "i < length (sp_slots p)" using assms fl by (simp add: ssm_pool_inv_def)
  then obtain sl where "sp_slots p ! i = Some sl"
    using assms nth_mem [OF i] by (cases "sp_slots p ! i") (auto simp: ssm_pool_inv_def)
  then show "\<exists>sl. ssm_pool_slot p' i = Some sl \<and> ss_request_id sl = rid"
    using i by (simp add: p' update_slot_def ssm_pool_slot_def)
next
  fix i p1 assume rel: "ssm_pool_release ops i p = Inr p1"
  then have "ssm_try_release ops i p = Some p1" by (simp add: ssm_try_release_def)
  note r = ssm.release_Some [OF assms this] and own = ssm.release_None [OF assms, of ops i]
  then show "ssm_pool_inv p1" "ssm_live p1 = ssm_live p - {i}" by simp_all
  show "i \<in> ssm_live p" using own \<open>ssm_try_release ops i p = Some p1\<close> by simp
  have i: "i < length (sp_slots p)"
    and p1: "p1 = (update_slot (slot_reset ops) i p)\<lparr>sp_free_list := sp_free_list p @ [i]\<rparr>"
    using rel by (auto simp: ssm_pool_release_def split: if_splits)
  show "ssm_pool_release ops i p1 = Inl (InvalidSlot i)"
    using i by (simp add: p1 ssm_pool_release_def update_slot_def)
  obtain sl where sl: "sp_slots p ! i = Some sl"
    using assms nth_mem [OF i] by (cases "sp_slots p ! i") (auto simp: ssm_pool_inv_def)
  let ?p2 = "update_slot (\<lambda>sl. sl\<lparr>ss_request_id := rid\<rparr>) i (p1\<lparr>sp_free_list := sp_free_list p\<rparr>)"
  have "ssm_pool_alloc rid p1 = Inr (i, ?p2)"
    unfolding ssm_pool_alloc_Inr by (intro exI [of _ "sp_free_list p"]) (simp add: p1)
  moreover have "ssm_pool_slot ?p2 i =
      Some \<lparr>ss_state = so_reset ops (ss_state sl), ss_position = 0, ss_request_id = rid\<rparr>"
    using i sl by (simp add: p1 update_slot_def ssm_pool_slot_def slot_reset_def)
  ultimately show "\<exists>p2. ssm_pool_alloc rid p1 = Inr (i, p2) \<and>
       (\<exists>sl. ssm_pool_slot p i = Some sl \<and> ssm_pool_slot p2 i =
         Some \<lparr>ss_state = so_reset ops (ss_state sl), ss_position = 0, ss_request_id = rid\<rparr>)"
    using i sl by (auto simp: ssm_pool_slot_def)
qed

lemma ssm_pool_exclusive_witness:
  "\<exists>i p'. ssm_pool_alloc 7 (ssm_pool_new attention_ops 2 (\<lambda>_. attention_new 8)) = Inr (i, p') \<and>
     ssm_live p' = {i}"
proof -
  let ?p = "ssm_pool_new attention_ops 2 (\<lambda>_. attention_new 8)"
  obtain i p' where al: "ssm_pool_alloc 7 ?p = Inr (i, p')"
    by (simp add: ssm_pool_alloc_def ssm_pool_new_def pop_def)
  have "ssm_live ?p = {}" by (auto simp: ssm_live_def ssm_pool_new_def)
  with al ssm_pool_exclusive [OF ssm_pool_new_inv [of attention_ops 2 "\<lambda>_. attention_new 8"], of 7]
  show ?thesis by auto
qed

section \<open>Caches\<close>

text \<open>What a forward pass must supply: a row of at least \<open>kv_dim\<close> elements for every layer.\<close>

definition rows_fit :: "nat \<Rightarrow> nat \<Rightarrow> token_kv list \<Rightarrow> bool" where
  "rows_fit layers dim ts \<longleftrightarrow>
     (\<forall>t \<in> set ts. \<forall>l < layers. dim \<le> length (fst (t l)) \<and> dim \<le> length (snd (t l)))"

text \<open>C30: The paged cache keeps every token: feeding at most \<open>max_seq_len\<close> tokens to a fresh
  cache never fails or panics, and afterwards every layer shows, position by position, the key
  and value rows that were stored, across page boundaries.\<close>

theorem paged_reads_back:
  assumes "rows_fit layers dim ts" and "length ts \<le> max_len" and "0 < dim"
  shows "\<exists>c. feed paged_store_kv paged_advance layers ts (paged_new layers max_len dim) = Inr c \<and>
    pg_seq_len c = length ts \<and>
    (\<forall>l < layers.
      paged_iter_keys c l = Inr (map (\<lambda>p. (p, take dim (fst ((ts ! p) l)))) [0..<length ts]) \<and>
      paged_iter_values c l = Inr (map (\<lambda>p. (p, take dim (snd ((ts ! p) l)))) [0..<length ts]))"
  using paged.feed_reads [of "paged_new layers max_len dim" ts] paged_new_inv assms
  by (auto simp: paged_new_def rows_fit_def)

text \<open>Tokens whose rows are constant vectors, for the witnesses.\<close>

definition const_token :: "nat \<Rightarrow> u32 \<Rightarrow> token_kv" where
  "const_token dim x l = (replicate dim x, replicate dim (x + 1))"

lemma const_tokens_fit: "rows_fit layers dim (map (const_token dim) xs)"
  by (auto simp: rows_fit_def const_token_def)

lemma paged_reads_back_witness:
  "\<exists>c. feed paged_store_kv paged_advance 2 (map (const_token 1) (replicate 17 9)) (paged_new 2 20 1) = Inr c \<and>
     pg_seq_len c = 17"
proof -
  have "length (map (const_token 1) (replicate 17 9)) \<le> 20" by simp
  from paged_reads_back [OF const_tokens_fit [of 2 1 "replicate 17 9"] this] show ?thesis by auto
qed

text \<open>C29: The contiguous cache keeps every token in either element type, whatever it held before:
  feeding tokens to any consistent cache that was just cleared never fails or panics, and every
  layer then shows exactly the rows of these tokens (rounded to the element type), never a row of
  an earlier sequence, although clearing does not erase the buffers.\<close>

theorem contiguous_reads_back:
  assumes "kv_inv c" and "rows_fit (kc_num_layers c) (kc_kv_dim c) ts"
    and "length ts \<le> kc_max_seq_len c" and "0 < kc_kv_dim c"
  shows "\<exists>c'. feed (kv_store_kv fc) kv_advance (kc_num_layers c) ts (kv_clear c) = Inr c' \<and>
    kc_seq_len c' = length ts \<and>
    (\<forall>l < kc_num_layers c.
      kv_for_each_key fc c' l =
        Inr (map (\<lambda>p. (p, map (enc_of fc (kc_dtype c)) (take (kc_kv_dim c) (fst ((ts ! p) l))))) [0..<length ts]) \<and>
      kv_for_each_value fc c' l =
        Inr (map (\<lambda>p. (p, map (enc_of fc (kc_dtype c)) (take (kc_kv_dim c) (snd ((ts ! p) l))))) [0..<length ts]))"
proof -
  have clear: "kv_inv_dt (kc_dtype c) (kv_clear c)" "kv_settled (kv_clear c)" "kc_seq_len (kv_clear c) = 0"
      "kc_num_layers (kv_clear c) = kc_num_layers c" "kc_kv_dim (kv_clear c) = kc_kv_dim c"
      "kc_max_seq_len (kv_clear c) = kc_max_seq_len c"
    using kv_clear_inv [OF assms(1)] by (simp_all add: kv_inv_dt_def kv_clear_def kv_settled_def)
  show ?thesis
    using contig.feed_reads [OF clear(1-3), of ts fc] assms(2-4)
    by (auto simp: clear rows_fit_def)
qed

definition no_conv :: f16_conv where
  "no_conv = \<lparr>fc_from_f32 = ucast, fc_to_f32 = ucast\<rparr>"

lemma contiguous_reads_back_witness:
  "\<exists>c'. feed (kv_store_kv no_conv) kv_advance 2 (map (const_token 3) [1, 2])
      (kv_clear (kv_with_dtype 2 5 3 DtF16)) = Inr c' \<and> kc_seq_len c' = 2"
proof -
  let ?c = "kv_with_dtype 2 5 3 DtF16"
  have "rows_fit (kc_num_layers ?c) (kc_kv_dim ?c) (map (const_token 3) [1, 2])"
    using const_tokens_fit [of 2 3 "[1, 2]"] by (simp add: kv_with_dtype_def)
  from contiguous_reads_back [OF kv_with_dtype_inv this, of no_conv] show ?thesis
    by (auto simp: kv_with_dtype_def)
qed

text \<open>The two caches agree: fed the same tokens, the paged cache and the contiguous \<open>f32\<close> cache
  show every visitor the same rows in the same order.\<close>

theorem paged_equals_contiguous:
  assumes "rows_fit layers dim ts" and "length ts \<le> max_len" and "0 < dim"
  shows "\<exists>c d. feed paged_store_kv paged_advance layers ts (paged_new layers max_len dim) = Inr c \<and>
    feed (kv_store_kv fc) kv_advance layers ts (kv_new layers max_len dim) = Inr d \<and>
    (\<forall>l < layers. paged_iter_keys c l = kv_for_each_key fc d l \<and>
                  paged_iter_values c l = kv_for_each_value fc d l)"
proof -
  obtain c where c: "feed paged_store_kv paged_advance layers ts (paged_new layers max_len dim) = Inr c"
    "\<forall>l < layers. paged_iter_keys c l = Inr (map (\<lambda>p. (p, take dim (fst ((ts ! p) l)))) [0..<length ts]) \<and>
      paged_iter_values c l = Inr (map (\<lambda>p. (p, take dim (snd ((ts ! p) l)))) [0..<length ts])"
    using paged.feed_reads [of "paged_new layers max_len dim" ts] paged_new_inv assms
    by (auto simp: paged_new_def rows_fit_def)
  let ?d = "kv_new layers max_len dim"
  have "kv_inv_dt DtF32 ?d" "kv_settled ?d" "kc_seq_len ?d = 0"
    using kv_with_dtype_inv by (simp_all add: kv_inv_dt_def kv_new_def kv_settled_def)
       (simp_all add: kv_with_dtype_def)
  from contig.feed_reads [OF this, of ts fc] assms
  obtain d where d: "feed (kv_store_kv fc) kv_advance layers ts ?d = Inr d"
    "\<forall>l < layers. kv_for_each_key fc d l = Inr (map (\<lambda>p. (p, take dim (fst ((ts ! p) l)))) [0..<length ts]) \<and>
      kv_for_each_value fc d l = Inr (map (\<lambda>p. (p, take dim (snd ((ts ! p) l)))) [0..<length ts])"
    by (auto simp: kv_new_def kv_with_dtype_def rows_fit_def)
  from c d show ?thesis by auto
qed

lemma paged_equals_contiguous_witness:
  "\<exists>c d. feed paged_store_kv paged_advance 1 (map (const_token 2) [3, 4]) (paged_new 1 4 2) = Inr c \<and>
    feed (kv_store_kv no_conv) kv_advance 1 (map (const_token 2) [3, 4]) (kv_new 1 4 2) = Inr d \<and>
    paged_iter_keys c 0 = kv_for_each_key no_conv d 0"
proof -
  have "length (map (const_token 2) [3, 4]) \<le> 4" by simp
  from paged_equals_contiguous [OF const_tokens_fit this] show ?thesis by (metis less_numeral_extra(1) zero_less_numeral)
qed

text \<open>C28: Rolling back a draft leaves no trace: tokens fed, cut back to \<open>n\<close> with \<open>truncate\<close> and
  followed by other tokens read exactly like the first \<open>n\<close> followed by the others, in either
  element type.\<close>

theorem truncate_rolls_back:
  assumes "rows_fit layers dim (ts @ us)" and "length ts \<le> max_len"
    and "min n (length ts) + length us \<le> max_len" and "0 < dim"
  shows "\<exists>c1 c2. feed (kv_store_kv fc) kv_advance layers ts (kv_with_dtype layers max_len dim dt) = Inr c1 \<and>
    feed (kv_store_kv fc) kv_advance layers us (kv_truncate n c1) = Inr c2 \<and>
    (\<forall>l < layers.
      kv_for_each_key fc c2 l =
        Inr (map (\<lambda>p. (p, map (enc_of fc dt) (take dim (fst (((take n ts @ us) ! p) l)))))
               [0..<length (take n ts @ us)]) \<and>
      kv_for_each_value fc c2 l =
        Inr (map (\<lambda>p. (p, map (enc_of fc dt) (take dim (snd (((take n ts @ us) ! p) l)))))
               [0..<length (take n ts @ us)]))"
proof -
  let ?c = "kv_with_dtype layers max_len dim dt"
  have c: "kv_inv_dt dt ?c" "kv_settled ?c" "kc_seq_len ?c = 0" "kc_kv_dim ?c = dim"
      "kc_num_layers ?c = layers" "kc_max_seq_len ?c = max_len"
    using kv_with_dtype_inv by (simp_all add: kv_inv_dt_def kv_settled_def) (simp_all add: kv_with_dtype_def)
  show ?thesis
    using contig.rollback_reads [OF c(1-3), of ts n us fc] assms
    unfolding c by (simp add: rows_fit_def)
qed

lemma truncate_rolls_back_witness:
  "\<exists>c1 c2. feed (kv_store_kv no_conv) kv_advance 1 (map (const_token 1) [1, 2, 3]) (kv_with_dtype 1 4 1 DtF32) = Inr c1 \<and>
     feed (kv_store_kv no_conv) kv_advance 1 (map (const_token 1) [9]) (kv_truncate 1 c1) = Inr c2 \<and>
     kv_for_each_key no_conv c2 0 = Inr [(0, [1]), (1, [9])]"
proof -
  have fit: "rows_fit 1 1 (map (const_token 1) [1, 2, 3] @ map (const_token 1) [9])"
    using const_tokens_fit [of 1 1 "[1, 2, 3, 9]"] by simp
  have "length (map (const_token 1) [1, 2, 3]) \<le> 4"
    and "min 1 (length (map (const_token 1) [1, 2, 3])) + length (map (const_token 1) [9]) \<le> 4" by simp_all
  from truncate_rolls_back [OF fit this, of no_conv DtF32] show ?thesis
    by (auto simp: const_token_def)
qed

text \<open>A snapshot of the first \<open>n\<close> positions restores them: whatever the element type of the
  source, restoring its truncated snapshot into any consistent \<open>f32\<close> cache of the same shape
  succeeds, sets the length to what the snapshot covers, and makes exactly that prefix of every
  layer readable.\<close>

theorem snapshot_restores_prefix:
  assumes "kv_inv c" and "kv_inv d" and "kc_dtype d = DtF32" and "kc_num_layers d = kc_num_layers c"
    and "kc_kv_dim d = kc_kv_dim c" and "min n (kc_seq_len c) \<le> kc_max_seq_len d"
    and "kc_seq_len c \<le> kc_capacity_tokens c"
  shows "\<exists>d'. kv_restore_from_snapshot fc (ks_keys (kv_snapshot_truncated fc n c))
      (ks_values (kv_snapshot_truncated fc n c)) (ks_seq_len (kv_snapshot_truncated fc n c)) d = Inr d' \<and>
    kv_inv d' \<and> kc_seq_len d' = min n (kc_seq_len c) \<and>
    (\<forall>l < kc_num_layers c. \<exists>ks vs.
       kv_copy_keys_into fc c l = Inr ks \<and> kv_copy_values_into fc c l = Inr vs \<and>
       kv_copy_keys_into fc d' l = Inr (take (min n (kc_seq_len c) * kc_kv_dim c) ks) \<and>
       kv_copy_values_into fc d' l = Inr (take (min n (kc_seq_len c) * kc_kv_dim c) vs))"
proof -
  let ?s = "kv_snapshot_truncated fc n c" and ?n = "min n (kc_seq_len c)"
  have nd: "?n * kc_kv_dim c \<le> kc_capacity_tokens c * kc_kv_dim c"
    using assms(7) by (intro mult_le_mono1) simp
  have keys: "ks_keys ?s = map (\<lambda>b. take (?n * kc_kv_dim c) (elems fc b)) (kc_keys c)"
    and vals: "ks_values ?s = map (\<lambda>b. take (?n * kc_kv_dim c) (elems fc b)) (kc_values c)"
    and len: "ks_seq_len ?s = ?n"
    by (simp_all add: kv_snapshot_truncated_def Let_def buf_copy_eq)
  note sk = side_buf [OF assms(1) sides(1)] and sv = side_buf [OF assms(1) sides(2)]
  have k: "length (kc_keys c) = kc_num_layers c" and v: "length (kc_values c) = kc_num_layers c"
    using assms(1) by (simp_all add: kv_inv_def bufs_ok_def)
  have ks: "length (ks_keys ?s) = kc_num_layers d"
    "\<forall>l < kc_num_layers d. ?n * kc_kv_dim d \<le> length (ks_keys ?s ! l)"
    using k assms(4,5) sk(3) nd by (simp_all add: keys)
  have vs: "length (ks_values ?s) = kc_num_layers d"
    "\<forall>l < kc_num_layers d. ?n * kc_kv_dim d \<le> length (ks_values ?s ! l)"
    using v assms(4,5) sv(3) nd by (simp_all add: vals)
  obtain d' where d': "kv_restore_from_snapshot fc (ks_keys ?s) (ks_values ?s) ?n d = Inr d'" "kv_inv d'"
      "kc_seq_len d' = ?n"
    and rd: "\<forall>l < kc_num_layers d.
      kv_copy_keys_into fc d' l = Inr (map (enc_of fc (kc_dtype d)) (take (?n * kc_kv_dim d) (ks_keys ?s ! l))) \<and>
      kv_copy_values_into fc d' l = Inr (map (enc_of fc (kc_dtype d)) (take (?n * kc_kv_dim d) (ks_values ?s ! l)))"
    using kv_restore_holds [OF assms(2,6) ks vs, of fc] by blast
  have stored: "?n * kc_kv_dim c \<le> kc_stored_len c * kc_kv_dim c"
    using assms(1) by (intro mult_le_mono1) (auto simp: kv_inv_def intro: order_trans [OF min.cobounded2])
  have "\<exists>ks vs. kv_copy_keys_into fc c l = Inr ks \<and> kv_copy_values_into fc c l = Inr vs \<and>
       kv_copy_keys_into fc d' l = Inr (take (?n * kc_kv_dim c) ks) \<and>
       kv_copy_values_into fc d' l = Inr (take (?n * kc_kv_dim c) vs)" if l: "l < kc_num_layers c" for l
    using rd assms(3-5) l k v stored
    by (simp add: keys vals kv_copy_keys_into_def [of fc] kv_copy_values_into_def [of fc] kv_copy_def
        buf_copy_eq min_def)
  then show ?thesis using d' len by auto
qed

lemma snapshot_restores_prefix_witness:
  "\<exists>d'. kv_restore_from_snapshot no_conv (ks_keys (kv_snapshot_truncated no_conv 2 (kv_new 1 4 1)))
     (ks_values (kv_snapshot_truncated no_conv 2 (kv_new 1 4 1)))
     (ks_seq_len (kv_snapshot_truncated no_conv 2 (kv_new 1 4 1))) (kv_new 1 4 1) = Inr d' \<and> kv_inv d'"
proof -
  have inv: "kv_inv (kv_new 1 4 1)" using kv_with_dtype_inv by (simp add: kv_new_def)
  show ?thesis
    using snapshot_restores_prefix [OF inv inv, of 2 no_conv]
    by (auto simp: kv_new_def kv_with_dtype_def)
qed

section \<open>Where the caches differ from what they promise\<close>

text \<open>The two caches disagree about the token being processed: after a layer has stored its row
  and before the position advances, the contiguous cache shows that row, as attention needs, and
  the paged cache shows nothing of it.\<close>

theorem paged_hides_current_token:
  assumes "l < layers" and "0 < max_len" and "0 < dim" and "dim \<le> length k" and "dim \<le> length v"
  shows "\<exists>c d. paged_store_kv l k v (paged_new layers max_len dim) = Inr c \<and>
    kv_store_kv fc l k v (kv_new layers max_len dim) = Inr d \<and>
    paged_iter_keys c l = Inr [] \<and> kv_for_each_key fc d l = Inr [(0, take dim k)]"
proof -
  let ?p = "paged_new layers max_len dim" and ?d = "kv_new layers max_len dim"
  have p: "paged_inv ?p" by (rule paged_new_inv)
  have psel: "pg_num_layers ?p = layers" "pg_seq_len ?p = 0" "pg_max_seq_len ?p = max_len" "pg_kv_dim ?p = dim"
    by (simp_all add: paged_new_def)
  obtain c where c: "paged_store_kv l k v ?p = Inr c"
    using paged.store_succeeds [OF p, of l k v] assms unfolding psel by blast
  have "pg_seq_len c = 0" "pg_num_layers c = layers"
    using paged.store_shape [OF p c] by (simp_all add: paged_new_def)
  then have 1: "paged_iter_keys c l = Inr []" using assms(1) by (simp add: paged_iter_keys_def paged_iter_def)
  have sel: "kc_num_layers ?d = layers" "kc_seq_len ?d = 0" "kc_max_seq_len ?d = max_len"
      "kc_kv_dim ?d = dim" "kc_dtype ?d = DtF32" "kc_stored_len ?d = 0"
    by (simp_all add: kv_new_def kv_with_dtype_def)
  have inv: "kv_inv ?d" using kv_with_dtype_inv by (simp add: kv_new_def)
  obtain d where d: "kv_store_kv fc l k v ?d = Inr d"
    using kv_store_succeeds [OF inv, unfolded sel] assms by blast
  note sh = kv_store_shape [OF inv d]
  have stored: "kc_stored_len d = 1"
    using d by (rule kv_store_kv_Inr) (simp add: sel)
  have "kc_seq_len ?d < kc_capacity_tokens d"
    using kv_ensure_target(1) [OF inv, of "kc_seq_len ?d + 1"] sh(7,9) by simp
  then have b: "\<forall>p < kc_stored_len d. kv_backed d l p"
    using sh(5) assms(1) sel stored by (simp add: kv_backed_def)
  have "kv_for_each_key fc d l = Inr (map (\<lambda>p. (p, kv_row fc kc_keys d l p)) [0..<kc_stored_len d])"
    unfolding kv_for_each_key_def
    using kv_for_each_row_eq [OF sh(1) sides(1) _ _ b] sh(4,5) sel assms(1,3) by simp
  then have "kv_for_each_key fc d l = Inr [(0, kv_row fc kc_keys d l 0)]" by (simp add: stored)
  moreover have "kv_row fc kc_keys d l 0 = take dim k"
    using kv_store_rows(1) [OF inv d sides(1)] by (simp add: sel)
  ultimately show ?thesis using c d 1 by auto
qed

lemma paged_hides_current_token_witness:
  "\<exists>c d. paged_store_kv 0 [7] [8] (paged_new 1 4 1) = Inr c \<and>
     kv_store_kv no_conv 0 [7] [8] (kv_new 1 4 1) = Inr d \<and>
     paged_iter_keys c 0 = Inr [] \<and> kv_for_each_key no_conv d 0 = Inr [(0, [7])]"
  using paged_hides_current_token [of 0 1 4 1 "[7]" "[8]" no_conv] by simp

text \<open>Shrinking a paged cache to a length that fills its pages exactly keeps one page more than
  the tokens need: \<open>k\<close> full pages of tokens shrink to \<open>k + 1\<close> pages.\<close>

theorem shrink_keeps_a_page:
  assumes "0 < k" and "k < lc_num_pages lc"
  shows "lc_num_pages (lc_shrink_to (k * PAGE_SIZE) lc) = k + 1"
  using assms by (simp add: lc_num_pages_def lc_shrink_to_def PAGE_SIZE_def)

lemma shrink_keeps_a_page_witness:
  "lc_num_pages (lc_shrink_to (1 * PAGE_SIZE) (ensure_pages 3 2 layer_cache_new)) = 2"
proof -
  have "lc_num_pages (ensure_pages 3 2 layer_cache_new) = 3"
    by (simp add: ensure_pages_eq layer_cache_new_def lc_num_pages_def)
  then show ?thesis
    using shrink_keeps_a_page [of 1 "ensure_pages 3 2 layer_cache_new"] by simp
qed

end
