(* ===== verification/Scheduler.thy ===== *)
theory Scheduler
  imports Prelude
begin

text \<open>
  The continuous-batching scheduler of \<open>crates/oxillama-runtime/src/scheduler.rs\<close>: requests
  wait, are promoted, prefilled in chunks and decoded one token per batch. The \<open>HashMap\<close> of
  sequences is an association list with distinct keys (its order stands for the map's iteration
  order), and the clock read by \<open>Instant::now()\<close> is the argument \<open>now\<close>, in milliseconds.
\<close>

section \<open>State\<close>

definition PREFILL_CHUNK :: nat where
  "PREFILL_CHUNK = 512"

definition MAX_DECODE_WAIT_MS :: nat where
  "MAX_DECODE_WAIT_MS = 100"

type_synonym seq_id = u64

datatype seq_state = Waiting | Prefilling | Decoding | Finished | Preempted

record seq =
  sq_id :: seq_id
  sq_state :: seq_state
  sq_prompt_tokens :: "u32 list"
  sq_output_tokens :: "u32 list"
  sq_prompt_pos :: nat
  sq_max_tokens :: nat
  sq_stopped :: bool
  sq_priority :: u64
  sq_slot_id :: "nat option"
  sq_prefill_progress :: nat
  sq_prefill_total :: nat
  sq_last_emit_time :: nat

definition seq_new :: "nat \<Rightarrow> seq_id \<Rightarrow> u32 list \<Rightarrow> nat \<Rightarrow> seq" where
  "seq_new now sid prompt_tokens max_tokens =
     \<lparr>sq_id = sid, sq_state = Waiting, sq_prompt_tokens = prompt_tokens, sq_output_tokens = [],
      sq_prompt_pos = 0, sq_max_tokens = max_tokens, sq_stopped = False, sq_priority = sid,
      sq_slot_id = None, sq_prefill_progress = 0, sq_prefill_total = length prompt_tokens,
      sq_last_emit_time = now\<rparr>"

definition decode_wait_exceeded :: "nat \<Rightarrow> seq \<Rightarrow> bool" where
  "decode_wait_exceeded now q \<longleftrightarrow>
     sq_state q = Decoding \<and> \<not> sq_stopped q \<and> now - sq_last_emit_time q > MAX_DECODE_WAIT_MS"

definition advance_prefill :: "nat \<Rightarrow> seq \<Rightarrow> seq" where
  "advance_prefill n q = q\<lparr>sq_prefill_progress := sq_prefill_progress q + n\<rparr>"

definition seq_total_tokens :: "seq \<Rightarrow> nat" where
  "seq_total_tokens q = length (sq_prompt_tokens q) + length (sq_output_tokens q)"

definition at_limit :: "seq \<Rightarrow> bool" where
  "at_limit q \<longleftrightarrow> seq_total_tokens q \<ge> sq_max_tokens q"

definition all_tokens :: "seq \<Rightarrow> u32 list" where
  "all_tokens q = sq_prompt_tokens q @ sq_output_tokens q"

record scheduler_config =
  sc_max_sequences :: nat
  sc_max_batch_tokens :: nat
  sc_max_batch_sequences :: nat
  sc_max_prefill_tokens :: nat

definition default_config :: scheduler_config where
  "default_config =
     \<lparr>sc_max_sequences = 32, sc_max_batch_tokens = 512, sc_max_batch_sequences = 8,
      sc_max_prefill_tokens = 256\<rparr>"

record batch =
  b_seq_ids :: "seq_id list"
  b_tokens :: "u32 list list"
  b_is_prefill :: "bool list"

definition empty_batch :: batch where
  "empty_batch = \<lparr>b_seq_ids = [], b_tokens = [], b_is_prefill = []\<rparr>"

definition batch_total_tokens :: "batch \<Rightarrow> nat" where
  "batch_total_tokens b = sum_list (map length (b_tokens b))"

definition batch_is_empty :: "batch \<Rightarrow> bool" where
  "batch_is_empty b \<longleftrightarrow> b_seq_ids b = []"

text \<open>The three pushes with which a sequence joins a batch.\<close>

definition batch_push :: "seq_id \<Rightarrow> u32 list \<Rightarrow> bool \<Rightarrow> batch \<Rightarrow> batch" where
  "batch_push sid tokens prefill b =
     \<lparr>b_seq_ids = b_seq_ids b @ [sid], b_tokens = b_tokens b @ [tokens],
      b_is_prefill = b_is_prefill b @ [prefill]\<rparr>"

type_synonym seqs = "(seq_id \<times> seq) list"

record scheduler =
  sd_config :: scheduler_config
  sd_sequences :: seqs
  sd_next_id :: seq_id
  sd_waiting_queue :: "seq_id list"
  sd_active_ids :: "seq_id list"

section \<open>Requests\<close>

definition scheduler_new :: "scheduler_config \<Rightarrow> scheduler" where
  "scheduler_new config =
     \<lparr>sd_config = config, sd_sequences = [], sd_next_id = 1, sd_waiting_queue = [],
      sd_active_ids = []\<rparr>"

definition add_request :: "nat \<Rightarrow> u32 list \<Rightarrow> nat \<Rightarrow> scheduler \<Rightarrow> seq_id \<times> scheduler" where
  "add_request now prompt_tokens max_tokens s =
     (let sid = sd_next_id s
      in (sid, s\<lparr>sd_next_id := sd_next_id s + 1,
               sd_sequences := AList.update sid (seq_new now sid prompt_tokens max_tokens) (sd_sequences s),
               sd_waiting_queue := sd_waiting_queue s @ [sid]\<rparr>))"

definition remove_sequence :: "seq_id \<Rightarrow> scheduler \<Rightarrow> scheduler" where
  "remove_sequence sid s =
     s\<lparr>sd_sequences := AList.delete sid (sd_sequences s),
       sd_waiting_queue := filter (\<lambda>x. x \<noteq> sid) (sd_waiting_queue s),
       sd_active_ids := filter (\<lambda>x. x \<noteq> sid) (sd_active_ids s)\<rparr>"

text \<open>\<open>if let Some(seq) = self.sequences.get_mut(&id)\<close>.\<close>

definition modify_seq :: "(seq \<Rightarrow> seq) \<Rightarrow> seq_id \<Rightarrow> scheduler \<Rightarrow> scheduler" where
  "modify_seq f sid s =
     (case map_of (sd_sequences s) sid of
        None \<Rightarrow> s
      | Some q \<Rightarrow> s\<lparr>sd_sequences := AList.update sid (f q) (sd_sequences s)\<rparr>)"

definition finish_sequence :: "seq_id \<Rightarrow> scheduler \<Rightarrow> scheduler" where
  "finish_sequence sid s =
     (let s = modify_seq (\<lambda>q. q\<lparr>sq_state := Finished, sq_stopped := True\<rparr>) sid s
      in s\<lparr>sd_active_ids := filter (\<lambda>x. x \<noteq> sid) (sd_active_ids s)\<rparr>)"

definition append_token :: "nat \<Rightarrow> seq_id \<Rightarrow> u32 \<Rightarrow> scheduler \<Rightarrow> scheduler" where
  "append_token now sid token =
     modify_seq (\<lambda>q. q\<lparr>sq_output_tokens := sq_output_tokens q @ [token], sq_last_emit_time := now\<rparr>) sid"

definition get_sequence :: "scheduler \<Rightarrow> seq_id \<Rightarrow> seq option" where
  "get_sequence s sid = map_of (sd_sequences s) sid"

definition has_work :: "scheduler \<Rightarrow> bool" where
  "has_work s \<longleftrightarrow> sd_waiting_queue s \<noteq> [] \<or> sd_active_ids s \<noteq> []"

section \<open>Scheduling a batch\<close>

text \<open>
  The common part of the first two phases: hand out the next \<open>chunk\<close> prompt tokens, move
  \<open>prompt_pos\<close>, and switch to decoding when the prompt is through.
\<close>

definition take_prefill :: "nat \<Rightarrow> seq \<Rightarrow> u32 list \<times> seq" where
  "take_prefill chunk q =
     (let prefill_tokens = take chunk (drop (sq_prompt_pos q) (sq_prompt_tokens q));
          q = q\<lparr>sq_prompt_pos := sq_prompt_pos q + chunk\<rparr>
      in (prefill_tokens,
          if sq_prompt_pos q \<ge> length (sq_prompt_tokens q) then q\<lparr>sq_state := Decoding\<rparr> else q))"

definition issue_prefill :: "seq_id \<Rightarrow> nat \<Rightarrow> seq \<Rightarrow> batch \<times> seqs \<Rightarrow> batch \<times> seqs" where
  "issue_prefill sid chunk q bs =
     (let (toks, q) = take_prefill chunk q
      in (batch_push sid toks True (fst bs), AList.update sid q (snd bs)))"

text \<open>Phase 1: the \<open>while\<close> loop over the waiting queue.\<close>

fun promote :: "scheduler_config \<Rightarrow> seq_id list \<Rightarrow> seq_id list \<Rightarrow> batch \<times> seqs \<Rightarrow>
    seq_id list \<times> seq_id list \<times> batch \<times> seqs" where
  "promote cfg [] active bs = ([], active, bs)"
| "promote cfg (sid # waiting) active bs =
     (if length active < sc_max_sequences cfg \<and>
         length (b_seq_ids (fst bs)) < sc_max_batch_sequences cfg
      then case map_of (snd bs) sid of
             None \<Rightarrow> promote cfg waiting active bs
           | Some q \<Rightarrow>
               let q = q\<lparr>sq_state := Prefilling\<rparr>;
                   remaining = length (sq_prompt_tokens q) - sq_prompt_pos q;
                   chunk = min remaining (sc_max_prefill_tokens cfg)
               in promote cfg waiting (active @ [sid]) (issue_prefill sid chunk q bs)
      else (sid # waiting, active, bs))"

text \<open>Phase 2: the sequences whose prompt is not through yet.\<close>

fun continue_prefill :: "scheduler_config \<Rightarrow> seq_id list \<Rightarrow> batch \<times> seqs \<Rightarrow> batch \<times> seqs" where
  "continue_prefill cfg [] bs = bs"
| "continue_prefill cfg (sid # ids) bs =
     (if batch_total_tokens (fst bs) \<ge> sc_max_batch_tokens cfg then bs
      else if sid \<in> set (b_seq_ids (fst bs)) then continue_prefill cfg ids bs
      else case map_of (snd bs) sid of
             None \<Rightarrow> continue_prefill cfg ids bs
           | Some q \<Rightarrow>
               if sq_state q = Prefilling
               then let remaining = length (sq_prompt_tokens q) - sq_prompt_pos q;
                        budget = sc_max_batch_tokens cfg - batch_total_tokens (fst bs);
                        chunk = min (min remaining (sc_max_prefill_tokens cfg)) budget
                    in continue_prefill cfg ids
                         (if chunk > 0 then issue_prefill sid chunk q bs else bs)
               else continue_prefill cfg ids bs)"

definition decode_token :: "seq \<Rightarrow> u32" where
  "decode_token q =
     (if sq_output_tokens q \<noteq> [] then last (sq_output_tokens q)
      else if sq_prompt_tokens q \<noteq> [] then last (sq_prompt_tokens q) else 0)"

text \<open>Phase 3: one token for every decoding sequence.\<close>

fun schedule_decode :: "scheduler_config \<Rightarrow> seqs \<Rightarrow> seq_id list \<Rightarrow> batch \<Rightarrow> batch" where
  "schedule_decode cfg qs [] b = b"
| "schedule_decode cfg qs (sid # ids) b =
     (if length (b_seq_ids b) \<ge> sc_max_batch_sequences cfg then b
      else if batch_total_tokens b \<ge> sc_max_batch_tokens cfg then b
      else case map_of qs sid of
             None \<Rightarrow> schedule_decode cfg qs ids b
           | Some q \<Rightarrow>
               schedule_decode cfg qs ids
                 (if sq_state q = Decoding \<and> \<not> sq_stopped q \<and> \<not> at_limit q \<and> sid \<notin> set (b_seq_ids b)
                  then batch_push sid [decode_token q] False b else b))"

definition still_active :: "seqs \<Rightarrow> seq_id \<Rightarrow> bool" where
  "still_active qs sid \<longleftrightarrow>
     (case map_of qs sid of
        None \<Rightarrow> False | Some q \<Rightarrow> \<not> sq_stopped q \<and> \<not> at_limit q \<and> sq_state q \<noteq> Finished)"

definition schedule :: "scheduler \<Rightarrow> batch \<times> scheduler" where
  "schedule s =
     (let cfg = sd_config s;
          (waiting, active, bs) = promote cfg (sd_waiting_queue s) (sd_active_ids s)
                                    (empty_batch, sd_sequences s);
          (b, qs) = continue_prefill cfg active bs;
          b = schedule_decode cfg qs active b
      in (b, s\<lparr>sd_sequences := qs, sd_waiting_queue := waiting,
               sd_active_ids := filter (still_active qs) active\<rparr>))"

definition is_finished :: "seq \<Rightarrow> bool" where
  "is_finished q \<longleftrightarrow> sq_state q = Finished \<or> sq_stopped q \<or> at_limit q"

definition drain_finished :: "scheduler \<Rightarrow> seq list \<times> scheduler" where
  "drain_finished s =
     (let finished = filter (\<lambda>(sid, q). is_finished q) (sd_sequences s);
          ids = map fst finished
      in (map snd finished,
          s\<lparr>sd_sequences := filter (\<lambda>(sid, q). \<not> is_finished q) (sd_sequences s),
            sd_active_ids := filter (\<lambda>x. x \<notin> set ids) (sd_active_ids s),
            sd_waiting_queue := filter (\<lambda>x. x \<notin> set ids) (sd_waiting_queue s)\<rparr>))"

section \<open>What a batch hands out\<close>

text \<open>The prompt tokens a batch carries for one sequence.\<close>

definition delivered :: "seq_id \<Rightarrow> batch \<Rightarrow> u32 list" where
  "delivered sid b =
     concat (map (\<lambda>(i, toks, pre). if i = sid \<and> pre then toks else [])
               (zip (b_seq_ids b) (zip (b_tokens b) (b_is_prefill b))))"

definition batch_ok :: "batch \<Rightarrow> bool" where
  "batch_ok b \<longleftrightarrow> length (b_tokens b) = length (b_seq_ids b) \<and>
     length (b_is_prefill b) = length (b_seq_ids b) \<and> distinct (b_seq_ids b)"

lemma empty_batch_simps [simp]:
  "b_seq_ids empty_batch = []" "b_tokens empty_batch = []" "batch_ok empty_batch"
  "delivered sid empty_batch = []" "batch_total_tokens empty_batch = 0"
  by (simp_all add: empty_batch_def batch_ok_def delivered_def batch_total_tokens_def)

lemma batch_push_simps [simp]:
  "b_seq_ids (batch_push sid toks pre b) = b_seq_ids b @ [sid]"
  "b_tokens (batch_push sid toks pre b) = b_tokens b @ [toks]"
  "batch_total_tokens (batch_push sid toks pre b) = batch_total_tokens b + length toks"
  by (simp_all add: batch_push_def batch_total_tokens_def)

lemma batch_push_ok: "batch_ok b \<Longrightarrow> sid \<notin> set (b_seq_ids b) \<Longrightarrow> batch_ok (batch_push sid toks pre b)"
  by (simp add: batch_ok_def batch_push_def)

lemma delivered_push:
  "batch_ok b \<Longrightarrow>
   delivered i (batch_push sid toks pre b) = delivered i b @ (if i = sid \<and> pre then toks else [])"
  by (simp add: batch_ok_def batch_push_def delivered_def)

lemma delivered_absent: "sid \<notin> set (b_seq_ids b) \<Longrightarrow> delivered sid b = []"
  unfolding delivered_def by (auto dest: set_zip_leftD)

end
