(* ===== verification/Scheduler_Safety.thy ===== *)
theory Scheduler_Safety
  imports Scheduler
begin

text \<open>
  What the scheduler guarantees: its invariant, that a batch carries consecutive prompt tokens
  and nothing else changes, the sizes of a batch, and, over every history of requests and
  batches, that a sequence is handed its prompt exactly once and in order.
\<close>

section \<open>Association lists\<close>

lemma update_keys_same: "k \<in> fst ` set al \<Longrightarrow> map fst (AList.update k v al) = map fst al"
  by (induction al) auto

lemma map_of_update_list: "map_of (AList.update k v al) = (map_of al)(k \<mapsto> v)"
  by (simp add: update_conv' fun_eq_iff)

lemma map_of_key: "map_of al k = Some v \<Longrightarrow> k \<in> fst ` set al"
  by (metis domI dom_map_of_conv_image_fst)

section \<open>Sequences and batches\<close>

definition wf_seq :: "seq \<Rightarrow> bool" where
  "wf_seq q \<longleftrightarrow> sq_prompt_pos q \<le> length (sq_prompt_tokens q) \<and>
     sq_prefill_total q = length (sq_prompt_tokens q) \<and>
     (sq_state q = Decoding \<longrightarrow> sq_prompt_pos q = length (sq_prompt_tokens q)) \<and>
     (sq_state q = Prefilling \<longrightarrow> sq_prompt_pos q < length (sq_prompt_tokens q))"

text \<open>\<open>q\<close> is \<open>q0\<close> after it was handed the prompt tokens \<open>d\<close>.\<close>

definition tracked :: "u32 list \<Rightarrow> seq \<Rightarrow> seq \<Rightarrow> bool" where
  "tracked d q0 q \<longleftrightarrow>
     q = q0\<lparr>sq_prompt_pos := sq_prompt_pos q0 + length d, sq_state := sq_state q\<rparr> \<and>
     d = take (length d) (drop (sq_prompt_pos q0) (sq_prompt_tokens q0))"

definition track :: "seqs \<Rightarrow> batch \<times> seqs \<Rightarrow> bool" where
  "track qs0 bs \<longleftrightarrow> batch_ok (fst bs) \<and> map fst (snd bs) = map fst qs0 \<and>
     (\<forall>i q0. map_of qs0 i = Some q0 \<longrightarrow>
        (\<exists>q. map_of (snd bs) i = Some q \<and> tracked (delivered i (fst bs)) q0 q)) \<and>
     (\<forall>i. i \<notin> set (b_seq_ids (fst bs)) \<longrightarrow> map_of (snd bs) i = map_of qs0 i) \<and>
     (\<forall>i \<in> set (b_seq_ids (fst bs)).
        \<exists>q. map_of (snd bs) i = Some q \<and> wf_seq q \<and> sq_state q \<in> {Prefilling, Decoding})"

lemma tracked_refl: "tracked [] q q"
  by (simp add: tracked_def)

lemma track_refl: "track qs (empty_batch, qs)"
  by (auto simp: track_def intro: tracked_refl)

lemma take_prefill_eq:
  assumes "take_prefill chunk q = (d, q')" and "wf_seq q0" and "q = q0\<lparr>sq_state := Prefilling\<rparr>"
    and "chunk \<le> length (sq_prompt_tokens q0) - sq_prompt_pos q0"
  shows "tracked d q0 q'" and "wf_seq q'" and "sq_state q' \<in> {Prefilling, Decoding}"
    and "length d = chunk"
  using assms by (auto simp: take_prefill_def Let_def tracked_def wf_seq_def split: if_splits)

lemma issue_track:
  assumes tr: "track qs0 bs" and new: "i \<notin> set (b_seq_ids (fst bs))"
    and q0: "map_of qs0 i = Some q0" and wf: "wf_seq q0"
    and chunk: "chunk \<le> length (sq_prompt_tokens q0) - sq_prompt_pos q0"
    and q: "q = q0\<lparr>sq_state := Prefilling\<rparr>"
  shows "track qs0 (issue_prefill i chunk q bs)"
    and "b_seq_ids (fst (issue_prefill i chunk q bs)) = b_seq_ids (fst bs) @ [i]"
    and "batch_total_tokens (fst (issue_prefill i chunk q bs)) = batch_total_tokens (fst bs) + chunk"
proof -
  obtain d q' where t: "take_prefill chunk q = (d, q')" by fastforce
  note tp = take_prefill_eq [OF t wf q chunk]
  let ?bs = "issue_prefill i chunk q bs"
  have b: "fst ?bs = batch_push i d True (fst bs)" and s: "snd ?bs = AList.update i q' (snd bs)"
    by (simp_all add: issue_prefill_def t)
  have ok: "batch_ok (fst bs)" and keys: "map fst (snd bs) = map fst qs0"
    and old: "\<And>j r. map_of qs0 j = Some r \<Longrightarrow>
        \<exists>q. map_of (snd bs) j = Some q \<and> tracked (delivered j (fst bs)) r q"
    and unch: "\<And>j. j \<notin> set (b_seq_ids (fst bs)) \<Longrightarrow> map_of (snd bs) j = map_of qs0 j"
    and ids: "\<And>j. j \<in> set (b_seq_ids (fst bs)) \<Longrightarrow>
        \<exists>q. map_of (snd bs) j = Some q \<and> wf_seq q \<and> sq_state q \<in> {Prefilling, Decoding}"
    using tr by (auto simp: track_def)
  have "i \<in> fst ` set (snd bs)" using map_of_key [OF q0] keys by (metis list.set_map)
  then have keys': "map fst (snd ?bs) = map fst qs0" using keys s by (simp add: update_keys_same)
  have each: "\<exists>q. map_of (snd ?bs) j = Some q \<and> tracked (delivered j (fst ?bs)) r q"
    if "map_of qs0 j = Some r" for j r
  proof (cases "j = i")
    case True
    then have "delivered j (fst ?bs) = d"
      using delivered_absent [OF new] delivered_push [OF ok] by (simp add: b)
    then show ?thesis using True that q0 tp(1) by (simp add: s map_of_update_list)
  next
    case False
    then show ?thesis using old [OF that] delivered_push [OF ok] by (simp add: b s map_of_update_list)
  qed
  show "track qs0 ?bs"
    unfolding track_def
  proof (intro conjI allI ballI impI)
    show "batch_ok (fst ?bs)" using batch_push_ok [OF ok new] by (simp add: b)
    show "map fst (snd ?bs) = map fst qs0" by (rule keys')
    show "\<exists>q. map_of (snd ?bs) j = Some q \<and> tracked (delivered j (fst ?bs)) r q"
      if "map_of qs0 j = Some r" for j r
      by (rule each [OF that])
    show "map_of (snd ?bs) j = map_of qs0 j" if "j \<notin> set (b_seq_ids (fst ?bs))" for j
      using that unch by (simp add: b s map_of_update_list)
    show "\<exists>q. map_of (snd ?bs) j = Some q \<and> wf_seq q \<and> sq_state q \<in> {Prefilling, Decoding}"
      if "j \<in> set (b_seq_ids (fst ?bs))" for j
      using that ids [of j] tp(2,3) by (cases "j = i") (auto simp: b s map_of_update_list)
  qed
  show "b_seq_ids (fst ?bs) = b_seq_ids (fst bs) @ [i]" by (simp add: b)
  show "batch_total_tokens (fst ?bs) = batch_total_tokens (fst bs) + chunk" using tp(4) by (simp add: b)
qed

section \<open>The phases\<close>

definition all_wf :: "seqs \<Rightarrow> bool" where
  "all_wf qs \<longleftrightarrow> (\<forall>i q. map_of qs i = Some q \<longrightarrow> wf_seq q)"

lemma wf_min_chunk: "min (length (sq_prompt_tokens q) - sq_prompt_pos q) k \<le>
    length (sq_prompt_tokens q) - sq_prompt_pos q"
  by simp

lemma promote_spec:
  assumes "promote cfg waiting active bs = (waiting', active', bs')"
    and "track qs0 bs" and "all_wf qs0" and "distinct (waiting @ active)"
    and "set (b_seq_ids (fst bs)) \<subseteq> set active" and "set waiting \<subseteq> fst ` set qs0"
  shows "\<exists>pre. waiting = pre @ waiting' \<and> active' = active @ pre \<and>
    b_seq_ids (fst bs') = b_seq_ids (fst bs) @ pre \<and> track qs0 bs' \<and>
    length active' \<le> max (length active) (sc_max_sequences cfg) \<and>
    length (b_seq_ids (fst bs')) \<le> max (length (b_seq_ids (fst bs))) (sc_max_batch_sequences cfg) \<and>
    batch_total_tokens (fst bs') \<le>
      batch_total_tokens (fst bs) + length pre * sc_max_prefill_tokens cfg"
  using assms
proof (induction cfg waiting active bs rule: promote.induct)
  case (1 cfg active bs)
  then show ?case by simp
next
  case (2 cfg i waiting active bs)
  show ?case
  proof (cases "length active < sc_max_sequences cfg \<and> length (b_seq_ids (fst bs)) < sc_max_batch_sequences cfg")
    case False
    then show ?thesis using "2.prems" by (intro exI [of _ "[]"]) auto
  next
    case True
    have "i \<in> fst ` set qs0" using "2.prems"(6) by simp
    then obtain q0 where q0: "map_of qs0 i = Some q0"
      by (metis map_of_eq_None_iff not_None_eq)
    have new: "i \<notin> set (b_seq_ids (fst bs))" using "2.prems"(4,5) by auto
    then have q: "map_of (snd bs) i = Some q0" using "2.prems"(2) q0 by (simp add: track_def)
    let ?chunk = "min (length (sq_prompt_tokens q0) - sq_prompt_pos q0) (sc_max_prefill_tokens cfg)"
    let ?bs = "issue_prefill i ?chunk (q0\<lparr>sq_state := Prefilling\<rparr>) bs"
    have wf: "wf_seq q0" using "2.prems"(3) q0 by (simp add: all_wf_def)
    note iss = issue_track [OF "2.prems"(2) new q0 wf wf_min_chunk refl, of "sc_max_prefill_tokens cfg"]
    have rec: "promote cfg waiting (active @ [i]) ?bs = (waiting', active', bs')"
      using "2.prems"(1) True q by simp
    obtain pre where pre: "waiting = pre @ waiting'" "active' = (active @ [i]) @ pre"
        "b_seq_ids (fst bs') = b_seq_ids (fst ?bs) @ pre" "track qs0 bs'"
        "length active' \<le> max (length (active @ [i])) (sc_max_sequences cfg)"
        "length (b_seq_ids (fst bs')) \<le> max (length (b_seq_ids (fst ?bs))) (sc_max_batch_sequences cfg)"
        "batch_total_tokens (fst bs') \<le>
          batch_total_tokens (fst ?bs) + length pre * sc_max_prefill_tokens cfg"
    proof -
      have "distinct (waiting @ active @ [i])" and "set (b_seq_ids (fst ?bs)) \<subseteq> set (active @ [i])"
        and "set waiting \<subseteq> fst ` set qs0"
        using "2.prems"(4-6) iss(2) by auto
      then show ?thesis using "2.IH"(2) [OF True q refl refl refl] rec iss(1) "2.prems"(3) that by auto
    qed
    have "batch_total_tokens (fst bs') \<le>
        batch_total_tokens (fst bs) + length (i # pre) * sc_max_prefill_tokens cfg"
      using pre(7) iss(3) by simp
    then show ?thesis
      using pre iss(2) True by (intro exI [of _ "i # pre"]) auto
  qed
qed

lemma budget_bound: "\<not> m \<le> t \<Longrightarrow> t + min c (m - t) \<le> m" for m :: nat
  by (simp add: min_def) arith

lemma continue_spec:
  assumes "continue_prefill cfg ids bs = bs'" and "track qs0 bs" and "all_wf qs0"
  shows "\<exists>extra. b_seq_ids (fst bs') = b_seq_ids (fst bs) @ extra \<and> set extra \<subseteq> set ids \<and> track qs0 bs' \<and>
    batch_total_tokens (fst bs') \<le> max (batch_total_tokens (fst bs)) (sc_max_batch_tokens cfg)"
  using assms(1,2)
proof (induction ids arbitrary: bs)
  case Nil
  then show ?case by auto
next
  case (Cons i ids)
  note unfold = Cons.prems(1) [unfolded continue_prefill.simps]
  consider "batch_total_tokens (fst bs) \<ge> sc_max_batch_tokens cfg" |
    "\<not> batch_total_tokens (fst bs) \<ge> sc_max_batch_tokens cfg" "continue_prefill cfg ids bs = bs'" |
    q where "\<not> batch_total_tokens (fst bs) \<ge> sc_max_batch_tokens cfg" "i \<notin> set (b_seq_ids (fst bs))"
      "map_of (snd bs) i = Some q" "sq_state q = Prefilling"
      "continue_prefill cfg ids (issue_prefill i
         (min (min (length (sq_prompt_tokens q) - sq_prompt_pos q) (sc_max_prefill_tokens cfg))
           (sc_max_batch_tokens cfg - batch_total_tokens (fst bs))) q bs) = bs'"
    using unfold by (auto simp: Let_def split: if_splits option.splits)
  then show ?case
  proof cases
    case 1
    then show ?thesis using Cons.prems by (intro exI [of _ "[]"]) auto
  next
    case 2
    from Cons.IH [OF 2(2) Cons.prems(2)] show ?thesis by auto
  next
    case (3 q)
    let ?chunk = "min (min (length (sq_prompt_tokens q) - sq_prompt_pos q) (sc_max_prefill_tokens cfg))
           (sc_max_batch_tokens cfg - batch_total_tokens (fst bs))"
    have q0: "map_of qs0 i = Some q" using Cons.prems(2) 3(2,3) by (simp add: track_def)
    have wf: "wf_seq q" using assms(3) q0 by (simp add: all_wf_def)
    have "q = q\<lparr>sq_state := Prefilling\<rparr>" using 3(4) by simp
    note iss = issue_track [OF Cons.prems(2) 3(2) q0 wf _ this, of ?chunk]
    have chunk: "?chunk \<le> length (sq_prompt_tokens q) - sq_prompt_pos q" by simp
    obtain extra where e: "b_seq_ids (fst bs') = b_seq_ids (fst (issue_prefill i ?chunk q bs)) @ extra"
        "set extra \<subseteq> set ids" "track qs0 bs'"
        "batch_total_tokens (fst bs') \<le>
          max (batch_total_tokens (fst (issue_prefill i ?chunk q bs))) (sc_max_batch_tokens cfg)"
      using Cons.IH [OF 3(5) iss(1) [OF chunk]] by blast
    have "batch_total_tokens (fst bs') \<le> max (batch_total_tokens (fst bs)) (sc_max_batch_tokens cfg)"
    proof -
      have "batch_total_tokens (fst bs) + ?chunk \<le> sc_max_batch_tokens cfg"
        using 3(1) budget_bound by simp
      then show ?thesis using e(4) unfolding iss(3) [OF chunk] by simp
    qed
    then show ?thesis using e iss(2) [OF chunk] by (intro exI [of _ "i # extra"]) auto
  qed
qed

lemma decode_spec:
  assumes "schedule_decode cfg qs ids b = b'" and "batch_ok b"
  shows "\<exists>extra. b_seq_ids b' = b_seq_ids b @ extra \<and> set extra \<subseteq> set ids \<and> batch_ok b' \<and>
    (\<forall>i. delivered i b' = delivered i b) \<and>
    batch_total_tokens b' \<le> max (batch_total_tokens b) (sc_max_batch_tokens cfg) \<and>
    length (b_seq_ids b') \<le> max (length (b_seq_ids b)) (sc_max_batch_sequences cfg)"
  using assms
proof (induction ids arbitrary: b)
  case Nil
  then show ?case by auto
next
  case (Cons i ids)
  note unfold = Cons.prems(1) [unfolded schedule_decode.simps]
  consider "b' = b" | "schedule_decode cfg qs ids b = b'" |
    q where "\<not> length (b_seq_ids b) \<ge> sc_max_batch_sequences cfg"
      "\<not> batch_total_tokens b \<ge> sc_max_batch_tokens cfg" "i \<notin> set (b_seq_ids b)"
      "schedule_decode cfg qs ids (batch_push i [decode_token q] False b) = b'"
    using unfold by (auto split: if_splits option.splits)
  then show ?case
  proof cases
    case 1
    then show ?thesis using Cons.prems(2) by (intro exI [of _ "[]"]) auto
  next
    case 2
    from Cons.IH [OF 2 Cons.prems(2)] show ?thesis by auto
  next
    case (3 q)
    have ok: "batch_ok (batch_push i [decode_token q] False b)"
      using Cons.prems(2) 3(3) by (rule batch_push_ok)
    obtain extra where e: "b_seq_ids b' = (b_seq_ids b @ [i]) @ extra" "set extra \<subseteq> set ids" "batch_ok b'"
        "\<forall>j. delivered j b' = delivered j b"
        "batch_total_tokens b' \<le> max (batch_total_tokens b + 1) (sc_max_batch_tokens cfg)"
        "length (b_seq_ids b') \<le> max (length (b_seq_ids b) + 1) (sc_max_batch_sequences cfg)"
      using Cons.IH [OF 3(4) ok] delivered_push [OF Cons.prems(2)] by auto
    then show ?thesis using 3(1,2) by (intro exI [of _ "i # extra"]) auto
  qed
qed

section \<open>The invariant\<close>

definition sched_inv :: "scheduler \<Rightarrow> bool" where
  "sched_inv s \<longleftrightarrow>
     distinct (map fst (sd_sequences s)) \<and> all_wf (sd_sequences s) \<and>
     distinct (sd_waiting_queue s @ sd_active_ids s) \<and>
     set (sd_waiting_queue s) \<union> set (sd_active_ids s) \<subseteq> fst ` set (sd_sequences s) \<and>
     (\<forall>i \<in> set (sd_active_ids s). \<exists>q. map_of (sd_sequences s) i = Some q \<and>
        sq_state q \<in> {Prefilling, Decoding}) \<and>
     length (sd_active_ids s) \<le> sc_max_sequences (sd_config s) \<and>
     (\<forall>i \<in> fst ` set (sd_sequences s). i < sd_next_id s)"

lemma scheduler_new_inv: "sched_inv (scheduler_new cfg)"
  by (simp add: sched_inv_def scheduler_new_def all_wf_def)

lemma schedule_spec:
  assumes inv: "sched_inv s" and sch: "schedule s = (b, s')"
  obtains pre where "sd_waiting_queue s = pre @ sd_waiting_queue s'"
    and "set (sd_active_ids s') \<subseteq> set (sd_active_ids s @ pre)"
    and "\<exists>extra. b_seq_ids b = pre @ extra"
    and "batch_ok b" and "set (b_seq_ids b) \<subseteq> set (sd_active_ids s @ pre)"
    and "\<And>i q0. map_of (sd_sequences s) i = Some q0 \<Longrightarrow>
      \<exists>q. map_of (sd_sequences s') i = Some q \<and> tracked (delivered i b) q0 q"
    and "map fst (sd_sequences s') = map fst (sd_sequences s)" and "sched_inv s'"
    and "batch_total_tokens b \<le>
      max (length pre * sc_max_prefill_tokens (sd_config s)) (sc_max_batch_tokens (sd_config s))"
    and "length pre \<le> sc_max_batch_sequences (sd_config s)"
    and "length (sd_active_ids s @ pre) \<le> sc_max_sequences (sd_config s)"
    and "sd_config s' = sd_config s" and "sd_next_id s' = sd_next_id s"
proof -
  let ?cfg = "sd_config s" and ?qs = "sd_sequences s"
  obtain w a b1 qs1 where p: "promote ?cfg (sd_waiting_queue s) (sd_active_ids s) (empty_batch, ?qs) =
      (w, a, b1, qs1)"
    by (metis prod_cases3 surj_pair)
  obtain b2 qs2 where c: "continue_prefill ?cfg a (b1, qs1) = (b2, qs2)" by fastforce
  obtain b3 where d: "schedule_decode ?cfg qs2 a b2 = b3" by simp
  have b: "b = b3" and s': "s' = s\<lparr>sd_sequences := qs2, sd_waiting_queue := w,
      sd_active_ids := filter (still_active qs2) a\<rparr>"
    using sch by (simp_all add: schedule_def p c d Let_def)
  have wf: "all_wf ?qs" and dist: "distinct (sd_waiting_queue s @ sd_active_ids s)"
    and sub: "set (sd_waiting_queue s) \<subseteq> fst ` set ?qs"
    using inv by (simp_all add: sched_inv_def)
  from promote_spec [OF p track_refl wf dist _ sub] obtain pre where
      pre: "sd_waiting_queue s = pre @ w" "a = sd_active_ids s @ pre" "b_seq_ids b1 = pre"
      "track ?qs (b1, qs1)" "length a \<le> max (length (sd_active_ids s)) (sc_max_sequences ?cfg)"
      "length pre \<le> sc_max_batch_sequences ?cfg"
      "batch_total_tokens b1 \<le> length pre * sc_max_prefill_tokens ?cfg"
    by auto
  from continue_spec [OF c pre(4) wf] obtain extra where
      ex: "b_seq_ids b2 = pre @ extra" "set extra \<subseteq> set a" "track ?qs (b2, qs2)"
      "batch_total_tokens b2 \<le> max (batch_total_tokens b1) (sc_max_batch_tokens ?cfg)"
    using pre(3) by auto
  have "batch_ok b2" using ex(3) by (simp add: track_def)
  from decode_spec [OF d this] obtain extra2 where
      de: "b_seq_ids b = (pre @ extra) @ extra2" "set extra2 \<subseteq> set a" "batch_ok b"
      "\<forall>i. delivered i b = delivered i b2"
      "batch_total_tokens b \<le> max (batch_total_tokens b2) (sc_max_batch_tokens ?cfg)"
    using ex(1) b by auto
  have active: "length a \<le> sc_max_sequences ?cfg"
    using pre(5) inv by (simp add: sched_inv_def)
  have keys: "map fst qs2 = map fst ?qs" using ex(3) by (simp add: track_def)
  have trk: "\<exists>q. map_of qs2 i = Some q \<and> tracked (delivered i b) q0 q"
    if "map_of ?qs i = Some q0" for i q0
    using ex(3) that de(4) by (simp add: track_def)
  have same: "map_of qs2 i = map_of ?qs i" if "i \<notin> set (b_seq_ids b2)" for i
    using ex(3) that by (simp add: track_def)
  have issued: "\<exists>q. map_of qs2 i = Some q \<and> wf_seq q \<and> sq_state q \<in> {Prefilling, Decoding}"
    if "i \<in> set (b_seq_ids b2)" for i
    using ex(3) that by (simp add: track_def)
  have wf2: "all_wf qs2"
    unfolding all_wf_def
  proof (intro allI impI)
    fix i q assume "map_of qs2 i = Some q"
    then show "wf_seq q"
      using same [of i] issued [of i] wf by (cases "i \<in> set (b_seq_ids b2)") (auto simp: all_wf_def)
  qed
  have act2: "\<exists>q. map_of qs2 i = Some q \<and> sq_state q \<in> {Prefilling, Decoding}" if "i \<in> set a" for i
  proof (cases "i \<in> set (b_seq_ids b2)")
    case True
    then show ?thesis using issued by blast
  next
    case False
    then have "i \<in> set (sd_active_ids s)" using that pre(2) ex(1) by simp
    then show ?thesis using inv unfolding same [OF False] sched_inv_def by blast
  qed
  have sets: "set pre \<subseteq> fst ` set ?qs" "set (sd_active_ids s) \<subseteq> fst ` set ?qs" "set w \<subseteq> fst ` set ?qs"
    using inv pre(1) by (auto simp: sched_inv_def)
  have keyset: "fst ` set qs2 = fst ` set ?qs" using keys by (metis list.set_map)
  have "sched_inv s'"
    unfolding sched_inv_def
  proof (intro conjI ballI)
    show "distinct (map fst (sd_sequences s'))" using keys inv by (simp add: s' sched_inv_def)
    show "all_wf (sd_sequences s')" using wf2 by (simp add: s')
    show "distinct (sd_waiting_queue s' @ sd_active_ids s')"
      using dist pre(1,2) by (auto simp: s')
    show "set (sd_waiting_queue s') \<union> set (sd_active_ids s') \<subseteq> fst ` set (sd_sequences s')"
      using sets pre(2) keyset by (auto simp: s')
    show "\<exists>q. map_of (sd_sequences s') i = Some q \<and> sq_state q \<in> {Prefilling, Decoding}"
      if "i \<in> set (sd_active_ids s')" for i
      using act2 that by (simp add: s')
    show "length (sd_active_ids s') \<le> sc_max_sequences (sd_config s')"
      using active by (simp add: s' order_trans [OF length_filter_le])
    show "i < sd_next_id s'" if "i \<in> fst ` set (sd_sequences s')" for i
    proof -
      have "i \<in> fst ` set ?qs" using that keyset by (simp add: s')
      then show ?thesis using inv by (auto simp: s' sched_inv_def)
    qed
  qed
  moreover have "batch_total_tokens b \<le>
      max (length pre * sc_max_prefill_tokens ?cfg) (sc_max_batch_tokens ?cfg)"
    using de(5) ex(4) pre(7) by simp
  moreover have "set (b_seq_ids b) \<subseteq> set (sd_active_ids s @ pre)"
    using de(1,2) ex(2) pre(2) by auto
  ultimately show thesis
    using that [of pre] pre(1,2,6) de(1,3) trk keys active by (auto simp: s')
qed

section \<open>Histories\<close>

text \<open>
  \<open>history cfg s bs\<close>: the scheduler started with \<open>cfg\<close>, served some requests, is now in state
  \<open>s\<close>, and the batches it issued so far are \<open>bs\<close>, oldest first. Identifiers are not reused as
  long as \<open>next_id\<close> has not wrapped.
\<close>

inductive history :: "scheduler_config \<Rightarrow> scheduler \<Rightarrow> batch list \<Rightarrow> bool" for cfg where
  start: "history cfg (scheduler_new cfg) []"
| add: "history cfg s bs \<Longrightarrow> sd_next_id s \<noteq> - 1 \<Longrightarrow> add_request now prompt limit s = (i, s') \<Longrightarrow>
    history cfg s' bs"
| remove: "history cfg s bs \<Longrightarrow> history cfg (remove_sequence i s) bs"
| finish: "history cfg s bs \<Longrightarrow> history cfg (finish_sequence i s) bs"
| append: "history cfg s bs \<Longrightarrow> history cfg (append_token now i tok s) bs"
| schedule: "history cfg s bs \<Longrightarrow> schedule s = (b, s') \<Longrightarrow> history cfg s' (bs @ [b])"
| drain: "history cfg s bs \<Longrightarrow> drain_finished s = (done_seqs, s') \<Longrightarrow> history cfg s' bs"

text \<open>What holds of a history.\<close>

definition handed :: "scheduler \<Rightarrow> batch list \<Rightarrow> bool" where
  "handed s bs \<longleftrightarrow>
     (\<forall>b \<in> set bs. \<forall>i \<in> set (b_seq_ids b). i < sd_next_id s) \<and>
     (\<forall>i q. map_of (sd_sequences s) i = Some q \<longrightarrow>
        concat (map (delivered i) bs) = take (sq_prompt_pos q) (sq_prompt_tokens q))"

lemma next_id_less: "x \<noteq> - 1 \<Longrightarrow> x < x + 1" for x :: u64
proof -
  assume "x \<noteq> - 1"
  then have "1 + x \<noteq> 0" by (metis add_eq_0_iff minus_minus)
  then have "unat (1 + x) = Suc (unat x)" by (rule unatSuc)
  then show "x < x + 1" by (simp add: word_less_nat_alt add.commute)
qed

lemma modify_seq_simps [simp]:
  "sd_config (modify_seq f i s) = sd_config s" "sd_next_id (modify_seq f i s) = sd_next_id s"
  "sd_waiting_queue (modify_seq f i s) = sd_waiting_queue s"
  "sd_active_ids (modify_seq f i s) = sd_active_ids s"
  "map fst (sd_sequences (modify_seq f i s)) = map fst (sd_sequences s)"
  by (auto simp: modify_seq_def update_keys_same map_of_key split: option.split)

lemma modify_seq_map:
  "map_of (sd_sequences (modify_seq f i s)) j =
     (if j = i then map_option f (map_of (sd_sequences s) j) else map_of (sd_sequences s) j)"
  by (auto simp: modify_seq_def map_of_update_list split: option.split)

lemma modify_seq_keys [simp]: "fst ` set (sd_sequences (modify_seq f i s)) = fst ` set (sd_sequences s)"
  using modify_seq_simps(5) by (metis list.set_map)

lemma handed_modify:
  assumes "handed s bs"
    and "\<And>q. sq_prompt_pos (f q) = sq_prompt_pos q \<and> sq_prompt_tokens (f q) = sq_prompt_tokens q"
  shows "handed (modify_seq f i s) bs"
  using assms by (auto simp: handed_def modify_seq_map)

lemma add_request_inv:
  assumes "sched_inv s" and "sd_next_id s \<noteq> - 1" and "add_request now prompt limit s = (i, s')"
  shows "sched_inv s'" and "i = sd_next_id s" and "i \<notin> fst ` set (sd_sequences s)"
    and "sd_config s' = sd_config s" and "sd_next_id s < sd_next_id s'"
    and "map_of (sd_sequences s') = (map_of (sd_sequences s))(i \<mapsto> seq_new now i prompt limit)"
proof -
  let ?n = "sd_next_id s"
  have i: "i = ?n" and s': "s' = s\<lparr>sd_next_id := ?n + 1,
      sd_sequences := AList.update ?n (seq_new now ?n prompt limit) (sd_sequences s),
      sd_waiting_queue := sd_waiting_queue s @ [?n]\<rparr>"
    using assms(3) by (auto simp: add_request_def Let_def)
  have fresh: "?n \<notin> fst ` set (sd_sequences s)" using assms(1) by (auto simp: sched_inv_def)
  have up: "AList.update ?n (seq_new now ?n prompt limit) (sd_sequences s) =
      sd_sequences s @ [(?n, seq_new now ?n prompt limit)]"
    by (rule AList_update_new [OF fresh])
  note lt = next_id_less [OF assms(2)]
  have nq: "?n \<notin> set (sd_waiting_queue s) \<union> set (sd_active_ids s)"
    using fresh assms(1) by (auto simp: sched_inv_def)
  have act: "map_of (sd_sequences s') j = map_of (sd_sequences s) j" if "j \<in> set (sd_active_ids s)" for j
    using that nq by (auto simp: s' map_of_update_list)
  have wf: "all_wf (sd_sequences s')"
    using assms(1) by (auto simp: all_wf_def s' map_of_update_list sched_inv_def wf_seq_def seq_new_def)
  have less: "\<forall>j \<in> fst ` set (sd_sequences s'). j < sd_next_id s'"
    using assms(1) lt by (auto simp: sched_inv_def s' up intro: less_trans)
  show "sched_inv s'"
    unfolding sched_inv_def
  proof (intro conjI)
    show "\<forall>i \<in> set (sd_active_ids s'). \<exists>q. map_of (sd_sequences s') i = Some q \<and>
        sq_state q \<in> {Prefilling, Decoding}"
    proof
      fix j assume "j \<in> set (sd_active_ids s')"
      then have j: "j \<in> set (sd_active_ids s)" by (simp add: s')
      then show "\<exists>q. map_of (sd_sequences s') j = Some q \<and> sq_state q \<in> {Prefilling, Decoding}"
        using assms(1) unfolding act [OF j] sched_inv_def by blast
    qed
  qed (use assms(1) fresh nq wf less in \<open>auto simp: s' up sched_inv_def\<close>)
  show "i = ?n" by (rule i)
  show "i \<notin> fst ` set (sd_sequences s)" using fresh i by simp
  show "sd_config s' = sd_config s" "?n < sd_next_id s'" using lt by (simp_all add: s')
  show "map_of (sd_sequences s') = (map_of (sd_sequences s))(i \<mapsto> seq_new now i prompt limit)"
    by (simp add: s' i map_of_update_list)
qed

lemma sched_invD:
  assumes "sched_inv s"
  shows "distinct (map fst (sd_sequences s))" and "all_wf (sd_sequences s)"
    and "distinct (sd_waiting_queue s @ sd_active_ids s)"
    and "set (sd_waiting_queue s) \<subseteq> fst ` set (sd_sequences s)"
    and "set (sd_active_ids s) \<subseteq> fst ` set (sd_sequences s)"
    and "j \<in> set (sd_active_ids s) \<Longrightarrow>
      \<exists>q. map_of (sd_sequences s) j = Some q \<and> sq_state q \<in> {Prefilling, Decoding}"
    and "length (sd_active_ids s) \<le> sc_max_sequences (sd_config s)"
    and "j \<in> fst ` set (sd_sequences s) \<Longrightarrow> j < sd_next_id s"
  using assms unfolding sched_inv_def by blast+

lemma sched_invI:
  assumes "distinct (map fst qs)" and "all_wf qs" and "distinct (w @ a)"
    and "set w \<union> set a \<subseteq> fst ` set qs"
    and "\<And>j. j \<in> set a \<Longrightarrow> \<exists>q. map_of qs j = Some q \<and> sq_state q \<in> {Prefilling, Decoding}"
    and "length a \<le> sc_max_sequences cfg" and "\<And>j. j \<in> fst ` set qs \<Longrightarrow> j < n"
  shows "sched_inv \<lparr>sd_config = cfg, sd_sequences = qs, sd_next_id = n, sd_waiting_queue = w,
           sd_active_ids = a\<rparr>"
  unfolding sched_inv_def scheduler.select_convs using assms by blast

lemma key_lookup: "k \<in> fst ` set al \<Longrightarrow> \<exists>v. map_of al k = Some v"
  by (metis map_of_eq_None_iff not_None_eq)

text \<open>Dropping some sequences, and their identifiers from both queues.\<close>

lemma map_of_filter:
  assumes "distinct (map fst al)"
  shows "map_of (filter (\<lambda>(i, q). keep i q) al) k = Some q \<longleftrightarrow> map_of al k = Some q \<and> keep k q"
  using map_of_eq_Some_iff [OF assms] map_of_eq_Some_iff [OF distinct_map_filter [OF assms]] by auto

lemma filtered_inv:
  assumes inv: "sched_inv s"
    and agree: "\<And>i q. map_of (sd_sequences s) i = Some q \<Longrightarrow> P i = keep i q"
  shows "sched_inv (s\<lparr>sd_sequences := filter (\<lambda>(i, q). keep i q) (sd_sequences s),
           sd_waiting_queue := filter P (sd_waiting_queue s),
           sd_active_ids := filter P (sd_active_ids s)\<rparr>)"
proof -
  let ?qs = "sd_sequences s"
  let ?fs = "filter (\<lambda>(i, q). keep i q) ?qs"
  let ?s = "s\<lparr>sd_sequences := ?fs, sd_waiting_queue := filter P (sd_waiting_queue s),
      sd_active_ids := filter P (sd_active_ids s)\<rparr>"
  note D = sched_invD [OF inv]
  note look = map_of_filter [OF D(1)]
  have kept: "j \<in> fst ` set ?fs" if "j \<in> fst ` set ?qs" "P j" for j
  proof -
    note jP = that
    obtain q where q: "map_of ?qs j = Some q" using key_lookup [OF jP(1)] by blast
    then have "map_of ?fs j = Some q" using look agree [OF q] jP(2) by simp
    then show ?thesis by (rule map_of_key)
  qed
  have active: "\<exists>q. map_of ?fs j = Some q \<and> sq_state q \<in> {Prefilling, Decoding}"
    if "j \<in> set (sd_active_ids s)" "P j" for j
  proof -
    note jP = that
    obtain q where q: "map_of ?qs j = Some q" "sq_state q \<in> {Prefilling, Decoding}"
      using D(6) [OF jP(1)] by blast
    then show ?thesis using agree [OF q(1)] jP(2) look by blast
  qed
  have wf: "all_wf ?fs" using D(2) by (auto simp: all_wf_def look)
  have dist: "distinct (map fst ?fs)" by (rule distinct_map_filter [OF D(1)])
  have dq: "distinct (filter P (sd_waiting_queue s) @ filter P (sd_active_ids s))"
    using D(3) by auto
  have sub: "set (filter P (sd_waiting_queue s)) \<union> set (filter P (sd_active_ids s)) \<subseteq> fst ` set ?fs"
  proof
    fix j assume "j \<in> set (filter P (sd_waiting_queue s)) \<union> set (filter P (sd_active_ids s))"
    then have "j \<in> fst ` set ?qs" "P j" using D(4,5) by auto
    then show "j \<in> fst ` set ?fs" by (rule kept)
  qed
  have less: "j < sd_next_id s" if "j \<in> fst ` set ?fs" for j
    using that by (intro D(8)) auto
  have len: "length (filter P (sd_active_ids s)) \<le> sc_max_sequences (sd_config s)"
    using D(7) by (rule order_trans [OF length_filter_le])
  have act: "\<exists>q. map_of ?fs j = Some q \<and> sq_state q \<in> {Prefilling, Decoding}"
    if "j \<in> set (filter P (sd_active_ids s))" for j
    using active [of j] that by simp
  have eq: "?s = \<lparr>sd_config = sd_config s, sd_sequences = ?fs, sd_next_id = sd_next_id s,
      sd_waiting_queue = filter P (sd_waiting_queue s), sd_active_ids = filter P (sd_active_ids s)\<rparr>"
    by simp
  show "sched_inv ?s"
    unfolding eq by (rule sched_invI [OF dist wf dq sub act len less])
qed

lemma modify_inv:
  assumes inv: "sched_inv s" and f: "\<And>q. wf_seq q \<Longrightarrow> wf_seq (f q)"
    and act: "\<And>j q. j \<in> set (filter P (sd_active_ids s)) \<Longrightarrow> sq_state q \<in> {Prefilling, Decoding} \<Longrightarrow>
      sq_state (if j = i then f q else q) \<in> {Prefilling, Decoding}"
  shows "sched_inv ((modify_seq f i s)\<lparr>sd_active_ids := filter P (sd_active_ids s)\<rparr>)"
proof -
  let ?m = "modify_seq f i s"
  note D = sched_invD [OF inv]
  have active: "\<exists>q. map_of (sd_sequences ?m) j = Some q \<and> sq_state q \<in> {Prefilling, Decoding}"
    if j: "j \<in> set (filter P (sd_active_ids s))" for j
  proof -
    have "j \<in> set (sd_active_ids s)" using j by simp
    then obtain q where q: "map_of (sd_sequences s) j = Some q" "sq_state q \<in> {Prefilling, Decoding}"
      using D(6) by blast
    then show ?thesis using act [OF j q(2)] by (cases "j = i") (simp_all add: modify_seq_map)
  qed
  have wf: "all_wf (sd_sequences ?m)"
    using D(2) f by (auto simp: all_wf_def modify_seq_map split: if_splits)
  have less: "j < sd_next_id s" if "j \<in> fst ` set (sd_sequences ?m)" for j
    using that unfolding modify_seq_keys by (rule D(8))
  have sub: "set (sd_waiting_queue s) \<union> set (filter P (sd_active_ids s)) \<subseteq> fst ` set (sd_sequences ?m)"
    unfolding modify_seq_keys using D(4,5) by auto
  have dist: "distinct (map fst (sd_sequences ?m))" using D(1) by simp
  have dq: "distinct (sd_waiting_queue s @ filter P (sd_active_ids s))" using D(3) by auto
  have len: "length (filter P (sd_active_ids s)) \<le> sc_max_sequences (sd_config s)"
    using D(7) by (rule order_trans [OF length_filter_le])
  have eq: "?m\<lparr>sd_active_ids := filter P (sd_active_ids s)\<rparr> =
      \<lparr>sd_config = sd_config s, sd_sequences = sd_sequences ?m, sd_next_id = sd_next_id s,
       sd_waiting_queue = sd_waiting_queue s, sd_active_ids = filter P (sd_active_ids s)\<rparr>"
    by simp
  show ?thesis
    unfolding eq by (rule sched_invI [OF dist wf dq sub active len less])
qed

lemma modify_seq_active: "(modify_seq f i s)\<lparr>sd_active_ids := sd_active_ids s\<rparr> = modify_seq f i s"
  by (simp add: modify_seq_def split: option.split)

lemma handed_active: "handed (s\<lparr>sd_active_ids := a\<rparr>) bs = handed s bs"
  by (simp add: handed_def)

lemma append_token_inv: 
  assumes "sched_inv s"
  shows "sched_inv (append_token now i tok s)"
proof -
  let ?f = "\<lambda>q. q\<lparr>sq_output_tokens := sq_output_tokens q @ [tok], sq_last_emit_time := now\<rparr>"
  have "sched_inv ((modify_seq ?f i s)\<lparr>sd_active_ids := filter (\<lambda>_. True) (sd_active_ids s)\<rparr>)"
    using assms by (intro modify_inv) (auto simp: wf_seq_def)
  moreover have "filter (\<lambda>_. True) (sd_active_ids s) = sd_active_ids s" by simp
  ultimately show ?thesis unfolding append_token_def using modify_seq_active by metis
qed

lemma request_config [simp]:
  "sd_config (append_token now i tok s) = sd_config s" "sd_config (finish_sequence i s) = sd_config s"
  by (simp_all add: append_token_def finish_sequence_def Let_def)

lemma finish_sequence_inv: "sched_inv s \<Longrightarrow> sched_inv (finish_sequence i s)"
  unfolding finish_sequence_def Let_def modify_seq_simps
  by (rule modify_inv) (auto simp: wf_seq_def)

lemma schedule_handed:
  assumes inv: "sched_inv s" and hd: "handed s bs" and sch: "schedule s = (b, s')"
  shows "sched_inv s' \<and> sd_config s' = sd_config s \<and> handed s' (bs @ [b])"
proof (rule schedule_spec [OF inv sch], goal_cases)
  case (1 pre)
  note pre = 1(1) and ids = 1(5) and tr = 1(6) and keys = 1(7) and inv' = 1(8) and cfg = 1(12) and nid = 1(13)
  note D = sched_invD [OF inv]
  have "set pre \<subseteq> set (sd_waiting_queue s)" using pre by simp
  then have sub: "set (sd_active_ids s @ pre) \<subseteq> fst ` set (sd_sequences s)"
    using D(4,5) by auto
  have less: "i < sd_next_id s" if "i \<in> set (b_seq_ids b)" for i
    using that ids sub by (intro D(8)) blast
  have "concat (map (delivered i) (bs @ [b])) = take (sq_prompt_pos q) (sq_prompt_tokens q)"
    if q: "map_of (sd_sequences s') i = Some q" for i q
  proof -
    have "set (map fst (sd_sequences s')) = set (map fst (sd_sequences s))" by (simp only: keys)
    then have "i \<in> fst ` set (sd_sequences s)" using map_of_key [OF q] by simp
    from key_lookup [OF this] obtain q0 where q0: "map_of (sd_sequences s) i = Some q0" by blast
    let ?d = "delivered i b"
    have t: "tracked ?d q0 q" using tr [OF q0] q by simp
    note q' = conjunct1 [OF t [unfolded tracked_def]] and d = conjunct2 [OF t [unfolded tracked_def]]
    have pos: "sq_prompt_pos q = sq_prompt_pos q0 + length ?d"
      using arg_cong [OF q', of sq_prompt_pos] by simp
    have toks: "sq_prompt_tokens q = sq_prompt_tokens q0"
      using arg_cong [OF q', of sq_prompt_tokens] by simp
    have "concat (map (delivered i) bs) = take (sq_prompt_pos q0) (sq_prompt_tokens q0)"
      using hd q0 unfolding handed_def by blast
    then show ?thesis unfolding pos toks take_add d [symmetric] by simp
  qed
  then have "handed s' (bs @ [b])" using hd less nid by (auto simp: handed_def)
  then show ?case using inv' cfg by simp
qed

lemma history_handed:
  "history cfg s bs \<Longrightarrow> sched_inv s \<and> sd_config s = cfg \<and> handed s bs"
proof (induction rule: history.induct)
  case start
  then show ?case by (simp add: scheduler_new_inv) (simp add: scheduler_new_def handed_def)
next
  case (add s bs now prompt limit i s')
  note a = add_request_inv [OF conjunct1 [OF add.IH] add.hyps(2,3)]
  have hd: "handed s bs" using add.IH by simp
  have "concat (map (delivered i) bs) = []"
    using hd a(2) by (auto simp: handed_def intro!: delivered_absent)
  then have "handed s' bs"
    using hd a(2,5,6) by (auto simp: handed_def seq_new_def intro: less_trans)
  then show ?case using a add.IH by simp
next
  case (remove s bs i)
  let ?fs = "filter (\<lambda>(j, q). j \<noteq> i) (sd_sequences s)"
  have inv: "sched_inv s" using remove.IH by simp
  have "(\<lambda>(j, q). i \<noteq> j) = (\<lambda>(j, q :: seq). j \<noteq> i)" by auto
  then have eq: "remove_sequence i s = s\<lparr>sd_sequences := ?fs,
      sd_waiting_queue := filter (\<lambda>x. x \<noteq> i) (sd_waiting_queue s),
      sd_active_ids := filter (\<lambda>x. x \<noteq> i) (sd_active_ids s)\<rparr>"
    by (simp add: remove_sequence_def AList.delete_eq)
  have "sched_inv (remove_sequence i s)" unfolding eq by (rule filtered_inv [OF inv refl])
  moreover have "handed (remove_sequence i s) bs"
    using remove.IH map_of_filter [OF sched_invD(1) [OF inv], of "\<lambda>j q. j \<noteq> i"]
    unfolding eq by (simp add: handed_def)
  ultimately show ?case using remove.IH by (simp add: eq)
next
  case (finish s bs i)
  have "handed (finish_sequence i s) bs"
    unfolding finish_sequence_def Let_def handed_active
    using finish.IH by (intro handed_modify) simp_all
  then show ?case
    using finish.IH finish_sequence_inv [of s i] by (simp only: request_config)
next
  case (append s bs now i tok)
  have "handed (append_token now i tok s) bs"
    unfolding append_token_def using append.IH by (intro handed_modify) simp_all
  then show ?case
    using append.IH append_token_inv [of s now i tok] by (simp only: request_config)
next
  case (schedule s bs b s')
  then show ?case using schedule_handed [of s bs b s'] by simp
next
  case (drain s bs done_seqs s')
  let ?keep = "\<lambda>(j :: seq_id) q. \<not> is_finished q"
  let ?ids = "map fst (filter (\<lambda>(i, q). is_finished q) (sd_sequences s))"
  have inv: "sched_inv s" using drain.IH by simp
  then have dist: "distinct (map fst (sd_sequences s))" by (simp add: sched_inv_def)
  have agree: "(j \<notin> set ?ids) = ?keep j q" if "map_of (sd_sequences s) j = Some q" for j q
    using that by (auto simp: image_iff dest: map_of_is_SomeI [OF dist] map_of_SomeD)
  have s': "s' = s\<lparr>sd_sequences := filter (\<lambda>(i, q). \<not> is_finished q) (sd_sequences s),
      sd_waiting_queue := filter (\<lambda>x. x \<notin> set ?ids) (sd_waiting_queue s),
      sd_active_ids := filter (\<lambda>x. x \<notin> set ?ids) (sd_active_ids s)\<rparr>"
    using drain.hyps(2) by (auto simp: drain_finished_def Let_def)
  have "sched_inv s'" unfolding s' by (rule filtered_inv [OF inv agree])
  moreover have "handed s' bs"
    using drain.IH map_of_filter [OF dist, of "\<lambda>j q. \<not> is_finished q"]
    unfolding s' by (simp add: handed_def)
  ultimately show ?case using drain.IH by (simp add: s')
qed

end
