(* ===== verification/Scheduler_Properties.thy ===== *)
theory Scheduler_Properties
  imports Scheduler_Safety
begin

text \<open>
  The properties of the scheduler: a prompt is handed out exactly once and in order, admission is
  first in first out and exactly as large as the limits allow, a batch is well formed and bounded,
  a decode entry belongs to a sequence whose prompt is through; and where the scheduler differs
  from what its documentation says.
\<close>

section \<open>Admission\<close>

lemma issue_keys:
  "i \<in> fst ` set (snd bs) \<Longrightarrow> fst ` set (snd (issue_prefill i chunk q bs)) = fst ` set (snd bs)"
  using update_keys_same [of i "snd bs"]
  by (auto simp: issue_prefill_def split_beta simp flip: set_map)

lemma issue_ids: "b_seq_ids (fst (issue_prefill i chunk q bs)) = b_seq_ids (fst bs) @ [i]"
  by (simp add: issue_prefill_def split_beta)

text \<open>How many waiting sequences one call admits.\<close>

definition admitted :: "scheduler_config \<Rightarrow> nat \<Rightarrow> nat \<Rightarrow> nat" where
  "admitted cfg active batched =
     min (sc_max_sequences cfg - active) (sc_max_batch_sequences cfg - batched)"

lemma promote_prefix:
  "set waiting \<subseteq> fst ` set (snd bs) \<Longrightarrow>
   fst (promote cfg waiting active bs) =
     drop (admitted cfg (length active) (length (b_seq_ids (fst bs)))) waiting"
proof (induction cfg waiting active bs rule: promote.induct)
  case (1 cfg active bs)
  then show ?case by simp
next
  case (2 cfg sid waiting active bs)
  obtain q where q: "map_of (snd bs) sid = Some q"
    using 2(3) key_lookup [of sid "snd bs"] by auto
  let ?q = "q\<lparr>sq_state := Prefilling\<rparr>"
  let ?chunk = "min (length (sq_prompt_tokens ?q) - sq_prompt_pos ?q) (sc_max_prefill_tokens cfg)"
  let ?go = "length active < sc_max_sequences cfg \<and> length (b_seq_ids (fst bs)) < sc_max_batch_sequences cfg"
  show ?case
  proof (cases ?go)
    case True
    have "fst (promote cfg waiting (active @ [sid]) (issue_prefill sid ?chunk ?q bs)) =
      drop (admitted cfg (length (active @ [sid]))
        (length (b_seq_ids (fst (issue_prefill sid ?chunk ?q bs))))) waiting"
      using 2(3) True by (intro 2(2) [OF True q refl refl refl]) (simp add: issue_keys)
    moreover have "admitted cfg (length active) (length (b_seq_ids (fst bs))) =
        Suc (admitted cfg (Suc (length active)) (Suc (length (b_seq_ids (fst bs)))))"
      using True unfolding admitted_def by arith
    ultimately show ?thesis using True q by (simp add: issue_ids Let_def)
  next
    case False
    then have "admitted cfg (length active) (length (b_seq_ids (fst bs))) = 0"
      by (auto simp: admitted_def)
    then show ?thesis by (simp only: promote.simps if_not_P [OF False] fst_conv drop_0)
  qed
qed

text \<open>Every entry of the first two phases is a prefill entry.\<close>

definition all_prefill :: "batch \<Rightarrow> bool" where
  "all_prefill b \<longleftrightarrow> list_all (\<lambda>p. p) (b_is_prefill b)"

lemma issue_all_prefill: "all_prefill (fst bs) \<Longrightarrow> all_prefill (fst (issue_prefill i c q bs))"
  by (simp add: issue_prefill_def split_beta all_prefill_def batch_push_def)

lemma promote_all_prefill:
  "all_prefill (fst bs) \<Longrightarrow> all_prefill (fst (snd (snd (promote cfg w a bs))))"
  by (induction cfg w a bs rule: promote.induct)
    (auto simp: Let_def issue_all_prefill split: option.splits)

lemma continue_all_prefill: "all_prefill (fst bs) \<Longrightarrow> all_prefill (fst (continue_prefill cfg ids bs))"
  by (induction cfg ids bs rule: continue_prefill.induct)
    (auto simp: Let_def issue_all_prefill split: option.splits)

text \<open>What a decode entry stands for.\<close>

definition decode_entry :: "seqs \<Rightarrow> seq_id \<times> u32 list \<times> bool \<Rightarrow> bool" where
  "decode_entry qs e \<longleftrightarrow>
     snd (snd e) \<or>
     (\<exists>q. map_of qs (fst e) = Some q \<and> sq_state q = Decoding \<and> \<not> sq_stopped q \<and> \<not> at_limit q \<and>
        fst (snd e) = [decode_token q])"

definition entries :: "batch \<Rightarrow> (seq_id \<times> u32 list \<times> bool) list" where
  "entries b = zip (b_seq_ids b) (zip (b_tokens b) (b_is_prefill b))"

lemma entries_push: "batch_ok b \<Longrightarrow> entries (batch_push i toks p b) = entries b @ [(i, toks, p)]"
  by (simp add: entries_def batch_push_def batch_ok_def)

lemma all_prefill_entries: "all_prefill b \<Longrightarrow> list_all (decode_entry qs) (entries b)"
  by (auto simp: all_prefill_def entries_def list_all_iff decode_entry_def dest!: set_zip_rightD)

lemma decode_entries:
  "batch_ok b \<Longrightarrow> list_all (decode_entry qs) (entries b) \<Longrightarrow>
   list_all (decode_entry qs) (entries (schedule_decode cfg qs ids b))"
proof (induction ids arbitrary: b)
  case Nil
  then show ?case by simp
next
  case (Cons i ids)
  note push = batch_push_ok [OF Cons.prems(1)] and ent = entries_push [OF Cons.prems(1)]
  show ?case
    using Cons.prems Cons.IH [OF Cons.prems]
      Cons.IH [OF push, of i "[decode_token q]" False for q]
    by (auto simp: ent decode_entry_def split: option.splits)
qed

lemma phases_track:
  fixes s :: scheduler
  defines "p \<equiv> promote (sd_config s) (sd_waiting_queue s) (sd_active_ids s) (empty_batch, sd_sequences s)"
  assumes inv: "sched_inv s"
  shows "track (sd_sequences s) (continue_prefill (sd_config s) (fst (snd p)) (snd (snd p)))"
    and "\<exists>rest. b_seq_ids (fst (continue_prefill (sd_config s) (fst (snd p)) (snd (snd p)))) =
      take (admitted (sd_config s) (length (sd_active_ids s)) 0) (sd_waiting_queue s) @ rest"
    and "fst p = drop (admitted (sd_config s) (length (sd_active_ids s)) 0) (sd_waiting_queue s)"
proof -
  note D = sched_invD [OF inv]
  have p: "promote (sd_config s) (sd_waiting_queue s) (sd_active_ids s) (empty_batch, sd_sequences s) =
      (fst p, fst (snd p), snd (snd p))"
    by (simp add: p_def)
  have sub: "set (sd_waiting_queue s) \<subseteq> fst ` set (sd_sequences s)"
    and dist: "distinct (sd_waiting_queue s @ sd_active_ids s)"
    using inv by (simp_all add: sched_inv_def)
  obtain pre where pre: "sd_waiting_queue s = pre @ fst p" "b_seq_ids (fst (snd (snd p))) = pre"
      "track (sd_sequences s) (snd (snd p))"
    using promote_spec [OF p track_refl D(2) dist _ sub] by auto
  have w: "fst p = drop (admitted (sd_config s) (length (sd_active_ids s)) 0) (sd_waiting_queue s)"
    using promote_prefix [of "sd_waiting_queue s" "(empty_batch, sd_sequences s)"] sub by (simp add: p_def)
  have "pre @ fst p = take (admitted (sd_config s) (length (sd_active_ids s)) 0) (sd_waiting_queue s) @ fst p"
    unfolding w append_take_drop_id pre(1) [symmetric, unfolded w] by (rule refl)
  then have pre_eq: "pre = take (admitted (sd_config s) (length (sd_active_ids s)) 0) (sd_waiting_queue s)"
    by (simp only: append_same_eq)
  note c = continue_spec [OF refl pre(3) D(2)]
  show "track (sd_sequences s) (continue_prefill (sd_config s) (fst (snd p)) (snd (snd p)))"
    using c by blast
  show "\<exists>rest. b_seq_ids (fst (continue_prefill (sd_config s) (fst (snd p)) (snd (snd p)))) =
      take (admitted (sd_config s) (length (sd_active_ids s)) 0) (sd_waiting_queue s) @ rest"
    using c [of "sd_config s" "fst (snd p)"] unfolding pre(2) pre_eq by blast
  show "fst p = drop (admitted (sd_config s) (length (sd_active_ids s)) 0) (sd_waiting_queue s)"
    by (rule w)
qed

lemma schedule_phases:
  assumes "sched_inv s"
  obtains c active where "track (sd_sequences s) c"
    and "\<exists>rest. b_seq_ids (fst c) =
      take (admitted (sd_config s) (length (sd_active_ids s)) 0) (sd_waiting_queue s) @ rest"
    and "all_prefill (fst c)"
    and "fst (schedule s) = schedule_decode (sd_config s) (snd c) active (fst c)"
    and "sd_sequences (snd (schedule s)) = snd c"
    and "sd_waiting_queue (snd (schedule s)) =
      drop (admitted (sd_config s) (length (sd_active_ids s)) 0) (sd_waiting_queue s)"
proof -
  let ?p = "promote (sd_config s) (sd_waiting_queue s) (sd_active_ids s) (empty_batch, sd_sequences s)"
  let ?c = "continue_prefill (sd_config s) (fst (snd ?p)) (snd (snd ?p))"
  have "all_prefill (fst ?c)"
    by (intro continue_all_prefill promote_all_prefill) (simp add: all_prefill_def empty_batch_def)
  moreover have "fst (schedule s) = schedule_decode (sd_config s) (snd ?c) (fst (snd ?p)) (fst ?c)"
    "sd_sequences (snd (schedule s)) = snd ?c" "sd_waiting_queue (snd (schedule s)) = fst ?p"
    by (simp_all add: schedule_def Let_def split_beta)
  ultimately show thesis
    using that [of ?c "fst (snd ?p)"] phases_track [OF assms] by simp
qed

text \<open>The admitted sequences open the batch.\<close>

lemma schedule_admits:
  assumes "sched_inv s"
  shows "\<exists>rest. b_seq_ids (fst (schedule s)) =
      take (admitted (sd_config s) (length (sd_active_ids s)) 0) (sd_waiting_queue s) @ rest"
proof (rule schedule_phases [OF assms])
  fix c active
  assume "track (sd_sequences s) c"
    and r: "\<exists>rest. b_seq_ids (fst c) =
      take (admitted (sd_config s) (length (sd_active_ids s)) 0) (sd_waiting_queue s) @ rest"
    and d: "fst (schedule s) = schedule_decode (sd_config s) (snd c) active (fst c)"
  then have "batch_ok (fst c)" by (simp add: track_def)
  from decode_spec [OF refl this, of "sd_config s" "snd c" active] r
  show ?thesis unfolding d by (metis append.assoc)
qed

section \<open>What the scheduler guarantees\<close>

text \<open>C3: Over every history of requests, cancellations, tokens and batches, the prompt tokens the
  batches have carried for a live sequence are, in order and without repetition or gap, the part
  of its prompt that its \<open>prompt_pos\<close> says has been scheduled.\<close>

theorem prompt_delivered_once:
  assumes "history cfg s bs" and "get_sequence s i = Some q"
  shows "concat (map (delivered i) bs) = take (sq_prompt_pos q) (sq_prompt_tokens q)"
  using history_handed [OF assms(1)] assms(2) by (simp add: handed_def get_sequence_def)

definition tight_config :: scheduler_config where
  "tight_config =
     \<lparr>sc_max_sequences = 2, sc_max_batch_tokens = 2, sc_max_batch_sequences = 2, sc_max_prefill_tokens = 2\<rparr>"

text \<open>One request of three tokens under \<open>tight_config\<close>, and the two batches that carry it.\<close>

definition req_state :: scheduler where
  "req_state = snd (add_request 0 [5, 6, 7] 9 (scheduler_new tight_config))"

lemmas schedule_eval = schedule_def scheduler_new_def add_request_def seq_new_def empty_batch_def
  take_prefill_def issue_prefill_def batch_push_def batch_total_tokens_def still_active_def
  at_limit_def seq_total_tokens_def decode_token_def Let_def

lemma req_history: "history tight_config req_state []"
  unfolding req_state_def
  by (rule history.add [OF history.start, of _ 0 "[5, 6, 7]" 9 "fst (add_request 0 [5, 6, 7] 9 (scheduler_new tight_config))"])
    (simp_all add: scheduler_new_def)

lemma req_first:
  "schedule req_state =
     (\<lparr>b_seq_ids = [1], b_tokens = [[5, 6]], b_is_prefill = [True]\<rparr>,
      req_state\<lparr>sd_sequences := [(1, (seq_new 0 1 [5, 6, 7] 9)\<lparr>sq_state := Prefilling, sq_prompt_pos := 2\<rparr>)],
        sd_waiting_queue := [], sd_active_ids := [1]\<rparr>)"
  by (simp add: schedule_eval req_state_def tight_config_def)

lemma prompt_delivered_once_witness:
  "\<exists>b s' q. schedule req_state = (b, s') \<and> get_sequence s' 1 = Some q \<and>
     concat (map (delivered 1) [b]) = take (sq_prompt_pos q) (sq_prompt_tokens q) \<and> sq_prompt_pos q = 2"
proof -
  let ?b = "fst (schedule req_state)" and ?s = "snd (schedule req_state)"
  have h: "history tight_config ?s ([] @ [?b])"
    by (rule history.schedule [OF req_history]) simp
  have q: "get_sequence ?s 1 =
      Some ((seq_new 0 1 [5, 6, 7] 9)\<lparr>sq_state := Prefilling, sq_prompt_pos := 2\<rparr>)"
    by (simp add: req_first get_sequence_def)
  show ?thesis
    using prompt_delivered_once [OF h q] q by (intro exI [of _ ?b] exI [of _ ?s]) simp
qed

text \<open>C38: In every reachable state a batch names each sequence once, gives each its tokens and its
  kind, leaves at most \<open>max_sequences\<close> sequences active, and carries at most \<open>max_batch_tokens\<close>
  tokens or, when more prompts than that are admitted at once, \<open>max_prefill_tokens\<close> for each of
  at most \<open>max_batch_sequences\<close> of them.\<close>

theorem batch_bounds:
  assumes "history cfg s bs" and "schedule s = (b, s')"
  shows "batch_ok b \<and> length (sd_active_ids s') \<le> sc_max_sequences cfg \<and>
    batch_total_tokens b \<le>
      max (sc_max_batch_sequences cfg * sc_max_prefill_tokens cfg) (sc_max_batch_tokens cfg)"
proof -
  have inv: "sched_inv s" and cfg: "sd_config s = cfg" using history_handed [OF assms(1)] by simp_all
  show ?thesis
  proof (rule schedule_spec [OF inv assms(2)], goal_cases)
    case (1 pre)
    note ok = 1(4) and tot = 1(9) and len = 1(10) and inv' = 1(8) and cfg' = 1(12)
    have "length (sd_active_ids s') \<le> sc_max_sequences cfg"
      using inv' cfg cfg' by (simp add: sched_inv_def)
    moreover have "length pre * sc_max_prefill_tokens cfg \<le>
        sc_max_batch_sequences cfg * sc_max_prefill_tokens cfg"
      using len unfolding cfg by (rule mult_le_mono1)
    then have "batch_total_tokens b \<le>
        max (sc_max_batch_sequences cfg * sc_max_prefill_tokens cfg) (sc_max_batch_tokens cfg)"
      by (intro order_trans [OF tot [unfolded cfg]] max.mono) simp_all
    ultimately show ?case using ok by simp
  qed
qed

lemma batch_bounds_witness:
  "\<exists>b s'. schedule req_state = (b, s') \<and> batch_total_tokens b \<le> 4 \<and> length (sd_active_ids s') \<le> 2"
proof -
  show ?thesis
    using batch_bounds [OF req_history, of "fst (schedule req_state)" "snd (schedule req_state)"]
    by (intro exI [of _ "fst (schedule req_state)"] exI [of _ "snd (schedule req_state)"])
      (simp add: tight_config_def)
qed

text \<open>Admission is first in, first out and as large as the limits allow: the sequences that
  leave the waiting queue are its first \<open>admitted\<close> ones, they open the batch in that order, and
  no sequence behind them overtakes.\<close>

theorem admission_fifo:
  assumes "history cfg s bs" and "schedule s = (b, s')"
    and "n = admitted cfg (length (sd_active_ids s)) 0"
  shows "sd_waiting_queue s' = drop n (sd_waiting_queue s) \<and>
    (\<exists>rest. b_seq_ids b = take n (sd_waiting_queue s) @ rest)"
proof -
  have inv: "sched_inv s" and cfg: "sd_config s = cfg" using history_handed [OF assms(1)] by simp_all
  have "sd_waiting_queue (snd (schedule s)) = drop n (sd_waiting_queue s)"
    by (rule schedule_phases [OF inv]) (simp add: cfg assms(3))
  then show ?thesis using schedule_admits [OF inv] assms(2,3) by (simp add: cfg)
qed

lemma admission_fifo_witness:
  "\<exists>b s'. schedule req_state = (b, s') \<and> sd_waiting_queue s' = [] \<and> (\<exists>rest. b_seq_ids b = 1 # rest)"
proof -
  have "sd_waiting_queue req_state = [1]" "admitted tight_config (length (sd_active_ids req_state)) 0 = 2"
    by (simp_all add: req_state_def scheduler_new_def add_request_def Let_def admitted_def tight_config_def)
  then show ?thesis
    using admission_fifo [OF req_history, of "fst (schedule req_state)" "snd (schedule req_state)" 2]
    by (intro exI [of _ "fst (schedule req_state)"] exI [of _ "snd (schedule req_state)"]) simp
qed

text \<open>A batch decodes only for sequences whose prompt has been handed out completely, that are
  neither stopped nor at their token limit, and feeds each exactly one token, its last one.\<close>

theorem decode_after_prompt:
  assumes "history cfg s bs" and "schedule s = (b, s')" and "(i, toks, False) \<in> set (entries b)"
  shows "\<exists>q. get_sequence s' i = Some q \<and> sq_prompt_pos q = length (sq_prompt_tokens q) \<and>
    \<not> sq_stopped q \<and> \<not> at_limit q \<and> toks = [decode_token q]"
proof -
  have inv: "sched_inv s" using history_handed [OF assms(1)] by simp
  have "list_all (decode_entry (sd_sequences s')) (entries b)"
  proof (rule schedule_phases [OF inv])
    fix c active
    assume "track (sd_sequences s) c" and pre: "all_prefill (fst c)"
      and b: "fst (schedule s) = schedule_decode (sd_config s) (snd c) active (fst c)"
      and qs: "sd_sequences (snd (schedule s)) = snd c"
    then have "batch_ok (fst c)" by (simp add: track_def)
    then have "list_all (decode_entry (snd c)) (entries (fst (schedule s)))"
      unfolding b by (intro decode_entries all_prefill_entries pre)
    then show ?thesis using assms(2) qs by simp
  qed
  then obtain q where q: "map_of (sd_sequences s') i = Some q" "sq_state q = Decoding" "\<not> sq_stopped q"
      "\<not> at_limit q" "toks = [decode_token q]"
    using assms(3) by (fastforce simp: list_all_iff decode_entry_def)
  have "sched_inv s'" by (rule schedule_spec [OF inv assms(2)])
  then have "wf_seq q" using q(1) by (simp add: sched_inv_def all_wf_def)
  then show ?thesis using q by (simp add: get_sequence_def wf_seq_def)
qed

lemma req_second:
  "schedule (snd (schedule req_state)) =
     (\<lparr>b_seq_ids = [1], b_tokens = [[7]], b_is_prefill = [True]\<rparr>,
      req_state\<lparr>sd_sequences := [(1, (seq_new 0 1 [5, 6, 7] 9)\<lparr>sq_state := Decoding, sq_prompt_pos := 3\<rparr>)],
        sd_waiting_queue := [], sd_active_ids := [1]\<rparr>)"
  unfolding req_first snd_conv by (simp add: schedule_eval req_state_def tight_config_def)

lemma req_third:
  "fst (schedule (snd (schedule (snd (schedule req_state))))) =
     \<lparr>b_seq_ids = [1], b_tokens = [[7]], b_is_prefill = [False]\<rparr>"
  unfolding req_second snd_conv by (simp add: schedule_eval req_state_def tight_config_def)

lemma decode_after_prompt_witness:
  "\<exists>q. get_sequence (snd (schedule (snd (schedule (snd (schedule req_state)))))) 1 = Some q \<and>
     sq_prompt_pos q = length (sq_prompt_tokens q) \<and> [7] = [decode_token q]"
proof -
  let ?s2 = "snd (schedule (snd (schedule req_state)))"
  obtain bs where "history tight_config ?s2 bs"
    using history.schedule [OF history.schedule [OF req_history]] by (metis prod.collapse)
  moreover have "schedule ?s2 = (fst (schedule ?s2), snd (schedule ?s2))" by simp
  moreover have "(1, [7], False) \<in> set (entries (fst (schedule ?s2)))"
    unfolding req_third by (simp add: entries_def)
  ultimately show ?thesis using decode_after_prompt [of tight_config ?s2 bs _ _ 1 "[7]"] by blast
qed

section \<open>Where the scheduler differs from its documentation\<close>

text \<open>A state in which every active sequence just decodes.\<close>

definition steady :: "scheduler \<Rightarrow> bool" where
  "steady s \<longleftrightarrow> sd_waiting_queue s = [] \<and> distinct (sd_active_ids s) \<and>
     list_all (\<lambda>i. case map_of (sd_sequences s) i of
         None \<Rightarrow> False
       | Some q \<Rightarrow> sq_state q = Decoding \<and> \<not> sq_stopped q \<and> \<not> at_limit q) (sd_active_ids s)"

lemma steady_continue:
  "list_all (\<lambda>i. case map_of (snd bs) i of None \<Rightarrow> False | Some q \<Rightarrow> sq_state q = Decoding) ids \<Longrightarrow>
   continue_prefill cfg ids bs = bs"
  by (induction ids) (auto split: option.splits)

lemma steady_decode:
  assumes "list_all (\<lambda>i. case map_of qs i of None \<Rightarrow> False
       | Some q \<Rightarrow> sq_state q = Decoding \<and> \<not> sq_stopped q \<and> \<not> at_limit q) ids"
    and "distinct ids" and "set ids \<inter> set (b_seq_ids b) = {}"
    and "batch_total_tokens b = length (b_seq_ids b)"
    and "sc_max_batch_sequences cfg \<le> sc_max_batch_tokens cfg"
  shows "b_seq_ids (schedule_decode cfg qs ids b) =
    b_seq_ids b @ take (sc_max_batch_sequences cfg - length (b_seq_ids b)) ids"
  using assms
proof (induction ids arbitrary: b)
  case Nil
  then show ?case by simp
next
  case (Cons i ids)
  obtain q where q: "map_of qs i = Some q" "sq_state q = Decoding" "\<not> sq_stopped q" "\<not> at_limit q"
    using Cons.prems(1) by (auto split: option.splits)
  show ?case
  proof (cases "length (b_seq_ids b) \<ge> sc_max_batch_sequences cfg")
    case True
    then show ?thesis by simp
  next
    case False
    then have "\<not> batch_total_tokens b \<ge> sc_max_batch_tokens cfg" using Cons.prems(4,5) by simp
    then have "b_seq_ids (schedule_decode cfg qs (i # ids) b) =
        b_seq_ids (schedule_decode cfg qs ids (batch_push i [decode_token q] False b))"
      using False q Cons.prems(3) by simp
    also have "\<dots> = (b_seq_ids b @ [i]) @ take (sc_max_batch_sequences cfg - Suc (length (b_seq_ids b))) ids"
      using Cons.IH [of "batch_push i [decode_token q] False b"] Cons.prems by simp
    finally have eq: "b_seq_ids (schedule_decode cfg qs (i # ids) b) =
        (b_seq_ids b @ [i]) @ take (sc_max_batch_sequences cfg - Suc (length (b_seq_ids b))) ids" .
    have "sc_max_batch_sequences cfg - length (b_seq_ids b) =
        Suc (sc_max_batch_sequences cfg - Suc (length (b_seq_ids b)))"
      using False by arith
    then show ?thesis unfolding eq by (simp only: take_Suc_Cons append_assoc append_Cons append_Nil)
  qed
qed

text \<open>Decoding is not round-robin: with every active sequence decoding, a call of \<open>schedule\<close>
  changes nothing and serves the first \<open>max_batch_sequences\<close> of them, so the ones behind get no
  token until one in front is finished.\<close>

theorem decode_serves_a_fixed_prefix:
  assumes "steady s"
    and "sc_max_batch_sequences (sd_config s) \<le> sc_max_batch_tokens (sd_config s)"
  shows "snd (schedule s) = s \<and>
    b_seq_ids (fst (schedule s)) = take (sc_max_batch_sequences (sd_config s)) (sd_active_ids s)"
proof -
  let ?cfg = "sd_config s" and ?bs = "(empty_batch, sd_sequences s)"
  have all: "list_all (\<lambda>i. case map_of (sd_sequences s) i of None \<Rightarrow> False
       | Some q \<Rightarrow> sq_state q = Decoding \<and> \<not> sq_stopped q \<and> \<not> at_limit q) (sd_active_ids s)"
    and w: "sd_waiting_queue s = []" and d: "distinct (sd_active_ids s)"
    using assms(1) by (simp_all add: steady_def)
  have "list_all (\<lambda>i. case map_of (snd ?bs) i of None \<Rightarrow> False | Some q \<Rightarrow> sq_state q = Decoding)
      (sd_active_ids s)"
    using all by (rule list.pred_mono_strong) (simp split: option.splits)
  note c = steady_continue [OF this, of ?cfg]
  have "list_all (still_active (sd_sequences s)) (sd_active_ids s)"
    using all by (rule list.pred_mono_strong) (auto simp: still_active_def split: option.splits)
  then have keep: "filter (still_active (sd_sequences s)) (sd_active_ids s) = sd_active_ids s"
    by (simp add: list_all_iff)
  have "b_seq_ids (schedule_decode ?cfg (sd_sequences s) (sd_active_ids s) empty_batch) =
      take (sc_max_batch_sequences ?cfg) (sd_active_ids s)"
    using steady_decode [OF all d, of empty_batch ?cfg] assms(2) by simp
  then show ?thesis by (simp add: schedule_def w c keep Let_def)
qed

definition two_decoding :: scheduler where
  "two_decoding = (scheduler_new default_config)
     \<lparr>sd_config := default_config\<lparr>sc_max_batch_sequences := 1\<rparr>,
      sd_sequences := [(1, (seq_new 0 1 [5] 9)\<lparr>sq_state := Decoding, sq_prompt_pos := 1\<rparr>),
                       (2, (seq_new 0 2 [6] 9)\<lparr>sq_state := Decoding, sq_prompt_pos := 1\<rparr>)],
      sd_active_ids := [1, 2]\<rparr>"

lemma decode_serves_a_fixed_prefix_witness:
  "snd (schedule two_decoding) = two_decoding \<and> b_seq_ids (fst (schedule two_decoding)) = [1]"
proof -
  have "steady two_decoding"
    by (simp add: steady_def two_decoding_def scheduler_new_def seq_new_def at_limit_def seq_total_tokens_def)
  moreover have "sd_config two_decoding = default_config\<lparr>sc_max_batch_sequences := 1\<rparr>"
    "sd_active_ids two_decoding = [1, 2]"
    by (simp_all add: two_decoding_def)
  ultimately show ?thesis
    using decode_serves_a_fixed_prefix [of two_decoding] by (simp add: default_config_def)
qed

definition three_prompts :: scheduler where
  "three_prompts =
     (let p = replicate 256 0
      in snd (add_request 0 p 999 (snd (add_request 0 p 999
           (snd (add_request 0 p 999 (scheduler_new default_config)))))))"

text \<open>Admission ignores the token limit of a batch: under the default configuration three waiting
  prompts of 256 tokens are put into one batch of 768 tokens, more than \<open>max_batch_tokens\<close>.\<close>

theorem admission_exceeds_token_limit:
  "batch_total_tokens (fst (schedule three_prompts)) = 768 \<and> sc_max_batch_tokens default_config = 512"
  by (simp add: schedule_eval three_prompts_def default_config_def)

text \<open>Finishing a sequence that is still waiting does not take it out of the queue: it is admitted
  as if it had not been finished, its state \<open>Finished\<close> is overwritten, and its prompt is
  handed to the engine.\<close>

theorem finished_sequence_is_admitted:
  assumes "sd_waiting_queue s = i # w" and "map_of (sd_sequences s) i = Some q"
    and "length (sd_active_ids s) < sc_max_sequences (sd_config s)"
    and "0 < sc_max_batch_sequences (sd_config s)" and "sched_inv s"
  shows "hd (b_seq_ids (fst (schedule (finish_sequence i s)))) = i \<and>
    (\<exists>q'. map_of (sd_sequences (snd (schedule (finish_sequence i s)))) i = Some q' \<and>
       sq_state q' \<in> {Prefilling, Decoding} \<and> sq_stopped q')"
proof -
  let ?s = "finish_sequence i s"
  have inv: "sched_inv ?s" by (rule finish_sequence_inv [OF assms(5)])
  have w: "sd_waiting_queue ?s = i # w" and cfg: "sd_config ?s = sd_config s"
    using assms(1) by (simp_all add: finish_sequence_def Let_def)
  have "length (sd_active_ids ?s) \<le> length (sd_active_ids s)" by (simp add: finish_sequence_def Let_def)
  then obtain n where n: "admitted (sd_config s) (length (sd_active_ids ?s)) 0 = Suc n"
    using assms(3,4) by (cases "admitted (sd_config s) (length (sd_active_ids ?s)) 0")
      (auto simp: admitted_def min_def split: if_splits)
  have q: "map_of (sd_sequences ?s) i = Some (q\<lparr>sq_state := Finished, sq_stopped := True\<rparr>)"
    using assms(2) by (simp add: finish_sequence_def Let_def modify_seq_map)
  have hd: "hd (b_seq_ids (fst (schedule ?s))) = i"
    using schedule_admits [OF inv] unfolding w cfg n by auto
  show ?thesis
  proof (rule schedule_phases [OF inv])
    fix c active
    assume tr: "track (sd_sequences ?s) c"
      and r: "\<exists>rest. b_seq_ids (fst c) =
        take (admitted (sd_config ?s) (length (sd_active_ids ?s)) 0) (sd_waiting_queue ?s) @ rest"
      and qs: "sd_sequences (snd (schedule ?s)) = snd c"
    have "i \<in> set (b_seq_ids (fst c))" using r unfolding w cfg n by auto
    then obtain q' where q': "map_of (snd c) i = Some q'" "sq_state q' \<in> {Prefilling, Decoding}"
      using tr by (auto simp: track_def)
    obtain q'' where "map_of (snd c) i = Some q''"
        "tracked (delivered i (fst c)) (q\<lparr>sq_state := Finished, sq_stopped := True\<rparr>) q''"
      using tr q unfolding track_def by blast
    then have t: "tracked (delivered i (fst c)) (q\<lparr>sq_state := Finished, sq_stopped := True\<rparr>) q'"
      using q'(1) by simp
    have "sq_stopped q'"
      using arg_cong [OF conjunct1 [OF t [unfolded tracked_def]], of sq_stopped] by simp
    then show ?thesis using hd q' qs by simp
  qed
qed

lemma finished_sequence_is_admitted_witness:
  "hd (b_seq_ids (fst (schedule (finish_sequence 1 req_state)))) = 1"
proof -
  have "sched_inv req_state" using history_handed [OF req_history] by simp
  moreover have "sd_waiting_queue req_state = [1]"
    "map_of (sd_sequences req_state) 1 = Some (seq_new 0 1 [5, 6, 7] 9)"
    "sd_active_ids req_state = []" "sd_config req_state = tight_config"
    by (simp_all add: req_state_def scheduler_new_def add_request_def Let_def)
  ultimately show ?thesis
    using finished_sequence_is_admitted [of req_state 1 "[]"] by (simp add: tight_config_def)
qed

end
