(* ===== verification/Grammar_Types.thy ===== *)
theory Grammar_Types
  imports Prelude
begin

text \<open>
  Grammars of \<open>crates/oxillama-runtime/src/sampling/grammar\<close>: the node tree and the grammar of
  \<open>parser.rs\<close>, the errors of \<open>error.rs\<close>, and, as the specification the machine is held
  to, which byte strings a node matches. The \<open>HashMap\<close> of rules is an association list; a name
  is a \<open>string\<close>.
\<close>

section \<open>Data\<close>

text \<open>The messages of a syntax error, with what is formatted into them.\<close>

datatype parse_reason =
    ExpectedByte u8 "u8 option"
  | ExpectedDefines
  | NoRules
  | ExpectedIdent
  | UnexpectedByte u8
  | UnexpectedEnd
  | UnterminatedString
  | CodepointTooLarge
  | BadCodepoint
  | UnknownEscape u8
  | TruncatedEscape
  | ExpectedHex "u8 option"
  | UnterminatedClass
  | UnexpectedClassEnd
  | UnknownClassEscape u8
  | TruncatedClassEscape

datatype grammar_error =
    ParseError nat parse_reason
  | Stuck
  | UnknownRule string
  | RecursionLimit string
  | TokenTooLong nat nat
  | UnsupportedKeyword string string

record char_range =
  cr_lo :: u8
  cr_hi :: u8

definition range_single :: "u8 \<Rightarrow> char_range" where
  "range_single b = \<lparr>cr_lo = b, cr_hi = b\<rparr>"

definition range_contains :: "char_range \<Rightarrow> u8 \<Rightarrow> bool" where
  "range_contains r b \<longleftrightarrow> b \<ge> cr_lo r \<and> b \<le> cr_hi r"

datatype gnode =
    Literal "u8 list"
  | CharClass "char_range list" bool
  | RuleRef string
  | Sequence "gnode list"
  | Alternation "gnode list"
  | Repeat gnode nat "nat option"

type_synonym rules = "(string \<times> gnode) list"

record grammar =
  gr_rules :: rules
  gr_root :: string
  gr_source :: "u8 list"

definition class_matches :: "char_range list \<Rightarrow> bool \<Rightarrow> u8 \<Rightarrow> bool" where
  "class_matches ranges negated b =
     (let in_class = list_ex (\<lambda>r. range_contains r b) ranges
      in if negated then \<not> in_class else in_class)"

section \<open>What a grammar means\<close>

text \<open>
  The language of a node, independent of any way to recognise it: a sequence matches the
  concatenation of what its items match, a repetition any number of times within its bounds.
\<close>

definition within :: "nat \<Rightarrow> nat option \<Rightarrow> nat \<Rightarrow> bool" where
  "within min_count max_count n \<longleftrightarrow>
     min_count \<le> n \<and> (case max_count of None \<Rightarrow> True | Some m \<Rightarrow> n \<le> m)"

inductive matches :: "rules \<Rightarrow> gnode \<Rightarrow> u8 list \<Rightarrow> bool" for g where
  Lit: "matches g (Literal bs) bs"
| Class: "class_matches ranges negated b \<Longrightarrow> matches g (CharClass ranges negated) [b]"
| Rule: "map_of g name = Some node \<Longrightarrow> matches g node w \<Longrightarrow> matches g (RuleRef name) w"
| Sequ: "list_all2 (matches g) items ws \<Longrightarrow> matches g (Sequence items) (concat ws)"
| Alte: "alt \<in> set alts \<Longrightarrow> matches g alt w \<Longrightarrow> matches g (Alternation alts) w"
| Rept: "list_all (matches g node) ws \<Longrightarrow> within lo hi (length ws) \<Longrightarrow>
    matches g (Repeat node lo hi) (concat ws)"
monos list_all2_mono list.pred_mono

inductive_simps matches_simps:
  "matches g (Literal bs) w"
  "matches g (CharClass ranges negated) w"
  "matches g (RuleRef name) w"
  "matches g (Sequence items) w"
  "matches g (Alternation alts) w"
  "matches g (Repeat node lo hi) w"

text \<open>The words of a list of nodes, in order.\<close>

definition word_of_nodes :: "rules \<Rightarrow> gnode list \<Rightarrow> u8 list \<Rightarrow> bool" where
  "word_of_nodes g ns w \<longleftrightarrow> (\<exists>ws. list_all2 (matches g) ns ws \<and> w = concat ws)"

lemma word_Nil: "word_of_nodes g [] w \<longleftrightarrow> w = []"
  by (auto simp: word_of_nodes_def)

lemma word_Cons: "word_of_nodes g (n # ns) w \<longleftrightarrow>
    (\<exists>u v. matches g n u \<and> word_of_nodes g ns v \<and> w = u @ v)"
  unfolding word_of_nodes_def list_all2_Cons1 by fastforce

lemma word_append: "word_of_nodes g (ms @ ns) w \<longleftrightarrow>
    (\<exists>u v. word_of_nodes g ms u \<and> word_of_nodes g ns v \<and> w = u @ v)"
proof (induction ms arbitrary: w)
  case Nil
  show ?case by (simp add: word_Nil)
next
  case (Cons m ms)
  show ?case unfolding append_Cons word_Cons Cons.IH by fastforce
qed

text \<open>What replaces the first node of an obligation list.\<close>

lemma word_Literal: "word_of_nodes g (Literal bs # ns) w \<longleftrightarrow> (\<exists>v. w = bs @ v \<and> word_of_nodes g ns v)"
  by (auto simp: word_Cons matches_simps)

lemma word_CharClass: "word_of_nodes g (CharClass ranges negated # ns) w \<longleftrightarrow>
    (\<exists>b v. w = b # v \<and> class_matches ranges negated b \<and> word_of_nodes g ns v)"
  by (auto simp: word_Cons matches_simps)

lemma word_RuleRef: "word_of_nodes g (RuleRef name # ns) w \<longleftrightarrow>
    (\<exists>node. map_of g name = Some node \<and> word_of_nodes g (node # ns) w)"
  by (auto simp: word_Cons matches_simps)

lemma matches_Sequence: "matches g (Sequence items) w \<longleftrightarrow> word_of_nodes g items w"
  by (auto simp: matches_simps word_of_nodes_def)

lemma word_Sequence: "word_of_nodes g (Sequence items # ns) w \<longleftrightarrow> word_of_nodes g (items @ ns) w"
  by (simp add: word_Cons matches_Sequence word_append)

lemma word_Alternation: "word_of_nodes g (Alternation alts # ns) w \<longleftrightarrow>
    (\<exists>a \<in> set alts. word_of_nodes g (a # ns) w)"
  by (auto simp: word_Cons matches_simps)

lemma within_step:
  "within lo hi (Suc n) \<longleftrightarrow> hi \<noteq> Some 0 \<and> within (lo - 1) (map_option (\<lambda>m. m - 1) hi) n"
  by (auto simp: within_def split: option.splits)

lemma matches_Repeat:
  "matches g (Repeat node lo hi) w \<longleftrightarrow>
     lo = 0 \<and> w = [] \<or>
     hi \<noteq> Some 0 \<and> (\<exists>u v. matches g node u \<and>
        matches g (Repeat node (lo - 1) (map_option (\<lambda>m. m - 1) hi)) v \<and> w = u @ v)"
  (is "?l \<longleftrightarrow> ?zero \<or> ?more")
proof
  assume ?l
  then obtain ws where ws: "list_all (matches g node) ws" "within lo hi (length ws)" "w = concat ws"
    by (auto simp: matches_simps)
  show "?zero \<or> ?more"
  proof (cases ws)
    case Nil
    then show ?thesis using ws by (simp add: within_def)
  next
    case (Cons u us)
    then have "hi \<noteq> Some 0" "within (lo - 1) (map_option (\<lambda>m. m - 1) hi) (length us)"
      using ws(2) within_step by simp_all
    moreover have "matches g (Repeat node (lo - 1) (map_option (\<lambda>m. m - 1) hi)) (concat us)"
      using ws(1) Cons calculation(2) by (intro matches.Rept) simp_all
    ultimately show ?thesis using ws Cons by auto
  qed
next
  assume "?zero \<or> ?more"
  then show ?l
  proof
    assume z: ?zero
    have "matches g (Repeat node 0 hi) (concat [])"
      by (rule matches.Rept) (simp_all add: within_def split: option.split)
    then show ?l using z by simp
  next
    assume ?more
    then obtain u v where uv: "hi \<noteq> Some 0" "matches g node u" "w = u @ v"
      and r: "matches g (Repeat node (lo - 1) (map_option (\<lambda>m. m - 1) hi)) v"
      by blast
    obtain us where us: "list_all (matches g node) us"
        "within (lo - 1) (map_option (\<lambda>m. m - 1) hi) (length us)" "v = concat us"
      using r unfolding matches_simps(6) by blast
    have "matches g (Repeat node lo hi) (concat (u # us))"
      using uv us within_step [of lo hi "length us"] by (intro matches.Rept) simp_all
    then show ?l using uv us by simp
  qed
qed

lemma word_Repeat: "word_of_nodes g (Repeat node lo hi # ns) w \<longleftrightarrow>
    lo = 0 \<and> word_of_nodes g ns w \<or>
    hi \<noteq> Some 0 \<and> word_of_nodes g (node # Repeat node (lo - 1) (map_option (\<lambda>m. m - 1) hi) # ns) w"
  unfolding word_Cons matches_Repeat [of g node lo hi] by fastforce

lemmas word_steps = word_Nil word_Literal word_CharClass word_RuleRef word_Sequence word_Alternation

end
