(* ===== verification/Grammar_Machine.thy ===== *)
theory Grammar_Machine
  imports Grammar_Types
begin

text \<open>
  The state machine of \<open>crates/oxillama-runtime/src/sampling/grammar/machine.rs\<close>. A state is
  the list of nodes still to be matched. The counter \<open>depth\<close> of the simulator is undone on
  every way out of a call, so it is an argument; here it counts down: a call with \<open>n\<close> is one
  at depth \<open>MAX_DEPTH - n\<close>, and \<open>0\<close> is the depth at which the source gives up.
\<close>

definition MAX_DEPTH :: nat where
  "MAX_DEPTH = 128"

definition MAX_SIM_BYTES :: nat where
  "MAX_SIM_BYTES = 64"

type_synonym continuation = "gnode list"

record grammar_state =
  gs_continuation :: continuation
  gs_grammar :: grammar

definition grammar_state_new :: "grammar \<Rightarrow> grammar_state" where
  "grammar_state_new g = \<lparr>gs_continuation = [RuleRef (gr_root g)], gs_grammar = g\<rparr>"

section \<open>Which states are complete\<close>

fun node_can_match_empty :: "rules \<Rightarrow> nat \<Rightarrow> gnode \<Rightarrow> bool" where
  "node_can_match_empty g 0 node = False"
| "node_can_match_empty g (Suc n) (Literal bytes) = (bytes = [])"
| "node_can_match_empty g (Suc n) (CharClass ranges negated) = False"
| "node_can_match_empty g (Suc n) (RuleRef name) =
     (case map_of g name of None \<Rightarrow> False | Some node \<Rightarrow> node_can_match_empty g n node)"
| "node_can_match_empty g (Suc n) (Sequence items) = list_all (node_can_match_empty g n) items"
| "node_can_match_empty g (Suc n) (Alternation alts) = list_ex (node_can_match_empty g n) alts"
| "node_can_match_empty g (Suc n) (Repeat node lo hi) = (lo = 0)"

fun can_match_empty_continuation :: "rules \<Rightarrow> nat \<Rightarrow> continuation \<Rightarrow> bool" where
  "can_match_empty_continuation g 0 cont = False"
| "can_match_empty_continuation g (Suc n) [] = True"
| "can_match_empty_continuation g (Suc n) (first # rest) =
     (node_can_match_empty g n first \<and> can_match_empty_continuation g n rest)"

definition is_complete :: "grammar_state \<Rightarrow> bool" where
  "is_complete s = can_match_empty_continuation (gr_rules (gs_grammar s)) (Suc MAX_DEPTH) (gs_continuation s)"

section \<open>May a token follow?\<close>

text \<open>Trying the alternatives: the first that succeeds decides, and an error stops the search.\<close>

fun first_true :: "('a \<Rightarrow> 'e + bool) \<Rightarrow> 'a list \<Rightarrow> 'e + bool" where
  "first_true f [] = Inr False"
| "first_true f (a # as) = and_then (f a) (\<lambda>r. if r then Inr True else first_true f as)"

lemma first_true_cong [fundef_cong]:
  "as = bs \<Longrightarrow> (\<And>a. a \<in> set bs \<Longrightarrow> f a = g a) \<Longrightarrow> first_true f as = first_true g bs"
  by (induction as arbitrary: bs) (auto simp: and_then_def split: sum.splits)

text \<open>The rest of a literal whose first byte was consumed.\<close>

definition push_literal :: "u8 list \<Rightarrow> continuation \<Rightarrow> continuation" where
  "push_literal remainder tail = (if remainder = [] then tail else Literal remainder # tail)"

function (sequential)
  simulate_bytes :: "rules \<Rightarrow> nat \<Rightarrow> continuation \<Rightarrow> u8 list \<Rightarrow> grammar_error + bool" and
  try_consume_byte :: "rules \<Rightarrow> nat \<Rightarrow> continuation \<Rightarrow> u8 \<Rightarrow> u8 list \<Rightarrow> grammar_error + bool"
where
  "simulate_bytes g n cont [] = Inr True"
| "simulate_bytes g n cont (b # rest) = try_consume_byte g n cont b rest"
| "try_consume_byte g 0 cont b rest = Inl (RecursionLimit ''(allows_token)'')"
| "try_consume_byte g (Suc n) [] b rest = Inr False"
| "try_consume_byte g (Suc n) (Literal [] # tail) b rest = try_consume_byte g n tail b rest"
| "try_consume_byte g (Suc n) (Literal (c # remainder) # tail) b rest =
     (if c = b then simulate_bytes g n (push_literal remainder tail) rest else Inr False)"
| "try_consume_byte g (Suc n) (CharClass ranges negated # tail) b rest =
     (if class_matches ranges negated b then simulate_bytes g n tail rest else Inr False)"
| "try_consume_byte g (Suc n) (RuleRef name # tail) b rest =
     (case map_of g name of
        None \<Rightarrow> Inr False
      | Some node \<Rightarrow> try_consume_byte g n (node # tail) b rest)"
| "try_consume_byte g (Suc n) (Sequence items # tail) b rest =
     try_consume_byte g n (items @ tail) b rest"
| "try_consume_byte g (Suc n) (Alternation alts # tail) b rest =
     first_true (\<lambda>alt. try_consume_byte g n (alt # tail) b rest) alts"
| "try_consume_byte g (Suc n) (Repeat node lo hi # tail) b rest =
     and_then (if lo = 0 then try_consume_byte g n tail b rest else Inr False) (\<lambda>skipped.
       if skipped then Inr True
       else if hi \<noteq> Some 0
       then try_consume_byte g n
              (node # Repeat node (lo - 1) (map_option (\<lambda>m. m - 1) hi) # tail) b rest
       else Inr False)"
  by pat_completeness auto
termination
  by (relation "measure (\<lambda>x. case x of Inl (g, n, cont, bs) \<Rightarrow> 2 * n + 1 | Inr (g, n, cont, b, rest) \<Rightarrow> 2 * n)")
    auto

definition allows_token_checked :: "grammar_state \<Rightarrow> u8 list \<Rightarrow> grammar_error + bool" where
  "allows_token_checked s token_bytes =
     (if token_bytes = [] then Inr True
      else if length token_bytes > MAX_SIM_BYTES
      then Inl (TokenTooLong (length token_bytes) MAX_SIM_BYTES)
      else simulate_bytes (gr_rules (gs_grammar s)) MAX_DEPTH (gs_continuation s) token_bytes)"

definition allows_token :: "grammar_state \<Rightarrow> u8 list \<Rightarrow> bool" where
  "allows_token s token_bytes =
     (case allows_token_checked s token_bytes of Inl e \<Rightarrow> False | Inr r \<Rightarrow> r)"

section \<open>Committing a token\<close>

fun first_ok :: "('a \<Rightarrow> grammar_error + 'b) \<Rightarrow> 'a list \<Rightarrow> grammar_error + 'b" where
  "first_ok f [] = Inl Stuck"
| "first_ok f (a # as) = (case f a of Inl e \<Rightarrow> first_ok f as | Inr c \<Rightarrow> Inr c)"

lemma first_ok_cong [fundef_cong]:
  "as = bs \<Longrightarrow> (\<And>a. a \<in> set bs \<Longrightarrow> f a = g a) \<Longrightarrow> first_ok f as = first_ok g bs"
  by (induction as arbitrary: bs) (auto split: sum.splits)

function (sequential)
  advance_bytes :: "rules \<Rightarrow> nat \<Rightarrow> continuation \<Rightarrow> u8 list \<Rightarrow> grammar_error + continuation" and
  advance_one_byte ::
    "rules \<Rightarrow> nat \<Rightarrow> continuation \<Rightarrow> u8 \<Rightarrow> u8 list \<Rightarrow> grammar_error + continuation"
where
  "advance_bytes g n cont [] = Inr cont"
| "advance_bytes g n cont (b # rest) = advance_one_byte g n cont b rest"
| "advance_one_byte g 0 cont b rest = Inl (RecursionLimit ''(advance)'')"
| "advance_one_byte g (Suc n) [] b rest = Inl Stuck"
| "advance_one_byte g (Suc n) (Literal [] # tail) b rest = advance_one_byte g n tail b rest"
| "advance_one_byte g (Suc n) (Literal (c # remainder) # tail) b rest =
     (if c = b then advance_bytes g n (push_literal remainder tail) rest else Inl Stuck)"
| "advance_one_byte g (Suc n) (CharClass ranges negated # tail) b rest =
     (if class_matches ranges negated b then advance_bytes g n tail rest else Inl Stuck)"
| "advance_one_byte g (Suc n) (RuleRef name # tail) b rest =
     (case map_of g name of
        None \<Rightarrow> Inl (UnknownRule name)
      | Some node \<Rightarrow> advance_one_byte g n (node # tail) b rest)"
| "advance_one_byte g (Suc n) (Sequence items # tail) b rest =
     advance_one_byte g n (items @ tail) b rest"
| "advance_one_byte g (Suc n) (Alternation alts # tail) b rest =
     first_ok (\<lambda>alt. advance_one_byte g n (alt # tail) b rest) alts"
| "advance_one_byte g (Suc n) (Repeat node lo hi # tail) b rest =
     (case (if lo = 0 then advance_one_byte g n tail b rest else Inl Stuck) of
        Inr c \<Rightarrow> Inr c
      | Inl e \<Rightarrow>
          if hi \<noteq> Some 0
          then case advance_one_byte g n
                      (node # Repeat node (lo - 1) (map_option (\<lambda>m. m - 1) hi) # tail) b rest of
                 Inr c \<Rightarrow> Inr c
               | Inl e \<Rightarrow> Inl Stuck
          else Inl Stuck)"
  by pat_completeness auto
termination
  by (relation "measure (\<lambda>x. case x of Inl (g, n, cont, bs) \<Rightarrow> 2 * n + 1 | Inr (g, n, cont, b, rest) \<Rightarrow> 2 * n)")
    auto

definition grammar_advance :: "u8 list \<Rightarrow> grammar_state \<Rightarrow> grammar_error + grammar_state" where
  "grammar_advance token_bytes s =
     (if token_bytes = [] then Inr s
      else and_then (advance_bytes (gr_rules (gs_grammar s)) MAX_DEPTH (gs_continuation s) token_bytes)
             (\<lambda>new_cont. Inr (s\<lparr>gs_continuation := new_cont\<rparr>)))"

section \<open>Masking logits\<close>

text \<open>
  A logit is the bit pattern of its \<open>f32\<close>. Finite values compare by sign and magnitude; the
  two zeros are equal.
\<close>

definition f32_is_finite :: "u32 \<Rightarrow> bool" where
  "f32_is_finite w \<longleftrightarrow> w AND 0x7F800000 \<noteq> 0x7F800000"

definition NEG_INFINITY :: u32 where
  "NEG_INFINITY = 0xFF800000"

definition f32_key :: "u32 \<Rightarrow> int" where
  "f32_key w = (let m = int (unat (w AND 0x7FFFFFFF)) in if w AND 0x80000000 = 0 then m else - m)"

definition f32_gt :: "u32 \<Rightarrow> u32 \<Rightarrow> bool" where
  "f32_gt a b \<longleftrightarrow> f32_key a > f32_key b"

definition token_allowed :: "grammar_state \<Rightarrow> bool \<Rightarrow> u32 list \<Rightarrow> u32 \<Rightarrow> u8 list \<Rightarrow> bool" where
  "token_allowed s complete eog_token_ids token_id token_bytes =
     (if complete \<and> token_id \<in> set eog_token_ids then True
      else case allows_token_checked s token_bytes of Inl e \<Rightarrow> False | Inr r \<Rightarrow> r)"

text \<open>One turn of the loop; the second component is \<open>best_id\<close> with \<open>best_val\<close>.\<close>

fun mask_step :: "grammar_state \<Rightarrow> bool \<Rightarrow> u32 list \<Rightarrow> u32 \<times> u8 list \<Rightarrow>
    u32 list \<times> (nat \<times> u32) option \<Rightarrow> u32 list \<times> (nat \<times> u32) option" where
  "mask_step s complete eog (token_id, token_bytes) (logits, best) =
     (let i = unat token_id in
      if i \<ge> length logits then (logits, best)
      else let best = (if f32_is_finite (logits ! i) \<and>
                          (case best of None \<Rightarrow> True | Some (_, best_val) \<Rightarrow> f32_gt (logits ! i) best_val)
                       then Some (i, logits ! i) else best)
           in (if token_allowed s complete eog token_id token_bytes then logits
               else logits[i := NEG_INFINITY], best))"

definition apply_grammar_mask ::
    "u32 list \<Rightarrow> grammar_state \<Rightarrow> (u32 \<times> u8 list) list \<Rightarrow> u32 list \<Rightarrow> u32 list" where
  "apply_grammar_mask logits s token_vocab eog_token_ids =
     (let complete = is_complete s;
          (logits, best) = fold (mask_step s complete eog_token_ids) token_vocab (logits, None)
      in case best of
           None \<Rightarrow> logits
         | Some (i, best_val) \<Rightarrow>
             if list_all (\<lambda>v. \<not> f32_is_finite v) logits then logits[i := best_val] else logits)"

end
