(* ===== verification/Grammar_Safety.thy ===== *)
theory Grammar_Safety
  imports Grammar_Machine
begin

text \<open>
  The machine against the meaning of its grammar: what is committed keeps exactly words of the
  grammar reachable, what is rejected extends to none, a token that is allowed can be committed,
  and what the mask leaves.
\<close>

section \<open>Complete states\<close>

lemma node_can_match_empty_sound:
  "node_can_match_empty g n node \<Longrightarrow> matches g node []"
proof (induction g n node rule: node_can_match_empty.induct)
  case (5 g n items)
  then have "list_all (\<lambda>i. matches g i []) items" by (auto simp: list_all_iff)
  then have "word_of_nodes g items []"
    by (induction items) (auto simp: word_Nil word_Cons)
  then show ?case by (simp add: matches_Sequence)
next
  case (6 g n alts)
  then show ?case by (auto simp: list_ex_iff matches_simps)
next
  case (7 g n node lo hi)
  then show ?case using matches_Repeat [of g node lo hi "[]"] by simp
qed (auto simp: matches_simps split: option.splits)

lemma can_match_empty_continuation_sound:
  "can_match_empty_continuation g n cont \<Longrightarrow> word_of_nodes g cont []"
  by (induction g n cont rule: can_match_empty_continuation.induct)
    (auto simp: word_Nil word_Cons node_can_match_empty_sound)

section \<open>Committing\<close>

lemma first_ok_Inr: "first_ok f as = Inr c \<Longrightarrow> \<exists>a \<in> set as. f a = Inr c"
  by (induction as) (auto split: sum.splits)

lemma word_push_literal:
  "word_of_nodes g (push_literal bs tail) w \<longleftrightarrow> word_of_nodes g (Literal bs # tail) w"
  by (simp add: push_literal_def word_Literal)

text \<open>Whatever completes the committed state completes the old one after the bytes.\<close>

lemma advance_sound:
  "advance_bytes g n cont bytes = Inr c \<Longrightarrow> word_of_nodes g c w \<Longrightarrow> word_of_nodes g cont (bytes @ w)"
  "advance_one_byte g n cont b rest = Inr c \<Longrightarrow> word_of_nodes g c w \<Longrightarrow>
     word_of_nodes g cont (b # rest @ w)"
proof (induction g n cont bytes and g n cont b rest rule: advance_bytes_advance_one_byte.induct)
  case (6 g n c remainder tail b rest)
  then show ?case by (auto simp: word_Literal word_push_literal split: if_splits)
next
  case (7 g n ranges negated tail b rest)
  then show ?case by (auto simp: word_CharClass split: if_splits)
next
  case (8 g n name tail b rest)
  then show ?case by (auto simp: word_RuleRef split: option.splits)
next
  case (10 g n alts tail b rest)
  then obtain a where "a \<in> set alts" "advance_one_byte g n (a # tail) b rest = Inr c"
    using first_ok_Inr [of "\<lambda>alt. advance_one_byte g n (alt # tail) b rest" alts c] by auto
  then show ?case using 10 by (auto simp: word_Alternation)
next
  case (11 g n node lo hi tail b rest)
  let ?more = "node # Repeat node (lo - 1) (map_option (\<lambda>m. m - 1) hi) # tail"
  consider "lo = 0" "advance_one_byte g n tail b rest = Inr c"
    | e where "(if lo = 0 then advance_one_byte g n tail b rest else Inl Stuck) = Inl e" "hi \<noteq> Some 0"
        "advance_one_byte g n ?more b rest = Inr c"
    using 11(3) by (auto split: sum.splits if_splits)
  then show ?case
  proof cases
    case 1
    then show ?thesis using 11(1) [OF 1(1) 1(2) 11(4)] word_Repeat [of g node lo hi tail] by simp
  next
    case 2
    then show ?thesis using 11(2) [OF 2 11(4)] word_Repeat [of g node lo hi tail] by blast
  qed
qed (auto simp: word_steps)

section \<open>Rejecting\<close>

lemma first_true_False: "first_true f as = Inr False \<Longrightarrow> a \<in> set as \<Longrightarrow> f a = Inr False"
  by (induction as) (auto simp: and_then_def split: sum.splits if_splits)

text \<open>A rejected byte string is a prefix of no word.\<close>

lemma reject_sound:
  "simulate_bytes g n cont bytes = Inr False \<Longrightarrow> \<not> word_of_nodes g cont (bytes @ w)"
  "try_consume_byte g n cont b rest = Inr False \<Longrightarrow> \<not> word_of_nodes g cont (b # rest @ w)"
proof (induction g n cont bytes and g n cont b rest rule: simulate_bytes_try_consume_byte.induct)
  case (6 g n c remainder tail b rest)
  then show ?case by (auto simp: word_Literal word_push_literal split: if_splits)
next
  case (7 g n ranges negated tail b rest)
  then show ?case by (auto simp: word_CharClass split: if_splits)
next
  case (8 g n name tail b rest)
  then show ?case by (auto simp: word_RuleRef split: option.splits)
next
  case (10 g n alts tail b rest)
  then show ?case
    using first_true_False [of "\<lambda>alt. try_consume_byte g n (alt # tail) b rest" alts]
    by (simp add: word_Alternation)
next
  case (11 g n node lo hi tail b rest)
  have skip: "\<not> word_of_nodes g tail (b # rest @ w)" if "lo = 0"
    using 11(1) [OF that] 11(3) that by (auto simp: and_then_def split: sum.splits if_splits)
  have s: "(if lo = 0 then try_consume_byte g n tail b rest else Inr False) = Inr False"
    using 11(3) by (auto simp: and_then_def split: sum.splits if_splits)
  have more: "\<not> word_of_nodes g (node # Repeat node (lo - 1) (map_option (\<lambda>m. m - 1) hi) # tail) (b # rest @ w)"
    if "hi \<noteq> Some 0"
    using 11(2) [OF s _ that] 11(3) that s by simp
  show ?case unfolding word_Repeat [of g node lo hi tail] using skip more by blast
qed (auto simp: word_steps)

section \<open>An allowed token can be committed\<close>

lemma first_true_True:
  "first_true f as = Inr True \<Longrightarrow> (\<And>a. a \<in> set as \<Longrightarrow> f a = Inr True \<Longrightarrow> \<exists>c. h a = Inr c) \<Longrightarrow>
   \<exists>c. first_ok h as = Inr c"
proof (induction as)
  case (Cons a as)
  show ?case
  proof (cases "h a")
    case (Inl e)
    then have "f a \<noteq> Inr True" using Cons.prems(2) [of a] by auto
    then have "first_true f as = Inr True"
      using Cons.prems(1) by (auto simp: and_then_def split: sum.splits if_splits)
    then show ?thesis using Cons Inl by simp
  qed simp
qed simp

lemma allowed_advances:
  "simulate_bytes g n cont bytes = Inr True \<Longrightarrow> \<exists>c. advance_bytes g n cont bytes = Inr c"
  "try_consume_byte g n cont b rest = Inr True \<Longrightarrow> \<exists>c. advance_one_byte g n cont b rest = Inr c"
proof (induction g n cont bytes and g n cont b rest rule: simulate_bytes_try_consume_byte.induct)
  case (8 g n name tail b rest)
  then show ?case by (auto split: option.splits)
next
  case (10 g n alts tail b rest)
  then show ?case
    using first_true_True [of "\<lambda>alt. try_consume_byte g n (alt # tail) b rest" alts
        "\<lambda>alt. advance_one_byte g n (alt # tail) b rest"]
    by simp
next
  case (11 g n node lo hi tail b rest)
  show ?case
  proof (cases "(if lo = 0 then try_consume_byte g n tail b rest else Inr False) = Inr True")
    case True
    then show ?thesis using 11(1) by (auto split: if_splits)
  next
    case False
    then have s: "(if lo = 0 then try_consume_byte g n tail b rest else Inr False) = Inr False"
      using 11(3) by (auto simp: and_then_def split: sum.splits if_splits)
    then have hi: "hi \<noteq> Some 0" using 11(3) by auto
    obtain c where "advance_one_byte g n
        (node # Repeat node (lo - 1) (map_option (\<lambda>m. m - 1) hi) # tail) b rest = Inr c"
      using 11(2) [OF s _ hi] 11(3) s hi by auto
    then show ?thesis using hi by (cases "lo = 0") (auto split: sum.split)
  qed
qed (auto split: if_splits)

section \<open>Feeding tokens\<close>

text \<open>The states a sampler passes through: each token it picks is committed.\<close>

fun commit_all :: "u8 list list \<Rightarrow> grammar_state \<Rightarrow> grammar_error + grammar_state" where
  "commit_all [] s = Inr s"
| "commit_all (t # ts) s = and_then (grammar_advance t s) (commit_all ts)"

lemma grammar_advance_sound:
  assumes "grammar_advance t s = Inr s'"
    and "word_of_nodes (gr_rules (gs_grammar s')) (gs_continuation s') w"
  shows "word_of_nodes (gr_rules (gs_grammar s)) (gs_continuation s) (t @ w) \<and> gs_grammar s' = gs_grammar s"
  using assms advance_sound(1) [of "gr_rules (gs_grammar s)" MAX_DEPTH "gs_continuation s" t _ w]
  by (auto simp: grammar_advance_def and_then_Inr_iff split: if_splits)

lemma commit_all_sound:
  "commit_all ts s = Inr s' \<Longrightarrow> word_of_nodes (gr_rules (gs_grammar s')) (gs_continuation s') w \<Longrightarrow>
   word_of_nodes (gr_rules (gs_grammar s)) (gs_continuation s) (concat ts @ w) \<and> gs_grammar s' = gs_grammar s"
proof (induction ts arbitrary: s)
  case (Cons t ts)
  from Cons.prems(1) obtain s1 where s1: "grammar_advance t s = Inr s1" "commit_all ts s1 = Inr s'"
    by (auto elim: and_then_InrE)
  have rest: "word_of_nodes (gr_rules (gs_grammar s1)) (gs_continuation s1) (concat ts @ w)"
    and g: "gs_grammar s' = gs_grammar s1"
    using Cons.IH [OF s1(2) Cons.prems(2)] by blast+
  show ?case using grammar_advance_sound [OF s1(1) rest] g by simp
qed simp

section \<open>What the mask leaves\<close>

lemma neg_infinity_not_finite [simp]: "\<not> f32_is_finite NEG_INFINITY"
  by (simp add: f32_is_finite_def NEG_INFINITY_def)

text \<open>
  The loop keeps the length, only ever overwrites with minus infinity, and remembers a candidate
  as soon as a finite logit was met; the candidate is a finite original value.
\<close>

definition mask_inv :: "u32 list \<Rightarrow> u32 list \<times> (nat \<times> u32) option \<Rightarrow> bool" where
  "mask_inv logits0 r \<longleftrightarrow>
     length (fst r) = length logits0 \<and>
     (\<forall>i < length logits0. fst r ! i = logits0 ! i \<or> fst r ! i = NEG_INFINITY) \<and>
     (\<forall>i v. snd r = Some (i, v) \<longrightarrow> i < length logits0 \<and> f32_is_finite v \<and> v = logits0 ! i) \<and>
     (snd r = None \<longrightarrow> (\<forall>i < length logits0. f32_is_finite (logits0 ! i) \<longrightarrow> fst r ! i = logits0 ! i))"

lemma mask_step_inv:
  assumes "mask_inv logits0 r"
  shows "mask_inv logits0 (mask_step s complete eog tok r)"
proof -
  obtain t bs where tok: "tok = (t, bs)" by fastforce
  obtain l best where r: "r = (l, best)" by fastforce
  have len: "length l = length logits0"
    and vals: "\<And>i. i < length logits0 \<Longrightarrow> l ! i = logits0 ! i \<or> l ! i = NEG_INFINITY"
    and cand: "\<And>i v. best = Some (i, v) \<Longrightarrow> i < length logits0 \<and> f32_is_finite v \<and> v = logits0 ! i"
    and none: "best = None \<Longrightarrow> \<forall>i < length logits0. f32_is_finite (logits0 ! i) \<longrightarrow> l ! i = logits0 ! i"
    using assms by (simp_all add: mask_inv_def r)
  show ?thesis
  proof (cases "unat t < length logits0")
    case False
    then show ?thesis using assms len by (simp add: r tok)
  next
    case True
    define take_it where "take_it \<longleftrightarrow> f32_is_finite (l ! unat t) \<and>
      (case best of None \<Rightarrow> True | Some (_, best_val) \<Rightarrow> f32_gt (l ! unat t) best_val)"
    define best' where "best' = (if take_it then Some (unat t, l ! unat t) else best)"
    define l' where "l' = (if token_allowed s complete eog t bs then l else l[unat t := NEG_INFINITY])"
    have step: "mask_step s complete eog tok r = (l', best')"
      using True len by (simp add: r tok Let_def best'_def l'_def take_it_def)
    have fin: "l ! unat t = logits0 ! unat t" if "f32_is_finite (l ! unat t)"
      using vals [OF True] that by auto
    have "length l' = length logits0" using len by (simp add: l'_def)
    moreover have "l' ! i = logits0 ! i \<or> l' ! i = NEG_INFINITY" if "i < length logits0" for i
      using vals [OF that] that len by (cases "i = unat t") (simp_all add: l'_def)
    moreover have "i < length logits0 \<and> f32_is_finite v \<and> v = logits0 ! i" if "best' = Some (i, v)" for i v
      using that cand [of i v] fin True by (auto simp: best'_def take_it_def split: if_splits)
    moreover have "l' ! i = logits0 ! i"
      if "best' = None" "i < length logits0" "f32_is_finite (logits0 ! i)" for i
    proof -
      have b: "best = None" "\<not> f32_is_finite (l ! unat t)"
        using that(1) by (auto simp: best'_def take_it_def split: if_splits)
      then have "i \<noteq> unat t" using none that(2,3) by metis
      then show ?thesis using none [OF b(1)] that(2,3) by (simp add: l'_def)
    qed
    ultimately show ?thesis unfolding step mask_inv_def by simp
  qed
qed

lemma mask_fold_inv:
  "mask_inv logits0 r \<Longrightarrow> mask_inv logits0 (fold (mask_step s complete eog) vocab r)"
  by (induction vocab arbitrary: r) (simp_all add: mask_step_inv)

lemma mask_init: "mask_inv logits (logits, None)"
  by (simp add: mask_inv_def)

text \<open>A candidate once found is never lost, and any finite vocabulary entry yields one.\<close>

lemma mask_step_keeps: "snd r \<noteq> None \<Longrightarrow> snd (mask_step s complete eog tok r) \<noteq> None"
  by (cases tok; cases r) (auto simp: Let_def)

lemma mask_fold_keeps: "snd r \<noteq> None \<Longrightarrow> snd (fold (mask_step s complete eog) vocab r) \<noteq> None"
proof (induction vocab arbitrary: r)
  case (Cons tok vocab)
  show ?case using Cons.IH [OF mask_step_keeps [OF Cons.prems]] by simp
qed simp

lemma mask_step_finite:
  assumes "mask_inv logits0 r" and "unat t < length logits0" and "f32_is_finite (logits0 ! unat t)"
  shows "snd (mask_step s complete eog (t, bs) r) \<noteq> None"
proof (cases "snd r = None")
  case True
  then show ?thesis using assms by (cases r) (auto simp: mask_inv_def Let_def)
next
  case False
  then show ?thesis by (rule mask_step_keeps)
qed

lemma mask_fold_finite:
  assumes "mask_inv logits0 r" and "(t, bs) \<in> set vocab" and "unat t < length logits0"
    and "f32_is_finite (logits0 ! unat t)"
  shows "snd (fold (mask_step s complete eog) vocab r) \<noteq> None"
  using assms
proof (induction vocab arbitrary: r)
  case (Cons tok vocab)
  note inv = mask_step_inv [OF Cons.prems(1), of s complete eog tok]
  show ?case
  proof (cases "tok = (t, bs)")
    case True
    have "snd (mask_step s complete eog tok r) \<noteq> None"
      unfolding True by (rule mask_step_finite [OF Cons.prems(1,3,4)])
    from mask_fold_keeps [OF this] show ?thesis by simp
  next
    case False
    then show ?thesis using Cons.IH [OF inv] Cons.prems by simp
  qed
qed simp

text \<open>With distinct identifiers every entry decides its own logit.\<close>

lemma mask_step_nth:
  "i < length (fst r) \<Longrightarrow> fst (mask_step s complete eog (t, bs) r) ! i =
     (if i = unat t \<and> \<not> token_allowed s complete eog t bs then NEG_INFINITY else fst r ! i)"
  by (cases r) (auto simp: Let_def nth_list_update)

lemma mask_step_length [simp]: "length (fst (mask_step s complete eog tok r)) = length (fst r)"
  by (cases tok; cases r) (auto simp: Let_def)

lemma mask_fold_other:
  "i < length (fst r) \<Longrightarrow> i \<notin> unat ` fst ` set vocab \<Longrightarrow>
   fst (fold (mask_step s complete eog) vocab r) ! i = fst r ! i"
proof (induction vocab arbitrary: r)
  case (Cons tok vocab)
  obtain t bs where tok: "tok = (t, bs)" by fastforce
  show ?case using Cons.IH [of "mask_step s complete eog tok r"] Cons.prems mask_step_nth [of i r]
    by (simp add: tok)
qed simp

lemma mask_fold_nth:
  "distinct (map fst vocab) \<Longrightarrow> (t, bs) \<in> set vocab \<Longrightarrow> unat t < length (fst r) \<Longrightarrow>
   fst (fold (mask_step s complete eog) vocab r) ! unat t =
     (if token_allowed s complete eog t bs then fst r ! unat t else NEG_INFINITY)"
proof (induction vocab arbitrary: r)
  case (Cons tok vocab)
  show ?case
  proof (cases "tok = (t, bs)")
    case True
    have "unat t \<notin> unat ` fst ` set vocab"
    proof
      assume "unat t \<in> unat ` fst ` set vocab"
      then obtain u where "u \<in> fst ` set vocab" "unat t = unat u" by blast
      moreover from this(2) have "t = u" by (rule unsigned_word_eqI)
      ultimately have "t \<in> fst ` set vocab" by simp
      then show False using Cons.prems(1) True by simp
    qed
    then show ?thesis
      using mask_fold_other [of "unat t" "mask_step s complete eog tok r" vocab s complete eog]
        mask_step_nth [of "unat t" r] Cons.prems(3) by (simp add: True)
  next
    case False
    obtain t' bs' where tok: "tok = (t', bs')" by fastforce
    have "t' \<noteq> t" using False Cons.prems(1,2) tok by (force simp: image_iff)
    then have ne: "unat t \<noteq> unat t'" using unsigned_word_eqI [of t t'] by auto
    have "fst (fold (mask_step s complete eog) vocab (mask_step s complete eog tok r)) ! unat t =
        (if token_allowed s complete eog t bs then fst (mask_step s complete eog tok r) ! unat t
         else NEG_INFINITY)"
      using Cons.prems False by (intro Cons.IH) auto
    also have "fst (mask_step s complete eog tok r) ! unat t = fst r ! unat t"
      unfolding tok using ne mask_step_nth [OF Cons.prems(3), of s complete eog t' bs'] by simp
    finally show ?thesis by simp
  qed
qed simp

end
