(* ===== verification/Grammar_Parser.thy ===== *)
theory Grammar_Parser
  imports Grammar_Types
begin

text \<open>
  The GBNF parser of \<open>crates/oxillama-runtime/src/sampling/grammar/parser.rs\<close>. The parser's
  state is its position together with the input from there on, which is all it ever looks at.
  The recursive descent takes fuel; \<open>None\<close> means that it ran out, which
  \<open>gbnf_parse\<close> never does.
\<close>

section \<open>Bytes\<close>

abbreviation QUOTE :: u8 where "QUOTE \<equiv> 34"
abbreviation HASH :: u8 where "HASH \<equiv> 35"
abbreviation OPEN_PAREN :: u8 where "OPEN_PAREN \<equiv> 40"
abbreviation CLOSE_PAREN :: u8 where "CLOSE_PAREN \<equiv> 41"
abbreviation STAR :: u8 where "STAR \<equiv> 42"
abbreviation PLUS :: u8 where "PLUS \<equiv> 43"
abbreviation DASH :: u8 where "DASH \<equiv> 45"
abbreviation QUESTION :: u8 where "QUESTION \<equiv> 63"
abbreviation OPEN_BRACKET :: u8 where "OPEN_BRACKET \<equiv> 91"
abbreviation BACKSLASH :: u8 where "BACKSLASH \<equiv> 92"
abbreviation CLOSE_BRACKET :: u8 where "CLOSE_BRACKET \<equiv> 93"
abbreviation CARET :: u8 where "CARET \<equiv> 94"
abbreviation UNDERSCORE :: u8 where "UNDERSCORE \<equiv> 95"
abbreviation OPEN_BRACE :: u8 where "OPEN_BRACE \<equiv> 123"
abbreviation BAR :: u8 where "BAR \<equiv> 124"
abbreviation CLOSE_BRACE :: u8 where "CLOSE_BRACE \<equiv> 125"
abbreviation SPACE :: u8 where "SPACE \<equiv> 32"
abbreviation TAB :: u8 where "TAB \<equiv> 9"
abbreviation LF :: u8 where "LF \<equiv> 10"
abbreviation CR :: u8 where "CR \<equiv> 13"

definition is_ascii_alphabetic :: "u8 \<Rightarrow> bool" where
  "is_ascii_alphabetic b \<longleftrightarrow> 65 \<le> b \<and> b \<le> 90 \<or> 97 \<le> b \<and> b \<le> 122"

definition is_ascii_digit :: "u8 \<Rightarrow> bool" where
  "is_ascii_digit b \<longleftrightarrow> 48 \<le> b \<and> b \<le> 57"

definition is_ident_start :: "u8 \<Rightarrow> bool" where
  "is_ident_start b \<longleftrightarrow> is_ascii_alphabetic b \<or> b = UNDERSCORE"

definition is_ident_cont :: "u8 \<Rightarrow> bool" where
  "is_ident_cont b \<longleftrightarrow> is_ascii_alphabetic b \<or> is_ascii_digit b \<or> b = UNDERSCORE \<or> b = DASH"

section \<open>The cursor\<close>

type_synonym gbnf = "nat \<times> u8 list"
type_synonym 'a gbnf_parser = "gbnf \<Rightarrow> grammar_error + 'a \<times> gbnf"

fun peek :: "gbnf \<Rightarrow> u8 option" where
  "peek (pos, []) = None"
| "peek (pos, b # bs) = Some b"

definition peek2 :: "gbnf \<Rightarrow> u8 option" where
  "peek2 st = (if length (snd st) < 2 then None else Some (snd st ! 1))"

definition bump :: "gbnf \<Rightarrow> gbnf" where
  "bump st = (Suc (fst st), tl (snd st))"

fun consume :: "gbnf \<Rightarrow> (u8 \<times> gbnf) option" where
  "consume (pos, []) = None"
| "consume (pos, b # bs) = Some (b, (Suc pos, bs))"

definition parse_error :: "parse_reason \<Rightarrow> gbnf \<Rightarrow> grammar_error" where
  "parse_error r st = ParseError (fst st) r"

definition expect :: "u8 \<Rightarrow> unit gbnf_parser" where
  "expect expected st =
     (case consume st of
        Some (b, st) \<Rightarrow>
          if b = expected then Inr ((), st) else Inl (parse_error (ExpectedByte expected (Some b)) st)
      | None \<Rightarrow> Inl (parse_error (ExpectedByte expected None) st))"

text \<open>A \<open>while\<close> loop that advances over the bytes satisfying a test.\<close>

definition skip_while :: "(u8 \<Rightarrow> bool) \<Rightarrow> gbnf \<Rightarrow> gbnf" where
  "skip_while P st = (fst st + length (takeWhile P (snd st)), dropWhile P (snd st))"

definition skip_inline_ws :: "gbnf \<Rightarrow> gbnf" where
  "skip_inline_ws = skip_while (\<lambda>b. b = SPACE \<or> b = TAB)"

function skip_ws_and_comments :: "gbnf \<Rightarrow> gbnf" where
  "skip_ws_and_comments st =
     (case peek st of
        None \<Rightarrow> st
      | Some b \<Rightarrow>
          if b = SPACE \<or> b = TAB \<or> b = CR \<or> b = LF then skip_ws_and_comments (bump st)
          else if b = HASH then skip_ws_and_comments (skip_while (\<lambda>b. b \<noteq> LF) st)
          else st)"
  by pat_completeness auto

lemma peek_Some: "peek st = Some b \<Longrightarrow> \<exists>pos bs. st = (pos, b # bs)"
  by (cases st rule: peek.cases) auto

lemma skip_while_length: "length (snd (skip_while P st)) \<le> length (snd st)"
  by (simp add: skip_while_def length_dropWhile_le)

termination skip_ws_and_comments
proof (relation "measure (\<lambda>st. length (snd st))", goal_cases)
  case (2 st b)
  then show ?case by (auto dest!: peek_Some simp: bump_def)
next
  case (3 st b)
  then obtain pos bs where "st = (pos, HASH # bs)" using peek_Some by blast
  then show ?case by (simp add: skip_while_def less_Suc_eq_le length_dropWhile_le)
qed simp

declare skip_ws_and_comments.simps [simp del]

section \<open>Identifiers and escapes\<close>

definition parse_ident :: "string gbnf_parser" where
  "parse_ident st =
     (case peek st of
        Some b \<Rightarrow>
          if is_ident_start b
          then let end_st = skip_while is_ident_cont (bump st)
               in Inr (map char_of_byte (take (fst end_st - fst st) (snd st)), end_st)
          else Inl (parse_error ExpectedIdent st)
      | None \<Rightarrow> Inl (parse_error ExpectedIdent st))"

definition consume_hex_digit :: "u8 gbnf_parser" where
  "consume_hex_digit st =
     (case consume st of
        Some (b, st) \<Rightarrow>
          if 48 \<le> b \<and> b \<le> 57 then Inr (b - 48, st)
          else if 97 \<le> b \<and> b \<le> 102 then Inr (b - 97 + 10, st)
          else if 65 \<le> b \<and> b \<le> 70 then Inr (b - 65 + 10, st)
          else Inl (parse_error (ExpectedHex (Some b)) st)
      | None \<Rightarrow> Inl (parse_error (ExpectedHex None) st))"

definition hex_pair :: "u8 gbnf_parser" where
  "hex_pair st =
     and_then (consume_hex_digit st) (\<lambda>(hi, st).
     and_then (consume_hex_digit st) (\<lambda>(lo, st). Inr (push_bit 4 hi OR lo, st)))"

text \<open>The digits of a \<open>\u{...}\<close> escape.\<close>

lemma consume_Some: "consume st = Some (b, st') \<Longrightarrow> length (snd st) = Suc (length (snd st'))"
  by (cases st rule: consume.cases) auto

lemma consume_hex_digit_shorter:
  "consume_hex_digit st = Inr (d, st') \<Longrightarrow> length (snd st) = Suc (length (snd st'))"
  by (auto simp: consume_hex_digit_def dest: consume_Some split: option.splits if_splits)

function codepoint_digits :: "u32 \<Rightarrow> nat \<Rightarrow> u32 gbnf_parser" where
  "codepoint_digits codepoint digits st =
     (if peek st = Some CLOSE_BRACE then Inr (codepoint, st)
      else and_then (consume_hex_digit st) (\<lambda>(d, st).
        let codepoint = push_bit 4 codepoint OR ucast d;
            digits = digits + 1
        in if digits > 6 then Inl (parse_error CodepointTooLarge st)
           else codepoint_digits codepoint digits st))"
  by pat_completeness auto
termination
  by (relation "measure (\<lambda>(c, d, st). length (snd st))") (auto dest: consume_hex_digit_shorter)

declare codepoint_digits.simps [simp del]

definition parse_escape_sequence :: "u8 list gbnf_parser" where
  "parse_escape_sequence st =
     (case consume st of
        Some (b, st) \<Rightarrow>
          if b = 110 then Inr ([LF], st)
          else if b = 114 then Inr ([CR], st)
          else if b = 116 then Inr ([TAB], st)
          else if b = BACKSLASH then Inr ([BACKSLASH], st)
          else if b = QUOTE then Inr ([QUOTE], st)
          else if b = 39 then Inr ([39], st)
          else if b = 48 then Inr ([0], st)
          else if b = 120 then and_then (hex_pair st) (\<lambda>(h, st). Inr ([h], st))
          else if b = 117 then
            and_then (expect OPEN_BRACE st) (\<lambda>(u, st).
            and_then (codepoint_digits 0 0 st) (\<lambda>(codepoint, st).
            and_then (expect CLOSE_BRACE st) (\<lambda>(u, st).
            and_then (ok_or (char_from_u32 codepoint) (parse_error BadCodepoint st)) (\<lambda>c.
              Inr (encode_utf8 c, st)))))
          else Inl (parse_error (UnknownEscape b) st)
      | None \<Rightarrow> Inl (parse_error TruncatedEscape st))"

definition parse_class_escape :: "u8 gbnf_parser" where
  "parse_class_escape st =
     (case consume st of
        Some (b, st) \<Rightarrow>
          if b = 110 then Inr (LF, st)
          else if b = 114 then Inr (CR, st)
          else if b = 116 then Inr (TAB, st)
          else if b = BACKSLASH then Inr (BACKSLASH, st)
          else if b = CLOSE_BRACKET then Inr (CLOSE_BRACKET, st)
          else if b = DASH then Inr (DASH, st)
          else if b = CARET then Inr (CARET, st)
          else if b = 120 then hex_pair st
          else Inl (parse_error (UnknownClassEscape b) st)
      | None \<Rightarrow> Inl (parse_error TruncatedClassEscape st))"

definition parse_class_byte :: "u8 gbnf_parser" where
  "parse_class_byte st =
     (case peek st of
        Some b \<Rightarrow> if b = BACKSLASH then parse_class_escape (bump st) else Inr (b, bump st)
      | None \<Rightarrow> Inl (parse_error UnexpectedClassEnd st))"

text \<open>How far these parsers move.\<close>

lemma expect_shorter: "expect e st = Inr (u, st') \<Longrightarrow> length (snd st) = Suc (length (snd st'))"
  by (auto simp: expect_def dest: consume_Some split: option.splits if_splits)

lemma hex_pair_shorter: "hex_pair st = Inr (h, st') \<Longrightarrow> length (snd st') < length (snd st)"
  by (auto simp: hex_pair_def and_then_Inr_iff dest!: consume_hex_digit_shorter)

lemma codepoint_digits_shorter:
  "codepoint_digits c d st = Inr (r, st') \<Longrightarrow> length (snd st') \<le> length (snd st)"
proof (induction c d st rule: codepoint_digits.induct)
  case (1 c d st)
  show ?case
  proof (cases "peek st = Some CLOSE_BRACE")
    case True
    then show ?thesis using 1(2) by (simp add: codepoint_digits.simps [of c d st])
  next
    case False
    then obtain x st1 where x: "consume_hex_digit st = Inr (x, st1)"
      "codepoint_digits (push_bit 4 c OR ucast x) (d + 1) st1 = Inr (r, st')" "\<not> d + 1 > 6"
      using 1(2) by (auto simp: codepoint_digits.simps [of c d st] and_then_Inr_iff Let_def split: if_splits)
    have "length (snd st') \<le> length (snd st1)" using 1(1) [OF False x(1) refl refl refl x(3,2)] .
    then show ?thesis using consume_hex_digit_shorter [OF x(1)] by simp
  qed
qed

lemma parse_escape_shorter:
  assumes "parse_escape_sequence st = Inr (bs, st')"
  shows "length (snd st') < length (snd st)"
proof -
  obtain b st1 where c: "consume st = Some (b, st1)"
    using assms by (auto simp: parse_escape_sequence_def split: option.splits)
  note len = consume_Some [OF c]
  consider "st' = st1" | h where "hex_pair st1 = Inr (h, st')"
    | u st2 cp st3 where "expect OPEN_BRACE st1 = Inr (u, st2)" "codepoint_digits 0 0 st2 = Inr (cp, st3)"
        "expect CLOSE_BRACE st3 = Inr ((), st')"
    using assms by (auto simp: parse_escape_sequence_def c and_then_Inr_iff split: if_splits)
  then show ?thesis
  proof cases
    case 1
    then show ?thesis using len by simp
  next
    case 2
    then show ?thesis using len hex_pair_shorter by fastforce
  next
    case 3
    then show ?thesis
      using len expect_shorter [OF 3(1)] codepoint_digits_shorter [OF 3(2)] expect_shorter [OF 3(3)] by simp
  qed
qed

lemma parse_class_escape_shorter:
  "parse_class_escape st = Inr (b, st') \<Longrightarrow> length (snd st') < length (snd st)"
  by (auto simp: parse_class_escape_def dest!: consume_Some hex_pair_shorter split: option.splits if_splits)

lemma parse_class_byte_shorter:
  "parse_class_byte st = Inr (b, st') \<Longrightarrow> length (snd st') < length (snd st)"
  by (auto simp: parse_class_byte_def bump_def dest!: peek_Some parse_class_escape_shorter
      split: option.splits if_splits)

section \<open>Literals and classes\<close>

function string_loop :: "u8 list \<Rightarrow> u8 list gbnf_parser" where
  "string_loop bytes st =
     (case consume st of
        None \<Rightarrow> Inl (parse_error UnterminatedString st)
      | Some (b, st) \<Rightarrow>
          if b = QUOTE then Inr (bytes, st)
          else if b = BACKSLASH
          then and_then (parse_escape_sequence st) (\<lambda>(escaped, st). string_loop (bytes @ escaped) st)
          else string_loop (bytes @ [b]) st)"
  by pat_completeness auto
termination
  by (relation "measure (\<lambda>(bytes, st). length (snd st))")
    (auto dest!: consume_Some parse_escape_shorter)

declare string_loop.simps [simp del]

definition parse_string_literal :: "gnode gbnf_parser" where
  "parse_string_literal st =
     and_then (expect QUOTE st) (\<lambda>(u, st).
     and_then (string_loop [] st) (\<lambda>(bytes, st). Inr (Literal bytes, st)))"

text \<open>What follows the first byte of a range.\<close>

definition range_tail :: "u8 \<Rightarrow> char_range gbnf_parser" where
  "range_tail lo st =
     (if peek st = Some DASH \<and> peek2 st \<noteq> Some CLOSE_BRACKET
      then and_then (parse_class_byte (bump st)) (\<lambda>(hi, st). Inr (\<lparr>cr_lo = lo, cr_hi = hi\<rparr>, st))
      else Inr (range_single lo, st))"

lemma range_tail_shorter: "range_tail lo st = Inr (r, st') \<Longrightarrow> length (snd st') \<le> length (snd st)"
  by (auto simp: range_tail_def and_then_Inr_iff bump_def dest!: parse_class_byte_shorter peek_Some
      split: if_splits)

function class_loop :: "char_range list \<Rightarrow> char_range list gbnf_parser" where
  "class_loop ranges st =
     (case peek st of
        None \<Rightarrow> Inl (parse_error UnterminatedClass st)
      | Some b \<Rightarrow>
          if b = CLOSE_BRACKET then Inr (ranges, bump st)
          else and_then (if b = BACKSLASH then parse_class_escape (bump st) else parse_class_byte st)
            (\<lambda>(lo, st). and_then (range_tail lo st) (\<lambda>(r, st). class_loop (ranges @ [r]) st)))"
  by pat_completeness auto
termination
proof (relation "measure (\<lambda>(ranges, st). length (snd st))", goal_cases)
  case (2 ranges st b x lo st1 y r st2)
  obtain pos bs where st: "st = (pos, b # bs)" using peek_Some [OF 2(1)] by blast
  have "length (snd st1) < length (snd st)"
    using 2(3,4) parse_class_escape_shorter [of "bump st" lo st1] parse_class_byte_shorter [of st lo st1]
    by (auto simp: bump_def st split: if_splits)
  then show ?case using 2(5,6) range_tail_shorter by fastforce
qed simp

declare class_loop.simps [simp del]

definition parse_char_class :: "gnode gbnf_parser" where
  "parse_char_class st =
     and_then (expect OPEN_BRACKET st) (\<lambda>(u, st).
       let negated = (peek st = Some CARET);
           st = (if negated then bump st else st)
       in and_then (class_loop [] st) (\<lambda>(ranges, st). Inr (CharClass ranges negated, st)))"

section \<open>The recursive descent\<close>

definition parse_quantifier :: "gnode \<Rightarrow> gbnf \<Rightarrow> gnode \<times> gbnf" where
  "parse_quantifier base st =
     (if peek st = Some STAR then (Repeat base 0 None, bump st)
      else if peek st = Some PLUS then (Repeat base 1 None, bump st)
      else if peek st = Some QUESTION then (Repeat base 0 (Some 1), bump st)
      else (base, st))"

definition sequence_node :: "gnode list \<Rightarrow> gnode" where
  "sequence_node items = (case items of [] \<Rightarrow> Literal [] | [item] \<Rightarrow> item | _ \<Rightarrow> Sequence items)"

definition ends_sequence :: "u8 option \<Rightarrow> bool" where
  "ends_sequence p \<longleftrightarrow> p \<in> {None, Some LF, Some CR, Some BAR, Some CLOSE_PAREN, Some HASH}"

type_synonym 'a fuelled = "(grammar_error + 'a \<times> gbnf) option"

definition fbind :: "'a fuelled \<Rightarrow> ('a \<Rightarrow> gbnf \<Rightarrow> 'b fuelled) \<Rightarrow> 'b fuelled" where
  "fbind m f = (case m of None \<Rightarrow> None | Some (Inl e) \<Rightarrow> Some (Inl e) | Some (Inr (a, st)) \<Rightarrow> f a st)"

function (sequential) parse_alternation :: "nat \<Rightarrow> gbnf \<Rightarrow> gnode fuelled"
  and parse_alternatives :: "nat \<Rightarrow> gnode list \<Rightarrow> gbnf \<Rightarrow> gnode fuelled"
  and parse_sequence :: "nat \<Rightarrow> gnode list \<Rightarrow> gbnf \<Rightarrow> gnode fuelled"
  and parse_atom :: "nat \<Rightarrow> gbnf \<Rightarrow> gnode fuelled" where
  "parse_alternation 0 st = None"
| "parse_alternation (Suc n) st =
     fbind (parse_sequence n [] st) (\<lambda>first st.
       let st = skip_inline_ws st
       in if peek st \<noteq> Some BAR then Some (Inr (first, st)) else parse_alternatives n [first] st)"
| "parse_alternatives 0 alternatives st = None"
| "parse_alternatives (Suc n) alternatives st =
     (if peek st = Some BAR
      then fbind (parse_sequence n [] (skip_inline_ws (bump st))) (\<lambda>a st.
             parse_alternatives n (alternatives @ [a]) (skip_inline_ws st))
      else Some (Inr (Alternation alternatives, st)))"
| "parse_sequence 0 items st = None"
| "parse_sequence (Suc n) items st =
     (let st = skip_inline_ws st
      in if ends_sequence (peek st) then Some (Inr (sequence_node items, st))
         else fbind (parse_atom n st) (\<lambda>base st.
                let (item, st) = parse_quantifier base st in parse_sequence n (items @ [item]) st))"
| "parse_atom 0 st = None"
| "parse_atom (Suc n) st =
     (case peek st of
        None \<Rightarrow> Some (Inl (parse_error UnexpectedEnd st))
      | Some b \<Rightarrow>
          if b = QUOTE then Some (parse_string_literal st)
          else if b = OPEN_BRACKET then Some (parse_char_class st)
          else if b = OPEN_PAREN
          then fbind (parse_alternation n (skip_inline_ws (bump st))) (\<lambda>inner st.
                 let st = skip_inline_ws st
                 in Some (and_then (expect CLOSE_PAREN st) (\<lambda>(u, st). Inr (inner, st))))
          else if is_ident_start b
          then Some (and_then (parse_ident st) (\<lambda>(name, st). Inr (RuleRef name, st)))
          else Some (Inl (parse_error (UnexpectedByte b) st)))"
  by pat_completeness auto
termination
  by (relation "measure (\<lambda>x. case x of Inl (Inl (n, st)) \<Rightarrow> n | Inl (Inr (n, alts, st)) \<Rightarrow> n
      | Inr (Inl (n, items, st)) \<Rightarrow> n | Inr (Inr (n, st)) \<Rightarrow> n)") simp_all

section \<open>Grammars\<close>

definition DEFINES :: "u8 list" where
  "DEFINES = [58, 58, 61]"

definition rule_fuel :: "gbnf \<Rightarrow> nat" where
  "rule_fuel st = 3 * length (snd st) + 3"

fun parse_rules :: "nat \<Rightarrow> rules \<Rightarrow> string option \<Rightarrow> gbnf \<Rightarrow> (rules \<times> string option) fuelled" where
  "parse_rules 0 rules first_rule st = None"
| "parse_rules (Suc n) rules first_rule st =
     (if snd st = [] then Some (Inr ((rules, first_rule), st))
      else fbind (Some (parse_ident st)) (\<lambda>name st.
        let st = skip_inline_ws st
        in if take 3 (snd st) \<noteq> DEFINES then Some (Inl (parse_error ExpectedDefines st))
           else let st = skip_inline_ws (bump (bump (bump st)))
                in fbind (parse_alternation (rule_fuel st) st) (\<lambda>node st.
                     parse_rules n (AList.update name node rules)
                       (if first_rule = None then Some name else first_rule) (skip_ws_and_comments st))))"

definition parse_grammar :: "gbnf \<Rightarrow> grammar fuelled" where
  "parse_grammar st =
     (let st = skip_ws_and_comments st
      in fbind (parse_rules (Suc (length (snd st))) [] None st) (\<lambda>(rules, first_rule) st.
           if rules = [] then Some (Inl (ParseError 0 NoRules))
           else let root = (if map_of rules ''root'' \<noteq> None then ''root''
                            else case first_rule of Some name \<Rightarrow> name | None \<Rightarrow> [])
                in Some (Inr (\<lparr>gr_rules = rules, gr_root = root, gr_source = []\<rparr>, st))))"

definition gbnf_parse :: "u8 list \<Rightarrow> (grammar_error + grammar) option" where
  "gbnf_parse input =
     (case parse_grammar (0, input) of
        None \<Rightarrow> None
      | Some (Inl e) \<Rightarrow> Some (Inl e)
      | Some (Inr (g, st)) \<Rightarrow> Some (Inr (g\<lparr>gr_source := input\<rparr>)))"

definition root_node :: "grammar \<Rightarrow> grammar_error + gnode" where
  "root_node g = ok_or (map_of (gr_rules g) (gr_root g)) (UnknownRule (gr_root g))"

end
