(* ===== verification/Grammar_Descent.thy ===== *)
theory Grammar_Descent
  imports Grammar_Parser
begin

text \<open>
  The recursive descent of the GBNF parser: three units of fuel per byte are enough for it to
  return, more fuel changes nothing, and no step reads backwards.
\<close>

section \<open>The parser returns\<close>

abbreviation left :: "gbnf \<Rightarrow> nat" where
  "left st \<equiv> length (snd st)"

definition returns :: "'a fuelled \<Rightarrow> ('a \<Rightarrow> gbnf \<Rightarrow> bool) \<Rightarrow> bool" where
  "returns m P \<longleftrightarrow>
     (case m of None \<Rightarrow> False | Some (Inl e) \<Rightarrow> True | Some (Inr (a, st)) \<Rightarrow> P a st)"

lemma returns_simps [simp]:
  "\<not> returns None P" "returns (Some (Inl e)) P" "returns (Some (Inr (a, st))) P = P a st"
  by (simp_all add: returns_def)

lemma returns_Some: "returns (Some r) P \<longleftrightarrow> (\<forall>a st. r = Inr (a, st) \<longrightarrow> P a st)"
  by (cases r) (auto simp: returns_def)

lemma returns_fbind:
  "returns m P \<Longrightarrow> (\<And>a st. m = Some (Inr (a, st)) \<Longrightarrow> P a st \<Longrightarrow> returns (f a st) Q) \<Longrightarrow> returns (fbind m f) Q"
  by (auto simp: returns_def fbind_def split: option.splits sum.splits)

lemma fbind_Inr [simp]: "fbind (Some (Inr (a, st))) f = f a st"
  by (simp add: fbind_def)

lemma returns_mono: "returns m P \<Longrightarrow> (\<And>a st. P a st \<Longrightarrow> Q a st) \<Longrightarrow> returns m Q"
  by (auto simp: returns_def split: option.splits sum.splits)

lemma skip_inline_ws_length: "left (skip_inline_ws st) \<le> left st"
  by (simp add: skip_inline_ws_def skip_while_length)

lemma skip_ws_and_comments_length: "left (skip_ws_and_comments st) \<le> left st"
proof (induction st rule: skip_ws_and_comments.induct)
  case (1 st)
  show ?case
  proof (cases "peek st")
    case None
    then show ?thesis by (simp add: skip_ws_and_comments.simps [of st])
  next
    case (Some b)
    then obtain pos bs where st: "st = (pos, b # bs)" using peek_Some by blast
    have "left (skip_while (\<lambda>b. b \<noteq> LF) st) \<le> left st" by (rule skip_while_length)
    moreover have "left (bump st) \<le> left st" by (simp add: bump_def)
    ultimately show ?thesis
      using 1 Some by (auto simp: skip_ws_and_comments.simps [of st] split: if_splits intro: order_trans)
  qed
qed

lemma bump_length: "peek st \<noteq> None \<Longrightarrow> left (bump st) < left st"
  by (cases st rule: peek.cases) (simp_all add: bump_def)

lemma string_loop_length: "string_loop bytes st = Inr (r, st') \<Longrightarrow> left st' < left st"
proof (induction bytes st rule: string_loop.induct)
  case (1 bytes st)
  obtain b st1 where c: "consume st = Some (b, st1)"
    using 1(3) by (auto simp: string_loop.simps [of bytes st] split: option.splits)
  note len = consume_Some [OF c]
  consider "st' = st1" | esc st2 where "b \<noteq> QUOTE" "b = BACKSLASH" "parse_escape_sequence st1 = Inr (esc, st2)"
      "string_loop (bytes @ esc) st2 = Inr (r, st')"
    | "b \<noteq> QUOTE" "b \<noteq> BACKSLASH" "string_loop (bytes @ [b]) st1 = Inr (r, st')"
    using 1(3) by (auto simp: string_loop.simps [of bytes st] c and_then_Inr_iff split: if_splits)
  then show ?case
  proof cases
    case 1
    then show ?thesis using len by simp
  next
    case 2
    have "left st' < left st2" using "1.IH"(1) [OF c refl 2(1,2,3) refl 2(4)] .
    then show ?thesis using parse_escape_shorter [OF 2(3)] len by simp
  next
    case 3
    have "left st' < left st1" using "1.IH"(2) [OF c refl 3] .
    then show ?thesis using len by simp
  qed
qed

lemma class_loop_length: "class_loop ranges st = Inr (r, st') \<Longrightarrow> left st' < left st"
proof (induction ranges st rule: class_loop.induct)
  case (1 ranges st)
  obtain b where p: "peek st = Some b"
    using 1(2) by (auto simp: class_loop.simps [of ranges st] split: option.splits)
  then obtain pos bs where st: "st = (pos, b # bs)" using peek_Some by blast
  show ?case
  proof (cases "b = CLOSE_BRACKET")
    case True
    then have "class_loop ranges st = Inr (ranges, bump st)"
      using p by (simp add: class_loop.simps [of ranges st])
    then show ?thesis using 1(2) by (auto simp: st bump_def)
  next
    case False
    then obtain lo st1 rg st2 where
        a: "(if b = BACKSLASH then parse_class_escape (bump st) else parse_class_byte st) = Inr (lo, st1)"
        "range_tail lo st1 = Inr (rg, st2)" "class_loop (ranges @ [rg]) st2 = Inr (r, st')"
      using 1(2) p by (auto simp: class_loop.simps [of ranges st] and_then_Inr_iff)
    have "left st1 < left st"
      using a(1) parse_class_escape_shorter [of "bump st" lo st1] parse_class_byte_shorter [of st lo st1]
      by (auto simp: bump_def st split: if_splits)
    moreover have "left st' < left st2" using 1(1) [OF p False a(1) refl a(2) refl a(3)] .
    ultimately show ?thesis using range_tail_shorter [OF a(2)] by simp
  qed
qed

lemma parse_string_literal_length: "parse_string_literal st = Inr (r, st') \<Longrightarrow> left st' < left st"
  by (auto simp: parse_string_literal_def and_then_Inr_iff dest!: expect_shorter string_loop_length)

lemma parse_char_class_length: "parse_char_class st = Inr (r, st') \<Longrightarrow> left st' < left st"
  by (auto simp: parse_char_class_def and_then_Inr_iff Let_def bump_def
      dest!: expect_shorter class_loop_length split: if_splits)

lemma parse_ident_length: "parse_ident st = Inr (r, st') \<Longrightarrow> left st' < left st"
  by (auto simp: parse_ident_def skip_while_def bump_def Let_def dest!: peek_Some
      intro: le_imp_less_Suc [OF length_dropWhile_le] split: option.splits if_splits)

lemma parse_quantifier_length: "left (snd (parse_quantifier base st)) \<le> left st"
  by (simp add: parse_quantifier_def bump_def)

text \<open>
  Three units of fuel per byte are enough: a nested alternation costs the depth of an
  alternation, a sequence and an atom, and its bracket is a byte.
\<close>

lemma descent_returns:
  "3 * left st + 3 \<le> n \<Longrightarrow> returns (parse_alternation n st) (\<lambda>a st'. left st' \<le> left st)"
  "3 * left st + 2 \<le> n \<Longrightarrow> returns (parse_alternatives n alts st) (\<lambda>a st'. left st' \<le> left st)"
  "3 * left st + 2 \<le> n \<Longrightarrow> returns (parse_sequence n items st) (\<lambda>a st'. left st' \<le> left st)"
  "3 * left st + 1 \<le> n \<Longrightarrow> returns (parse_atom n st) (\<lambda>a st'. left st' < left st)"
proof (induction n st and n alts st and n items st and n st
    rule: parse_alternation_parse_alternatives_parse_sequence_parse_atom.induct)
  case (2 n st)
  have "returns (parse_sequence n [] st) (\<lambda>a st'. left st' \<le> left st)"
    using 2(3) by (intro 2(1)) simp
  then show ?case
    unfolding parse_alternation.simps
  proof (rule returns_fbind)
    fix first st1
    assume s: "parse_sequence n [] st = Some (Inr (first, st1))" and le: "left st1 \<le> left st"
    let ?st2 = "skip_inline_ws st1"
    have le2: "left ?st2 \<le> left st" using skip_inline_ws_length [of st1] le by simp
    have "returns (parse_alternatives n [first] ?st2) (\<lambda>a st'. left st' \<le> left ?st2)"
      if "peek ?st2 = Some BAR"
      using 2(3) le2 that by (intro 2(2) [OF refl]) simp_all
    then show "returns (let st = ?st2 in if peek st \<noteq> Some BAR then Some (Inr (first, st))
        else parse_alternatives n [first] st) (\<lambda>a st'. left st' \<le> left st)"
      using le2 by (auto simp: Let_def elim!: returns_mono)
  qed
next
  case (4 n alts st)
  show ?case
  proof (cases "peek st = Some BAR")
    case True
    then have b: "left (skip_inline_ws (bump st)) < left st"
      using skip_inline_ws_length [of "bump st"] bump_length [of st] by simp
    have "returns (parse_sequence n [] (skip_inline_ws (bump st)))
        (\<lambda>a st'. left st' \<le> left (skip_inline_ws (bump st)))"
      using 4(3) b by (intro 4(1) [OF True]) simp
    then have "returns (fbind (parse_sequence n [] (skip_inline_ws (bump st))) (\<lambda>a st.
        parse_alternatives n (alts @ [a]) (skip_inline_ws st))) (\<lambda>a st'. left st' \<le> left st)"
    proof (rule returns_fbind)
      fix a st1
      assume le: "left st1 \<le> left (skip_inline_ws (bump st))"
      have le2: "left (skip_inline_ws st1) < left st"
        using skip_inline_ws_length [of st1] le b by simp
      have "returns (parse_alternatives n (alts @ [a]) (skip_inline_ws st1))
          (\<lambda>a st'. left st' \<le> left (skip_inline_ws st1))"
        using 4(3) le2 by (intro 4(2) [OF True]) simp
      then show "returns (parse_alternatives n (alts @ [a]) (skip_inline_ws st1)) (\<lambda>a st'. left st' \<le> left st)"
        using le2 by (auto elim!: returns_mono)
    qed
    then show ?thesis using True by simp
  qed simp
next
  case (6 n items st)
  let ?st = "skip_inline_ws st"
  have le: "left ?st \<le> left st" by (rule skip_inline_ws_length)
  show ?case
  proof (cases "ends_sequence (peek ?st)")
    case True
    then show ?thesis using le by simp
  next
    case False
    have "returns (parse_atom n ?st) (\<lambda>a st'. left st' < left ?st)"
      using 6(3) le by (intro 6(1) [OF refl False]) simp
    then have "returns (fbind (parse_atom n ?st) (\<lambda>base st.
        let (item, st) = parse_quantifier base st in parse_sequence n (items @ [item]) st))
        (\<lambda>a st'. left st' \<le> left st)"
    proof (rule returns_fbind)
      fix base st1
      assume lt: "left st1 < left ?st"
      obtain item st2 where q: "parse_quantifier base st1 = (item, st2)"
        by (cases "parse_quantifier base st1") blast
      have le2: "left st2 < left st" using parse_quantifier_length [of base st1] q lt le by simp
      have "returns (parse_sequence n (items @ [item]) st2) (\<lambda>a st'. left st' \<le> left st2)"
        using 6(3) le2 q by (intro 6(2) [OF refl False q [symmetric] refl]) simp
      then show "returns (let (item, st) = parse_quantifier base st1
          in parse_sequence n (items @ [item]) st) (\<lambda>a st'. left st' \<le> left st)"
        using le2 by (auto simp: q elim!: returns_mono)
    qed
    then show ?thesis using False by (simp add: Let_def)
  qed
next
  case (8 n st)
  show ?case
  proof (cases "peek st")
    case None
    then show ?thesis by simp
  next
    case (Some b)
    have "returns (fbind (parse_alternation n (skip_inline_ws (bump st))) (\<lambda>inner st.
        let st = skip_inline_ws st
        in Some (and_then (expect CLOSE_PAREN st) (\<lambda>(u, st). Inr (inner, st)))))
        (\<lambda>a st'. left st' < left st)" if b: "b = OPEN_PAREN" "b \<noteq> QUOTE" "b \<noteq> OPEN_BRACKET"
    proof -
      have lt: "left (skip_inline_ws (bump st)) < left st"
        using skip_inline_ws_length [of "bump st"] bump_length [of st] Some by simp
      have "returns (parse_alternation n (skip_inline_ws (bump st)))
          (\<lambda>a st'. left st' \<le> left (skip_inline_ws (bump st)))"
        using 8(2) lt by (intro 8(1) [OF Some b(2,3,1)]) simp
      then show ?thesis
      proof (rule returns_fbind)
        fix inner st1
        assume "left st1 \<le> left (skip_inline_ws (bump st))"
        then show "returns (let st = skip_inline_ws st1
            in Some (and_then (expect CLOSE_PAREN st) (\<lambda>(u, st). Inr (inner, st))))
            (\<lambda>a st'. left st' < left st)"
          using skip_inline_ws_length [of st1] lt
          by (auto simp: Let_def returns_Some and_then_Inr_iff dest!: expect_shorter)
      qed
    qed
    then show ?thesis
      using Some by (auto simp: returns_Some and_then_Inr_iff dest: parse_string_literal_length
          parse_char_class_length parse_ident_length)
  qed
qed simp_all

lemma parse_rules_returns: "left st < n \<Longrightarrow> returns (parse_rules n rules first_rule st) (\<lambda>a st'. True)"
proof (induction n arbitrary: rules first_rule st)
  case (Suc n)
  show ?case
  proof (cases "snd st = []")
    case False
    have "returns (Some (parse_ident st)) (\<lambda>a st'. left st' < left st)"
      by (auto simp: returns_Some dest: parse_ident_length)
    then have "returns (parse_rules (Suc n) rules first_rule st) (\<lambda>a st'. True)"
      unfolding parse_rules.simps if_not_P [OF False]
    proof (rule returns_fbind)
      fix name st1
      assume lt: "left st1 < left st"
      let ?st2 = "skip_inline_ws st1"
      let ?st3 = "skip_inline_ws (bump (bump (bump ?st2)))"
      have le: "left ?st3 < left st"
        using lt skip_inline_ws_length [of st1] skip_inline_ws_length [of "bump (bump (bump ?st2))"]
        by (simp add: bump_def)
      have "returns (parse_alternation (rule_fuel ?st3) ?st3) (\<lambda>a st'. left st' \<le> left ?st3)"
        by (intro descent_returns(1)) (simp add: rule_fuel_def)
      then have "returns (fbind (parse_alternation (rule_fuel ?st3) ?st3) (\<lambda>node st.
          parse_rules n (AList.update name node rules)
            (if first_rule = None then Some name else first_rule) (skip_ws_and_comments st))) (\<lambda>a st'. True)"
      proof (rule returns_fbind)
        fix node st4
        assume "left st4 \<le> left ?st3"
        then have "left (skip_ws_and_comments st4) < n"
          using skip_ws_and_comments_length [of st4] le Suc.prems by simp
        then show "returns (parse_rules n (AList.update name node rules)
            (if first_rule = None then Some name else first_rule) (skip_ws_and_comments st4)) (\<lambda>a st'. True)"
          by (rule Suc.IH)
      qed
      then show "returns (let st = ?st2
          in if take 3 (snd st) \<noteq> DEFINES then Some (Inl (parse_error ExpectedDefines st))
             else let st = skip_inline_ws (bump (bump (bump st)))
                  in fbind (parse_alternation (rule_fuel st) st) (\<lambda>node st.
                       parse_rules n (AList.update name node rules)
                         (if first_rule = None then Some name else first_rule) (skip_ws_and_comments st)))
          (\<lambda>a st'. True)"
        by (simp add: Let_def)
    qed
    then show ?thesis .
  qed simp
qed simp

lemma parse_grammar_returns: "returns (parse_grammar st) (\<lambda>a st'. True)"
  unfolding parse_grammar_def Let_def
  by (rule returns_fbind [OF parse_rules_returns]) (simp_all split: prod.split)

lemma returns_not_None: "returns m P \<Longrightarrow> \<exists>r. m = Some r"
  by (cases m) simp_all

section \<open>More fuel changes nothing\<close>

lemma fbind_mono:
  "fbind m f = Some r \<Longrightarrow> (\<And>x. m = Some x \<Longrightarrow> m' = Some x) \<Longrightarrow>
   (\<And>a st. m = Some (Inr (a, st)) \<Longrightarrow> f a st = Some r \<Longrightarrow> f' a st = Some r) \<Longrightarrow> fbind m' f' = Some r"
  by (cases m) (auto simp: fbind_def split: sum.splits)

lemma descent_mono_Suc:
  "parse_alternation n st = Some r \<Longrightarrow> parse_alternation (Suc n) st = Some r"
  "parse_alternatives n alts st = Some r \<Longrightarrow> parse_alternatives (Suc n) alts st = Some r"
  "parse_sequence n items st = Some r \<Longrightarrow> parse_sequence (Suc n) items st = Some r"
  "parse_atom n st = Some r \<Longrightarrow> parse_atom (Suc n) st = Some r"
proof (induction n st and n alts st and n items st and n st arbitrary: r and r and r and r
    rule: parse_alternation_parse_alternatives_parse_sequence_parse_atom.induct)
  case (2 n st)
  show ?case
    unfolding parse_alternation.simps(2) [of "Suc n"]
    by (rule fbind_mono [OF 2(3) [unfolded parse_alternation.simps]])
      (auto simp: Let_def dest: 2(1) intro: 2(2) [OF refl]
        simp del: parse_alternatives.simps parse_sequence.simps split: if_splits)
next
  case (4 n alts st)
  show ?case
  proof (cases "peek st = Some BAR")
    case True
    have f: "fbind (parse_sequence n [] (skip_inline_ws (bump st))) (\<lambda>a st.
        parse_alternatives n (alts @ [a]) (skip_inline_ws st)) = Some r"
      using 4(3) True by simp
    show ?thesis
      unfolding parse_alternatives.simps(2) [of "Suc n"] if_P [OF True]
      by (rule fbind_mono [OF f]) (auto dest: 4(1) [OF True] 4(2) [OF True]
          simp del: parse_alternatives.simps parse_sequence.simps)
  next
    case False
    then show ?thesis using 4(3) by simp
  qed
next
  case (6 n items st)
  show ?case
  proof (cases "ends_sequence (peek (skip_inline_ws st))")
    case True
    then show ?thesis using 6(3) by simp
  next
    case False
    have f: "fbind (parse_atom n (skip_inline_ws st)) (\<lambda>base st.
        let (item, st) = parse_quantifier base st in parse_sequence n (items @ [item]) st) = Some r"
      using 6(3) False by (simp add: Let_def)
    show ?thesis
      unfolding parse_sequence.simps(2) [of "Suc n"] Let_def if_not_P [OF False]
      by (rule fbind_mono [OF f [unfolded Let_def]])
        (auto dest: 6(1) [OF refl False] intro: 6(2) [OF refl False refl sym]
          simp del: parse_atom.simps parse_sequence.simps split: prod.splits)
  qed
next
  case (8 n st)
  show ?case
  proof (cases "peek st")
    case None
    then show ?thesis using 8(2) by simp
  next
    case (Some b)
    show ?thesis
    proof (cases "b = OPEN_PAREN")
      case True
      have ne: "b \<noteq> QUOTE" "b \<noteq> OPEN_BRACKET" using True by simp_all
      have f: "fbind (parse_alternation n (skip_inline_ws (bump st))) (\<lambda>inner st.
          let st = skip_inline_ws st
          in Some (and_then (expect CLOSE_PAREN st) (\<lambda>(u, st). Inr (inner, st)))) = Some r"
        using 8(2) Some True by simp
      have "fbind (parse_alternation (Suc n) (skip_inline_ws (bump st))) (\<lambda>inner st.
          let st = skip_inline_ws st
          in Some (and_then (expect CLOSE_PAREN st) (\<lambda>(u, st). Inr (inner, st)))) = Some r"
        by (rule fbind_mono [OF f]) (auto dest: 8(1) [OF Some ne True] simp del: parse_alternation.simps)
      then show ?thesis using Some True by (simp del: parse_alternation.simps)
    next
      case False
      then show ?thesis using 8(2) Some by (auto split: if_splits)
    qed
  qed
qed simp_all

lemma alternation_mono:
  "parse_alternation n st = Some r \<Longrightarrow> n \<le> m \<Longrightarrow> parse_alternation m st = Some r"
  by (induction m) (auto simp: le_Suc_eq dest: descent_mono_Suc(1) simp del: parse_alternation.simps)

end
