(* ===== verification/Grammar_Roundtrip.thy ===== *)
theory Grammar_Roundtrip
  imports Grammar_Descent
begin

text \<open>
  The trees GBNF can write, a printer for them, and that the parser reads a printed tree back. The
  printer is the specification of the format: it writes every byte as an escape and every
  composite in parentheses.
\<close>

section \<open>The trees of the format\<close>

definition ident_ok :: "string \<Rightarrow> bool" where
  "ident_ok name \<longleftrightarrow>
     (case str_bytes name of [] \<Rightarrow> False | b # bs \<Rightarrow> is_ident_start b \<and> list_all is_ident_cont bs)"

definition quantifier_ok :: "nat \<Rightarrow> nat option \<Rightarrow> bool" where
  "quantifier_ok lo hi \<longleftrightarrow> (lo, hi) \<in> {(0, None), (1, None), (0, Some 1)}"

fun gbnf_node :: "gnode \<Rightarrow> bool" where
  "gbnf_node (Literal bs) = True"
| "gbnf_node (CharClass ranges negated) = True"
| "gbnf_node (RuleRef name) = ident_ok name"
| "gbnf_node (Sequence items) = (2 \<le> length items \<and> list_all gbnf_node items)"
| "gbnf_node (Alternation alts) = (2 \<le> length alts \<and> list_all gbnf_node alts)"
| "gbnf_node (Repeat node lo hi) = (quantifier_ok lo hi \<and> gbnf_node node)"

lemma parse_ident_ok: "parse_ident st = Inr (name, st') \<Longrightarrow> ident_ok name"
proof -
  assume a: "parse_ident st = Inr (name, st')"
  then obtain pos b bs where st: "st = (pos, b # bs)"
    by (auto simp: parse_ident_def dest!: peek_Some split: option.splits)
  then have b: "is_ident_start b" "name = map char_of_byte (b # takeWhile is_ident_cont bs)"
    using a by (auto simp: parse_ident_def skip_while_def bump_def split: if_splits simp flip: takeWhile_eq_take)
  have "str_bytes name = b # takeWhile is_ident_cont bs"
    unfolding b(2) by (simp add: str_bytes_def comp_def)
  then show "ident_ok name"
    using b(1) by (simp add: ident_ok_def list_all_iff) (blast dest: set_takeWhileD)
qed

definition yields :: "'a fuelled \<Rightarrow> ('a \<Rightarrow> bool) \<Rightarrow> bool" where
  "yields m P \<longleftrightarrow> (\<forall>a st. m = Some (Inr (a, st)) \<longrightarrow> P a)"

lemma yields_simps [simp]: "yields None P" "yields (Some (Inl e)) P" "yields (Some (Inr (a, st))) P = P a"
  by (auto simp: yields_def)

lemma yields_fbind:
  "yields m P \<Longrightarrow> (\<And>a st. m = Some (Inr (a, st)) \<Longrightarrow> P a \<Longrightarrow> yields (f a st) Q) \<Longrightarrow> yields (fbind m f) Q"
  by (cases m) (auto simp: yields_def fbind_def split: sum.splits)

lemma sequence_node_ok: "list_all gbnf_node items \<Longrightarrow> gbnf_node (sequence_node items)"
  by (auto simp: sequence_node_def split: list.splits)

lemma parse_quantifier_ok: "gbnf_node base \<Longrightarrow> gbnf_node (fst (parse_quantifier base st))"
  by (simp add: parse_quantifier_def quantifier_ok_def)

lemma descent_nodes:
  "yields (parse_alternation n st) gbnf_node"
  "alts \<noteq> [] \<Longrightarrow> list_all gbnf_node alts \<Longrightarrow> (peek st = Some BAR \<or> 2 \<le> length alts) \<Longrightarrow>
     yields (parse_alternatives n alts st) gbnf_node"
  "list_all gbnf_node items \<Longrightarrow> yields (parse_sequence n items st) gbnf_node"
  "yields (parse_atom n st) gbnf_node"
proof (induction n st and n alts st and n items st and n st
    rule: parse_alternation_parse_alternatives_parse_sequence_parse_atom.induct)
  case (2 n st)
  have s: "yields (parse_sequence n [] st) gbnf_node" by (rule 2(1)) simp
  show ?case unfolding parse_alternation.simps
    by (rule yields_fbind [OF s]) (auto simp: Let_def intro!: 2(2) [OF refl])
next
  case (4 n alts st)
  show ?case
  proof (cases "peek st = Some BAR")
    case True
    have s: "yields (parse_sequence n [] (skip_inline_ws (bump st))) gbnf_node" by (rule 4(1) [OF True]) simp
    show ?thesis unfolding parse_alternatives.simps if_P [OF True]
      by (rule yields_fbind [OF s]) (use 4(3,4) in \<open>auto intro!: 4(2) [OF True] simp: Suc_le_eq\<close>)
  next
    case False
    then show ?thesis using 4(3-5) by simp
  qed
next
  case (6 n items st)
  show ?case
  proof (cases "ends_sequence (peek (skip_inline_ws st))")
    case True
    then show ?thesis using 6(3) sequence_node_ok by (simp add: Let_def)
  next
    case False
    have s: "yields (parse_atom n (skip_inline_ws st)) gbnf_node" by (rule 6(1) [OF refl False])
    show ?thesis unfolding parse_sequence.simps Let_def if_not_P [OF False]
    proof (rule yields_fbind [OF s])
      fix base st1
      assume "gbnf_node base"
      then have "gbnf_node (fst (parse_quantifier base st1))" by (rule parse_quantifier_ok)
      then show "yields (case parse_quantifier base st1 of
          (item, st) \<Rightarrow> parse_sequence n (items @ [item]) st) gbnf_node"
        using 6(3) by (auto intro!: 6(2) [OF refl False refl sym] split: prod.split)
    qed
  qed
next
  case (8 n st)
  have lit: "yields (Some (parse_string_literal st)) gbnf_node"
    by (auto simp: yields_def parse_string_literal_def and_then_Inr_iff)
  have cls: "yields (Some (parse_char_class st)) gbnf_node"
    by (auto simp: yields_def parse_char_class_def and_then_Inr_iff Let_def)
  have idt: "yields (Some (and_then (parse_ident st) (\<lambda>(name, st). Inr (RuleRef name, st)))) gbnf_node"
    by (auto simp: yields_def and_then_Inr_iff dest: parse_ident_ok)
  have par: "yields (fbind (parse_alternation n (skip_inline_ws (bump st))) (\<lambda>inner st.
      let st = skip_inline_ws st
      in Some (and_then (expect CLOSE_PAREN st) (\<lambda>(u, st). Inr (inner, st))))) gbnf_node"
    if "peek st = Some b" "b = OPEN_PAREN" "b \<noteq> QUOTE" "b \<noteq> OPEN_BRACKET" for b
    by (rule yields_fbind [OF 8(1) [OF that(1,3,4,2)]]) (auto simp: yields_def Let_def and_then_Inr_iff)
  show ?case
    using lit cls idt par by (auto split: option.split)
qed simp_all

section \<open>Printing\<close>

definition hex_digit :: "u8 \<Rightarrow> u8" where
  "hex_digit d = (if d < 10 then 48 + d else 87 + d)"

definition hex_escape :: "u8 \<Rightarrow> u8 list" where
  "hex_escape b = [BACKSLASH, 120, hex_digit (drop_bit 4 b), hex_digit (take_bit 4 b)]"

definition show_range :: "char_range \<Rightarrow> u8 list" where
  "show_range r = hex_escape (cr_lo r) @ DASH # hex_escape (cr_hi r)"

definition show_quantifier :: "nat \<Rightarrow> nat option \<Rightarrow> u8" where
  "show_quantifier lo hi = (if hi \<noteq> None then QUESTION else if lo = 0 then STAR else PLUS)"

fun show_node :: "gnode \<Rightarrow> u8 list" where
  "show_node (Literal bs) = QUOTE # concat (map hex_escape bs) @ [QUOTE]"
| "show_node (CharClass ranges negated) =
     OPEN_BRACKET # (if negated then [CARET] else []) @ concat (map show_range ranges) @ [CLOSE_BRACKET]"
| "show_node (RuleRef name) = str_bytes name"
| "show_node (Sequence items) =
     OPEN_PAREN # concat (map (\<lambda>i. show_node i @ [SPACE]) items) @ [CLOSE_PAREN]"
| "show_node (Alternation alts) =
     OPEN_PAREN # butlast (concat (map (\<lambda>a. show_node a @ [SPACE, BAR]) alts)) @ [CLOSE_PAREN]"
| "show_node (Repeat node lo hi) = OPEN_PAREN # show_node node @ [show_quantifier lo hi, CLOSE_PAREN]"

section \<open>Reading escapes\<close>

lemma nibble_cases: "d < 16 \<Longrightarrow> d \<in> word_of_nat ` set [0..<16]" for d :: u8
proof -
  assume "d < 16"
  then have "unat d \<in> set [0..<16]" by (simp add: word_less_nat_alt)
  then have "word_of_nat (unat d) \<in> (word_of_nat :: nat \<Rightarrow> u8) ` set [0..<16]" by (rule imageI)
  then show ?thesis by simp
qed

lemma consume_hex_digit_hex_digit:
  assumes "d < 16"
  shows "consume_hex_digit (pos, hex_digit d # rest) = Inr (d, (Suc pos, rest))"
proof -
  have "\<forall>d \<in> (word_of_nat :: nat \<Rightarrow> u8) ` set [0..<16].
      consume_hex_digit (pos, hex_digit d # rest) = Inr (d, (Suc pos, rest))"
    by (simp add: upt_conv_Cons consume_hex_digit_def hex_digit_def)
  then show ?thesis using nibble_cases [OF assms] by (rule bspec)
qed

lemma nibbles: "push_bit 4 (drop_bit 4 b) OR take_bit 4 b = b" for b :: u8
  by (rule bit_word_eqI) (auto simp: bit_simps)

lemma nibble_bounds: "drop_bit 4 b < 16" "take_bit 4 b < 16" for b :: u8
proof -
  have "unat (drop_bit 4 b) = unat b div 16"
    by (simp add: drop_bit_eq_div unat_div)
  moreover have "unat b < 256" using unsigned_less [of b] by simp
  ultimately show "drop_bit 4 b < 16" by (simp add: word_less_nat_alt)
  have "unat (take_bit 4 b) = unat b mod 16" by (simp add: take_bit_eq_mod unat_mod)
  then show "take_bit 4 b < 16" by (simp add: word_less_nat_alt)
qed

lemma hex_pair_escape: "hex_pair (pos, hex_digit (drop_bit 4 b) # hex_digit (take_bit 4 b) # rest) = Inr (b, (pos + 2, rest))"
  using consume_hex_digit_hex_digit [OF nibble_bounds(1) [of b], of pos "hex_digit (take_bit 4 b) # rest"]
    consume_hex_digit_hex_digit [OF nibble_bounds(2) [of b], of "Suc pos" rest]
  by (simp add: hex_pair_def nibbles)

lemma string_loop_escapes:
  "string_loop acc (pos, concat (map hex_escape bs) @ QUOTE # rest) =
     Inr (acc @ bs, (pos + 4 * length bs + 1, rest))"
proof (induction bs arbitrary: acc pos)
  case Nil
  then show ?case by (simp add: string_loop.simps)
next
  case (Cons b bs)
  let ?more = "concat (map hex_escape bs) @ QUOTE # rest"
  have "parse_escape_sequence (Suc pos, 120 # hex_digit (drop_bit 4 b) # hex_digit (take_bit 4 b) # ?more) =
      Inr ([b], (pos + 4, ?more))"
    by (simp add: parse_escape_sequence_def hex_pair_escape)
  then show ?case
    using Cons [of "acc @ [b]" "pos + 4"]
    by (subst string_loop.simps) (simp add: hex_escape_def [of b])
qed

lemma class_loop_escapes:
  "class_loop acc (pos, concat (map show_range rs) @ CLOSE_BRACKET # rest) =
     Inr (acc @ rs, (pos + 9 * length rs + 1, rest))"
proof (induction rs arbitrary: acc pos)
  case Nil
  then show ?case by (simp add: class_loop.simps bump_def)
next
  case (Cons r rs)
  let ?more = "concat (map show_range rs) @ CLOSE_BRACKET # rest"
  have esc: "parse_class_escape (p, 120 # hex_digit (drop_bit 4 b) # hex_digit (take_bit 4 b) # bs) =
      Inr (b, (p + 3, bs))" for p b bs
    by (simp add: parse_class_escape_def hex_pair_escape)
  have tl: "range_tail (cr_lo r) (p, DASH # hex_escape (cr_hi r) @ ?more) = Inr (r, (p + 5, ?more))" for p
    by (simp add: range_tail_def peek2_def bump_def hex_escape_def parse_class_byte_def esc)
  have "class_loop acc (pos, hex_escape (cr_lo r) @ DASH # hex_escape (cr_hi r) @ ?more) =
      class_loop (acc @ [r]) (9 + pos, ?more)"
    by (subst class_loop.simps)
      (simp add: hex_escape_def [of "cr_lo r"] bump_def esc tl [unfolded append_Cons, simplified])
  then show ?case using Cons [of "acc @ [r]" "9 + pos"] by (simp add: show_range_def [of r])
qed

lemma length_hex_escapes [simp]:
  "length (concat (map hex_escape bs)) = 4 * length bs" "length (concat (map show_range rs)) = 9 * length rs"
  by (induction bs, simp_all add: hex_escape_def) (induction rs, simp_all add: hex_escape_def show_range_def)

section \<open>Reading nodes back\<close>

text \<open>\<open>reads m r\<close>: with enough fuel, \<open>m\<close> gives \<open>r\<close>.\<close>

definition reads :: "(nat \<Rightarrow> 'a fuelled) \<Rightarrow> 'a \<Rightarrow> gbnf \<Rightarrow> bool" where
  "reads m a st \<longleftrightarrow> (\<exists>k. \<forall>n \<ge> k. m n = Some (Inr (a, st)))"

lemma reads_Suc: "reads m a st \<Longrightarrow> (\<And>n. m' (Suc n) = m n) \<Longrightarrow> reads m' a st"
  unfolding reads_def by (metis Suc_le_D Suc_le_mono)

lemma reads_now: "(\<And>n. m (Suc n) = Some (Inr (a, st))) \<Longrightarrow> reads m a st"
  unfolding reads_def by (metis Suc_le_D)

lemma reads_const [simp]: "reads (\<lambda>n. Some (Inr (a, st))) b st' \<longleftrightarrow> a = b \<and> st = st'"
  by (auto simp: reads_def)

lemma reads_fbind:
  assumes "reads m a st" and "reads (\<lambda>n. f n a st) b st'"
  shows "reads (\<lambda>n. fbind (m n) (f n)) b st'"
proof -
  obtain k l where "\<forall>n \<ge> k. m n = Some (Inr (a, st))" "\<forall>n \<ge> l. f n a st = Some (Inr (b, st'))"
    using assms by (auto simp: reads_def)
  then have "\<forall>n \<ge> max k l. fbind (m n) (f n) = Some (Inr (b, st'))" by simp
  then show ?thesis unfolding reads_def by blast
qed

text \<open>What may follow a printed node, and how one starts.\<close>

definition follows :: "u8 list \<Rightarrow> bool" where
  "follows rest \<longleftrightarrow> rest \<noteq> [] \<and> hd rest \<in> {SPACE, CLOSE_PAREN, STAR, PLUS, QUESTION, LF}"

definition starts :: "u8 \<Rightarrow> bool" where
  "starts b \<longleftrightarrow> b \<in> {QUOTE, OPEN_BRACKET, OPEN_PAREN} \<or> is_ident_start b"

lemma show_node_starts: "gbnf_node nd \<Longrightarrow> \<exists>b bs. show_node nd = b # bs \<and> starts b"
  by (cases nd) (auto simp: starts_def ident_ok_def split: list.splits)

lemma starts_no_ws: "starts b \<Longrightarrow> b \<noteq> SPACE \<and> b \<noteq> TAB"
  by (auto simp: starts_def is_ident_start_def is_ascii_alphabetic_def)

lemma starts_no_end: "starts b \<Longrightarrow> \<not> ends_sequence (Some b)"
  by (auto simp: starts_def ends_sequence_def is_ident_start_def is_ascii_alphabetic_def)

lemma skip_none [simp]: "b \<noteq> SPACE \<Longrightarrow> b \<noteq> TAB \<Longrightarrow> skip_inline_ws (pos, b # bs) = (pos, b # bs)"
  by (simp add: skip_inline_ws_def skip_while_def)

lemma skip_space [simp]: "skip_inline_ws (pos, SPACE # bs) = skip_inline_ws (Suc pos, bs)"
  by (simp add: skip_inline_ws_def skip_while_def)

lemma parse_ident_reads:
  assumes "ident_ok name" and c: "\<not> is_ident_cont c"
  shows "parse_ident (pos, str_bytes name @ c # rest) = Inr (name, (pos + length name, c # rest))"
proof -
  obtain b bs where n: "str_bytes name = b # bs" "is_ident_start b" "list_all is_ident_cont bs"
    using assms(1) by (auto simp: ident_ok_def split: list.splits)
  have tk: "takeWhile is_ident_cont (bs @ c # rest) = bs" "dropWhile is_ident_cont (bs @ c # rest) = c # rest"
    using n(3) c by (induction bs) simp_all
  have len: "length name = Suc (length bs)" using n(1) length_str_bytes [of name] by simp
  have "map char_of_byte (b # bs) = name" unfolding n(1) [symmetric] by simp
  then show ?thesis
    unfolding n(1) using n(2) tk len by (simp add: parse_ident_def skip_while_def bump_def)
qed

lemma follows_ident: "follows (c # rest) \<Longrightarrow> \<not> is_ident_cont c"
  by (auto simp: follows_def is_ident_cont_def is_ascii_alphabetic_def is_ascii_digit_def)

text \<open>The statement proved of every node, and the two list forms built on it.\<close>

definition atom_reads :: "gnode \<Rightarrow> bool" where
  "atom_reads nd \<longleftrightarrow> (\<forall>pos rest. follows rest \<longrightarrow>
     reads (\<lambda>n. parse_atom n (pos, show_node nd @ rest)) nd (pos + length (show_node nd), rest))"

lemma quantifier_none: "follows rest \<Longrightarrow> hd rest \<in> {SPACE, CLOSE_PAREN, LF} \<Longrightarrow>
   parse_quantifier base (pos, rest) = (base, (pos, rest))"
  by (cases rest) (auto simp: parse_quantifier_def)

lemma sequence_space: "parse_sequence n items (pos, SPACE # bs) = parse_sequence n items (Suc pos, bs)"
  by (cases n) simp_all

text \<open>One more item, up to a byte that is no quantifier.\<close>

lemma sequence_item:
  assumes nd: "gbnf_node nd" "atom_reads nd"
    and rest: "follows rest" "hd rest \<in> {SPACE, CLOSE_PAREN, LF}"
    and more: "reads (\<lambda>n. parse_sequence n (items @ [nd]) (pos + length (show_node nd), rest)) r st"
  shows "reads (\<lambda>n. parse_sequence n items (pos, show_node nd @ rest)) r st"
proof (rule reads_Suc)
  let ?st = "(pos, show_node nd @ rest)"
  obtain b bs where b: "show_node nd = b # bs" "starts b" using show_node_starts [OF nd(1)] by blast
  show "parse_sequence (Suc n) items ?st = fbind (parse_atom n ?st) (\<lambda>base st.
      let (item, st) = parse_quantifier base st in parse_sequence n (items @ [item]) st)" for n
    using starts_no_ws [OF b(2)] starts_no_end [OF b(2)] by (simp add: b(1) Let_def)
  show "reads (\<lambda>n. fbind (parse_atom n ?st) (\<lambda>base st.
      let (item, st) = parse_quantifier base st in parse_sequence n (items @ [item]) st)) r st"
    using nd(2) rest more
    by (intro reads_fbind [where a = nd]) (auto simp: atom_reads_def quantifier_none)
qed

lemma sequence_end:
  "ends_sequence (Some c) \<Longrightarrow> c \<noteq> SPACE \<Longrightarrow> c \<noteq> TAB \<Longrightarrow>
   reads (\<lambda>n. parse_sequence n items (pos, c # rest)) (sequence_node items) (pos, c # rest)"
  by (rule reads_now) simp_all

lemma sequence_items:
  assumes "list_all gbnf_node nds" and "\<forall>nd \<in> set nds. atom_reads nd"
  shows "reads (\<lambda>n. parse_sequence n items (pos, concat (map (\<lambda>i. show_node i @ [SPACE]) nds) @ CLOSE_PAREN # rest))
     (sequence_node (items @ nds))
     (pos + length (concat (map (\<lambda>i. show_node i @ [SPACE]) nds)), CLOSE_PAREN # rest)"
  using assms
proof (induction nds arbitrary: items pos)
  case Nil
  then show ?case using sequence_end [of CLOSE_PAREN items pos rest] by (simp add: ends_sequence_def)
next
  case (Cons nd nds)
  let ?more = "concat (map (\<lambda>i. show_node i @ [SPACE]) nds) @ CLOSE_PAREN # rest"
  have "reads (\<lambda>n. parse_sequence n (items @ [nd]) (pos + length (show_node nd), SPACE # ?more))
      (sequence_node (items @ nd # nds))
      (pos + length (concat (map (\<lambda>i. show_node i @ [SPACE]) (nd # nds))), CLOSE_PAREN # rest)"
    using Cons.IH [of "items @ [nd]" "Suc (pos + length (show_node nd))"] Cons.prems
    by (simp add: sequence_space add.assoc)
  then show ?case
    using Cons.prems sequence_item [of nd "SPACE # ?more" items pos]
    by (simp add: follows_def)
qed

lemma single_item:
  assumes "gbnf_node nd" and "atom_reads nd" and "c \<in> {BAR, CLOSE_PAREN}"
  shows "reads (\<lambda>n. parse_sequence n [] (pos, show_node nd @ SPACE # c # rest)) nd
    (Suc (pos + length (show_node nd)), c # rest)"
  using assms sequence_end [of c "[nd]" "Suc (pos + length (show_node nd))" rest]
  by (intro sequence_item)
    (auto simp: follows_def sequence_space ends_sequence_def sequence_node_def)

lemma alternation_single:
  assumes "reads (\<lambda>n. parse_sequence n [] st) nd (pos, c # rest)" and "c \<notin> {SPACE, TAB, BAR}"
  shows "reads (\<lambda>n. parse_alternation n st) nd (pos, c # rest)"
proof (rule reads_Suc)
  show "reads (\<lambda>n. fbind (parse_sequence n [] st) (\<lambda>first st.
       let st = skip_inline_ws st
       in if peek st \<noteq> Some BAR then Some (Inr (first, st)) else parse_alternatives n [first] st))
     nd (pos, c # rest)"
    by (rule reads_fbind [OF assms(1)]) (use assms(2) in \<open>simp add: Let_def\<close>)
qed (rule parse_alternation.simps)

lemma alternatives_end:
  "reads (\<lambda>n. parse_alternatives n alts (pos, CLOSE_PAREN # rest)) (Alternation alts) (pos, CLOSE_PAREN # rest)"
  by (rule reads_now) simp_all

lemma alternatives_read:
  assumes "list_all gbnf_node nds" and "\<forall>nd \<in> set nds. atom_reads nd"
  shows "reads (\<lambda>n. parse_alternatives n alts
      (pos, concat (map (\<lambda>a. BAR # show_node a @ [SPACE]) nds) @ CLOSE_PAREN # rest))
    (Alternation (alts @ nds))
    (pos + length (concat (map (\<lambda>a. BAR # show_node a @ [SPACE]) nds)), CLOSE_PAREN # rest)"
  using assms
proof (induction nds arbitrary: alts pos)
  case Nil
  then show ?case using alternatives_end [of alts pos rest] by simp
next
  case (Cons nd nds)
  let ?more = "concat (map (\<lambda>a. BAR # show_node a @ [SPACE]) nds) @ CLOSE_PAREN # rest"
  obtain c cs where more: "?more = c # cs" "c \<in> {BAR, CLOSE_PAREN}" by (cases nds) auto
  let ?st = "(pos, BAR # show_node nd @ SPACE # ?more)"
  let ?p = "Suc (Suc pos + length (show_node nd))"
  obtain b bs where b: "show_node nd = b # bs" "starts b"
    using show_node_starts [of nd] Cons.prems(1) by auto
  have skip: "skip_inline_ws (Suc pos, show_node nd @ SPACE # ?more) = (Suc pos, show_node nd @ SPACE # ?more)"
    using starts_no_ws [OF b(2)] by (simp add: b(1))
  have one: "reads (\<lambda>n. parse_sequence n [] (Suc pos, show_node nd @ SPACE # ?more)) nd (?p, ?more)"
    unfolding more(1) using Cons.prems more(2) by (intro single_item) auto
  have skip2: "skip_inline_ws (?p, ?more) = (?p, ?more)" unfolding more(1) using more(2) by auto
  have rest: "reads (\<lambda>n. parse_alternatives n (alts @ [nd]) (?p, ?more)) (Alternation (alts @ nd # nds))
      (pos + length (concat (map (\<lambda>a. BAR # show_node a @ [SPACE]) (nd # nds))), CLOSE_PAREN # rest)"
    using Cons.IH [of "alts @ [nd]" ?p] Cons.prems by (simp add: add.assoc)
  have "reads (\<lambda>n. parse_alternatives n alts ?st) (Alternation (alts @ nd # nds))
      (pos + length (concat (map (\<lambda>a. BAR # show_node a @ [SPACE]) (nd # nds))), CLOSE_PAREN # rest)"
  proof (rule reads_Suc)
    show "parse_alternatives (Suc n) alts ?st =
        fbind (parse_sequence n [] (Suc pos, show_node nd @ SPACE # ?more)) (\<lambda>a st.
          parse_alternatives n (alts @ [a]) (skip_inline_ws st))" for n
      by (simp add: bump_def skip)
    show "reads (\<lambda>n. fbind (parse_sequence n [] (Suc pos, show_node nd @ SPACE # ?more)) (\<lambda>a st.
          parse_alternatives n (alts @ [a]) (skip_inline_ws st))) (Alternation (alts @ nd # nds))
      (pos + length (concat (map (\<lambda>a. BAR # show_node a @ [SPACE]) (nd # nds))), CLOSE_PAREN # rest)"
      by (rule reads_fbind [OF one]) (simp only: skip2 rest)
  qed
  then show ?case by simp
qed

lemma alternation_text:
  "butlast (concat (map (\<lambda>a. show_node a @ [SPACE, BAR]) (nd # nds))) =
   show_node nd @ SPACE # concat (map (\<lambda>a. BAR # show_node a @ [SPACE]) nds)"
  by (induction nds arbitrary: nd) (simp_all add: butlast_append)

lemma paren_reads:
  assumes "reads (\<lambda>n. parse_alternation n (Suc pos, b # body @ CLOSE_PAREN # rest)) nd
      (Suc (Suc (pos + length body)), CLOSE_PAREN # rest)" and "starts b"
  shows "reads (\<lambda>n. parse_atom n (pos, OPEN_PAREN # b # body @ CLOSE_PAREN # rest)) nd
      (pos + length body + 3, rest)"
proof (rule reads_Suc)
  let ?in = "(Suc pos, b # body @ CLOSE_PAREN # rest)"
  have skip: "skip_inline_ws ?in = ?in" using starts_no_ws [OF assms(2)] by simp
  show "parse_atom (Suc n) (pos, OPEN_PAREN # b # body @ CLOSE_PAREN # rest) =
      fbind (parse_alternation n ?in) (\<lambda>inner st.
        let st = skip_inline_ws st
        in Some (and_then (expect CLOSE_PAREN st) (\<lambda>(u, st). Inr (inner, st))))" for n
    using skip by (simp add: bump_def)
  show "reads (\<lambda>n. fbind (parse_alternation n ?in) (\<lambda>inner st.
        let st = skip_inline_ws st
        in Some (and_then (expect CLOSE_PAREN st) (\<lambda>(u, st). Inr (inner, st)))))
      nd (pos + length body + 3, rest)"
    by (rule reads_fbind [OF assms(1)]) (simp add: expect_def)
qed

lemma printed_literal: "atom_reads (Literal bs)"
  unfolding atom_reads_def
proof (intro allI impI)
  fix pos :: nat and rest :: "u8 list"
  have "parse_string_literal (pos, show_node (Literal bs) @ rest) =
      Inr (Literal bs, (pos + length (show_node (Literal bs)), rest))"
    using string_loop_escapes [of "[]" "Suc pos" bs rest]
    by (simp add: parse_string_literal_def expect_def)
  then show "reads (\<lambda>n. parse_atom n (pos, show_node (Literal bs) @ rest)) (Literal bs)
      (pos + length (show_node (Literal bs)), rest)"
    by (intro reads_now) simp_all
qed

lemma printed_class: "atom_reads (CharClass ranges negated)"
  unfolding atom_reads_def
proof (intro allI impI)
  fix pos :: nat and rest :: "u8 list"
  let ?nd = "CharClass ranges negated"
  have "peek (p, concat (map show_range ranges) @ CLOSE_BRACKET # rest) \<noteq> Some CARET" for p
    by (cases ranges) (simp_all add: show_range_def hex_escape_def)
  then have "parse_char_class (pos, show_node ?nd @ rest) =
      Inr (?nd, (pos + length (show_node ?nd), rest))"
    using class_loop_escapes [of "[]" "Suc pos" ranges rest] class_loop_escapes [of "[]" "Suc (Suc pos)" ranges rest]
    by (simp add: parse_char_class_def expect_def bump_def)
  then show "reads (\<lambda>n. parse_atom n (pos, show_node ?nd @ rest)) ?nd
      (pos + length (show_node ?nd), rest)"
    by (intro reads_now) simp_all
qed

lemma printed_rule:
  assumes "ident_ok name"
  shows "atom_reads (RuleRef name)"
  unfolding atom_reads_def
proof (intro allI impI)
  fix pos :: nat and rest :: "u8 list"
  assume f: "follows rest"
  then obtain c cs where r: "rest = c # cs" by (cases rest) (auto simp: follows_def)
  obtain b bs where n: "str_bytes name = b # bs" "is_ident_start b"
    using assms by (auto simp: ident_ok_def split: list.splits)
  have b: "b \<noteq> QUOTE" "b \<noteq> OPEN_BRACKET" "b \<noteq> OPEN_PAREN"
    using n(2) by (auto simp: is_ident_start_def is_ascii_alphabetic_def)
  have "parse_ident (pos, str_bytes name @ rest) = Inr (name, (pos + length name, rest))"
    unfolding r by (rule parse_ident_reads [OF assms follows_ident [OF f [unfolded r]]])
  then show "reads (\<lambda>n. parse_atom n (pos, show_node (RuleRef name) @ rest)) (RuleRef name)
      (pos + length (show_node (RuleRef name)), rest)"
    using n b length_str_bytes [of name] by (intro reads_now) simp_all
qed

lemma printed_sequence:
  assumes "2 \<le> length items" and "list_all gbnf_node items" and "\<forall>nd \<in> set items. atom_reads nd"
  shows "atom_reads (Sequence items)"
  unfolding atom_reads_def
proof (intro allI impI)
  fix pos :: nat and rest :: "u8 list"
  let ?body = "concat (map (\<lambda>i. show_node i @ [SPACE]) items)"
  obtain i xs where items: "items = i # xs" using assms(1) by (cases items) auto
  then obtain b bs where b: "?body = b # bs" "starts b"
    using show_node_starts [of i] assms(2) by auto
  have node: "sequence_node items = Sequence items"
    using assms(1) by (auto simp: sequence_node_def split: list.split)
  have "reads (\<lambda>n. parse_sequence n [] (Suc pos, ?body @ CLOSE_PAREN # rest)) (Sequence items)
      (Suc pos + length ?body, CLOSE_PAREN # rest)"
    using sequence_items [OF assms(2,3), of "[]" "Suc pos" rest] by (simp add: node)
  from alternation_single [OF this]
  have "reads (\<lambda>n. parse_alternation n (Suc pos, b # bs @ CLOSE_PAREN # rest)) (Sequence items)
      (Suc (Suc (pos + length bs)), CLOSE_PAREN # rest)"
    by (simp add: b(1))
  from paren_reads [OF this b(2)]
  show "reads (\<lambda>n. parse_atom n (pos, show_node (Sequence items) @ rest)) (Sequence items)
      (pos + length (show_node (Sequence items)), rest)"
    by (simp add: b(1) numeral_3_eq_3)
qed

lemma printed_alternation:
  assumes "2 \<le> length alts" and "list_all gbnf_node alts" and "\<forall>nd \<in> set alts. atom_reads nd"
  shows "atom_reads (Alternation alts)"
  unfolding atom_reads_def
proof (intro allI impI)
  fix pos :: nat and rest :: "u8 list"
  obtain a a2 as where alts: "alts = a # a2 # as"
    using assms(1) by (cases alts; cases "tl alts") auto
  let ?tail = "concat (map (\<lambda>a. BAR # show_node a @ [SPACE]) (a2 # as))"
  let ?body = "show_node a @ SPACE # ?tail"
  have body: "butlast (concat (map (\<lambda>a. show_node a @ [SPACE, BAR]) alts)) = ?body"
    unfolding alts by (rule alternation_text)
  obtain b bs where b: "show_node a = b # bs" "starts b"
    using show_node_starts [of a] assms(2) alts by auto
  let ?st = "(Suc pos, ?body @ CLOSE_PAREN # rest)"
  let ?p = "Suc (Suc pos + length (show_node a))"
  have one: "reads (\<lambda>n. parse_sequence n [] ?st) a (?p, ?tail @ CLOSE_PAREN # rest)"
    using single_item [of a BAR "Suc pos"] assms alts by simp
  have "reads (\<lambda>n. parse_alternatives n [a] (?p, ?tail @ CLOSE_PAREN # rest)) (Alternation alts)
      (?p + length ?tail, CLOSE_PAREN # rest)"
    using alternatives_read [of "a2 # as" "[a]" ?p rest] assms alts by simp
  then have "reads (\<lambda>n. fbind (parse_sequence n [] ?st) (\<lambda>first st.
       let st = skip_inline_ws st
       in if peek st \<noteq> Some BAR then Some (Inr (first, st)) else parse_alternatives n [first] st))
     (Alternation alts) (?p + length ?tail, CLOSE_PAREN # rest)"
    by (intro reads_fbind [OF one]) (simp add: Let_def)
  then have "reads (\<lambda>n. parse_alternation n ?st) (Alternation alts) (?p + length ?tail, CLOSE_PAREN # rest)"
    by (rule reads_Suc) (rule parse_alternation.simps)
  then have "reads (\<lambda>n. parse_alternation n (Suc pos, b # (bs @ SPACE # ?tail) @ CLOSE_PAREN # rest))
      (Alternation alts) (Suc (Suc (pos + length (bs @ SPACE # ?tail))), CLOSE_PAREN # rest)"
    by (simp add: b(1) add.assoc)
  from paren_reads [OF this b(2)]
  show "reads (\<lambda>n. parse_atom n (pos, show_node (Alternation alts) @ rest)) (Alternation alts)
      (pos + length (show_node (Alternation alts)), rest)"
    unfolding show_node.simps body by (simp add: b(1) numeral_3_eq_3)
qed

lemma printed_repeat:
  assumes "quantifier_ok lo hi" and "gbnf_node nd" and "atom_reads nd"
  shows "atom_reads (Repeat nd lo hi)"
  unfolding atom_reads_def
proof (intro allI impI)
  fix pos :: nat and rest :: "u8 list"
  let ?q = "show_quantifier lo hi"
  obtain b bs where b: "show_node nd = b # bs" "starts b" using show_node_starts [OF assms(2)] by blast
  let ?st = "(Suc pos, show_node nd @ ?q # CLOSE_PAREN # rest)"
  let ?p = "Suc pos + length (show_node nd)"
  have f: "follows (?q # CLOSE_PAREN # rest)" by (simp add: follows_def show_quantifier_def)
  have q: "parse_quantifier nd (?p, ?q # CLOSE_PAREN # rest) = (Repeat nd lo hi, (Suc ?p, CLOSE_PAREN # rest))"
    using assms(1) by (auto simp: parse_quantifier_def quantifier_ok_def show_quantifier_def bump_def)
  have atom: "reads (\<lambda>n. parse_atom n ?st) nd (?p, ?q # CLOSE_PAREN # rest)"
    using assms(3) [unfolded atom_reads_def, rule_format, OF f] .
  have "reads (\<lambda>n. parse_sequence n ([] @ [Repeat nd lo hi]) (Suc ?p, CLOSE_PAREN # rest)) (Repeat nd lo hi)
      (Suc ?p, CLOSE_PAREN # rest)"
    using sequence_end [of CLOSE_PAREN "[Repeat nd lo hi]" "Suc ?p" rest]
    by (simp add: ends_sequence_def sequence_node_def)
  then have "reads (\<lambda>n. fbind (parse_atom n ?st) (\<lambda>base st.
      let (item, st) = parse_quantifier base st in parse_sequence n ([] @ [item]) st)) (Repeat nd lo hi)
      (Suc ?p, CLOSE_PAREN # rest)"
    by (intro reads_fbind [OF atom]) (simp only: q Let_def prod.case)
  then have "reads (\<lambda>n. parse_sequence n [] ?st) (Repeat nd lo hi) (Suc ?p, CLOSE_PAREN # rest)"
    by (rule reads_Suc) (use starts_no_ws [OF b(2)] starts_no_end [OF b(2)] in \<open>simp add: b(1) Let_def\<close>)
  from alternation_single [OF this]
  have "reads (\<lambda>n. parse_alternation n (Suc pos, b # (bs @ [?q]) @ CLOSE_PAREN # rest)) (Repeat nd lo hi)
      (Suc (Suc (pos + length (bs @ [?q]))), CLOSE_PAREN # rest)"
    by (simp add: b(1))
  from paren_reads [OF this b(2)]
  show "reads (\<lambda>n. parse_atom n (pos, show_node (Repeat nd lo hi) @ rest)) (Repeat nd lo hi)
      (pos + length (show_node (Repeat nd lo hi)), rest)"
    by (simp add: b(1) numeral_3_eq_3)
qed

lemma printed_atom: "gbnf_node nd \<Longrightarrow> atom_reads nd"
proof (induction nd rule: gbnf_node.induct)
  case (4 items)
  then show ?case by (intro printed_sequence) (auto simp: list_all_iff)
next
  case (5 alts)
  then show ?case by (intro printed_alternation) (auto simp: list_all_iff)
qed (simp_all add: printed_literal printed_class printed_rule printed_repeat)

section \<open>Grammars\<close>

definition show_rule :: "string \<times> gnode \<Rightarrow> u8 list" where
  "show_rule r = str_bytes (fst r) @ DEFINES @ show_node (snd r) @ [LF]"

definition show_rules :: "rules \<Rightarrow> u8 list" where
  "show_rules rules = concat (map show_rule rules)"

definition gbnf_rules :: "rules \<Rightarrow> bool" where
  "gbnf_rules rules \<longleftrightarrow> distinct (map fst rules) \<and>
     list_all (\<lambda>(name, node). ident_ok name \<and> gbnf_node node) rules"

lemma rule_body_reads:
  assumes "gbnf_node nd" and "3 * (length (show_node nd) + Suc (length rest)) + 3 \<le> n"
  shows "parse_alternation n (pos, show_node nd @ LF # rest) =
    Some (Inr (nd, (pos + length (show_node nd), LF # rest)))"
proof -
  let ?st = "(pos, show_node nd @ LF # rest)"
  have "reads (\<lambda>n. parse_sequence n [] ?st) nd (pos + length (show_node nd), LF # rest)"
    using assms(1) printed_atom sequence_end [of LF "[nd]" "pos + length (show_node nd)" rest]
    by (intro sequence_item) (simp_all add: follows_def ends_sequence_def sequence_node_def)
  from alternation_single [OF this] obtain k where
    k: "parse_alternation k ?st = Some (Inr (nd, (pos + length (show_node nd), LF # rest)))"
    by (auto simp: reads_def)
  have "returns (parse_alternation n ?st) (\<lambda>a st'. left st' \<le> left ?st)"
    using assms(2) by (intro descent_returns(1)) simp
  then obtain r where r: "parse_alternation n ?st = Some r" using returns_not_None by blast
  show ?thesis
    using alternation_mono [OF r, of "max n k"] alternation_mono [OF k, of "max n k"] r by simp
qed

lemma ident_start_cont: "is_ident_start b \<Longrightarrow> b \<notin> {SPACE, TAB, CR, LF, HASH}"
  by (auto simp: is_ident_start_def is_ascii_alphabetic_def)

lemma skip_to_rules:
  assumes "list_all (\<lambda>(name, node). ident_ok name \<and> gbnf_node node) rules"
  shows "skip_ws_and_comments (pos, show_rules rules) = (pos, show_rules rules)"
proof (cases rules)
  case Nil
  then show ?thesis by (simp add: show_rules_def skip_ws_and_comments.simps)
next
  case (Cons r rs)
  then obtain b bs where "str_bytes (fst r) = b # bs" "is_ident_start b"
    using assms by (auto simp: ident_ok_def split: list.splits prod.splits)
  then show ?thesis
    using ident_start_cont [of b] Cons
    by (simp add: show_rules_def show_rule_def skip_ws_and_comments.simps)
qed

lemma parse_rules_show:
  assumes "gbnf_rules (acc @ rules)" and "length (show_rules rules) < n"
  shows "\<exists>st. parse_rules n acc first_rule (pos, show_rules rules) =
    Some (Inr ((acc @ rules, if first_rule = None \<and> rules \<noteq> [] then Some (fst (hd rules)) else first_rule), st))"
  using assms
proof (induction rules arbitrary: n acc first_rule pos)
  case Nil
  then show ?case by (cases n) (simp_all add: show_rules_def)
next
  case (Cons r rules)
  obtain name nd where r: "r = (name, nd)" by fastforce
  obtain m where n: "n = Suc m" using Cons.prems(2) by (cases n) simp_all
  have ok: "ident_ok name" "gbnf_node nd" "name \<notin> fst ` set acc" "list_all (\<lambda>(name, node). ident_ok name \<and> gbnf_node node) rules"
    "gbnf_rules ((acc @ [r]) @ rules)"
    using Cons.prems(1) by (auto simp: gbnf_rules_def r)
  let ?rest = "show_rules rules" and ?p = "pos + length name + 3"
  have shown: "show_rules (r # rules) = str_bytes name @ 58 # 58 # 61 # show_node nd @ LF # ?rest"
    by (simp add: show_rules_def show_rule_def r DEFINES_def)
  have id1: "parse_ident (pos, str_bytes name @ 58 # 58 # 61 # show_node nd @ LF # ?rest) =
      Inr (name, (pos + length name, 58 # 58 # 61 # show_node nd @ LF # ?rest))"
    by (rule parse_ident_reads [OF ok(1)]) (simp add: is_ident_cont_def is_ascii_alphabetic_def is_ascii_digit_def)
  obtain b bs where b: "show_node nd = b # bs" "starts b" using show_node_starts [OF ok(2)] by blast
  have body: "parse_alternation (rule_fuel (?p, show_node nd @ LF # ?rest)) (?p, show_node nd @ LF # ?rest) =
      Some (Inr (nd, (?p + length (show_node nd), LF # ?rest)))"
    by (rule rule_body_reads [OF ok(2)]) (simp add: rule_fuel_def)
  have skip1: "skip_inline_ws (?p, show_node nd @ LF # ?rest) = (?p, show_node nd @ LF # ?rest)"
    using starts_no_ws [OF b(2)] by (simp add: b(1))
  have skip2: "skip_ws_and_comments (q, LF # ?rest) = (Suc q, ?rest)" for q
    using skip_to_rules [OF ok(4), of "Suc q"] by (subst skip_ws_and_comments.simps) (simp add: bump_def)
  have upd: "AList.update name nd acc = acc @ [r]" using ok(3) by (simp add: r AList_update_new)
  have step: "parse_rules n acc first_rule (pos, show_rules (r # rules)) =
      parse_rules m (acc @ [r]) (if first_rule = None then Some name else first_rule)
        (Suc (?p + length (show_node nd)), ?rest)"
    unfolding shown n using body skip1 id1
    by (simp add: DEFINES_def bump_def skip2 upd numeral_3_eq_3 del: parse_alternation.simps)
  have "length ?rest < m" using Cons.prems(2) unfolding shown n by simp
  from Cons.IH [OF ok(5) this, of "if first_rule = None then Some name else first_rule"
      "Suc (?p + length (show_node nd))"]
  show ?case unfolding step by (auto simp: r split: if_splits)
qed

lemma gbnf_parse_show:
  assumes "gbnf_rules rules" and "rules \<noteq> []"
  shows "gbnf_parse (show_rules rules) = Some (Inr
    \<lparr>gr_rules = rules, gr_root = if ''root'' \<in> fst ` set rules then ''root'' else fst (hd rules),
     gr_source = show_rules rules\<rparr>)"
proof -
  have ok: "list_all (\<lambda>(name, node). ident_ok name \<and> gbnf_node node) rules"
    using assms(1) by (simp add: gbnf_rules_def)
  obtain st where st: "parse_rules (Suc (length (show_rules rules))) [] None (0, show_rules rules) =
      Some (Inr ((rules, Some (fst (hd rules))), st))"
    using parse_rules_show [of "[]" rules "Suc (length (show_rules rules))" None 0] assms by auto
  have "map_of rules ''root'' \<noteq> None \<longleftrightarrow> ''root'' \<in> fst ` set rules"
    by (simp add: map_of_eq_None_iff)
  then show ?thesis
    by (simp add: gbnf_parse_def parse_grammar_def skip_to_rules [OF ok] st assms(2) del: parse_rules.simps)
qed

text \<open>What every accepted grammar looks like.\<close>

definition first_rule_of :: "rules \<Rightarrow> string option" where
  "first_rule_of rules = (case rules of [] \<Rightarrow> None | r # rs \<Rightarrow> Some (fst r))"

lemma set_AList_update: "x \<in> set (AList.update k v al) \<Longrightarrow> x = (k, v) \<or> x \<in> set al"
  by (induction al) (auto split: if_splits)

lemma gbnf_rules_update:
  "gbnf_rules rules \<Longrightarrow> ident_ok name \<Longrightarrow> gbnf_node nd \<Longrightarrow> gbnf_rules (AList.update name nd rules)"
  by (auto simp: gbnf_rules_def distinct_update list_all_iff dest!: set_AList_update)

lemma first_rule_update:
  "first_rule_of (AList.update name nd rules) =
     (if first_rule_of rules = None then Some name else first_rule_of rules)"
  by (cases rules) (auto simp: first_rule_of_def)

lemma parse_rules_ok:
  "gbnf_rules rules \<Longrightarrow>
   yields (parse_rules n rules (first_rule_of rules) st) (\<lambda>(rs, f). gbnf_rules rs \<and> f = first_rule_of rs)"
proof (induction n arbitrary: rules st)
  case (Suc n)
  show ?case
  proof (cases "snd st = []")
    case False
    have id1: "yields (Some (parse_ident st)) ident_ok"
      by (auto simp: yields_def dest: parse_ident_ok)
    show ?thesis
      unfolding parse_rules.simps if_not_P [OF False]
    proof (rule yields_fbind [OF id1])
      fix name st1
      assume name: "ident_ok name"
      let ?st2 = "skip_inline_ws st1"
      let ?st3 = "skip_inline_ws (bump (bump (bump ?st2)))"
      have "yields (fbind (parse_alternation (rule_fuel ?st3) ?st3) (\<lambda>node st.
          parse_rules n (AList.update name node rules)
            (if first_rule_of rules = None then Some name else first_rule_of rules) (skip_ws_and_comments st)))
          (\<lambda>(rs, f). gbnf_rules rs \<and> f = first_rule_of rs)"
      proof (rule yields_fbind [OF descent_nodes(1)])
        fix node st4
        assume "gbnf_node node"
        from Suc.IH [OF gbnf_rules_update [OF Suc.prems name this]]
        show "yields (parse_rules n (AList.update name node rules)
            (if first_rule_of rules = None then Some name else first_rule_of rules) (skip_ws_and_comments st4))
            (\<lambda>(rs, f). gbnf_rules rs \<and> f = first_rule_of rs)"
          unfolding first_rule_update .
      qed
      then show "yields (let st = ?st2
          in if take 3 (snd st) \<noteq> DEFINES then Some (Inl (parse_error ExpectedDefines st))
             else let st = skip_inline_ws (bump (bump (bump st)))
                  in fbind (parse_alternation (rule_fuel st) st) (\<lambda>node st.
                       parse_rules n (AList.update name node rules)
                         (if first_rule_of rules = None then Some name else first_rule_of rules)
                         (skip_ws_and_comments st)))
          (\<lambda>(rs, f). gbnf_rules rs \<and> f = first_rule_of rs)"
        by (simp add: Let_def)
    qed
  qed (use Suc.prems in simp)
qed simp

lemma gbnf_parse_ok:
  assumes "gbnf_parse input = Some (Inr g)"
  shows "gbnf_rules (gr_rules g) \<and> gr_rules g \<noteq> [] \<and> gr_source g = input \<and>
    gr_root g = (if ''root'' \<in> fst ` set (gr_rules g) then ''root'' else fst (hd (gr_rules g)))"
proof -
  let ?st = "skip_ws_and_comments (0, input)"
  obtain g0 st0 where g: "parse_grammar (0, input) = Some (Inr (g0, st0))" "g = g0\<lparr>gr_source := input\<rparr>"
    using assms by (auto simp: gbnf_parse_def split: option.splits sum.splits)
  obtain rules f st1 where r: "parse_rules (Suc (length (snd ?st))) [] None ?st = Some (Inr ((rules, f), st1))"
    using g(1) by (auto simp: parse_grammar_def Let_def fbind_def simp del: parse_rules.simps
        split: option.splits sum.splits)
  have "gbnf_rules rules" "f = first_rule_of rules"
    using parse_rules_ok [of "[]" "Suc (length (snd ?st))" ?st] r
    by (auto simp: gbnf_rules_def first_rule_of_def yields_def simp del: parse_rules.simps)
  then show ?thesis
    using g r by (auto simp: parse_grammar_def Let_def first_rule_of_def map_of_eq_None_iff
        simp del: parse_rules.simps split: if_splits list.splits)
qed

end
