(* ===== verification/Grammar_Properties.thy ===== *)
theory Grammar_Properties
  imports Grammar_Safety Grammar_Roundtrip
begin

text \<open>The properties of the grammar machine and of the GBNF parser.\<close>

section \<open>What constrained sampling produces\<close>

text \<open>C4: Constrained output is a word of the grammar: if tokens are committed one after the other from
  the initial state, in any cut, and the state then reports that it is complete, the bytes of the
  tokens together are matched by the root rule.\<close>

theorem constrained_output_is_word:
  assumes "commit_all tokens (grammar_state_new g) = Inr s" and "is_complete s"
  shows "matches (gr_rules g) (RuleRef (gr_root g)) (concat tokens)"
proof -
  have "word_of_nodes (gr_rules (gs_grammar s)) (gs_continuation s) []"
    using assms(2) unfolding is_complete_def by (rule can_match_empty_continuation_sound)
  from commit_all_sound [OF assms(1) this]
  have "word_of_nodes (gr_rules g) [RuleRef (gr_root g)] (concat tokens)"
    by (simp add: grammar_state_new_def)
  then show ?thesis by (auto simp: word_Cons word_Nil)
qed

text \<open>\<open>root ::= ("a" | "ab") "c"\<close>.\<close>

definition abc_grammar :: grammar where
  "abc_grammar =
     \<lparr>gr_rules = [(''root'', Sequence [Alternation [Literal [97], Literal [97, 98]], Literal [99]])],
      gr_root = ''root'', gr_source = []\<rparr>"

lemmas machine_eval = grammar_state_new_def abc_grammar_def allows_token_checked_def grammar_advance_def
  is_complete_def MAX_DEPTH_def MAX_SIM_BYTES_def push_literal_def eval_nat_numeral

lemma abc_commits: "commit_all [[97], [99]] (grammar_state_new abc_grammar) =
    Inr \<lparr>gs_continuation = [], gs_grammar = abc_grammar\<rparr>"
  by (simp add: machine_eval)

lemma constrained_output_is_word_witness:
  "matches (gr_rules abc_grammar) (RuleRef (gr_root abc_grammar)) [97, 99]"
  using constrained_output_is_word [OF abc_commits] by (simp add: is_complete_def MAX_DEPTH_def eval_nat_numeral)

text \<open>C21: The check of a token is exact: within the simulator's limits it rejects only byte strings
  that no word reachable from the state starts with, and what it allows can be committed, after
  which everything the new state still accepts completes the bytes to something the old state
  accepted.\<close>

theorem token_check_exact:
  assumes "allows_token_checked s bytes = Inr allowed"
  shows "(\<not> allowed \<longrightarrow> \<not> word_of_nodes (gr_rules (gs_grammar s)) (gs_continuation s) (bytes @ w)) \<and>
    (allowed \<longrightarrow> (\<exists>s'. grammar_advance bytes s = Inr s' \<and>
       (word_of_nodes (gr_rules (gs_grammar s')) (gs_continuation s') w \<longrightarrow>
        word_of_nodes (gr_rules (gs_grammar s)) (gs_continuation s) (bytes @ w))))"
proof (cases "bytes = []")
  case True
  then show ?thesis using assms by (simp add: allows_token_checked_def grammar_advance_def)
next
  case False
  then have sim: "simulate_bytes (gr_rules (gs_grammar s)) MAX_DEPTH (gs_continuation s) bytes = Inr allowed"
    using assms by (simp add: allows_token_checked_def split: if_splits)
  show ?thesis
  proof (cases allowed)
    case True
    then obtain c where "advance_bytes (gr_rules (gs_grammar s)) MAX_DEPTH (gs_continuation s) bytes = Inr c"
      using allowed_advances(1) [of "gr_rules (gs_grammar s)" MAX_DEPTH "gs_continuation s" bytes] sim
      by auto
    then have "grammar_advance bytes s = Inr (s\<lparr>gs_continuation := c\<rparr>)"
      using False by (simp add: grammar_advance_def)
    then show ?thesis using True grammar_advance_sound by blast
  next
    case False
    then show ?thesis using reject_sound(1) sim by simp
  qed
qed

lemma token_check_exact_witness:
  "\<not> word_of_nodes (gr_rules abc_grammar) [RuleRef ''root''] ([98] @ [99]) \<and>
   (\<exists>s'. grammar_advance [97] (grammar_state_new abc_grammar) = Inr s')"
proof -
  let ?s = "grammar_state_new abc_grammar"
  have no: "allows_token_checked ?s [98] = Inr False" and yes: "allows_token_checked ?s [97] = Inr True"
    by (simp_all add: machine_eval)
  show ?thesis
    using token_check_exact [OF no, of "[99]"] token_check_exact [OF yes]
    by (auto simp: grammar_state_new_def abc_grammar_def)
qed

text \<open>C24: The mask never leaves sampling without a choice, and never leaves a forbidden one beside a
  permitted one: if some vocabulary entry had a finite logit then some logit is finite
  afterwards; and when an allowed entry had one, the finite entries that remain are allowed and
  carry their original logits.\<close>

theorem mask_leaves_allowed:
  assumes "distinct (map fst vocab)"
    and "(u, ub) \<in> set vocab" and "unat u < length logits" and "f32_is_finite (logits ! unat u)"
  shows "(\<exists>i < length logits. f32_is_finite (apply_grammar_mask logits s vocab eog ! i)) \<and>
    (token_allowed s (is_complete s) eog u ub \<longrightarrow>
      (\<forall>(t, b) \<in> set vocab. unat t < length logits \<and>
         f32_is_finite (apply_grammar_mask logits s vocab eog ! unat t) \<longrightarrow>
         token_allowed s (is_complete s) eog t b \<and>
         apply_grammar_mask logits s vocab eog ! unat t = logits ! unat t))"
proof -
  obtain l best where l: "fold (mask_step s (is_complete s) eog) vocab (logits, None) = (l, best)"
    by fastforce
  have inv: "mask_inv logits (l, best)" unfolding l [symmetric] by (rule mask_fold_inv [OF mask_init])
  have len: "length l = length logits" using inv by (simp add: mask_inv_def)
  have "snd (fold (mask_step s (is_complete s) eog) vocab (logits, None)) \<noteq> None"
    by (rule mask_fold_finite [OF mask_init assms(2-4)])
  then obtain i v where best: "best = Some (i, v)" unfolding l by auto
  then have i: "i < length logits" "f32_is_finite v" using inv by (auto simp: mask_inv_def)
  have nth: "l ! unat t = (if token_allowed s (is_complete s) eog t b then logits ! unat t else NEG_INFINITY)"
    if "(t, b) \<in> set vocab" "unat t < length logits" for t b
    using mask_fold_nth [OF assms(1) that(1), of "(logits, None)" s "is_complete s" eog] that(2)
    unfolding l by simp
  have res: "apply_grammar_mask logits s vocab eog =
      (if list_all (\<lambda>v. \<not> f32_is_finite v) l then l[i := v] else l)"
    by (simp add: apply_grammar_mask_def l best)
  have "\<exists>i < length logits. f32_is_finite (apply_grammar_mask logits s vocab eog ! i)"
  proof (cases "list_all (\<lambda>v. \<not> f32_is_finite v) l")
    case True
    then show ?thesis using i len by (intro exI [of _ i]) (simp add: res)
  next
    case False
    then show ?thesis using len by (auto simp: res list_all_length)
  qed
  moreover have "token_allowed s (is_complete s) eog t b \<and>
      apply_grammar_mask logits s vocab eog ! unat t = logits ! unat t"
    if a: "token_allowed s (is_complete s) eog u ub"
      and t: "(t, b) \<in> set vocab" "unat t < length logits"
      "f32_is_finite (apply_grammar_mask logits s vocab eog ! unat t)" for t b
  proof -
    have "\<not> list_all (\<lambda>v. \<not> f32_is_finite v) l"
      using nth [OF assms(2,3)] a assms(3,4) len by (auto simp: list_all_length)
    then have r: "apply_grammar_mask logits s vocab eog = l" by (simp add: res)
    show ?thesis using nth [OF t(1,2)] t(3) unfolding r by (auto split: if_splits)
  qed
  ultimately show ?thesis by blast
qed

lemma mask_leaves_allowed_witness:
  "f32_is_finite (apply_grammar_mask [0, 0] (grammar_state_new abc_grammar) [(0, [97]), (1, [98])] [] ! 0) \<and>
   \<not> f32_is_finite (apply_grammar_mask [0, 0] (grammar_state_new abc_grammar) [(0, [97]), (1, [98])] [] ! 1)"
proof -
  let ?s = "grammar_state_new abc_grammar" and ?v = "[(0 :: u32, [97 :: u8]), (1, [98])]"
  have "token_allowed ?s (is_complete ?s) [] 0 [97]" "\<not> token_allowed ?s (is_complete ?s) [] 1 [98]"
    by (simp_all add: token_allowed_def machine_eval)
  moreover have "f32_is_finite 0" by (simp add: f32_is_finite_def)
  ultimately have some: "\<exists>i < length [0 :: u32, 0]. f32_is_finite (apply_grammar_mask [0, 0] ?s ?v [] ! i)"
    and none: "\<not> f32_is_finite (apply_grammar_mask [0, 0] ?s ?v [] ! 1)"
    using mask_leaves_allowed [of ?v 0 "[97]" "[0, 0]" ?s "[]"] by auto
  have "i = 0 \<or> i = 1" if "i < length [0 :: u32, 0]" for i using that by auto
  then show ?thesis using some none by metis
qed

section \<open>The GBNF parser\<close>

text \<open>C23: The GBNF parser returns on every input, and what it accepts is a grammar of the format: at
  least one rule, unique well-formed names, trees that GBNF can write, and a root that is
  \<open>root\<close> or the first rule, so that the initial state of the machine can be entered.\<close>

theorem gbnf_parse_returns:
  "\<exists>r. gbnf_parse input = Some r \<and>
     (\<forall>g. r = Inr g \<longrightarrow> gbnf_rules (gr_rules g) \<and> gr_rules g \<noteq> [] \<and> gr_source g = input \<and>
        (\<exists>node. root_node g = Inr node))"
proof -
  obtain r0 where r0: "parse_grammar (0, input) = Some r0"
    using parse_grammar_returns returns_not_None by blast
  then obtain r where r: "gbnf_parse input = Some r"
    by (cases r0) (auto simp: gbnf_parse_def)
  have "\<exists>node. root_node g = Inr node" if g: "gbnf_parse input = Some (Inr g)" for g
  proof -
    note ok = gbnf_parse_ok [OF g]
    then have "gr_root g \<in> fst ` set (gr_rules g)" by (cases "gr_rules g") auto
    then obtain node where "map_of (gr_rules g) (gr_root g) = Some node"
      by (metis map_of_eq_None_iff option.exhaust)
    then show ?thesis by (simp add: root_node_def)
  qed
  then show ?thesis using r gbnf_parse_ok by blast
qed

lemma gbnf_parse_returns_witness:
  "\<exists>r. gbnf_parse [40, 40] = Some r"
  using gbnf_parse_returns [of "[40, 40]"] by blast

text \<open>C22: Printing and parsing are inverse: the rules of any accepted grammar, printed in the canonical
  form of the format, parse to the same rules and the same root.\<close>

theorem gbnf_print_parse:
  assumes "gbnf_parse input = Some (Inr g)"
  shows "gbnf_parse (show_rules (gr_rules g)) = Some (Inr (g\<lparr>gr_source := show_rules (gr_rules g)\<rparr>))"
  using gbnf_parse_ok [OF assms] gbnf_parse_show [of "gr_rules g"] by simp

text \<open>\<open>a::=b"x"|[]\<close> with a rule reference, a literal, an alternative and an empty class.\<close>

lemma gbnf_sample:
  "gbnf_parse [97, 58, 58, 61, 98, 34, 120, 34, 124, 91, 93] = Some (Inr
     \<lparr>gr_rules = [(''a'', Alternation [Sequence [RuleRef ''b'', Literal [120]], CharClass [] False])],
      gr_root = ''a'', gr_source = [97, 58, 58, 61, 98, 34, 120, 34, 124, 91, 93]\<rparr>)"
  by code_simp

lemma gbnf_print_parse_witness:
  "\<exists>g. gr_root g = ''a'' \<and> gbnf_parse (show_rules (gr_rules g)) =
     Some (Inr (g\<lparr>gr_source := show_rules (gr_rules g)\<rparr>))"
  using gbnf_print_parse [OF gbnf_sample] by (intro exI [of _ "\<lparr>gr_rules = _, gr_root = ''a'', gr_source = _\<rparr>"]) simp

section \<open>Where the machine is weaker than its grammar\<close>

text \<open>Committing keeps one reading only: \<open>abc\<close> is a word of \<open>root ::= ("a" | "ab") "c"\<close> and
  the first token \<open>a\<close> is allowed, but committing it drops the alternative \<open>"ab"\<close>, so the
  token \<open>b\<close> that continues the word is refused.\<close>

theorem commit_drops_alternatives:
  "matches (gr_rules abc_grammar) (RuleRef ''root'') [97, 98, 99] \<and>
   allows_token_checked (grammar_state_new abc_grammar) [97] = Inr True \<and>
   (\<exists>s. grammar_advance [97] (grammar_state_new abc_grammar) = Inr s \<and>
        allows_token_checked s [98] = Inr False)"
proof (intro conjI)
  have "word_of_nodes (gr_rules abc_grammar) [RuleRef ''root''] [97, 98, 99]"
    by (simp add: abc_grammar_def word_steps)
  then show "matches (gr_rules abc_grammar) (RuleRef ''root'') [97, 98, 99]"
    by (auto simp: word_Cons word_Nil)
qed (simp_all add: machine_eval)

end
