(* ===== verification/Prefix_Tree.thy ===== *)
theory Prefix_Tree
  imports Kv_Access
begin

text \<open>
  The radix tree of \<open>crates/oxillama-runtime/src/kv_cache/prefix.rs\<close>: prefixes of token
  sequences with the KV snapshot cached for them. The \<open>HashMap\<close> of children is an association
  list (its order stands for the map's iteration order); the clock is read once per operation of
  the tree, as the argument \<open>now\<close>.
\<close>

section \<open>Data\<close>

record cached_kv =
  ck_keys :: "row list"
  ck_values :: "row list"
  ck_seq_len :: nat
  ck_memory_bytes :: nat

definition cached_kv_new :: "row list \<Rightarrow> row list \<Rightarrow> nat \<Rightarrow> cached_kv" where
  "cached_kv_new keys vals seq_len =
     \<lparr>ck_keys = keys, ck_values = vals, ck_seq_len = seq_len,
      ck_memory_bytes = sum_list (map length (keys @ vals)) * 4\<rparr>"

definition ck_num_layers :: "cached_kv \<Rightarrow> nat" where
  "ck_num_layers kv = length (ck_keys kv)"

datatype radix =
  Radix (rx_tokens: "u32 list") (rx_children: "(u32 \<times> radix) list")
    (rx_cached: "cached_kv option") (rx_last_access: nat)

type_synonym radix_children = "(u32 \<times> radix) list"

definition radix_new :: "nat \<Rightarrow> u32 list \<Rightarrow> radix" where
  "radix_new now tokens = Radix tokens [] None now"

fun common_prefix_len :: "u32 list \<Rightarrow> u32 list \<Rightarrow> nat" where
  "common_prefix_len (a # as) (b # bs) = (if a = b then Suc (common_prefix_len as bs) else 0)"
| "common_prefix_len _ _ = 0"

lemma child_size [termination_simp]:
  "kc \<in> set cs \<Longrightarrow> size (snd kc) < Suc (size_list (size_prod (\<lambda>_. 0) size) cs)"
proof (induction cs)
  case (Cons a cs)
  then show ?case by (cases a) auto
qed simp

lemma map_of_size:
  "map_of cs k = Some c \<Longrightarrow> size c < Suc (size_list (size_prod (\<lambda>_. 0) size) cs)"
  using child_size[OF map_of_SomeD] by fastforce

section \<open>Lookup\<close>

text \<open>The best match with the tree whose visited nodes carry the new access time.\<close>

function radix_lookup :: "nat \<Rightarrow> u32 list \<Rightarrow> nat \<Rightarrow> radix \<Rightarrow> (nat \<times> cached_kv) option \<times> radix" where
  "radix_lookup now query matched_so_far (Radix tokens children cached last_access) =
     (let common = common_prefix_len tokens query
      in if common < length tokens then (None, Radix tokens children cached last_access)
         else let total_matched = matched_so_far + common;
                  remaining = drop common query;
                  (best, children) =
                    (case remaining of
                       [] \<Rightarrow> (None, children)
                     | first_token # _ \<Rightarrow>
                         case map_of children first_token of
                           None \<Rightarrow> (None, children)
                         | Some child \<Rightarrow>
                             let (best, child) = radix_lookup now remaining total_matched child
                             in (best, AList.update first_token child children));
                  best = (if best = None then map_option (Pair total_matched) cached else best)
              in (best, Radix tokens children cached now))"
  by pat_completeness auto
termination by (relation "measure (\<lambda>(now, query, m, node). size node)") (auto dest: map_of_size)

section \<open>Insertion\<close>

definition replace_cached :: "nat \<Rightarrow> cached_kv \<Rightarrow> radix \<Rightarrow> cached_kv option \<times> radix" where
  "replace_cached now kv node = (rx_cached node, Radix (rx_tokens node) (rx_children node) (Some kv) now)"

definition split_at :: "nat \<Rightarrow> radix \<Rightarrow> radix" where
  "split_at pos node =
     (let suffix = drop pos (rx_tokens node);
          new_child = Radix suffix (rx_children node) (rx_cached node) (rx_last_access node)
      in Radix (take pos (rx_tokens node)) [(hd suffix, new_child)] None (rx_last_access node))"

lemma common_prefix_len_le: "common_prefix_len as bs \<le> length as" "common_prefix_len as bs \<le> length bs"
  by (induction as bs rule: common_prefix_len.induct) auto

lemma common_prefix_take: "take (common_prefix_len as bs) as = take (common_prefix_len as bs) bs"
  by (induction as bs rule: common_prefix_len.induct) auto

lemma common_prefix_maximal:
  "common_prefix_len as bs < length as \<Longrightarrow> common_prefix_len as bs < length bs \<Longrightarrow>
   as ! common_prefix_len as bs \<noteq> bs ! common_prefix_len as bs"
  by (induction as bs rule: common_prefix_len.induct) auto

function radix_insert :: "nat \<Rightarrow> u32 list \<Rightarrow> cached_kv \<Rightarrow> radix \<Rightarrow> cached_kv option \<times> radix" where
  "radix_insert now tokens kv node0 =
     (if tokens = [] then replace_cached now kv node0
      else let common = common_prefix_len (rx_tokens node0) tokens;
               node = (if common < length (rx_tokens node0) then split_at common node0 else node0);
               remaining = drop common tokens
           in if remaining = [] then replace_cached now kv node
              else case map_of (rx_children node) (hd remaining) of
                     None \<Rightarrow>
                       (None, Radix (rx_tokens node)
                          (AList.update (hd remaining) (snd (replace_cached now kv (radix_new now remaining)))
                             (rx_children node))
                          (rx_cached node) (rx_last_access node))
                   | Some child \<Rightarrow>
                       let (old, child) = (if rx_tokens child = remaining then replace_cached now kv child
                                           else radix_insert now remaining kv child)
                       in (old, Radix (rx_tokens node) (AList.update (hd remaining) child (rx_children node))
                                  (rx_cached node) (rx_last_access node)))"
  by pat_completeness auto
termination
proof (relation "measure (\<lambda>(now, tokens, kv, node). size node)", goal_cases)
  case (2 now tokens kv node0 common node remaining child)
  have "\<not> common < length (rx_tokens node0)"
  proof
    assume c: "common < length (rx_tokens node0)"
    then have "rx_tokens node0 ! common \<noteq> tokens ! common"
      using 2(2,4,5) common_prefix_maximal by simp
    moreover have "map_of (rx_children node) (hd remaining) = None"
      using calculation c 2(3-5) by (simp add: split_at_def hd_drop_conv_nth)
    ultimately show False using 2(6) by simp
  qed
  then have "map_of (rx_children node0) (hd remaining) = Some child" using 2(3,6) by simp
  then show ?case using map_of_size by (cases node0) fastforce
qed simp

declare radix_insert.simps [simp del]

section \<open>Eviction\<close>

text \<open>The audit functions of the source, on which its running counters are specified.\<close>

fun count_entries :: "radix \<Rightarrow> nat" where
  "count_entries (Radix tokens children cached last_access) =
     (if cached = None then 0 else 1) + sum_list (map (\<lambda>child. count_entries (snd child)) children)"

fun total_memory :: "radix \<Rightarrow> nat" where
  "total_memory (Radix tokens children cached last_access) =
     (case cached of None \<Rightarrow> 0 | Some kv \<Rightarrow> ck_memory_bytes kv) +
     sum_list (map (\<lambda>child. total_memory (snd child)) children)"

type_synonym candidate = "(nat \<times> u32 list) option"

text \<open>\<open>oldest_time\<close> with \<open>oldest_path\<close>; the time matters only once there is a path.\<close>

fun find_lru_candidate :: "u32 list \<Rightarrow> radix \<Rightarrow> candidate \<Rightarrow> candidate" where
  "find_lru_candidate prefix (Radix tokens children cached last_access) oldest =
     (let oldest = (if cached \<noteq> None \<and>
                       (case oldest of None \<Rightarrow> True | Some (oldest_time, _) \<Rightarrow> last_access < oldest_time)
                    then Some (last_access, prefix @ tokens) else oldest)
      in fold (\<lambda>child. find_lru_candidate (prefix @ tokens) (snd child)) children oldest)"

function remove_cached_at :: "u32 list \<Rightarrow> radix \<Rightarrow> nat option \<times> radix" where
  "remove_cached_at path (Radix tokens children cached last_access) =
     (let common = common_prefix_len tokens path
      in if common < length tokens then (None, Radix tokens children cached last_access)
         else case drop common path of
                [] \<Rightarrow> (map_option ck_memory_bytes cached, Radix tokens children None last_access)
              | first # rest \<Rightarrow>
                  case map_of children first of
                    None \<Rightarrow> (None, Radix tokens children cached last_access)
                  | Some child \<Rightarrow>
                      let (freed, child) = remove_cached_at (first # rest) child;
                          children = (if rx_cached child = None \<and> rx_children child = []
                                      then AList.delete first children
                                      else AList.update first child children)
                      in (freed, Radix tokens children cached last_access))"
  by pat_completeness auto
termination by (relation "measure (\<lambda>(path, node). size node)") (auto dest: map_of_size)

definition evict_lru_one :: "radix \<Rightarrow> nat option \<times> radix" where
  "evict_lru_one root =
     (case find_lru_candidate [] root None of
        None \<Rightarrow> (None, root)
      | Some (oldest_time, path) \<Rightarrow> remove_cached_at path root)"

definition clear_all :: "radix \<Rightarrow> radix" where
  "clear_all node = Radix (rx_tokens node) [] None (rx_last_access node)"

end
