(* ===== verification/Entry_Store.thy ===== *)
theory Entry_Store
  imports Main
begin

text \<open>
  The interface between the prefix cache and the tree it keeps its entries in: a finite map that
  is written with \<open>put\<close> and emptied entry by entry with \<open>evict\<close>, which reports what the entry
  weighed. The client keeps the number of entries and their weight in counters of its own; the
  lemmas of the locale say that they stay exact, and that eviction brings any map under any limits.
\<close>

section \<open>The weight of a finite map\<close>

definition map_weight :: "('v \<Rightarrow> nat) \<Rightarrow> ('k \<Rightarrow> 'v option) \<Rightarrow> nat" where
  "map_weight w f = (\<Sum>k\<in>dom f. w (the (f k)))"

lemma map_weight_empty [simp]: "map_weight w Map.empty = 0"
  by (simp add: map_weight_def)

lemma map_weight_update:
  assumes "finite (dom f)"
  shows "map_weight w (f(k \<mapsto> v)) + (case f k of None \<Rightarrow> 0 | Some u \<Rightarrow> w u) = map_weight w f + w v"
proof -
  have "(\<Sum>j\<in>dom f - {k}. w (the ((f(k \<mapsto> v)) j))) = (\<Sum>j\<in>dom f - {k}. w (the (f j)))"
    by (rule sum.cong) auto
  then have "map_weight w (f(k \<mapsto> v)) = w v + (\<Sum>j\<in>dom f - {k}. w (the (f j)))"
    using assms by (simp add: map_weight_def sum.insert_remove)
  then show ?thesis
    using sum.remove[OF assms, of k "\<lambda>j. w (the (f j))"]
    by (cases "f k") (simp_all add: map_weight_def domI domIff)
qed

lemma map_weight_delete:
  assumes "finite (dom f)" and "f k = Some v"
  shows "map_weight w f = map_weight w (f(k := None)) + w v"
proof -
  have "(\<Sum>j\<in>dom f - {k}. w (the ((f(k := None)) j))) = (\<Sum>j\<in>dom f - {k}. w (the (f j)))"
    by (rule sum.cong) auto
  then show ?thesis
    using sum.remove[OF assms(1), of k "\<lambda>j. w (the (f j))"] assms(2)
    by (simp add: map_weight_def domI)
qed

lemma map_weight_member:
  assumes "finite (dom f)" and "f k = Some v"
  shows "w v \<le> map_weight w f"
  using map_weight_delete[OF assms, of w] by simp

section \<open>The interface\<close>

locale entry_store =
  fixes ok :: "'s \<Rightarrow> bool" and entry :: "'s \<Rightarrow> 'k \<Rightarrow> 'v option" and weight :: "'v \<Rightarrow> nat"
    and put :: "'k \<Rightarrow> 'v \<Rightarrow> 's \<Rightarrow> 'v option \<times> 's" and evict :: "'s \<Rightarrow> nat option \<times> 's"
  assumes finite_entries: "ok s \<Longrightarrow> finite (dom (entry s))"
    and put_entry: "ok s \<Longrightarrow> put k v s = (old, s') \<Longrightarrow>
      ok s' \<and> old = entry s k \<and> entry s' = (entry s)(k \<mapsto> v)"
    and evict_entry: "ok s \<Longrightarrow> evict s = (Some freed, s') \<Longrightarrow>
      ok s' \<and> (\<exists>k v. entry s k = Some v \<and> freed = weight v \<and> entry s' = (entry s)(k := None))"
    and evict_nothing: "ok s \<Longrightarrow> evict s = (None, s') \<Longrightarrow> s' = s \<and> entry s = Map.empty"
begin

definition tracked :: "'s \<Rightarrow> nat \<Rightarrow> nat \<Rightarrow> bool" where
  "tracked s n m \<longleftrightarrow> ok s \<and> n = card (dom (entry s)) \<and> m = map_weight weight (entry s)"

lemma tracked_put:
  assumes "tracked s n m" and "put k v s = (old, s')"
  shows "case old of
           None \<Rightarrow> tracked s' (n + 1) (m + weight v)
         | Some u \<Rightarrow> weight u \<le> m + weight v \<and> tracked s' n (m + weight v - weight u)"
proof -
  have ok: "ok s" using assms(1) by (simp add: tracked_def)
  note p = put_entry[OF ok assms(2)]
  have "card (dom (entry s')) = (if entry s k = None then n + 1 else n)"
    using p assms(1) finite_entries[OF ok] by (auto simp: tracked_def card_insert_if domIff)
  moreover have "map_weight weight (entry s') + (case old of None \<Rightarrow> 0 | Some u \<Rightarrow> weight u) = m + weight v"
    using p assms(1) map_weight_update[OF finite_entries[OF ok], of weight k v] by (simp add: tracked_def)
  ultimately show ?thesis using p by (cases "entry s k") (auto simp: tracked_def)
qed

lemma tracked_evict:
  assumes "tracked s n m" and "evict s = (Some freed, s')"
  shows "0 < n \<and> freed \<le> m \<and> tracked s' (n - 1) (m - freed)"
proof -
  have ok: "ok s" using assms(1) by (simp add: tracked_def)
  obtain k v where e: "entry s k = Some v" "freed = weight v" "entry s' = (entry s)(k := None)" "ok s'"
    using evict_entry[OF ok assms(2)] by blast
  note fin = finite_entries[OF ok]
  have "card (dom (entry s')) = n - 1" "0 < n"
    using assms(1) e fin by (auto simp: tracked_def domI card_gt_0_iff)
  then show ?thesis
    using map_weight_delete[OF fin e(1), of weight] assms(1) e by (simp add: tracked_def)
qed

lemma tracked_nothing:
  assumes "tracked s n m" and "evict s = (None, s')"
  shows "s' = s \<and> n = 0 \<and> m = 0"
  using assms evict_nothing[of s s'] by (simp add: tracked_def)

end

end
