(* ===== verification/Prefix_Entries.thy ===== *)
theory Prefix_Entries
  imports Prefix_Tree Entry_Store "HOL-Library.Sublist"
begin

text \<open>
  The radix tree as the map it represents: \<open>entry_at\<close> reads the entry of a key off the tree,
  \<open>radix_wf\<close> is the shape every operation keeps (children under the first token of their own
  segment), and every operation is the corresponding operation of finite maps.
\<close>

section \<open>Shape and abstraction\<close>

lemma radix_induct [case_names Radix]:
  assumes "\<And>tokens children cached last_access.
    (\<And>k c. (k, c) \<in> set children \<Longrightarrow> P c) \<Longrightarrow> P (Radix tokens children cached last_access)"
  shows "P node"
proof (induction node)
  case (Radix tokens children cached last_access)
  then show ?case by (intro assms) (auto simp: prod_set_simps)
qed

fun radix_wf :: "radix \<Rightarrow> bool" where
  "radix_wf (Radix tokens children cached last_access) \<longleftrightarrow>
     distinct (map fst children) \<and>
     (\<forall>child\<in>set children. rx_tokens (snd child) \<noteq> [] \<and> hd (rx_tokens (snd child)) = fst child \<and>
        radix_wf (snd child))"

function entry_at :: "radix \<Rightarrow> u32 list \<Rightarrow> cached_kv option" where
  "entry_at (Radix tokens children cached last_access) path =
     (if prefix tokens path then
        case drop (length tokens) path of
          [] \<Rightarrow> cached
        | first # rest \<Rightarrow>
            case map_of children first of
              None \<Rightarrow> None
            | Some child \<Rightarrow> entry_at child (first # rest)
      else None)"
  by pat_completeness auto
termination by (relation "measure (\<lambda>(node, path). size node)") (auto dest: map_of_size)

lemma common_prefix_len_full: "common_prefix_len as bs < length as \<longleftrightarrow> \<not> prefix as bs"
  by (induction as bs rule: common_prefix_len.induct) auto

lemma common_prefix_len_prefix [simp]: "prefix as bs \<Longrightarrow> common_prefix_len as bs = length as"
  using common_prefix_len_full common_prefix_len_le(1) by (metis le_neq_implies_less)

text \<open>Reading an entry, by the way the path continues after the node's own segment.\<close>

definition child_entry :: "radix_children \<Rightarrow> u32 list \<Rightarrow> cached_kv option" where
  "child_entry children path =
     (case map_of children (hd path) of None \<Rightarrow> None | Some child \<Rightarrow> entry_at child path)"

lemma entry_at_not_prefix: "\<not> prefix (rx_tokens node) path \<Longrightarrow> entry_at node path = None"
  by (cases node) simp

lemma entry_at_self: "entry_at node (rx_tokens node) = rx_cached node"
  by (cases node) simp

lemma entry_at_below: "rest \<noteq> [] \<Longrightarrow> entry_at node (rx_tokens node @ rest) = child_entry (rx_children node) rest"
  by (cases node) (auto simp: child_entry_def neq_Nil_conv split: option.splits)

declare entry_at.simps [simp del]

lemma entry_at_eq:
  "entry_at node path =
     (if path = rx_tokens node then rx_cached node
      else if prefix (rx_tokens node) path
        then child_entry (rx_children node) (drop (length (rx_tokens node)) path)
      else None)"
proof -
  have "entry_at node path = child_entry (rx_children node) (drop (length (rx_tokens node)) path)"
    if "path \<noteq> rx_tokens node" "prefix (rx_tokens node) path"
    using that entry_at_below by (fastforce simp: prefix_def)
  then show ?thesis by (auto simp: entry_at_self entry_at_not_prefix)
qed

lemma entry_at_hd:
  assumes "entry_at node path = Some kv" and "rx_tokens node \<noteq> []"
  shows "path \<noteq> [] \<and> hd path = hd (rx_tokens node)"
proof -
  have "prefix (rx_tokens node) path" using assms(1) entry_at_not_prefix by fastforce
  then show ?thesis using assms(2) by (auto simp: prefix_def)
qed

lemma entry_at_Nil [simp]: "rx_tokens node \<noteq> [] \<Longrightarrow> entry_at node [] = None"
  by (simp add: entry_at_not_prefix)

lemma child_entry_update:
  "child_entry (AList.update k c cs) path = (if hd path = k then entry_at c path else child_entry cs path)"
  by (simp add: child_entry_def update_conv')

lemma child_entry_delete:
  "child_entry (AList.delete k cs) path = (if hd path = k then None else child_entry cs path)"
  by (simp add: child_entry_def delete_conv')

lemma radix_wf_iff:
  "radix_wf node \<longleftrightarrow>
     distinct (map fst (rx_children node)) \<and>
     (\<forall>k c. (k, c) \<in> set (rx_children node) \<longrightarrow> rx_tokens c \<noteq> [] \<and> hd (rx_tokens c) = k \<and> radix_wf c)"
  by (cases node) force

lemma radix_wf_child:
  assumes "radix_wf node" and "map_of (rx_children node) k = Some c"
  shows "rx_tokens c \<noteq> []" "hd (rx_tokens c) = k" "radix_wf c"
  using assms by (auto simp: radix_wf_iff[of node] dest!: map_of_SomeD)

lemma set_update_subset: "set (AList.update k v cs) \<subseteq> insert (k, v) (set cs)"
  by (induction cs) auto

lemma radix_wf_update:
  assumes "radix_wf node" and "rx_tokens c \<noteq> []" "hd (rx_tokens c) = k" "radix_wf c"
  shows "radix_wf (Radix t (AList.update k c (rx_children node)) x a)"
  using assms set_update_subset[of k c "rx_children node"]
  by (auto simp: radix_wf_iff[of node] radix_wf_iff[of "Radix t _ x a"] distinct_update)

lemma radix_wf_delete:
  assumes "radix_wf node"
  shows "radix_wf (Radix t (AList.delete k (rx_children node)) x a)"
  using assms
  by (auto simp: radix_wf_iff[of node] radix_wf_iff[of "Radix t _ x a"] AList.delete_eq
      intro: distinct_map_filter)

lemma radix_wf_same: "radix_wf node \<Longrightarrow> radix_wf (Radix t (rx_children node) x a)"
  by (cases node) simp

section \<open>Lookup\<close>

text \<open>What a lookup of \<open>query\<close> should find among the entries \<open>f\<close>: the longest stored prefix.\<close>

definition longest_match :: "(u32 list \<Rightarrow> cached_kv option) \<Rightarrow> u32 list \<Rightarrow> (nat \<times> cached_kv) option \<Rightarrow> bool" where
  "longest_match f query result \<longleftrightarrow>
     (case result of
        None \<Rightarrow> \<forall>n\<le>length query. f (take n query) = None
      | Some (n, kv) \<Rightarrow> n \<le> length query \<and> f (take n query) = Some kv \<and>
          (\<forall>n'\<le>length query. n < n' \<longrightarrow> f (take n' query) = None))"

lemma longest_match_cong:
  assumes "\<And>n. f (take n query) = g (take n query)"
  shows "longest_match f query = longest_match g query"
  by (rule ext) (simp add: longest_match_def assms split: option.splits)

text \<open>The match a node reports is counted from the start of the query of the whole tree.\<close>

definition matched_from :: "nat \<Rightarrow> (nat \<times> cached_kv) option \<Rightarrow> (nat \<times> cached_kv) option" where
  "matched_from m = map_option (apfst ((+) m))"

lemma matched_from_0 [simp]: "matched_from 0 r = r"
  by (cases r) (auto simp: matched_from_def)

lemma matched_from_add: "matched_from (m + n) r = matched_from m (matched_from n r)"
  by (cases r) (auto simp: matched_from_def)

lemma longest_match_stuck:
  assumes "\<not> prefix (rx_tokens node) query"
  shows "longest_match (entry_at node) query None"
proof -
  have "\<not> prefix (rx_tokens node) (take n query)" for n
    using assms take_is_prefix prefix_order.trans by blast
  then show ?thesis by (simp add: longest_match_def entry_at_not_prefix)
qed

lemma all_le_add:
  fixes a b :: nat
  shows "(\<forall>n\<le>a + b. P n) \<longleftrightarrow> (\<forall>n<a. P n) \<and> (\<forall>n\<le>b. P (a + n))"
proof (intro iffI allI impI conjI)
  fix n assume "(\<forall>n<a. P n) \<and> (\<forall>n\<le>b. P (a + n))" and "n \<le> a + b"
  then show "P n" by (cases "n < a") (auto simp: not_less le_iff_add)
qed auto

lemma longest_match_node:
  assumes deeper: "longest_match (\<lambda>p. if p = [] then None else child_entry (rx_children node) p) rest r"
  shows "longest_match (entry_at node) (rx_tokens node @ rest)
           (case r of None \<Rightarrow> map_option (Pair (length (rx_tokens node))) (rx_cached node)
            | Some m \<Rightarrow> matched_from (length (rx_tokens node)) (Some m))"
proof -
  let ?t = "rx_tokens node"
  have below: "entry_at node (take (length ?t + n) (?t @ rest)) =
      (if n = 0 \<or> rest = [] then rx_cached node else child_entry (rx_children node) (take n rest))" for n
    using entry_at_self entry_at_below[of "take n rest" node] by auto
  have above: "entry_at node (take n (?t @ rest)) = None" if "n < length ?t" for n
    using that by (auto intro!: entry_at_not_prefix dest: prefix_length_le)
  note split = all_le_add[of "length ?t" "length rest"]
  show ?thesis
  proof (cases r)
    case None
    then show ?thesis
      using deeper above below
      by (cases "rx_cached node") (auto simp: longest_match_def split entry_at_self)
  next
    case (Some m)
    then show ?thesis
      using deeper above below
      by (cases m) (auto simp: longest_match_def split matched_from_def split: if_splits)
  qed
qed

lemma longest_match_child:
  assumes "map_of children (hd rest) = Some child" and "rx_tokens child \<noteq> []" and "rest \<noteq> []"
  shows "longest_match (\<lambda>p. if p = [] then None else child_entry children p) rest =
         longest_match (entry_at child) rest"
proof (rule longest_match_cong)
  show "(if take n rest = [] then None else child_entry children (take n rest)) = entry_at child (take n rest)" for n
    using assms by (cases n; cases rest) (auto simp: child_entry_def)
qed

text \<open>Following the query does not change what the tree stores.\<close>

lemma radix_lookup_spec:
  assumes "radix_wf node" and "radix_lookup now query m node = (r, node')"
  shows "(\<exists>r0. r = matched_from m r0 \<and> longest_match (entry_at node) query r0) \<and>
         entry_at node' = entry_at node \<and> radix_wf node' \<and> rx_tokens node' = rx_tokens node"
  using assms
proof (induction now query m node arbitrary: r node' rule: radix_lookup.induct)
  case (1 now query m tokens children cached last_access)
  let ?node = "Radix tokens children cached last_access"
  show ?case
  proof (cases "prefix tokens query")
    case False
    then have "r = None" "node' = ?node"
      using "1.prems"(2) by (simp_all add: common_prefix_len_full)
    then show ?thesis
      using longest_match_stuck[of ?node query] False "1.prems"(1)
      by (intro conjI exI[of _ None]) (simp_all add: matched_from_def)
  next
    case True
    then obtain rest where q: "query = tokens @ rest" by (auto simp: prefix_def)
    let ?f = "\<lambda>p. if p = [] then None else child_entry children p"
    obtain b cs where bc: "(case rest of [] \<Rightarrow> (None, children)
        | first # _ \<Rightarrow> case map_of children first of None \<Rightarrow> (None, children)
          | Some child \<Rightarrow> let (best, child) = radix_lookup now rest (m + length tokens) child
                          in (best, AList.update first child children)) = (b, cs)"
      by fastforce
    have deeper: "(\<exists>b0. b = matched_from (m + length tokens) b0 \<and> longest_match ?f rest b0) \<and>
        child_entry cs = child_entry children \<and> radix_wf (Radix tokens cs cached now)"
    proof (cases "rest = [] \<or> map_of children (hd rest) = None")
      case none: True
      then have "b = None" "cs = children" using bc by (auto split: list.splits)
      moreover have "longest_match ?f rest None"
        using none by (auto simp: longest_match_def child_entry_def)
      ultimately show ?thesis
        using radix_wf_same[OF "1.prems"(1)] by (intro conjI exI[of _ None]) (auto simp: matched_from_def)
    next
      case False
      then obtain first rest' child where rest: "rest = first # rest'" and child: "map_of children first = Some child"
        by (cases rest) auto
      obtain b1 child' where sub: "radix_lookup now rest (m + length tokens) child = (b1, child')" by fastforce
      have bcs: "b = b1" "cs = AList.update first child' children"
        using bc rest child sub by auto
      have wf: "rx_tokens child \<noteq> []" "hd (rx_tokens child) = first" "radix_wf child"
        using radix_wf_child[of ?node first child] "1.prems"(1) child by auto
      have IH: "(\<exists>r0. b1 = matched_from (m + length tokens) r0 \<and> longest_match (entry_at child) rest r0) \<and>
          entry_at child' = entry_at child \<and> radix_wf child' \<and> rx_tokens child' = rx_tokens child"
        using "1.IH"[OF refl, of "m + length tokens" rest first rest' child b1 child'] q rest child sub wf(3) True
        by (auto simp: common_prefix_len_full)
      have "longest_match ?f rest = longest_match (entry_at child) rest"
        using longest_match_child[of children rest child] wf child rest by simp
      moreover have "child_entry cs = child_entry children"
        using IH child by (intro ext) (simp add: bcs child_entry_update, simp add: child_entry_def)
      moreover have "radix_wf (Radix tokens cs cached now)"
        using radix_wf_update[OF "1.prems"(1), of child' first tokens cached now] IH wf
        unfolding bcs radix.sel by simp
      ultimately show ?thesis using IH bcs by auto
    qed
    then obtain b0 where b0: "b = matched_from (m + length tokens) b0" "longest_match ?f rest b0" by blast
    have r: "r = (if b = None then map_option (Pair (m + length tokens)) cached else b)"
      and node': "node' = Radix tokens cs cached now"
      using "1.prems"(2) True bc q by (auto simp: common_prefix_len_full Let_def split: prod.splits)
    have "longest_match (entry_at ?node) (tokens @ rest)
            (case b0 of None \<Rightarrow> map_option (Pair (length tokens)) cached
             | Some x \<Rightarrow> matched_from (length tokens) (Some x))"
      using longest_match_node[of ?node rest b0] b0(2) unfolding radix.sel by simp
    moreover have "r = matched_from m (case b0 of None \<Rightarrow> map_option (Pair (length tokens)) cached
             | Some x \<Rightarrow> matched_from (length tokens) (Some x))"
      using b0(1) r by (cases b0; cases cached) (auto simp: matched_from_def)
    moreover have "entry_at node' = entry_at ?node"
      using deeper by (auto simp: node' entry_at_eq fun_eq_iff)
    ultimately show ?thesis using deeper node' q by auto
  qed
qed

section \<open>Insertion\<close>

lemma split_at_entries:
  assumes "pos < length (rx_tokens node)" and "radix_wf node"
  shows "entry_at (split_at pos node) = entry_at node" and "radix_wf (split_at pos node)"
    and "rx_tokens (split_at pos node) = take pos (rx_tokens node)"
proof -
  let ?t = "rx_tokens node"
  have t: "take pos ?t @ drop pos ?t = ?t" "drop pos ?t \<noteq> []" using assms(1) by auto
  show "entry_at (split_at pos node) = entry_at node"
  proof
    fix path
    let ?s = "Radix (drop pos ?t) (rx_children node) (rx_cached node) (rx_last_access node)"
    have low: "entry_at ?s rest = entry_at node (take pos ?t @ rest)" for rest
    proof -
      have "prefix ?t (take pos ?t @ rest) \<longleftrightarrow> prefix (drop pos ?t) rest"
        using same_prefix_prefix[of "take pos ?t" "drop pos ?t" rest] t(1) by simp
      moreover have "take pos ?t @ rest = ?t \<longleftrightarrow> rest = drop pos ?t"
        using same_append_eq[of "take pos ?t" rest "drop pos ?t"] t(1) by simp
      ultimately show ?thesis using assms(1) by (simp add: entry_at_eq[of ?s] entry_at_eq[of node])
    qed
    show "entry_at (split_at pos node) path = entry_at node path"
    proof (cases "prefix (take pos ?t) path")
      case True
      then obtain rest where path: "path = take pos ?t @ rest" by (auto simp: prefix_def)
      have "entry_at (split_at pos node) path = entry_at ?s rest"
      proof (cases "rest = []")
        case rest: False
        have "hd rest \<noteq> hd (drop pos ?t) \<Longrightarrow> entry_at ?s rest = None"
          using entry_at_hd[of ?s rest] t(2) by fastforce
        then show ?thesis
          using rest entry_at_below[of rest "split_at pos node"] path
          by (auto simp: split_at_def child_entry_def Let_def)
      qed (use path t(2) entry_at_self[of "split_at pos node"] in \<open>simp add: split_at_def Let_def\<close>)
      then show ?thesis by (simp add: low path)
    next
      case False
      then have "\<not> prefix ?t path" using take_is_prefix prefix_order.trans by blast
      then show ?thesis using False by (simp add: entry_at_not_prefix split_at_def Let_def)
    qed
  qed
  show "radix_wf (split_at pos node)"
    using assms by (cases node) (simp add: split_at_def Let_def)
  show "rx_tokens (split_at pos node) = take pos ?t" by (simp add: split_at_def Let_def)
qed

text \<open>A node reached on the way down shares its first token with what is left of the key.\<close>

definition on_way :: "radix \<Rightarrow> u32 list \<Rightarrow> bool" where
  "on_way node tokens \<longleftrightarrow> rx_tokens node = [] \<or> (tokens \<noteq> [] \<and> hd tokens = hd (rx_tokens node))"

lemma replace_cached_spec:
  assumes "replace_cached now kv node = (old, node')" and "radix_wf node"
  shows "old = entry_at node (rx_tokens node) \<and> entry_at node' = (entry_at node)(rx_tokens node \<mapsto> kv) \<and>
    radix_wf node' \<and> rx_tokens node' = rx_tokens node"
proof -
  have n': "old = rx_cached node" "node' = Radix (rx_tokens node) (rx_children node) (Some kv) now"
    using assms(1) by (simp_all add: replace_cached_def)
  have "entry_at node' = (entry_at node)(rx_tokens node \<mapsto> kv)"
    by (rule ext) (simp add: entry_at_eq n')
  moreover have "radix_wf node'" using radix_wf_same[OF assms(2)] by (simp add: n'(2))
  ultimately show ?thesis by (simp add: n'(1) entry_at_self) (simp add: n'(2))
qed

text \<open>Changing the child on the way changes the entries below it only.\<close>

lemma entry_at_change_child:
  assumes "rest \<noteq> []"
    and "\<And>p. p \<noteq> [] \<Longrightarrow> child_entry cs' p = (if p = rest then y else child_entry cs p)"
  shows "entry_at (Radix t cs' x a') = (entry_at (Radix t cs x a))(t @ rest := y)"
proof
  fix path
  show "entry_at (Radix t cs' x a') path = ((entry_at (Radix t cs x a))(t @ rest := y)) path"
  proof (cases "prefix t path \<and> path \<noteq> t")
    case True
    then obtain p where "path = t @ p" "p \<noteq> []" by (auto simp: prefix_def)
    then show ?thesis using assms by (simp add: entry_at_eq)
  next
    case False
    then show ?thesis using assms(1) by (auto simp: entry_at_eq)
  qed
qed

lemma radix_insert_spec:
  assumes "radix_wf node" and "on_way node tokens" and "radix_insert now tokens kv node = (old, node')"
  shows "old = entry_at node tokens \<and> entry_at node' = (entry_at node)(tokens \<mapsto> kv) \<and> radix_wf node' \<and>
    (if rx_tokens node = [] then rx_tokens node' = []
     else rx_tokens node' \<noteq> [] \<and> hd (rx_tokens node') = hd (rx_tokens node))"
  using assms
proof (induction now tokens kv node arbitrary: old node' rule: radix_insert.induct)
  case (1 now tokens kv node0)
  define common where "common = common_prefix_len (rx_tokens node0) tokens"
  define node where "node = (if common < length (rx_tokens node0) then split_at common node0 else node0)"
  have same: "entry_at node = entry_at node0" "radix_wf node"
    using split_at_entries[of common node0] "1.prems"(1) by (simp_all add: node_def)
  have toks: "rx_tokens node = take common (rx_tokens node0)"
    using split_at_entries(3)[of common node0] "1.prems"(1) by (simp add: node_def)
  have key: "tokens = rx_tokens node @ drop common tokens"
    using common_prefix_take[of "rx_tokens node0" tokens] toks
    by (metis append_take_drop_id common_def)
  have head: "if rx_tokens node0 = [] then rx_tokens node = [] else rx_tokens node \<noteq> [] \<and> hd (rx_tokens node) = hd (rx_tokens node0)"
    using "1.prems"(2) toks by (auto simp: on_way_def common_def neq_Nil_conv)
  have parts: "node = Radix (rx_tokens node) (rx_children node) (rx_cached node) (rx_last_access node)"
    by simp
  note insert = "1.prems"(3)[unfolded radix_insert.simps[of now tokens kv node0] Let_def,
      folded common_def, folded node_def]
  show ?case
  proof (cases "drop common tokens = []")
    case True
    then have old: "(old, node') = replace_cached now kv node" and t: "tokens = rx_tokens node"
      using "1.prems"(2,3) key head
      by (auto simp: radix_insert.simps[of now tokens] common_def node_def on_way_def Let_def)
    show ?thesis using replace_cached_spec[OF old[symmetric] same(2)] same head t by simp
  next
    case rest: False
    let ?rest = "drop common tokens"
    obtain child' where node': "node' = Radix (rx_tokens node) (AList.update (hd ?rest) child' (rx_children node))
          (rx_cached node) (rx_last_access node)"
      and child': "\<And>p. p \<noteq> [] \<Longrightarrow> hd p = hd ?rest \<Longrightarrow> entry_at child' p = (if p = ?rest then Some kv else child_entry (rx_children node) p)"
        "old = child_entry (rx_children node) ?rest"
        "rx_tokens child' \<noteq> []" "hd (rx_tokens child') = hd ?rest" "radix_wf child'"
    proof (cases "map_of (rx_children node) (hd ?rest)")
      case None
      let ?new = "Radix ?rest [] (Some kv) now"
      have "old = None" and "node' = Radix (rx_tokens node) (AList.update (hd ?rest) ?new (rx_children node))
          (rx_cached node) (rx_last_access node)"
        using insert rest None by (auto simp: replace_cached_def radix_new_def split: if_splits)
      then show ?thesis
        using that[of ?new] rest None by (simp add: entry_at_eq[of ?new] child_entry_def)
    next
      case (Some child)
      obtain child' where step: "(old, child') = (if rx_tokens child = ?rest then replace_cached now kv child
            else radix_insert now ?rest kv child)"
        and node': "node' = Radix (rx_tokens node) (AList.update (hd ?rest) child' (rx_children node))
          (rx_cached node) (rx_last_access node)"
        using insert rest Some by (auto split: if_splits prod.splits)
      note wf = radix_wf_child[OF same(2) Some]
      have "old = entry_at child ?rest \<and> entry_at child' = (entry_at child)(?rest \<mapsto> kv) \<and> radix_wf child' \<and>
          rx_tokens child' \<noteq> [] \<and> hd (rx_tokens child') = hd (rx_tokens child)"
      proof (cases "rx_tokens child = ?rest")
        case True
        then show ?thesis
          using step wf replace_cached_spec[of now kv child old child'] by simp
      next
        case False
        have "tokens \<noteq> []" using rest by auto
        moreover have "on_way child ?rest" using rest wf by (simp add: on_way_def)
        moreover have "radix_insert now ?rest kv child = (old, child')" using step False by simp
        ultimately show ?thesis
          using "1.IH"[OF _ common_def node_def refl rest Some False wf(3), of old child'] wf by (simp add: fun_upd_def)
      qed
      then show ?thesis
        using that[OF node'] wf Some by (simp add: child_entry_def)
    qed
    have "entry_at node' = (entry_at node)(rx_tokens node @ ?rest \<mapsto> kv)"
      unfolding node' by (subst (2) parts, rule entry_at_change_child[OF rest])
        (auto simp: child_entry_update child'(1))
    moreover have "radix_wf node'"
      unfolding node' by (intro radix_wf_update same(2) child'(3-))
    moreover have "old = entry_at node tokens"
      using entry_at_below[OF rest, of node] key child'(2) by simp
    ultimately show ?thesis using same key head node' by simp
  qed
qed

section \<open>The entries as a list\<close>

text \<open>Path, snapshot and access time of every node with a snapshot, in the order of the walk.\<close>

type_synonym entry = "u32 list \<times> cached_kv \<times> nat"

fun node_entries :: "radix \<Rightarrow> entry list" where
  "node_entries (Radix tokens children cached last_access) =
     (case cached of None \<Rightarrow> [] | Some kv \<Rightarrow> [(tokens, kv, last_access)]) @
     concat (map (\<lambda>child. map (apfst ((@) tokens)) (node_entries (snd child))) children)"

lemma count_entries_eq: "count_entries node = length (node_entries node)"
proof (induction node rule: radix_induct)
  case (Radix tokens children cached last_access)
  have "(\<Sum>child\<leftarrow>children. count_entries (snd child)) = (\<Sum>child\<leftarrow>children. length (node_entries (snd child)))"
    by (rule arg_cong[of _ _ sum_list], rule map_cong) (use Radix.IH in auto)
  then show ?case by (simp add: length_concat o_def split: option.split)
qed

definition entry_memory :: "entry \<Rightarrow> nat" where
  "entry_memory e = ck_memory_bytes (fst (snd e))"

lemma entry_memory_apfst [simp]: "entry_memory (apfst f e) = entry_memory e"
  by (cases e) (simp add: entry_memory_def)

lemma entry_memory_Pair [simp]: "entry_memory (path, kv, time) = ck_memory_bytes kv"
  by (simp add: entry_memory_def)

lemma sum_list_concat: "sum_list (concat xss) = sum_list (map sum_list xss)"
  by (induction xss) simp_all

lemma total_memory_eq: "total_memory node = sum_list (map entry_memory (node_entries node))"
proof (induction node rule: radix_induct)
  case (Radix tokens children cached last_access)
  have "(\<Sum>child\<leftarrow>children. total_memory (snd child)) =
      (\<Sum>child\<leftarrow>children. sum_list (map entry_memory (node_entries (snd child))))"
    by (rule arg_cong[of _ _ sum_list], rule map_cong) (use Radix.IH in auto)
  then show ?case
    by (simp add: map_concat sum_list_concat o_def split: option.split)
qed

lemma below_image [simp]: "(tokens @ p, e) \<in> apfst ((@) tokens) ` S \<longleftrightarrow> (p, e) \<in> S"
  by force

lemma node_entries_member:
  "(tokens @ p, kv, time) \<in> set (node_entries (Radix tokens children cached last_access)) \<longleftrightarrow>
     (p = [] \<and> cached = Some kv \<and> time = last_access) \<or>
     (\<exists>child\<in>set children. (p, kv, time) \<in> set (node_entries (snd child)))"
  by (auto split: option.splits)

lemma node_entries_prefix:
  assumes "(path, e) \<in> set (node_entries node)"
  shows "prefix (rx_tokens node) path"
  using assms by (cases node) (auto split: option.splits)

lemma node_entries_iff:
  assumes "radix_wf node"
  shows "entry_at node path = Some kv \<longleftrightarrow> (\<exists>time. (path, kv, time) \<in> set (node_entries node))"
  using assms
proof (induction node arbitrary: path rule: radix_induct)
  case (Radix tokens children cached last_access)
  let ?node = "Radix tokens children cached last_access"
  have sub: "child_entry children p = Some kv \<longleftrightarrow> (\<exists>child\<in>set children. \<exists>time. (p, kv, time) \<in> set (node_entries (snd child)))"
    if "p \<noteq> []" for p
  proof -
    have IH: "entry_at c p = Some kv \<longleftrightarrow> (\<exists>time. (p, kv, time) \<in> set (node_entries c))"
      if "(k, c) \<in> set children" for k c
      using Radix.IH[of k c] Radix.prems that by fastforce
    have key: "k = hd p" if "(k, c) \<in> set children" "entry_at c p = Some kv" for k c
      using Radix.prems that entry_at_hd[of c p kv] by fastforce
    have "map_of children k = Some c \<longleftrightarrow> (k, c) \<in> set children" for k c
      using Radix.prems by simp
    moreover have "child_entry children p = Some kv \<longleftrightarrow> (\<exists>c. map_of children (hd p) = Some c \<and> entry_at c p = Some kv)"
      by (simp add: child_entry_def split: option.split)
    ultimately have "child_entry children p = Some kv \<longleftrightarrow> (\<exists>k c. (k, c) \<in> set children \<and> entry_at c p = Some kv)"
      using key by metis
    also have "\<dots> \<longleftrightarrow> (\<exists>k c. (k, c) \<in> set children \<and> (\<exists>time. (p, kv, time) \<in> set (node_entries c)))"
      using IH by blast
    finally show ?thesis by (metis prod.collapse snd_conv)
  qed
  have empty: "([], kv, time) \<notin> set (node_entries (snd child))" if "child \<in> set children" for child time
    using Radix.IH[of "fst child" "snd child" "[]"] Radix.prems that by fastforce
  show ?case
  proof (cases "prefix tokens path")
    case True
    then obtain p where path: "path = tokens @ p" by (auto simp: prefix_def)
    show ?thesis
      using sub[of p] empty unfolding path node_entries_member
      by (cases "p = []") (auto simp: entry_at_eq)
  next
    case False
    then show ?thesis using node_entries_prefix[of path _ ?node] by (auto simp: entry_at_not_prefix)
  qed
qed

lemma node_entries_distinct:
  assumes "radix_wf node"
  shows "distinct (map fst (node_entries node))"
  using assms
proof (induction node rule: radix_induct)
  case (Radix tokens children cached last_access)
  have head: "p \<noteq> [] \<and> hd p = fst child"
    if "child \<in> set children" "p \<in> fst ` set (node_entries (snd child))" for child p
    using Radix.prems that node_entries_iff[of "snd child" p] entry_at_hd[of "snd child" p] by fastforce
  have "distinct (concat (map (\<lambda>child. map fst (node_entries (snd child))) cs))"
    if "set cs \<subseteq> set children" "distinct (map fst cs)" for cs
    using that
  proof (induction cs)
    case (Cons c cs)
    have "distinct (map fst (node_entries (snd c)))"
      using Radix.IH[of "fst c" "snd c"] Radix.prems Cons.prems by simp
    moreover have "set (map fst (node_entries (snd c))) \<inter>
        set (concat (map (\<lambda>child. map fst (node_entries (snd child))) cs)) = {}" (is "?A \<inter> ?B = {}")
    proof (rule ccontr)
      assume "?A \<inter> ?B \<noteq> {}"
      then obtain x d where x: "x \<in> fst ` set (node_entries (snd c))" "d \<in> set cs" "x \<in> fst ` set (node_entries (snd d))"
        by auto
      have "c \<in> set children" "d \<in> set children" using Cons.prems(1) x(2) by auto
      then have "fst c = fst d" using head x by metis
      then show False using Cons.prems(2) x(2) by simp
    qed
    ultimately show ?case using Cons by simp
  qed simp
  then have "distinct (concat (map (\<lambda>child. map fst (node_entries (snd child))) children))"
    using Radix.prems by simp
  then have "distinct (map ((@) tokens) (concat (map (\<lambda>child. map fst (node_entries (snd child))) children)))"
    by (simp add: distinct_map inj_on_def)
  moreover have "fst e \<noteq> []" if "child \<in> set children" "e \<in> set (node_entries (snd child))" for child e
    using head that by fastforce
  ultimately show ?case by (auto simp: map_concat o_def split: option.split)
qed

text \<open>How many entries a tree has and what they weigh, as numbers of the map it represents.\<close>

lemma dom_entry_at:
  assumes "radix_wf node"
  shows "dom (entry_at node) = set (map fst (node_entries node))"
  using node_entries_iff[OF assms] by (force simp: dom_def)

lemma finite_dom_entry_at [intro]: "radix_wf node \<Longrightarrow> finite (dom (entry_at node))"
  by (simp add: dom_entry_at)

lemma count_entries_card: "radix_wf node \<Longrightarrow> count_entries node = card (dom (entry_at node))"
  using distinct_card[OF node_entries_distinct] by (simp only: dom_entry_at count_entries_eq length_map)

lemma total_memory_sum:
  assumes "radix_wf node"
  shows "total_memory node = map_weight ck_memory_bytes (entry_at node)"
proof -
  have "entry_memory e = ck_memory_bytes (the (entry_at node (fst e)))" if "e \<in> set (node_entries node)" for e
  proof -
    obtain path kv time where "e = (path, kv, time)" by (cases e)
    then show ?thesis using that node_entries_iff[OF assms, of path kv] by auto
  qed
  then have "total_memory node = (\<Sum>path\<leftarrow>map fst (node_entries node). ck_memory_bytes (the (entry_at node path)))"
    unfolding total_memory_eq map_map by (intro arg_cong[of _ _ sum_list] map_cong) auto
  then show ?thesis
    using node_entries_distinct[OF assms]
    by (simp only: map_weight_def dom_entry_at[OF assms] sum_list_distinct_conv_sum_set)
qed

section \<open>Eviction\<close>

fun older :: "entry \<Rightarrow> candidate \<Rightarrow> candidate" where
  "older (path, kv, time) oldest =
     (case oldest of
        None \<Rightarrow> Some (time, path)
      | Some (oldest_time, p) \<Rightarrow> if time < oldest_time then Some (time, path) else oldest)"

lemma map_apfst_append: "map (apfst ((@) (a @ b))) xs = map (apfst ((@) a)) (map (apfst ((@) b)) xs)"
  by auto

lemma find_lru_fold:
  "find_lru_candidate pre node oldest = fold older (map (apfst ((@) pre)) (node_entries node)) oldest"
proof (induction node arbitrary: pre oldest rule: radix_induct)
  case (Radix tokens children cached last_access)
  have "fold (\<lambda>child. find_lru_candidate (pre @ tokens) (snd child)) cs oldest =
      fold older (map (apfst ((@) pre)) (concat (map (\<lambda>child. map (apfst ((@) tokens)) (node_entries (snd child))) cs))) oldest"
    if "set cs \<subseteq> set children" for cs oldest
    using that
  proof (induction cs arbitrary: oldest)
    case (Cons c cs)
    have "find_lru_candidate (pre @ tokens) (snd c) oldest =
        fold older (map (apfst ((@) pre)) (map (apfst ((@) tokens)) (node_entries (snd c)))) oldest"
      using Cons.prems Radix.IH[of "fst c" "snd c" "pre @ tokens" oldest]
      unfolding map_apfst_append by (simp del: map_map)
    then show ?case using Cons by (simp del: map_map)
  qed simp
  then show ?case by (auto simp: Let_def split: option.splits)
qed

lemma fold_older_spec:
  assumes "fold older es oldest = r"
  shows "case r of
           None \<Rightarrow> es = [] \<and> oldest = None
         | Some (time, path) \<Rightarrow>
             (oldest = r \<or> (\<exists>kv. (path, kv, time) \<in> set es)) \<and>
             (\<forall>(p, kv, t)\<in>set es. time \<le> t) \<and> (\<forall>p t. oldest = Some (t, p) \<longrightarrow> time \<le> t)"
  using assms
proof (induction es arbitrary: oldest)
  case Nil
  then show ?case by (auto split: option.splits)
next
  case (Cons e es)
  obtain path kv time where e: "e = (path, kv, time)" by (cases e)
  show ?case
    using Cons.IH[of "older e oldest"] Cons.prems
    by (cases oldest; cases r) (fastforce simp: e split: if_splits prod.splits)+
qed

lemma entry_at_empty_node:
  assumes "rx_cached node = None" and "rx_children node = []"
  shows "entry_at node = Map.empty"
  by (rule ext) (simp add: entry_at_eq assms child_entry_def)

lemma remove_cached_at_spec:
  assumes "radix_wf node" and "remove_cached_at path node = (freed, node')"
  shows "freed = map_option ck_memory_bytes (entry_at node path) \<and>
    entry_at node' = (entry_at node)(path := None) \<and> radix_wf node' \<and> rx_tokens node' = rx_tokens node"
  using assms
proof (induction path node arbitrary: freed node' rule: remove_cached_at.induct)
  case (1 path tokens children cached last_access)
  let ?node = "Radix tokens children cached last_access"
  have unchanged: ?case if "freed = None" "node' = ?node" "entry_at ?node path = None"
    unfolding that(1,2) using fun_upd_idem[of "entry_at ?node" path None] that(3) "1.prems"(1) by simp
  show ?case
  proof (cases "prefix tokens path")
    case False
    have "freed = None" "node' = ?node"
      using "1.prems"(2) False by (simp_all add: common_prefix_len_full)
    then show ?thesis by (rule unchanged) (use False in \<open>simp add: entry_at_not_prefix\<close>)
  next
    case True
    then obtain rest where path: "path = tokens @ rest" by (auto simp: prefix_def)
    show ?thesis
    proof (cases "rest = []")
      case True
      then have "freed = map_option ck_memory_bytes cached" "node' = Radix tokens children None last_access"
        using "1.prems"(2) path by (simp_all add: common_prefix_len_full Let_def)
      then show ?thesis
        using "1.prems"(1) path True by (auto simp: entry_at_eq fun_eq_iff)
    next
      case rest: False
      then obtain first rest' where r: "rest = first # rest'" by (cases rest) auto
      show ?thesis
      proof (cases "map_of children first")
        case None
        then have "entry_at ?node path = None"
          using entry_at_below[OF rest, of ?node] path r by (simp add: child_entry_def)
        moreover have "freed = None" "node' = ?node"
          using "1.prems"(2) path r None by (simp_all add: common_prefix_len_full Let_def)
        ultimately show ?thesis by (intro unchanged)
      next
        case (Some child)
        obtain child' where sub: "remove_cached_at rest child = (freed, child')"
          and node': "node' = Radix tokens
             (if rx_cached child' = None \<and> rx_children child' = [] then AList.delete first children
              else AList.update first child' children) cached last_access"
          using "1.prems"(2) path r Some by (auto simp: common_prefix_len_full Let_def split: prod.splits)
        have wf: "rx_tokens child \<noteq> []" "hd (rx_tokens child) = first" "radix_wf child"
          using radix_wf_child[of ?node first child] "1.prems"(1) Some by auto
        have IH: "freed = map_option ck_memory_bytes (entry_at child rest)"
          "entry_at child' = (entry_at child)(rest := None)" "radix_wf child'" "rx_tokens child' = rx_tokens child"
          using "1.IH"[OF refl, of first rest' child freed child'] path r Some sub wf(3) True
          by (auto simp: common_prefix_len_full)
        have entries: "entry_at node' = (entry_at ?node)(path := None)"
          unfolding node' path
        proof (rule entry_at_change_child[OF rest])
          fix p :: "u32 list"
          show "child_entry (if rx_cached child' = None \<and> rx_children child' = [] then AList.delete first children
                  else AList.update first child' children) p = (if p = rest then None else child_entry children p)"
            (is "?l = _")
          proof -
            have "?l = (if hd p = first then entry_at child' p else child_entry children p)"
              using entry_at_empty_node[of child'] by (simp add: child_entry_update child_entry_delete)
            moreover have "hd p = first \<Longrightarrow> child_entry children p = entry_at child p"
              using Some by (simp add: child_entry_def)
            ultimately show ?thesis using r by (auto simp: IH(2))
          qed
        qed
        have "radix_wf node'"
          using radix_wf_delete[OF "1.prems"(1)] radix_wf_update[OF "1.prems"(1), of child' first] wf IH(3,4)
          unfolding node' radix.sel by simp
        then show ?thesis
          using entries IH(1) entry_at_below[OF rest, of ?node] path r Some
          by (simp add: node' child_entry_def)
      qed
    qed
  qed
qed

text \<open>The evicted entry is the least recently used one; an empty tree is left as it is.\<close>

lemma evict_lru_one_spec:
  assumes "radix_wf node" and "evict_lru_one node = (freed, node')"
  shows "radix_wf node' \<and> rx_tokens node' = rx_tokens node \<and>
    (if freed = None then dom (entry_at node) = {} \<and> node' = node
     else \<exists>path kv time. (path, kv, time) \<in> set (node_entries node) \<and> entry_at node path = Some kv \<and>
       (\<forall>(p, kv', t)\<in>set (node_entries node). time \<le> t) \<and>
       freed = Some (ck_memory_bytes kv) \<and> entry_at node' = (entry_at node)(path := None))"
proof -
  have "apfst ((@) []) = (id :: entry \<Rightarrow> entry)" by auto
  then have "find_lru_candidate [] node None = fold older (node_entries node) None"
    by (simp add: find_lru_fold)
  note cand = fold_older_spec[OF this[symmetric]]
  show ?thesis
  proof (cases "find_lru_candidate [] node None")
    case None
    then show ?thesis
      using cand assms dom_entry_at[OF assms(1)] by (auto simp: evict_lru_one_def)
  next
    case (Some tp)
    then obtain time path kv where tp: "tp = (time, path)" and e: "(path, kv, time) \<in> set (node_entries node)"
      and oldest: "\<forall>(p, kv', t)\<in>set (node_entries node). time \<le> t"
      using cand by (cases tp) auto
    have at: "entry_at node path = Some kv" using node_entries_iff[OF assms(1)] e by blast
    have "remove_cached_at path node = (freed, node')" using assms(2) Some tp by (simp add: evict_lru_one_def)
    then show ?thesis
      using remove_cached_at_spec[OF assms(1), of path freed node'] at e oldest by auto
  qed
qed

lemma clear_all_spec: "radix_wf (clear_all node) \<and> entry_at (clear_all node) = Map.empty"
  by (simp add: clear_all_def entry_at_empty_node)

lemma radix_new_spec: "radix_wf (radix_new now tokens) \<and> entry_at (radix_new now tokens) = Map.empty"
  by (simp add: radix_new_def entry_at_empty_node)

section \<open>The tree as an entry store\<close>

definition radix_ok :: "radix \<Rightarrow> bool" where
  "radix_ok root \<longleftrightarrow> radix_wf root \<and> rx_tokens root = []"

interpretation rx: entry_store radix_ok entry_at ck_memory_bytes "\<lambda>path kv root. radix_insert now path kv root"
    evict_lru_one for now :: nat
proof unfold_locales
  fix s s' :: radix and k :: "u32 list" and v :: cached_kv and old freed
  assume "radix_ok s"
  then have ok: "radix_wf s" "rx_tokens s = []" by (simp_all add: radix_ok_def)
  show "finite (dom (entry_at s))" by (rule finite_dom_entry_at[OF ok(1)])
  show "radix_ok s' \<and> old = entry_at s k \<and> entry_at s' = (entry_at s)(k \<mapsto> v)"
    if "radix_insert now k v s = (old, s')"
    using radix_insert_spec[OF ok(1) _ that] ok(2) by (simp add: radix_ok_def on_way_def)
  show "radix_ok s' \<and> (\<exists>k v. entry_at s k = Some v \<and> freed = ck_memory_bytes v \<and> entry_at s' = (entry_at s)(k := None))"
    if "evict_lru_one s = (Some freed, s')"
    using evict_lru_one_spec[OF ok(1) that] ok(2) by (auto simp: radix_ok_def)
  show "s' = s \<and> entry_at s = Map.empty" if "evict_lru_one s = (None, s')"
    using evict_lru_one_spec[OF ok(1) that] by simp
qed

end
