(* ===== verification/Prefix_Cache.thy ===== *)
theory Prefix_Cache
  imports Prefix_Entries Kv_Contig
begin

text \<open>
  The prefix KV cache of \<open>crates/oxillama-runtime/src/kv_cache/prefix.rs\<close> on top of its radix tree,
  with the row access of \<open>crates/oxillama-arch/src/common/kv_view.rs\<close> it snapshots through. The two
  loops of the source are modelled as they run: the eviction loop is a \<open>partial_function\<close>, so that
  its termination is a theorem. The log output is not modelled.
\<close>

section \<open>Reading a live cache\<close>

text \<open>\<open>gather_capacity\<close> is a reservation; the reads are given by the cache's own methods.\<close>

definition fetch_rows ::
    "(nat \<Rightarrow> row kv_result) \<Rightarrow> (nat \<Rightarrow> (nat \<times> row) list kv_result) \<Rightarrow> nat \<Rightarrow> row kv_result" where
  "fetch_rows get for_each layer =
     (case get layer of
        Inr rows \<Rightarrow> Inr rows
      | Inl borrow_err \<Rightarrow>
          (case for_each layer of
             Inr visited \<Rightarrow> Inr (concat (map snd visited))
           | Inl _ \<Rightarrow> Inl borrow_err))"

definition fetch_keys :: "f16_conv \<Rightarrow> kv_cache \<Rightarrow> nat \<Rightarrow> row kv_result" where
  "fetch_keys fc c = fetch_rows (kv_get_keys c) (kv_for_each_key fc c)"

definition fetch_values :: "f16_conv \<Rightarrow> kv_cache \<Rightarrow> nat \<Rightarrow> row kv_result" where
  "fetch_values fc c = fetch_rows (kv_get_values c) (kv_for_each_value fc c)"

section \<open>The cache\<close>

record prefix_config =
  pc_max_entries :: nat
  pc_max_memory_bytes :: nat
  pc_min_prefix_len :: nat

definition prefix_config_default :: prefix_config where
  "prefix_config_default =
     \<lparr>pc_max_entries = 256, pc_max_memory_bytes = 512 * 1024 * 1024, pc_min_prefix_len = 4\<rparr>"

record prefix_cache =
  px_root :: radix
  px_config :: prefix_config
  px_hit_count :: u64
  px_miss_count :: u64
  px_entry_count :: nat
  px_memory_bytes :: nat

definition prefix_new :: "nat \<Rightarrow> prefix_config \<Rightarrow> prefix_cache" where
  "prefix_new now config =
     \<lparr>px_root = radix_new now [], px_config = config, px_hit_count = 0, px_miss_count = 0,
      px_entry_count = 0, px_memory_bytes = 0\<rparr>"

definition count_miss :: "prefix_cache \<Rightarrow> prefix_cache" where
  "count_miss c = c\<lparr>px_miss_count := px_miss_count c + 1\<rparr>"

definition prefix_lookup :: "nat \<Rightarrow> u32 list \<Rightarrow> prefix_cache \<Rightarrow> (nat \<times> cached_kv) option \<times> prefix_cache" where
  "prefix_lookup now tokens c =
     (if tokens = [] then (None, count_miss c)
      else let (result, root) = radix_lookup now tokens 0 (px_root c);
               c = c\<lparr>px_root := root\<rparr>
           in case result of
                Some (matched, kv) \<Rightarrow>
                  if matched \<ge> pc_min_prefix_len (px_config c)
                  then (Some (matched, kv), c\<lparr>px_hit_count := px_hit_count c + 1\<rparr>)
                  else (None, count_miss c)
              | None \<Rightarrow> (None, count_miss c))"

definition over_limit :: "prefix_cache \<Rightarrow> bool" where
  "over_limit c \<longleftrightarrow> px_entry_count c > pc_max_entries (px_config c) \<or>
     px_memory_bytes c > pc_max_memory_bytes (px_config c)"

partial_function (option) evict_lru :: "prefix_cache \<Rightarrow> prefix_cache option" where
  "evict_lru c =
     (if over_limit c then
        case evict_lru_one (px_root c) of
          (Some freed, root) \<Rightarrow>
            evict_lru (c\<lparr>px_root := root, px_entry_count := px_entry_count c - 1,
                         px_memory_bytes := px_memory_bytes c - freed\<rparr>)
        | (None, root) \<Rightarrow> Some (c\<lparr>px_root := root\<rparr>)
      else Some c)"

definition insert_entry :: "nat \<Rightarrow> u32 list \<Rightarrow> cached_kv \<Rightarrow> prefix_cache \<Rightarrow> prefix_cache option" where
  "insert_entry now tokens snapshot c =
     (let added = ck_memory_bytes snapshot;
          (old, root) = radix_insert now tokens snapshot (px_root c);
          c = c\<lparr>px_root := root\<rparr>
      in evict_lru
           (case old of
              Some replaced \<Rightarrow>
                c\<lparr>px_memory_bytes := px_memory_bytes c + added - ck_memory_bytes replaced\<rparr>
            | None \<Rightarrow>
                c\<lparr>px_entry_count := px_entry_count c + 1, px_memory_bytes := px_memory_bytes c + added\<rparr>))"

text \<open>The loop over the layers; \<open>None\<close> is a refusal.\<close>

fun snapshot_layers ::
    "(nat \<Rightarrow> row kv_result) \<Rightarrow> (nat \<Rightarrow> row kv_result) \<Rightarrow> nat \<Rightarrow> nat list \<Rightarrow> (row list \<times> row list) option" where
  "snapshot_layers fk fv end_pos [] = Some ([], [])"
| "snapshot_layers fk fv end_pos (layer # layers) =
     (case (fk layer, fv layer) of
        (Inr k, Inr v) \<Rightarrow>
          if length k < end_pos \<or> length v < end_pos then None
          else (case snapshot_layers fk fv end_pos layers of
                  None \<Rightarrow> None
                | Some (ks, vs) \<Rightarrow> Some (take end_pos k # ks, take end_pos v # vs))
      | _ \<Rightarrow> None)"

definition prefix_store ::
    "nat \<Rightarrow> u32 list \<Rightarrow> (nat \<Rightarrow> row kv_result) \<Rightarrow> (nat \<Rightarrow> row kv_result) \<Rightarrow> nat \<Rightarrow> nat \<Rightarrow> nat \<Rightarrow>
     prefix_cache \<Rightarrow> (bool \<times> prefix_cache) option" where
  "prefix_store now tokens fk fv seq_len kv_dim num_layers c =
     (if length tokens < pc_min_prefix_len (px_config c) then Some (False, c)
      else if seq_len < length tokens then Some (False, c)
      else let store_len = length tokens;
               end_pos = store_len * kv_dim
           in case snapshot_layers fk fv end_pos [0..<num_layers] of
                None \<Rightarrow> Some (False, c)
              | Some (ks, vs) \<Rightarrow>
                  map_option (Pair True) (insert_entry now tokens (cached_kv_new ks vs store_len) c))"

definition store_snapshot ::
    "nat \<Rightarrow> u32 list \<Rightarrow> cached_kv \<Rightarrow> prefix_cache \<Rightarrow> (bool \<times> prefix_cache) option" where
  "store_snapshot now tokens snapshot c =
     (if length tokens < pc_min_prefix_len (px_config c) then Some (False, c)
      else if ck_seq_len snapshot \<noteq> length tokens then Some (False, c)
      else map_option (Pair True) (insert_entry now tokens snapshot c))"

definition prefix_restore :: "f16_conv \<Rightarrow> cached_kv \<Rightarrow> kv_cache \<Rightarrow> kv_cache kv_result" where
  "prefix_restore fc cached target =
     kv_restore_from_snapshot fc (ck_keys cached) (ck_values cached) (ck_seq_len cached) target"

definition prefix_clear :: "prefix_cache \<Rightarrow> prefix_cache" where
  "prefix_clear c =
     c\<lparr>px_root := clear_all (px_root c), px_hit_count := 0, px_miss_count := 0,
       px_entry_count := 0, px_memory_bytes := 0\<rparr>"

definition prefix_len :: "prefix_cache \<Rightarrow> nat" where
  "prefix_len c = px_entry_count c"

definition prefix_is_empty :: "prefix_cache \<Rightarrow> bool" where
  "prefix_is_empty c \<longleftrightarrow> px_entry_count c = 0"

section \<open>Invariant\<close>

abbreviation entries_of :: "prefix_cache \<Rightarrow> u32 list \<Rightarrow> cached_kv option" where
  "entries_of c \<equiv> entry_at (px_root c)"

text \<open>
  The counters are those of the entries (which the source checks in its own tests by walking the
  tree), and every entry covers its key exactly and is long enough to be worth keeping.
\<close>

definition prefix_inv :: "prefix_cache \<Rightarrow> bool" where
  "prefix_inv c \<longleftrightarrow>
     rx.tracked (px_root c) (px_entry_count c) (px_memory_bytes c) \<and>
     (\<forall>path kv. entries_of c path = Some kv \<longrightarrow>
        ck_seq_len kv = length path \<and> pc_min_prefix_len (px_config c) \<le> length path)"

lemma prefix_inv_counts:
  assumes "prefix_inv c"
  shows "px_entry_count c = count_entries (px_root c)" and "px_memory_bytes c = total_memory (px_root c)"
  using assms count_entries_card[of "px_root c"] total_memory_sum[of "px_root c"]
  by (simp_all add: prefix_inv_def rx.tracked_def radix_ok_def)

lemma prefix_new_inv: "prefix_inv (prefix_new now config)"
  using radix_new_spec[of now "[]"]
  by (simp add: prefix_inv_def rx.tracked_def prefix_new_def radix_ok_def radix_new_def)

lemma prefix_clear_inv: "prefix_inv c \<Longrightarrow> prefix_inv (prefix_clear c)"
  using clear_all_spec[of "px_root c"]
  by (simp add: prefix_inv_def rx.tracked_def prefix_clear_def radix_ok_def clear_all_def)

text \<open>The eviction loop returns, within the limits, having dropped entries only.\<close>

lemma evict_lru_spec:
  assumes "rx.tracked (px_root c) (px_entry_count c) (px_memory_bytes c)"
  shows "\<exists>c'. evict_lru c = Some c' \<and>
    rx.tracked (px_root c') (px_entry_count c') (px_memory_bytes c') \<and> \<not> over_limit c' \<and>
    entries_of c' \<subseteq>\<^sub>m entries_of c \<and> px_config c' = px_config c \<and>
    px_hit_count c' = px_hit_count c \<and> px_miss_count c' = px_miss_count c"
  using assms
proof (induction "px_entry_count c" arbitrary: c rule: less_induct)
  case less
  show ?case
  proof (cases "over_limit c")
    case False
    then show ?thesis using less.prems by (simp add: evict_lru.simps[of c])
  next
    case over: True
    obtain freed root where e: "evict_lru_one (px_root c) = (freed, root)" by fastforce
    show ?thesis
    proof (cases freed)
      case None
      then have "px_entry_count c = 0 \<and> px_memory_bytes c = 0"
        using rx.tracked_nothing[OF less.prems] e by simp
      then show ?thesis using over by (simp add: over_limit_def)
    next
      case (Some f)
      let ?c = "c\<lparr>px_root := root, px_entry_count := px_entry_count c - 1, px_memory_bytes := px_memory_bytes c - f\<rparr>"
      have t: "0 < px_entry_count c" "rx.tracked (px_root ?c) (px_entry_count ?c) (px_memory_bytes ?c)"
        using rx.tracked_evict[OF less.prems] e Some by simp_all
      have "entry_at root \<subseteq>\<^sub>m entries_of c"
        using rx.evict_entry[of "px_root c" f root] less.prems e Some
        by (auto simp: rx.tracked_def map_le_def split: if_splits)
      moreover have "evict_lru c = evict_lru ?c"
        using over e Some by (simp add: evict_lru.simps[of c])
      ultimately show ?thesis
        using less.hyps[OF _ t(2)] t(1) map_le_trans[of _ "entry_at root" "entries_of c"] by auto
    qed
  qed
qed

lemma insert_entry_spec:
  assumes "prefix_inv c" and "ck_seq_len kv = length tokens" and "pc_min_prefix_len (px_config c) \<le> length tokens"
  shows "\<exists>c'. insert_entry now tokens kv c = Some c' \<and> prefix_inv c' \<and> \<not> over_limit c' \<and>
    entries_of c' \<subseteq>\<^sub>m (entries_of c)(tokens \<mapsto> kv) \<and> px_config c' = px_config c \<and>
    px_hit_count c' = px_hit_count c \<and> px_miss_count c' = px_miss_count c \<and>
    (card (dom ((entries_of c)(tokens \<mapsto> kv))) \<le> pc_max_entries (px_config c) \<and>
     map_weight ck_memory_bytes ((entries_of c)(tokens \<mapsto> kv)) \<le> pc_max_memory_bytes (px_config c) \<longrightarrow>
     entries_of c' = (entries_of c)(tokens \<mapsto> kv))"
proof -
  obtain old root where ins: "radix_insert now tokens kv (px_root c) = (old, root)" by fastforce
  have tr: "rx.tracked (px_root c) (px_entry_count c) (px_memory_bytes c)" and ok: "radix_ok (px_root c)"
    using assms(1) by (simp_all add: prefix_inv_def rx.tracked_def)
  define c1 where "c1 = (case old of
      Some replaced \<Rightarrow> c\<lparr>px_root := root, px_memory_bytes := px_memory_bytes c + ck_memory_bytes kv - ck_memory_bytes replaced\<rparr>
    | None \<Rightarrow> c\<lparr>px_root := root, px_entry_count := px_entry_count c + 1, px_memory_bytes := px_memory_bytes c + ck_memory_bytes kv\<rparr>)"
  have run: "insert_entry now tokens kv c = evict_lru c1"
    by (cases old) (simp_all add: insert_entry_def ins c1_def)
  have c1: "rx.tracked (px_root c1) (px_entry_count c1) (px_memory_bytes c1)" "px_root c1 = root"
    "px_config c1 = px_config c" "px_hit_count c1 = px_hit_count c" "px_miss_count c1 = px_miss_count c"
    using rx.tracked_put[OF tr ins] by (cases old; simp add: c1_def)+
  have root: "entry_at root = (entries_of c)(tokens \<mapsto> kv)" using rx.put_entry[OF ok ins] by simp
  obtain c' where c': "evict_lru c1 = Some c'" "rx.tracked (px_root c') (px_entry_count c') (px_memory_bytes c')"
    "\<not> over_limit c'" "entries_of c' \<subseteq>\<^sub>m entries_of c1" "px_config c' = px_config c1"
    "px_hit_count c' = px_hit_count c1" "px_miss_count c' = px_miss_count c1"
    using evict_lru_spec[OF c1(1)] by blast
  have "ck_seq_len v = length p \<and> pc_min_prefix_len (px_config c) \<le> length p" if "entries_of c' p = Some v" for p v
  proof -
    have "((entries_of c)(tokens \<mapsto> kv)) p = Some v"
      using that c'(4) c1(2) root by (auto simp: map_le_def domI dest!: bspec[of _ _ p])
    then show ?thesis using assms by (auto simp: prefix_inv_def split: if_splits)
  qed
  moreover have "entries_of c' = (entries_of c)(tokens \<mapsto> kv)"
    if "card (dom ((entries_of c)(tokens \<mapsto> kv))) \<le> pc_max_entries (px_config c)"
       "map_weight ck_memory_bytes ((entries_of c)(tokens \<mapsto> kv)) \<le> pc_max_memory_bytes (px_config c)"
  proof -
    have "\<not> over_limit c1" using that c1 root by (simp add: over_limit_def rx.tracked_def)
    then show ?thesis using c'(1) c1(2) root by (simp add: evict_lru.simps[of c1])
  qed
  ultimately show ?thesis using run c' c1 root by (intro exI[of _ c']) (simp add: prefix_inv_def)
qed

lemma insert_entry_fits:
  assumes "prefix_inv c" and "px_entry_count c < pc_max_entries (px_config c)"
    and "px_memory_bytes c + ck_memory_bytes kv \<le> pc_max_memory_bytes (px_config c)"
  shows "card (dom ((entries_of c)(tokens \<mapsto> kv))) \<le> pc_max_entries (px_config c)"
    and "map_weight ck_memory_bytes ((entries_of c)(tokens \<mapsto> kv)) \<le> pc_max_memory_bytes (px_config c)"
  using assms map_weight_update[of "entries_of c" ck_memory_bytes tokens kv] rx.finite_entries[of "px_root c"]
  by (auto simp: prefix_inv_def rx.tracked_def card_insert_if)

text \<open>A stored key is found again.\<close>

lemma longest_match_exact:
  assumes "longest_match f tokens r" and "f tokens = Some kv"
  shows "r = Some (length tokens, kv)"
proof (cases r)
  case None
  then show ?thesis using assms by (auto simp: longest_match_def dest: spec[of _ "length tokens"])
next
  case (Some m)
  obtain n v where m: "m = (n, v)" by (cases m)
  have "n = length tokens"
    using assms Some m by (auto simp: longest_match_def dest!: spec[of _ "length tokens"])
  then show ?thesis using assms Some m by (simp add: longest_match_def)
qed

lemma prefix_lookup_spec:
  assumes "prefix_inv c" and "prefix_lookup now tokens c = (r, c')"
  shows "prefix_inv c' \<and> entries_of c' = entries_of c \<and> px_config c' = px_config c \<and>
    (tokens \<noteq> [] \<longrightarrow> longest_match (entries_of c) tokens r) \<and> (tokens = [] \<longrightarrow> r = None) \<and>
    (if r = None then px_hit_count c' = px_hit_count c \<and> px_miss_count c' = px_miss_count c + 1
     else px_hit_count c' = px_hit_count c + 1 \<and> px_miss_count c' = px_miss_count c)"
proof (cases "tokens = []")
  case True
  then show ?thesis using assms by (auto simp: prefix_lookup_def count_miss_def prefix_inv_def)
next
  case False
  obtain result root where look: "radix_lookup now tokens 0 (px_root c) = (result, root)" by fastforce
  have tr: "rx.tracked (px_root c) (px_entry_count c) (px_memory_bytes c)"
    and wf: "radix_wf (px_root c)" "rx_tokens (px_root c) = []"
    using assms(1) by (simp_all add: prefix_inv_def rx.tracked_def radix_ok_def)
  note sp = radix_lookup_spec[OF wf(1) look]
  have long: "longest_match (entries_of c) tokens result" using sp by auto
  have inv: "prefix_inv (c\<lparr>px_root := root\<rparr>)"
    using sp assms(1) wf by (simp add: prefix_inv_def rx.tracked_def radix_ok_def)
  have long_enough: "pc_min_prefix_len (px_config c) \<le> n" if "result = Some (n, kv)" for n kv
    using that long assms(1) by (force simp: longest_match_def prefix_inv_def)
  show ?thesis
    using assms(2) False look sp long inv long_enough
    by (cases result) (auto simp: prefix_lookup_def count_miss_def prefix_inv_def)
qed

lemma prefix_store_cases:
  "prefix_store now tokens fk fv seq_len kv_dim num_layers c = Some (False, c) \<or>
   (\<exists>kv. ck_seq_len kv = length tokens \<and> pc_min_prefix_len (px_config c) \<le> length tokens \<and>
      prefix_store now tokens fk fv seq_len kv_dim num_layers c =
        map_option (Pair True) (insert_entry now tokens kv c))"
proof (cases "snapshot_layers fk fv (length tokens * kv_dim) [0..<num_layers]")
  case (Some layers)
  then show ?thesis
    by (cases layers) (auto simp: prefix_store_def Let_def cached_kv_new_def not_less intro!: exI)
qed (simp add: prefix_store_def Let_def)

section \<open>Snapshots of a live cache\<close>

lemma concat_rows: "concat (map (\<lambda>p. take d (drop (p * d) xs)) [0..<n]) = take (n * d) xs"
proof (induction n)
  case (Suc n)
  have "take (n * d + d) xs = take (n * d) xs @ take d (drop (n * d) xs)" by (rule take_add)
  then show ?case using Suc by (simp add: add.commute)
qed simp

text \<open>Both access paths of \<open>fetch_keys\<close> give the stored rows, whatever the element type.\<close>

lemma fetch_rows_copy:
  assumes inv: "kv_inv c" and sel: "is_side sel" and l: "l < kc_num_layers c"
    and n: "kc_stored_len c \<le> kc_capacity_tokens c"
  shows "fetch_rows (kv_get sel c) (kv_for_each_row fc sel c) l = kv_copy fc sel c l"
proof -
  note sb = side_buf[OF inv sel l]
  have copy: "kv_copy fc sel c l = Inr (take (kc_stored_len c * kc_kv_dim c) (elems fc (sel c ! l)))"
    using l sb by (simp add: kv_copy_def buf_copy_eq)
  show ?thesis
  proof (cases "kc_dtype c = DtF32")
    case True
    then show ?thesis using copy sb l by (simp add: fetch_rows_def kv_get_def buf_prefix_eq[where fc = fc])
  next
    case False
    then have borrow: "kv_get sel c l = Inl (CannotBorrow l)"
      using sb l by (simp add: kv_get_def buf_prefix_eq[where fc = fc])
    show ?thesis
    proof (cases "kc_kv_dim c = 0")
      case True
      then show ?thesis using borrow copy l by (simp add: fetch_rows_def kv_for_each_row_def)
    next
      case False
      have "\<forall>p < kc_stored_len c. kv_backed c l p" using l n by (simp add: kv_backed_def)
      then show ?thesis
        using kv_for_each_row_eq[OF inv sel l, where fc = fc] False concat_rows borrow copy
        by (simp add: fetch_rows_def o_def kv_row_def)
    qed
  qed
qed

lemma live_rows:
  assumes "kv_inv c" and "l < kc_num_layers c" and "kc_stored_len c \<le> kc_capacity_tokens c"
    and "n \<le> kc_stored_len c"
  shows "fetch_keys fc c l = kv_copy_keys_into fc c l \<and> fetch_values fc c l = kv_copy_values_into fc c l \<and>
    (\<exists>k. kv_copy_keys_into fc c l = Inr k \<and> n * kc_kv_dim c \<le> length k) \<and>
    (\<exists>v. kv_copy_values_into fc c l = Inr v \<and> n * kc_kv_dim c \<le> length v)"
proof -
  have "fetch_keys fc c l = kv_copy_keys_into fc c l \<and> fetch_values fc c l = kv_copy_values_into fc c l"
    using fetch_rows_copy[OF assms(1) sides(1) assms(2,3), of fc] fetch_rows_copy[OF assms(1) sides(2) assms(2,3), of fc]
    by (simp add: fetch_keys_def fetch_values_def kv_get_keys_def kv_get_values_def kv_for_each_key_def
        kv_for_each_value_def kv_copy_keys_into_def kv_copy_values_into_def)
  moreover have "n * kc_kv_dim c \<le> kc_stored_len c * kc_kv_dim c"
    and "kc_stored_len c * kc_kv_dim c \<le> kc_capacity_tokens c * kc_kv_dim c"
    using assms(3,4) by simp_all
  ultimately show ?thesis
    using side_buf[OF assms(1) sides(1) assms(2)] side_buf[OF assms(1) sides(2) assms(2)] assms(2)
    by (simp add: kv_copy_keys_into_def kv_copy_values_into_def kv_copy_def buf_copy_eq)
qed

lemma cached_kv_new_memory:
  assumes "\<forall>row\<in>set (ks @ vs). length row = m"
  shows "ck_memory_bytes (cached_kv_new ks vs n) = 4 * ((length ks + length vs) * m)"
proof -
  have "map length (ks @ vs) = replicate (length (ks @ vs)) m"
    using assms by (intro nth_equalityI) (simp_all only: length_map length_replicate nth_map nth_replicate nth_mem)
  then show ?thesis by (simp add: cached_kv_new_def sum_list_replicate flip: map_append)
qed

lemma snapshot_layers_spec:
  assumes "\<forall>l\<in>set ls. \<exists>k v. fk l = Inr k \<and> fv l = Inr v \<and> n \<le> length k \<and> n \<le> length v"
  shows "snapshot_layers fk fv n ls =
    Some (map (\<lambda>l. take n (projr (fk l))) ls, map (\<lambda>l. take n (projr (fv l))) ls)"
  using assms by (induction ls) (auto split: option.splits)

text \<open>The snapshot a store of the first \<open>n\<close> positions of a live cache takes.\<close>

definition live_kv :: "f16_conv \<Rightarrow> kv_cache \<Rightarrow> nat \<Rightarrow> cached_kv" where
  "live_kv fc live n =
     cached_kv_new
       (map (\<lambda>l. take (n * kc_kv_dim live) (projr (kv_copy_keys_into fc live l))) [0..<kc_num_layers live])
       (map (\<lambda>l. take (n * kc_kv_dim live) (projr (kv_copy_values_into fc live l))) [0..<kc_num_layers live]) n"

lemma live_kv_rows:
  assumes "kv_inv live" and "kc_stored_len live \<le> kc_capacity_tokens live" and "n \<le> kc_seq_len live"
    and "l < kc_num_layers live"
  shows "n * kc_kv_dim live \<le> length (projr (kv_copy_keys_into fc live l))"
    and "n * kc_kv_dim live \<le> length (projr (kv_copy_values_into fc live l))"
    and "fetch_keys fc live l = Inr (projr (kv_copy_keys_into fc live l))"
    and "fetch_values fc live l = Inr (projr (kv_copy_values_into fc live l))"
  using live_rows[OF assms(1,4,2), of n fc] assms(1,3) by (auto simp: kv_inv_def)

lemma live_kv_memory:
  assumes "kv_inv live" and "kc_stored_len live \<le> kc_capacity_tokens live" and "n \<le> kc_seq_len live"
  shows "ck_memory_bytes (live_kv fc live n) = 8 * (kc_num_layers live * (n * kc_kv_dim live))"
  unfolding live_kv_def
  by (subst cached_kv_new_memory[where m = "n * kc_kv_dim live"]) (use live_kv_rows[OF assms] in auto)

lemma live_store:
  assumes "kv_inv live" and "kc_stored_len live \<le> kc_capacity_tokens live" and "length tokens \<le> kc_seq_len live"
    and "pc_min_prefix_len (px_config c) \<le> length tokens"
  shows "prefix_store now tokens (fetch_keys fc live) (fetch_values fc live) (kc_seq_len live) (kc_kv_dim live)
      (kc_num_layers live) c = map_option (Pair True) (insert_entry now tokens (live_kv fc live (length tokens)) c)"
proof -
  have "snapshot_layers (fetch_keys fc live) (fetch_values fc live) (length tokens * kc_kv_dim live) [0..<kc_num_layers live] =
    Some (ck_keys (live_kv fc live (length tokens)), ck_values (live_kv fc live (length tokens)))"
    by (subst snapshot_layers_spec) (use live_kv_rows[OF assms(1-3), of _ fc] in \<open>auto simp: live_kv_def cached_kv_new_def\<close>)
  then show ?thesis
    using assms(3,4) by (simp add: prefix_store_def Let_def live_kv_def cached_kv_new_def)
qed

lemma live_restore:
  assumes "kv_inv live" and "kc_stored_len live \<le> kc_capacity_tokens live" and "n \<le> kc_seq_len live"
    and "kv_inv target" and "n \<le> kc_max_seq_len target"
    and "kc_num_layers target = kc_num_layers live" and "kc_kv_dim target = kc_kv_dim live"
  shows "\<exists>target'. prefix_restore fc (live_kv fc live n) target = Inr target' \<and> kc_seq_len target' = n \<and>
    (\<forall>l < kc_num_layers live.
      kv_copy_keys_into fc target' l = Inr (map (enc_of fc (kc_dtype target))
        (take (n * kc_kv_dim live) (projr (kv_copy_keys_into fc live l)))) \<and>
      kv_copy_values_into fc target' l = Inr (map (enc_of fc (kc_dtype target))
        (take (n * kc_kv_dim live) (projr (kv_copy_values_into fc live l)))))"
  using kv_restore_holds[OF assms(4,5), of "ck_keys (live_kv fc live n)" "ck_values (live_kv fc live n)" fc]
    live_kv_rows(1,2)[OF assms(1-3), of _ fc] assms(6,7)
  by (auto simp: prefix_restore_def live_kv_def cached_kv_new_def)

end
