(* ===== verification/Prefix_Properties.thy ===== *)
theory Prefix_Properties
  imports Prefix_Cache
begin

text \<open>
  What the prefix cache promises its callers: a lookup finds the longest stored prefix, a store
  ends within the limits with exact counters, eviction takes the least recently used entry, and
  the keys and values of a prefix come back as they were cached.
\<close>

section \<open>A small cache for the witnesses\<close>

definition tiny_config :: prefix_config where
  "tiny_config = \<lparr>pc_max_entries = 2, pc_max_memory_bytes = 64, pc_min_prefix_len = 1\<rparr>"

definition tiny_kv :: "u32 \<Rightarrow> nat \<Rightarrow> cached_kv" where
  "tiny_kv x n = cached_kv_new [replicate n x] [replicate n x] n"

definition tiny_cache :: prefix_cache where
  "tiny_cache = the (insert_entry 2 [1, 2, 3] (tiny_kv 8 3) (the (insert_entry 1 [1, 2] (tiny_kv 7 2)
     (prefix_new 0 tiny_config))))"

lemma tiny_inv: "prefix_inv tiny_cache"
proof -
  have "ck_seq_len (tiny_kv x n) = n" for x n by (simp add: tiny_kv_def cached_kv_new_def)
  moreover obtain c1 where c1: "insert_entry 1 [1, 2] (tiny_kv 7 2) (prefix_new 0 tiny_config) = Some c1"
      "prefix_inv c1" "px_config c1 = tiny_config"
    using insert_entry_spec[OF prefix_new_inv, of "tiny_kv 7 2" "[1, 2]" 0 tiny_config 1] calculation
    by (auto simp: prefix_new_def tiny_config_def)
  ultimately show ?thesis
    using insert_entry_spec[OF c1(2), of "tiny_kv 8 3" "[1, 2, 3]" 2]
    by (auto simp: tiny_cache_def tiny_config_def)
qed

lemmas prefix_eval = insert_entry_def prefix_new_def radix_new_def radix_insert.simps replace_cached_def
  evict_lru.simps over_limit_def tiny_config_def tiny_kv_def cached_kv_new_def

lemma tiny_cache_eq:
  "tiny_cache =
     \<lparr>px_root = Radix [] [(1, Radix [1, 2] [(3, Radix [3] [] (Some (tiny_kv 8 3)) 2)] (Some (tiny_kv 7 2)) 1)] None 0,
      px_config = tiny_config, px_hit_count = 0, px_miss_count = 0, px_entry_count = 2, px_memory_bytes = 40\<rparr>"
  by (simp add: tiny_cache_def prefix_eval)

section \<open>Lookup\<close>

text \<open>C5: The radix tree refines the finite map from token sequences to snapshots: a lookup returns
exactly the longest stored prefix of the query, with the snapshot stored for it, which covers
exactly that many tokens; an empty query finds nothing. The lookup leaves every entry, the
configuration and the invariant as they are and counts one hit or one miss.\<close>

theorem prefix_lookup_longest:
  assumes "prefix_inv c" and "prefix_lookup now tokens c = (r, c')"
  shows "prefix_inv c' \<and> entries_of c' = entries_of c \<and> px_config c' = px_config c \<and>
    (case r of
       None \<Rightarrow> tokens = [] \<or> (\<forall>n\<le>length tokens. entries_of c (take n tokens) = None)
     | Some (n, kv) \<Rightarrow> n \<le> length tokens \<and> ck_seq_len kv = n \<and> entries_of c (take n tokens) = Some kv \<and>
         (\<forall>n'\<le>length tokens. n < n' \<longrightarrow> entries_of c (take n' tokens) = None)) \<and>
    (if r = None then px_hit_count c' = px_hit_count c \<and> px_miss_count c' = px_miss_count c + 1
     else px_hit_count c' = px_hit_count c + 1 \<and> px_miss_count c' = px_miss_count c)"
proof -
  note sp = prefix_lookup_spec[OF assms]
  have "ck_seq_len kv = n" if "n \<le> length tokens" "entries_of c (take n tokens) = Some kv" for n kv
    using assms(1) that by (force simp: prefix_inv_def)
  then have "case r of
      None \<Rightarrow> tokens = [] \<or> (\<forall>n\<le>length tokens. entries_of c (take n tokens) = None)
    | Some (n, kv) \<Rightarrow> n \<le> length tokens \<and> ck_seq_len kv = n \<and> entries_of c (take n tokens) = Some kv \<and>
        (\<forall>n'\<le>length tokens. n < n' \<longrightarrow> entries_of c (take n' tokens) = None)"
    using sp by (cases "tokens = []") (auto simp: longest_match_def split: option.splits)
  then show ?thesis using sp by simp
qed

lemma prefix_lookup_longest_witness:
  "fst (prefix_lookup 5 [1, 2, 3, 4] tiny_cache) = Some (3, tiny_kv 8 3) \<and>
   fst (prefix_lookup 5 [1, 2, 4] tiny_cache) = Some (2, tiny_kv 7 2) \<and>
   entries_of (snd (prefix_lookup 5 [1, 2, 4] tiny_cache)) = entries_of tiny_cache"
  using prefix_lookup_longest[OF tiny_inv prod.collapse[symmetric], of 5 "[1, 2, 4]"]
  by (simp add: prefix_lookup_def tiny_cache_eq tiny_config_def)

section \<open>Store\<close>

text \<open>C6: Storing always returns. A refused store changes nothing; an accepted one ends with the
invariant (counters equal to the entries and bytes in the tree, every snapshot as long as its key)
and within both limits, and holds nothing but the old entries and the new one. A store that needs
no eviction holds all of them.\<close>

theorem store_meets_limits:
  assumes "prefix_inv c"
  shows "\<exists>stored c'. prefix_store now tokens fk fv seq_len kv_dim num_layers c = Some (stored, c') \<and>
    prefix_inv c' \<and> px_config c' = px_config c \<and>
    px_entry_count c' = count_entries (px_root c') \<and> px_memory_bytes c' = total_memory (px_root c') \<and>
    (if \<not> stored then c' = c
     else px_entry_count c' \<le> pc_max_entries (px_config c) \<and>
       px_memory_bytes c' \<le> pc_max_memory_bytes (px_config c) \<and>
       (\<exists>kv. ck_seq_len kv = length tokens \<and> entries_of c' \<subseteq>\<^sub>m (entries_of c)(tokens \<mapsto> kv) \<and>
         (px_entry_count c < pc_max_entries (px_config c) \<and>
          px_memory_bytes c + ck_memory_bytes kv \<le> pc_max_memory_bytes (px_config c) \<longrightarrow>
          entries_of c' = (entries_of c)(tokens \<mapsto> kv))))"
proof -
  note counts = prefix_inv_counts
  consider "prefix_store now tokens fk fv seq_len kv_dim num_layers c = Some (False, c)"
    | kv where "ck_seq_len kv = length tokens" "pc_min_prefix_len (px_config c) \<le> length tokens"
        "prefix_store now tokens fk fv seq_len kv_dim num_layers c = map_option (Pair True) (insert_entry now tokens kv c)"
    using prefix_store_cases[of now tokens fk fv seq_len kv_dim num_layers c] by blast
  then show ?thesis
  proof cases
    case 1
    then show ?thesis using assms counts[OF assms] by auto
  next
    case (2 kv)
    then show ?thesis
      using insert_entry_spec[OF assms 2(1,2), of now] insert_entry_fits[OF assms, of kv tokens] counts
      by (fastforce simp: over_limit_def not_less)
  qed
qed

lemma store_meets_limits_witness:
  "\<exists>stored c'. prefix_store 3 [9] (\<lambda>_. Inr [1, 1]) (\<lambda>_. Inr [2, 2]) 1 1 1 tiny_cache = Some (stored, c') \<and>
     prefix_inv c' \<and> stored \<and> px_entry_count c' = 2 \<and> entries_of c' [1, 2] = None"
proof -
  obtain stored c' where "prefix_store 3 [9] (\<lambda>_. Inr [1, 1]) (\<lambda>_. Inr [2, 2]) 1 1 1 tiny_cache = Some (stored, c')"
      "prefix_inv c'"
    using store_meets_limits[OF tiny_inv, of 3 "[9]" "\<lambda>_. Inr [1, 1]" "\<lambda>_. Inr [2, 2]" 1 1 1] by blast
  then show ?thesis
    by (auto simp: prefix_store_def tiny_cache_eq prefix_eval evict_lru_one_def entry_at_eq child_entry_def)
qed

section \<open>Eviction\<close>

text \<open>
Evicting from a non-empty cache removes exactly one entry, the one whose node was visited
longest ago, reports its bytes, and keeps every other entry; evicting from an empty cache does
nothing.
\<close>

theorem evict_takes_oldest:
  assumes "prefix_inv c" and "evict_lru_one (px_root c) = (freed, root)"
  shows "if entries_of c = Map.empty then freed = None \<and> root = px_root c
    else \<exists>path kv time. (path, kv, time) \<in> set (node_entries (px_root c)) \<and> entries_of c path = Some kv \<and>
      (\<forall>(p, kv', t)\<in>set (node_entries (px_root c)). time \<le> t) \<and>
      freed = Some (ck_memory_bytes kv) \<and> entry_at root = (entries_of c)(path := None)"
proof -
  have wf: "radix_wf (px_root c)" using assms(1) by (simp add: prefix_inv_def rx.tracked_def radix_ok_def)
  have "\<exists>path. entries_of c path \<noteq> None" if "freed \<noteq> None"
    using evict_lru_one_spec[OF wf assms(2)] that by force
  then show ?thesis using evict_lru_one_spec[OF wf assms(2)] by (auto split: if_splits)
qed

lemma evict_takes_oldest_witness:
  "\<exists>root. evict_lru_one (px_root tiny_cache) = (Some 16, root) \<and> entry_at root = (entries_of tiny_cache)([1, 2] := None)"
proof -
  obtain root where e: "evict_lru_one (px_root tiny_cache) = (Some 16, root)"
    by (simp add: evict_lru_one_def tiny_cache_eq tiny_kv_def cached_kv_new_def)
  have "entries_of tiny_cache [1, 2] \<noteq> None" by (simp add: tiny_cache_eq entry_at_eq child_entry_def)
  then have ne: "entries_of tiny_cache \<noteq> Map.empty" by auto
  obtain path kv where p: "entries_of tiny_cache path = Some kv" "ck_memory_bytes kv = 16"
      "entry_at root = (entries_of tiny_cache)(path := None)"
    using evict_takes_oldest[OF tiny_inv e] ne by auto
  have "path = [1, 2]"
    using p(1,2) by (auto simp: tiny_cache_eq entry_at_eq child_entry_def tiny_kv_def cached_kv_new_def split: if_splits option.splits)
  then show ?thesis using e p(3) by blast
qed

text \<open>A snapshot larger than the whole memory budget is accepted (the store reports \<open>true\<close>) and not
kept: the eviction that follows removes it again.\<close>

theorem oversized_store_not_kept:
  assumes "prefix_inv c" and "ck_seq_len kv = length tokens" and "pc_min_prefix_len (px_config c) \<le> length tokens"
    and "pc_max_memory_bytes (px_config c) < ck_memory_bytes kv"
  shows "\<exists>c'. store_snapshot now tokens kv c = Some (True, c') \<and> entries_of c' tokens = None"
proof -
  obtain c' where c': "insert_entry now tokens kv c = Some c'" "prefix_inv c'" "\<not> over_limit c'"
      "entries_of c' \<subseteq>\<^sub>m (entries_of c)(tokens \<mapsto> kv)" "px_config c' = px_config c"
    using insert_entry_spec[OF assms(1-3), of now] by blast
  have tr: "rx.tracked (px_root c') (px_entry_count c') (px_memory_bytes c')"
    using c'(2) by (simp add: prefix_inv_def)
  have "ck_memory_bytes v \<le> px_memory_bytes c'" if "entries_of c' tokens = Some v" for v
    using map_weight_member[OF rx.finite_entries that, of ck_memory_bytes] tr by (simp add: rx.tracked_def)
  moreover have "v = kv" if "entries_of c' tokens = Some v" for v
    using that c'(4) by (force simp: map_le_def)
  ultimately have "entries_of c' tokens = None"
    using c'(3,5) assms(4) by (cases "entries_of c' tokens") (auto simp: over_limit_def)
  then show ?thesis using assms(2,3) c'(1) by (simp add: store_snapshot_def)
qed

definition big_kv :: cached_kv where
  "big_kv = cached_kv_new [replicate 20 1] [replicate 20 1] 1"

lemma oversized_store_not_kept_witness:
  "\<exists>c'. store_snapshot 3 [9] big_kv tiny_cache = Some (True, c') \<and> entries_of c' = Map.empty"
proof -
  obtain c' where c': "store_snapshot 3 [9] big_kv tiny_cache = Some (True, c')" "entries_of c' [9] = None"
    using oversized_store_not_kept[OF tiny_inv, of big_kv "[9]" 3]
    by (auto simp: big_kv_def cached_kv_new_def tiny_cache_eq tiny_config_def)
  have "map_option (\<lambda>(b, c). px_root c) (store_snapshot 3 [9] big_kv tiny_cache) = Some (Radix [] [] None 0)"
    by (simp add: store_snapshot_def tiny_cache_eq prefix_eval big_kv_def evict_lru_one_def)
  then have "entries_of c' = Map.empty" using c'(1) by (simp add: entry_at_empty_node)
  then show ?thesis using c'(1) by blast
qed

section \<open>Reuse\<close>

text \<open>C7: The point of the cache, across the live cache, the tree and the restore: storing a prompt of a
live KV cache (of either element type), looking it up and restoring the hit into another cache of
the same shape makes exactly the rows of that prompt readable there, layer by layer, re-encoded in
the element type of the target, even if the live cache has gone past the prompt.\<close>

theorem prefix_reuse_restores:
  assumes "prefix_inv pc" and "kv_inv live" and "kv_inv target" and "tokens \<noteq> []"
    and "length tokens \<le> kc_seq_len live" and "kc_stored_len live \<le> kc_capacity_tokens live"
    and "length tokens \<le> kc_max_seq_len target"
    and "kc_num_layers target = kc_num_layers live" and "kc_kv_dim target = kc_kv_dim live"
    and "pc_min_prefix_len (px_config pc) \<le> length tokens"
    and "px_entry_count pc < pc_max_entries (px_config pc)"
    and "px_memory_bytes pc + 8 * (kc_num_layers live * (length tokens * kc_kv_dim live))
           \<le> pc_max_memory_bytes (px_config pc)"
  shows "\<exists>pc1 kv pc2 target'.
    prefix_store now tokens (fetch_keys fc live) (fetch_values fc live) (kc_seq_len live) (kc_kv_dim live)
      (kc_num_layers live) pc = Some (True, pc1) \<and>
    prefix_lookup later tokens pc1 = (Some (length tokens, kv), pc2) \<and>
    prefix_restore fc kv target = Inr target' \<and> kc_seq_len target' = length tokens \<and>
    (\<forall>l < kc_num_layers live.
      kv_copy_keys_into fc target' l = Inr (map (enc_of fc (kc_dtype target))
        (take (length tokens * kc_kv_dim live) (projr (kv_copy_keys_into fc live l)))) \<and>
      kv_copy_values_into fc target' l = Inr (map (enc_of fc (kc_dtype target))
        (take (length tokens * kc_kv_dim live) (projr (kv_copy_values_into fc live l)))))"
proof -
  let ?kv = "live_kv fc live (length tokens)"
  have kv: "ck_seq_len ?kv = length tokens" by (simp add: live_kv_def cached_kv_new_def)
  obtain pc1 where pc1: "insert_entry now tokens ?kv pc = Some pc1" "prefix_inv pc1"
      "entries_of pc1 = (entries_of pc)(tokens \<mapsto> ?kv)"
    using insert_entry_spec[OF assms(1) kv assms(10), of now] insert_entry_fits[OF assms(1,11), of ?kv tokens] assms(12)
      live_kv_memory[OF assms(2,6,5), of fc] by auto
  obtain r pc2 where look: "prefix_lookup later tokens pc1 = (r, pc2)" by fastforce
  have "r = Some (length tokens, ?kv)"
    using prefix_lookup_spec[OF pc1(2) look] assms(4) longest_match_exact[of "entries_of pc1" tokens r ?kv] pc1(3)
    by simp
  then show ?thesis
    using live_store[OF assms(2,6,5,10), of now fc] live_restore[OF assms(2,6,5,3,7-9), of fc] pc1(1) look by auto
qed

definition live_cache :: kv_cache where
  "live_cache = (kv_new 1 4 1)\<lparr>kc_keys := [BufF32 [5, 6, 7, 0]], kc_values := [BufF32 [1, 2, 3, 0]],
     kc_seq_len := 3, kc_stored_len := 3, kc_capacity_tokens := 4\<rparr>"

definition no_rounding :: f16_conv where
  "no_rounding = \<lparr>fc_from_f32 = ucast, fc_to_f32 = ucast\<rparr>"

lemma prefix_reuse_restores_witness:
  "\<exists>pc1 kv pc2 target'.
    prefix_store 1 [4, 9] (fetch_keys no_rounding live_cache) (fetch_values no_rounding live_cache) 3 1 1
      (prefix_new 0 tiny_config) = Some (True, pc1) \<and>
    prefix_lookup 2 [4, 9] pc1 = (Some (2, kv), pc2) \<and>
    prefix_restore no_rounding kv (kv_new 1 4 1) = Inr target' \<and>
    kv_copy_keys_into no_rounding target' 0 = Inr [5, 6]"
proof -
  have target: "kv_inv (kv_new 1 4 1)" using kv_with_dtype_inv by (simp add: kv_new_def)
  have live: "kv_inv live_cache"
    by (simp add: live_cache_def kv_new_def kv_with_dtype_def kv_inv_def bufs_ok_def DEFAULT_BLOCK_TOKENS_def)
  obtain pc1 kv pc2 target' where
    "prefix_store 1 [4, 9] (fetch_keys no_rounding live_cache) (fetch_values no_rounding live_cache) (kc_seq_len live_cache)
      (kc_kv_dim live_cache) (kc_num_layers live_cache) (prefix_new 0 tiny_config) = Some (True, pc1)"
    "prefix_lookup 2 [4, 9] pc1 = (Some (length [4, 9 :: u32], kv), pc2)"
    "prefix_restore no_rounding kv (kv_new 1 4 1) = Inr target'"
    "\<forall>l < kc_num_layers live_cache. kv_copy_keys_into no_rounding target' l = Inr (map (enc_of no_rounding (kc_dtype (kv_new 1 4 1)))
        (take (length [4, 9 :: u32] * kc_kv_dim live_cache) (projr (kv_copy_keys_into no_rounding live_cache l))))"
    using prefix_reuse_restores[OF prefix_new_inv live target, of "[4, 9]" 0 tiny_config 1 no_rounding 2]
    by (auto simp: live_cache_def kv_new_def kv_with_dtype_def prefix_new_def tiny_config_def)
  then show ?thesis
    by (intro exI[of _ pc1] exI[of _ kv] exI[of _ pc2] exI[of _ target'])
      (simp add: live_cache_def kv_new_def kv_with_dtype_def kv_copy_keys_into_def kv_copy_def)
qed

end
