(* ===== verification/Tok_Text.thy ===== *)
theory Tok_Text
  imports Prelude
begin

text \<open>
  Text as the tokenizers of \<open>crates/oxillama-runtime/src/gguf_vocab\<close> see it: a \<open>&str\<close> is the list of
  its UTF-8 bytes, \<open>chars\<close> cuts it into characters and \<open>str_get\<close> is \<open>str::get\<close> with its
  character-boundary check; and the GPT-2 byte-level alphabet of \<open>byte_level.rs\<close>.
\<close>

section \<open>Characters of a text\<close>

type_synonym utf8 = "u8 list"

text \<open>The length of a character, read off its first byte.\<close>

definition char_width :: "u8 \<Rightarrow> nat" where
  "char_width b = (if b < 0x80 then 1 else if b < 0xE0 then 2 else if b < 0xF0 then 3 else 4)"

function chars :: "utf8 \<Rightarrow> utf8 list" where
  "chars [] = []"
| "chars (b # bs) = (b # take (char_width b - 1) bs) # chars (drop (char_width b - 1) bs)"
  by pat_completeness auto
termination by (relation "measure length") auto

definition is_char_boundary :: "utf8 \<Rightarrow> nat \<Rightarrow> bool" where
  "is_char_boundary t i \<longleftrightarrow> i = 0 \<or> i = length t \<or> i < length t \<and> \<not> utf8_cont (t ! i)"

definition str_get :: "utf8 \<Rightarrow> nat \<Rightarrow> nat \<Rightarrow> utf8 option" where
  "str_get t a b =
     (if a \<le> b \<and> is_char_boundary t a \<and> is_char_boundary t b then Some (take (b - a) (drop a t)) else None)"

definition char_ok :: "utf8 \<Rightarrow> bool" where
  "char_ok c \<longleftrightarrow> c \<noteq> [] \<and> char_width (hd c) = length c \<and> \<not> utf8_cont (hd c)"

text \<open>A text that is a sequence of whole characters, as every \<open>&str\<close> is.\<close>

definition text_ok :: "utf8 \<Rightarrow> bool" where
  "text_ok t \<longleftrightarrow> list_all char_ok (chars t)"

lemma concat_chars [simp]: "concat (chars t) = t"
  by (induction t rule: chars.induct) simp_all

lemma chars_eq_Nil [simp]: "chars t = [] \<longleftrightarrow> t = []"
  by (cases t) auto

lemma chars_char: "char_ok c \<Longrightarrow> chars (c @ t) = c # chars t"
  by (cases c) (auto simp: char_ok_def)

lemma chars_concat: "list_all char_ok cs \<Longrightarrow> chars (concat cs @ t) = cs @ chars t"
  by (induction cs) (simp_all add: chars_char)

lemma chars_concat_only: "list_all char_ok cs \<Longrightarrow> chars (concat cs) = cs"
  using chars_concat[of cs "[]"] by simp

lemma text_ok_concat [simp]: "list_all char_ok cs \<Longrightarrow> text_ok (concat cs)"
  by (simp add: text_ok_def chars_concat_only)

lemma text_ok_append: "text_ok s \<Longrightarrow> chars (s @ t) = chars s @ chars t"
  using chars_concat[of "chars s" t] by (simp add: text_ok_def)

lemma text_ok_appendI: "text_ok s \<Longrightarrow> text_ok t \<Longrightarrow> text_ok (s @ t)"
  by (simp add: text_ok_def text_ok_append[unfolded text_ok_def])

lemma text_ok_Cons:
  assumes "n = char_width b - 1" and "\<not> utf8_cont b" and "n \<le> length bs" and "text_ok (drop n bs)"
  shows "text_ok (b # bs)"
proof -
  have "0 < char_width b" by (simp add: char_width_def)
  then show ?thesis using assms by (simp add: text_ok_def char_ok_def)
qed

lemma lead_byte:
  "b \<le> 0x7F \<Longrightarrow> char_width b = 1 \<and> \<not> utf8_cont b"
  "0xC2 \<le> b \<Longrightarrow> b \<le> 0xDF \<Longrightarrow> char_width b = 2 \<and> \<not> utf8_cont b"
  "utf8_three b c \<Longrightarrow> char_width b = 3 \<and> \<not> utf8_cont b"
  "utf8_four b c \<Longrightarrow> char_width b = 4 \<and> \<not> utf8_cont b"
  by (auto simp: char_width_def utf8_cont_def utf8_three_def utf8_four_def word_le_nat_alt word_less_nat_alt)

lemma text_ok_utf8: "utf8_valid t \<Longrightarrow> text_ok t"
proof (induction t rule: utf8_valid.induct)
  case (2 b bs)
  consider "b \<le> 0x7F" "utf8_valid bs"
    | c cs where "\<not> b \<le> 0x7F" "bs = c # cs" "0xC2 \<le> b" "b \<le> 0xDF" "utf8_valid cs"
    | c d ds where "\<not> b \<le> 0x7F" "bs = c # d # ds" "\<not> (0xC2 \<le> b \<and> b \<le> 0xDF)" "utf8_three b c" "utf8_valid ds"
    | c d e es where "\<not> b \<le> 0x7F" "bs = c # d # e # es" "\<not> (0xC2 \<le> b \<and> b \<le> 0xDF)" "\<not> utf8_three b c"
        "utf8_four b c" "utf8_valid es"
    using "2.prems" by (auto simp: utf8_valid.simps(2) split: list.splits if_splits)
  then show ?case
  proof cases
    case 1
    then show ?thesis using "2.IH"(1) lead_byte(1) by (intro text_ok_Cons[of 0]) simp_all
  next
    case 2
    then show ?thesis using "2.IH"(2) lead_byte(2) by (intro text_ok_Cons[of 1]) simp_all
  next
    case 3
    then show ?thesis using "2.IH"(3) lead_byte(3) by (intro text_ok_Cons[of 2]) simp_all
  next
    case 4
    then show ?thesis using "2.IH"(4) lead_byte(4) by (intro text_ok_Cons[of 3]) simp_all
  qed
qed (simp add: text_ok_def)

text \<open>Between two characters is a boundary, so a run of characters can be read.\<close>

lemma boundary_between:
  assumes "list_all char_ok ds"
  shows "is_char_boundary (s @ concat ds) (length s)"
proof (cases ds)
  case (Cons d ds')
  then have "d \<noteq> []" "\<not> utf8_cont (hd d)" using assms by (simp_all add: char_ok_def)
  then show ?thesis using Cons by (cases d) (simp_all add: is_char_boundary_def nth_append)
qed (simp add: is_char_boundary_def)

lemma str_get_run:
  assumes "list_all char_ok cs" and "list_all char_ok ds"
  shows "str_get (s @ concat cs @ concat ds) (length s) (length s + length (concat cs)) = Some (concat cs)"
  using boundary_between[of "cs @ ds" s] boundary_between[of ds "s @ concat cs"] assms
  by (simp add: str_get_def)

section \<open>The byte-level alphabet\<close>

definition is_printable_byte :: "u8 \<Rightarrow> bool" where
  "is_printable_byte b \<longleftrightarrow> 0x21 \<le> b \<and> b \<le> 0x7E \<or> 0xA1 \<le> b \<and> b \<le> 0xAC \<or> b \<ge> 0xAE"

text \<open>A \<open>char\<close> is its code point; the loop over the slots of the table.\<close>

fun build_forward_from :: "nat list \<Rightarrow> u32 \<Rightarrow> u32 list" where
  "build_forward_from [] next_extra = []"
| "build_forward_from (b # bs) next_extra =
     (let byte = word_of_nat b :: u8 in
      if is_printable_byte byte
      then (case char_from_u32 (ucast byte) of None \<Rightarrow> 0xFFFD | Some c \<Rightarrow> c) # build_forward_from bs next_extra
      else (case char_from_u32 (0x100 + next_extra) of None \<Rightarrow> 0xFFFD | Some c \<Rightarrow> c) #
             build_forward_from bs (next_extra + 1))"

definition byte_to_char_table :: "u32 list" where
  "byte_to_char_table = build_forward_from [0..<256] 0"

definition char_to_byte_table :: "(u32 \<times> u8) list" where
  "char_to_byte_table =
     fold (\<lambda>(b, c). AList.update c (word_of_nat b)) (zip [0..<256] byte_to_char_table) []"

definition byte_to_char :: "u8 \<Rightarrow> u32" where
  "byte_to_char b = byte_to_char_table ! unat b"

definition byte_to_string :: "u8 \<Rightarrow> utf8" where
  "byte_to_string b = encode_utf8 (byte_to_char b)"

definition encode_bytes :: "u8 list \<Rightarrow> utf8" where
  "encode_bytes bytes = concat (map (\<lambda>b. encode_utf8 (byte_to_char_table ! unat b)) bytes)"

text \<open>The code point a character's bytes spell.\<close>

fun char_code :: "utf8 \<Rightarrow> u32" where
  "char_code [a] = ucast a"
| "char_code [a, b] = push_bit 6 (ucast a AND 0x1F) OR (ucast b AND 0x3F)"
| "char_code [a, b, c] =
     push_bit 12 (ucast a AND 0x0F) OR push_bit 6 (ucast b AND 0x3F) OR (ucast c AND 0x3F)"
| "char_code [a, b, c, d] =
     push_bit 18 (ucast a AND 0x07) OR push_bit 12 (ucast b AND 0x3F) OR push_bit 6 (ucast c AND 0x3F) OR
     (ucast d AND 0x3F)"
| "char_code _ = 0"

text \<open>Encoding the code point of a character again gives its bytes, which is what is passed on.\<close>

definition decode_bytes :: "utf8 \<Rightarrow> u8 list" where
  "decode_bytes t =
     concat (map (\<lambda>c. case map_of char_to_byte_table (char_code c) of Some b \<Rightarrow> [b] | None \<Rightarrow> c) (chars t))"

text \<open>Characters of at most two bytes, which is all the alphabet has, decode to their code point.\<close>

lemma bit_below:
  fixes c :: "'a::len word"
  assumes "c < 2 ^ k" and "bit c n"
  shows "n < k"
  using less_mask_eq[OF assms(1)] assms(2) by (metis bit_and_iff bit_mask_iff)

lemma bit_lead:
  "bit (0x80 :: u8) n \<longleftrightarrow> n = 7" "bit (0x80 :: u32) n \<longleftrightarrow> n = 7"
  "bit (0xC0 :: u8) n \<longleftrightarrow> n = 6 \<or> n = 7" "bit (0xC0 :: u32) n \<longleftrightarrow> n = 6 \<or> n = 7"
proof -
  have eq: "(0x80 :: u8) = 2 ^ 7" "(0x80 :: u32) = 2 ^ 7" "(0xC0 :: u8) = 2 ^ 6 OR 2 ^ 7" "(0xC0 :: u32) = 2 ^ 6 OR 2 ^ 7"
    by simp_all
  show "bit (0x80 :: u8) n \<longleftrightarrow> n = 7" "bit (0x80 :: u32) n \<longleftrightarrow> n = 7"
    "bit (0xC0 :: u8) n \<longleftrightarrow> n = 6 \<or> n = 7" "bit (0xC0 :: u32) n \<longleftrightarrow> n = 6 \<or> n = 7"
    unfolding eq by (auto simp only: bit_or_iff bit_exp_iff) simp_all
qed

lemma two_byte_char:
  fixes c :: u32
  assumes "0x80 \<le> c" and "c < 0x800"
  shows "char_ok (encode_utf8 c) \<and> char_code (encode_utf8 c) = c"
proof -
  have lo: "n < 11" if "bit c n" for n using bit_below[of c 11] assms that by simp
  have masks: "(0x1F :: u32) = mask 5" "(0x3F :: u32) = mask 6" by (simp_all add: mask_eq_exp_minus_1)
  define x where "x = (ucast (drop_bit 6 c) :: u8)"
  define a where "a = 0xC0 OR x"
  define b where "b = (0x80 OR ucast (c AND 0x3F) :: u8)"
  have bit_x: "bit x n \<longleftrightarrow> n < 8 \<and> bit c (6 + n)" for n by (auto simp: x_def bit_simps)
  have bit_a: "bit a n \<longleftrightarrow> n = 6 \<or> n = 7 \<or> n < 8 \<and> bit c (6 + n)" for n
    unfolding a_def bit_or_iff bit_lead bit_x by auto
  have bit_b: "bit b n \<longleftrightarrow> n = 7 \<or> n < 6 \<and> bit c n" for n
    unfolding b_def bit_or_iff bit_lead masks by (auto simp: bit_simps)
  have code: "push_bit 6 (ucast a AND 0x1F) OR (ucast b AND 0x3F) = c"
    unfolding masks by (rule bit_word_eqI) (auto simp: bit_simps bit_a bit_b dest: lo)
  have small: "unat c div 64 < 32" using assms(2) by (simp add: word_less_nat_alt less_mult_imp_div_less)
  then have "unat c div 64 mod 256 < 32" by (meson le_less_trans mod_less_eq_dividend)
  then have x: "unat x < 32"
    by (simp add: x_def unsigned_ucast_eq take_bit_eq_mod unat_drop_bit_eq drop_bit_eq_div unat_div)
  have "0xC0 AND x = 0"
    by (rule bit_word_eqI, simp only: bit_and_iff bit_x bit_lead) (auto dest: lo)
  then have "a = 0xC0 + x" by (simp add: a_def disjunctive_add_eq_or)
  then have "unat a = 192 + unat x" using x by (simp add: unat_word_ariths)
  then have "char_width a = 2" "\<not> utf8_cont a"
    using x by (simp_all add: char_width_def utf8_cont_def word_less_nat_alt word_le_nat_alt)
  moreover have "encode_utf8 c = [a, b]"
    using assms by (simp add: encode_utf8_def a_def b_def x_def not_less[symmetric])
  ultimately show ?thesis using code by (simp add: char_ok_def)
qed

lemma one_byte_char:
  fixes c :: u32
  assumes "c < 0x80"
  shows "char_ok (encode_utf8 c) \<and> char_code (encode_utf8 c) = c"
proof -
  have u: "unat (ucast c :: u8) = unat c" using assms by (simp add: unsigned_ucast_eq take_bit_eq_mod word_less_nat_alt)
  have "n < 7" if "bit c n" for n using bit_below[of c 7] assms that by simp
  then have "ucast (ucast c :: u8) = c" by (intro bit_word_eqI) (force simp: bit_simps)
  then show ?thesis
    using assms u by (simp add: encode_utf8_def char_ok_def char_width_def utf8_cont_def word_less_nat_alt word_le_nat_alt)
qed


lemma alphabet_char:
  fixes c :: u32
  assumes "c < 0x800"
  shows "char_ok (encode_utf8 c) \<and> char_code (encode_utf8 c) = c"
  using one_byte_char[of c] two_byte_char[of c] assms by (cases "c < 0x80") (simp_all add: not_less)

text \<open>The table in numbers: a printable byte stands for itself, the others are counted off from 256.\<close>

definition extras_below :: "nat \<Rightarrow> nat" where
  "extras_below m = length (filter (\<lambda>i. \<not> is_printable_byte (word_of_nat i)) [0..<m])"

definition alphabet_code :: "nat \<Rightarrow> nat" where
  "alphabet_code i = (if is_printable_byte (word_of_nat i) then i else 256 + extras_below i)"

lemma extras_below_Suc:
  "extras_below (Suc m) = (if is_printable_byte (word_of_nat m) then extras_below m else Suc (extras_below m))"
  by (simp add: extras_below_def)

lemma extras_below_le: "extras_below m \<le> m"
  using length_filter_le[of _ "[0..<m]"] by (simp add: extras_below_def)

lemma extras_below_mono: "i \<le> j \<Longrightarrow> extras_below i \<le> extras_below j"
  by (rule lift_Suc_mono_le[of extras_below]) (simp_all add: extras_below_Suc)

lemma alphabet_code_less: "i < 256 \<Longrightarrow> alphabet_code i < 512"
  using extras_below_le[of i] by (simp add: alphabet_code_def)

lemma alphabet_code_neq:
  assumes "i < j" and "j < 256"
  shows "alphabet_code i \<noteq> alphabet_code j"
  using assms extras_below_mono[of "Suc i" j] by (auto simp: alphabet_code_def extras_below_Suc)

lemma alphabet_code_inj: "inj_on alphabet_code {..<256}"
  by (rule linorder_inj_onI') (auto dest: alphabet_code_neq)

lemma small_code_from_u32: "n < 512 \<Longrightarrow> char_from_u32 (word_of_nat n) = Some (word_of_nat n)"
  by (simp add: char_from_u32_def word_le_nat_alt word_less_nat_alt unat_of_nat_small)

lemma build_forward_from_codes:
  "m \<le> 256 \<Longrightarrow> build_forward_from [m..<256] (word_of_nat (extras_below m)) =
     map (\<lambda>i. word_of_nat (alphabet_code i)) [m..<256]"
proof (induction rule: inc_induct)
  case (step m)
  have "ucast (word_of_nat m :: u8) = (word_of_nat m :: u32)"
    using step.hyps by (simp add: word_unat_eq_iff unat_of_nat_small unsigned_ucast_eq take_bit_nat_eq_self)
  then show ?case
    using step small_code_from_u32[of m] small_code_from_u32[of "256 + extras_below m"] extras_below_le[of m]
    by (auto simp: upt_conv_Cons alphabet_code_def extras_below_Suc ac_simps)
qed simp

lemma byte_to_char_table_eq: "byte_to_char_table = map (\<lambda>i. word_of_nat (alphabet_code i)) [0..<256]"
  using build_forward_from_codes[of 0] by (simp add: byte_to_char_table_def extras_below_def)

lemma map_of_fold_update:
  assumes "distinct (map snd xs)" and "(b, c) \<in> set xs"
  shows "map_of (fold (\<lambda>(b, c). AList.update c (f b)) xs al) c = Some (f b)"
  using assms
proof (induction xs rule: rev_induct)
  case (snoc x xs)
  then show ?case by (cases x) (auto simp: update_conv' rev_image_eqI)
qed simp

lemma byte_code: "i < 256 \<Longrightarrow> byte_to_char_table ! i = word_of_nat (alphabet_code i)"
  by (simp add: byte_to_char_table_eq)

lemma char_to_byte_code:
  assumes "i < 256"
  shows "map_of char_to_byte_table (word_of_nat (alphabet_code i)) = Some (word_of_nat i)"
proof -
  have "inj_on (\<lambda>i. word_of_nat (alphabet_code i) :: u32) {..<256}"
  proof (rule inj_onI)
    fix i j assume ij: "i \<in> {..<256}" "j \<in> {..<256}"
      and "(word_of_nat (alphabet_code i) :: u32) = word_of_nat (alphabet_code j)"
    then have "unat (word_of_nat (alphabet_code i) :: u32) = unat (word_of_nat (alphabet_code j) :: u32)" by simp
    then have "alphabet_code i = alphabet_code j"
      using ij alphabet_code_less[of i] alphabet_code_less[of j] by (simp add: unat_of_nat_small)
    then show "i = j" using ij alphabet_code_inj by (simp add: inj_on_def)
  qed
  then have "distinct byte_to_char_table"
    by (simp add: byte_to_char_table_eq distinct_map atLeast0LessThan)
  moreover have "(i, word_of_nat (alphabet_code i)) \<in> set (zip [0..<256] byte_to_char_table)"
    using assms by (auto simp: in_set_zip byte_to_char_table_eq intro!: exI[of _ i])
  ultimately show ?thesis
    unfolding char_to_byte_table_def by (intro map_of_fold_update) (simp_all add: byte_to_char_table_eq)
qed

lemma decode_byte_string:
  fixes b :: u8
  shows "char_ok (byte_to_string b)"
    and "map_of char_to_byte_table (char_code (byte_to_string b)) = Some b"
proof -
  have b: "unat b < 256" using unsigned_less[of b] by simp
  have "(word_of_nat (alphabet_code (unat b)) :: u32) < 0x800"
    using alphabet_code_less[OF b] by (simp add: word_less_nat_alt unat_of_nat_small)
  from alphabet_char[OF this] show "char_ok (byte_to_string b)"
    "map_of char_to_byte_table (char_code (byte_to_string b)) = Some b"
    using char_to_byte_code[OF b] byte_code[OF b] by (simp_all add: byte_to_string_def byte_to_char_def)
qed

lemma encode_bytes_eq: "encode_bytes bs = concat (map byte_to_string bs)"
  by (simp add: encode_bytes_def byte_to_string_def[abs_def] byte_to_char_def)

lemma encode_bytes_chars: "chars (encode_bytes bs) = map byte_to_string bs"
  unfolding encode_bytes_eq by (rule chars_concat_only) (simp add: list_all_iff decode_byte_string)

lemma decode_bytes_concat:
  "list_all char_ok cs \<Longrightarrow> decode_bytes (concat cs @ t) = decode_bytes (concat cs) @ decode_bytes t"
  by (simp add: decode_bytes_def chars_concat chars_concat_only)

lemma decode_encode_bytes: "decode_bytes (encode_bytes bs) = bs"
  unfolding decode_bytes_def encode_bytes_chars by (induction bs) (simp_all add: decode_byte_string)

end
