(* ===== verification/Tok_Symbols.thy ===== *)
theory Tok_Symbols
  imports Tok_Text "HOL-Library.Product_Lexorder" "HOL-Library.Multiset"
begin

text \<open>
  The intrusive symbol list of \<open>gguf_vocab/symbols.rs\<close>, which the merge loops of \<open>bpe.rs\<close> and
  \<open>spm.rs\<close> share, and the priority queue they pop. Indexing outside the list is a Rust panic and is
  the value \<open>None\<close> here. A linked list is abstracted to the list of its live symbols with the text
  each of them spans (\<open>linked\<close>).
\<close>

section \<open>Symbols\<close>

record symbol =
  sy_prev :: i32
  sy_next :: i32
  sy_start :: nat
  sy_len :: nat

text \<open>The cast of an \<open>i32\<close> index to \<open>usize\<close> extends the sign.\<close>

definition as_usize :: "i32 \<Rightarrow> nat" where
  "as_usize i = unat (scast i :: u64)"

definition sy_text :: "symbol \<Rightarrow> utf8 \<Rightarrow> utf8" where
  "sy_text s buf = (case str_get buf (sy_start s) (sy_start s + sy_len s) of None \<Rightarrow> [] | Some t \<Rightarrow> t)"

fun split_chars_from :: "utf8 list \<Rightarrow> nat \<Rightarrow> symbol list \<Rightarrow> symbol list" where
  "split_chars_from [] start symbols = symbols"
| "split_chars_from (ch # chs) start symbols =
     (let index = length symbols;
          new = \<lparr>sy_prev = word_of_nat index - 1, sy_next = - 1, sy_start = start, sy_len = length ch\<rparr>;
          pushed = symbols @ [new]
      in split_chars_from chs (start + length ch)
           (if index > 0
            then pushed[index - 1 := (pushed ! (index - 1))\<lparr>sy_next := word_of_nat index\<rparr>]
            else pushed))"

definition split_chars :: "utf8 \<Rightarrow> symbol list" where
  "split_chars t = split_chars_from (chars t) 0 []"

definition absorb :: "symbol list \<Rightarrow> nat \<Rightarrow> nat \<Rightarrow> symbol list option" where
  "absorb symbols left right =
     (if left < length symbols \<and> right < length symbols
      then
        let right_len = sy_len (symbols ! right);
            right_next = sy_next (symbols ! right);
            s1 = symbols[left := (symbols ! left)\<lparr>sy_len := sy_len (symbols ! left) + right_len\<rparr>];
            s2 = s1[right := (s1 ! right)\<lparr>sy_len := 0\<rparr>];
            s3 = s2[left := (s2 ! left)\<lparr>sy_next := right_next\<rparr>]
        in if 0 \<le> sint right_next
           then if as_usize right_next < length s3
                then Some (s3[as_usize right_next := (s3 ! as_usize right_next)\<lparr>sy_prev := word_of_nat left\<rparr>])
                else None
           else Some s3
      else None)"

section \<open>The priority queue\<close>

text \<open>\<open>BinaryHeap::pop\<close> on the elements of the heap: one of those with the least key is taken out.\<close>

fun pop_least :: "('b \<Rightarrow> 'k::linorder) \<Rightarrow> 'b list \<Rightarrow> ('b \<times> 'b list) option" where
  "pop_least key [] = None"
| "pop_least key (x # xs) =
     (case pop_least key xs of
        None \<Rightarrow> Some (x, xs)
      | Some (y, ys) \<Rightarrow> if key x \<le> key y then Some (x, xs) else Some (y, x # ys))"

lemma pop_least_None [simp]: "pop_least key q = None \<longleftrightarrow> q = []"
  by (cases q) (auto split: option.splits)

lemma pop_least_Some:
  assumes "pop_least key q = Some (b, q')"
  shows "mset q = add_mset b (mset q') \<and> (\<forall>c \<in> set q. key b \<le> key c)"
  using assms
proof (induction q arbitrary: b q')
  case (Cons x xs)
  then show ?case by (fastforce split: option.splits if_splits)
qed simp

lemma pop_least_set: "pop_least key q = Some (b, q') \<Longrightarrow> set q = insert b (set q')"
  by (metis pop_least_Some set_mset_add_mset_insert set_mset_mset)

lemma pop_least_length: "pop_least key q = Some (b, q') \<Longrightarrow> length q = Suc (length q')"
  by (metis pop_least_Some size_add_mset size_mset)

section \<open>Indices\<close>

lemma index_word:
  assumes "n < 2 ^ 31"
  shows "sint (word_of_nat n :: i32) = int n" and "as_usize (word_of_nat n) = n"
proof -
  show s: "sint (word_of_nat n :: i32) = int n"
    using assms by (simp add: signed_of_nat signed_take_bit_int_eq_self)
  have "(scast (word_of_nat n :: i32) :: u64) = word_of_int (int n)"
    by (metis s of_int_sint)
  then show "as_usize (word_of_nat n) = n"
    using assms by (simp add: as_usize_def unat_of_nat_small)
qed

lemma index_no_end: "n < 2 ^ 31 \<Longrightarrow> word_of_nat n \<noteq> (- 1 :: i32)"
  using index_word(1)[of n] by auto

section \<open>The list behind the links\<close>

text \<open>
  \<open>linked sy p pos xs e\<close>: from a symbol whose predecessor is \<open>p\<close> on, the links visit the indices
  of \<open>xs\<close> in order and lead to \<open>e\<close>; the spans start at \<open>pos\<close> and have the lengths of the texts.
\<close>

type_synonym live = "(nat \<times> utf8) list"

definition front_link :: "live \<Rightarrow> i32 \<Rightarrow> i32" where
  "front_link xs e = (case xs of [] \<Rightarrow> e | x # _ \<Rightarrow> word_of_nat (fst x))"

definition back_link :: "i32 \<Rightarrow> live \<Rightarrow> i32" where
  "back_link p xs = (if xs = [] then p else word_of_nat (fst (last xs)))"

lemma link_simps [simp]:
  "front_link [] e = e" "front_link (x # xs) e = word_of_nat (fst x)"
  "back_link p [] = p" "back_link p (xs @ [x]) = word_of_nat (fst x)"
  by (simp_all add: front_link_def back_link_def)

fun linked :: "symbol list \<Rightarrow> i32 \<Rightarrow> nat \<Rightarrow> live \<Rightarrow> i32 \<Rightarrow> bool" where
  "linked sy p pos [] e \<longleftrightarrow> True"
| "linked sy p pos (x # xs) e \<longleftrightarrow>
     fst x < length sy \<and>
     sy ! fst x = \<lparr>sy_prev = p, sy_next = front_link xs e, sy_start = pos, sy_len = length (snd x)\<rparr> \<and>
     linked sy (word_of_nat (fst x)) (pos + length (snd x)) xs e"

abbreviation texts :: "live \<Rightarrow> utf8" where
  "texts xs \<equiv> concat (map snd xs)"

lemma linked_append [simp]:
  "linked sy p pos (xs @ ys) e \<longleftrightarrow>
     linked sy p pos xs (front_link ys e) \<and> linked sy (back_link p xs) (pos + length (texts xs)) ys e"
proof (induction xs arbitrary: p pos)
  case (Cons x xs)
  have "front_link (xs @ ys) e = front_link xs (front_link ys e)" by (cases xs) simp_all
  moreover have "back_link (word_of_nat (fst x)) xs = back_link p (x # xs)" by (simp add: back_link_def)
  ultimately show ?case using Cons.IH by (simp add: add.assoc)
qed simp

lemma linked_keep:
  assumes "linked sy p pos xs e" and "\<And>i. i \<in> fst ` set xs \<Longrightarrow> sy' ! i = sy ! i" and "length sy \<le> length sy'"
  shows "linked sy' p pos xs e"
  using assms by (induction xs arbitrary: p pos) auto

lemma linked_relink:
  assumes "linked sy p pos ys e" and "length sy' = length sy" and "distinct (map fst ys)"
    and "\<And>y zs. ys = y # zs \<Longrightarrow> sy' ! fst y = (sy ! fst y)\<lparr>sy_prev := p'\<rparr>"
    and "\<And>y zs i. ys = y # zs \<Longrightarrow> i \<in> fst ` set zs \<Longrightarrow> sy' ! i = sy ! i"
  shows "linked sy' p' pos ys e"
proof (cases ys)
  case (Cons y zs)
  with assms(1,2,4,5) show ?thesis
    using linked_keep[of sy "word_of_nat (fst y)" "pos + length (snd y)" zs e sy'] by simp
qed simp

text \<open>What a symbol list stands for: the live symbols, by growing index, cut the text into non-empty texts.\<close>

definition text_piece :: "utf8 \<Rightarrow> bool" where
  "text_piece w \<longleftrightarrow> text_ok w \<and> w \<noteq> []"

definition symbols_show :: "symbol list \<Rightarrow> live \<Rightarrow> bool" where
  "symbols_show sy xs \<longleftrightarrow>
     linked sy (- 1) 0 xs (- 1) \<and> length sy < 2 ^ 31 \<and> sorted_wrt (<) (map fst xs) \<and>
     (\<forall>x \<in> set xs. text_piece (snd x)) \<and>
     (\<forall>i < length sy. i \<notin> fst ` set xs \<longrightarrow> sy_len (sy ! i) = 0) \<and>
     (sy \<noteq> [] \<longrightarrow> (\<exists>w ys. xs = (0, w) # ys))"

lemma linked_index: "linked sy p pos xs e \<Longrightarrow> x \<in> set xs \<Longrightarrow> fst x < length sy"
  by (induction xs arbitrary: p pos) auto

lemma linked_len: "linked sy p pos xs e \<Longrightarrow> x \<in> set xs \<Longrightarrow> sy_len (sy ! fst x) = length (snd x)"
  by (induction xs arbitrary: p pos) auto

lemma symbols_showD:
  assumes "symbols_show sy xs"
  shows "linked sy (- 1) 0 xs (- 1)" and "length sy < 2 ^ 31" and "sorted_wrt (<) (map fst xs)"
    and "\<forall>x \<in> set xs. text_piece (snd x)" and "\<forall>i < length sy. i \<notin> fst ` set xs \<longrightarrow> sy_len (sy ! i) = 0"
    and "sy \<noteq> [] \<Longrightarrow> \<exists>w ys. xs = (0, w) # ys"
  using assms unfolding symbols_show_def by simp_all

lemma symbols_show_at:
  assumes "symbols_show sy xs" and "(i, u) \<in> set xs"
  shows "i < length sy" and "i < 2 ^ 31" and "sy_len (sy ! i) = length u" and "u \<noteq> []"
proof -
  note facts = symbols_showD[OF assms(1)]
  show "i < length sy" "sy_len (sy ! i) = length u"
    using linked_index[OF facts(1) assms(2)] linked_len[OF facts(1) assms(2)] by simp_all
  with facts(2) show "i < 2 ^ 31" by simp
  show "u \<noteq> []" using facts(4) assms(2) by (auto simp: text_piece_def)
qed

lemma symbols_show_unique:
  assumes "symbols_show sy xs" and "(i, u) \<in> set xs" and "(i, v) \<in> set xs"
  shows "u = v"
  using symbols_showD(3)[OF assms(1)] assms(2,3) by (auto simp: strict_sorted_iff intro: eq_key_imp_eq_value)

lemma symbols_show_live:
  assumes "symbols_show sy xs" and "i < length sy" and "0 < sy_len (sy ! i)"
  obtains u where "(i, u) \<in> set xs"
  using symbols_showD(5)[OF assms(1)] assms(2,3) by fastforce

lemma symbols_show_first:
  assumes "symbols_show sy xs" and "xs \<noteq> []"
  shows "front_link xs (- 1) = 0"
proof -
  have "sy \<noteq> []" using symbols_showD(1)[OF assms(1)] assms(2) by (cases xs) auto
  then show ?thesis using symbols_showD(6)[OF assms(1)] by auto
qed

lemma texts_chars: "concat (concat (map (chars \<circ> snd) xs)) = texts xs"
  by (induction xs) simp_all

lemma symbols_show_text:
  assumes "symbols_show sy xs" and "x \<in> set xs"
  shows "sy_text (sy ! fst x) (texts xs) = snd x"
proof -
  obtain ys zs where xs: "xs = ys @ x # zs" using assms(2) by (meson split_list)
  have ok: "list_all char_ok (chars (snd x))" "list_all char_ok (concat (map (chars \<circ> snd) zs))"
    using assms by (auto simp: symbols_show_def text_piece_def text_ok_def xs list_all_iff)
  show ?thesis
    using texts_chars[of zs] assms(1) str_get_run[OF ok, of "texts ys"] by (simp add: symbols_show_def xs sy_text_def)
qed

lemma symbols_show_links:
  assumes "symbols_show sy (ys @ (l, u) # zs)"
  shows "sy_prev (sy ! l) = back_link (- 1) ys" and "sy_next (sy ! l) = front_link zs (- 1)"
    and "0 \<le> sint (sy_prev (sy ! l)) \<longleftrightarrow> ys \<noteq> []" and "0 \<le> sint (sy_next (sy ! l)) \<longleftrightarrow> zs \<noteq> []"
    and "ys \<noteq> [] \<Longrightarrow> as_usize (sy_prev (sy ! l)) = fst (last ys)"
    and "zs \<noteq> [] \<Longrightarrow> as_usize (sy_next (sy ! l)) = fst (hd zs)"
proof -
  show links: "sy_prev (sy ! l) = back_link (- 1) ys" "sy_next (sy ! l) = front_link zs (- 1)"
    using symbols_showD(1)[OF assms] by simp_all
  have y: "fst (last ys) < 2 ^ 31" if "ys \<noteq> []"
    using symbols_show_at(2)[OF assms, of "fst (last ys)" "snd (last ys)"] that by simp
  have z: "fst (hd zs) < 2 ^ 31" if "zs \<noteq> []"
    using symbols_show_at(2)[OF assms, of "fst (hd zs)" "snd (hd zs)"] that by simp
  show "0 \<le> sint (sy_prev (sy ! l)) \<longleftrightarrow> ys \<noteq> []" "0 \<le> sint (sy_next (sy ! l)) \<longleftrightarrow> zs \<noteq> []"
    using y z by (auto simp: links back_link_def front_link_def index_word neq_Nil_conv split: list.split)
  show "ys \<noteq> [] \<Longrightarrow> as_usize (sy_prev (sy ! l)) = fst (last ys)"
    "zs \<noteq> [] \<Longrightarrow> as_usize (sy_next (sy ! l)) = fst (hd zs)"
    using y z by (auto simp: links back_link_def front_link_def index_word neq_Nil_conv split: list.split)
qed

text \<open>Absorbing the right one of two neighbours joins their texts.\<close>

lemma absorb_result:
  assumes "l < length sy" and "r < length sy" and "l \<noteq> r"
    and "0 \<le> sint (sy_next (sy ! r)) \<Longrightarrow> as_usize (sy_next (sy ! r)) < length sy"
  obtains sy' where "absorb sy l r = Some sy'" and "length sy' = length sy"
    and "\<And>i. i < length sy \<Longrightarrow> sy' ! i =
      (let s = if i = l then (sy ! l)\<lparr>sy_len := sy_len (sy ! l) + sy_len (sy ! r), sy_next := sy_next (sy ! r)\<rparr>
               else if i = r then (sy ! r)\<lparr>sy_len := 0\<rparr> else sy ! i
       in if 0 \<le> sint (sy_next (sy ! r)) \<and> i = as_usize (sy_next (sy ! r))
          then s\<lparr>sy_prev := word_of_nat l\<rparr> else s)"
proof -
  have "\<exists>sy'. absorb sy l r = Some sy' \<and> length sy' = length sy \<and> (\<forall>i < length sy. sy' ! i =
      (let s = if i = l then (sy ! l)\<lparr>sy_len := sy_len (sy ! l) + sy_len (sy ! r), sy_next := sy_next (sy ! r)\<rparr>
               else if i = r then (sy ! r)\<lparr>sy_len := 0\<rparr> else sy ! i
       in if 0 \<le> sint (sy_next (sy ! r)) \<and> i = as_usize (sy_next (sy ! r))
          then s\<lparr>sy_prev := word_of_nat l\<rparr> else s))"
    using assms by (simp add: absorb_def Let_def nth_list_update)
  then show thesis using that by blast
qed

lemma absorb_show:
  assumes shown: "symbols_show sy (xs @ (l, v) # (r, w) # ys)"
  obtains sy' where "absorb sy l r = Some sy'" and "symbols_show sy' (xs @ (l, v @ w) # ys)"
    and "length sy' = length sy"
proof -
  have sorted: "sorted_wrt (<) (map fst xs @ l # r # map fst ys)" and small: "length sy < 2 ^ 31"
    and lk: "linked sy (- 1) 0 xs (word_of_nat l)" "l < length sy" "r < length sy"
    "sy ! l = \<lparr>sy_prev = back_link (- 1) xs, sy_next = word_of_nat r, sy_start = length (texts xs), sy_len = length v\<rparr>"
    "sy ! r = \<lparr>sy_prev = word_of_nat l, sy_next = front_link ys (- 1), sy_start = length (texts xs) + length v, sy_len = length w\<rparr>"
    "linked sy (word_of_nat r) (length (texts xs) + length v + length w) ys (- 1)"
    using shown by (auto simp: symbols_show_def)
  have order: "l < r" "\<And>x. x \<in> set xs \<Longrightarrow> fst x < l" "\<And>y zs. ys = y # zs \<Longrightarrow> r < fst y" "distinct (map fst ys)"
    using sorted by (auto simp: sorted_wrt_append strict_sorted_iff)
  have succ: "0 \<le> sint (front_link ys (- 1)) \<longleftrightarrow> ys \<noteq> []"
    "\<And>y zs. ys = y # zs \<Longrightarrow> as_usize (front_link ys (- 1)) = fst y \<and> fst y < length sy"
    using lk(6) small by (cases ys; simp add: index_word)+
  have "0 \<le> sint (sy_next (sy ! r)) \<Longrightarrow> as_usize (sy_next (sy ! r)) < length sy"
    using succ by (cases ys) (simp_all add: lk(5))
  from absorb_result[OF lk(2,3) _ this] order(1) obtain sy' where sy': "absorb sy l r = Some sy'" "length sy' = length sy"
    and nth: "\<And>i. i < length sy \<Longrightarrow> sy' ! i =
      (let s = if i = l then (sy ! l)\<lparr>sy_len := sy_len (sy ! l) + sy_len (sy ! r), sy_next := sy_next (sy ! r)\<rparr>
               else if i = r then (sy ! r)\<lparr>sy_len := 0\<rparr> else sy ! i
       in if 0 \<le> sint (sy_next (sy ! r)) \<and> i = as_usize (sy_next (sy ! r))
          then s\<lparr>sy_prev := word_of_nat l\<rparr> else s)"
    by blast
  have at_l: "sy' ! l = \<lparr>sy_prev = back_link (- 1) xs, sy_next = front_link ys (- 1), sy_start = length (texts xs), sy_len = length v + length w\<rparr>"
    using nth[of l] succ order lk(2) by (cases ys) (auto simp: lk(4,5) Let_def)
  have at_r: "sy_len (sy' ! r) = 0"
    using nth[of r] succ order(1,3) lk(3) by (cases ys) (auto simp: lk(5) Let_def)
  have at_y: "sy' ! fst y = (sy ! fst y)\<lparr>sy_prev := word_of_nat l\<rparr>" if "ys = y # zs" for y zs
    using nth[of "fst y"] succ order(1,3) that by (auto simp: lk(5) Let_def)
  have other: "sy' ! i = sy ! i" if "i < length sy" "i \<noteq> l" "i \<noteq> r" "\<And>y zs. ys = y # zs \<Longrightarrow> i \<noteq> fst y" for i
    using nth[of i] succ that by (cases ys) (auto simp: lk(5) Let_def)
  have in_ys: "i < length sy" if "i \<in> fst ` set ys" for i
    using linked_index[OF lk(6)] that by auto
  have in_xs: "fst x < length sy" if "x \<in> set xs" for x
    using linked_index[OF lk(1)] that by blast
  have "linked sy' (word_of_nat l) (length (texts xs) + length v + length w) ys (- 1)"
  proof (rule linked_relink[OF lk(6) sy'(2) order(4)])
    fix y zs i assume ys: "ys = y # zs" "i \<in> fst ` set zs"
    have "r < fst y" "\<forall>z \<in> set zs. fst y < fst z" using sorted by (auto simp: ys(1) sorted_wrt_append)
    then have "r < i" "fst y < i" using ys(2) by auto
    then show "sy' ! i = sy ! i" using ys in_ys[of i] order(1) by (intro other) auto
  qed (rule at_y)
  moreover have "linked sy' (- 1) 0 xs (word_of_nat l)"
  proof (rule linked_keep[OF lk(1)])
    fix i assume "i \<in> fst ` set xs"
    then have "i < l" "i < length sy" using order(2) in_xs by auto
    then show "sy' ! i = sy ! i" using order(1) by (intro other) (auto dest: order(3))
  qed (simp add: sy'(2))
  ultimately have "linked sy' (- 1) 0 (xs @ (l, v @ w) # ys) (- 1)"
    using lk(2) sy'(2) at_l by (simp add: add.assoc)
  moreover have "sy_len (sy' ! i) = 0" if "i < length sy'" "i \<notin> fst ` set (xs @ (l, v @ w) # ys)" for i
  proof (cases "i = r")
    case False
    then have "sy' ! i = sy ! i" using that sy'(2) by (intro other) auto
    then show ?thesis using shown that False sy'(2) by (auto simp: symbols_show_def)
  qed (simp add: at_r)
  moreover have "sy' \<noteq> [] \<longrightarrow> (\<exists>u zs. xs @ (l, v @ w) # ys = (0, u) # zs)"
    using shown lk(2) by (cases xs) (auto simp: symbols_show_def)
  ultimately have "symbols_show sy' (xs @ (l, v @ w) # ys)"
    using shown small sorted sy'(2)
    by (auto simp: symbols_show_def text_piece_def text_ok_appendI sorted_wrt_append)
  with sy' show thesis using that by blast
qed

text \<open>The fresh list has a symbol for every character.\<close>

lemma split_chars_from_linked:
  assumes "linked sy (- 1) 0 (enumerate 0 cs) (- 1)" and "length sy = length cs"
  shows "linked (split_chars_from ds (length (concat cs)) sy) (- 1) 0 (enumerate 0 (cs @ ds)) (- 1) \<and>
    length (split_chars_from ds (length (concat cs)) sy) = length (cs @ ds)"
  using assms
proof (induction ds arbitrary: cs sy)
  case (Cons d ds)
  let ?n = "length sy"
  let ?new = "\<lparr>sy_prev = word_of_nat ?n - 1, sy_next = - 1, sy_start = length (concat cs), sy_len = length d\<rparr>"
  let ?sy = "if ?n > 0 then (sy @ [?new])[?n - 1 := (sy ! (?n - 1))\<lparr>sy_next := word_of_nat ?n\<rparr>] else sy @ [?new]"
  have "linked ?sy (- 1) 0 (enumerate 0 (cs @ [d])) (- 1)"
  proof (cases cs rule: rev_cases)
    case Nil
    then show ?thesis using Cons.prems by simp
  next
    case (snoc bs b)
    then have len: "length sy = Suc (length bs)" using Cons.prems by simp
    then have "linked sy (- 1) 0 (enumerate 0 bs) (word_of_nat (length bs))"
      using Cons.prems snoc by (simp add: enumerate_append_eq)
    then have "linked ?sy (- 1) 0 (enumerate 0 bs) (word_of_nat (length bs))"
      by (rule linked_keep) (auto simp: in_set_enumerate_eq nth_append len)
    then show ?thesis using Cons.prems snoc len
      by (simp add: enumerate_append_eq nth_append)
  qed
  moreover have "length ?sy = length (cs @ [d])" using Cons.prems by simp
  ultimately have "linked (split_chars_from ds (length (concat (cs @ [d]))) ?sy) (- 1) 0 (enumerate 0 ((cs @ [d]) @ ds)) (- 1) \<and>
      length (split_chars_from ds (length (concat (cs @ [d]))) ?sy) = length ((cs @ [d]) @ ds)"
    by (rule Cons.IH)
  moreover have "split_chars_from (d # ds) (length (concat cs)) sy = split_chars_from ds (length (concat (cs @ [d]))) ?sy"
    by (simp add: Let_def nth_append)
  ultimately show ?case by (simp only:) simp
qed simp

lemma split_chars_show:
  assumes "text_ok t" and "length (chars t) < 2 ^ 31"
  shows "symbols_show (split_chars t) (enumerate 0 (chars t))" and "length (split_chars t) = length (chars t)"
proof -
  have l: "linked (split_chars t) (- 1) 0 (enumerate 0 (chars t)) (- 1)" "length (split_chars t) = length (chars t)"
    using split_chars_from_linked[of "[]" "[]" "chars t"] by (simp_all add: split_chars_def)
  then show "length (split_chars t) = length (chars t)" by simp
  have "text_piece c" if "c \<in> set (chars t)" for c
    using assms(1) that chars_concat_only[of "[c]"] by (auto simp: text_piece_def text_ok_def list_all_iff char_ok_def)
  then have "\<forall>x \<in> set (enumerate 0 (chars t)). text_piece (snd x)"
    by (auto simp: in_set_enumerate_eq)
  moreover have "split_chars t \<noteq> [] \<longrightarrow> (\<exists>w ys. enumerate 0 (chars t) = (0, w) # ys)"
    using l(2) by (cases "chars t") auto
  ultimately show "symbols_show (split_chars t) (enumerate 0 (chars t))"
    using l assms(2) by (simp add: symbols_show_def flip: set_map)
qed

end
