(* ===== verification/Tok_Merge.thy ===== *)
theory Tok_Merge
  imports Tok_Symbols "HOL-Library.Sublist"
begin

text \<open>
  The contract of the two merge loops, greedy merging of the best adjacent pair, and the interface
  through which a loop that keeps stale candidates in a priority queue is proved to meet it. The
  loops of \<open>bpe.rs\<close> and \<open>spm.rs\<close> interpret the locale with their own candidate records.
\<close>

section \<open>Greedy merging\<close>

text \<open>
  The pairs that may be merged, with what they weigh and where they stand; the one that weighs
  least is merged, the left-most one of several.
\<close>

definition candidates :: "(utf8 \<Rightarrow> utf8 \<Rightarrow> 'k option) \<Rightarrow> utf8 list \<Rightarrow> ('k \<times> nat) list" where
  "candidates weight ps =
     concat (map (\<lambda>i. case weight (ps ! i) (ps ! Suc i) of None \<Rightarrow> [] | Some k \<Rightarrow> [(k, i)]) [0..<length ps - 1])"

definition join_at :: "nat \<Rightarrow> utf8 list \<Rightarrow> utf8 list" where
  "join_at i ps = take i ps @ (ps ! i @ ps ! Suc i) # drop (Suc (Suc i)) ps"

lemma candidates_set:
  "set (candidates weight ps) = {(k, i). Suc i < length ps \<and> weight (ps ! i) (ps ! Suc i) = Some k}"
  by (auto simp: candidates_def split: option.splits)

lemma length_join_at: "Suc i < length ps \<Longrightarrow> length (join_at i ps) < length ps"
  by (simp add: join_at_def)

function greedy :: "(utf8 \<Rightarrow> utf8 \<Rightarrow> ('k::linorder) option) \<Rightarrow> utf8 list \<Rightarrow> utf8 list" where
  "greedy weight ps =
     (case candidates weight ps of
        [] \<Rightarrow> ps
      | c # cs \<Rightarrow> greedy weight (join_at (snd (Min (set (c # cs)))) ps))"
  by pat_completeness auto
termination
proof (relation "measure (\<lambda>(weight, ps). length ps)")
  fix weight :: "utf8 \<Rightarrow> utf8 \<Rightarrow> ('k::linorder) option" and ps c cs
  assume cands: "candidates weight ps = c # cs"
  have "Min (set (c # cs)) \<in> set (c # cs)" by (rule Min_in) auto
  then have "Min (set (c # cs)) \<in> set (candidates weight ps)" by (simp only: cands)
  then have "Suc (snd (Min (set (c # cs)))) < length ps" by (auto simp: candidates_set)
  then show "((weight, join_at (snd (Min (set (c # cs)))) ps), weight, ps) \<in> measure (\<lambda>(weight, ps). length ps)"
    by (simp add: length_join_at)
qed simp

declare greedy.simps [simp del]

lemma greedy_stop: "set (candidates weight ps) = {} \<Longrightarrow> greedy weight ps = ps"
  by (subst greedy.simps) simp

lemma greedy_step:
  assumes "(k, i) \<in> set (candidates weight ps)" and "\<And>c. c \<in> set (candidates weight ps) \<Longrightarrow> (k, i) \<le> c"
  shows "greedy weight ps = greedy weight (join_at i ps)"
proof -
  have "Min (set (candidates weight ps)) = (k, i)" using assms by (intro Min_eqI) auto
  then show ?thesis using assms(1) by (subst greedy.simps) (auto split: list.split)
qed

lemma concat_join_at: "Suc i < length ps \<Longrightarrow> concat (join_at i ps) = concat ps"
proof -
  assume "Suc i < length ps"
  then have "ps = take i ps @ ps ! i # ps ! Suc i # drop (Suc (Suc i)) ps"
    by (metis Cons_nth_drop_Suc Suc_lessD append_take_drop_id)
  then have "concat ps = concat (take i ps @ ps ! i # ps ! Suc i # drop (Suc (Suc i)) ps)" by simp
  then show ?thesis by (simp add: join_at_def)
qed

text \<open>Greedy merging keeps what every merge keeps.\<close>

lemma greedy_invariant:
  assumes "P ps"
    and "\<And>ps i k. P ps \<Longrightarrow> Suc i < length ps \<Longrightarrow> weight (ps ! i) (ps ! Suc i) = Some k \<Longrightarrow> P (join_at i ps)"
  shows "P (greedy weight ps)"
  using assms
proof (induction weight ps rule: greedy.induct)
  case (1 weight ps)
  show ?case
  proof (cases "candidates weight ps")
    case Nil
    then show ?thesis using 1(2) by (subst greedy.simps) simp
  next
    case (Cons c cs)
    obtain k i where m: "Min (set (c # cs)) = (k, i)" by fastforce
    have "Min (set (c # cs)) \<in> set (c # cs)" by (rule Min_in) auto
    then have "(k, i) \<in> set (candidates weight ps)" by (simp only: Cons m)
    then have "Suc i < length ps" "weight (ps ! i) (ps ! Suc i) = Some k" by (auto simp: candidates_set)
    then have "P (join_at i ps)" using 1 by blast
    then have "P (greedy weight (join_at i ps))" using 1(1)[OF Cons, unfolded m snd_conv] 1(3) by blast
    then show ?thesis by (subst greedy.simps) (simp only: Cons list.case m snd_conv)
  qed
qed

lemma concat_greedy: "concat (greedy weight ps) = concat ps"
  by (rule greedy_invariant) (simp_all add: concat_join_at)

section \<open>Neighbours\<close>

fun adjacent :: "'a list \<Rightarrow> 'a \<Rightarrow> 'a \<Rightarrow> bool" where
  "adjacent (a # b # as) x y \<longleftrightarrow> a = x \<and> b = y \<or> adjacent (b # as) x y"
| "adjacent _ x y \<longleftrightarrow> False"

lemma adjacent_Cons: "adjacent (a # as) x y \<longleftrightarrow> as \<noteq> [] \<and> a = x \<and> hd as = y \<or> adjacent as x y"
  by (cases as) auto

lemma adjacent_append:
  "adjacent (as @ bs) x y \<longleftrightarrow>
     adjacent as x y \<or> adjacent bs x y \<or> as \<noteq> [] \<and> bs \<noteq> [] \<and> last as = x \<and> hd bs = y"
  by (induction as) (auto simp: adjacent_Cons)

lemma adjacent_in: "adjacent xs x y \<Longrightarrow> x \<in> set xs \<and> y \<in> set xs"
  by (induction xs) (auto simp: adjacent_Cons)

lemma adjacent_split: "adjacent xs x y \<longleftrightarrow> (\<exists>ys zs. xs = ys @ x # y # zs)"
proof
  show "adjacent xs x y \<Longrightarrow> \<exists>ys zs. xs = ys @ x # y # zs"
  proof (induction xs x y rule: adjacent.induct)
    case (1 a b as x y)
    then show ?case by (metis adjacent.simps(1) append_Cons append_Nil)
  qed simp_all
qed (auto simp: adjacent_append)

lemma adjacent_nth: "Suc i < length xs \<Longrightarrow> adjacent xs (xs ! i) (xs ! Suc i)"
proof (induction xs arbitrary: i)
  case (Cons a xs)
  then show ?case by (cases i; cases xs) (auto simp: adjacent_Cons)
qed simp


section \<open>A queue of candidates that may be stale\<close>

text \<open>
  A loop puts a candidate \<open>make l r v w k\<close> into its queue when the symbols \<open>l\<close> and \<open>r\<close> are
  neighbours with the texts \<open>v\<close> and \<open>w\<close>; it orders the queue by \<open>key\<close>, and takes a popped
  candidate for \<open>fresh\<close> by looking at the current lengths of its two symbols only.
\<close>

locale merge_queue =
  fixes make :: "nat \<Rightarrow> nat \<Rightarrow> utf8 \<Rightarrow> utf8 \<Rightarrow> 's \<Rightarrow> 'b"
    and rank :: "'s \<Rightarrow> 'k::linorder"
    and left_of :: "'b \<Rightarrow> nat" and right_of :: "'b \<Rightarrow> nat"
    and key :: "'b \<Rightarrow> 'k \<times> int"
    and fresh :: "'b \<Rightarrow> nat \<Rightarrow> nat \<Rightarrow> bool"
  assumes make_left: "l < 2 ^ 31 \<Longrightarrow> left_of (make l r v w k) = l"
    and make_right: "r < 2 ^ 31 \<Longrightarrow> right_of (make l r v w k) = r"
    and make_key: "l < 2 ^ 31 \<Longrightarrow> key (make l r v w k) = (rank k, int l)"
    and fresh_new: "v \<noteq> [] \<Longrightarrow> w \<noteq> [] \<Longrightarrow> fresh (make l r v w k) (length v) (length w)"
    and fresh_grown: "prefix v v' \<Longrightarrow> prefix w w' \<Longrightarrow> v' \<noteq> [] \<Longrightarrow> w' \<noteq> [] \<Longrightarrow>
      fresh (make l r v w k) (length v') (length w') \<Longrightarrow> v' = v \<and> w' = w"
    and fresh_live: "fresh b m n \<Longrightarrow> 0 < m \<and> 0 < n"
begin

definition ranked :: "(utf8 \<Rightarrow> utf8 \<Rightarrow> 's option) \<Rightarrow> utf8 \<Rightarrow> utf8 \<Rightarrow> 'k option" where
  "ranked weight v w = map_option rank (weight v w)"

definition sound :: "(utf8 \<Rightarrow> utf8 \<Rightarrow> 's option) \<Rightarrow> nat \<Rightarrow> live \<Rightarrow> 'b \<Rightarrow> bool" where
  "sound weight n xs b \<longleftrightarrow>
     (\<exists>l r v w k. b = make l r v w k \<and> l < n \<and> r < n \<and> v \<noteq> [] \<and> w \<noteq> [] \<and> weight v w = Some k \<and>
       (\<forall>u. (l, u) \<in> set xs \<longrightarrow> prefix v u) \<and> (\<forall>u. (r, u) \<in> set xs \<longrightarrow> prefix w u) \<and>
       ((l, v) \<in> set xs \<longrightarrow> (r, w) \<in> set xs \<longrightarrow> adjacent xs (l, v) (r, w)))"

definition covered :: "(utf8 \<Rightarrow> utf8 \<Rightarrow> 's option) \<Rightarrow> live \<Rightarrow> 'b set \<Rightarrow> bool" where
  "covered weight xs q \<longleftrightarrow>
     (\<forall>l v r w k. adjacent xs (l, v) (r, w) \<longrightarrow> weight v w = Some k \<longrightarrow> make l r v w k \<in> q)"

definition queue_ok :: "(utf8 \<Rightarrow> utf8 \<Rightarrow> 's option) \<Rightarrow> symbol list \<Rightarrow> live \<Rightarrow> 'b set \<Rightarrow> bool" where
  "queue_ok weight sy xs q \<longleftrightarrow>
     symbols_show sy xs \<and> (\<forall>b \<in> q. sound weight (length sy) xs b) \<and> covered weight xs q"

definition offer :: "(utf8 \<Rightarrow> utf8 \<Rightarrow> 's option) \<Rightarrow> nat \<times> utf8 \<Rightarrow> nat \<times> utf8 \<Rightarrow> 'b set" where
  "offer weight x y =
     (case weight (snd x) (snd y) of None \<Rightarrow> {} | Some k \<Rightarrow> {make (fst x) (fst y) (snd x) (snd y) k})"

text \<open>A candidate that looks fresh is about two neighbours with the texts it was made for.\<close>

lemma sound_fresh:
  assumes "symbols_show sy xs" and "sound weight (length sy) xs b"
    and "fresh b (sy_len (sy ! left_of b)) (sy_len (sy ! right_of b))"
  obtains l r v w k where "b = make l r v w k" and "left_of b = l" and "right_of b = r"
    and "weight v w = Some k" and "adjacent xs (l, v) (r, w)"
proof -
  obtain l r v w k where b: "b = make l r v w k" "l < length sy" "r < length sy" "weight v w = Some k"
    and pre: "\<forall>u. (l, u) \<in> set xs \<longrightarrow> prefix v u" "\<forall>u. (r, u) \<in> set xs \<longrightarrow> prefix w u"
    and adj: "(l, v) \<in> set xs \<longrightarrow> (r, w) \<in> set xs \<longrightarrow> adjacent xs (l, v) (r, w)"
    using assms(2) unfolding sound_def by blast
  have lr: "left_of b = l" "right_of b = r"
    using b symbols_showD(2)[OF assms(1)] by (simp_all add: make_left make_right)
  then have live: "0 < sy_len (sy ! l)" "0 < sy_len (sy ! r)" using fresh_live[OF assms(3)] by simp_all
  obtain v' where v': "(l, v') \<in> set xs" using symbols_show_live[OF assms(1) b(2) live(1)] .
  obtain w' where w': "(r, w') \<in> set xs" using symbols_show_live[OF assms(1) b(3) live(2)] .
  note at = symbols_show_at[OF assms(1) v'] symbols_show_at[OF assms(1) w']
  have "v' = v \<and> w' = w"
    using pre v' w' at assms(3) by (intro fresh_grown[where l = l and r = r and k = k]) (simp_all add: lr flip: b(1))
  then show thesis using that[OF b(1) lr b(4)] adj v' w' by simp
qed

lemma sound_index:
  assumes "symbols_show sy xs" and "sound weight (length sy) xs b"
  shows "left_of b < length sy" and "right_of b < length sy"
  using assms symbols_showD(2)[OF assms(1)] by (auto simp: sound_def make_left make_right)

lemma fresh_if_adjacent:
  assumes "symbols_show sy xs" and "adjacent xs (l, v) (r, w)"
  shows "fresh (make l r v w k) (sy_len (sy ! l)) (sy_len (sy ! r))"
    and "left_of (make l r v w k) = l" and "right_of (make l r v w k) = r"
proof -
  have in_xs: "(l, v) \<in> set xs" "(r, w) \<in> set xs" using adjacent_in[OF assms(2)] by simp_all
  note at = symbols_show_at[OF assms(1) in_xs(1)] symbols_show_at[OF assms(1) in_xs(2)]
  then show "fresh (make l r v w k) (sy_len (sy ! l)) (sy_len (sy ! r))"
    "left_of (make l r v w k) = l" "right_of (make l r v w k) = r"
    by (simp_all add: fresh_new make_left make_right)
qed

text \<open>A stale candidate may be dropped.\<close>

lemma drop_stale:
  assumes "queue_ok weight sy xs (insert b q)"
    and "\<not> fresh b (sy_len (sy ! left_of b)) (sy_len (sy ! right_of b))"
  shows "queue_ok weight sy xs q"
proof -
  have "make l r v w k \<in> q" if "adjacent xs (l, v) (r, w)" "weight v w = Some k" for l v r w k
  proof -
    have "make l r v w k \<in> insert b q" using assms(1) that by (auto simp: queue_ok_def covered_def)
    moreover have "make l r v w k \<noteq> b"
      using assms fresh_if_adjacent[OF _ that(1), of sy k] by (auto simp: queue_ok_def)
    ultimately show ?thesis by simp
  qed
  then show ?thesis using assms(1) by (auto simp: queue_ok_def covered_def)
qed

text \<open>An empty queue means that greedy merging has stopped.\<close>

lemma queue_empty: "queue_ok weight sy xs {} \<Longrightarrow> greedy (ranked weight) (map snd xs) = map snd xs"
proof (rule greedy_stop, rule equals0I)
  fix c assume "queue_ok weight sy xs {}" "c \<in> set (candidates (ranked weight) (map snd xs))"
  then show False
    using adjacent_nth[of "snd c" xs]
    by (cases c; cases "xs ! snd c"; cases "xs ! Suc (snd c)") (auto simp: candidates_set ranked_def queue_ok_def covered_def)
qed

text \<open>Joining two neighbours keeps what the queue says about the others.\<close>

lemma sound_join:
  assumes shown: "symbols_show sy (ys @ (l, v) # (r, w) # zs)"
    and "sound weight n (ys @ (l, v) # (r, w) # zs) b" (is "sound weight n ?old b")
  shows "sound weight n (ys @ (l, v @ w) # zs) b" (is "sound weight n ?new b")
proof -
  obtain l' r' v' w' k where b: "b = make l' r' v' w' k" "l' < n" "r' < n" "v' \<noteq> []" "w' \<noteq> []" "weight v' w' = Some k"
    and pre: "\<forall>u. (l', u) \<in> set ?old \<longrightarrow> prefix v' u" "\<forall>u. (r', u) \<in> set ?old \<longrightarrow> prefix w' u"
    and adj: "(l', v') \<in> set ?old \<longrightarrow> (r', w') \<in> set ?old \<longrightarrow> adjacent ?old (l', v') (r', w')"
    using assms(2) unfolding sound_def by blast
  have ne: "w \<noteq> []" using symbols_show_at(4)[OF shown, of r w] by simp
  have dist: "distinct (map fst ys @ l # r # map fst zs)"
    using symbols_showD(3)[OF shown] by (simp add: strict_sorted_iff)
  have new_cases: "(i, u) \<in> set ?old \<or> i = l \<and> u = v @ w" if "(i, u) \<in> set ?new" for i u
    using that by auto
  have grown: "prefix x u" if "\<forall>u. (i, u) \<in> set ?old \<longrightarrow> prefix x u" "(i, u) \<in> set ?new" for i x u
    using new_cases[OF that(2)]
  proof
    assume "i = l \<and> u = v @ w"
    moreover have "(l, v) \<in> set ?old" by simp
    ultimately show ?thesis using that(1) prefix_prefix by blast
  qed (use that(1) in blast)
  have not_l: "i \<noteq> l" if "\<forall>u. (i, u) \<in> set ?old \<longrightarrow> prefix x u" "(i, x) \<in> set ?new" for i x
  proof
    assume i: "i = l"
    have "l \<notin> fst ` set ys" "l \<notin> fst ` set zs" using dist by auto
    then have "x = v @ w" using that(2) i by (auto simp: image_iff)
    moreover have "prefix x v" using that(1) i by simp
    ultimately show False using ne prefix_length_le[of x v] by simp
  qed
  have "adjacent ?new (l', v') (r', w')" if new: "(l', v') \<in> set ?new" "(r', w') \<in> set ?new"
  proof -
    have not: "l' \<noteq> l" "r' \<noteq> l" using not_l[OF pre(1) new(1)] not_l[OF pre(2) new(2)] .
    have "r \<notin> fst ` set ?new" using dist by auto
    then have "l' \<noteq> r" "r' \<noteq> r" using new by (metis fst_conv image_eqI)+
    moreover have "adjacent ?old (l', v') (r', w')" using adj not new_cases[OF new(1)] new_cases[OF new(2)] by blast
    ultimately show ?thesis using not by (auto simp: adjacent_append adjacent_Cons)
  qed
  then show ?thesis unfolding sound_def using b grown[OF pre(1)] grown[OF pre(2)] by blast
qed

lemma sound_offer:
  assumes "symbols_show sy xs" and "adjacent xs x y" and "b \<in> offer weight x y"
  shows "sound weight (length sy) xs b"
proof -
  obtain k where b: "b = make (fst x) (fst y) (snd x) (snd y) k" "weight (snd x) (snd y) = Some k"
    using assms(3) by (auto simp: offer_def split: option.splits)
  have in_xs: "(fst x, snd x) \<in> set xs" "(fst y, snd y) \<in> set xs" using adjacent_in[OF assms(2)] by simp_all
  then show ?thesis unfolding sound_def
    using b assms(2) symbols_show_at[OF assms(1) in_xs(1)] symbols_show_at[OF assms(1) in_xs(2)]
      symbols_show_unique[OF assms(1) _ in_xs(1)] symbols_show_unique[OF assms(1) _ in_xs(2)]
    by (intro exI[of _ "fst x"] exI[of _ "fst y"] exI[of _ "snd x"] exI[of _ "snd y"] exI[of _ k]) auto
qed

text \<open>The popped candidate is the pair that greedy merging would take.\<close>

lemma popped_is_best:
  assumes "queue_ok weight sy xs q" and "make l r v w k \<in> q" and "\<forall>c \<in> q. key (make l r v w k) \<le> key c"
    and xs: "xs = ys @ (l, v) # (r, w) # zs" and "weight v w = Some k"
  shows "greedy (ranked weight) (map snd xs) = greedy (ranked weight) (map snd (ys @ (l, v @ w) # zs))"
proof -
  have shown: "symbols_show sy xs" and cov: "covered weight xs q" using assms(1) by (simp_all add: queue_ok_def)
  have l: "l < 2 ^ 31" using symbols_show_at(2)[OF shown, of l v] xs by simp
  have sorted: "sorted_wrt (<) (map fst xs)" using symbols_showD(3)[OF shown] .
  have "(rank k, length ys) \<in> set (candidates (ranked weight) (map snd xs))"
    using assms(5) by (simp add: candidates_set ranked_def xs nth_append)
  moreover have "(rank k, length ys) \<le> c" if "c \<in> set (candidates (ranked weight) (map snd xs))" for c
  proof -
    obtain k' i where c: "c = (rank k', i)" "Suc i < length xs" "weight (snd (xs ! i)) (snd (xs ! Suc i)) = Some k'"
      using \<open>c \<in> _\<close> by (auto simp: candidates_set ranked_def)
    then have "make (fst (xs ! i)) (fst (xs ! Suc i)) (snd (xs ! i)) (snd (xs ! Suc i)) k' \<in> q"
      using cov adjacent_nth[OF c(2)] unfolding covered_def by (metis prod.collapse)
    moreover have "fst (xs ! i) < 2 ^ 31"
      using symbols_show_at(2)[OF shown, of "fst (xs ! i)" "snd (xs ! i)"] c(2) by simp
    ultimately have "(rank k, int l) \<le> (rank k', int (fst (xs ! i)))" using assms(3) l by (metis make_key)
    moreover have "fst (xs ! i) < l" if "i < length ys"
      using sorted_wrt_nth_less[OF sorted, of i "length ys"] that by (simp add: xs nth_append)
    ultimately show ?thesis using c(1) by (cases "i < length ys") auto
  qed
  ultimately have "greedy (ranked weight) (map snd xs) = greedy (ranked weight) (join_at (length ys) (map snd xs))" by (rule greedy_step)
  then show ?thesis by (simp add: join_at_def xs nth_append)
qed

lemma merge_step:
  assumes ok: "queue_ok weight sy xs (insert b q)" and least: "\<forall>c \<in> insert b q. key b \<le> key c"
    and fr: "fresh b (sy_len (sy ! left_of b)) (sy_len (sy ! right_of b))"
  obtains ys v w zs sy' where "xs = ys @ (left_of b, v) # (right_of b, w) # zs"
    and "absorb sy (left_of b) (right_of b) = Some sy'" and "length sy' = length sy"
    and "greedy (ranked weight) (map snd xs) = greedy (ranked weight) (map snd (ys @ (left_of b, v @ w) # zs))"
    and "queue_ok weight sy' (ys @ (left_of b, v @ w) # zs)
      (q \<union> (if ys = [] then {} else offer weight (last ys) (left_of b, v @ w)) \<union>
        (if zs = [] then {} else offer weight (left_of b, v @ w) (hd zs)))"
proof -
  have shown: "symbols_show sy xs" and snd: "\<forall>c \<in> insert b q. sound weight (length sy) xs c"
    and cov: "covered weight xs (insert b q)" using ok by (simp_all add: queue_ok_def)
  obtain l r v w k where b: "b = make l r v w k" "left_of b = l" "right_of b = r" "weight v w = Some k"
    and "adjacent xs (l, v) (r, w)" using sound_fresh[OF shown _ fr] snd by blast
  then obtain ys zs where xs: "xs = ys @ (l, v) # (r, w) # zs" by (auto simp: adjacent_split)
  let ?new = "ys @ (l, v @ w) # zs"
  let ?q = "q \<union> (if ys = [] then {} else offer weight (last ys) (l, v @ w)) \<union>
    (if zs = [] then {} else offer weight (l, v @ w) (hd zs))"
  obtain sy' where sy': "absorb sy l r = Some sy'" "symbols_show sy' ?new" "length sy' = length sy"
    using absorb_show[OF shown[unfolded xs]] .
  have "sound weight (length sy') ?new c" if c: "c \<in> ?q" for c
  proof -
    consider "c \<in> q" | "ys \<noteq> []" "c \<in> offer weight (last ys) (l, v @ w)"
      | "zs \<noteq> []" "c \<in> offer weight (l, v @ w) (hd zs)" using c by (auto split: if_splits)
    then show ?thesis
    proof cases
      case 1
      then show ?thesis using sound_join[OF shown[unfolded xs]] snd sy'(3) by (simp add: xs)
    qed (rule sound_offer[OF sy'(2)], auto simp: adjacent_append adjacent_Cons)+
  qed
  moreover have "make l' r' v' w' k' \<in> ?q"
    if adj: "adjacent ?new (l', v') (r', w')" and k': "weight v' w' = Some k'" for l' r' v' w' k'
  proof -
    have dist: "l \<notin> fst ` set ys" "l \<notin> fst ` set zs"
      using symbols_showD(3)[OF sy'(2)] by (auto simp: strict_sorted_iff)
    have old: "make l' r' v' w' k' \<in> q" if "adjacent ys (l', v') (r', w') \<or> adjacent zs (l', v') (r', w')"
    proof -
      have adj': "adjacent xs (l', v') (r', w')" using that by (auto simp: xs adjacent_append adjacent_Cons)
      then have "make l' r' v' w' k' \<in> insert b q" using cov k' unfolding covered_def by blast
      moreover have "(l', v') \<in> set ys \<union> set zs" using that adjacent_in by fastforce
      then have "l' \<noteq> l" using dist by (metis Un_iff fst_conv image_eqI)
      then have "make l' r' v' w' k' \<noteq> b" using fresh_if_adjacent(2)[OF shown adj'] b(2) by metis
      ultimately show ?thesis by simp
    qed
    consider "adjacent ys (l', v') (r', w') \<or> adjacent zs (l', v') (r', w')"
      | "ys \<noteq> []" "last ys = (l', v')" "(l, v @ w) = (r', w')" | "zs \<noteq> []" "(l, v @ w) = (l', v')" "hd zs = (r', w')"
      using adj by (auto simp: adjacent_append adjacent_Cons)
    then show ?thesis by cases (auto simp: old offer_def k')
  qed
  ultimately have "queue_ok weight sy' ?new ?q" using sy'(2) unfolding queue_ok_def covered_def by blast
  moreover have "greedy (ranked weight) (map snd xs) = greedy (ranked weight) (map snd ?new)"
    using popped_is_best[OF ok _ _ xs b(4)] least by (simp add: b(1))
  ultimately show thesis using that[of ys v w zs sy', unfolded b(2,3)] xs sy' by blast
qed

text \<open>Before the loop, every pair of characters has been offered.\<close>

lemma queue_start:
  assumes "text_ok t" and "length (chars t) < 2 ^ 31"
    and "q = (\<Union>i \<in> {i. Suc i < length (chars t)}. offer weight (i, chars t ! i) (Suc i, chars t ! Suc i))"
  shows "queue_ok weight (split_chars t) (enumerate 0 (chars t)) q"
proof -
  let ?xs = "enumerate 0 (chars t)"
  have shown: "symbols_show (split_chars t) ?xs" using split_chars_show[OF assms(1,2)] by simp
  have "sound weight (length (split_chars t)) ?xs b" if b: "b \<in> q" for b
  proof -
    obtain i where "Suc i < length (chars t)" "b \<in> offer weight (i, chars t ! i) (Suc i, chars t ! Suc i)"
      using b assms(3) by blast
    then show ?thesis using sound_offer[OF shown adjacent_nth[of i ?xs]] by (simp add: nth_enumerate_eq)
  qed
  moreover have "make l r v w k \<in> q" if adj: "adjacent ?xs (l, v) (r, w)" "weight v w = Some k" for l r v w k
  proof -
    obtain ys zs where xs: "?xs = ys @ (l, v) # (r, w) # zs" using adj by (auto simp: adjacent_split)
    then have len: "Suc (length ys) < length (chars t)" using length_enumerate[of 0 "chars t"] unfolding xs by simp
    have "?xs ! length ys = (l, v)" "?xs ! Suc (length ys) = (r, w)" by (simp_all add: xs nth_append)
    then have "l = length ys" "v = chars t ! l" "r = Suc l" "w = chars t ! Suc l"
      using len by (auto simp: nth_enumerate_eq)
    then show ?thesis using len adj(2) by (auto simp: assms(3) offer_def)
  qed
  ultimately show ?thesis using shown unfolding queue_ok_def covered_def by blast
qed

end

end
