(* ===== verification/Tok_Vocab.thy ===== *)
theory Tok_Vocab
  imports Tok_Text Gguf_Metadata "HOL-Library.Product_Lexorder"
begin

text \<open>
  The vocabulary of \<open>gguf_vocab/mod.rs\<close>: its types, the readers of the GGUF metadata, what
  \<open>from_metadata\<close> builds out of a store, and the lookups; and the pre-tokenizer families of
  \<open>pretok.rs\<close>. A \<open>HashMap\<close> is an association list with distinct keys. The regular expressions
  belong to the crate \<open>fancy-regex\<close>: a compiled one is a value of the type \<open>'re\<close>, compiling the
  pattern list of a family is the parameter \<open>compile\<close>.
\<close>

section \<open>Pre-tokenizer families\<close>

datatype pre_type =
    PreDefault | Llama3 | Qwen2 | Qwen35 | DeepSeekLlm | DeepSeekCoder | DeepSeek3Llm | Falcon | StarCoder
  | Gpt2 | Bloom | Viking | ChatGlm4 | Tekken | Gpt4o | SeedCoder | BailingMoe | Grok2 | Dbrx

definition pre_type_from_name :: "string \<Rightarrow> pre_type option" where
  "pre_type_from_name name =
     (if name = ''default'' then Some PreDefault
      else if name \<in> set [''llama3'', ''llama-v3'', ''llama-bpe'', ''falcon3'', ''falcon-h1'', ''pixtral'',
        ''midm-2.0'', ''lfm2'', ''jina-v5-nano''] then Some Llama3
      else if name \<in> set [''dbrx'', ''smaug-bpe''] then Some Dbrx
      else if name = ''deepseek-llm'' then Some DeepSeekLlm
      else if name = ''deepseek-coder'' then Some DeepSeekCoder
      else if name \<in> set [''deepseek-v3'', ''hunyuan-dense''] then Some DeepSeek3Llm
      else if name = ''falcon'' then Some Falcon
      else if name \<in> set [''starcoder'', ''refact'', ''command-r'', ''smollm'', ''codeshell'', ''exaone'',
        ''exaone4'', ''minerva-7b''] then Some StarCoder
      else if name \<in> set [''gpt-2'', ''phi-2'', ''jina-es'', ''jina-de'', ''jina-v1-en'', ''jina-v2-es'',
        ''jina-v2-de'', ''jina-v2-code'', ''roberta-bpe'', ''mpt'', ''olmo'', ''jais'', ''trillion'',
        ''granite-docling''] then Some Gpt2
      else if name \<in> set [''qwen2'', ''stablelm2'', ''hunyuan'', ''solar-open''] then Some Qwen2
      else if name = ''qwen35'' then Some Qwen35
      else if name \<in> set [''poro-chat'', ''bloom'', ''gpt3-finnish''] then Some Bloom
      else if name = ''viking'' then Some Viking
      else if name \<in> set [''chatglm-bpe'', ''glm4''] then Some ChatGlm4
      else if name = ''tekken'' then Some Tekken
      else if name \<in> set [''gpt-4o'', ''llama4'', ''minimax-m2''] then Some Gpt4o
      else if name = ''seed-coder'' then Some SeedCoder
      else if name \<in> set [''bailingmoe'', ''bailingmoe2''] then Some BailingMoe
      else if name = ''grok-2'' then Some Grok2
      else None)"

definition ignore_merges :: "pre_type \<Rightarrow> bool" where
  "ignore_merges pre \<longleftrightarrow> pre = Llama3 \<or> pre = Tekken"

definition implies_add_bos :: "pre_type \<Rightarrow> bool" where
  "implies_add_bos pre \<longleftrightarrow> pre = Llama3 \<or> pre = Tekken"

record 're pre_tokenizer =
  pt_regexes :: "'re list"
  pt_pre :: pre_type

section \<open>The vocabulary\<close>

datatype vocab_type = Spm | Bpe | Wpm

definition from_model_name :: "string \<Rightarrow> vocab_type option" where
  "from_model_name name =
     (if name \<in> set [''llama'', ''spm'', ''sentencepiece'', ''phi'', ''baichuan'', ''aquila'', ''mamba2'']
      then Some Spm
      else if name \<in> set [''gpt2'', ''bpe'', ''qwen'', ''qwen2'', ''deepseek'', ''bloom'', ''grok'', ''dbrx'',
        ''starcoder'', ''falcon'', ''mpt'', ''refact'', ''command-r'', ''gpt-neox'']
      then Some Bpe
      else if name \<in> set [''bert'', ''wpm'', ''wordpiece''] then Some Wpm
      else None)"

datatype token_type = Undefined | Normal | Unknown | Control | UserDefined | Unused | ByteToken

definition token_type_from_code :: "i32 \<Rightarrow> token_type" where
  "token_type_from_code code =
     (if code = 1 then Normal else if code = 2 then Unknown else if code = 3 then Control
      else if code = 4 then UserDefined else if code = 5 then Unused else if code = 6 then ByteToken
      else Undefined)"

definition tt_is_special :: "token_type \<Rightarrow> bool" where
  "tt_is_special t \<longleftrightarrow> t = Control \<or> t = Unknown"

definition tt_is_pre_split :: "token_type \<Rightarrow> bool" where
  "tt_is_pre_split t \<longleftrightarrow> t = Control \<or> t = UserDefined \<or> t = Unknown"

text \<open>The marker of SentencePiece, and the end marker of DeepSeek, spelled with it.\<close>

definition spm_space :: utf8 where
  "spm_space = encode_utf8 0x2581"

definition deepseek_end :: utf8 where
  "deepseek_end =
     str_bytes ''<'' @ encode_utf8 0xFF5C @ str_bytes ''end'' @ spm_space @ str_bytes ''of'' @ spm_space @
     str_bytes ''sentence'' @ encode_utf8 0xFF5C @ str_bytes ''>''"

definition eog_token_names :: "utf8 list" where
  "eog_token_names =
     map str_bytes [''<|eot_id|>'', ''<|im_end|>'', ''<|end|>'', ''<|return|>'', ''<|call|>'', ''<end_of_turn>'',
       ''<|endoftext|>'', ''</s>'', ''<|eom_id|>'', ''<EOT>'', ''_<EOT>'', ''[EOT]'', ''[EOS]'',
       ''<|end_of_text|>'', ''<end_of_utterance>''] @ [deepseek_end]"

definition eot_token_names :: "utf8 list" where
  "eot_token_names =
     map str_bytes [''<|eot_id|>'', ''<|im_end|>'', ''<|end|>'', ''<end_of_turn>'', ''<|endoftext|>'',
       ''<|end_of_text|>'', ''<EOT>'', ''_<EOT>'', ''[EOT]''] @ [deepseek_end] @
     [str_bytes ''<end_of_utterance>'']"

definition bos_token_names :: "utf8 list" where
  "bos_token_names = map str_bytes [''<s>'', ''<|begin_of_text|>'', ''<|startoftext|>'', ''[CLS]'']"

record 're gguf_vocab =
  gv_vocab_type :: vocab_type
  gv_pre_type :: pre_type
  gv_tokens :: "utf8 list"
  gv_scores :: "u32 list"
  gv_types :: "token_type list"
  gv_token_bytes :: "u8 list list"
  gv_token_to_id :: "(utf8 \<times> u32) list"
  gv_bpe_ranks :: "(utf8 \<times> u32) list"
  gv_pre_tokenizer :: "'re pre_tokenizer option"
  gv_pre_split_ids :: "u32 list"
  gv_bos_id :: "u32 option"
  gv_eos_id :: "u32 option"
  gv_eot_id :: "u32 option"
  gv_eom_id :: "u32 option"
  gv_unk_id :: "u32 option"
  gv_sep_id :: "u32 option"
  gv_pad_id :: "u32 option"
  gv_eog_ids :: "u32 set"
  gv_add_bos :: bool
  gv_add_eos :: bool
  gv_add_space_prefix :: bool
  gv_ignore_merges :: bool
  gv_max_token_len :: nat

datatype tokenizer_error =
    NoTokensArray
  | EmptyTokensArray
  | UnsupportedModel string
  | VocabTooLarge
  | RegexCompileFailed pre_type

section \<open>Lookups\<close>

definition gv_len :: "('re, 'z) gguf_vocab_scheme \<Rightarrow> nat" where
  "gv_len v = length (gv_tokens v)"

definition nth_opt :: "'a list \<Rightarrow> nat \<Rightarrow> 'a option" where
  "nth_opt xs i = (if i < length xs then Some (xs ! i) else None)"

definition id_to_token :: "('re, 'z) gguf_vocab_scheme \<Rightarrow> u32 \<Rightarrow> utf8 option" where
  "id_to_token v tid = nth_opt (gv_tokens v) (unat tid)"

definition token_to_id :: "('re, 'z) gguf_vocab_scheme \<Rightarrow> utf8 \<Rightarrow> u32 option" where
  "token_to_id v t = map_of (gv_token_to_id v) t"

definition token_type_of :: "('re, 'z) gguf_vocab_scheme \<Rightarrow> u32 \<Rightarrow> token_type option" where
  "token_type_of v tid = nth_opt (gv_types v) (unat tid)"

definition token_score :: "('re, 'z) gguf_vocab_scheme \<Rightarrow> u32 \<Rightarrow> u32" where
  "token_score v tid = (case nth_opt (gv_scores v) (unat tid) of None \<Rightarrow> 0 | Some s \<Rightarrow> s)"

definition token_bytes :: "('re, 'z) gguf_vocab_scheme \<Rightarrow> u32 \<Rightarrow> u8 list option" where
  "token_bytes v tid = nth_opt (gv_token_bytes v) (unat tid)"

definition is_special :: "('re, 'z) gguf_vocab_scheme \<Rightarrow> u32 \<Rightarrow> bool" where
  "is_special v tid = (case nth_opt (gv_types v) (unat tid) of None \<Rightarrow> False | Some t \<Rightarrow> tt_is_special t)"

definition is_eog :: "('re, 'z) gguf_vocab_scheme \<Rightarrow> u32 \<Rightarrow> bool" where
  "is_eog v tid \<longleftrightarrow> tid \<in> gv_eog_ids v"

definition vocab_bytes :: "('re, 'z) gguf_vocab_scheme \<Rightarrow> (u32 \<times> u8 list) list" where
  "vocab_bytes v = map (\<lambda>(i, b). (word_of_nat i, b)) (enumerate 0 (gv_token_bytes v))"

definition merge_rank :: "('re, 'z) gguf_vocab_scheme \<Rightarrow> utf8 \<Rightarrow> utf8 \<Rightarrow> u32 option" where
  "merge_rank v left right = map_of (gv_bpe_ranks v) (left @ [0x20] @ right)"

text \<open>The format \<open>02X\<close> of a byte.\<close>

definition hex_digit :: "nat \<Rightarrow> u8" where
  "hex_digit n = (if n < 10 then 0x30 + word_of_nat n else 0x41 + word_of_nat (n - 10))"

definition byte_token_text :: "u8 \<Rightarrow> utf8" where
  "byte_token_text b = str_bytes ''<0x'' @ [hex_digit (unat b div 16), hex_digit (unat b mod 16)] @ str_bytes ''>''"

definition byte_to_token :: "('re, 'z) gguf_vocab_scheme \<Rightarrow> u8 \<Rightarrow> u32 option" where
  "byte_to_token v b =
     (case gv_vocab_type v of
        Spm \<Rightarrow> (case map_of (gv_token_to_id v) (byte_token_text b) of
                  Some tid \<Rightarrow> Some tid
                | None \<Rightarrow> map_of (gv_token_to_id v) (encode_utf8 (ucast b)))
      | _ \<Rightarrow> map_of (gv_token_to_id v) (byte_to_string b))"


text \<open>\<open>detokenize_bytes\<close>: special tokens are left out on demand, an id out of range adds nothing.\<close>

definition detokenize_bytes :: "('re, 'z) gguf_vocab_scheme \<Rightarrow> u32 list \<Rightarrow> bool \<Rightarrow> u8 list" where
  "detokenize_bytes v tokens skip_special =
     concat (map (\<lambda>tid. if skip_special \<and> is_special v tid then []
                        else (case token_bytes v tid of None \<Rightarrow> [] | Some b \<Rightarrow> b)) tokens)"

lemma detokenize_append [simp]: "detokenize_bytes v (xs @ ys) b = detokenize_bytes v xs b @ detokenize_bytes v ys b"
  by (simp add: detokenize_bytes_def)

lemma detokenize_Nil [simp]: "detokenize_bytes v [] b = []"
  by (simp add: detokenize_bytes_def)

end
