(* ===== verification/Tok_Bpe.thy ===== *)
theory Tok_Bpe
  imports Tok_Merge Tok_Vocab
begin

text \<open>
  Byte-level BPE, \<open>gguf_vocab/bpe.rs\<close>: the splits of \<open>pretok.rs\<close>, the merge loop over the symbol
  list and its queue of candidate merges, and the emission of the surviving symbols. A panic (an
  index or a slice out of range) is the value \<open>None\<close>. The iterator \<open>find_iter\<close> of
  \<open>fancy-regex\<close> is a parameter: the list of its items, \<open>None\<close> for one that is an error.
\<close>

section \<open>Pre-tokenizing\<close>

text \<open>The loop over the matches; on an error the piece is kept whole.\<close>

fun split_matches :: "(nat \<times> nat) option list \<Rightarrow> utf8 \<Rightarrow> nat \<Rightarrow> utf8 list \<Rightarrow> utf8 list option" where
  "split_matches [] piece last_end out =
     (if last_end < length piece
      then map_option (\<lambda>s. out @ [s]) (str_get piece last_end (length piece))
      else Some out)"
| "split_matches (None # ms) piece last_end out = Some [piece]"
| "split_matches (Some (s, e) # ms) piece last_end out =
     Option.bind (if s > last_end then map_option (\<lambda>g. [g]) (str_get piece last_end s) else Some []) (\<lambda>gap.
     Option.bind (if e > s then map_option (\<lambda>g. [g]) (str_get piece s e) else Some []) (\<lambda>match.
     split_matches ms piece e (out @ gap @ match)))"

definition split_one :: "('re \<Rightarrow> utf8 \<Rightarrow> (nat \<times> nat) option list) \<Rightarrow> 're \<Rightarrow> utf8 \<Rightarrow> utf8 list option" where
  "split_one find_iter re piece = (if piece = [] then Some [] else split_matches (find_iter re piece) piece 0 [])"

fun split_pieces :: "('re \<Rightarrow> utf8 \<Rightarrow> (nat \<times> nat) option list) \<Rightarrow> 're \<Rightarrow> utf8 list \<Rightarrow> utf8 list option" where
  "split_pieces find_iter re [] = Some []"
| "split_pieces find_iter re (p # ps) =
     Option.bind (split_one find_iter re p) (\<lambda>out. map_option (\<lambda>rest. out @ rest) (split_pieces find_iter re ps))"

fun split_all :: "('re \<Rightarrow> utf8 \<Rightarrow> (nat \<times> nat) option list) \<Rightarrow> 're list \<Rightarrow> utf8 list \<Rightarrow> utf8 list option" where
  "split_all find_iter [] pieces = Some pieces"
| "split_all find_iter (re # res) pieces =
     Option.bind (split_pieces find_iter re pieces) (split_all find_iter res)"

definition pre_tokenizer_split ::
  "('re \<Rightarrow> utf8 \<Rightarrow> (nat \<times> nat) option list) \<Rightarrow> 're pre_tokenizer \<Rightarrow> utf8 \<Rightarrow> utf8 list option" where
  "pre_tokenizer_split find_iter pt t =
     map_option (filter (\<lambda>p. p \<noteq> [])) (split_all find_iter (pt_regexes pt) [t])"

section \<open>The merge loop\<close>

record bpe_bigram =
  bb_left :: i32
  bb_right :: i32
  bb_rank :: u32
  bb_left_len :: nat
  bb_right_len :: nat

text \<open>\<open>Bigram::cmp\<close> orders by the reverse of this key, so the heap pops the least one.\<close>

definition bpe_key :: "bpe_bigram \<Rightarrow> u32 \<times> int" where
  "bpe_key b = (bb_rank b, sint (bb_left b))"

definition bpe_add_bigram ::
  "('re, 'z) gguf_vocab_scheme \<Rightarrow> utf8 \<Rightarrow> symbol list \<Rightarrow> nat \<Rightarrow> nat \<Rightarrow> bpe_bigram list \<Rightarrow> bpe_bigram list option" where
  "bpe_add_bigram v word symbols left right queue =
     (if left < length symbols \<and> right < length symbols
      then
        let left_text = sy_text (symbols ! left) word;
            right_text = sy_text (symbols ! right) word
        in case merge_rank v left_text right_text of
             None \<Rightarrow> Some queue
           | Some rank \<Rightarrow>
               Some (\<lparr>bb_left = word_of_nat left, bb_right = word_of_nat right, bb_rank = rank,
                      bb_left_len = length left_text, bb_right_len = length right_text\<rparr> # queue)
      else None)"

fun bpe_seed ::
  "('re, 'z) gguf_vocab_scheme \<Rightarrow> utf8 \<Rightarrow> symbol list \<Rightarrow> nat list \<Rightarrow> bpe_bigram list \<Rightarrow> bpe_bigram list option" where
  "bpe_seed v word symbols [] queue = Some queue"
| "bpe_seed v word symbols (i # is) queue =
     Option.bind (bpe_add_bigram v word symbols (i - 1) i queue) (bpe_seed v word symbols is)"

text \<open>One pass of the loop over a popped candidate: the symbols and the queue it leaves.\<close>

definition bpe_pass ::
  "('re, 'z) gguf_vocab_scheme \<Rightarrow> utf8 \<Rightarrow> symbol list \<Rightarrow> bpe_bigram \<Rightarrow> bpe_bigram list \<Rightarrow>
     (symbol list \<times> bpe_bigram list) option" where
  "bpe_pass v word symbols bigram queue =
     (let left = as_usize (bb_left bigram); right = as_usize (bb_right bigram)
      in if \<not> (left < length symbols \<and> right < length symbols) then None
         else if sy_len (symbols ! left) \<noteq> bb_left_len bigram \<or> sy_len (symbols ! right) \<noteq> bb_right_len bigram
         then Some (symbols, queue)
         else if sy_len (symbols ! left) = 0 \<or> sy_len (symbols ! right) = 0 then Some (symbols, queue)
         else
           Option.bind (absorb symbols left right) (\<lambda>symbols.
           let prev = sy_prev (symbols ! left); next = sy_next (symbols ! left) in
           Option.bind (if 0 \<le> sint prev then bpe_add_bigram v word symbols (as_usize prev) left queue
                        else Some queue) (\<lambda>queue.
           Option.bind (if 0 \<le> sint next then bpe_add_bigram v word symbols left (as_usize next) queue
                        else Some queue) (\<lambda>queue.
           Some (symbols, queue)))))"

partial_function (option) bpe_loop ::
  "('re, 'z) gguf_vocab_scheme \<Rightarrow> utf8 \<Rightarrow> symbol list \<Rightarrow> bpe_bigram list \<Rightarrow> symbol list option" where
  "bpe_loop v word symbols queue =
     (case pop_least bpe_key queue of
        None \<Rightarrow> Some symbols
      | Some (bigram, queue) \<Rightarrow>
          Option.bind (bpe_pass v word symbols bigram queue)
            (\<lambda>(symbols, queue). bpe_loop v word symbols queue))"

declare bpe_loop.simps [code]

definition bpe_emit_piece :: "('re, 'z) gguf_vocab_scheme \<Rightarrow> utf8 \<Rightarrow> u32 list" where
  "bpe_emit_piece v piece =
     (case token_to_id v piece of
        Some tid \<Rightarrow> [tid]
      | None \<Rightarrow>
          concat (map (\<lambda>ch. if char_code ch < 0x80
                            then (case token_to_id v ch of None \<Rightarrow> [] | Some tid \<Rightarrow> [tid])
                            else []) (chars piece)))"

text \<open>The walk along the links from the first symbol; it ends at a link that is \<open>- 1\<close>.\<close>

partial_function (option) bpe_emit ::
  "('re, 'z) gguf_vocab_scheme \<Rightarrow> utf8 \<Rightarrow> symbol list \<Rightarrow> i32 \<Rightarrow> u32 list option" where
  "bpe_emit v word symbols index =
     (if index = - 1 then Some []
      else if as_usize index < length symbols
      then
        let symbol = symbols ! as_usize index
        in Option.bind (bpe_emit v word symbols (sy_next symbol)) (\<lambda>rest.
             Some ((if sy_len symbol = 0 then [] else bpe_emit_piece v (sy_text symbol word)) @ rest))
      else None)"

definition bpe_tokenize_word :: "('re, 'z) gguf_vocab_scheme \<Rightarrow> utf8 \<Rightarrow> u32 list option" where
  "bpe_tokenize_word v word =
     (if word = [] then Some []
      else
        case (if gv_ignore_merges v then token_to_id v word else None) of
          Some tid \<Rightarrow> Some [tid]
        | None \<Rightarrow>
            let symbols = split_chars word in
            Option.bind (bpe_seed v word symbols [1..<length symbols] []) (\<lambda>queue.
            Option.bind (bpe_loop v word symbols queue) (\<lambda>symbols.
            bpe_emit v word symbols 0)))"

fun bpe_tokenize_pieces :: "('re, 'z) gguf_vocab_scheme \<Rightarrow> utf8 list \<Rightarrow> u32 list option" where
  "bpe_tokenize_pieces v [] = Some []"
| "bpe_tokenize_pieces v (p # ps) =
     Option.bind (bpe_tokenize_word v (encode_bytes p)) (\<lambda>ids.
     map_option (\<lambda>rest. ids @ rest) (bpe_tokenize_pieces v ps))"

definition bpe_tokenize ::
  "('re \<Rightarrow> utf8 \<Rightarrow> (nat \<times> nat) option list) \<Rightarrow> ('re, 'z) gguf_vocab_scheme \<Rightarrow> utf8 \<Rightarrow> u32 list option" where
  "bpe_tokenize find_iter v t =
     (if t = [] then Some []
      else
        Option.bind
          (case gv_pre_tokenizer v of Some pre \<Rightarrow> pre_tokenizer_split find_iter pre t | None \<Rightarrow> Some [t])
          (bpe_tokenize_pieces v))"


section \<open>The loop merges greedily\<close>

definition bpe_make :: "nat \<Rightarrow> nat \<Rightarrow> utf8 \<Rightarrow> utf8 \<Rightarrow> u32 \<Rightarrow> bpe_bigram" where
  "bpe_make l r v w k = \<lparr>bb_left = word_of_nat l, bb_right = word_of_nat r, bb_rank = k,
     bb_left_len = length v, bb_right_len = length w\<rparr>"

definition bpe_fresh :: "bpe_bigram \<Rightarrow> nat \<Rightarrow> nat \<Rightarrow> bool" where
  "bpe_fresh b m n \<longleftrightarrow> m = bb_left_len b \<and> n = bb_right_len b \<and> 0 < m \<and> 0 < n"

interpretation bpe: merge_queue bpe_make "\<lambda>k. k" "\<lambda>b. as_usize (bb_left b)" "\<lambda>b. as_usize (bb_right b)" bpe_key bpe_fresh
proof
  fix v v' w w' :: utf8 and l r k
  assume "prefix v v'" "prefix w w'" "bpe_fresh (bpe_make l r v w k) (length v') (length w')"
  then show "v' = v \<and> w' = w" by (auto simp: bpe_fresh_def bpe_make_def prefix_def)
qed (auto simp: bpe_make_def bpe_key_def bpe_fresh_def index_word)

lemma bpe_ranked [simp]: "bpe.ranked weight = weight"
  by (intro ext) (simp add: bpe.ranked_def option.map_ident)

lemma bpe_add_bigram_offer:
  assumes "symbols_show sy xs" and "(l, u) \<in> set xs" and "(r, w) \<in> set xs"
  shows "\<exists>queue'. bpe_add_bigram v (texts xs) sy l r queue = Some queue' \<and>
    set queue' = set queue \<union> bpe.offer (merge_rank v) (l, u) (r, w)"
  using assms symbols_show_at(1)[OF assms(1,2)] symbols_show_at(1)[OF assms(1,3)]
    symbols_show_text[OF assms(1,2)] symbols_show_text[OF assms(1,3)]
  by (auto simp: bpe_add_bigram_def bpe.offer_def bpe_make_def Let_def split: option.split)

lemma bpe_seed_offers:
  assumes "symbols_show sy (enumerate 0 cs)" and "\<forall>i \<in> set is. 0 < i \<and> i < length cs"
  shows "\<exists>queue'. bpe_seed v (concat cs) sy is queue = Some queue' \<and>
    set queue' = set queue \<union> (\<Union>i \<in> set is. bpe.offer (merge_rank v) (i - 1, cs ! (i - 1)) (i, cs ! i))"
  using assms(2)
proof (induction "is" arbitrary: queue)
  case (Cons i "is")
  have "(i - 1, cs ! (i - 1)) \<in> set (enumerate 0 cs)" "(i, cs ! i) \<in> set (enumerate 0 cs)"
    using Cons.prems by (auto simp: in_set_enumerate_eq)
  from bpe_add_bigram_offer[OF assms(1) this, of v queue]
  obtain q where q: "bpe_add_bigram v (concat cs) sy (i - 1) i queue = Some q"
    "set q = set queue \<union> bpe.offer (merge_rank v) (i - 1, cs ! (i - 1)) (i, cs ! i)"
    by auto
  then show ?case using Cons.IH[of q] Cons.prems by auto
qed simp

text \<open>
  A pass keeps the queue and the list in step, and what greedy merging makes of the list; it drops a
  candidate or joins two symbols.
\<close>

lemma bpe_pass_ok:
  assumes ok: "bpe.queue_ok (merge_rank v) sy xs (set queue)" and pop: "pop_least bpe_key queue = Some (b, rest)"
  obtains sy' queue' xs' where "bpe_pass v (texts xs) sy b rest = Some (sy', queue')"
    and "bpe.queue_ok (merge_rank v) sy' xs' (set queue')" and "texts xs' = texts xs"
    and "greedy (merge_rank v) (map snd xs') = greedy (merge_rank v) (map snd xs)"
    and "length xs' < length xs \<or> length xs' = length xs \<and> length queue' < length queue"
proof (cases "bpe_fresh b (sy_len (sy ! as_usize (bb_left b))) (sy_len (sy ! as_usize (bb_right b)))")
  case False
  have ok': "bpe.queue_ok (merge_rank v) sy xs (insert b (set rest))" using ok pop_least_set[OF pop] by simp
  have "as_usize (bb_left b) < length sy" "as_usize (bb_right b) < length sy"
    using ok' bpe.sound_index[of sy xs "merge_rank v" b] by (simp_all add: bpe.queue_ok_def)
  then have "bpe_pass v (texts xs) sy b rest = Some (sy, rest)"
    using False by (auto simp: bpe_pass_def bpe_fresh_def Let_def)
  then show thesis using that bpe.drop_stale[OF ok' False] pop_least_length[OF pop] by auto
next
  case True
  have ok': "bpe.queue_ok (merge_rank v) sy xs (insert b (set rest))" using ok pop_least_set[OF pop] by simp
  have least: "\<forall>c \<in> insert b (set rest). bpe_key b \<le> bpe_key c"
    using pop_least_Some[OF pop] pop_least_set[OF pop] by simp
  from bpe.merge_step[OF ok' least True, unfolded bpe_ranked] obtain ys u w zs sy' where
    xs: "xs = ys @ (as_usize (bb_left b), u) # (as_usize (bb_right b), w) # zs"
    and ab: "absorb sy (as_usize (bb_left b)) (as_usize (bb_right b)) = Some sy'"
    and grd: "greedy (merge_rank v) (map snd xs) = greedy (merge_rank v) (map snd (ys @ (as_usize (bb_left b), u @ w) # zs))"
    and qok: "bpe.queue_ok (merge_rank v) sy' (ys @ (as_usize (bb_left b), u @ w) # zs)
      (set rest \<union> (if ys = [] then {} else bpe.offer (merge_rank v) (last ys) (as_usize (bb_left b), u @ w)) \<union>
        (if zs = [] then {} else bpe.offer (merge_rank v) (as_usize (bb_left b), u @ w) (hd zs)))" .
  let ?l = "as_usize (bb_left b)"
  let ?new = "ys @ (?l, u @ w) # zs"
  have shown: "symbols_show sy' ?new" using qok by (simp add: bpe.queue_ok_def)
  note links = symbols_show_links[OF shown]
  have texts: "texts ?new = texts xs" by (simp add: xs)
  obtain q1 where q1: "(if 0 \<le> sint (sy_prev (sy' ! ?l))
      then bpe_add_bigram v (texts xs) sy' (as_usize (sy_prev (sy' ! ?l))) ?l rest else Some rest) = Some q1"
    "set q1 = set rest \<union> (if ys = [] then {} else bpe.offer (merge_rank v) (last ys) (?l, u @ w))"
    using bpe_add_bigram_offer[OF shown, of "fst (last ys)" "snd (last ys)" ?l "u @ w" v rest] links(3,5)
    unfolding texts by (cases "ys = []") auto
  obtain q2 where q2: "(if 0 \<le> sint (sy_next (sy' ! ?l))
      then bpe_add_bigram v (texts xs) sy' ?l (as_usize (sy_next (sy' ! ?l))) q1 else Some q1) = Some q2"
    "set q2 = set q1 \<union> (if zs = [] then {} else bpe.offer (merge_rank v) (?l, u @ w) (hd zs))"
    using bpe_add_bigram_offer[OF shown, of ?l "u @ w" "fst (hd zs)" "snd (hd zs)" v q1] links(4,6)
    unfolding texts by (cases "zs = []") auto
  have "?l < length sy" "as_usize (bb_right b) < length sy" using ab by (auto simp: absorb_def split: if_splits)
  then have "bpe_pass v (texts xs) sy b rest = Some (sy', q2)"
    using True ab q1(1) q2(1) by (simp add: bpe_pass_def bpe_fresh_def Let_def)
  then show thesis
    using that[of sy' q2 ?new] qok grd texts q1(2) q2(2) by (simp add: xs Un_assoc)
qed


text \<open>The loop ends, and the live symbols it leaves spell the pieces of greedy merging.\<close>

lemma bpe_loop_greedy:
  assumes "bpe.queue_ok (merge_rank v) sy xs (set queue)"
  shows "\<exists>sy' xs'. bpe_loop v (texts xs) sy queue = Some sy' \<and> symbols_show sy' xs' \<and>
    map snd xs' = greedy (merge_rank v) (map snd xs)"
  using assms
proof (induction "(length xs, length queue)" arbitrary: xs queue sy rule: less_induct)
  case less
  show ?case
  proof (cases "pop_least bpe_key queue")
    case None
    then show ?thesis
      using less.prems bpe.queue_empty[of "merge_rank v" sy xs] by (subst bpe_loop.simps) (auto simp: bpe.queue_ok_def)
  next
    case (Some br)
    then obtain b rest where pop: "pop_least bpe_key queue = Some (b, rest)" by (cases br) simp
    from bpe_pass_ok[OF less.prems pop] obtain sy' queue' xs' where
      pass: "bpe_pass v (texts xs) sy b rest = Some (sy', queue')"
      and ok: "bpe.queue_ok (merge_rank v) sy' xs' (set queue')" "texts xs' = texts xs"
      and grd: "greedy (merge_rank v) (map snd xs') = greedy (merge_rank v) (map snd xs)"
      and dec: "length xs' < length xs \<or> length xs' = length xs \<and> length queue' < length queue" .
    have "bpe_loop v (texts xs) sy queue = bpe_loop v (texts xs) sy' queue'"
      by (subst bpe_loop.simps) (simp add: pop pass)
    then show ?thesis using less.hyps[of xs' queue' sy'] ok grd dec by auto
  qed
qed

lemma bpe_emit_walk:
  assumes "symbols_show sy (ys @ xs)"
  shows "bpe_emit v (texts (ys @ xs)) sy (front_link xs (- 1)) = Some (concat (map (\<lambda>x. bpe_emit_piece v (snd x)) xs))"
  using assms
proof (induction xs arbitrary: ys)
  case Nil
  then show ?case by (subst bpe_emit.simps) simp
next
  case (Cons x xs)
  obtain i u where x: "x = (i, u)" by (cases x)
  have i: "i < length sy" "i < 2 ^ 31" "sy_len (sy ! i) = length u" "u \<noteq> []"
    using symbols_show_at[OF Cons.prems, of i u] by (simp_all add: x)
  then have "word_of_nat i \<noteq> (- 1 :: i32)" by (intro index_no_end)
  moreover have "sy_next (sy ! i) = front_link xs (- 1)" using symbols_show_links(2)[of sy ys i u xs] Cons.prems by (simp add: x)
  moreover have "sy_text (sy ! i) (texts (ys @ x # xs)) = u" using symbols_show_text[OF Cons.prems, of x] by (simp add: x)
  moreover have "bpe_emit v (texts (ys @ x # xs)) sy (front_link xs (- 1)) = Some (concat (map (\<lambda>x. bpe_emit_piece v (snd x)) xs))"
    using Cons.IH[of "ys @ [x]"] Cons.prems by simp
  ultimately show ?case
    using i by (subst bpe_emit.simps) (simp add: x index_word comp_def)
qed

lemma bpe_tokenize_word_greedy:
  assumes "text_ok word" and "length (chars word) < 2 ^ 31" and "\<not> (gv_ignore_merges v \<and> token_to_id v word \<noteq> None)"
  shows "bpe_tokenize_word v word = Some (concat (map (bpe_emit_piece v) (greedy (merge_rank v) (chars word))))"
proof (cases "word = []")
  case True
  then show ?thesis by (simp add: bpe_tokenize_word_def greedy_stop candidates_set)
next
  case False
  let ?xs = "enumerate 0 (chars word)"
  have shown: "symbols_show (split_chars word) ?xs" and len: "length (split_chars word) = length (chars word)"
    using split_chars_show[OF assms(1,2)] .
  obtain queue where queue: "bpe_seed v word (split_chars word) [1..<length (chars word)] [] = Some queue"
    "set queue = (\<Union>i \<in> {1..<length (chars word)}. bpe.offer (merge_rank v) (i - 1, chars word ! (i - 1)) (i, chars word ! i))"
    using bpe_seed_offers[OF shown, of "[1..<length (chars word)]" v "[]"] by auto
  have "set queue = (\<Union>i \<in> {i. Suc i < length (chars word)}. bpe.offer (merge_rank v) (i, chars word ! i) (Suc i, chars word ! Suc i))"
    unfolding queue(2) by (force simp: image_iff Suc_le_eq dest: less_imp_Suc_add)
  from bpe_loop_greedy[OF bpe.queue_start[OF assms(1,2) this]] obtain sy xs where
    loop: "bpe_loop v word (split_chars word) queue = Some sy" "symbols_show sy xs"
    "map snd xs = greedy (merge_rank v) (chars word)" by auto
  have "texts xs = word" using loop(3) by (simp add: concat_greedy)
  moreover from this have "front_link xs (- 1) = 0" using symbols_show_first[OF loop(2)] False by (cases xs) auto
  ultimately have "bpe_emit v word sy 0 = Some (concat (map (\<lambda>x. bpe_emit_piece v (snd x)) xs))"
    using bpe_emit_walk[of sy "[]" xs v] loop(2) by simp
  moreover have "map (\<lambda>x. bpe_emit_piece v (snd x)) xs = map (bpe_emit_piece v) (greedy (merge_rank v) (chars word))"
    unfolding loop(3)[symmetric] by simp
  ultimately show ?thesis
    using False assms(3) queue(1) loop(1) len by (auto simp: bpe_tokenize_word_def Let_def split: option.split)
qed

section \<open>Losing nothing\<close>

text \<open>
  The laws of a byte-level vocabulary: every byte has its token, what a merge rule makes is a token,
  and a token of alphabet characters has the bytes it spells.
\<close>

definition byte_string :: "utf8 \<Rightarrow> bool" where
  "byte_string t \<longleftrightarrow> (\<exists>bs. t = encode_bytes bs)"

lemma byte_string_encode [simp]: "byte_string (encode_bytes bs)"
  by (auto simp: byte_string_def)

lemma encode_bytes_append: "encode_bytes (as @ bs) = encode_bytes as @ encode_bytes bs"
  by (simp add: encode_bytes_eq)

lemma encode_bytes_eq_Nil [simp]: "encode_bytes bs = [] \<longleftrightarrow> bs = []"
  using encode_bytes_chars[of bs] by (metis chars_eq_Nil map_is_Nil_conv)

lemma byte_string_append: "byte_string s \<Longrightarrow> byte_string t \<Longrightarrow> byte_string (s @ t)"
  by (auto simp: byte_string_def simp flip: encode_bytes_append)

lemma byte_string_to_string [simp]: "byte_string (byte_to_string b)"
  using byte_string_encode[of "[b]"] by (simp add: encode_bytes_eq)

lemma decode_encode_append: "decode_bytes (encode_bytes bs @ t) = bs @ decode_bytes t"
proof -
  have "decode_bytes (concat (map byte_to_string bs) @ t) = decode_bytes (concat (map byte_to_string bs)) @ decode_bytes t"
    by (rule decode_bytes_concat) (simp add: list_all_iff decode_byte_string)
  then show ?thesis using decode_encode_bytes[of bs] by (simp add: encode_bytes_eq)
qed

lemma decode_byte_strings: "list_all byte_string ps \<Longrightarrow> concat (map decode_bytes ps) = decode_bytes (concat ps)"
proof (induction ps)
  case Nil
  then show ?case by (simp add: decode_bytes_def)
next
  case (Cons p ps)
  then show ?case by (auto simp: byte_string_def decode_encode_append decode_encode_bytes)
qed

definition byte_complete :: "('re, 'z) gguf_vocab_scheme \<Rightarrow> bool" where
  "byte_complete v \<longleftrightarrow>
     (\<forall>b. token_to_id v (byte_to_string b) \<noteq> None) \<and>
     (\<forall>s t. byte_string s \<longrightarrow> byte_string t \<longrightarrow> merge_rank v s t \<noteq> None \<longrightarrow> token_to_id v (s @ t) \<noteq> None) \<and>
     (\<forall>t tid. byte_string t \<longrightarrow> token_to_id v t = Some tid \<longrightarrow> token_bytes v tid = Some (decode_bytes t))"


definition known_pieces :: "('re, 'z) gguf_vocab_scheme \<Rightarrow> utf8 list \<Rightarrow> bool" where
  "known_pieces v ps \<longleftrightarrow> (\<forall>p \<in> set ps. byte_string p \<and> token_to_id v p \<noteq> None)"

lemma known_pieces_greedy:
  assumes "byte_complete v" and "known_pieces v ps"
  shows "known_pieces v (greedy (merge_rank v) ps)"
proof (rule greedy_invariant[where P = "known_pieces v", OF assms(2)])
  fix ps i k
  assume ps: "known_pieces v ps" "Suc i < length ps" "merge_rank v (ps ! i) (ps ! Suc i) = Some k"
  then have "byte_string (ps ! i)" "byte_string (ps ! Suc i)" by (simp_all add: known_pieces_def)
  then have "byte_string (ps ! i @ ps ! Suc i) \<and> token_to_id v (ps ! i @ ps ! Suc i) \<noteq> None"
    using assms(1) ps(3) by (auto simp: byte_complete_def byte_string_append)
  then show "known_pieces v (join_at i ps)"
    using ps(1) by (auto simp: known_pieces_def join_at_def dest: in_set_takeD in_set_dropD)
qed

lemma known_piece_bytes:
  assumes "byte_complete v" and "byte_string p" and "token_to_id v p = Some tid"
  shows "detokenize_bytes v [tid] False = decode_bytes p"
  using assms by (auto simp: byte_complete_def detokenize_bytes_def)

lemma emit_known_pieces:
  assumes "byte_complete v" and "known_pieces v ps"
  shows "detokenize_bytes v (concat (map (bpe_emit_piece v) ps)) False = decode_bytes (concat ps)"
proof -
  have "detokenize_bytes v (concat (map (bpe_emit_piece v) ps)) False = concat (map decode_bytes ps)"
    using assms(2) known_piece_bytes[OF assms(1)]
    by (induction ps) (auto simp: known_pieces_def bpe_emit_piece_def)
  then show ?thesis using assms(2) by (simp add: decode_byte_strings list_all_iff known_pieces_def)
qed

lemma bpe_word_lossless:
  assumes "byte_complete v" and "length bs < 2 ^ 31"
  shows "\<exists>ids. bpe_tokenize_word v (encode_bytes bs) = Some ids \<and> detokenize_bytes v ids False = bs"
proof (cases "gv_ignore_merges v \<and> token_to_id v (encode_bytes bs) \<noteq> None \<and> encode_bytes bs \<noteq> []")
  case True
  then obtain tid where "token_to_id v (encode_bytes bs) = Some tid" by auto
  then show ?thesis
    using True known_piece_bytes[OF assms(1), of "encode_bytes bs" tid]
    by (simp add: bpe_tokenize_word_def decode_encode_bytes)
next
  case False
  have chars: "chars (encode_bytes bs) = map byte_to_string bs" by (rule encode_bytes_chars)
  have "text_ok (encode_bytes bs)" unfolding encode_bytes_eq
    by (rule text_ok_concat) (simp add: list_all_iff decode_byte_string)
  moreover have "length (chars (encode_bytes bs)) < 2 ^ 31" using assms(2) by (simp add: chars)
  moreover have "known_pieces v (chars (encode_bytes bs))"
    using assms(1) by (auto simp: known_pieces_def chars byte_complete_def)
  ultimately show ?thesis
    using bpe_tokenize_word_greedy[of "encode_bytes bs" v] False
      emit_known_pieces[OF assms(1) known_pieces_greedy[OF assms(1)], of "chars (encode_bytes bs)"]
    by (cases "encode_bytes bs = []") (auto simp: bpe_tokenize_word_def concat_greedy decode_encode_bytes)
qed

text \<open>What \<open>find_iter\<close> promises: matches between character boundaries, in order and without overlap.\<close>

fun matches_ok :: "utf8 \<Rightarrow> nat \<Rightarrow> (nat \<times> nat) option list \<Rightarrow> bool" where
  "matches_ok piece last_end [] \<longleftrightarrow> True"
| "matches_ok piece last_end (None # ms) \<longleftrightarrow> True"
| "matches_ok piece last_end (Some (s, e) # ms) \<longleftrightarrow>
     last_end \<le> s \<and> s \<le> e \<and> is_char_boundary piece s \<and> is_char_boundary piece e \<and> matches_ok piece e ms"

lemma split_matches_lossless:
  assumes "matches_ok piece last_end ms" and "is_char_boundary piece last_end" and "concat out = take last_end piece"
  shows "\<exists>ps. split_matches ms piece last_end out = Some ps \<and> concat ps = piece"
  using assms
proof (induction ms piece last_end out rule: split_matches.induct)
  case (1 piece last_end out)
  then show ?case by (auto simp: str_get_def is_char_boundary_def)
next
  case (3 s e ms piece last_end out)
  have le: "last_end \<le> s" "s \<le> e" "is_char_boundary piece s" "is_char_boundary piece e" "matches_ok piece e ms"
    using "3.prems"(1) by simp_all
  define gap where "gap = (if s > last_end then [take (s - last_end) (drop last_end piece)] else [])"
  define mat where "mat = (if e > s then [take (e - s) (drop s piece)] else [])"
  have "concat (out @ gap @ mat) = take e piece"
    using le(1,2) "3.prems"(3) by (auto simp: gap_def mat_def take_add[symmetric] simp flip: append_assoc)
  moreover have "(if s > last_end then map_option (\<lambda>g. [g]) (str_get piece last_end s) else Some []) = Some gap"
    "(if e > s then map_option (\<lambda>g. [g]) (str_get piece s e) else Some []) = Some mat"
    using le "3.prems"(2) by (auto simp: str_get_def gap_def mat_def)
  ultimately show ?case using "3.IH"[of gap mat] le by simp
qed simp

lemma split_pieces_lossless:
  assumes "\<And>p. matches_ok p 0 (find_iter re p)"
  shows "\<exists>out. split_pieces find_iter re ps = Some out \<and> concat out = concat ps"
proof (induction ps)
  case (Cons p ps)
  have "\<exists>out. split_one find_iter re p = Some out \<and> concat out = p"
    using split_matches_lossless[OF assms, of p "[]"] by (auto simp: split_one_def is_char_boundary_def)
  then show ?case using Cons.IH by auto
qed simp

lemma split_all_lossless:
  assumes "\<And>re p. matches_ok p 0 (find_iter re p)"
  shows "\<exists>out. split_all find_iter res ps = Some out \<and> concat out = concat ps"
proof (induction res arbitrary: ps)
  case (Cons re res)
  obtain out where "split_pieces find_iter re ps = Some out" "concat out = concat ps"
    using split_pieces_lossless[of find_iter re ps] assms by blast
  then show ?case using Cons.IH[of out] by simp
qed simp

lemma concat_filter_nonempty: "concat (filter (\<lambda>p. p \<noteq> []) ps) = concat ps"
  by (induction ps) auto

lemma pre_tokenizer_split_lossless:
  assumes "\<And>re p. matches_ok p 0 (find_iter re p)"
  shows "\<exists>ps. pre_tokenizer_split find_iter pt t = Some ps \<and> concat ps = t \<and> [] \<notin> set ps"
  using split_all_lossless[of find_iter "pt_regexes pt" "[t]"] assms
  by (auto simp: pre_tokenizer_split_def concat_filter_nonempty)

lemma bpe_pieces_lossless:
  assumes "byte_complete v" and "length (concat ps) < 2 ^ 31"
  shows "\<exists>ids. bpe_tokenize_pieces v ps = Some ids \<and> detokenize_bytes v ids False = concat ps"
  using assms(2)
proof (induction ps)
  case (Cons p ps)
  then show ?case using bpe_word_lossless[OF assms(1), of p] by fastforce
qed simp

lemma bpe_lossless:
  assumes "byte_complete v" and "length t < 2 ^ 31" and "\<And>re p. matches_ok p 0 (find_iter re p)"
  shows "\<exists>ids. bpe_tokenize find_iter v t = Some ids \<and> detokenize_bytes v ids False = t"
proof (cases "gv_pre_tokenizer v")
  case None
  then show ?thesis using bpe_pieces_lossless[OF assms(1), of "[t]"] assms(2) by (auto simp: bpe_tokenize_def)
next
  case (Some pt)
  then show ?thesis
    using pre_tokenizer_split_lossless[where find_iter = find_iter and pt = pt and t = t] assms(3) bpe_pieces_lossless[OF assms(1), of _] assms(2)
    by (fastforce simp: bpe_tokenize_def)
qed

end
