(* ===== verification/Tok_Load.thy ===== *)
theory Tok_Load
  imports Tok_Vocab
begin

text \<open>
  \<open>GgufVocab::from_metadata\<close> of \<open>gguf_vocab/mod.rs\<close>: the readers of the \<open>tokenizer.ggml\<close> keys,
  the resolution of the special tokens, and the bytes every token stands for.
\<close>

section \<open>Readers of the metadata\<close>

definition unwrap_or :: "'a option \<Rightarrow> 'a \<Rightarrow> 'a" where
  "unwrap_or x d = (case x of None \<Rightarrow> d | Some a \<Rightarrow> a)"

definition or_else :: "'a option \<Rightarrow> 'a option \<Rightarrow> 'a option" where
  "or_else x y = (case x of None \<Rightarrow> y | Some a \<Rightarrow> Some a)"

definition md_array :: "metadata_store \<Rightarrow> string \<Rightarrow> metadata_value list option" where
  "md_array m key = Option.bind (md_get m key) as_array"

definition has_embedded_vocab :: "metadata_store \<Rightarrow> bool" where
  "has_embedded_vocab m = (case md_array m ''tokenizer.ggml.tokens'' of None \<Rightarrow> False | Some a \<Rightarrow> a \<noteq> [])"

definition read_string_array :: "metadata_store \<Rightarrow> string \<Rightarrow> utf8 list option" where
  "read_string_array m key = map_option (map (\<lambda>v. str_bytes (unwrap_or (as_str v) []))) (md_array m key)"

definition read_f32_array :: "metadata_store \<Rightarrow> string \<Rightarrow> u32 list option" where
  "read_f32_array m key = map_option (map (\<lambda>v. unwrap_or (as_f32 v) 0)) (md_array m key)"

definition i32_try_from_u32 :: "u32 \<Rightarrow> i32 option" where
  "i32_try_from_u32 u = (if unat u < 2 ^ 31 then Some u else None)"

definition u32_try_from_i32 :: "i32 \<Rightarrow> u32 option" where
  "u32_try_from_i32 i = (if 0 \<le> sint i then Some i else None)"

definition read_i32_array :: "metadata_store \<Rightarrow> string \<Rightarrow> i32 list option" where
  "read_i32_array m key =
     map_option (map (\<lambda>v. unwrap_or (or_else (as_i32 v) (Option.bind (as_u32 v) i32_try_from_u32)) 0))
       (md_array m key)"

definition or_insert :: "'k \<Rightarrow> 'v \<Rightarrow> ('k \<times> 'v) list \<Rightarrow> ('k \<times> 'v) list" where
  "or_insert k v al = (case map_of al k of None \<Rightarrow> (k, v) # al | Some _ \<Rightarrow> al)"

fun merge_key :: "metadata_value \<Rightarrow> utf8 option" where
  "merge_key (VString s) = Some (str_bytes s)"
| "merge_key (VArray pair) =
     (if length pair = 2
      then Some (str_bytes (unwrap_or (as_str (pair ! 0)) []) @ [0x20] @ str_bytes (unwrap_or (as_str (pair ! 1)) []))
      else None)"
| "merge_key _ = None"

fun read_merges_from :: "metadata_value list \<Rightarrow> nat \<Rightarrow> (utf8 \<times> u32) list \<Rightarrow> (utf8 \<times> u32) list" where
  "read_merges_from [] rank ranks = ranks"
| "read_merges_from (entry # entries) rank ranks =
     (if rank < 2 ^ 32
      then (case merge_key entry of
              None \<Rightarrow> read_merges_from entries (rank + 1) ranks
            | Some key \<Rightarrow>
                if length key < 2 \<or> 0x20 \<notin> set (drop 1 key) then read_merges_from entries (rank + 1) ranks
                else read_merges_from entries (rank + 1) (or_insert key (word_of_nat rank) ranks))
      else ranks)"

definition read_merges :: "metadata_store \<Rightarrow> (utf8 \<times> u32) list" where
  "read_merges m =
     (case md_array m ''tokenizer.ggml.merges'' of None \<Rightarrow> [] | Some arr \<Rightarrow> read_merges_from arr 0 [])"

definition normalize_len :: "'a list \<Rightarrow> nat \<Rightarrow> 'a \<Rightarrow> 'a list" where
  "normalize_len v n fill = (if length v < n then v @ replicate (n - length v) fill else take n v)"

definition find_id :: "(utf8 \<times> u32) list \<Rightarrow> utf8 \<Rightarrow> u32 option" where
  "find_id m name = map_of m name"

definition control_id :: "(utf8 \<times> u32) list \<Rightarrow> token_type list \<Rightarrow> utf8 \<Rightarrow> u32 option" where
  "control_id m types name =
     Option.bind (map_of m name) (\<lambda>tid.
       case nth_opt types (unat tid) of
         None \<Rightarrow> None
       | Some t \<Rightarrow> if t = Control \<or> t = UserDefined then Some tid else None)"

fun find_control_id :: "(utf8 \<times> u32) list \<Rightarrow> token_type list \<Rightarrow> utf8 list \<Rightarrow> u32 option" where
  "find_control_id m types [] = None"
| "find_control_id m types (name # names) =
     (case control_id m types name of None \<Rightarrow> find_control_id m types names | Some tid \<Rightarrow> Some tid)"

definition lookup_token_id :: "metadata_store \<Rightarrow> nat \<Rightarrow> string \<Rightarrow> u32 option" where
  "lookup_token_id m n key =
     Option.bind
       (Option.bind (md_get m key) (\<lambda>v. or_else (as_u32 v) (Option.bind (as_i32 v) u32_try_from_i32)))
       (\<lambda>tid. if unat tid < n then Some tid else None)"

section \<open>The bytes of a token\<close>

definition escape_whitespace :: "utf8 \<Rightarrow> utf8" where
  "escape_whitespace t = concat (map (\<lambda>c. if c = [0x20] then spm_space else c) (chars t))"

definition unescape_whitespace :: "utf8 \<Rightarrow> utf8" where
  "unescape_whitespace t = concat (map (\<lambda>c. if c = spm_space then [0x20] else c) (chars t))"

definition hex_value :: "u8 \<Rightarrow> nat option" where
  "hex_value b =
     (if 0x30 \<le> b \<and> b \<le> 0x39 then Some (unat b - 48)
      else if 0x41 \<le> b \<and> b \<le> 0x46 then Some (unat b - 55)
      else if 0x61 \<le> b \<and> b \<le> 0x66 then Some (unat b - 87)
      else None)"

text \<open>\<open>u8::from_str_radix\<close> with the radix 16, which takes a plus sign before the digits.\<close>

fun hex_digits :: "u8 list \<Rightarrow> nat \<Rightarrow> u8 option" where
  "hex_digits [] acc = Some (word_of_nat acc)"
| "hex_digits (b # bs) acc =
     (case hex_value b of
        None \<Rightarrow> None
      | Some d \<Rightarrow> if acc * 16 + d < 256 then hex_digits bs (acc * 16 + d) else None)"

definition u8_from_hex :: "u8 list \<Rightarrow> u8 option" where
  "u8_from_hex bs =
     (let digits = (if bs \<noteq> [] \<and> hd bs = 0x2B then tl bs else bs)
      in if digits = [] then None else hex_digits digits 0)"

definition strip_prefix :: "utf8 \<Rightarrow> utf8 \<Rightarrow> utf8 option" where
  "strip_prefix p t = (if take (length p) t = p then Some (drop (length p) t) else None)"

definition strip_suffix :: "utf8 \<Rightarrow> utf8 \<Rightarrow> utf8 option" where
  "strip_suffix p t = map_option rev (strip_prefix (rev p) (rev t))"

definition parse_byte_token :: "utf8 \<Rightarrow> u8 option" where
  "parse_byte_token t =
     Option.bind (Option.bind (strip_prefix (str_bytes ''<0x'') t) (strip_suffix (str_bytes ''>''))) u8_from_hex"

definition token_bytes_for :: "vocab_type \<Rightarrow> token_type \<Rightarrow> utf8 \<Rightarrow> u8 list" where
  "token_bytes_for vt ty t =
     (case ty of
        Control \<Rightarrow> t | Unknown \<Rightarrow> t | UserDefined \<Rightarrow> t
      | Normal \<Rightarrow> (if vt = Spm then unescape_whitespace t else decode_bytes t)
      | ByteToken \<Rightarrow> (if vt = Spm then (case parse_byte_token t of None \<Rightarrow> [] | Some b \<Rightarrow> [b]) else [])
      | _ \<Rightarrow> [])"

definition build_token_bytes :: "('re, 'z) gguf_vocab_scheme \<Rightarrow> u8 list list" where
  "build_token_bytes v =
     map (\<lambda>i. token_bytes_for (gv_vocab_type v) (gv_types v ! i) (gv_tokens v ! i)) [0..<length (gv_tokens v)]"

section \<open>Building the vocabulary\<close>

fun index_tokens :: "utf8 list \<Rightarrow> nat \<Rightarrow> (utf8 \<times> u32) list \<Rightarrow> tokenizer_error + (utf8 \<times> u32) list" where
  "index_tokens [] tid m = Inr m"
| "index_tokens (t # ts) tid m =
     (if tid < 2 ^ 32 then index_tokens ts (tid + 1) (or_insert t (word_of_nat tid) m) else Inl VocabTooLarge)"

definition token_types :: "i32 list \<Rightarrow> nat \<Rightarrow> token_type list" where
  "token_types codes n =
     map (\<lambda>i. case nth_opt codes i of Some c \<Rightarrow> token_type_from_code c | None \<Rightarrow> Normal) [0..<n]"

definition resolve_pre_type :: "metadata_store \<Rightarrow> vocab_type \<Rightarrow> (utf8 \<times> u32) list \<Rightarrow> pre_type" where
  "resolve_pre_type m vt ids =
     (if vt = Bpe
      then (case Option.bind (md_get m ''tokenizer.ggml.pre'') as_str of
              Some name \<Rightarrow> unwrap_or (pre_type_from_name name) PreDefault
            | None \<Rightarrow>
                if map_of ids (str_bytes ''<|begin_of_text|>'') \<noteq> None \<and> map_of ids (str_bytes ''<|eot_id|>'') \<noteq> None
                then Llama3 else PreDefault)
      else PreDefault)"

definition md_flag :: "metadata_store \<Rightarrow> string \<Rightarrow> bool \<Rightarrow> bool" where
  "md_flag m key d = unwrap_or (Option.bind (md_get m key) as_bool) d"

text \<open>Control, user-defined and unknown tokens, the longest text first and the least id of equal lengths.\<close>

definition pre_split_order :: "utf8 list \<Rightarrow> token_type list \<Rightarrow> u32 list" where
  "pre_split_order tokens types =
     map word_of_nat
       (sort_key (\<lambda>i. (- int (length (tokens ! i)), i))
         (filter (\<lambda>i. tt_is_pre_split (types ! i) \<and> tokens ! i \<noteq> []) [0..<length tokens]))"

text \<open>The second half of \<open>from_metadata\<close>: the special tokens and the flags, and the bytes of the tokens.\<close>

definition finish_vocab ::
  "metadata_store \<Rightarrow> utf8 list \<Rightarrow> vocab_type \<Rightarrow> u32 list \<Rightarrow> token_type list \<Rightarrow> (utf8 \<times> u32) list \<Rightarrow> pre_type \<Rightarrow>
     're pre_tokenizer option \<Rightarrow> 're gguf_vocab" where
  "finish_vocab m tokens vt scores types ids pre pre_tok =
     (let lookup = lookup_token_id m (length tokens);
          bos0 = lookup ''tokenizer.ggml.bos_token_id'';
          eos0 = lookup ''tokenizer.ggml.eos_token_id'';
          eot0 = lookup ''tokenizer.ggml.eot_token_id'';
          eom = lookup ''tokenizer.ggml.eom_token_id'';
          unk0 = lookup ''tokenizer.ggml.unknown_token_id'';
          sep = lookup ''tokenizer.ggml.separator_token_id'';
          pad = lookup ''tokenizer.ggml.padding_token_id'';
          bos1 = (if vt = Spm then or_else bos0 (find_id ids (str_bytes ''<s>'')) else bos0);
          eos = (if vt = Spm then or_else eos0 (find_id ids (str_bytes ''</s>'')) else eos0);
          unk = (if vt = Spm then or_else unk0 (find_id ids (str_bytes ''<unk>'')) else unk0);
          bos = or_else bos1 (find_control_id ids types bos_token_names);
          add_bos = md_flag m ''tokenizer.ggml.add_bos_token''
            (case vt of Spm \<Rightarrow> True | Bpe \<Rightarrow> implies_add_bos pre | Wpm \<Rightarrow> True);
          add_eos = md_flag m ''tokenizer.ggml.add_eos_token'' False;
          add_space = md_flag m ''tokenizer.ggml.add_space_prefix'' (vt = Spm);
          eot = or_else eot0 (find_control_id ids types eot_token_names);
          named = concat (map (\<lambda>name. case find_control_id ids types [name] of
                                         None \<Rightarrow> [] | Some tid \<Rightarrow> [tid]) eog_token_names);
          vocab = \<lparr>gv_vocab_type = vt, gv_pre_type = pre, gv_tokens = tokens, gv_scores = scores,
            gv_types = types, gv_token_bytes = [], gv_token_to_id = ids,
            gv_bpe_ranks = (if vt = Bpe then read_merges m else []),
            gv_pre_tokenizer = pre_tok, gv_pre_split_ids = pre_split_order tokens types,
            gv_bos_id = bos, gv_eos_id = eos, gv_eot_id = eot, gv_eom_id = eom, gv_unk_id = unk,
            gv_sep_id = sep, gv_pad_id = pad,
            gv_eog_ids = set named \<union> set_option eos \<union> set_option eot \<union> set_option eom,
            gv_add_bos = (add_bos \<and> bos \<noteq> None), gv_add_eos = (add_eos \<and> eos \<noteq> None),
            gv_add_space_prefix = add_space,
            gv_ignore_merges = (vt = Bpe \<and> ignore_merges pre),
            gv_max_token_len = fold max (map length tokens) 0\<rparr>
      in vocab\<lparr>gv_token_bytes := build_token_bytes vocab\<rparr>)"

definition from_metadata ::
  "(pre_type \<Rightarrow> 're list option) \<Rightarrow> metadata_store \<Rightarrow> tokenizer_error + 're gguf_vocab" where
  "from_metadata compile m =
     and_then (ok_or (read_string_array m ''tokenizer.ggml.tokens'') NoTokensArray) (\<lambda>tokens.
     if tokens = [] then Inl EmptyTokensArray
     else
       let model_name = unwrap_or (Option.bind (md_get m ''tokenizer.ggml.model'') as_str) ''llama'' in
       and_then (ok_or (from_model_name model_name) (UnsupportedModel model_name)) (\<lambda>vt.
       let n = length tokens;
           scores = normalize_len (unwrap_or (read_f32_array m ''tokenizer.ggml.scores'') []) n 0;
           types = token_types (unwrap_or (read_i32_array m ''tokenizer.ggml.token_type'') []) n
       in and_then (index_tokens tokens 0 []) (\<lambda>ids.
       let pre = resolve_pre_type m vt ids
       in and_then
            (if vt = Bpe
             then (case compile pre of
                     None \<Rightarrow> Inl (RegexCompileFailed pre)
                   | Some res \<Rightarrow> Inr (Some \<lparr>pt_regexes = res, pt_pre = pre\<rparr>))
             else Inr None) (\<lambda>pre_tok.
       Inr (finish_vocab m tokens vt scores types ids pre pre_tok)))))"

end
