(* ===== verification/Tok_Spm.thy ===== *)
theory Tok_Spm
  imports Tok_Merge Tok_Load
begin

text \<open>
  SentencePiece, \<open>gguf_vocab/spm.rs\<close>: the greedy merge by score, and \<open>resegment\<close>, which emits a
  surviving symbol as a token, along the merge that made it, or as byte tokens. A panic is the value
  \<open>None\<close>. A score is the bit pattern of an \<open>f32\<close>.
\<close>

section \<open>The merge loop\<close>

record spm_bigram =
  sb_left :: i32
  sb_right :: i32
  sb_score :: u32
  sb_size :: nat

text \<open>\<open>f32::total_cmp\<close> compares the bit patterns as integers, the magnitude of negative ones inverted.\<close>

definition total_key :: "u32 \<Rightarrow> int" where
  "total_key x = sint (if sint x < 0 then x XOR 0x7FFFFFFF else x)"

text \<open>\<open>Bigram::cmp\<close> orders by the reverse of this key, so the heap pops the least one.\<close>

definition spm_key :: "spm_bigram \<Rightarrow> int \<times> int" where
  "spm_key b = (- total_key (sb_score b), sint (sb_left b))"

type_synonym rev_merge = "(utf8 \<times> (nat \<times> nat)) list"

definition try_add_bigram ::
  "('re, 'z) gguf_vocab_scheme \<Rightarrow> utf8 \<Rightarrow> symbol list \<Rightarrow> nat \<Rightarrow> nat \<Rightarrow> spm_bigram list \<Rightarrow> rev_merge \<Rightarrow>
     (spm_bigram list \<times> rev_merge) option" where
  "try_add_bigram v t symbols left right queue rev_merge =
     (if left < length symbols \<and> right < length symbols
      then
        let start = sy_start (symbols ! left);
            size = sy_len (symbols ! left) + sy_len (symbols ! right)
        in case str_get t start (start + size) of
             None \<Rightarrow> Some (queue, rev_merge)
           | Some merged \<Rightarrow>
               (case token_to_id v merged of
                  None \<Rightarrow> Some (queue, rev_merge)
                | Some tid \<Rightarrow>
                    Some (\<lparr>sb_left = word_of_nat left, sb_right = word_of_nat right,
                           sb_score = token_score v tid, sb_size = size\<rparr> # queue,
                          AList.update merged (left, right) rev_merge))
      else None)"

fun spm_seed ::
  "('re, 'z) gguf_vocab_scheme \<Rightarrow> utf8 \<Rightarrow> symbol list \<Rightarrow> nat list \<Rightarrow> spm_bigram list \<Rightarrow> rev_merge \<Rightarrow>
     (spm_bigram list \<times> rev_merge) option" where
  "spm_seed v t symbols [] queue rev_merge = Some (queue, rev_merge)"
| "spm_seed v t symbols (i # is) queue rev_merge =
     Option.bind (try_add_bigram v t symbols (i - 1) i queue rev_merge)
       (\<lambda>(queue, rev_merge). spm_seed v t symbols is queue rev_merge)"

definition spm_pass ::
  "('re, 'z) gguf_vocab_scheme \<Rightarrow> utf8 \<Rightarrow> symbol list \<Rightarrow> spm_bigram \<Rightarrow> spm_bigram list \<Rightarrow> rev_merge \<Rightarrow>
     (symbol list \<times> spm_bigram list \<times> rev_merge) option" where
  "spm_pass v t symbols bigram queue rev_merge =
     (let left = as_usize (sb_left bigram); right = as_usize (sb_right bigram)
      in if \<not> (left < length symbols \<and> right < length symbols) then None
         else
           let left_len = sy_len (symbols ! left); right_len = sy_len (symbols ! right)
           in if left_len = 0 \<or> right_len = 0 \<or> left_len + right_len \<noteq> sb_size bigram
              then Some (symbols, queue, rev_merge)
              else
                Option.bind (absorb symbols left right) (\<lambda>symbols.
                let prev = sy_prev (symbols ! left); next = sy_next (symbols ! left) in
                Option.bind (if 0 \<le> sint prev then try_add_bigram v t symbols (as_usize prev) left queue rev_merge
                             else Some (queue, rev_merge)) (\<lambda>(queue, rev_merge).
                Option.bind (if 0 \<le> sint next then try_add_bigram v t symbols left (as_usize next) queue rev_merge
                             else Some (queue, rev_merge)) (\<lambda>(queue, rev_merge).
                Some (symbols, queue, rev_merge)))))"

partial_function (option) spm_loop ::
  "('re, 'z) gguf_vocab_scheme \<Rightarrow> utf8 \<Rightarrow> symbol list \<Rightarrow> spm_bigram list \<Rightarrow> rev_merge \<Rightarrow>
     (symbol list \<times> rev_merge) option" where
  "spm_loop v t symbols queue rev_merge =
     (case pop_least spm_key queue of
        None \<Rightarrow> Some (symbols, rev_merge)
      | Some (bigram, queue) \<Rightarrow>
          Option.bind (spm_pass v t symbols bigram queue rev_merge)
            (\<lambda>(symbols, queue, rev_merge). spm_loop v t symbols queue rev_merge))"

declare spm_loop.simps [code]

section \<open>Emission\<close>

definition byte_fallback :: "('re, 'z) gguf_vocab_scheme \<Rightarrow> utf8 \<Rightarrow> u32 list" where
  "byte_fallback v piece =
     concat (map (\<lambda>byte. case byte_to_token v byte of
                            Some tid \<Rightarrow> [tid]
                          | None \<Rightarrow> (case gv_unk_id v of None \<Rightarrow> [] | Some tid \<Rightarrow> [tid])) piece)"

text \<open>The merge a piece is split along: only one whose two symbols are shorter than the piece.\<close>

definition rev_split :: "symbol list \<Rightarrow> rev_merge \<Rightarrow> utf8 \<Rightarrow> nat \<Rightarrow> (nat \<times> nat) option option" where
  "rev_split symbols rev_merge piece len =
     (case map_of rev_merge piece of
        None \<Rightarrow> Some None
      | Some (left, right) \<Rightarrow>
          if \<not> left < length symbols then None
          else if \<not> sy_len (symbols ! left) < len then Some None
          else if \<not> right < length symbols then None
          else if \<not> sy_len (symbols ! right) < len then Some None
          else Some (Some (left, right)))"

partial_function (option) resegment ::
  "('re, 'z) gguf_vocab_scheme \<Rightarrow> utf8 \<Rightarrow> symbol list \<Rightarrow> rev_merge \<Rightarrow> symbol list \<Rightarrow> u32 list option" where
  "resegment v t symbols rev_merge stack =
     (case stack of
        [] \<Rightarrow> Some []
      | popped # stack \<Rightarrow>
          if sy_len popped = 0 then resegment v t symbols rev_merge stack
          else
            let piece = sy_text popped t
            in case token_to_id v piece of
                 Some tid \<Rightarrow> Option.bind (resegment v t symbols rev_merge stack) (\<lambda>out. Some (tid # out))
               | None \<Rightarrow>
                   Option.bind (rev_split symbols rev_merge piece (sy_len popped)) (\<lambda>split.
                   case split of
                     Some (left, right) \<Rightarrow>
                       resegment v t symbols rev_merge (symbols ! left # symbols ! right # stack)
                   | None \<Rightarrow>
                       Option.bind (resegment v t symbols rev_merge stack)
                         (\<lambda>out. Some (byte_fallback v piece @ out))))"

partial_function (option) spm_emit ::
  "('re, 'z) gguf_vocab_scheme \<Rightarrow> utf8 \<Rightarrow> symbol list \<Rightarrow> rev_merge \<Rightarrow> i32 \<Rightarrow> u32 list option" where
  "spm_emit v t symbols rev_merge index =
     (if index = - 1 then Some []
      else if as_usize index < length symbols
      then
        let symbol = symbols ! as_usize index
        in Option.bind (resegment v t symbols rev_merge [symbol]) (\<lambda>ids.
           Option.bind (spm_emit v t symbols rev_merge (sy_next symbol)) (\<lambda>rest. Some (ids @ rest)))
      else None)"

declare resegment.simps [code] and spm_emit.simps [code]

definition spm_tokenize :: "('re, 'z) gguf_vocab_scheme \<Rightarrow> utf8 \<Rightarrow> u32 list option" where
  "spm_tokenize v t =
     (if t = [] then Some []
      else
        let symbols = split_chars t in
        Option.bind (spm_seed v t symbols [1..<length symbols] [] []) (\<lambda>(queue, rev_merge).
        Option.bind (spm_loop v t symbols queue rev_merge) (\<lambda>(symbols, rev_merge).
        spm_emit v t symbols rev_merge 0)))"


section \<open>The loop merges greedily\<close>

definition spm_weight :: "('re, 'z) gguf_vocab_scheme \<Rightarrow> utf8 \<Rightarrow> utf8 \<Rightarrow> u32 option" where
  "spm_weight v s t = map_option (token_score v) (token_to_id v (s @ t))"

definition spm_make :: "nat \<Rightarrow> nat \<Rightarrow> utf8 \<Rightarrow> utf8 \<Rightarrow> u32 \<Rightarrow> spm_bigram" where
  "spm_make l r v w score = \<lparr>sb_left = word_of_nat l, sb_right = word_of_nat r, sb_score = score,
     sb_size = length v + length w\<rparr>"

definition spm_fresh :: "spm_bigram \<Rightarrow> nat \<Rightarrow> nat \<Rightarrow> bool" where
  "spm_fresh b m n \<longleftrightarrow> 0 < m \<and> 0 < n \<and> m + n = sb_size b"

interpretation spm: merge_queue spm_make "\<lambda>s. - total_key s" "\<lambda>b. as_usize (sb_left b)" "\<lambda>b. as_usize (sb_right b)"
  spm_key spm_fresh
proof
  fix v v' w w' :: utf8 and l r k
  assume "prefix v v'" "prefix w w'" "spm_fresh (spm_make l r v w k) (length v') (length w')"
  then show "v' = v \<and> w' = w" by (auto simp: spm_fresh_def spm_make_def prefix_def)
qed (auto simp: spm_make_def spm_key_def spm_fresh_def index_word)

text \<open>Pieces in the map of merges are tokens.\<close>

definition rev_known :: "('re, 'z) gguf_vocab_scheme \<Rightarrow> rev_merge \<Rightarrow> bool" where
  "rev_known v rev_merge \<longleftrightarrow> (\<forall>p. map_of rev_merge p \<noteq> None \<longrightarrow> token_to_id v p \<noteq> None)"

lemma str_get_pair:
  assumes "symbols_show sy (ys @ (l, u) # (r, w) # zs)"
  shows "str_get (texts (ys @ (l, u) # (r, w) # zs)) (sy_start (sy ! l)) (sy_start (sy ! l) + (sy_len (sy ! l) + sy_len (sy ! r))) = Some (u @ w)"
proof -
  have pieces: "\<forall>x \<in> set (ys @ (l, u) # (r, w) # zs). text_ok (snd x)"
    using symbols_showD(4)[OF assms] by (auto simp: text_piece_def)
  have "list_all char_ok (chars u @ chars w)" "list_all char_ok (concat (map (chars \<circ> snd) zs))"
    using pieces by (auto simp: text_ok_def list_all_iff)
  from str_get_run[OF this, of "texts ys"]
  have "str_get (texts ys @ (u @ w) @ texts zs) (length (texts ys)) (length (texts ys) + length (u @ w)) = Some (u @ w)"
    by (simp add: texts_chars)
  moreover have "sy_start (sy ! l) = length (texts ys)" "sy_len (sy ! l) = length u" "sy_len (sy ! r) = length w"
    using symbols_showD(1)[OF assms] by simp_all
  ultimately show ?thesis by simp
qed

lemma try_add_bigram_offer:
  assumes "symbols_show sy xs" and "adjacent xs (l, u) (r, w)" and "rev_known v rm"
  shows "\<exists>queue' rm'. try_add_bigram v (texts xs) sy l r queue rm = Some (queue', rm') \<and>
    set queue' = set queue \<union> spm.offer (spm_weight v) (l, u) (r, w) \<and> rev_known v rm'"
proof -
  obtain ys zs where xs: "xs = ys @ (l, u) # (r, w) # zs" using assms(2) by (auto simp: adjacent_split)
  note at = symbols_show_at[OF assms(1), of l u] symbols_show_at[OF assms(1), of r w]
  have "l < length sy" "r < length sy" "sy_len (sy ! l) = length u" "sy_len (sy ! r) = length w"
    using at by (simp_all add: xs)
  moreover have "str_get (texts xs) (sy_start (sy ! l)) (sy_start (sy ! l) + (length u + length w)) = Some (u @ w)"
    using str_get_pair[OF assms(1)[unfolded xs]] calculation by (simp add: xs)
  ultimately show ?thesis
    using assms(3)
    by (auto simp: try_add_bigram_def spm.offer_def spm_make_def spm_weight_def rev_known_def Let_def update_conv'
        split: option.split)
qed


lemma spm_seed_offers:
  assumes "symbols_show sy (enumerate 0 cs)" and "\<forall>i \<in> set is. 0 < i \<and> i < length cs" and "rev_known v rm"
  shows "\<exists>queue' rm'. spm_seed v (concat cs) sy is queue rm = Some (queue', rm') \<and> rev_known v rm' \<and>
    set queue' = set queue \<union> (\<Union>i \<in> set is. spm.offer (spm_weight v) (i - 1, cs ! (i - 1)) (i, cs ! i))"
  using assms(2,3)
proof (induction "is" arbitrary: queue rm)
  case (Cons i "is")
  have "adjacent (enumerate 0 cs) (i - 1, cs ! (i - 1)) (i, cs ! i)"
    using adjacent_nth[of "i - 1" "enumerate 0 cs"] Cons.prems(1)
      nth_enumerate_eq[of "i - 1" cs 0] nth_enumerate_eq[of i cs 0] by (cases i) simp_all
  from try_add_bigram_offer[OF assms(1) this Cons.prems(2), of queue]
  obtain q rm' where q: "try_add_bigram v (concat cs) sy (i - 1) i queue rm = Some (q, rm')" "rev_known v rm'"
    "set q = set queue \<union> spm.offer (spm_weight v) (i - 1, cs ! (i - 1)) (i, cs ! i)"
    by auto
  then show ?case using Cons.IH[OF _ q(2), of q] Cons.prems(1) by auto
qed simp

lemma spm_pass_ok:
  assumes ok: "spm.queue_ok (spm_weight v) sy xs (set queue)" and pop: "pop_least spm_key queue = Some (b, rest)"
    and rm: "rev_known v rm"
  obtains sy' queue' rm' xs' where "spm_pass v (texts xs) sy b rest rm = Some (sy', queue', rm')"
    and "spm.queue_ok (spm_weight v) sy' xs' (set queue')" and "texts xs' = texts xs" and "rev_known v rm'"
    and "greedy (spm.ranked (spm_weight v)) (map snd xs') = greedy (spm.ranked (spm_weight v)) (map snd xs)"
    and "length xs' < length xs \<or> length xs' = length xs \<and> length queue' < length queue"
proof (cases "spm_fresh b (sy_len (sy ! as_usize (sb_left b))) (sy_len (sy ! as_usize (sb_right b)))")
  case False
  have ok': "spm.queue_ok (spm_weight v) sy xs (insert b (set rest))" using ok pop_least_set[OF pop] by simp
  have "as_usize (sb_left b) < length sy" "as_usize (sb_right b) < length sy"
    using ok' spm.sound_index[of sy xs "spm_weight v" b] by (simp_all add: spm.queue_ok_def)
  then have "spm_pass v (texts xs) sy b rest rm = Some (sy, rest, rm)"
    using False by (auto simp: spm_pass_def spm_fresh_def Let_def)
  then show thesis using that spm.drop_stale[OF ok' False] pop_least_length[OF pop] rm by auto
next
  case True
  have ok': "spm.queue_ok (spm_weight v) sy xs (insert b (set rest))" using ok pop_least_set[OF pop] by simp
  have least: "\<forall>c \<in> insert b (set rest). spm_key b \<le> spm_key c"
    using pop_least_Some[OF pop] pop_least_set[OF pop] by simp
  let ?l = "as_usize (sb_left b)"
  from spm.merge_step[OF ok' least True] obtain ys u w zs sy' where
    xs: "xs = ys @ (?l, u) # (as_usize (sb_right b), w) # zs"
    and ab: "absorb sy ?l (as_usize (sb_right b)) = Some sy'"
    and grd: "greedy (spm.ranked (spm_weight v)) (map snd xs) = greedy (spm.ranked (spm_weight v)) (map snd (ys @ (?l, u @ w) # zs))"
    and qok: "spm.queue_ok (spm_weight v) sy' (ys @ (?l, u @ w) # zs)
      (set rest \<union> (if ys = [] then {} else spm.offer (spm_weight v) (last ys) (?l, u @ w)) \<union>
        (if zs = [] then {} else spm.offer (spm_weight v) (?l, u @ w) (hd zs)))" .
  let ?new = "ys @ (?l, u @ w) # zs"
  have shown: "symbols_show sy' ?new" using qok by (simp add: spm.queue_ok_def)
  note links = symbols_show_links[OF shown]
  have texts: "texts ?new = texts xs" by (simp add: xs)
  have "ys \<noteq> [] \<Longrightarrow> adjacent ?new (fst (last ys), snd (last ys)) (?l, u @ w)"
    "zs \<noteq> [] \<Longrightarrow> adjacent ?new (?l, u @ w) (fst (hd zs), snd (hd zs))"
    by (simp_all add: adjacent_append adjacent_Cons)
  note add = try_add_bigram_offer[OF shown this(1), unfolded texts] try_add_bigram_offer[OF shown this(2), unfolded texts]
  obtain q1 rm1 where q1: "(if 0 \<le> sint (sy_prev (sy' ! ?l))
      then try_add_bigram v (texts xs) sy' (as_usize (sy_prev (sy' ! ?l))) ?l rest rm else Some (rest, rm)) = Some (q1, rm1)"
    "set q1 = set rest \<union> (if ys = [] then {} else spm.offer (spm_weight v) (last ys) (?l, u @ w))" "rev_known v rm1"
    using add(1)[OF _ rm, of rest] links(3,5) rm by (cases "ys = []") auto
  obtain q2 rm2 where q2: "(if 0 \<le> sint (sy_next (sy' ! ?l))
      then try_add_bigram v (texts xs) sy' ?l (as_usize (sy_next (sy' ! ?l))) q1 rm1 else Some (q1, rm1)) = Some (q2, rm2)"
    "set q2 = set q1 \<union> (if zs = [] then {} else spm.offer (spm_weight v) (?l, u @ w) (hd zs))" "rev_known v rm2"
    using add(2)[OF _ q1(3), of q1] links(4,6) q1(3) by (cases "zs = []") auto
  have "?l < length sy" "as_usize (sb_right b) < length sy" using ab by (auto simp: absorb_def split: if_splits)
  then have "spm_pass v (texts xs) sy b rest rm = Some (sy', q2, rm2)"
    using True ab q1(1) q2(1) by (simp add: spm_pass_def spm_fresh_def Let_def)
  then show thesis
    using that[of sy' q2 rm2 ?new] qok grd texts q1(2) q2(2,3) by (simp add: xs Un_assoc)
qed

lemma spm_loop_greedy:
  assumes "spm.queue_ok (spm_weight v) sy xs (set queue)" and "rev_known v rm"
  shows "\<exists>sy' rm' xs'. spm_loop v (texts xs) sy queue rm = Some (sy', rm') \<and> symbols_show sy' xs' \<and>
    rev_known v rm' \<and> map snd xs' = greedy (spm.ranked (spm_weight v)) (map snd xs)"
  using assms
proof (induction "(length xs, length queue)" arbitrary: xs queue sy rm rule: less_induct)
  case less
  show ?case
  proof (cases "pop_least spm_key queue")
    case None
    then show ?thesis
      using less.prems spm.queue_empty[of "spm_weight v" sy xs] by (subst spm_loop.simps) (auto simp: spm.queue_ok_def)
  next
    case (Some br)
    then obtain b rest where pop: "pop_least spm_key queue = Some (b, rest)" by (cases br) simp
    from spm_pass_ok[OF less.prems(1) pop less.prems(2)] obtain sy' queue' rm' xs' where
      pass: "spm_pass v (texts xs) sy b rest rm = Some (sy', queue', rm')"
      and ok: "spm.queue_ok (spm_weight v) sy' xs' (set queue')" "texts xs' = texts xs" "rev_known v rm'"
      and grd: "greedy (spm.ranked (spm_weight v)) (map snd xs') = greedy (spm.ranked (spm_weight v)) (map snd xs)"
      and dec: "length xs' < length xs \<or> length xs' = length xs \<and> length queue' < length queue" .
    have "spm_loop v (texts xs) sy queue rm = spm_loop v (texts xs) sy' queue' rm'"
      by (subst spm_loop.simps) (simp add: pop pass)
    then show ?thesis using less.hyps[of xs' queue' sy' rm'] ok grd dec by auto
  qed
qed

text \<open>A piece of the final list is a token, or it goes out as bytes: it is never split again.\<close>

definition spm_emit_piece :: "('re, 'z) gguf_vocab_scheme \<Rightarrow> utf8 \<Rightarrow> u32 list" where
  "spm_emit_piece v p = (case token_to_id v p of Some tid \<Rightarrow> [tid] | None \<Rightarrow> byte_fallback v p)"

lemma resegment_piece:
  assumes "rev_known v rm" and "sy_len s \<noteq> 0"
  shows "resegment v t symbols rm [s] = Some (spm_emit_piece v (sy_text s t))"
proof -
  have nil: "resegment v t symbols rm [] = Some []" by (subst resegment.simps) simp
  have "rev_split symbols rm (sy_text s t) (sy_len s) = Some None" if "token_to_id v (sy_text s t) = None"
  proof -
    have "map_of rm (sy_text s t) = None" using assms(1) that unfolding rev_known_def by blast
    then show ?thesis by (simp add: rev_split_def)
  qed
  then show ?thesis
    using assms(2) by (subst resegment.simps) (auto simp: nil spm_emit_piece_def Let_def split: option.split)
qed

lemma spm_emit_walk:
  assumes "symbols_show sy (ys @ xs)" and "rev_known v rm"
  shows "spm_emit v (texts (ys @ xs)) sy rm (front_link xs (- 1)) = Some (concat (map (\<lambda>x. spm_emit_piece v (snd x)) xs))"
  using assms(1)
proof (induction xs arbitrary: ys)
  case Nil
  then show ?case by (subst spm_emit.simps) simp
next
  case (Cons x xs)
  obtain i u where x: "x = (i, u)" by (cases x)
  have i: "i < length sy" "i < 2 ^ 31" "sy_len (sy ! i) = length u" "u \<noteq> []"
    using symbols_show_at[OF Cons.prems, of i u] by (simp_all add: x)
  then have "word_of_nat i \<noteq> (- 1 :: i32)" by (intro index_no_end)
  moreover have "sy_next (sy ! i) = front_link xs (- 1)" using symbols_show_links(2)[of sy ys i u xs] Cons.prems by (simp add: x)
  moreover have "resegment v (texts (ys @ x # xs)) sy rm [sy ! i] = Some (spm_emit_piece v u)"
    using resegment_piece[OF assms(2), of "sy ! i"] i symbols_show_text[OF Cons.prems, of x] by (simp add: x)
  moreover have "spm_emit v (texts (ys @ x # xs)) sy rm (front_link xs (- 1)) = Some (concat (map (\<lambda>x. spm_emit_piece v (snd x)) xs))"
    using Cons.IH[of "ys @ [x]"] Cons.prems by simp
  ultimately show ?case
    using i by (subst spm_emit.simps) (simp add: x index_word)
qed

lemma spm_tokenize_greedy:
  assumes "text_ok t" and "length (chars t) < 2 ^ 31"
  shows "spm_tokenize v t = Some (concat (map (spm_emit_piece v) (greedy (spm.ranked (spm_weight v)) (chars t))))"
proof (cases "t = []")
  case True
  then show ?thesis by (simp add: spm_tokenize_def greedy_stop candidates_set)
next
  case False
  let ?xs = "enumerate 0 (chars t)"
  have shown: "symbols_show (split_chars t) ?xs" and len: "length (split_chars t) = length (chars t)"
    using split_chars_show[OF assms(1,2)] .
  obtain queue rm where queue: "spm_seed v t (split_chars t) [1..<length (chars t)] [] [] = Some (queue, rm)" "rev_known v rm"
    "set queue = (\<Union>i \<in> {1..<length (chars t)}. spm.offer (spm_weight v) (i - 1, chars t ! (i - 1)) (i, chars t ! i))"
    using spm_seed_offers[OF shown, of "[1..<length (chars t)]" v "[]" "[]"] by (auto simp: rev_known_def)
  have "set queue = (\<Union>i \<in> {i. Suc i < length (chars t)}. spm.offer (spm_weight v) (i, chars t ! i) (Suc i, chars t ! Suc i))"
    unfolding queue(3) by (force simp: image_iff Suc_le_eq dest: less_imp_Suc_add)
  from spm_loop_greedy[OF spm.queue_start[OF assms(1,2) this] queue(2)] obtain sy rm' xs where
    loop: "spm_loop v t (split_chars t) queue rm = Some (sy, rm')" "symbols_show sy xs" "rev_known v rm'"
    "map snd xs = greedy (spm.ranked (spm_weight v)) (chars t)" by auto
  have "texts xs = t" using loop(4) by (simp add: concat_greedy)
  moreover from this have "front_link xs (- 1) = 0" using symbols_show_first[OF loop(2)] False by (cases xs) auto
  ultimately have "spm_emit v t sy rm' 0 = Some (concat (map (\<lambda>x. spm_emit_piece v (snd x)) xs))"
    using spm_emit_walk[of sy "[]" xs v rm'] loop(2,3) by simp
  moreover have "map (\<lambda>x. spm_emit_piece v (snd x)) xs = map (spm_emit_piece v) (greedy (spm.ranked (spm_weight v)) (chars t))"
    unfolding loop(4)[symmetric] by simp
  ultimately show ?thesis
    using False queue(1) loop(1) len by (simp add: spm_tokenize_def Let_def)
qed


section \<open>Losing nothing\<close>

lemma unescape_append: "text_ok s \<Longrightarrow> unescape_whitespace (s @ t) = unescape_whitespace s @ unescape_whitespace t"
  by (simp add: unescape_whitespace_def text_ok_append)

lemma unescape_concat: "list_all text_ok ps \<Longrightarrow> unescape_whitespace (concat ps) = concat (map unescape_whitespace ps)"
  by (induction ps) (simp_all add: unescape_append, simp add: unescape_whitespace_def)

lemma char_spm_space: "char_ok spm_space"
  by (simp add: spm_space_def encode_utf8_def char_ok_def char_width_def utf8_cont_def)

lemma unescape_escape:
  assumes "text_ok t" and "spm_space \<notin> set (chars t)"
  shows "unescape_whitespace (escape_whitespace t) = t"
proof -
  let ?cs = "map (\<lambda>c. if c = [0x20] then spm_space else c) (chars t)"
  have "list_all char_ok ?cs" using assms(1) by (auto simp: text_ok_def list_all_iff char_spm_space)
  then have "unescape_whitespace (escape_whitespace t) = concat (map (\<lambda>c. if c = spm_space then [0x20] else c) ?cs)"
    by (simp add: unescape_whitespace_def escape_whitespace_def chars_concat_only)
  also have "map (\<lambda>c. if c = spm_space then [0x20] else c) ?cs = chars t"
    unfolding map_map by (rule map_idI) (use assms(2) in \<open>auto simp: comp_def\<close>)
  finally show ?thesis by simp
qed

text \<open>
  The laws of a SentencePiece vocabulary with byte tokens: every byte has its token, so has the
  marker, and a token that a text spells stands for its spelling.
\<close>

definition spm_complete :: "('re, 'z) gguf_vocab_scheme \<Rightarrow> bool" where
  "spm_complete v \<longleftrightarrow>
     token_to_id v spm_space \<noteq> None \<and>
     (\<forall>b. \<exists>tid. byte_to_token v b = Some tid \<and> token_bytes v tid = Some [b])"

definition spells :: "('re, 'z) gguf_vocab_scheme \<Rightarrow> utf8 \<Rightarrow> bool" where
  "spells v t \<longleftrightarrow>
     (\<forall>p tid. sublist p t \<longrightarrow> token_to_id v p = Some tid \<longrightarrow>
        token_bytes v tid = Some (unescape_whitespace p))"

text \<open>Every piece is a token or a single character.\<close>

definition token_or_char :: "('re, 'z) gguf_vocab_scheme \<Rightarrow> utf8 list \<Rightarrow> bool" where
  "token_or_char v ps \<longleftrightarrow> (\<forall>p \<in> set ps. text_ok p \<and> (token_to_id v p \<noteq> None \<or> char_ok p))"

lemma token_or_char_greedy:
  assumes "token_or_char v ps"
  shows "token_or_char v (greedy (spm.ranked (spm_weight v)) ps)"
proof (rule greedy_invariant[where P = "token_or_char v", OF assms])
  fix ps i k
  assume ps: "token_or_char v ps" "Suc i < length ps" "spm.ranked (spm_weight v) (ps ! i) (ps ! Suc i) = Some k"
  then have "text_ok (ps ! i @ ps ! Suc i)" "token_to_id v (ps ! i @ ps ! Suc i) \<noteq> None"
    by (auto simp: token_or_char_def spm.ranked_def spm_weight_def intro!: text_ok_appendI)
  then show "token_or_char v (join_at i ps)"
    using ps(1) by (auto simp: token_or_char_def join_at_def dest: in_set_takeD in_set_dropD)
qed

lemma byte_fallback_bytes:
  assumes "spm_complete v"
  shows "detokenize_bytes v (byte_fallback v p) False = p"
proof (induction p)
  case (Cons b p)
  obtain tid where "byte_to_token v b = Some tid" "token_bytes v tid = Some [b]"
    using assms unfolding spm_complete_def by blast
  then show ?case using Cons.IH by (simp add: byte_fallback_def detokenize_bytes_def)
qed (simp add: byte_fallback_def)

lemma emit_piece_bytes:
  assumes "spm_complete v" and "spells v t" and "sublist p t" and "token_to_id v p \<noteq> None \<or> char_ok p"
  shows "detokenize_bytes v (spm_emit_piece v p) False = unescape_whitespace p"
proof (cases "token_to_id v p")
  case None
  then have "char_ok p" "p \<noteq> spm_space" using assms(1,4) by (auto simp: spm_complete_def)
  then have "unescape_whitespace p = p" using chars_char[of p "[]"] by (simp add: unescape_whitespace_def)
  then show ?thesis using None byte_fallback_bytes[OF assms(1)] by (simp add: spm_emit_piece_def)
next
  case (Some tid)
  then show ?thesis using assms(2,3) by (auto simp: spells_def spm_emit_piece_def detokenize_bytes_def)
qed

lemma sublist_concat: "p \<in> set ps \<Longrightarrow> sublist p (concat ps)"
  by (metis concat.simps(2) concat_append split_list sublist_appendI)

lemma spm_lossless:
  assumes "spm_complete v" and "spells v t" and "text_ok t" and "length (chars t) < 2 ^ 31"
  shows "\<exists>ids. spm_tokenize v t = Some ids \<and> detokenize_bytes v ids False = unescape_whitespace t"
proof -
  let ?ps = "greedy (spm.ranked (spm_weight v)) (chars t)"
  have "text_ok c" if "c \<in> set (chars t)" for c
    using assms(3) that chars_concat_only[of "[c]"] by (auto simp: text_ok_def list_all_iff)
  then have "token_or_char v (chars t)" using assms(3) by (auto simp: token_or_char_def text_ok_def list_all_iff)
  then have ps: "token_or_char v ?ps" by (rule token_or_char_greedy)
  have t: "concat ?ps = t" by (simp add: concat_greedy)
  have "detokenize_bytes v (concat (map (spm_emit_piece v) qs)) False = concat (map unescape_whitespace qs)"
    if "set qs \<subseteq> set ?ps" for qs
    using that
  proof (induction qs)
    case (Cons q qs)
    then have "sublist q t" using sublist_concat[of q ?ps] by (simp add: t)
    then show ?case
      using Cons ps emit_piece_bytes[OF assms(1,2), of q] by (auto simp: token_or_char_def)
  qed simp
  from this[of ?ps] have "detokenize_bytes v (concat (map (spm_emit_piece v) ?ps)) False = unescape_whitespace t"
    using unescape_concat[of ?ps] ps by (simp add: t token_or_char_def list_all_iff)
  then show ?thesis using spm_tokenize_greedy[OF assms(3,4), of v] by blast
qed

end
