(* ===== verification/Tok_Wpm.thy ===== *)
theory Tok_Wpm
  imports Tok_Vocab
begin

text \<open>
  WordPiece, \<open>gguf_vocab/wpm.rs\<close>: the split into words and the greedy longest match. The full
  lower-case table of Unicode is the parameter \<open>lower\<close>, from a character to its lower-case ones.
\<close>

definition is_whitespace :: "u32 \<Rightarrow> bool" where
  "is_whitespace c \<longleftrightarrow>
     9 \<le> c \<and> c \<le> 13 \<or> c \<in> {0x20, 0x85, 0xA0, 0x1680, 0x2028, 0x2029, 0x202F, 0x205F, 0x3000} \<or>
     0x2000 \<le> c \<and> c \<le> 0x200A"

definition is_control :: "u32 \<Rightarrow> bool" where
  "is_control c \<longleftrightarrow> c \<le> 0x1F \<or> 0x7F \<le> c \<and> c \<le> 0x9F"

definition is_ascii_punctuation :: "u32 \<Rightarrow> bool" where
  "is_ascii_punctuation c \<longleftrightarrow>
     0x21 \<le> c \<and> c \<le> 0x2F \<or> 0x3A \<le> c \<and> c \<le> 0x40 \<or> 0x5B \<le> c \<and> c \<le> 0x60 \<or> 0x7B \<le> c \<and> c \<le> 0x7E"

definition is_standalone :: "u32 \<Rightarrow> bool" where
  "is_standalone c \<longleftrightarrow>
     is_ascii_punctuation c \<or>
     0x3000 \<le> c \<and> c \<le> 0x303F \<or> 0x3400 \<le> c \<and> c \<le> 0x4DBF \<or> 0x4E00 \<le> c \<and> c \<le> 0x9FFF \<or>
     0xF900 \<le> c \<and> c \<le> 0xFAFF \<or> 0xFF00 \<le> c \<and> c \<le> 0xFFEF \<or> 0x20000 \<le> c \<and> c \<le> 0x2A6DF \<or>
     0x2F800 \<le> c \<and> c \<le> 0x2FA1F"

fun preprocess_from :: "(u32 \<Rightarrow> u32 list) \<Rightarrow> u32 list \<Rightarrow> utf8 \<Rightarrow> utf8 list \<Rightarrow> utf8 list" where
  "preprocess_from lower [] current words = (if current \<noteq> [] then words @ [current] else words)"
| "preprocess_from lower (ch # chs) current words =
     (if is_whitespace ch \<or> is_control ch \<or> ch = 0xFFFD
      then preprocess_from lower chs [] (if current \<noteq> [] then words @ [current] else words)
      else if is_standalone ch
      then preprocess_from lower chs []
             ((if current \<noteq> [] then words @ [current] else words) @ [concat (map encode_utf8 (lower ch))])
      else preprocess_from lower chs (current @ concat (map encode_utf8 (lower ch))) words)"

definition preprocess :: "(u32 \<Rightarrow> u32 list) \<Rightarrow> utf8 \<Rightarrow> utf8 list" where
  "preprocess lower t = preprocess_from lower (map char_code (chars t)) [] []"

text \<open>The inner loop: the longest entry that starts at \<open>i\<close> and ends at most at \<open>j\<close>.\<close>

fun wpm_longest :: "('re, 'z) gguf_vocab_scheme \<Rightarrow> utf8 \<Rightarrow> nat \<Rightarrow> nat \<Rightarrow> (u32 \<times> nat) option" where
  "wpm_longest v escaped i 0 = None"
| "wpm_longest v escaped i (Suc j) =
     (if Suc j > i
      then (case Option.bind (str_get escaped i (Suc j)) (token_to_id v) of
              Some tid \<Rightarrow> Some (tid, Suc j)
            | None \<Rightarrow> wpm_longest v escaped i j)
      else None)"

lemma wpm_longest_bounds: "wpm_longest v escaped i j = Some (tid, k) \<Longrightarrow> i < k \<and> k \<le> j"
  by (induction j) (auto split: if_splits option.splits)

text \<open>The outer loop: the ids of the matches, and none at all when a position has no match.\<close>

function wpm_scan :: "('re, 'z) gguf_vocab_scheme \<Rightarrow> utf8 \<Rightarrow> nat \<Rightarrow> u32 list \<Rightarrow> u32 list" where
  "wpm_scan v escaped i ids =
     (if i < length escaped
      then (case wpm_longest v escaped i (min (i + gv_max_token_len v) (length escaped)) of
              Some (tid, j) \<Rightarrow> wpm_scan v escaped j (ids @ [tid])
            | None \<Rightarrow> [])
      else ids)"
  by pat_completeness auto
termination
  by (relation "measure (\<lambda>(v, escaped, i, ids). length escaped - i)") (auto dest!: wpm_longest_bounds)

declare wpm_scan.simps [simp del]

definition wpm_word :: "('re, 'z) gguf_vocab_scheme \<Rightarrow> utf8 \<Rightarrow> u32 list" where
  "wpm_word v word =
     (let ids = wpm_scan v (spm_space @ word) 0 []
      in if ids = [] then (case gv_unk_id v of None \<Rightarrow> [] | Some tid \<Rightarrow> [tid]) else ids)"

definition wpm_tokenize :: "(u32 \<Rightarrow> u32 list) \<Rightarrow> ('re, 'z) gguf_vocab_scheme \<Rightarrow> utf8 \<Rightarrow> u32 list" where
  "wpm_tokenize lower v t = concat (map (wpm_word v) (preprocess lower t))"

section \<open>Longest match\<close>

text \<open>The ids cover the word, each the longest entry at its place.\<close>

lemma wpm_longest_Some:
  assumes "wpm_longest v escaped i j = Some (tid, k)"
  shows "Option.bind (str_get escaped i k) (token_to_id v) = Some tid"
    and "\<And>l. k < l \<Longrightarrow> l \<le> j \<Longrightarrow> Option.bind (str_get escaped i l) (token_to_id v) = None"
  using assms by (induction j) (auto simp: le_Suc_eq split: if_splits option.splits)

inductive longest_cover :: "('re, 'z) gguf_vocab_scheme \<Rightarrow> utf8 \<Rightarrow> nat \<Rightarrow> u32 list \<Rightarrow> bool" for v escaped where
  cover_end: "longest_cover v escaped (length escaped) []"
| cover_step: "i < k \<Longrightarrow> k \<le> length escaped \<Longrightarrow> k \<le> i + gv_max_token_len v \<Longrightarrow>
    token_to_id v (take (k - i) (drop i escaped)) = Some tid \<Longrightarrow>
    (\<forall>l. k < l \<longrightarrow> l \<le> length escaped \<longrightarrow> l \<le> i + gv_max_token_len v \<longrightarrow>
       Option.bind (str_get escaped i l) (token_to_id v) = None) \<Longrightarrow>
    longest_cover v escaped k ids \<Longrightarrow> longest_cover v escaped i (tid # ids)"

lemma wpm_scan_cover:
  assumes "i \<le> length escaped" and "wpm_scan v escaped i ids \<noteq> []"
  shows "\<exists>rest. wpm_scan v escaped i ids = ids @ rest \<and> longest_cover v escaped i rest"
  using assms
proof (induction v escaped i ids rule: wpm_scan.induct)
  case (1 v escaped i ids)
  show ?case
  proof (cases "i < length escaped")
    case False
    then have "i = length escaped" using "1.prems"(1) by simp
    then show ?thesis using cover_end by (subst wpm_scan.simps) auto
  next
    case True
    then obtain tid j where m: "wpm_longest v escaped i (min (i + gv_max_token_len v) (length escaped)) = Some (tid, j)"
      using "1.prems"(2) by (subst (asm) wpm_scan.simps) (auto split: option.splits)
    then have eq: "wpm_scan v escaped i ids = wpm_scan v escaped j (ids @ [tid])"
      using True by (subst wpm_scan.simps) simp
    have j: "i < j" "j \<le> length escaped" "j \<le> i + gv_max_token_len v" using wpm_longest_bounds[OF m] by auto
    then obtain rest where rest: "wpm_scan v escaped j (ids @ [tid]) = (ids @ [tid]) @ rest" "longest_cover v escaped j rest"
      using "1.IH"[OF True m refl] "1.prems"(2) eq by auto
    have "token_to_id v (take (j - i) (drop i escaped)) = Some tid"
      using wpm_longest_Some(1)[OF m] by (auto simp: str_get_def split: if_splits)
    then have "longest_cover v escaped i (tid # rest)"
      using j rest(2) wpm_longest_Some(2)[OF m] by (intro cover_step[of i j]) auto
    then show ?thesis using eq rest(1) by simp
  qed
qed

lemma longest_cover_spells:
  assumes "longest_cover v escaped i ids" and "i \<le> length escaped"
    and "\<And>t tid. token_to_id v t = Some tid \<Longrightarrow> id_to_token v tid = Some t"
  shows "concat (map (\<lambda>tid. the (id_to_token v tid)) ids) = drop i escaped"
  using assms(1,2)
proof (induction rule: longest_cover.induct)
  case (cover_step i k tid ids)
  then have "take (k - i) (drop i escaped) @ drop k escaped = drop i escaped"
    by (metis append_take_drop_id drop_drop le_add_diff_inverse2 less_imp_le_nat)
  then show ?case using cover_step assms(3)[OF cover_step.hyps(4)] by simp
qed simp

end
