(* ===== verification/Tok_Encode.thy ===== *)
theory Tok_Encode
  imports Tok_Bpe Tok_Spm Tok_Wpm
begin

text \<open>
  \<open>GgufVocab::tokenize\<close> of \<open>gguf_vocab/mod.rs\<close>: the split of the text around the special tokens,
  and the three drivers. A panic is the value \<open>None\<close>, and so is a search that never ends.
\<close>

section \<open>Splitting around special tokens\<close>

datatype fragment = FText utf8 | FToken u32

text \<open>\<open>str::find\<close>: the place of the first occurrence.\<close>

fun find_from :: "utf8 \<Rightarrow> utf8 \<Rightarrow> nat \<Rightarrow> nat option" where
  "find_from needle t pos =
     (if take (length needle) t = needle then Some pos
      else case t of [] \<Rightarrow> None | _ # t' \<Rightarrow> find_from needle t' (pos + 1))"

declare find_from.simps [simp del]

partial_function (option) split_out :: "u32 \<Rightarrow> utf8 \<Rightarrow> utf8 \<Rightarrow> fragment list option" where
  "split_out tid needle rest =
     (case find_from needle rest 0 of
        None \<Rightarrow> Some (if rest = [] then [] else [FText rest])
      | Some pos \<Rightarrow>
          Option.bind (split_out tid needle (drop (pos + length needle) rest)) (\<lambda>fs.
            Some ((if pos > 0 then [FText (take pos rest)] else []) @ FToken tid # fs)))"

declare split_out.simps [code]

fun split_fragments :: "u32 \<Rightarrow> utf8 \<Rightarrow> fragment list \<Rightarrow> fragment list option" where
  "split_fragments tid needle [] = Some []"
| "split_fragments tid needle (FToken t # fs) = map_option (\<lambda>out. FToken t # out) (split_fragments tid needle fs)"
| "split_fragments tid needle (FText rest # fs) =
     Option.bind (split_out tid needle rest) (\<lambda>new. map_option (\<lambda>out. new @ out) (split_fragments tid needle fs))"

fun partition_from :: "('re, 'z) gguf_vocab_scheme \<Rightarrow> bool \<Rightarrow> u32 list \<Rightarrow> fragment list \<Rightarrow> fragment list option" where
  "partition_from v parse_special [] fragments = Some fragments"
| "partition_from v parse_special (tid # ids) fragments =
     (if \<not> unat tid < length (gv_types v) then None
      else if \<not> parse_special \<and> tt_is_special (gv_types v ! unat tid) then partition_from v parse_special ids fragments
      else if \<not> unat tid < length (gv_tokens v) then None
      else Option.bind (split_fragments tid (gv_tokens v ! unat tid) fragments) (partition_from v parse_special ids))"

definition partition_specials :: "('re, 'z) gguf_vocab_scheme \<Rightarrow> utf8 \<Rightarrow> bool \<Rightarrow> fragment list option" where
  "partition_specials v t parse_special =
     partition_from v parse_special (gv_pre_split_ids v) (if t = [] then [] else [FText t])"

section \<open>The drivers\<close>

fun spm_fragments :: "('re, 'z) gguf_vocab_scheme \<Rightarrow> fragment list \<Rightarrow> bool \<Rightarrow> u32 list option" where
  "spm_fragments v [] is_prev_special = Some []"
| "spm_fragments v (FToken tid # fs) is_prev_special =
     map_option (\<lambda>out. tid # out) (spm_fragments v fs True)"
| "spm_fragments v (FText raw # fs) is_prev_special =
     Option.bind (spm_tokenize v (escape_whitespace
       ((if gv_add_space_prefix v \<and> is_prev_special then [0x20] else []) @ raw))) (\<lambda>ids.
     map_option (\<lambda>out. ids @ out) (spm_fragments v fs False))"

fun bpe_fragments ::
  "('re \<Rightarrow> utf8 \<Rightarrow> (nat \<times> nat) option list) \<Rightarrow> ('re, 'z) gguf_vocab_scheme \<Rightarrow> fragment list \<Rightarrow> u32 list option" where
  "bpe_fragments find_iter v [] = Some []"
| "bpe_fragments find_iter v (FToken tid # fs) = map_option (\<lambda>out. tid # out) (bpe_fragments find_iter v fs)"
| "bpe_fragments find_iter v (FText raw # fs) =
     Option.bind (bpe_tokenize find_iter v raw) (\<lambda>ids. map_option (\<lambda>out. ids @ out) (bpe_fragments find_iter v fs))"

fun wpm_fragments :: "(u32 \<Rightarrow> u32 list) \<Rightarrow> ('re, 'z) gguf_vocab_scheme \<Rightarrow> fragment list \<Rightarrow> u32 list" where
  "wpm_fragments lower v [] = []"
| "wpm_fragments lower v (FToken tid # fs) = tid # wpm_fragments lower v fs"
| "wpm_fragments lower v (FText raw # fs) = wpm_tokenize lower v raw @ wpm_fragments lower v fs"

definition opt_ids :: "bool \<Rightarrow> u32 option \<Rightarrow> u32 list" where
  "opt_ids add tid = (if add then (case tid of None \<Rightarrow> [] | Some t \<Rightarrow> [t]) else [])"

definition tokenize_spm :: "('re, 'z) gguf_vocab_scheme \<Rightarrow> fragment list \<Rightarrow> bool \<Rightarrow> u32 list option" where
  "tokenize_spm v fragments add_special =
     map_option (\<lambda>ids. opt_ids (add_special \<and> gv_add_bos v) (gv_bos_id v) @ ids @
                       opt_ids (add_special \<and> gv_add_eos v) (gv_eos_id v))
       (spm_fragments v fragments True)"

definition tokenize_bpe ::
  "('re \<Rightarrow> utf8 \<Rightarrow> (nat \<times> nat) option list) \<Rightarrow> ('re, 'z) gguf_vocab_scheme \<Rightarrow> fragment list \<Rightarrow> bool \<Rightarrow> u32 list option" where
  "tokenize_bpe find_iter v fragments add_special =
     map_option (\<lambda>ids. opt_ids (add_special \<and> gv_add_bos v) (gv_bos_id v) @ ids @
                       opt_ids (add_special \<and> gv_add_eos v) (gv_eos_id v))
       (bpe_fragments find_iter v fragments)"

definition tokenize_wpm :: "(u32 \<Rightarrow> u32 list) \<Rightarrow> ('re, 'z) gguf_vocab_scheme \<Rightarrow> fragment list \<Rightarrow> bool \<Rightarrow> u32 list" where
  "tokenize_wpm lower v fragments add_special =
     opt_ids add_special (gv_bos_id v) @ wpm_fragments lower v fragments @ opt_ids add_special (gv_sep_id v)"

definition tokenize ::
  "('re \<Rightarrow> utf8 \<Rightarrow> (nat \<times> nat) option list) \<Rightarrow> (u32 \<Rightarrow> u32 list) \<Rightarrow> ('re, 'z) gguf_vocab_scheme \<Rightarrow>
     utf8 \<Rightarrow> bool \<Rightarrow> bool \<Rightarrow> u32 list option" where
  "tokenize find_iter lower v t add_special parse_special =
     Option.bind (partition_specials v t parse_special) (\<lambda>fragments.
     case gv_vocab_type v of
       Spm \<Rightarrow> tokenize_spm v fragments add_special
     | Bpe \<Rightarrow> tokenize_bpe find_iter v fragments add_special
     | Wpm \<Rightarrow> Some (tokenize_wpm lower v fragments add_special))"

section \<open>Nothing is lost and nothing is missed\<close>

lemma find_from_Some:
  "find_from needle t pos = Some p \<Longrightarrow>
     pos \<le> p \<and> p - pos \<le> length t \<and> take (length needle) (drop (p - pos) t) = needle \<and>
     (\<forall>q < p - pos. take (length needle) (drop q t) \<noteq> needle)"
proof (induction t arbitrary: pos)
  case Nil
  then show ?case by (subst (asm) find_from.simps) (auto split: if_splits)
next
  case (Cons b t)
  show ?case
  proof (cases "take (length needle) (b # t) = needle")
    case True
    then show ?thesis using Cons.prems by (subst (asm) find_from.simps) simp
  next
    case False
    then have "find_from needle t (pos + 1) = Some p" using Cons.prems by (subst (asm) find_from.simps) simp
    from Cons.IH[OF this] obtain d where d: "p = pos + 1 + d" "d \<le> length t" "take (length needle) (drop d t) = needle"
      "\<forall>q < d. take (length needle) (drop q t) \<noteq> needle"
      by (metis le_add_diff_inverse)
    have "take (length needle) (drop q (b # t)) \<noteq> needle" if "q < Suc d" for q
      using that d(4) False by (cases q) auto
    then show ?thesis using d(1-3) by simp
  qed
qed

lemma find_from_None: "find_from needle t pos = None \<Longrightarrow> take (length needle) (drop q t) \<noteq> needle"
proof (induction t arbitrary: pos q)
  case Nil
  then show ?case by (subst (asm) find_from.simps) (auto split: if_splits)
next
  case (Cons b t)
  then show ?case by (subst (asm) (2) find_from.simps) (cases q; auto split: if_splits)
qed

definition occurs :: "utf8 \<Rightarrow> utf8 \<Rightarrow> bool" where
  "occurs needle t \<longleftrightarrow> (\<exists>q. take (length needle) (drop q t) = needle)"

lemma occurs_sublist: "occurs needle t \<longleftrightarrow> sublist needle t"
proof
  show "occurs needle t \<Longrightarrow> sublist needle t"
    unfolding occurs_def by (metis sublist_drop sublist_order.order.trans sublist_take)
next
  assume "sublist needle t"
  then obtain xs ys where "t = xs @ needle @ ys" by (auto simp: sublist_def)
  then show "occurs needle t" unfolding occurs_def by (intro exI[of _ "length xs"]) simp
qed

fun fragment_bytes :: "('re, 'z) gguf_vocab_scheme \<Rightarrow> fragment \<Rightarrow> utf8" where
  "fragment_bytes v (FText t) = t"
| "fragment_bytes v (FToken tid) = gv_tokens v ! unat tid"

text \<open>Splitting out a token that is not empty always ends, keeps the bytes, and leaves no occurrence behind.\<close>

lemma split_out_ok:
  assumes "needle \<noteq> []" and "gv_tokens v ! unat tid = needle"
  shows "\<exists>fs. split_out tid needle rest = Some fs \<and> concat (map (fragment_bytes v) fs) = rest \<and>
    (\<forall>f \<in> set fs. f = FToken tid \<or> (\<exists>t. f = FText t \<and> t \<noteq> [] \<and> sublist t rest \<and> \<not> sublist needle t))"
proof (induction "length rest" arbitrary: rest rule: less_induct)
  case less
  show ?case
  proof (cases "find_from needle rest 0")
    case None
    have "\<not> sublist needle rest"
      using find_from_None[OF None] by (auto simp: occurs_def simp flip: occurs_sublist)
    then show ?thesis using None by (subst split_out.simps) auto
  next
    case (Some pos)
    note found = find_from_Some[OF Some]
    let ?rest = "drop (pos + length needle) rest"
    have rest: "rest = take pos rest @ needle @ ?rest"
      using found by (metis append_take_drop_id diff_zero drop_drop add.commute)
    have "rest \<noteq> []" using found assms(1) by auto
    then have "length ?rest < length rest" using assms(1) by simp
    from less[OF this] obtain fs where fs: "split_out tid needle ?rest = Some fs" "concat (map (fragment_bytes v) fs) = ?rest"
      "\<forall>f \<in> set fs. f = FToken tid \<or> (\<exists>t. f = FText t \<and> t \<noteq> [] \<and> sublist t ?rest \<and> \<not> sublist needle t)" by auto
    have "\<not> occurs needle (take pos rest)"
    proof
      assume "occurs needle (take pos rest)"
      then obtain q where q: "take (length needle) (drop q (take pos rest)) = needle" by (auto simp: occurs_def)
      then have "length (take (length needle) (drop q (take pos rest))) = length needle" by simp
      then have "length needle \<le> pos - q" by auto
      moreover have "0 < length needle" using assms(1) by simp
      ultimately have "q < pos - 0" by linarith
      moreover have "take (length needle) (drop q rest) = needle"
        using q \<open>length needle \<le> pos - q\<close> by (simp add: drop_take min_def)
      ultimately show False using found by blast
    qed
    moreover define hs where "hs = (if pos > 0 then [FText (take pos rest)] else [])"
    ultimately have head: "\<forall>f \<in> set hs. f = FToken tid \<or> (\<exists>t. f = FText t \<and> t \<noteq> [] \<and> sublist t rest \<and> \<not> sublist needle t)"
      using \<open>rest \<noteq> []\<close> by (simp add: occurs_sublist)
    have tail: "\<forall>f \<in> set fs. f = FToken tid \<or> (\<exists>t. f = FText t \<and> t \<noteq> [] \<and> sublist t rest \<and> \<not> sublist needle t)"
      using fs(3) sublist_order.order.trans[OF _ sublist_drop] by blast
    have "split_out tid needle rest = Some (hs @ FToken tid # fs)"
      using fs(1) by (subst split_out.simps) (simp add: Some hs_def)
    moreover have "concat (map (fragment_bytes v) (hs @ FToken tid # fs)) = rest"
      using rest fs(2) assms(2) by (cases "pos = 0") (simp_all add: hs_def)
    moreover have "\<forall>f \<in> set (hs @ FToken tid # fs). f = FToken tid \<or>
        (\<exists>t. f = FText t \<and> t \<noteq> [] \<and> sublist t rest \<and> \<not> sublist needle t)"
      unfolding set_append list.set(2) ball_Un ball_simps using head tail by simp
    ultimately show ?thesis by blast
  qed
qed

lemma split_fragments_ok:
  assumes "needle \<noteq> []" and "gv_tokens v ! unat tid = needle"
  shows "\<exists>out. split_fragments tid needle fs = Some out \<and>
    concat (map (fragment_bytes v) out) = concat (map (fragment_bytes v) fs) \<and>
    (\<forall>i. FToken i \<in> set out \<longrightarrow> i = tid \<or> FToken i \<in> set fs) \<and>
    (\<forall>t. FText t \<in> set out \<longrightarrow> t \<noteq> [] \<and> \<not> sublist needle t \<and> (\<exists>u. FText u \<in> set fs \<and> sublist t u))"
proof (induction fs)
  case (Cons f fs)
  then obtain out where out: "split_fragments tid needle fs = Some out"
    "concat (map (fragment_bytes v) out) = concat (map (fragment_bytes v) fs)"
    "\<forall>i. FToken i \<in> set out \<longrightarrow> i = tid \<or> FToken i \<in> set fs"
    "\<forall>t. FText t \<in> set out \<longrightarrow> t \<noteq> [] \<and> \<not> sublist needle t \<and> (\<exists>u. FText u \<in> set fs \<and> sublist t u)" by blast
  show ?case
  proof (cases f)
    case (FToken t)
    then show ?thesis using out by auto
  next
    case (FText rest)
    from split_out_ok[OF assms, of rest] obtain new where new: "split_out tid needle rest = Some new"
      "concat (map (fragment_bytes v) new) = rest"
      "\<forall>f \<in> set new. f = FToken tid \<or> (\<exists>t. f = FText t \<and> t \<noteq> [] \<and> sublist t rest \<and> \<not> sublist needle t)" by blast
    have "split_fragments tid needle (f # fs) = Some (new @ out)" using new(1) out(1) by (simp add: FText)
    moreover have "\<forall>i. FToken i \<in> set (new @ out) \<longrightarrow> i = tid \<or> FToken i \<in> set (f # fs)"
      using new(3) out(3) by auto
    moreover have "\<forall>t. FText t \<in> set (new @ out) \<longrightarrow> t \<noteq> [] \<and> \<not> sublist needle t \<and> (\<exists>u. FText u \<in> set (f # fs) \<and> sublist t u)"
      using new(3) out(4) by (fastforce simp: FText)
    ultimately show ?thesis using new(2) out(2) by (intro exI[of _ "new @ out"]) (simp add: FText)
  qed
qed simp

text \<open>Which special tokens a call recognises.\<close>

definition recognised :: "('re, 'z) gguf_vocab_scheme \<Rightarrow> bool \<Rightarrow> u32 \<Rightarrow> bool" where
  "recognised v parse_special tid \<longleftrightarrow> parse_special \<or> \<not> tt_is_special (gv_types v ! unat tid)"

definition pre_split_ok :: "('re, 'z) gguf_vocab_scheme \<Rightarrow> u32 list \<Rightarrow> bool" where
  "pre_split_ok v ids \<longleftrightarrow>
     (\<forall>tid \<in> set ids. unat tid < length (gv_types v) \<and> unat tid < length (gv_tokens v) \<and> gv_tokens v ! unat tid \<noteq> [])"

lemma partition_from_ok:
  assumes "pre_split_ok v ids" and "\<forall>t. FText t \<in> set fs \<longrightarrow> t \<noteq> []"
  shows "\<exists>out. partition_from v parse_special ids fs = Some out \<and>
    concat (map (fragment_bytes v) out) = concat (map (fragment_bytes v) fs) \<and>
    (\<forall>i. FToken i \<in> set out \<longrightarrow> FToken i \<in> set fs \<or> i \<in> set ids \<and> recognised v parse_special i) \<and>
    (\<forall>t. FText t \<in> set out \<longrightarrow> t \<noteq> [] \<and> (\<exists>u. FText u \<in> set fs \<and> sublist t u) \<and>
       (\<forall>i \<in> set ids. recognised v parse_special i \<longrightarrow> \<not> sublist (gv_tokens v ! unat i) t))"
  using assms
proof (induction ids arbitrary: fs)
  case Nil
  then show ?case by auto
next
  case (Cons tid ids)
  have ids: "pre_split_ok v ids" and tid: "unat tid < length (gv_types v)" "unat tid < length (gv_tokens v)"
    "gv_tokens v ! unat tid \<noteq> []" using Cons.prems(1) by (simp_all add: pre_split_ok_def)
  show ?case
  proof (cases "recognised v parse_special tid")
    case False
    then show ?thesis using Cons.IH[OF ids Cons.prems(2)] tid by (fastforce simp: recognised_def)
  next
    case True
    from split_fragments_ok[OF tid(3) refl, of fs] obtain mid where
      mid: "split_fragments tid (gv_tokens v ! unat tid) fs = Some mid"
      "concat (map (fragment_bytes v) mid) = concat (map (fragment_bytes v) fs)"
      "\<forall>i. FToken i \<in> set mid \<longrightarrow> i = tid \<or> FToken i \<in> set fs"
      "\<forall>t. FText t \<in> set mid \<longrightarrow> t \<noteq> [] \<and> \<not> sublist (gv_tokens v ! unat tid) t \<and> (\<exists>u. FText u \<in> set fs \<and> sublist t u)"
      by blast
    from Cons.IH[OF ids, of mid] mid(4) obtain out where
      out: "partition_from v parse_special ids mid = Some out"
      "concat (map (fragment_bytes v) out) = concat (map (fragment_bytes v) mid)"
      "\<forall>i. FToken i \<in> set out \<longrightarrow> FToken i \<in> set mid \<or> i \<in> set ids \<and> recognised v parse_special i"
      "\<forall>t. FText t \<in> set out \<longrightarrow> t \<noteq> [] \<and> (\<exists>u. FText u \<in> set mid \<and> sublist t u) \<and>
         (\<forall>i \<in> set ids. recognised v parse_special i \<longrightarrow> \<not> sublist (gv_tokens v ! unat i) t)"
      by blast
    have "partition_from v parse_special (tid # ids) fs = Some out"
      using True tid mid(1) out(1) by (auto simp: recognised_def)
    moreover have "t \<noteq> [] \<and> (\<exists>u. FText u \<in> set fs \<and> sublist t u) \<and>
        (\<forall>i \<in> set (tid # ids). recognised v parse_special i \<longrightarrow> \<not> sublist (gv_tokens v ! unat i) t)"
      if t: "FText t \<in> set out" for t
    proof -
      obtain u where u: "FText u \<in> set mid" "sublist t u" using out(4) t by blast
      then obtain w where "FText w \<in> set fs" "sublist u w" "\<not> sublist (gv_tokens v ! unat tid) u" using mid(4) by blast
      then show ?thesis using out(4) t u(2) sublist_order.order.trans by (metis set_ConsD)
    qed
    moreover have "\<forall>i. FToken i \<in> set out \<longrightarrow> FToken i \<in> set fs \<or> i \<in> set (tid # ids) \<and> recognised v parse_special i"
      using out(3) mid(3) True by auto
    ultimately show ?thesis using out(2) mid(2) by (intro exI[of _ out]) simp
  qed
qed


text \<open>A text in which no special token occurs is left in one piece.\<close>

lemma split_out_none: "\<not> sublist needle t \<Longrightarrow> t \<noteq> [] \<Longrightarrow> split_out tid needle t = Some [FText t]"
proof -
  assume "\<not> sublist needle t" "t \<noteq> []"
  then have "find_from needle t 0 = None"
    using find_from_Some[of needle t 0] by (cases "find_from needle t 0") (auto simp: occurs_def simp flip: occurs_sublist)
  then show ?thesis using \<open>t \<noteq> []\<close> by (subst split_out.simps) simp
qed

lemma partition_plain:
  assumes "pre_split_ok v ids" and "t \<noteq> []"
    and "\<forall>i \<in> set ids. recognised v parse_special i \<longrightarrow> \<not> sublist (gv_tokens v ! unat i) t"
  shows "partition_from v parse_special ids [FText t] = Some [FText t]"
  using assms
proof (induction ids)
  case (Cons i ids)
  then have "partition_from v parse_special ids [FText t] = Some [FText t]" by (simp add: pre_split_ok_def)
  then show ?case using Cons.prems by (auto simp: pre_split_ok_def recognised_def split_out_none)
qed simp

end
