(* ===== verification/Tok_Safety.thy ===== *)
theory Tok_Safety
  imports Tok_Encode
begin

text \<open>
  What \<open>from_metadata\<close> establishes: the tables of a loaded vocabulary agree with each other, every
  id it holds is in range, and the special tokens are ordered for the split.
\<close>

section \<open>The index of the tokens\<close>

lemma map_of_or_insert: "map_of (or_insert k v al) = (if map_of al k = None then (map_of al)(k \<mapsto> v) else map_of al)"
  by (auto simp: or_insert_def split: option.split)

text \<open>\<open>t\<close> stands first at the place that gets the id \<open>i\<close>, counting from \<open>k\<close>.\<close>

definition first_at :: "utf8 list \<Rightarrow> nat \<Rightarrow> utf8 \<Rightarrow> u32 \<Rightarrow> bool" where
  "first_at ts k t i \<longleftrightarrow> (\<exists>j < length ts. i = word_of_nat (k + j) \<and> ts ! j = t \<and> t \<notin> set (take j ts))"

lemma first_at_Cons:
  "first_at (u # ts) k t i \<longleftrightarrow> u = t \<and> i = word_of_nat k \<or> u \<noteq> t \<and> first_at ts (k + 1) t i"
  by (auto simp: first_at_def Ex_less_Suc2)

lemma index_tokens_Cons:
  "index_tokens (t # ts) k m = Inr ids \<longleftrightarrow>
     k < 2 ^ 32 \<and> index_tokens ts (k + 1) (or_insert t (word_of_nat k) m) = Inr ids"
  by simp

declare index_tokens.simps(2) [simp del]

lemma index_tokens_size: "index_tokens ts k m = Inr ids \<Longrightarrow> ts = [] \<or> k + length ts \<le> 2 ^ 32"
proof (induction ts arbitrary: k m)
  case (Cons t ts)
  then have k: "k < 2 ^ 32" and rec: "index_tokens ts (k + 1) (or_insert t (word_of_nat k) m) = Inr ids"
    unfolding index_tokens_Cons by blast+
  show ?case using k Cons.IH[OF rec] by auto
qed simp

lemma index_tokens_keeps: "index_tokens ts k m = Inr ids \<Longrightarrow> map_of m t = Some i \<Longrightarrow> map_of ids t = Some i"
proof (induction ts arbitrary: k m)
  case (Cons u ts)
  then have rec: "index_tokens ts (k + 1) (or_insert u (word_of_nat k) m) = Inr ids"
    unfolding index_tokens_Cons by blast
  show ?case by (rule Cons.IH[OF rec]) (use Cons.prems(2) in \<open>auto simp: map_of_or_insert\<close>)
qed simp

lemma index_tokens_covers: "index_tokens ts k m = Inr ids \<Longrightarrow> t \<in> set ts \<Longrightarrow> map_of ids t \<noteq> None"
proof (induction ts arbitrary: k m)
  case (Cons u ts)
  then have rec: "index_tokens ts (k + 1) (or_insert u (word_of_nat k) m) = Inr ids"
    unfolding index_tokens_Cons by blast
  have "map_of (or_insert u (word_of_nat k) m) u \<noteq> None" by (simp add: map_of_or_insert)
  then show ?case using Cons.IH[OF rec] Cons.prems(2) index_tokens_keeps[OF rec, of u] by auto
qed simp

lemma index_tokens_first:
  "index_tokens ts k m = Inr ids \<Longrightarrow> map_of ids t = Some i \<Longrightarrow>
     map_of m t = Some i \<or> map_of m t = None \<and> first_at ts k t i"
proof (induction ts arbitrary: k m)
  case (Cons u ts)
  then have "index_tokens ts (k + 1) (or_insert u (word_of_nat k) m) = Inr ids"
    unfolding index_tokens_Cons by blast
  from Cons.IH[OF this Cons.prems(2)] show ?case
    by (auto simp: map_of_or_insert first_at_Cons split: if_splits)
qed simp

section \<open>Loaded vocabularies\<close>

definition ids_ok :: "utf8 list \<Rightarrow> (utf8 \<times> u32) list \<Rightarrow> bool" where
  "ids_ok tokens ids \<longleftrightarrow>
     (\<forall>t \<in> set tokens. map_of ids t \<noteq> None) \<and>
     (\<forall>t tid. map_of ids t = Some tid \<longrightarrow> unat tid < length tokens \<and> tokens ! unat tid = t \<and>
        t \<notin> set (take (unat tid) tokens))"

definition in_range :: "nat \<Rightarrow> u32 option \<Rightarrow> bool" where
  "in_range n x \<longleftrightarrow> (\<forall>tid. x = Some tid \<longrightarrow> unat tid < n)"

definition vocab_ok :: "('re, 'z) gguf_vocab_scheme \<Rightarrow> bool" where
  "vocab_ok v \<longleftrightarrow>
     (let n = length (gv_tokens v) in
       0 < n \<and> length (gv_types v) = n \<and> length (gv_scores v) = n \<and> gv_token_bytes v = build_token_bytes v \<and>
       ids_ok (gv_tokens v) (gv_token_to_id v) \<and> pre_split_ok v (gv_pre_split_ids v) \<and>
       (\<forall>tid \<in> set (gv_pre_split_ids v). tt_is_pre_split (gv_types v ! unat tid)) \<and>
       sorted_wrt (\<lambda>a b. length (gv_tokens v ! unat b) \<le> length (gv_tokens v ! unat a)) (gv_pre_split_ids v) \<and>
       (\<forall>x \<in> {gv_bos_id v, gv_eos_id v, gv_eot_id v, gv_eom_id v, gv_unk_id v, gv_sep_id v, gv_pad_id v}. in_range n x) \<and>
       (\<forall>tid \<in> gv_eog_ids v. unat tid < n) \<and>
       (gv_add_bos v \<longrightarrow> gv_bos_id v \<noteq> None) \<and> (gv_add_eos v \<longrightarrow> gv_eos_id v \<noteq> None) \<and>
       (gv_pre_tokenizer v \<noteq> None \<longleftrightarrow> gv_vocab_type v = Bpe))"

lemma index_tokens_ok:
  assumes "index_tokens tokens 0 [] = Inr ids"
  shows "ids_ok tokens ids" and "length tokens \<le> 2 ^ 32"
proof -
  show small: "length tokens \<le> 2 ^ 32" using index_tokens_size[OF assms] by auto
  have "unat tid < length tokens \<and> tokens ! unat tid = t \<and> t \<notin> set (take (unat tid) tokens)"
    if tid: "map_of ids t = Some tid" for t tid
  proof -
    obtain j where j: "j < length tokens" "tid = word_of_nat j" "tokens ! j = t" "t \<notin> set (take j tokens)"
      using index_tokens_first[OF assms tid] by (auto simp: first_at_def)
    moreover have "unat tid = j" using j(1,2) small by (simp add: unat_of_nat_small)
    ultimately show ?thesis by simp
  qed
  then show "ids_ok tokens ids" using index_tokens_covers[OF assms] unfolding ids_ok_def by blast
qed

lemma in_range_simps [simp]: "in_range n None" "in_range n (Some tid) \<longleftrightarrow> unat tid < n"
  by (auto simp: in_range_def)

lemma in_range_lookup: "in_range n (lookup_token_id m n key)"
  by (auto simp: in_range_def lookup_token_id_def bind_eq_Some_conv split: if_splits)

lemma in_range_or_else: "in_range n x \<Longrightarrow> in_range n y \<Longrightarrow> in_range n (or_else x y)"
  by (cases x) (auto simp: or_else_def)

lemma in_range_find: "ids_ok tokens ids \<Longrightarrow> in_range (length tokens) (map_of ids t)"
  by (auto simp: in_range_def ids_ok_def)

lemma in_range_control:
  "ids_ok tokens ids \<Longrightarrow> in_range (length tokens) (find_control_id ids types names)"
proof (induction names)
  case (Cons name names)
  have "in_range (length tokens) (control_id ids types name)"
    using in_range_find[OF Cons.prems, of name]
    by (auto simp: control_id_def in_range_def bind_eq_Some_conv split: option.splits if_splits)
  then show ?case using Cons by (auto split: option.split)
qed simp

lemmas in_range_rules = in_range_lookup in_range_or_else in_range_find in_range_control

lemma pre_split_order_ok:
  assumes "tid \<in> set (pre_split_order tokens types)" and "length tokens \<le> 2 ^ 32"
  shows "unat tid < length tokens" and "tokens ! unat tid \<noteq> []" and "tt_is_pre_split (types ! unat tid)"
proof -
  obtain i where "i < length tokens" "tid = word_of_nat i" "tokens ! i \<noteq> []" "tt_is_pre_split (types ! i)"
    using assms(1) by (auto simp: pre_split_order_def)
  moreover from this have "unat tid = i" using assms(2) by (simp add: unat_of_nat_small)
  ultimately show "unat tid < length tokens" "tokens ! unat tid \<noteq> []" "tt_is_pre_split (types ! unat tid)" by simp_all
qed

lemma pre_split_order_sorted:
  assumes "length tokens \<le> 2 ^ 32"
  shows "sorted_wrt (\<lambda>a b. length (tokens ! unat b) \<le> length (tokens ! unat a)) (pre_split_order tokens types)"
proof -
  let ?key = "\<lambda>i. (- int (length (tokens ! i)), i)"
  let ?is = "sort_key ?key (filter (\<lambda>i. tt_is_pre_split (types ! i) \<and> tokens ! i \<noteq> []) [0..<length tokens])"
  have "sorted_wrt (\<lambda>i j. ?key i \<le> ?key j) ?is"
    using sorted_sort_key[of ?key] by (simp add: sorted_wrt_map)
  moreover have "\<forall>i \<in> set ?is. unat (word_of_nat i :: u32) = i" using assms by (auto simp: unat_of_nat_small)
  ultimately show ?thesis
    unfolding pre_split_order_def sorted_wrt_map
    by (elim sorted_wrt_mono_rel[rotated]) auto
qed

lemma length_normalize [simp]: "length (normalize_len v n fill) = n"
  by (simp add: normalize_len_def)

lemma length_token_types [simp]: "length (token_types codes n) = n"
  by (simp add: token_types_def)

lemma from_metadata_parts:
  assumes "from_metadata compile m = Inr v"
  obtains tokens vt ids pre pre_tok codes fs where "tokens \<noteq> []" and "index_tokens tokens 0 [] = Inr ids"
    and "pre_tok = None \<longleftrightarrow> vt \<noteq> Bpe"
    and "v = finish_vocab m tokens vt (normalize_len fs (length tokens) 0) (token_types codes (length tokens)) ids pre pre_tok"
proof -
  from assms obtain tokens where tokens: "tokens \<noteq> []" and
    rest: "and_then (ok_or (from_model_name (unwrap_or (Option.bind (md_get m ''tokenizer.ggml.model'') as_str) ''llama''))
        (UnsupportedModel (unwrap_or (Option.bind (md_get m ''tokenizer.ggml.model'') as_str) ''llama''))) (\<lambda>vt.
      and_then (index_tokens tokens 0 []) (\<lambda>ids. and_then
        (if vt = Bpe
         then (case compile (resolve_pre_type m vt ids) of
                 None \<Rightarrow> Inl (RegexCompileFailed (resolve_pre_type m vt ids))
               | Some res \<Rightarrow> Inr (Some \<lparr>pt_regexes = res, pt_pre = resolve_pre_type m vt ids\<rparr>))
         else Inr None) (\<lambda>pre_tok.
      Inr (finish_vocab m tokens vt (normalize_len (unwrap_or (read_f32_array m ''tokenizer.ggml.scores'') []) (length tokens) 0)
        (token_types (unwrap_or (read_i32_array m ''tokenizer.ggml.token_type'') []) (length tokens))
        ids (resolve_pre_type m vt ids) pre_tok)))) = Inr v"
    unfolding from_metadata_def Let_def by (elim and_then_InrE) (simp split: if_splits)
  from rest obtain vt ids pre_tok where ids: "index_tokens tokens 0 [] = Inr ids"
    and pre: "(if vt = Bpe
         then (case compile (resolve_pre_type m vt ids) of
                 None \<Rightarrow> Inl (RegexCompileFailed (resolve_pre_type m vt ids))
               | Some res \<Rightarrow> Inr (Some \<lparr>pt_regexes = res, pt_pre = resolve_pre_type m vt ids\<rparr>))
         else Inr None) = Inr pre_tok"
    and v: "v = finish_vocab m tokens vt (normalize_len (unwrap_or (read_f32_array m ''tokenizer.ggml.scores'') []) (length tokens) 0)
        (token_types (unwrap_or (read_i32_array m ''tokenizer.ggml.token_type'') []) (length tokens))
        ids (resolve_pre_type m vt ids) pre_tok"
    by (elim and_then_InrE) simp
  have "pre_tok = None \<longleftrightarrow> vt \<noteq> Bpe" using pre by (auto split: if_splits option.splits)
  then show thesis using that tokens ids v by blast
qed

lemma finish_vocab_tables:
  assumes "v = finish_vocab m tokens vt scores types ids pre pre_tok"
  shows "gv_tokens v = tokens" "gv_vocab_type v = vt" "gv_scores v = scores" "gv_types v = types"
    "gv_token_to_id v = ids" "gv_pre_tokenizer v = pre_tok" "gv_pre_split_ids v = pre_split_order tokens types"
    "gv_token_bytes v = build_token_bytes v"
    "gv_add_bos v \<Longrightarrow> gv_bos_id v \<noteq> None" "gv_add_eos v \<Longrightarrow> gv_eos_id v \<noteq> None"
    "gv_eog_ids v = set (concat (map (\<lambda>name. case find_control_id ids types [name] of None \<Rightarrow> [] | Some tid \<Rightarrow> [tid]) eog_token_names)) \<union>
       set_option (gv_eos_id v) \<union> set_option (gv_eot_id v) \<union> set_option (gv_eom_id v)"
  using assms by (simp_all add: finish_vocab_def Let_def build_token_bytes_def)

lemma finish_vocab_in_range:
  assumes "v = finish_vocab m tokens vt scores types ids pre pre_tok" and "ids_ok tokens ids" and "n = length tokens"
  shows "in_range n (gv_bos_id v)" "in_range n (gv_eos_id v)" "in_range n (gv_eot_id v)" "in_range n (gv_eom_id v)"
    "in_range n (gv_unk_id v)" "in_range n (gv_sep_id v)" "in_range n (gv_pad_id v)"
  using assms by (simp_all add: finish_vocab_def Let_def find_id_def in_range_rules)

lemma set_concat_options:
  "tid \<in> set (concat (map (\<lambda>x. case f x of None \<Rightarrow> [] | Some y \<Rightarrow> [y]) xs)) \<longleftrightarrow> (\<exists>x \<in> set xs. f x = Some tid)"
  by (induction xs) (auto split: option.split)

lemma finish_vocab_eog:
  assumes "v = finish_vocab m tokens vt scores types ids pre pre_tok" and "tid \<in> gv_eog_ids v"
  shows "(\<exists>name \<in> set eog_token_names. find_control_id ids types [name] = Some tid) \<or>
    gv_eos_id v = Some tid \<or> gv_eot_id v = Some tid \<or> gv_eom_id v = Some tid"
  using assms(2) unfolding finish_vocab_tables(11)[OF assms(1)] Un_iff set_concat_options elem_set by blast

lemma from_metadata_ok:
  assumes "from_metadata compile m = Inr v"
  shows "vocab_ok v"
proof -
  obtain tokens vt ids pre pre_tok codes fs where
    tokens: "tokens \<noteq> []" and ids: "index_tokens tokens 0 [] = Inr ids" and pre: "pre_tok = None \<longleftrightarrow> vt \<noteq> Bpe"
    and v: "v = finish_vocab m tokens vt (normalize_len fs (length tokens) 0) (token_types codes (length tokens)) ids pre pre_tok"
    by (rule from_metadata_parts[OF assms])
  note tables = finish_vocab_tables[OF v]
  note ok = index_tokens_ok[OF ids]
  note range = finish_vocab_in_range[OF v ok(1) refl]
  have "unat tid < length tokens" if "tid \<in> gv_eog_ids v" for tid
    using finish_vocab_eog[OF v that]
  proof (elim disjE bexE)
    fix name assume "find_control_id ids (token_types codes (length tokens)) [name] = Some tid"
    then show ?thesis
      using in_range_control[OF ok(1), of "token_types codes (length tokens)" "[name]"] by (simp only: in_range_simps)
  qed (use range(2-4) in simp_all)
  moreover have "pre_split_ok v (gv_pre_split_ids v)"
    using pre_split_order_ok(1,2)[OF _ ok(2)] by (simp add: pre_split_ok_def tables)
  moreover have "tt_is_pre_split (gv_types v ! unat tid)" if "tid \<in> set (gv_pre_split_ids v)" for tid
    using pre_split_order_ok(3)[OF _ ok(2)] that by (simp add: tables)
  moreover have "sorted_wrt (\<lambda>a b. length (gv_tokens v ! unat b) \<le> length (gv_tokens v ! unat a)) (gv_pre_split_ids v)"
    using pre_split_order_sorted[OF ok(2)] by (simp add: tables)
  ultimately show ?thesis
    using tokens ok(1) range pre by (simp add: vocab_ok_def Let_def tables)
qed

end
