(* ===== verification/Tok_Properties.thy ===== *)
theory Tok_Properties
  imports Tok_Safety
begin

text \<open>The properties of the tokenizer, with the vocabularies their witnesses use.\<close>

section \<open>Vocabularies for the witnesses\<close>

definition bare_vocab :: "vocab_type \<Rightarrow> utf8 list \<Rightarrow> token_type list \<Rightarrow> unit gguf_vocab" where
  "bare_vocab vt tokens types =
     (let v = \<lparr>gv_vocab_type = vt, gv_pre_type = PreDefault, gv_tokens = tokens,
        gv_scores = replicate (length tokens) 0, gv_types = types, gv_token_bytes = [],
        gv_token_to_id = map (\<lambda>(i, t). (t, word_of_nat i)) (enumerate 0 tokens), gv_bpe_ranks = [],
        gv_pre_tokenizer = (if vt = Bpe then Some \<lparr>pt_regexes = [], pt_pre = PreDefault\<rparr> else None),
        gv_pre_split_ids = pre_split_order tokens types, gv_bos_id = None, gv_eos_id = None, gv_eot_id = None,
        gv_eom_id = None, gv_unk_id = None, gv_sep_id = None, gv_pad_id = None, gv_eog_ids = {}, gv_add_bos = False,
        gv_add_eos = False, gv_add_space_prefix = (vt = Spm), gv_ignore_merges = False,
        gv_max_token_len = fold max (map length tokens) 0\<rparr>
      in v\<lparr>gv_token_bytes := build_token_bytes v\<rparr>)"

definition byte_vocab :: "unit gguf_vocab" where
  "byte_vocab = bare_vocab Bpe (map (\<lambda>i. byte_to_string (word_of_nat i)) [0..<256]) (replicate 256 Normal)"

lemma bare_vocab_simps [simp]:
  "gv_vocab_type (bare_vocab vt ts tys) = vt" "gv_tokens (bare_vocab vt ts tys) = ts" "gv_types (bare_vocab vt ts tys) = tys"
  "gv_pre_split_ids (bare_vocab vt ts tys) = pre_split_order ts tys" "gv_bpe_ranks (bare_vocab vt ts tys) = []"
  "gv_token_bytes (bare_vocab vt ts tys) = map (\<lambda>i. token_bytes_for vt (tys ! i) (ts ! i)) [0..<length ts]"
  "gv_token_to_id (bare_vocab vt ts tys) = map (\<lambda>(i, t). (t, word_of_nat i)) (enumerate 0 ts)"
  "gv_add_space_prefix (bare_vocab vt ts tys) \<longleftrightarrow> vt = Spm" "gv_ignore_merges (bare_vocab vt ts tys) \<longleftrightarrow> False"
  by (simp_all add: bare_vocab_def Let_def build_token_bytes_def)

lemma map_of_enumerate:
  assumes "distinct ts" and "k + length ts \<le> 2 ^ 32"
  shows "map_of (map (\<lambda>(i, t). (t, word_of_nat i :: u32)) (enumerate k ts)) t = Some tid \<longleftrightarrow>
    (\<exists>j < length ts. ts ! j = t \<and> tid = word_of_nat (k + j))"
  using assms
proof (induction ts arbitrary: k)
  case (Cons u ts)
  then show ?case by (auto simp: Ex_less_Suc2 in_set_conv_nth)
qed simp

lemma bare_vocab_id:
  assumes "distinct ts" and "length ts \<le> 2 ^ 32"
  shows "token_to_id (bare_vocab vt ts tys) t = Some tid \<longleftrightarrow> unat tid < length ts \<and> ts ! unat tid = t"
proof -
  have "(\<exists>j < length ts. ts ! j = t \<and> tid = word_of_nat j) \<longleftrightarrow> unat tid < length ts \<and> ts ! unat tid = t"
    using assms(2) by (auto simp: unat_of_nat_small intro: exI[of _ "unat tid"])
  then show ?thesis using map_of_enumerate[of ts 0 t tid] assms by (simp add: token_to_id_def)
qed

lemma bare_vocab_bytes:
  "unat tid < length ts \<Longrightarrow>
     token_bytes (bare_vocab vt ts tys) tid = Some (token_bytes_for vt (tys ! unat tid) (ts ! unat tid))"
  by (simp add: token_bytes_def nth_opt_def)

lemma byte_to_string_inj: "byte_to_string a = byte_to_string b \<longleftrightarrow> a = b"
  by (metis decode_byte_string(2) option.inject)

lemma distinct_bytes:
  fixes f :: "u8 \<Rightarrow> 'a"
  assumes "\<And>a b. f a = f b \<longleftrightarrow> a = b"
  shows "distinct (map (\<lambda>i. f (word_of_nat i)) [0..<256])"
proof -
  have "word_of_nat i \<noteq> (word_of_nat j :: u8)" if "i < 256" "j < 256" "i \<noteq> j" for i j
    using that unat_of_nat_small[where 'a = 8, of i] unat_of_nat_small[where 'a = 8, of j] by auto
  then show ?thesis by (auto simp: distinct_conv_nth assms)
qed

lemmas byte_strings_distinct = distinct_bytes[OF byte_to_string_inj]

lemma byte_vocab_complete: "byte_complete byte_vocab"
proof -
  let ?ts = "map (\<lambda>i. byte_to_string (word_of_nat i)) [0..<256] :: utf8 list"
  have tid: "token_to_id byte_vocab t = Some tid \<longleftrightarrow> unat tid < 256 \<and> byte_to_string (word_of_nat (unat tid)) = t" for t tid
    unfolding byte_vocab_def using bare_vocab_id[OF byte_strings_distinct, of Bpe "replicate 256 Normal" t tid] by auto
  have "token_to_id byte_vocab (byte_to_string b) \<noteq> None" for b
  proof -
    have "unat b < 256" using unsigned_less[of b] by simp
    moreover from this have "unat (word_of_nat (unat b) :: u32) = unat b" by (intro unat_of_nat_small) simp
    ultimately have "token_to_id byte_vocab (byte_to_string b) = Some (word_of_nat (unat b))"
      unfolding tid by (simp del: of_nat_unat) (simp add: ucast_id)
    then show ?thesis by simp
  qed
  moreover have "token_bytes byte_vocab tid = Some (decode_bytes t)" if "token_to_id byte_vocab t = Some tid" for t tid
    using that bare_vocab_bytes[of tid ?ts Bpe "replicate 256 Normal"]
    by (auto simp: tid simp flip: byte_vocab_def) (simp add: byte_vocab_def token_bytes_for_def)
  ultimately show ?thesis by (simp add: byte_complete_def merge_rank_def byte_vocab_def[symmetric]) (simp add: byte_vocab_def)
qed


text \<open>Byte tokens are written and read alike.\<close>

lemma hex_value_digit: "n < 16 \<Longrightarrow> hex_value (hex_digit n) = Some n"
proof -
  assume "n < 16"
  then have "n \<in> set [0..<16]" by simp
  then show ?thesis
    by (simp add: upt_rec hex_value_def hex_digit_def) (elim disjE; simp)
qed

lemma parse_byte_token_text: "parse_byte_token (byte_token_text b) = Some b"
proof -
  have b: "unat b < 256" using unsigned_less[of b] by simp
  let ?d = "[hex_digit (unat b div 16), hex_digit (unat b mod 16)]"
  have hi: "hex_value (hex_digit (unat b div 16)) = Some (unat b div 16)"
    and lo: "hex_value (hex_digit (unat b mod 16)) = Some (unat b mod 16)"
    using b by (simp_all add: hex_value_digit less_mult_imp_div_less)
  then have "hex_digit (unat b div 16) \<noteq> 0x2B" by (auto simp: hex_value_def)
  moreover have "hex_digits ?d 0 = Some b"
    using b by (simp add: hi lo)
  ultimately have "u8_from_hex ?d = Some b" by (simp add: u8_from_hex_def)
  moreover have "strip_prefix (str_bytes ''<0x'') (byte_token_text b) = Some (?d @ str_bytes ''>'')"
    by (simp add: strip_prefix_def byte_token_text_def)
  moreover have "strip_suffix (str_bytes ''>'') (?d @ str_bytes ''>'') = Some ?d"
    by (simp add: strip_suffix_def strip_prefix_def str_bytes_def)
  ultimately show ?thesis by (simp add: parse_byte_token_def)
qed

definition spm_vocab :: "unit gguf_vocab" where
  "spm_vocab = bare_vocab Spm (spm_space # map (\<lambda>i. byte_token_text (word_of_nat i)) [0..<256])
     (Normal # replicate 256 ByteToken)"

lemma byte_token_text_inj: "byte_token_text a = byte_token_text b \<longleftrightarrow> a = b"
  by (metis parse_byte_token_text option.inject)

lemma byte_token_lt: "0x3C \<in> set (byte_token_text b)" "0x3C \<notin> set spm_space"
  by (simp_all add: byte_token_text_def str_bytes_def byte_of_char_def spm_space_def encode_utf8_def)

lemma spm_vocab_distinct: "distinct (spm_space # map (\<lambda>i. byte_token_text (word_of_nat i)) [0..<256])"
proof -
  have "spm_space \<noteq> byte_token_text b" for b using byte_token_lt by metis
  then show ?thesis
    unfolding distinct.simps using distinct_bytes[OF byte_token_text_inj] by (auto simp del: upt_rec_numeral)
qed

lemma spm_vocab_id:
  "token_to_id spm_vocab t = Some tid \<longleftrightarrow>
     tid = 0 \<and> t = spm_space \<or> (\<exists>i < 256. tid = word_of_nat (Suc i) \<and> t = byte_token_text (word_of_nat i))"
proof -
  let ?ts = "spm_space # map (\<lambda>i. byte_token_text (word_of_nat i)) [0..<256]"
  have "token_to_id spm_vocab t = Some tid \<longleftrightarrow> (\<exists>j < length ?ts. ?ts ! j = t \<and> tid = word_of_nat (0 + j))"
    unfolding spm_vocab_def token_to_id_def bare_vocab_simps
    by (rule map_of_enumerate[OF spm_vocab_distinct]) simp
  also have "length ?ts = Suc 256" by simp
  also have "(\<exists>j < Suc 256. ?ts ! j = t \<and> tid = word_of_nat (0 + j)) \<longleftrightarrow> tid = 0 \<and> t = spm_space \<or> (\<exists>i < 256. tid = word_of_nat (Suc i) \<and> t = byte_token_text (word_of_nat i))"
    unfolding Ex_less_Suc2 by (auto simp del: upt_rec_numeral of_nat_Suc)
  finally show ?thesis .
qed

lemma spm_vocab_bytes:
  "i < 256 \<Longrightarrow> token_bytes spm_vocab (word_of_nat (Suc i)) = Some [word_of_nat i]"
  "token_bytes spm_vocab 0 = Some [0x20]"
proof -
  have "chars spm_space = [spm_space]" using chars_char[OF char_spm_space, of "[]"] by simp
  then show "token_bytes spm_vocab 0 = Some [0x20]"
    unfolding spm_vocab_def by (subst bare_vocab_bytes) (simp_all add: token_bytes_for_def unescape_whitespace_def)
  assume i: "i < 256"
  then have "unat (word_of_nat (Suc i) :: u32) = Suc i" by (intro unat_of_nat_small) simp
  then show "token_bytes spm_vocab (word_of_nat (Suc i)) = Some [word_of_nat i]"
    unfolding spm_vocab_def using i
    by (subst bare_vocab_bytes) (simp_all add: token_bytes_for_def parse_byte_token_text del: upt_rec_numeral of_nat_Suc)
qed

lemma spm_vocab_complete: "spm_complete spm_vocab"
proof -
  have "\<exists>tid. byte_to_token spm_vocab b = Some tid \<and> token_bytes spm_vocab tid = Some [b]" for b
  proof -
    have b: "unat b < 256" using unsigned_less[of b] by simp
    have inv: "word_of_nat (unat b) = b" by (simp add: ucast_id)
    have "token_to_id spm_vocab (byte_token_text b) = Some (word_of_nat (Suc (unat b)))"
      unfolding spm_vocab_id by (intro disjI2 exI[of _ "unat b"]) (simp only: b inv simp_thms)
    moreover have "gv_vocab_type spm_vocab = Spm" by (simp add: spm_vocab_def)
    ultimately have "byte_to_token spm_vocab b = Some (word_of_nat (Suc (unat b)))"
      by (simp only: byte_to_token_def token_to_id_def vocab_type.case option.case)
    then show ?thesis using spm_vocab_bytes(1)[OF b] by (simp only: inv) blast
  qed
  moreover have "token_to_id spm_vocab spm_space = Some 0" by (simp add: spm_vocab_id)
  ultimately show ?thesis by (simp add: spm_complete_def)
qed

lemma spm_vocab_spells: "0x3C \<notin> set t \<Longrightarrow> spells spm_vocab t"
proof -
  assume t: "0x3C \<notin> set t"
  have "token_bytes spm_vocab tid = Some (unescape_whitespace p)"
    if "sublist p t" "token_to_id spm_vocab p = Some tid" for p tid
  proof -
    have "0x3C \<notin> set p" using t set_mono_sublist[OF that(1)] by auto
    then have "tid = 0 \<and> p = spm_space" using that(2) byte_token_lt(1) by (auto simp: spm_vocab_id)
    moreover have "chars spm_space = [spm_space]" using chars_char[OF char_spm_space, of "[]"] by simp
    ultimately show ?thesis by (simp add: spm_vocab_bytes unescape_whitespace_def)
  qed
  then show ?thesis by (simp add: spells_def)
qed

lemma bare_vocab_ok:
  assumes "ts \<noteq> []" and "distinct ts" and "length ts \<le> 2 ^ 32" and "length tys = length ts"
  shows "vocab_ok (bare_vocab vt ts tys)"
proof -
  have "gv_scores (bare_vocab vt ts tys) = replicate (length ts) 0" "gv_add_bos (bare_vocab vt ts tys) = False"
    "gv_add_eos (bare_vocab vt ts tys) = False" "gv_eog_ids (bare_vocab vt ts tys) = {}"
    "gv_pre_tokenizer (bare_vocab vt ts tys) \<noteq> None \<longleftrightarrow> vt = Bpe"
    "gv_bos_id (bare_vocab vt ts tys) = None" "gv_eos_id (bare_vocab vt ts tys) = None" "gv_eot_id (bare_vocab vt ts tys) = None"
    "gv_eom_id (bare_vocab vt ts tys) = None" "gv_unk_id (bare_vocab vt ts tys) = None" "gv_sep_id (bare_vocab vt ts tys) = None"
    "gv_pad_id (bare_vocab vt ts tys) = None" "gv_token_bytes (bare_vocab vt ts tys) = build_token_bytes (bare_vocab vt ts tys)"
    by (simp_all add: bare_vocab_def Let_def build_token_bytes_def)
  moreover have "ids_ok ts (gv_token_to_id (bare_vocab vt ts tys))"
  proof -
    have id: "map_of (gv_token_to_id (bare_vocab vt ts tys)) t = Some tid \<longleftrightarrow> unat tid < length ts \<and> ts ! unat tid = t" for t tid
      using bare_vocab_id[OF assms(2,3)] by (simp add: token_to_id_def)
    have "map_of (gv_token_to_id (bare_vocab vt ts tys)) t \<noteq> None" if t: "t \<in> set ts" for t
    proof -
      obtain j where "j < length ts" "ts ! j = t" using t by (auto simp: in_set_conv_nth)
      then have "map_of (gv_token_to_id (bare_vocab vt ts tys)) t = Some (word_of_nat j)"
        unfolding id using assms(3) by (simp add: unat_of_nat_small)
      then show ?thesis by simp
    qed
    moreover have "ts ! i \<notin> set (take i ts)" if "i < length ts" for i
      using that assms(2) by (auto simp: in_set_conv_nth nth_eq_iff_index_eq)
    ultimately show ?thesis unfolding ids_ok_def id by blast
  qed
  moreover note pre_split_order_ok[OF _ assms(3), of _ tys] pre_split_order_sorted[OF assms(3), of tys]
  ultimately show ?thesis using assms(1,4) by (simp add: vocab_ok_def Let_def pre_split_ok_def)
qed

lemma byte_vocab_ok: "vocab_ok byte_vocab"
  unfolding byte_vocab_def by (rule bare_vocab_ok[OF _ byte_strings_distinct]) simp_all

lemma spm_vocab_ok: "vocab_ok spm_vocab"
  unfolding spm_vocab_def by (rule bare_vocab_ok[OF _ spm_vocab_distinct]) simp_all


section \<open>Pieces and texts\<close>

lemma chars_le: "length (chars t) \<le> length t"
  by (induction t rule: chars.induct) simp_all

definition spm_priority :: "('re, 'z) gguf_vocab_scheme \<Rightarrow> utf8 \<Rightarrow> utf8 \<Rightarrow> int option" where
  "spm_priority v s t = map_option (\<lambda>tid. - total_key (token_score v tid)) (token_to_id v (s @ t))"

lemma spm_ranked: "spm.ranked (spm_weight v) = spm_priority v"
  by (intro ext) (simp add: spm.ranked_def spm_weight_def spm_priority_def option.map_comp comp_def)

lemma special_bytes:
  assumes "vocab_ok v" and "tid \<in> set (gv_pre_split_ids v)"
  shows "token_bytes v tid = Some (gv_tokens v ! unat tid)"
proof -
  have "unat tid < length (gv_tokens v)" "tt_is_pre_split (gv_types v ! unat tid)" "gv_token_bytes v = build_token_bytes v"
    using assms by (auto simp: vocab_ok_def pre_split_ok_def Let_def)
  then show ?thesis
    by (auto simp: token_bytes_def nth_opt_def build_token_bytes_def token_bytes_for_def tt_is_pre_split_def)
qed

lemma partition_specials_ok:
  assumes "vocab_ok v"
  obtains fs where "partition_specials v t parse_special = Some fs" and "concat (map (fragment_bytes v) fs) = t"
    and "\<forall>i. FToken i \<in> set fs \<longrightarrow> i \<in> set (gv_pre_split_ids v) \<and> recognised v parse_special i"
    and "\<forall>u. FText u \<in> set fs \<longrightarrow> u \<noteq> [] \<and> sublist u t \<and>
      (\<forall>i \<in> set (gv_pre_split_ids v). recognised v parse_special i \<longrightarrow> \<not> sublist (gv_tokens v ! unat i) u)"
proof -
  have "pre_split_ok v (gv_pre_split_ids v)" using assms by (simp add: vocab_ok_def Let_def)
  from partition_from_ok[OF this, of "if t = [] then [] else [FText t]" parse_special] show thesis
    using that unfolding partition_specials_def by (cases "t = []") auto
qed

lemma bpe_fragments_lossless:
  assumes "vocab_ok v" and "byte_complete v" and "\<And>re p. matches_ok p 0 (find_iter re p)"
    and "\<forall>i. FToken i \<in> set fs \<longrightarrow> i \<in> set (gv_pre_split_ids v)" and "\<forall>u. FText u \<in> set fs \<longrightarrow> length u < 2 ^ 31"
  shows "\<exists>ids. bpe_fragments find_iter v fs = Some ids \<and> detokenize_bytes v ids False = concat (map (fragment_bytes v) fs)"
  using assms(4,5)
proof (induction fs)
  case (Cons f fs)
  then obtain ids where ids: "bpe_fragments find_iter v fs = Some ids"
    "detokenize_bytes v ids False = concat (map (fragment_bytes v) fs)" by auto
  show ?case
  proof (cases f)
    case (FText u)
    then show ?thesis using ids bpe_lossless[OF assms(2), of u find_iter] assms(3) Cons.prems(2) by fastforce
  next
    case (FToken i)
    then have "token_bytes v i = Some (gv_tokens v ! unat i)" using special_bytes[OF assms(1)] Cons.prems(1) by simp
    then show ?thesis using ids FToken by (simp add: detokenize_bytes_def)
  qed
qed simp

section \<open>The properties\<close>

text \<open>The byte-level alphabet of GPT-2 is lossless: decoding the encoding of any byte string gives it back.\<close>

theorem byte_level_roundtrip: "decode_bytes (encode_bytes bs) = bs"
  by (rule decode_encode_bytes)

text \<open>C16: The BPE merge loop, with its linked symbols and its queue of possibly stale candidates, returns without a
  panic and emits exactly what merging the adjacent pair of least rank, left-most first, until none is left produces.\<close>

theorem bpe_merges_greedily:
  assumes "text_ok word" and "length (chars word) < 2 ^ 31" and "\<not> (gv_ignore_merges v \<and> token_to_id v word \<noteq> None)"
  shows "bpe_tokenize_word v word = Some (concat (map (bpe_emit_piece v) (greedy (merge_rank v) (chars word))))"
  using bpe_tokenize_word_greedy[OF assms] .

definition small_bpe :: "unit gguf_vocab" where
  "small_bpe = bare_vocab Bpe [[0x61], [0x62], [0x61, 0x62]] [Normal, Normal, Normal]\<lparr>gv_bpe_ranks := [([0x61, 0x20, 0x62], 0)]\<rparr>"

theorem bpe_merges_greedily_witness:
  "bpe_tokenize_word small_bpe [0x61, 0x62, 0x62] =
     Some (concat (map (bpe_emit_piece small_bpe) (greedy (merge_rank small_bpe) (chars [0x61, 0x62, 0x62])))) \<and>
   chars [0x61, 0x62, 0x62] = [[0x61], [0x62], [0x62]]"
  using bpe_merges_greedily[of "[0x61, 0x62, 0x62]" small_bpe]
  by (simp add: char_width_def text_ok_def char_ok_def utf8_cont_def small_bpe_def)

text \<open>C17: The SentencePiece loop returns and emits the pieces of merging the adjacent pair whose token has the highest
  score; a piece that is no token goes out as byte tokens, or as the unknown token where
  these are missing, so the branch of \<open>resegment\<close> that splits it again is never taken.\<close>

theorem spm_merges_greedily:
  assumes "text_ok t" and "length (chars t) < 2 ^ 31"
  shows "spm_tokenize v t = Some (concat (map (spm_emit_piece v) (greedy (spm_priority v) (chars t))))"
  using spm_tokenize_greedy[OF assms, of v] by (simp only: spm_ranked)

theorem spm_merges_greedily_witness:
  "spm_tokenize spm_vocab [0x61, 0x62] =
     Some (concat (map (spm_emit_piece spm_vocab) (greedy (spm_priority spm_vocab) (chars [0x61, 0x62])))) \<and>
   chars [0x61, 0x62] = [[0x61], [0x62]]"
  using spm_merges_greedily[of "[0x61, 0x62]" spm_vocab]
  by (simp add: char_width_def text_ok_def char_ok_def utf8_cont_def)

text \<open>C18: Tokenizing with a byte-complete BPE vocabulary loses nothing: detokenizing gives back every byte of the text,
  special tokens included, whatever the pre-tokenizer splits.\<close>

theorem bpe_text_roundtrip:
  assumes "vocab_ok v" and "gv_vocab_type v = Bpe" and "byte_complete v"
    and "\<forall>re p. matches_ok p 0 (find_iter re p)" and "length t < 2 ^ 31"
  shows "\<exists>ids. tokenize find_iter lower v t False parse_special = Some ids \<and> detokenize_bytes v ids False = t"
proof -
  obtain fs where fs: "partition_specials v t parse_special = Some fs" "concat (map (fragment_bytes v) fs) = t"
    "\<forall>i. FToken i \<in> set fs \<longrightarrow> i \<in> set (gv_pre_split_ids v) \<and> recognised v parse_special i"
    "\<forall>u. FText u \<in> set fs \<longrightarrow> u \<noteq> [] \<and> sublist u t \<and>
      (\<forall>i \<in> set (gv_pre_split_ids v). recognised v parse_special i \<longrightarrow> \<not> sublist (gv_tokens v ! unat i) u)"
    by (rule partition_specials_ok[OF assms(1)])
  have "\<forall>u. FText u \<in> set fs \<longrightarrow> length u < 2 ^ 31" using fs(4) sublist_length_le assms(5) by (meson le_less_trans)
  then show ?thesis
    using bpe_fragments_lossless[OF assms(1,3), of find_iter fs] fs(1-3) assms(2,4)
    by (auto simp: tokenize_def tokenize_bpe_def opt_ids_def)
qed


theorem bpe_text_roundtrip_witness:
  "\<exists>ids. tokenize (\<lambda>re p. []) (\<lambda>c. [c]) byte_vocab [0x68, 0x20, 0xC3, 0xA9] False True = Some ids \<and>
     detokenize_bytes byte_vocab ids False = [0x68, 0x20, 0xC3, 0xA9]"
  by (rule bpe_text_roundtrip[OF byte_vocab_ok _ byte_vocab_complete]) (simp_all add: byte_vocab_def)

lemma escape_chars:
  assumes "text_ok t"
  shows "text_ok (escape_whitespace t)" and "length (chars (escape_whitespace t)) = length (chars t)"
proof -
  have ok: "list_all char_ok (map (\<lambda>c. if c = [0x20] then spm_space else c) (chars t))"
    using assms by (auto simp: text_ok_def list_all_iff char_spm_space)
  show "text_ok (escape_whitespace t)" unfolding escape_whitespace_def by (rule text_ok_concat[OF ok])
  show "length (chars (escape_whitespace t)) = length (chars t)"
    unfolding escape_whitespace_def by (simp add: chars_concat_only[OF ok])
qed

lemma char_space: "char_ok [0x20]"
  by (simp add: char_ok_def char_width_def utf8_cont_def)

text \<open>C36: Text that spells no special token and no space marker comes back from a complete SentencePiece vocabulary
  unchanged, behind the space the model asks for.\<close>

theorem spm_text_roundtrip:
  assumes "vocab_ok v" and "gv_vocab_type v = Spm" and "spm_complete v" and "text_ok t" and "t \<noteq> []"
    and "length t < 2 ^ 31 - 1" and "spm_space \<notin> set (chars t)"
    and "\<forall>i \<in> set (gv_pre_split_ids v). recognised v parse_special i \<longrightarrow> \<not> sublist (gv_tokens v ! unat i) t"
    and "spells v (escape_whitespace ((if gv_add_space_prefix v then [0x20] else []) @ t))"
  shows "\<exists>ids. tokenize find_iter lower v t False parse_special = Some ids \<and>
    detokenize_bytes v ids False = (if gv_add_space_prefix v then [0x20] else []) @ t"
proof -
  let ?t = "(if gv_add_space_prefix v then [0x20] else []) @ t"
  have chars: "chars ?t = (if gv_add_space_prefix v then [[0x20]] else []) @ chars t"
    using chars_char[OF char_space, of t] by simp
  have ok: "text_ok ?t" using assms(4) char_space unfolding text_ok_def chars by simp
  have "length (chars ?t) < 2 ^ 31" using chars_le[of t] assms(6) unfolding chars by simp
  then obtain ids where ids: "spm_tokenize v (escape_whitespace ?t) = Some ids"
    "detokenize_bytes v ids False = unescape_whitespace (escape_whitespace ?t)"
    using spm_lossless[OF assms(3,9) escape_chars(1)[OF ok]] escape_chars(2)[OF ok] by auto
  have "spm_space \<notin> set (chars ?t)" using assms(7) unfolding chars by (simp add: spm_space_def encode_utf8_def)
  then have "detokenize_bytes v ids False = ?t" using ids(2) unescape_escape[OF ok] by simp
  moreover have "partition_specials v t parse_special = Some [FText t]"
    using partition_plain[of v "gv_pre_split_ids v" t parse_special] assms(1,5,8)
    by (simp add: partition_specials_def vocab_ok_def Let_def)
  ultimately show ?thesis
    using ids(1) assms(2) by (simp add: tokenize_def tokenize_spm_def opt_ids_def)
qed

theorem spm_text_roundtrip_witness:
  "\<exists>ids. tokenize (\<lambda>re p. []) (\<lambda>c. [c]) spm_vocab [0x68, 0x20, 0x69] False True = Some ids \<and>
     detokenize_bytes spm_vocab ids False = [0x20, 0x68, 0x20, 0x69]"
proof -
  have add: "gv_add_space_prefix spm_vocab" by (simp add: spm_vocab_def)
  have no_special: "gv_pre_split_ids spm_vocab = []"
    by (auto simp: spm_vocab_def pre_split_order_def tt_is_pre_split_def nth_Cons' filter_empty_conv simp del: upt_rec_numeral)
  have "chars [0x68, 0x20, 0x69] = [[0x68], [0x20], [0x69]]" "chars [0x20, 0x68, 0x20, 0x69] = [[0x20], [0x68], [0x20], [0x69]]"
    by (simp_all add: char_width_def)
  moreover have "0x3C \<notin> set (escape_whitespace [0x20, 0x68, 0x20, 0x69])"
    using byte_token_lt(2) by (simp add: escape_whitespace_def char_width_def)
  ultimately show ?thesis
    using spm_text_roundtrip[OF spm_vocab_ok _ spm_vocab_complete, of "[0x68, 0x20, 0x69]" True "\<lambda>re p. []" "\<lambda>c. [c]"]
      spm_vocab_spells[of "escape_whitespace [0x20, 0x68, 0x20, 0x69]"] add no_special
    by (simp add: spm_vocab_def[THEN arg_cong[where f = gv_vocab_type]] text_ok_def char_ok_def char_width_def utf8_cont_def spm_space_def encode_utf8_def)
qed

text \<open>C19: The split around special tokens always returns; it keeps every byte, makes fragments only of the special tokens
  the call recognises (user-defined ones alone without \<open>parse_special\<close>), and leaves none of them in the text between.\<close>

theorem partition_keeps_and_finds:
  assumes "vocab_ok v"
  shows "\<exists>fs. partition_specials v t parse_special = Some fs \<and> concat (map (fragment_bytes v) fs) = t \<and>
    (\<forall>i. FToken i \<in> set fs \<longrightarrow> i \<in> set (gv_pre_split_ids v) \<and> recognised v parse_special i) \<and>
    (\<forall>u. FText u \<in> set fs \<longrightarrow> u \<noteq> [] \<and> sublist u t \<and>
      (\<forall>i \<in> set (gv_pre_split_ids v). recognised v parse_special i \<longrightarrow> \<not> sublist (gv_tokens v ! unat i) u))"
  by (rule partition_specials_ok[OF assms]) blast

definition chat_vocab :: "unit gguf_vocab" where
  "chat_vocab = bare_vocab Bpe [[0x61], [0x3C, 0x73, 0x3E]] [Normal, Control]"

theorem partition_keeps_and_finds_witness:
  "\<exists>fs. partition_specials chat_vocab [0x61, 0x3C, 0x73, 0x3E, 0x61] True = Some fs \<and>
     concat (map (fragment_bytes chat_vocab) fs) = [0x61, 0x3C, 0x73, 0x3E, 0x61]"
  using partition_keeps_and_finds[of chat_vocab "[0x61, 0x3C, 0x73, 0x3E, 0x61]" True]
    bare_vocab_ok[of "[[0x61], [0x3C, 0x73, 0x3E]]" "[Normal, Control]" Bpe]
  unfolding chat_vocab_def by fastforce

text \<open>A WordPiece word is either the unknown token or covered from end to end by tokens, each of them the longest
  entry at its place, and the tokens spell the word behind its marker.\<close>

theorem wordpiece_longest_match:
  assumes "vocab_ok v" and "wpm_scan v (spm_space @ word) 0 [] \<noteq> []"
  shows "longest_cover v (spm_space @ word) 0 (wpm_word v word) \<and>
    concat (map (\<lambda>tid. the (id_to_token v tid)) (wpm_word v word)) = spm_space @ word"
proof -
  have id: "id_to_token v tid = Some t" if "token_to_id v t = Some tid" for t tid
    using assms(1) that by (auto simp: vocab_ok_def ids_ok_def Let_def token_to_id_def id_to_token_def nth_opt_def)
  have "wpm_word v word = wpm_scan v (spm_space @ word) 0 []" using assms(2) by (simp add: wpm_word_def Let_def)
  then show ?thesis
    using wpm_scan_cover[OF _ assms(2)] longest_cover_spells[of v "spm_space @ word" 0 "wpm_word v word"] id by auto
qed

definition small_wpm :: "unit gguf_vocab" where
  "small_wpm = bare_vocab Wpm [[0x61], spm_space @ [0x61]] [Normal, Normal]"

theorem wordpiece_longest_match_witness:
  "wpm_word small_wpm [0x61, 0x61] = [1, 0] \<and> longest_cover small_wpm (spm_space @ [0x61, 0x61]) 0 (wpm_word small_wpm [0x61, 0x61])"
proof -
  have space: "spm_space = [0xE2, 0x96, 0x81]" by (simp add: spm_space_def encode_utf8_def)
  have ids: "token_to_id small_wpm t = (if t = [0x61] then Some 0 else if t = [0xE2, 0x96, 0x81, 0x61] then Some 1 else None)" for t
    by (simp add: small_wpm_def token_to_id_def space)
  have "gv_max_token_len small_wpm = 4" by (simp add: small_wpm_def bare_vocab_def Let_def space)
  moreover have "str_get [0xE2, 0x96, 0x81, 0x61, 0x61] 0 4 = Some [0xE2, 0x96, 0x81, 0x61]"
    "str_get [0xE2, 0x96, 0x81, 0x61, 0x61] 4 5 = Some [0x61]"
    by (simp_all add: str_get_def is_char_boundary_def utf8_cont_def)
  then have "wpm_longest small_wpm [0xE2, 0x96, 0x81, 0x61, 0x61] 0 4 = Some (1, 4)"
    "wpm_longest small_wpm [0xE2, 0x96, 0x81, 0x61, 0x61] 4 5 = Some (0, 5)"
    using wpm_longest.simps(2)[of small_wpm "[0xE2, 0x96, 0x81, 0x61, 0x61]" 0 3]
      wpm_longest.simps(2)[of small_wpm "[0xE2, 0x96, 0x81, 0x61, 0x61]" 4 4]
    by (simp_all add: ids)
  ultimately have "wpm_scan small_wpm [0xE2, 0x96, 0x81, 0x61, 0x61] 0 [] = [1, 0]"
    by (simp add: wpm_scan.simps eval_nat_numeral del: wpm_longest.simps)
  then have "wpm_scan small_wpm (spm_space @ [0x61, 0x61]) 0 [] = [1, 0]" by (simp add: space)
  moreover from this have "wpm_word small_wpm [0x61, 0x61] = [1, 0]" by (simp add: wpm_word_def Let_def)
  moreover have "vocab_ok small_wpm"
    unfolding small_wpm_def by (rule bare_vocab_ok) (simp_all add: spm_space_def encode_utf8_def)
  ultimately show ?thesis using wordpiece_longest_match[of small_wpm "[0x61, 0x61]"] by simp
qed

text \<open>C20: A vocabulary that loads is consistent: its tables have one entry per token, the index maps a text to the first
  token that has it, every id it holds is in range, the special tokens are ordered longest first, and a BOS or EOS that
  is to be added exists.\<close>

theorem loaded_vocab_consistent:
  assumes "from_metadata compile m = Inr v"
  shows "vocab_ok v"
  by (rule from_metadata_ok[OF assms])

definition small_store :: metadata_store where
  "small_store = \<lparr>md_entries = [(''tokenizer.ggml.tokens'', VArray [VString ''a'', VString ''</s>'']),
     (''tokenizer.ggml.token_type'', VArray [VInt32 1, VInt32 3])]\<rparr>"

definition small_loaded :: "unit gguf_vocab" where
  "small_loaded = finish_vocab small_store [str_bytes ''a'', str_bytes ''</s>''] Spm [0, 0] [Normal, Control]
     [(str_bytes ''</s>'', 1), (str_bytes ''a'', 0)] PreDefault None"

lemma small_store_loads: "from_metadata (\<lambda>_. None) small_store = Inr small_loaded"
proof -
  have ids: "index_tokens [str_bytes ''a'', str_bytes ''</s>''] 0 [] = Inr [(str_bytes ''</s>'', 1), (str_bytes ''a'', 0)]"
    by (simp add: index_tokens.simps or_insert_def str_bytes_def)
  have types: "token_types [1, 3] 2 = [Normal, Control]"
    by (simp add: token_types_def upt_rec nth_opt_def token_type_from_code_def)
  have "read_string_array small_store ''tokenizer.ggml.tokens'' = Some [str_bytes ''a'', str_bytes ''</s>'']"
    "read_i32_array small_store ''tokenizer.ggml.token_type'' = Some [1, 3]"
    "read_f32_array small_store ''tokenizer.ggml.scores'' = None"
    "Option.bind (md_get small_store ''tokenizer.ggml.model'') as_str = None"
    by (simp_all add: small_store_def read_string_array_def read_i32_array_def read_f32_array_def md_array_def md_get_def
        unwrap_or_def or_else_def)
  then show ?thesis
    using ids types
    by (simp add: from_metadata_def unwrap_or_def from_model_name_def resolve_pre_type_def normalize_len_def
        small_loaded_def numeral_2_eq_2)
qed

theorem loaded_vocab_consistent_witness:
  "from_metadata (\<lambda>_. None) small_store = Inr small_loaded \<and> vocab_ok small_loaded"
  using loaded_vocab_consistent[OF small_store_loads] small_store_loads by simp

lemma find_control_id_Some:
  "find_control_id ids types [name] = Some tid \<Longrightarrow>
     map_of ids name = Some tid \<and> types ! unat tid \<in> {Control, UserDefined}"
  by (auto simp: control_id_def nth_opt_def bind_eq_Some_conv split: option.splits if_splits)

text \<open>Only a control or user-defined token ends the generation by its name; an ordinary token that spells an end
  marker does so only when the metadata declares its id.\<close>

theorem eog_by_name_is_control:
  assumes "from_metadata compile m = Inr v" and "tid \<in> gv_eog_ids v"
  shows "gv_types v ! unat tid \<in> {Control, UserDefined} \<and> gv_tokens v ! unat tid \<in> set eog_token_names \<or>
    gv_eos_id v = Some tid \<or> gv_eot_id v = Some tid \<or> gv_eom_id v = Some tid"
proof -
  obtain tokens vt ids pre pre_tok codes fs where ids: "index_tokens tokens 0 [] = Inr ids"
    and v: "v = finish_vocab m tokens vt (normalize_len fs (length tokens) 0) (token_types codes (length tokens)) ids pre pre_tok"
    by (rule from_metadata_parts[OF assms(1)])
  note tables = finish_vocab_tables[OF v]
  have "gv_types v ! unat tid \<in> {Control, UserDefined} \<and> gv_tokens v ! unat tid = name"
    if "find_control_id ids (token_types codes (length tokens)) [name] = Some tid" for name
    using find_control_id_Some[OF that] index_tokens_ok(1)[OF ids] by (auto simp: tables ids_ok_def)
  then show ?thesis using finish_vocab_eog[OF v assms(2)] by blast
qed


lemma small_loaded_eog: "1 \<in> gv_eog_ids small_loaded"
proof -
  have "gv_eos_id small_loaded = Some 1"
    by (simp add: small_loaded_def finish_vocab_def Let_def small_store_def lookup_token_id_def md_get_def or_else_def
        find_id_def str_bytes_def)
  then show ?thesis using finish_vocab_tables(11)[OF small_loaded_def] by simp
qed

theorem eog_by_name_is_control_witness:
  "1 \<in> gv_eog_ids small_loaded \<and>
   (gv_types small_loaded ! 1 \<in> {Control, UserDefined} \<and> gv_tokens small_loaded ! 1 \<in> set eog_token_names \<or>
    gv_eos_id small_loaded = Some 1 \<or> gv_eot_id small_loaded = Some 1 \<or> gv_eom_id small_loaded = Some 1)"
  using eog_by_name_is_control[OF small_store_loads small_loaded_eog] small_loaded_eog by simp

end
