(* ===== verification/Smp_Float.thy ===== *)
theory Smp_Float
  imports Grammar_Machine
begin

text \<open>
  What the samplers use of \<open>f32\<close>, and \<open>oxillama-runtime/src/sampling/rng.rs\<close>. A number is its bit
  pattern: comparisons, negation and the tests are written on it. Arithmetic, the elementary
  functions, the conversions and the two unstable sorts of the standard library, whose results are
  not determined by their documentation, are the record of parameters \<open>f32_ops\<close>.
\<close>

section \<open>Numbers\<close>

type_synonym f32 = u32

datatype ordering = Less | Equal | Greater

record f32_ops =
  f_add :: "f32 \<Rightarrow> f32 \<Rightarrow> f32"
  f_sub :: "f32 \<Rightarrow> f32 \<Rightarrow> f32"
  f_mul :: "f32 \<Rightarrow> f32 \<Rightarrow> f32"
  f_div :: "f32 \<Rightarrow> f32 \<Rightarrow> f32"
  f_powf :: "f32 \<Rightarrow> f32 \<Rightarrow> f32"
  f_exp :: "f32 \<Rightarrow> f32"
  f_ln :: "f32 \<Rightarrow> f32"
  f_log2 :: "f32 \<Rightarrow> f32"
  f_round :: "f32 \<Rightarrow> f32"
  f_of_nat :: "nat \<Rightarrow> f32"
  f_to_nat :: "f32 \<Rightarrow> nat"
  f_sort :: "(nat \<Rightarrow> nat \<Rightarrow> ordering) \<Rightarrow> nat list \<Rightarrow> nat list"
  f_select :: "nat \<Rightarrow> (nat \<Rightarrow> nat \<Rightarrow> ordering) \<Rightarrow> nat list \<Rightarrow> nat list"

abbreviation f_zero :: f32 where "f_zero \<equiv> 0"
abbreviation f_half :: f32 where "f_half \<equiv> 0x3F000000"
abbreviation f_one :: f32 where "f_one \<equiv> 0x3F800000"
abbreviation f_two :: f32 where "f_two \<equiv> 0x40000000"
abbreviation F_INFINITY :: f32 where "F_INFINITY \<equiv> 0x7F800000"
abbreviation F_MIN_POSITIVE :: f32 where "F_MIN_POSITIVE \<equiv> 0x00800000"

definition f_is_nan :: "f32 \<Rightarrow> bool" where
  "f_is_nan w \<longleftrightarrow> 0x7F800000 < w AND 0x7FFFFFFF"

definition f_lt :: "f32 \<Rightarrow> f32 \<Rightarrow> bool" where
  "f_lt a b \<longleftrightarrow> \<not> f_is_nan a \<and> \<not> f_is_nan b \<and> f32_key a < f32_key b"

definition f_le :: "f32 \<Rightarrow> f32 \<Rightarrow> bool" where
  "f_le a b \<longleftrightarrow> \<not> f_is_nan a \<and> \<not> f_is_nan b \<and> f32_key a \<le> f32_key b"

definition f_eq :: "f32 \<Rightarrow> f32 \<Rightarrow> bool" where
  "f_eq a b \<longleftrightarrow> \<not> f_is_nan a \<and> \<not> f_is_nan b \<and> f32_key a = f32_key b"

definition f_neg :: "f32 \<Rightarrow> f32" where
  "f_neg w = w XOR 0x80000000"

definition f_abs :: "f32 \<Rightarrow> f32" where
  "f_abs w = w AND 0x7FFFFFFF"

definition f_max :: "f32 \<Rightarrow> f32 \<Rightarrow> f32" where
  "f_max a b = (if f_is_nan a then b else if f_is_nan b then a else if f32_key a < f32_key b then b else a)"

text \<open>\<open>a.partial_cmp(&b).unwrap_or(Equal)\<close>.\<close>

definition cmp_or_equal :: "f32 \<Rightarrow> f32 \<Rightarrow> ordering" where
  "cmp_or_equal a b = (if f_lt a b then Less else if f_lt b a then Greater else Equal)"

definition f_sum :: "f32_ops \<Rightarrow> f32 list \<Rightarrow> f32" where
  "f_sum fo xs = foldl (f_add fo) f_zero xs"

section \<open>The generator\<close>

record xorshift64 =
  xs_state :: u64

definition xorshift_new :: "u64 \<Rightarrow> xorshift64" where
  "xorshift_new seed = \<lparr>xs_state = (if seed = 0 then 0x517CC1B727220A95 else seed)\<rparr>"

definition next_u64 :: "xorshift64 \<Rightarrow> u64 \<times> xorshift64" where
  "next_u64 rng =
     (let x = xs_state rng;
          x = x XOR push_bit 13 x;
          x = x XOR drop_bit 7 x;
          x = x XOR push_bit 17 x
      in (x, rng\<lparr>xs_state := x\<rparr>))"

definition next_f32 :: "f32_ops \<Rightarrow> xorshift64 \<Rightarrow> f32 \<times> xorshift64" where
  "next_f32 fo rng =
     (let (x, rng) = next_u64 rng in (f_div fo (f_of_nat fo (unat (drop_bit 40 x))) (f_of_nat fo (2 ^ 24)), rng))"

definition next_open01_f32 :: "f32_ops \<Rightarrow> xorshift64 \<Rightarrow> f32 \<times> xorshift64" where
  "next_open01_f32 fo rng =
     (let (x, rng) = next_u64 rng
      in (f_div fo (f_add fo (f_of_nat fo (unat (drop_bit 40 x))) f_half) (f_of_nat fo (2 ^ 24)), rng))"

definition state_value :: "xorshift64 \<Rightarrow> u64" where
  "state_value rng = xs_state rng"

definition from_state_value :: "u64 \<Rightarrow> xorshift64" where
  "from_state_value st = \<lparr>xs_state = (if st = 0 then 1 else st)\<rparr>"

text \<open>The clock and the count of the seeds drawn before are arguments.\<close>

definition generate_seed :: "u64 \<Rightarrow> u64 \<Rightarrow> u64" where
  "generate_seed nanos counter =
     (let z = nanos XOR (counter * 0x9E3779B97F4A7C15);
          z = (z XOR drop_bit 30 z) * 0xBF58476D1CE4E5B9;
          z = (z XOR drop_bit 27 z) * 0x94D049BB133111EB
      in z XOR drop_bit 31 z)"

section \<open>The greatest number of a list\<close>

definition argmax_step :: "nat \<times> f32 \<Rightarrow> (u32 \<times> f32) option \<Rightarrow> (u32 \<times> f32) option" where
  "argmax_step = (\<lambda>(i, v) best.
     if f_is_nan v \<or> f_eq v NEG_INFINITY then best
     else case best of
       None \<Rightarrow> Some (of_nat i, v)
     | Some (_, best_val) \<Rightarrow> if f_lt best_val v then Some (of_nat i, v) else best)"

definition argmax :: "f32 list \<Rightarrow> u32 option" where
  "argmax values = map_option fst (fold argmax_step (enumerate 0 values) None)"

section \<open>The state of the generator is never zero\<close>

lemma fixed_push_bit:
  fixes d :: "'a::len word"
  assumes "d = push_bit n d" and "0 < n"
  shows "d = 0"
proof -
  have "\<not> bit d i" for i
  proof (induction i rule: less_induct)
    case (less i)
    have "bit d i = bit (push_bit n d) i" using assms(1) by simp
    also have "\<dots> \<longleftrightarrow> n \<le> i \<and> i < LENGTH('a) \<and> bit d (i - n)" by (auto simp: bit_push_bit_iff)
    finally show ?case using less[of "i - n"] assms(2) by auto
  qed
  then show ?thesis by (simp add: bit_eq_iff)
qed

lemma fixed_drop_bit:
  fixes d :: "'a::len word"
  assumes "d = drop_bit n d" and "0 < n"
  shows "d = 0"
proof -
  have "\<not> bit d i" for i
  proof (induction "LENGTH('a) - i" arbitrary: i rule: less_induct)
    case less
    show ?case
    proof (cases "i < LENGTH('a)")
      case True
      have "bit d i = bit (drop_bit n d) i" using assms(1) by simp
      also have "\<dots> \<longleftrightarrow> bit d (n + i)" by (simp add: bit_drop_bit_eq)
      finally show ?thesis using less[of "n + i"] True assms(2) by simp
    next
      case False
      then show ?thesis using bit_imp_le_length[of d i] by auto
    qed
  qed
  then show ?thesis by (simp add: bit_eq_iff)
qed

lemma xor_zero_eq:
  fixes x :: "'a::len word"
  assumes "x XOR y = 0"
  shows "x = y"
proof -
  have "x = (x XOR y) XOR y" by (simp add: xor.assoc)
  then show ?thesis using assms by simp
qed

lemma xor_push_zero:
  fixes x :: "'a::len word"
  shows "0 < n \<Longrightarrow> x XOR push_bit n x = 0 \<Longrightarrow> x = 0"
  using fixed_push_bit xor_zero_eq by blast

lemma xor_drop_zero:
  fixes x :: "'a::len word"
  shows "0 < n \<Longrightarrow> x XOR drop_bit n x = 0 \<Longrightarrow> x = 0"
  using fixed_drop_bit xor_zero_eq by blast

lemma next_u64_nonzero:
  assumes "xs_state rng \<noteq> 0"
  shows "xs_state (snd (next_u64 rng)) \<noteq> 0"
proof -
  define a where "a = xs_state rng XOR push_bit 13 (xs_state rng)"
  define b where "b = a XOR drop_bit 7 a"
  have "a \<noteq> 0" using xor_push_zero[of 13 "xs_state rng"] assms unfolding a_def by auto
  then have "b \<noteq> 0" using xor_drop_zero[of 7 a] unfolding b_def by auto
  then have "b XOR push_bit 17 b \<noteq> 0" using xor_push_zero[of 17 b] by auto
  moreover have "xs_state (snd (next_u64 rng)) = b XOR push_bit 17 b"
    unfolding next_u64_def Let_def a_def b_def by simp
  ultimately show ?thesis by simp
qed

end
