(* ===== verification/Smp_Stages.thy ===== *)
theory Smp_Stages
  imports Smp_Float
begin

text \<open>
  \<open>oxillama-runtime/src/sampling/chain.rs\<close> and \<open>advanced.rs\<close>: the stages that rewrite the logits, one
  after the other, and the final draw. The implementors of the trait \<open>SamplerStage\<close> are the
  constructors of one datatype; a \<open>HashMap\<close> is the list of its entries.
\<close>

section \<open>Distributions\<close>

definition logit_max :: "f32 list \<Rightarrow> f32" where
  "logit_max logits = foldl f_max NEG_INFINITY logits"

definition exps_of :: "f32_ops \<Rightarrow> f32 list \<Rightarrow> f32 list" where
  "exps_of fo logits = (let max_val = logit_max logits in map (\<lambda>v. f_exp fo (f_sub fo v max_val)) logits)"

definition softmax :: "f32_ops \<Rightarrow> f32 list \<Rightarrow> f32 list" where
  "softmax fo logits =
     (if logits = [] then []
      else let probs = exps_of fo logits; mass = f_sum fo probs
           in if f_lt f_zero mass then map (\<lambda>p. f_div fo p mass) probs else probs)"

definition entropy :: "f32_ops \<Rightarrow> f32 list \<Rightarrow> f32" where
  "entropy fo probs = f_sum fo (map (\<lambda>p. f_mul fo (f_neg p) (f_ln fo p)) (filter (f_lt f_zero) probs))"

text \<open>How many entries are taken until their running sum reaches \<open>p\<close>; all of them when it never does.\<close>

fun count_until :: "f32_ops \<Rightarrow> f32 \<Rightarrow> f32 \<Rightarrow> f32 list \<Rightarrow> nat" where
  "count_until fo p cumulative [] = 0"
| "count_until fo p cumulative (x # xs) =
     (let cumulative = f_add fo cumulative x
      in if f_le p cumulative then 1 else Suc (count_until fo p cumulative xs))"

definition sort_descending :: "f32_ops \<Rightarrow> f32 list \<Rightarrow> nat list" where
  "sort_descending fo probs = f_sort fo (\<lambda>a b. cmp_or_equal (probs ! b) (probs ! a)) [0..<length probs]"

definition mask_all :: "nat list \<Rightarrow> f32 list \<Rightarrow> f32 list" where
  "mask_all idxs logits = foldl (\<lambda>ls i. ls[i := NEG_INFINITY]) logits idxs"

definition mask_unless :: "(nat \<Rightarrow> bool) \<Rightarrow> f32 list \<Rightarrow> f32 list" where
  "mask_unless keep logits = map (\<lambda>(i, v). if keep i then v else NEG_INFINITY) (enumerate 0 logits)"

definition ensure_at_least_one_finite :: "f32 list \<Rightarrow> f32 list" where
  "ensure_at_least_one_finite logits =
     (if list_ex f32_is_finite logits then logits
      else if logits \<noteq> [] then logits[0 := f_zero] else logits)"

section \<open>Stages\<close>

datatype sampler_stage =
    LogitBias "(u32 \<times> f32) list" "u32 list"
  | RepetitionPenalty f32 nat f32 f32
  | DryStage f32 f32 nat "u32 list"
  | TopK nat
  | TypicalPStage f32
  | TopP f32
  | MinP f32
  | TopAStage f32
  | EtaStage f32 f32
  | XtcStage f32 f32
  | TemperatureScale f32
  | GreedySelect

text \<open>One entry of the loops that change the logit of a token, when it has one.\<close>

definition on_logit :: "u32 \<Rightarrow> (f32 \<Rightarrow> f32) \<Rightarrow> f32 list \<Rightarrow> f32 list" where
  "on_logit token f logits =
     (let idx = unat token in if idx < length logits then logits[idx := f (logits ! idx)] else logits)"

definition logit_bias_apply :: "f32_ops \<Rightarrow> (u32 \<times> f32) list \<Rightarrow> u32 list \<Rightarrow> f32 list \<Rightarrow> f32 list" where
  "logit_bias_apply fo biases banned logits =
     fold (\<lambda>(token, bias). on_logit token (\<lambda>v. if f32_is_finite v then f_add fo v bias else v)) biases
       (fold (\<lambda>token. on_logit token (\<lambda>v. NEG_INFINITY)) banned logits)"

definition repetition_apply ::
  "f32_ops \<Rightarrow> f32 \<Rightarrow> nat \<Rightarrow> f32 \<Rightarrow> f32 \<Rightarrow> f32 list \<Rightarrow> u32 list \<Rightarrow> f32 list" where
  "repetition_apply fo penalty w freq pres logits recent =
     (if recent = [] then logits
      else if f_eq penalty f_one \<and> f_eq freq f_zero \<and> f_eq pres f_zero then logits
      else let win = drop (length recent - w) recent;
               logits = (if f_eq penalty f_one then logits
                         else fold (\<lambda>token. on_logit token
                                (\<lambda>v. if f_lt f_zero v then f_div fo v penalty else f_mul fo v penalty)) win logits)
           in if f_eq freq f_zero \<and> f_eq pres f_zero then logits
              else fold (\<lambda>token. on_logit token
                     (\<lambda>v. f_sub fo v (f_add fo (f_mul fo (f_of_nat fo (count_list win token)) freq) pres)))
                   (remdups win) logits)"

function dry_match :: "u32 list \<Rightarrow> u32 set \<Rightarrow> nat \<Rightarrow> nat \<Rightarrow> nat \<Rightarrow> nat" where
  "dry_match recent breakers pos k match_len =
     (if min pos (length recent - 1) < k then match_len
      else if recent ! (pos - k) \<in> breakers \<or> recent ! (length recent - k) \<in> breakers then match_len
      else if recent ! (pos - k) = recent ! (length recent - k)
      then dry_match recent breakers pos (k + 1) (match_len + 1)
      else match_len)"
  by pat_completeness auto
termination by (relation "measure (\<lambda>(recent, breakers, pos, k, m). pos + 1 - k)") auto

definition dry_best :: "u32 list \<Rightarrow> u32 set \<Rightarrow> (u32 \<times> nat) list" where
  "dry_best recent breakers =
     fold (\<lambda>pos best. let t = recent ! pos in
        if t \<in> breakers then best
        else let match_len = dry_match recent breakers pos 1 1;
                 entry = (case map_of best t of None \<Rightarrow> 0 | Some n \<Rightarrow> n)
             in AList.update t (if entry < match_len then match_len else entry) best)
       [0..<length recent] []"

definition dry_apply :: "f32_ops \<Rightarrow> f32 \<Rightarrow> f32 \<Rightarrow> nat \<Rightarrow> u32 list \<Rightarrow> f32 list \<Rightarrow> u32 list \<Rightarrow> f32 list" where
  "dry_apply fo multiplier base allowed breakers logits recent =
     (if f_eq multiplier f_zero \<or> logits = [] \<or> recent = [] then logits
      else fold (\<lambda>(t, match_len).
             if match_len < allowed then (\<lambda>logits. logits)
             else on_logit t (\<lambda>v. if f32_is_finite v
                    then f_sub fo v (f_mul fo multiplier (f_powf fo base (f_of_nat fo (match_len - allowed)))) else v))
           (dry_best recent (set breakers)) logits)"

definition top_k_apply :: "f32_ops \<Rightarrow> nat \<Rightarrow> f32 list \<Rightarrow> f32 list" where
  "top_k_apply fo k logits =
     (if k = 0 \<or> length logits \<le> k then logits
      else let idx = f_select fo (k - 1) (\<lambda>a b. cmp_or_equal (logits ! b) (logits ! a)) [0..<length logits]
           in mask_unless (\<lambda>i. i \<in> set (take k idx)) logits)"

definition top_p_apply :: "f32_ops \<Rightarrow> f32 \<Rightarrow> f32 list \<Rightarrow> f32 list" where
  "top_p_apply fo p logits =
     (if f_le f_one p then logits
      else let probs = exps_of fo logits; mass = f_sum fo probs
           in if f_le mass f_zero then logits
              else let indices = sort_descending fo probs;
                       cutoff = count_until fo p f_zero (map (\<lambda>i. f_div fo (probs ! i) mass) indices)
                   in mask_all (drop cutoff indices) logits)"

definition min_p_apply :: "f32_ops \<Rightarrow> f32 \<Rightarrow> f32 list \<Rightarrow> f32 list" where
  "min_p_apply fo p logits =
     (if f_le p f_zero then logits
      else let probs = exps_of fo logits; mass = f_sum fo probs
           in if f_le mass f_zero then logits
              else let max_prob = f_div fo (foldl f_max f_zero probs) mass; threshold = f_mul fo p max_prob
                   in mask_unless (\<lambda>i. \<not> f_lt (f_div fo (probs ! i) mass) threshold) logits)"

definition typical_p_apply :: "f32_ops \<Rightarrow> f32 \<Rightarrow> f32 list \<Rightarrow> f32 list" where
  "typical_p_apply fo p logits =
     (if f_le f_one p \<or> logits = [] then logits
      else let probs = softmax fo logits; h = entropy fo probs;
               deviations = map (\<lambda>p. if f_lt f_zero p then f_abs (f_add fo (f_ln fo p) h) else F_INFINITY) probs;
               indices = f_sort fo (\<lambda>a b. cmp_or_equal (deviations ! a) (deviations ! b)) [0..<length probs];
               cutoff = max (count_until fo p f_zero (map (\<lambda>i. probs ! i) indices)) 1;
               kept = set (take cutoff indices)
           in ensure_at_least_one_finite (mask_unless (\<lambda>i. i \<in> kept) logits))"

definition top_a_apply :: "f32_ops \<Rightarrow> f32 \<Rightarrow> f32 list \<Rightarrow> f32 list" where
  "top_a_apply fo a logits =
     (if f_eq a f_zero \<or> logits = [] then logits
      else let probs = softmax fo logits; max_prob = foldl f_max f_zero probs
           in if f_le max_prob f_zero then logits
              else let threshold = f_mul fo (f_mul fo a max_prob) max_prob
                   in ensure_at_least_one_finite (mask_unless (\<lambda>i. \<not> f_lt (probs ! i) threshold) logits))"

definition eta_apply :: "f32_ops \<Rightarrow> f32 \<Rightarrow> f32 \<Rightarrow> f32 list \<Rightarrow> f32 list" where
  "eta_apply fo eta epsilon logits =
     (if f_eq eta f_zero \<and> f_eq epsilon f_zero \<or> logits = [] then logits
      else let probs = softmax fo logits; s = f_exp fo (entropy fo probs);
               dynamic = (if f_lt f_zero s then f_div fo eta s else eta);
               cutoff = f_max epsilon dynamic
           in if f_le cutoff f_zero then logits
              else ensure_at_least_one_finite (mask_unless (\<lambda>i. \<not> f_lt (probs ! i) cutoff) logits))"

definition xtc_apply :: "f32_ops \<Rightarrow> f32 \<Rightarrow> f32 \<Rightarrow> f32 list \<Rightarrow> xorshift64 \<Rightarrow> f32 list \<times> xorshift64" where
  "xtc_apply fo threshold probability logits rng =
     (if f_le f_one threshold \<or> f_eq probability f_zero \<or> logits = [] then (logits, rng)
      else let probs = softmax fo logits; indices = sort_descending fo probs;
               top_end = count_until fo threshold f_zero (map (\<lambda>i. probs ! i) indices)
           in if top_end < 2 then (logits, rng)
              else let (rand_val, rng) = next_f32 fo rng
                   in if f_le probability rand_val then (logits, rng)
                      else let best_idx = indices ! 0; logits = mask_all (drop 1 (take top_end indices)) logits
                           in (if f32_is_finite (logits ! best_idx) then logits else logits[best_idx := f_one], rng))"

definition temperature_apply :: "f32_ops \<Rightarrow> f32 \<Rightarrow> f32 list \<Rightarrow> f32 list" where
  "temperature_apply fo temperature logits =
     (if f_le temperature f_zero \<or> f_eq temperature f_one then logits
      else let inv = f_div fo f_one temperature in map (\<lambda>v. f_mul fo v inv) logits)"

definition greedy_apply :: "f32 list \<Rightarrow> f32 list" where
  "greedy_apply logits =
     (if logits = [] then logits
      else case argmax logits of
             None \<Rightarrow> logits
           | Some max_idx \<Rightarrow> mask_unless (\<lambda>i. i = unat max_idx) logits)"

fun apply_stage :: "f32_ops \<Rightarrow> sampler_stage \<Rightarrow> u32 list \<Rightarrow> f32 list \<times> xorshift64 \<Rightarrow> f32 list \<times> xorshift64" where
  "apply_stage fo (LogitBias biases banned) recent (logits, rng) = (logit_bias_apply fo biases banned logits, rng)"
| "apply_stage fo (RepetitionPenalty penalty w freq pres) recent (logits, rng) =
     (repetition_apply fo penalty w freq pres logits recent, rng)"
| "apply_stage fo (DryStage m b al br) recent (logits, rng) = (dry_apply fo m b al br logits recent, rng)"
| "apply_stage fo (TopK k) recent (logits, rng) = (top_k_apply fo k logits, rng)"
| "apply_stage fo (TypicalPStage p) recent (logits, rng) = (typical_p_apply fo p logits, rng)"
| "apply_stage fo (TopP p) recent (logits, rng) = (top_p_apply fo p logits, rng)"
| "apply_stage fo (MinP p) recent (logits, rng) = (min_p_apply fo p logits, rng)"
| "apply_stage fo (TopAStage a) recent (logits, rng) = (top_a_apply fo a logits, rng)"
| "apply_stage fo (EtaStage eta eps) recent (logits, rng) = (eta_apply fo eta eps logits, rng)"
| "apply_stage fo (XtcStage t p) recent (logits, rng) = xtc_apply fo t p logits rng"
| "apply_stage fo (TemperatureScale t) recent (logits, rng) = (temperature_apply fo t logits, rng)"
| "apply_stage fo GreedySelect recent (logits, rng) = (greedy_apply logits, rng)"

section \<open>The final draw\<close>

fun walk :: "f32_ops \<Rightarrow> f32 \<Rightarrow> f32 \<Rightarrow> f32 \<Rightarrow> nat \<Rightarrow> f32 list \<Rightarrow> nat option" where
  "walk fo mass r cumulative i [] = None"
| "walk fo mass r cumulative i (e # es) =
     (let cumulative = f_add fo cumulative (f_div fo e mass)
      in if f_lt r cumulative then Some i else walk fo mass r cumulative (Suc i) es)"

definition select_token :: "f32_ops \<Rightarrow> f32 list \<Rightarrow> xorshift64 \<Rightarrow> u32 option \<times> xorshift64" where
  "select_token fo logits rng =
     (if logits = [] then (None, rng)
      else if \<not> f32_is_finite (logit_max logits) then (None, rng)
      else let exps = exps_of fo logits; mass = f_sum fo exps
           in if f_le mass f_zero then (None, rng)
              else case take 2 (filter (\<lambda>(i, e). f_lt f_zero e) (enumerate 0 exps)) of
                     [(i, e)] \<Rightarrow> (Some (of_nat i), rng)
                   | _ \<Rightarrow>
                       let (r, rng) = next_open01_f32 fo rng
                       in case walk fo mass r f_zero 0 exps of
                            Some i \<Rightarrow> (Some (of_nat i), rng)
                          | None \<Rightarrow> (Some (of_nat (length logits - 1)), rng))"

section \<open>Chains\<close>

record sampler_chain =
  ch_stages :: "sampler_stage list"
  ch_rng :: xorshift64

definition chain_new :: sampler_chain where
  "chain_new = \<lparr>ch_stages = [], ch_rng = xorshift_new 0xDEADBEEFCAFEBABE\<rparr>"

definition chain_with_seed :: "u64 \<Rightarrow> sampler_chain \<Rightarrow> sampler_chain" where
  "chain_with_seed seed ch = ch\<lparr>ch_rng := xorshift_new seed\<rparr>"

definition chain_push :: "sampler_stage \<Rightarrow> sampler_chain \<Rightarrow> sampler_chain" where
  "chain_push stage ch = ch\<lparr>ch_stages := ch_stages ch @ [stage]\<rparr>"

definition apply_stages_external ::
  "f32_ops \<Rightarrow> sampler_chain \<Rightarrow> u32 list \<Rightarrow> f32 list \<times> xorshift64 \<Rightarrow> f32 list \<times> xorshift64" where
  "apply_stages_external fo ch recent s = fold (\<lambda>stage. apply_stage fo stage recent) (ch_stages ch) s"

definition chain_sample :: "f32_ops \<Rightarrow> sampler_chain \<Rightarrow> f32 list \<Rightarrow> u32 list \<Rightarrow> u32 \<times> sampler_chain" where
  "chain_sample fo ch logits recent =
     (if logits = [] then (0, ch)
      else let (processed, rng) = apply_stages_external fo ch recent (logits, ch_rng ch);
               (token, rng) = select_token fo processed rng
           in (case token of None \<Rightarrow> 0 | Some t \<Rightarrow> t, ch\<lparr>ch_rng := rng\<rparr>))"

end
