(* ===== verification/Smp_Sampler.thy ===== *)
theory Smp_Sampler
  imports Smp_Stages
begin

text \<open>
  \<open>oxillama-runtime/src/sampling/mod.rs\<close> and \<open>mirostat.rs\<close>: the configuration, the two halves of the
  chain that it builds, and the sampler, which owns the generator, the running surprise of
  Mirostat and the state of the grammar. The scratch buffer is emptied at every call and is no
  state of the model.
\<close>

section \<open>Configuration\<close>

record sampler_config =
  sc_temperature :: f32
  sc_top_k :: nat
  sc_top_p :: f32
  sc_min_p :: f32
  sc_repetition_penalty :: f32
  sc_repetition_penalty_window :: nat
  sc_seed :: "u64 option"
  sc_mirostat :: u8
  sc_mirostat_tau :: f32
  sc_mirostat_eta :: f32
  sc_grammar :: "grammar option"
  sc_token_vocab :: "(u32 \<times> u8 list) list option"
  sc_eog_token_ids :: "u32 list"
  sc_logit_bias :: "(u32 \<times> f32) list"
  sc_banned_tokens :: "u32 list"
  sc_dry_multiplier :: f32
  sc_dry_base :: f32
  sc_dry_allowed_length :: nat
  sc_xtc_threshold :: f32
  sc_xtc_probability :: f32
  sc_typical_p :: f32
  sc_top_a :: f32
  sc_eta_cutoff :: f32
  sc_epsilon_cutoff :: f32
  sc_frequency_penalty :: f32
  sc_presence_penalty :: f32

definition sampler_config_default :: sampler_config where
  "sampler_config_default =
     \<lparr>sc_temperature = 0x3F333333, sc_top_k = 40, sc_top_p = 0x3F666666, sc_min_p = f_zero,
      sc_repetition_penalty = 0x3F8CCCCD, sc_repetition_penalty_window = 64, sc_seed = None,
      sc_mirostat = 0, sc_mirostat_tau = 0x40A00000, sc_mirostat_eta = 0x3DCCCCCD,
      sc_grammar = None, sc_token_vocab = None, sc_eog_token_ids = [], sc_logit_bias = [], sc_banned_tokens = [],
      sc_dry_multiplier = f_zero, sc_dry_base = 0x3FE00000, sc_dry_allowed_length = 2,
      sc_xtc_threshold = f_zero, sc_xtc_probability = f_half, sc_typical_p = f_one, sc_top_a = f_zero,
      sc_eta_cutoff = f_zero, sc_epsilon_cutoff = f_zero, sc_frequency_penalty = f_zero,
      sc_presence_penalty = f_zero\<rparr>"

definition greedy_config :: sampler_config where
  "greedy_config = sampler_config_default\<lparr>sc_temperature := f_zero, sc_top_k := 1, sc_top_p := f_one,
     sc_repetition_penalty := f_one, sc_repetition_penalty_window := 0\<rparr>"

definition mirostat_v2_config :: "f32 \<Rightarrow> f32 \<Rightarrow> sampler_config" where
  "mirostat_v2_config tau eta = sampler_config_default\<lparr>sc_temperature := f_one, sc_mirostat := 2,
     sc_mirostat_tau := tau, sc_mirostat_eta := eta, sc_top_k := 0, sc_top_p := f_one,
     sc_repetition_penalty := f_one, sc_repetition_penalty_window := 0\<rparr>"

definition mirostat_v1_config :: "f32 \<Rightarrow> f32 \<Rightarrow> sampler_config" where
  "mirostat_v1_config tau eta = (mirostat_v2_config tau eta)\<lparr>sc_mirostat := 1\<rparr>"

section \<open>From the configuration to the chain\<close>

definition push_if :: "bool \<Rightarrow> sampler_stage \<Rightarrow> sampler_chain \<Rightarrow> sampler_chain" where
  "push_if c stage ch = (if c then chain_push stage ch else ch)"

definition push_pre_grammar_stages :: "sampler_config \<Rightarrow> sampler_chain \<Rightarrow> sampler_chain" where
  "push_pre_grammar_stages c ch =
     (let ch = push_if (sc_logit_bias c \<noteq> [] \<or> sc_banned_tokens c \<noteq> [])
                 (LogitBias (sc_logit_bias c) (sc_banned_tokens c)) ch;
          ch = push_if (\<not> f_eq (sc_repetition_penalty c) f_one \<or> \<not> f_eq (sc_frequency_penalty c) f_zero \<or>
                        \<not> f_eq (sc_presence_penalty c) f_zero)
                 (RepetitionPenalty (sc_repetition_penalty c) (sc_repetition_penalty_window c)
                    (sc_frequency_penalty c) (sc_presence_penalty c)) ch
      in push_if (\<not> f_eq (sc_dry_multiplier c) f_zero)
           (DryStage (sc_dry_multiplier c) (sc_dry_base c) (sc_dry_allowed_length c) []) ch)"

definition push_post_grammar_stages :: "sampler_config \<Rightarrow> sampler_chain \<Rightarrow> sampler_chain" where
  "push_post_grammar_stages c ch =
     (if f_le (sc_temperature c) f_zero then chain_push GreedySelect ch
      else let ch = push_if (0 < sc_top_k c) (TopK (sc_top_k c)) ch;
               ch = push_if (f_lt (sc_typical_p c) f_one) (TypicalPStage (sc_typical_p c)) ch;
               ch = push_if (f_lt (sc_top_p c) f_one) (TopP (sc_top_p c)) ch;
               ch = push_if (f_lt f_zero (sc_min_p c)) (MinP (sc_min_p c)) ch;
               ch = push_if (\<not> f_eq (sc_top_a c) f_zero) (TopAStage (sc_top_a c)) ch;
               ch = push_if (\<not> f_eq (sc_eta_cutoff c) f_zero \<or> \<not> f_eq (sc_epsilon_cutoff c) f_zero)
                      (EtaStage (sc_eta_cutoff c) (sc_epsilon_cutoff c)) ch;
               ch = push_if (f_lt f_zero (sc_xtc_threshold c) \<and> f_lt (sc_xtc_threshold c) f_one \<and>
                             f_lt f_zero (sc_xtc_probability c))
                      (XtcStage (sc_xtc_threshold c) (sc_xtc_probability c)) ch
           in push_if (\<not> f_eq (sc_temperature c) f_one) (TemperatureScale (sc_temperature c)) ch)"

definition seeded_chain :: "sampler_config \<Rightarrow> sampler_chain" where
  "seeded_chain c = (case sc_seed c of None \<Rightarrow> chain_new | Some seed \<Rightarrow> chain_with_seed seed chain_new)"

definition from_config :: "sampler_config \<Rightarrow> sampler_chain" where
  "from_config c = push_post_grammar_stages c (push_pre_grammar_stages c (seeded_chain c))"

definition split_from_config :: "sampler_config \<Rightarrow> sampler_chain \<times> sampler_chain" where
  "split_from_config c = (push_pre_grammar_stages c (seeded_chain c), push_post_grammar_stages c (seeded_chain c))"

section \<open>Mirostat\<close>

definition best_step :: "nat \<times> f32 \<Rightarrow> nat \<times> f32 \<Rightarrow> nat \<times> f32" where
  "best_step = (\<lambda>(i, v) (top_id, top_val). if f32_is_finite v \<and> f_lt top_val v then (i, v) else (top_id, top_val))"

definition best_id :: "f32 list \<Rightarrow> nat" where
  "best_id logits = fst (fold best_step (enumerate 0 logits) (0, NEG_INFINITY))"

definition nudge :: "f32_ops \<Rightarrow> f32 \<Rightarrow> f32 \<Rightarrow> f32 \<Rightarrow> f32 \<Rightarrow> f32" where
  "nudge fo mu eta surprise tau = f_sub fo mu (f_mul fo eta (f_sub fo surprise tau))"

fun pick_candidate :: "f32_ops \<Rightarrow> f32 \<Rightarrow> f32 \<Rightarrow> nat \<times> f32 \<Rightarrow> (nat \<times> f32) list \<Rightarrow> nat \<times> f32" where
  "pick_candidate fo r cumulative fallback [] = fallback"
| "pick_candidate fo r cumulative fallback ((idx, prob) # cands) =
     (let cumulative = f_add fo cumulative prob
      in if f_lt r cumulative then (idx, prob) else pick_candidate fo r cumulative fallback cands)"

definition draw_candidate ::
  "f32_ops \<Rightarrow> (nat \<times> f32) list \<Rightarrow> f32 \<Rightarrow> f32 \<Rightarrow> f32 \<Rightarrow> xorshift64 \<Rightarrow> nat \<times> f32 \<times> xorshift64" where
  "draw_candidate fo cands mu tau eta rng =
     (let (r, rng) = next_open01_f32 fo rng;
          (idx, prob) = pick_candidate fo r f_zero (hd cands) cands;
          surprise = (if f_lt f_zero prob then f_neg (f_log2 fo prob) else tau)
      in (idx, nudge fo mu eta surprise tau, rng))"

definition sample_v2 ::
  "f32_ops \<Rightarrow> f32 list \<Rightarrow> f32 \<Rightarrow> f32 \<Rightarrow> f32 \<Rightarrow> xorshift64 \<Rightarrow> nat \<times> f32 \<times> xorshift64" where
  "sample_v2 fo logits mu tau eta rng =
     (if logits = [] then (0, mu, rng)
      else let top_id = best_id logits; exps = exps_of fo logits; mass = f_sum fo exps
           in if f_le mass f_zero then (top_id, nudge fo mu eta f_zero tau, rng)
              else let candidates = filter (\<lambda>(i, p). \<not> f_le p f_zero \<and> f_le (f_neg (f_log2 fo p)) mu)
                                      (enumerate 0 (map (\<lambda>e. f_div fo e mass) exps))
                   in if candidates = [] then (top_id, nudge fo mu eta f_zero tau, rng)
                      else let kept = f_sum fo (map snd candidates);
                               candidates = (if f_lt f_zero kept
                                             then map (\<lambda>(i, p). (i, f_div fo p kept)) candidates else candidates)
                           in draw_candidate fo candidates mu tau eta rng)"

definition MIROSTAT_V1_M :: nat where
  "MIROSTAT_V1_M = 100"

text \<open>The exponent, from the ratios of the probabilities in order.\<close>

definition zipf_exponent :: "f32_ops \<Rightarrow> f32 list \<Rightarrow> f32" where
  "zipf_exponent fo ps =
     (let (ti_bi, ti_sq) =
        fold (\<lambda>i (ti_bi, ti_sq).
            let p_i = f_max (ps ! i) F_MIN_POSITIVE; p_next = f_max (ps ! (i + 1)) F_MIN_POSITIVE;
                t_i = f_ln fo (f_div fo (f_add fo (f_of_nat fo i) f_two) (f_add fo (f_of_nat fo i) f_one));
                b_i = f_ln fo (f_div fo p_i p_next)
            in (f_add fo ti_bi (f_mul fo t_i b_i), f_add fo ti_sq (f_mul fo t_i t_i)))
          [0..<length ps - 1] (f_zero, f_zero)
      in if f_lt 0x3089705F ti_sq then f_div fo ti_bi ti_sq else f_one)"

definition candidate_count :: "f32_ops \<Rightarrow> f32 \<Rightarrow> f32 \<Rightarrow> nat \<Rightarrow> nat \<Rightarrow> nat" where
  "candidate_count fo s_hat mu n taken =
     (let epsilon_hat = f_sub fo s_hat f_one;
          k_estimate =
            (if f_lt 0x358637BD (f_abs epsilon_hat) \<and> f_lt 0x3A83126F (f_abs s_hat)
             then let numerator = f_mul fo epsilon_hat (f_powf fo f_two mu);
                      denom = f_sub fo f_one (f_powf fo (f_of_nat fo n) (f_neg epsilon_hat))
                  in if f_lt 0x3089705F (f_abs denom)
                     then f_powf fo (f_max (f_div fo numerator denom) f_zero) (f_div fo f_one s_hat)
                     else f_of_nat fo taken
             else f_of_nat fo taken)
      in min (f_to_nat fo (f_max (f_round fo k_estimate) f_one)) taken)"

definition sample_v1 ::
  "f32_ops \<Rightarrow> f32 list \<Rightarrow> f32 \<Rightarrow> f32 \<Rightarrow> f32 \<Rightarrow> xorshift64 \<Rightarrow> nat \<times> f32 \<times> xorshift64" where
  "sample_v1 fo logits mu tau eta rng =
     (if logits = [] then (0, mu, rng)
      else let n = length logits; top_id = best_id logits; exps = exps_of fo logits; mass = f_sum fo exps
           in if f_le mass f_zero then (top_id, nudge fo mu eta f_zero tau, rng)
              else let probs = map (\<lambda>e. f_div fo e mass) exps;
                       descending = (\<lambda>a b. cmp_or_equal (probs ! b) (probs ! a));
                       taken = max (min MIROSTAT_V1_M n) 1;
                       idx = (if taken < n then take taken (f_select fo (taken - 1) descending [0..<n]) else [0..<n]);
                       idx = f_sort fo descending idx;
                       s_hat = zipf_exponent fo (map (\<lambda>i. probs ! i) idx);
                       k = candidate_count fo s_hat mu n taken;
                       kept = f_sum fo (map (\<lambda>i. probs ! i) (take k idx))
                   in if f_le kept f_zero then (top_id, nudge fo mu eta f_zero tau, rng)
                      else draw_candidate fo (map (\<lambda>i. (i, f_div fo (probs ! i) kept)) (take k idx)) mu tau eta rng)"

section \<open>The sampler\<close>

record sampler =
  sm_config :: sampler_config
  sm_rng :: xorshift64
  sm_mu :: f32
  sm_grammar :: "grammar_state option"
  sm_pre :: sampler_chain
  sm_post :: sampler_chain

datatype sampling_error = EmptyLogits | NoneAfterMasking | NoneAfterPipeline

text \<open>The seed that \<open>generate_seed\<close> gives when the configuration names none is an argument.\<close>

definition sampler_new :: "f32_ops \<Rightarrow> u64 \<Rightarrow> sampler_config \<Rightarrow> sampler" where
  "sampler_new fo fresh c =
     \<lparr>sm_config = c, sm_rng = xorshift_new (case sc_seed c of None \<Rightarrow> fresh | Some seed \<Rightarrow> seed),
      sm_mu = f_mul fo f_two (sc_mirostat_tau c), sm_grammar = map_option grammar_state_new (sc_grammar c),
      sm_pre = fst (split_from_config c), sm_post = snd (split_from_config c)\<rparr>"

text \<open>What both ways of sampling do first: the stages before the grammar, then its mask.\<close>

definition masked_logits :: "f32_ops \<Rightarrow> sampler \<Rightarrow> f32 list \<Rightarrow> u32 list \<Rightarrow> f32 list \<times> xorshift64" where
  "masked_logits fo sm logits recent =
     (let (scratch, rng) = apply_stages_external fo (sm_pre sm) recent (logits, sm_rng sm)
      in (case (sm_grammar sm, sc_token_vocab (sm_config sm)) of
            (Some st, Some vocab) \<Rightarrow> apply_grammar_mask scratch st vocab (sc_eog_token_ids (sm_config sm))
          | _ \<Rightarrow> scratch, rng))"

definition is_greedy :: "sampler_config \<Rightarrow> bool" where
  "is_greedy c \<longleftrightarrow> f_le (sc_temperature c) f_zero \<or> sc_top_k c = 1"

definition sample_standard ::
  "f32_ops \<Rightarrow> sampler \<Rightarrow> f32 list \<Rightarrow> u32 list \<Rightarrow> (sampling_error + u32) \<times> sampler" where
  "sample_standard fo sm logits recent =
     (let (scratch, rng) = masked_logits fo sm logits recent
      in if is_greedy (sm_config sm)
         then (ok_or (argmax scratch) NoneAfterMasking, sm\<lparr>sm_rng := rng\<rparr>)
         else let (scratch, rng) = apply_stages_external fo (sm_post sm) recent (scratch, rng);
                  (token, rng) = select_token fo scratch rng
              in (ok_or token NoneAfterPipeline, sm\<lparr>sm_rng := rng\<rparr>))"

definition rescaled :: "f32_ops \<Rightarrow> sampler_config \<Rightarrow> f32 list \<Rightarrow> f32 list" where
  "rescaled fo c logits =
     (if f_lt f_zero (sc_temperature c) \<and> \<not> f_eq (sc_temperature c) f_one
      then let inv_temp = f_div fo f_one (sc_temperature c) in map (\<lambda>v. f_mul fo v inv_temp) logits
      else logits)"

definition mirostat_draw ::
  "f32_ops \<Rightarrow> sampler_config \<Rightarrow> f32 list \<Rightarrow> f32 \<Rightarrow> xorshift64 \<Rightarrow> nat \<times> f32 \<times> xorshift64" where
  "mirostat_draw fo c logits mu rng =
     (if sc_mirostat c = 1 then sample_v1 fo logits mu (sc_mirostat_tau c) (sc_mirostat_eta c) rng
      else sample_v2 fo logits mu (sc_mirostat_tau c) (sc_mirostat_eta c) rng)"

definition sample_mirostat :: "f32_ops \<Rightarrow> sampler \<Rightarrow> f32 list \<Rightarrow> u32 list \<Rightarrow> u32 \<times> sampler" where
  "sample_mirostat fo sm logits recent =
     (let (scratch, rng) = masked_logits fo sm logits recent;
          (token, mu, rng) = mirostat_draw fo (sm_config sm) (rescaled fo (sm_config sm) scratch) (sm_mu sm) rng
      in (of_nat token, sm\<lparr>sm_rng := rng, sm_mu := mu\<rparr>))"

text \<open>\<open>slice::binary_search_by_key\<close> of the standard library: the range that may hold the key is halved
  until one index is left. Only on a table sorted by its keys does it find every key that is there.\<close>

function search_base :: "('a::linorder \<times> 'b) list \<Rightarrow> 'a \<Rightarrow> nat \<Rightarrow> nat \<Rightarrow> nat" where
  "search_base xs key base n =
     (if n \<le> 1 then base
      else let half = n div 2; mid = base + half
           in search_base xs key (if key < fst (xs ! mid) then base else mid) (n - half))"
  by pat_completeness auto
termination
  by (relation "measure (\<lambda>(xs, key, base, n). n)") auto

declare search_base.simps [simp del]

definition binary_search_by_key :: "('a::linorder \<times> 'b) list \<Rightarrow> 'a \<Rightarrow> nat option" where
  "binary_search_by_key xs key =
     (if xs = [] then None
      else let base = search_base xs key 0 (length xs)
           in if fst (xs ! base) = key then Some base else None)"

text \<open>The bytes of the chosen token, looked up by its id, advance the grammar; an error of the advance
  is ignored, and so is an id that the search does not find.\<close>

definition advance_grammar :: "sampler \<Rightarrow> u32 \<Rightarrow> sampler" where
  "advance_grammar sm token =
     (case sm_grammar sm of
        None \<Rightarrow> sm
      | Some st \<Rightarrow>
          (case sc_token_vocab (sm_config sm) of
             None \<Rightarrow> sm
           | Some vocab \<Rightarrow>
               (case binary_search_by_key vocab token of
                  None \<Rightarrow> sm
                | Some idx \<Rightarrow>
                    (case grammar_advance (snd (vocab ! idx)) st of
                       Inl e \<Rightarrow> sm
                     | Inr st' \<Rightarrow> sm\<lparr>sm_grammar := Some st'\<rparr>))))"

definition try_sample ::
  "f32_ops \<Rightarrow> sampler \<Rightarrow> f32 list \<Rightarrow> u32 list \<Rightarrow> (sampling_error + u32) \<times> sampler" where
  "try_sample fo sm logits recent =
     (if logits = [] then (Inl EmptyLogits, sm)
      else let (res, sm) =
             (if sc_mirostat (sm_config sm) = 1 \<or> sc_mirostat (sm_config sm) = 2
              then let (token, sm) = sample_mirostat fo sm logits recent in (Inr token, sm)
              else sample_standard fo sm logits recent)
           in case res of Inl e \<Rightarrow> (Inl e, sm) | Inr token \<Rightarrow> (Inr token, advance_grammar sm token))"

definition sampler_sample :: "f32_ops \<Rightarrow> sampler \<Rightarrow> f32 list \<Rightarrow> u32 list \<Rightarrow> u32 \<times> sampler" where
  "sampler_sample fo sm logits recent =
     (case try_sample fo sm logits recent of (Inr token, sm) \<Rightarrow> (token, sm) | (Inl e, sm) \<Rightarrow> (0, sm))"

definition reset_grammar :: "sampler \<Rightarrow> sampler" where
  "reset_grammar sm = sm\<lparr>sm_grammar := map_option grammar_state_new (sc_grammar (sm_config sm))\<rparr>"

definition grammar_complete :: "sampler \<Rightarrow> bool" where
  "grammar_complete sm = (case sm_grammar sm of None \<Rightarrow> True | Some st \<Rightarrow> is_complete st)"

definition rng_state :: "sampler \<Rightarrow> u64" where
  "rng_state sm = state_value (sm_rng sm)"

definition restore_rng_state :: "u64 \<Rightarrow> f32 \<Rightarrow> sampler \<Rightarrow> sampler" where
  "restore_rng_state st mu sm = sm\<lparr>sm_rng := from_state_value st, sm_mu := mu\<rparr>"

text \<open>The variant without a state.\<close>

definition sample_once :: "f32_ops \<Rightarrow> f32 list \<Rightarrow> sampler_config \<Rightarrow> u32 list \<Rightarrow> u32" where
  "sample_once fo logits c recent =
     (if logits = [] then 0
      else let rng = xorshift_new (case sc_seed c of None \<Rightarrow> 0xDEADBEEFCAFEBABE | Some seed \<Rightarrow> seed);
               (pre, post) = split_from_config c;
               (scratch, rng) = apply_stages_external fo pre recent (logits, rng)
           in if sc_mirostat c = 1 \<or> sc_mirostat c = 2
              then of_nat (fst (mirostat_draw fo c (rescaled fo c scratch) (f_mul fo f_two (sc_mirostat_tau c)) rng))
              else if is_greedy c then (case argmax scratch of None \<Rightarrow> 0 | Some t \<Rightarrow> t)
              else let (scratch, rng) = apply_stages_external fo post recent (scratch, rng)
                   in case fst (select_token fo scratch rng) of None \<Rightarrow> 0 | Some t \<Rightarrow> t)"

end
