(* ===== verification/Smp_Safety.thy ===== *)
theory Smp_Safety
  imports Smp_Sampler Grammar_Safety
begin

text \<open>
  What the stages keep: the number of logits, and that a logit that is out of the running, negative
  infinity or not a number, stays so. The laws of \<open>f32\<close> arithmetic that this needs are \<open>f32_laws\<close>;
  they are rules of IEEE 754 for infinities, zeros and NaN.
\<close>

definition f_dead :: "f32 \<Rightarrow> bool" where
  "f_dead v \<longleftrightarrow> f_is_nan v \<or> v = NEG_INFINITY"

text \<open>A weight that adds nothing: a zero or not a number.\<close>

definition f_null :: "f32 \<Rightarrow> bool" where
  "f_null v \<longleftrightarrow> f_is_nan v \<or> f32_key v = 0"

definition f32_laws :: "f32_ops \<Rightarrow> bool" where
  "f32_laws fo \<longleftrightarrow>
     (\<forall>d x. f_dead d \<longrightarrow> f_dead (f_sub fo d x)) \<and>
     (\<forall>d x. f_dead d \<longrightarrow> \<not> f_lt x f_zero \<longrightarrow> f_dead (f_mul fo d x)) \<and>
     (\<forall>x. \<not> f_le x f_zero \<longrightarrow> \<not> f_lt (f_div fo f_one x) f_zero) \<and>
     (\<forall>d m. f_dead d \<longrightarrow> f32_is_finite m \<longrightarrow> f_null (f_exp fo (f_sub fo d m))) \<and>
     (\<forall>z s. f_null z \<longrightarrow> \<not> f_le s f_zero \<longrightarrow> f_null (f_div fo z s)) \<and>
     (\<forall>r c z. f_null z \<longrightarrow> f_lt r (f_add fo c z) \<longrightarrow> f_lt r c) \<and>
     (\<forall>n. \<not> f_lt (f_div fo (f_add fo (f_of_nat fo n) f_half) (f_of_nat fo (2 ^ 24))) f_zero)"

section \<open>Numbers out of the running\<close>

lemma dead_NEG [simp]: "f_dead NEG_INFINITY"
  by (simp add: f_dead_def)

lemma and_push_bit:
  fixes w :: "'a::len word"
  shows "w AND push_bit n a = push_bit n (drop_bit n w AND a)"
  by (auto simp: bit_eq_iff bit_simps)

lemma nan_exponent: "f_is_nan v \<Longrightarrow> v AND 0x7F800000 = 0x7F800000"
proof -
  assume nan: "f_is_nan v"
  define w where "w = v AND 0x7FFFFFFF"
  have "w \<le> 0x7FFFFFFF" unfolding w_def by (rule word_and_le1)
  then have hi: "unat w \<le> 2147483647" by (simp add: word_le_nat_alt)
  have "2139095040 < unat w" using nan by (simp add: f_is_nan_def w_def[symmetric] word_less_nat_alt)
  then have "unat w div 2 ^ 23 = 255" using hi by simp
  then have "unat (drop_bit 23 w) = 255" by (subst unat_drop_bit_eq) (simp only: drop_bit_eq_div)
  then have top: "drop_bit 23 w = 255" by (subst word_unat_eq_iff) simp
  have "v AND 0x7F800000 = w AND push_bit 23 255"
    unfolding w_def by (simp add: and.assoc)
  also have "\<dots> = push_bit 23 (drop_bit 23 w AND 255)"
    by (rule and_push_bit)
  finally show ?thesis by (simp add: top)
qed

lemma dead_not_finite: "f_dead v \<Longrightarrow> \<not> f32_is_finite v"
  unfolding f_dead_def using nan_exponent by (auto simp: f32_is_finite_def NEG_INFINITY_def)

lemma dead_compare: "f_dead v \<Longrightarrow> f_is_nan v \<or> f_eq v NEG_INFINITY" and dead_not_positive: "f_dead v \<Longrightarrow> \<not> f_lt f_zero v"
  by (auto simp: f_dead_def f_eq_def f_lt_def f32_key_def NEG_INFINITY_def f_is_nan_def)

section \<open>One logit through the loops\<close>

definition dead_at :: "nat \<Rightarrow> nat \<Rightarrow> f32 list \<Rightarrow> bool" where
  "dead_at n i ls \<longleftrightarrow> length ls = n \<and> i < n \<and> f_dead (ls ! i)"

lemma fold_keeps: "P s \<Longrightarrow> (\<And>x s. x \<in> set xs \<Longrightarrow> P s \<Longrightarrow> P (f x s)) \<Longrightarrow> P (fold f xs s)"
  by (induction xs arbitrary: s) simp_all

lemma on_logit_length [simp]: "length (on_logit t f ls) = length ls"
  by (simp add: on_logit_def Let_def)

lemma on_logit_dead: "dead_at n i ls \<Longrightarrow> (\<And>v. f_dead v \<Longrightarrow> f_dead (f v)) \<Longrightarrow> dead_at n i (on_logit t f ls)"
  by (auto simp: dead_at_def on_logit_def Let_def nth_list_update)

lemma fold_on_logit_length: "length (fold (\<lambda>x. on_logit (g x) (f x)) xs ls) = length ls"
  by (induction xs arbitrary: ls) simp_all

lemma fold_on_logit_dead:
  "dead_at n i ls \<Longrightarrow> (\<And>x v. f_dead v \<Longrightarrow> f_dead (f x v)) \<Longrightarrow> dead_at n i (fold (\<lambda>x. on_logit (g x) (f x)) xs ls)"
  by (rule fold_keeps) (auto intro: on_logit_dead)

lemma mask_unless_nth [simp]:
  "length (mask_unless keep ls) = length ls"
  "i < length ls \<Longrightarrow> mask_unless keep ls ! i = (if keep i then ls ! i else NEG_INFINITY)"
  by (simp_all add: mask_unless_def nth_enumerate_eq)

lemma mask_unless_dead: "dead_at n i ls \<Longrightarrow> dead_at n i (mask_unless keep ls)"
  by (auto simp: dead_at_def)

lemma mask_all_length [simp]: "length (mask_all idxs ls) = length ls"
  by (induction idxs arbitrary: ls) (simp_all add: mask_all_def)

lemma mask_all_dead: "dead_at n i ls \<Longrightarrow> dead_at n i (mask_all idxs ls)"
proof (induction idxs arbitrary: ls)
  case (Cons j idxs)
  from Cons.prems have "dead_at n i (ls[j := NEG_INFINITY])" by (cases "j = i") (simp_all add: dead_at_def)
  from Cons.IH[OF this] show ?case by (simp add: mask_all_def)
qed (simp add: mask_all_def)

lemma ensure_length [simp]: "length (ensure_at_least_one_finite ls) = length ls"
  by (simp add: ensure_at_least_one_finite_def)

section \<open>Stages\<close>

lemma repetition_length [simp]: "length (repetition_apply fo p w fr pr ls recent) = length ls"
  by (simp add: repetition_apply_def Let_def fold_on_logit_length)

lemma logit_bias_length [simp]: "length (logit_bias_apply fo biases banned ls) = length ls"
  unfolding logit_bias_apply_def case_prod_beta by (simp add: fold_on_logit_length)

lemma dry_fold_length:
  "length (fold (\<lambda>(t, m). if m < al then (\<lambda>ls. ls) else on_logit t (f m)) xs ls) = length ls"
  by (induction xs arbitrary: ls) (simp_all add: case_prod_beta)

lemma dry_length [simp]: "length (dry_apply fo m b al br ls recent) = length ls"
  by (simp add: dry_apply_def dry_fold_length)

lemma stage_length [simp]: "length (fst (apply_stage fo stage recent s)) = length (fst s)"
  by (cases s; cases stage)
     (simp_all add: top_k_apply_def top_p_apply_def min_p_apply_def typical_p_apply_def top_a_apply_def
        eta_apply_def xtc_apply_def temperature_apply_def greedy_apply_def Let_def split: option.splits prod.splits)

lemma stages_length [simp]: "length (fst (fold (\<lambda>stage. apply_stage fo stage recent) stages s)) = length (fst s)"
  by (induction stages arbitrary: s) simp_all

text \<open>The stages that never bring a logit back.\<close>

fun keeps_dead :: "sampler_stage \<Rightarrow> bool" where
  "keeps_dead (RepetitionPenalty p w fr pr) \<longleftrightarrow> \<not> f_lt p f_zero"
| "keeps_dead (TypicalPStage p) = False"
| "keeps_dead (TopAStage a) = False"
| "keeps_dead (EtaStage eta eps) = False"
| "keeps_dead (XtcStage t p) = False"
| "keeps_dead stage = True"

lemma bias_dead: "dead_at n i ls \<Longrightarrow> dead_at n i (logit_bias_apply fo biases banned ls)"
  unfolding logit_bias_apply_def case_prod_beta
  by (rule fold_on_logit_dead[OF fold_on_logit_dead]) (auto dest: dead_not_finite)

lemma repetition_dead:
  assumes laws: "f32_laws fo" and "\<not> f_lt p f_zero" and "dead_at n i ls"
  shows "dead_at n i (repetition_apply fo p w fr pr ls recent)"
proof -
  have pen: "f_dead v \<Longrightarrow> f_dead (if f_lt f_zero v then f_div fo v p else f_mul fo v p)" for v
    using laws assms(2) dead_not_positive unfolding f32_laws_def by simp
  have sub: "f_dead v \<Longrightarrow> f_dead (f_sub fo v x)" for v x
    using laws unfolding f32_laws_def by simp
  show ?thesis
    using assms(3) unfolding repetition_apply_def Let_def
    by (auto intro!: fold_on_logit_dead pen sub)
qed

lemma dry_dead: "dead_at n i ls \<Longrightarrow> dead_at n i (dry_apply fo m b al br ls recent)"
  unfolding dry_apply_def case_prod_beta
proof (split if_split, intro conjI impI)
  assume dead: "dead_at n i ls"
  show "dead_at n i (fold (\<lambda>p. if snd p < al then (\<lambda>ls. ls) else on_logit (fst p) (\<lambda>v. if f32_is_finite v
      then f_sub fo v (f_mul fo m (f_powf fo b (f_of_nat fo (snd p - al)))) else v)) (dry_best recent (set br)) ls)"
  proof (rule fold_keeps[where P = "dead_at n i", OF dead])
    fix p ls'
    assume "dead_at n i ls'"
    then show "dead_at n i ((if snd p < al then (\<lambda>ls. ls) else on_logit (fst p) (\<lambda>v. if f32_is_finite v
        then f_sub fo v (f_mul fo m (f_powf fo b (f_of_nat fo (snd p - al)))) else v)) ls')"
      by (simp add: on_logit_dead dead_not_finite)
  qed
qed

lemma temperature_dead:
  assumes laws: "f32_laws fo" and "dead_at n i ls"
  shows "dead_at n i (temperature_apply fo t ls)"
proof -
  have "f_dead (f_mul fo (ls ! i) (f_div fo f_one t))" if "\<not> f_le t f_zero"
    using laws that assms(2) unfolding f32_laws_def dead_at_def by blast
  then show ?thesis using assms(2) by (auto simp: temperature_apply_def dead_at_def Let_def)
qed

lemma stage_dead:
  assumes "f32_laws fo" and "keeps_dead stage" and "dead_at n i (fst s)"
  shows "dead_at n i (fst (apply_stage fo stage recent s))"
proof -
  obtain ls rng where s: "s = (ls, rng)" by (cases s)
  with assms(3) have dead: "dead_at n i ls" by simp
  show ?thesis
  proof (cases stage)
    case (TopK k)
    then show ?thesis using dead by (simp add: s top_k_apply_def Let_def mask_unless_dead)
  next
    case (TopP p)
    then show ?thesis using dead by (simp add: s top_p_apply_def Let_def mask_all_dead)
  next
    case (MinP p)
    then show ?thesis using dead by (simp add: s min_p_apply_def Let_def mask_unless_dead)
  next
    case GreedySelect
    then show ?thesis using dead by (auto simp: s greedy_apply_def mask_unless_dead split: option.splits)
  qed (use assms(1,2) dead s in \<open>simp_all add: bias_dead repetition_dead dry_dead temperature_dead\<close>)
qed

lemma stages_dead:
  assumes "f32_laws fo" and "list_all keeps_dead stages" and "dead_at n i (fst s)"
  shows "dead_at n i (fst (fold (\<lambda>stage. apply_stage fo stage recent) stages s))"
  using assms(2,3) by (induction stages arbitrary: s) (simp_all add: stage_dead[OF assms(1)])

section \<open>The bans\<close>

lemma banned_fold:
  assumes "t \<in> set banned" and "unat t < length ls"
  shows "dead_at (length ls) (unat t) (fold (\<lambda>token. on_logit token (\<lambda>v. NEG_INFINITY)) banned ls)"
  using assms
proof (induction banned arbitrary: ls)
  case (Cons b banned)
  show ?case
  proof (cases "t = b")
    case True
    with Cons.prems(2) have "dead_at (length ls) (unat t) (on_logit b (\<lambda>v. NEG_INFINITY) ls)"
      by (simp add: dead_at_def on_logit_def Let_def)
    then show ?thesis by (auto intro: fold_on_logit_dead)
  next
    case False
    then show ?thesis using Cons.prems Cons.IH[of "on_logit b (\<lambda>v. NEG_INFINITY) ls"] by simp
  qed
qed simp

lemma banned_dead:
  assumes "t \<in> set banned" and "unat t < length ls"
  shows "dead_at (length ls) (unat t) (logit_bias_apply fo biases banned ls)"
proof -
  have "f_dead v \<Longrightarrow> f_dead (if f32_is_finite v then f_add fo v x else v)" for v x
    by (auto dest: dead_not_finite)
  then show ?thesis
    unfolding logit_bias_apply_def case_prod_beta by (intro fold_on_logit_dead banned_fold assms)
qed

section \<open>The mask of the grammar\<close>

lemma mask_outcome:
  assumes "mask_inv ls (fold (mask_step st (is_complete st) eog) vocab (ls, None))" (is "mask_inv ls ?r")
  shows "length (apply_grammar_mask ls st vocab eog) = length ls"
    and "i < length ls \<Longrightarrow> \<not> f32_is_finite (ls ! i) \<Longrightarrow>
      apply_grammar_mask ls st vocab eog ! i = ls ! i \<or> apply_grammar_mask ls st vocab eog ! i = NEG_INFINITY"
proof -
  obtain ls' best where r: "?r = (ls', best)" by fastforce
  have len: "length ls' = length ls"
    and vals: "\<And>i. i < length ls \<Longrightarrow> ls' ! i = ls ! i \<or> ls' ! i = NEG_INFINITY"
    and cand: "\<And>i v. best = Some (i, v) \<Longrightarrow> f32_is_finite v \<and> v = ls ! i"
    using assms by (simp_all add: mask_inv_def r)
  have mask: "apply_grammar_mask ls st vocab eog = (case best of None \<Rightarrow> ls'
      | Some (i, v) \<Rightarrow> if list_all (\<lambda>v. \<not> f32_is_finite v) ls' then ls'[i := v] else ls')"
    by (simp add: apply_grammar_mask_def r)
  show "length (apply_grammar_mask ls st vocab eog) = length ls"
    by (auto simp: mask len split: option.splits)
  assume i: "i < length ls" "\<not> f32_is_finite (ls ! i)"
  have "best = Some (j, v) \<Longrightarrow> j \<noteq> i" for j v using cand[of j v] i(2) by auto
  then show "apply_grammar_mask ls st vocab eog ! i = ls ! i \<or> apply_grammar_mask ls st vocab eog ! i = NEG_INFINITY"
    using vals[OF i(1)] by (auto simp: mask split: option.splits)
qed

lemmas mask_result = mask_outcome[OF mask_fold_inv[OF mask_init]]

lemma grammar_mask_length [simp]: "length (apply_grammar_mask ls st vocab eog) = length ls"
  by (rule mask_result)

lemma grammar_mask_dead: "dead_at n i ls \<Longrightarrow> dead_at n i (apply_grammar_mask ls st vocab eog)"
  using mask_result(2)[of i ls st vocab eog] by (auto simp: dead_at_def dead_not_finite)

section \<open>The choice\<close>

definition argmax_ok :: "f32 list \<Rightarrow> nat \<Rightarrow> (u32 \<times> f32) option \<Rightarrow> bool" where
  "argmax_ok ls n best \<longleftrightarrow> (case best of
     None \<Rightarrow> \<forall>j < n. f_dead (ls ! j)
   | Some (t, v) \<Rightarrow> \<exists>i < n. t = of_nat i \<and> v = ls ! i \<and> \<not> f_dead v \<and> (\<forall>j < n. \<not> f_lt v (ls ! j)))"

lemma f_lt_trans: "f_lt a b \<Longrightarrow> f_lt b c \<Longrightarrow> f_lt a c" and f_lt_negtrans: "f_lt a b \<Longrightarrow> \<not> f_lt a c \<Longrightarrow> \<not> f_lt b c"
  by (auto simp: f_lt_def)

lemma f_lt_irrefl [simp]: "\<not> f_lt a a"
  by (simp add: f_lt_def)

lemma eq_neg_infinity:
  assumes "f_eq v NEG_INFINITY"
  shows "v = NEG_INFINITY"
proof -
  have key: "f32_key v = - 0x7F800000" using assms by (simp add: f_eq_def f32_key_def NEG_INFINITY_def)
  have nonneg: "uint (v AND 0x7FFFFFFF) \<noteq> - 0x7F800000"
    using uint_ge_0[of "v AND 0x7FFFFFFF"] by linarith
  from key have sign: "v AND 0x80000000 \<noteq> 0"
    using nonneg unfolding f32_key_def Let_def by (auto split: if_splits)
  with key have mag: "uint (v AND 0x7FFFFFFF) = 0x7F800000"
    unfolding f32_key_def Let_def by (simp split: if_splits)
  have "v AND push_bit 31 1 = push_bit 31 (drop_bit 31 v AND 1)" by (rule and_push_bit)
  then have "v AND 0x80000000 = 0 \<or> v AND 0x80000000 = 0x80000000"
    by (cases "odd (drop_bit 31 v)") (simp_all add: and_one_eq mod_2_eq_odd)
  with sign have "v AND 0x80000000 = 0x80000000" by (simp split: if_splits)
  moreover have "v AND 0x7FFFFFFF = 0x7F800000" using mag by (subst word_uint_eq_iff) simp
  moreover have "(v AND 0x80000000) OR (v AND 0x7FFFFFFF) = v AND - 1"
    unfolding bit.conj_disj_distrib[symmetric] by (rule arg_cong) simp
  then have "v = (v AND 0x80000000) OR (v AND 0x7FFFFFFF)" by (simp only: and.right_neutral)
  ultimately show ?thesis by (simp add: NEG_INFINITY_def)
qed

lemma dead_iff: "f_dead v \<longleftrightarrow> f_is_nan v \<or> f_eq v NEG_INFINITY"
  using eq_neg_infinity dead_compare(1) by (auto simp: f_dead_def)

lemma not_below_dead:
  assumes "f_dead d"
  shows "\<not> f_lt x d"
proof
  assume lt: "f_lt x d"
  then have "d = NEG_INFINITY" and "\<not> f_is_nan x" using assms by (auto simp: f_lt_def f_dead_def)
  then have "x AND 0x7FFFFFFF \<le> 0x7F800000" by (simp add: f_is_nan_def not_less)
  then have "uint (x AND 0x7FFFFFFF) \<le> 0x7F800000" by (simp add: word_le_def)
  moreover have "f32_key x = uint (x AND 0x7FFFFFFF) \<or> f32_key x = - uint (x AND 0x7FFFFFFF)"
    by (simp add: f32_key_def Let_def)
  moreover have "0 \<le> uint (x AND 0x7FFFFFFF)" by (rule uint_ge_0)
  ultimately have "- 0x7F800000 \<le> f32_key x" by linarith
  moreover have "f32_key d = - 0x7F800000" by (simp add: \<open>d = NEG_INFINITY\<close> f32_key_def NEG_INFINITY_def)
  ultimately show False using lt by (simp add: f_lt_def)
qed

lemma argmax_fold:
  assumes "argmax_ok ls n best" and "n + length rest = length ls" and "rest = drop n ls"
  shows "argmax_ok ls (length ls) (fold argmax_step (enumerate n rest) best)"
  using assms
proof (induction rest arbitrary: n best)
  case (Cons v rest)
  have n: "n < length ls" using Cons.prems(2) by simp
  have v: "v = ls ! n" and rest: "rest = drop (Suc n) ls"
    using Cons.prems(3) Cons_nth_drop_Suc[OF n] by (metis list.inject)+
  have "argmax_ok ls (Suc n) (argmax_step (n, v) best)"
  proof (cases "f_dead v")
    case True
    with Cons.prems(1) not_below_dead show ?thesis
      by (auto simp: argmax_step_def argmax_ok_def dead_iff[symmetric] v less_Suc_eq split: option.splits)
  next
    case False
    show ?thesis
    proof (cases best)
      case None
      have "\<not> f_lt v (ls ! j)" if "j < Suc n" for j
        using that Cons.prems(1) not_below_dead by (auto simp: None argmax_ok_def less_Suc_eq v)
      then show ?thesis using False by (auto simp: None argmax_step_def argmax_ok_def dead_iff[symmetric] v)
    next
      case (Some b)
      then obtain i where i: "i < n" "b = (of_nat i, ls ! i)" "\<not> f_dead (ls ! i)"
        and top: "\<And>j. j < n \<Longrightarrow> \<not> f_lt (ls ! i) (ls ! j)"
        using Cons.prems(1) by (cases b) (auto simp: argmax_ok_def)
      show ?thesis
      proof (cases "f_lt (ls ! i) v")
        case True
        have "\<not> f_lt v (ls ! j)" if "j < Suc n" for j
          using that top f_lt_negtrans[OF True] by (auto simp: less_Suc_eq v)
        with True False show ?thesis
          by (simp add: Some i argmax_step_def argmax_ok_def dead_iff[symmetric]) (use v in blast)
      next
        case False
        have "\<not> f_lt (ls ! i) (ls ! j)" if "j < Suc n" for j
          using that top False by (auto simp: less_Suc_eq v)
        with i \<open>\<not> f_dead v\<close> False show ?thesis
          by (simp add: Some argmax_step_def argmax_ok_def dead_iff[symmetric]) (use less_SucI in blast)
      qed
    qed
  qed
  from Cons.IH[OF this _ rest] Cons.prems(2) show ?case by simp
qed simp

theorem argmax_spec:
  "case argmax ls of
     None \<Rightarrow> \<forall>v \<in> set ls. f_dead v
   | Some t \<Rightarrow> \<exists>i < length ls. t = of_nat i \<and> \<not> f_dead (ls ! i) \<and> (\<forall>v \<in> set ls. \<not> f_lt (ls ! i) v)"
proof -
  have "argmax_ok ls 0 None" by (simp add: argmax_ok_def)
  from argmax_fold[OF this, of ls]
  have ok: "argmax_ok ls (length ls) (fold argmax_step (enumerate 0 ls) None)" by simp
  show ?thesis
  proof (cases "fold argmax_step (enumerate 0 ls) None")
    case None
    with ok show ?thesis by (auto simp: argmax_def argmax_ok_def in_set_conv_nth)
  next
    case (Some b)
    with ok obtain i where "i < length ls" "b = (of_nat i, ls ! i)" "\<not> f_dead (ls ! i)"
      "\<And>j. j < length ls \<Longrightarrow> \<not> f_lt (ls ! i) (ls ! j)"
      by (cases b) (auto simp: argmax_ok_def)
    moreover from this have "argmax ls = Some (of_nat i)" by (simp add: argmax_def Some)
    moreover have "\<forall>v \<in> set ls. \<not> f_lt (ls ! i) v" using calculation by (metis in_set_conv_nth)
    ultimately show ?thesis by (simp only: option.case) blast
  qed
qed

lemma walk_live:
  assumes laws: "f32_laws fo" and "\<not> f_le mass f_zero"
    and "walk fo mass r c n es = Some i" and "\<not> f_lt r c"
  shows "\<exists>j < length es. i = n + j \<and> \<not> f_null (es ! j)"
  using assms(3,4)
proof (induction es arbitrary: c n)
  case (Cons e es)
  let ?c = "f_add fo c (f_div fo e mass)"
  show ?case
  proof (cases "f_lt r ?c")
    case True
    then have "\<not> f_null e" using laws assms(2) Cons.prems(2) unfolding f32_laws_def by blast
    with True Cons.prems(1) show ?thesis by (intro exI[of _ 0]) simp
  next
    case False
    then obtain j where "j < length es" "i = Suc n + j" "\<not> f_null (es ! j)"
      using Cons.IH[of ?c "Suc n"] Cons.prems(1) by auto
    then show ?thesis by (intro exI[of _ "Suc j"]) simp
  qed
qed simp

lemma positive_not_null: "f_lt f_zero e \<Longrightarrow> \<not> f_null e"
  by (simp add: f_lt_def f_null_def f32_key_def)

lemma exps_of_dead:
  assumes "f32_laws fo" and "f32_is_finite (logit_max ls)" and "i < length ls" and "f_dead (ls ! i)"
  shows "f_null (exps_of fo ls ! i)"
  using assms unfolding f32_laws_def by (simp add: exps_of_def Let_def)

lemma select_token_live:
  assumes laws: "f32_laws fo" and "fst (select_token fo ls rng) = Some t"
  shows "\<exists>i < length ls. t = of_nat i \<and> (f_dead (ls ! i) \<longrightarrow> i = length ls - 1)"
proof -
  define exps where "exps = exps_of fo ls"
  define mass where "mass = f_sum fo exps"
  have len: "length exps = length ls" by (simp add: exps_def exps_of_def Let_def)
  have "ls \<noteq> []" and fin: "f32_is_finite (logit_max ls)" and mass: "\<not> f_le mass f_zero"
    using assms(2) by (auto simp: select_token_def mass_def exps_def Let_def split: if_splits)
  have live: "i < length ls \<and> (f_dead (ls ! i) \<longrightarrow> i = length ls - 1)" if "i < length ls" "\<not> f_null (exps ! i)" for i
    using that exps_of_dead[OF laws fin] by (auto simp: exps_def)
  obtain r rng' where r: "next_open01_f32 fo rng = (r, rng')" by fastforce
  have "\<not> f_lt r f_zero"
    using laws r unfolding f32_laws_def next_open01_f32_def by (auto simp: case_prod_beta Let_def)
  then have walked: "walk fo mass r f_zero 0 exps = Some i \<Longrightarrow> i < length ls \<and> \<not> f_null (exps ! i)" for i
    using walk_live[OF laws mass, of r f_zero 0 exps i] by (auto simp: len)
  define positive where "positive = filter (\<lambda>(i, e). f_lt f_zero e) (enumerate 0 exps)"
  have chosen: "fst (case take 2 positive of [(i, e)] \<Rightarrow> (Some (of_nat i), rng)
      | _ \<Rightarrow> case walk fo mass r f_zero 0 exps of Some i \<Rightarrow> (Some (of_nat i), rng')
             | None \<Rightarrow> (Some (of_nat (length ls - 1)), rng')) = Some t"
    using assms(2) \<open>ls \<noteq> []\<close> fin mass
    by (simp add: select_token_def Let_def exps_def[symmetric] mass_def[symmetric] positive_def[symmetric] r
        cong: list.case_cong)
  show ?thesis
  proof (cases "\<exists>i e. take 2 positive = [(i, e)]")
    case True
    then obtain i e where one: "take 2 positive = [(i, e)]" by blast
    then have "(i, e) \<in> set positive" by (metis in_set_takeD list.set_intros(1))
    then have "i < length ls" "exps ! i = e" "f_lt f_zero e"
      by (auto simp: positive_def in_set_enumerate_eq len)
    moreover have "t = of_nat i" using chosen by (simp add: one)
    ultimately show ?thesis using live positive_not_null by blast
  next
    case False
    then have "fst (case walk fo mass r f_zero 0 exps of Some i \<Rightarrow> (Some (of_nat i), rng')
             | None \<Rightarrow> (Some (of_nat (length ls - 1)), rng')) = Some t"
      using chosen by (auto split: list.splits)
    then consider i where "walk fo mass r f_zero 0 exps = Some i" "t = of_nat i" | "t = of_nat (length ls - 1)"
      by (auto split: option.splits)
    then show ?thesis
    proof cases
      case 1
      then show ?thesis using walked live by blast
    next
      case 2
      then show ?thesis using \<open>ls \<noteq> []\<close> by (intro exI[of _ "length ls - 1"]) simp
    qed
  qed
qed

section \<open>A call of the sampler\<close>

text \<open>The chains are those of the configuration.\<close>

definition sampler_ok :: "sampler \<Rightarrow> bool" where
  "sampler_ok sm \<longleftrightarrow> (sm_pre sm, sm_post sm) = split_from_config (sm_config sm) \<and> xs_state (sm_rng sm) \<noteq> 0"

text \<open>None of the stages that can bring a masked logit back is configured.\<close>

definition no_revival :: "sampler_config \<Rightarrow> bool" where
  "no_revival c \<longleftrightarrow> \<not> f_lt (sc_typical_p c) f_one \<and> f_eq (sc_top_a c) f_zero \<and> f_eq (sc_eta_cutoff c) f_zero \<and>
     f_eq (sc_epsilon_cutoff c) f_zero \<and> \<not> f_lt f_zero (sc_xtc_threshold c)"

lemma push_if_stages [simp]: "ch_stages (push_if b stage ch) = ch_stages ch @ (if b then [stage] else [])"
  by (simp add: push_if_def chain_push_def)

lemma chain_push_stages [simp]: "ch_stages (chain_push stage ch) = ch_stages ch @ [stage]"
  by (simp add: chain_push_def)

lemma seeded_stages [simp]: "ch_stages (seeded_chain c) = []"
  by (simp add: seeded_chain_def chain_with_seed_def chain_new_def split: option.splits)

lemma pre_stages:
  assumes "sc_banned_tokens c \<noteq> []" and "\<not> f_lt (sc_repetition_penalty c) f_zero"
  obtains rest where "ch_stages (fst (split_from_config c)) = LogitBias (sc_logit_bias c) (sc_banned_tokens c) # rest"
    and "list_all keeps_dead rest"
  using assms that by (auto simp: split_from_config_def push_pre_grammar_stages_def Let_def)

lemma post_stages: "no_revival c \<Longrightarrow> list_all keeps_dead (ch_stages (snd (split_from_config c)))"
  by (auto simp: no_revival_def split_from_config_def push_post_grammar_stages_def Let_def)

lemma masked_logits_length: "length (fst (masked_logits fo sm logits recent)) = length logits"
proof -
  obtain ls rng where s: "apply_stages_external fo (sm_pre sm) recent (logits, sm_rng sm) = (ls, rng)" by fastforce
  have "length ls = length logits"
    using stages_length[of fo recent "ch_stages (sm_pre sm)" "(logits, sm_rng sm)"] s
    by (simp add: apply_stages_external_def del: stages_length)
  then show ?thesis by (auto simp: masked_logits_def s split: option.splits)
qed

lemma masked_logits_banned:
  assumes laws: "f32_laws fo" and "sampler_ok sm" and pen: "\<not> f_lt (sc_repetition_penalty (sm_config sm)) f_zero"
    and t: "t \<in> set (sc_banned_tokens (sm_config sm))" and "unat t < length logits"
  shows "dead_at (length logits) (unat t) (fst (masked_logits fo sm logits recent))"
proof -
  let ?c = "sm_config sm"
  from t have "sc_banned_tokens ?c \<noteq> []" by auto
  from this pen obtain rest where stages: "ch_stages (sm_pre sm) = LogitBias (sc_logit_bias ?c) (sc_banned_tokens ?c) # rest"
    and rest: "list_all keeps_dead rest"
    using assms(2) pre_stages[of ?c] by (metis fst_conv sampler_ok_def)
  obtain ls rng where s: "apply_stages_external fo (sm_pre sm) recent (logits, sm_rng sm) = (ls, rng)" by fastforce
  have "dead_at (length logits) (unat t) ls"
    using stages_dead[OF laws rest, of "length logits" "unat t"
        "(logit_bias_apply fo (sc_logit_bias ?c) (sc_banned_tokens ?c) logits, sm_rng sm)" recent]
      banned_dead[OF t assms(5)] s
    by (simp add: apply_stages_external_def stages)
  then show ?thesis
    by (auto simp: masked_logits_def s split: option.splits intro: grammar_mask_dead)
qed

text \<open>Where the token that is returned stands.\<close>

lemma sampled_live:
  assumes laws: "f32_laws fo" and ok: "sampler_ok sm" and plain: "sc_mirostat (sm_config sm) \<notin> {1, 2}"
    and "no_revival (sm_config sm)" and tried: "try_sample fo sm logits recent = (Inr t, sm')"
  shows "\<exists>i < length logits. t = of_nat i \<and> (f_dead (fst (masked_logits fo sm logits recent) ! i) \<longrightarrow>
    \<not> is_greedy (sm_config sm) \<and> i = length logits - 1)"
proof -
  obtain ls rng where s: "masked_logits fo sm logits recent = (ls, rng)" by fastforce
  then have len: "length ls = length logits" using masked_logits_length[of fo sm logits recent] by simp
  have std: "fst (sample_standard fo sm logits recent) = Inr t"
    using tried plain by (auto simp: try_sample_def case_prod_beta split: if_splits sum.splits)
  show ?thesis
  proof (cases "is_greedy (sm_config sm)")
    case True
    then have "argmax ls = Some t" using std by (auto simp: sample_standard_def s ok_or_def split: option.splits)
    then show ?thesis using argmax_spec[of ls] by (auto simp: s len)
  next
    case False
    obtain ls' rng' where p: "apply_stages_external fo (sm_post sm) recent (ls, rng) = (ls', rng')" by fastforce
    have len': "length ls' = length logits"
      using stages_length[of fo recent "ch_stages (sm_post sm)" "(ls, rng)"] p len
      by (simp add: apply_stages_external_def del: stages_length)
    have "list_all keeps_dead (ch_stages (sm_post sm))"
      using post_stages[OF assms(4)] ok by (metis sampler_ok_def snd_conv)
    then have dead: "dead_at (length logits) i ls \<Longrightarrow> f_dead (ls' ! i)" for i
      using stages_dead[OF laws, of "ch_stages (sm_post sm)" "length logits" i "(ls, rng)" recent] p
      by (simp add: apply_stages_external_def dead_at_def)
    have "fst (select_token fo ls' rng') = Some t"
      using std False by (auto simp: sample_standard_def s p case_prod_beta ok_or_def split: option.splits)
    from select_token_live[OF laws this] show ?thesis
      using dead False by (auto simp: s len len' dead_at_def)
  qed
qed

section \<open>The generator through the calls\<close>

lemma stage_rng: "xs_state (snd s) \<noteq> 0 \<Longrightarrow> xs_state (snd (apply_stage fo stage recent s)) \<noteq> 0"
proof (cases s)
  case (Pair ls rng)
  assume "xs_state (snd s) \<noteq> 0"
  then have rng: "xs_state rng \<noteq> 0" by (simp add: Pair)
  then have "xs_state (snd (xtc_apply fo t p ls rng)) \<noteq> 0" for t p
    using next_u64_nonzero[of rng]
    by (auto simp: xtc_apply_def next_f32_def Let_def case_prod_beta)
  with rng show ?thesis by (cases stage) (simp_all add: Pair)
qed

lemma stages_rng:
  "xs_state (snd s) \<noteq> 0 \<Longrightarrow> xs_state (snd (fold (\<lambda>stage. apply_stage fo stage recent) stages s)) \<noteq> 0"
  by (rule fold_keeps) (simp_all add: stage_rng)

lemma open01_rng: "xs_state rng \<noteq> 0 \<Longrightarrow> xs_state (snd (next_open01_f32 fo rng)) \<noteq> 0"
  using next_u64_nonzero[of rng] by (simp add: next_open01_f32_def case_prod_beta)

lemma select_token_rng: "xs_state rng \<noteq> 0 \<Longrightarrow> xs_state (snd (select_token fo ls rng)) \<noteq> 0"
  using open01_rng[of rng fo]
  by (auto simp: select_token_def Let_def case_prod_beta split: list.splits option.splits)

lemma draw_candidate_rng: "xs_state rng \<noteq> 0 \<Longrightarrow> xs_state (snd (snd (draw_candidate fo cands mu tau eta rng))) \<noteq> 0"
  using open01_rng[of rng fo] by (auto simp: draw_candidate_def Let_def case_prod_beta)

lemma mirostat_rng: "xs_state rng \<noteq> 0 \<Longrightarrow> xs_state (snd (snd (mirostat_draw fo c ls mu rng))) \<noteq> 0"
  using draw_candidate_rng by (simp add: mirostat_draw_def sample_v1_def sample_v2_def Let_def)

lemma masked_logits_rng: "xs_state (sm_rng sm) \<noteq> 0 \<Longrightarrow> xs_state (snd (masked_logits fo sm logits recent)) \<noteq> 0"
  using stages_rng[of "(logits, sm_rng sm)"] by (simp add: masked_logits_def apply_stages_external_def case_prod_beta)

lemma advance_grammar_same [simp]:
  "sm_config (advance_grammar sm t) = sm_config sm" "sm_pre (advance_grammar sm t) = sm_pre sm"
  "sm_post (advance_grammar sm t) = sm_post sm" "sm_rng (advance_grammar sm t) = sm_rng sm"
  "sm_mu (advance_grammar sm t) = sm_mu sm" "sm_grammar sm = None \<Longrightarrow> sm_grammar (advance_grammar sm t) = None"
  by (simp_all add: advance_grammar_def split: option.splits sum.splits)

text \<open>A call changes the generator, the surprise and the grammar state only.\<close>

lemma try_sample_same:
  assumes "xs_state (sm_rng sm) \<noteq> 0"
  shows "sm_config (snd (try_sample fo sm logits recent)) = sm_config sm \<and>
    sm_pre (snd (try_sample fo sm logits recent)) = sm_pre sm \<and>
    sm_post (snd (try_sample fo sm logits recent)) = sm_post sm \<and>
    (sm_grammar sm = None \<longrightarrow> sm_grammar (snd (try_sample fo sm logits recent)) = None) \<and>
    xs_state (sm_rng (snd (try_sample fo sm logits recent))) \<noteq> 0"
proof -
  obtain ls rng where s: "masked_logits fo sm logits recent = (ls, rng)" by fastforce
  have rng: "xs_state rng \<noteq> 0" using masked_logits_rng[OF assms, of fo logits recent] by (simp add: s)
  obtain ls' rng' where p: "apply_stages_external fo (sm_post sm) recent (ls, rng) = (ls', rng')" by fastforce
  have rng': "xs_state rng' \<noteq> 0"
    using stages_rng[of "(ls, rng)" fo recent "ch_stages (sm_post sm)"] rng p by (simp add: apply_stages_external_def)
  obtain tok mu rng2 where m: "mirostat_draw fo (sm_config sm) (rescaled fo (sm_config sm) ls) (sm_mu sm) rng = (tok, mu, rng2)"
    by (metis prod.exhaust)
  have rng2: "xs_state rng2 \<noteq> 0" using mirostat_rng[OF rng] m by (metis snd_conv)
  obtain c rng3 where c: "select_token fo ls' rng' = (c, rng3)" by fastforce
  have rng3: "xs_state rng3 \<noteq> 0" using select_token_rng[OF rng', of fo ls'] by (simp add: c)
  show ?thesis
    using assms rng rng2 rng3
    by (simp add: try_sample_def sample_mirostat_def sample_standard_def s p m c Let_def split: sum.splits)
qed

fun samples ::
  "f32_ops \<Rightarrow> sampler \<Rightarrow> (f32 list \<times> u32 list) list \<Rightarrow> (sampling_error + u32) list \<times> sampler" where
  "samples fo sm [] = ([], sm)"
| "samples fo sm ((logits, recent) # calls) =
     (let (res, sm) = try_sample fo sm logits recent; (rs, sm) = samples fo sm calls in (res # rs, sm))"

lemma samples_same:
  assumes "xs_state (sm_rng sm) \<noteq> 0"
  shows "sm_config (snd (samples fo sm calls)) = sm_config sm \<and>
    sm_pre (snd (samples fo sm calls)) = sm_pre sm \<and> sm_post (snd (samples fo sm calls)) = sm_post sm \<and>
    (sm_grammar sm = None \<longrightarrow> sm_grammar (snd (samples fo sm calls)) = None) \<and>
    xs_state (sm_rng (snd (samples fo sm calls))) \<noteq> 0"
  using assms
proof (induction calls arbitrary: sm)
  case (Cons call calls)
  obtain logits recent where call: "call = (logits, recent)" by fastforce
  obtain res sm1 where t: "try_sample fo sm logits recent = (res, sm1)" by fastforce
  from try_sample_same[OF Cons.prems, of fo logits recent] have
    "sm_config sm1 = sm_config sm" "sm_pre sm1 = sm_pre sm" "sm_post sm1 = sm_post sm"
    "sm_grammar sm = None \<longrightarrow> sm_grammar sm1 = None" "xs_state (sm_rng sm1) \<noteq> 0" by (simp_all add: t)
  with Cons.IH[of sm1] show ?case by (simp add: call t case_prod_beta)
qed simp

lemma sampler_new_state: "xs_state (sm_rng (sampler_new fo fresh c)) \<noteq> 0"
  by (simp add: sampler_new_def xorshift_new_def)

lemma sampler_new_ok: "sampler_ok (sampler_new fo fresh c)"
  by (simp add: sampler_ok_def sampler_new_state) (simp add: sampler_new_def)

section \<open>The mask and the greedy choice\<close>

lemma mask_forbids:
  assumes "distinct (map fst vocab)" and "(t, bytes) \<in> set vocab" and t: "unat t < length ls"
    and "\<not> token_allowed st (is_complete st) eog t bytes"
    and "(t', bytes') \<in> set vocab" and t': "unat t' < length ls" and "f32_is_finite (ls ! unat t')"
    and "token_allowed st (is_complete st) eog t' bytes'"
  shows "f_dead (apply_grammar_mask ls st vocab eog ! unat t)"
proof -
  let ?r = "fold (mask_step st (is_complete st) eog) vocab (ls, None)"
  obtain ls' best where r: "?r = (ls', best)" by fastforce
  have len: "length ls' = length ls"
    using mask_fold_inv[OF mask_init, of ls st "is_complete st" eog vocab] by (simp add: mask_inv_def r)
  have "ls' ! unat t = NEG_INFINITY"
    using mask_fold_nth[OF assms(1,2), of "(ls, None)" st "is_complete st" eog] t assms(4) by (simp add: r)
  moreover have "ls' ! unat t' = ls ! unat t'"
    using mask_fold_nth[OF assms(1,5), of "(ls, None)" st "is_complete st" eog] t' assms(8) by (simp add: r)
  then have "\<not> list_all (\<lambda>v. \<not> f32_is_finite v) ls'"
    using t' assms(7) len by (metis list_all_length)
  ultimately show ?thesis by (auto simp: apply_grammar_mask_def r split: option.splits)
qed

section \<open>When every candidate is masked\<close>

text \<open>\<open>exp(0)\<close> is positive, and adding a zero or a NaN to a positive sum does not make it \<open><= 0\<close>.\<close>

definition f32_exp_laws :: "f32_ops \<Rightarrow> bool" where
  "f32_exp_laws fo \<longleftrightarrow>
     f_lt f_zero (f_exp fo (f_sub fo f_zero f_zero)) \<and>
     (\<forall>c e. f_lt f_zero e \<longrightarrow> f_eq c f_zero \<longrightarrow> \<not> f_le (f_add fo c e) f_zero) \<and>
     (\<forall>c z. f_null z \<longrightarrow> \<not> f_le c f_zero \<longrightarrow> \<not> f_le (f_add fo c z) f_zero)"

lemma all_banned_dead:
  assumes "\<And>i. i < length ls \<Longrightarrow> of_nat i \<in> set banned \<and> i < 2 ^ 32" and "v \<in> set (logit_bias_apply fo biases banned ls)"
  shows "f_dead v"
proof -
  obtain i where i: "i < length ls" "v = logit_bias_apply fo biases banned ls ! i"
    using assms(2) by (auto simp: in_set_conv_nth)
  have "unat (of_nat i :: u32) = i" using assms(1)[OF i(1)] by (simp add: unat_of_nat)
  with banned_dead[of "of_nat i" banned ls fo biases] assms(1)[OF i(1)] i show ?thesis by (simp add: dead_at_def)
qed

lemma typical_p_all_dead:
  assumes "f_lt p f_one" and "ls \<noteq> []" and "\<And>v. v \<in> set ls \<Longrightarrow> f_dead v"
  obtains rest where "typical_p_apply fo p ls = f_zero # rest" and "\<And>v. v \<in> set rest \<Longrightarrow> f_dead v"
proof -
  obtain keep where kept: "typical_p_apply fo p ls = ensure_at_least_one_finite (mask_unless keep ls)"
    using assms(1,2) by (auto simp: typical_p_apply_def Let_def f_lt_def f_le_def)
  have dead: "f_dead v" if "v \<in> set (mask_unless keep ls)" for v
    using that assms(3) by (auto simp: mask_unless_def in_set_enumerate_eq split: if_splits)
  then have "\<not> list_ex f32_is_finite (mask_unless keep ls)" by (auto simp: list_ex_iff dest: dead_not_finite)
  moreover obtain v rest where ls: "mask_unless keep ls = v # rest"
    using assms(2) by (metis length_0_conv list.exhaust mask_unless_nth(1))
  ultimately have "typical_p_apply fo p ls = f_zero # rest" by (simp add: kept ensure_at_least_one_finite_def)
  with dead show ?thesis by (intro that) (auto simp: ls)
qed

lemma select_only_first:
  assumes "f32_laws fo" and "f32_exp_laws fo" and dead: "\<And>v. v \<in> set rest \<Longrightarrow> f_dead v"
  shows "fst (select_token fo (f_zero # rest) rng) = Some 0"
proof -
  let ?e = "\<lambda>v. f_exp fo (f_sub fo v f_zero)"
  have max: "foldl f_max f_zero rest = f_zero"
    using dead
  proof (induction rest)
    case (Cons v rest)
    have "\<not> f_is_nan f_zero" by (simp add: f_is_nan_def)
    with Cons.prems have "f_max f_zero v = f_zero" using not_below_dead[of v f_zero]
      by (auto simp: f_max_def f_lt_def)
    with Cons show ?case by simp
  qed simp
  have "f_max NEG_INFINITY f_zero = f_zero" by (simp add: f_max_def f_is_nan_def f32_key_def NEG_INFINITY_def)
  then have logit_max: "logit_max (f_zero # rest) = f_zero" by (simp add: logit_max_def max)
  have fin: "f32_is_finite f_zero" by (simp add: f32_is_finite_def)
  have null: "f_null (?e v)" if "v \<in> set rest" for v
    using assms(1) dead[OF that] fin unfolding f32_laws_def by blast
  have pos: "f_lt f_zero (?e f_zero)" using assms(2) by (simp add: f32_exp_laws_def)
  have "\<not> f_le (foldl (f_add fo) c (map ?e rest)) f_zero" if "\<not> f_le c f_zero" for c
    using that null assms(2) by (induction rest arbitrary: c) (auto simp: f32_exp_laws_def)
  moreover have "\<not> f_le (f_add fo f_zero (?e f_zero)) f_zero"
    using assms(2) pos unfolding f32_exp_laws_def by (metis f_eq_def f_lt_def)
  ultimately have mass: "\<not> f_le (f_sum fo (exps_of fo (f_zero # rest))) f_zero"
    by (simp add: f_sum_def exps_of_def logit_max)
  have "filter (\<lambda>(i, e). f_lt f_zero e) (enumerate n (map ?e rest)) = []" for n
    using null positive_not_null by (fastforce simp: filter_empty_conv in_set_enumerate_eq)
  with pos have "filter (\<lambda>(i, e). f_lt f_zero e) (enumerate 0 (exps_of fo (f_zero # rest))) = [(0, ?e f_zero)]"
    by (simp add: exps_of_def logit_max)
  with mass show ?thesis by (simp add: select_token_def logit_max fin Let_def)
qed

section \<open>What the greedy choice tells\<close>

lemma allowed_can_advance:
  assumes "token_allowed st (is_complete st) eog t bytes"
  shows "is_complete st \<and> t \<in> set eog \<or> (\<exists>st'. grammar_advance bytes st = Inr st')"
proof (cases "is_complete st \<and> t \<in> set eog \<or> bytes = []")
  case False
  then have "simulate_bytes (gr_rules (gs_grammar st)) MAX_DEPTH (gs_continuation st) bytes = Inr True"
    using assms by (auto simp: token_allowed_def allows_token_checked_def split: sum.splits if_splits)
  from allowed_advances(1)[OF this] show ?thesis by (auto simp: grammar_advance_def)
qed (auto simp: grammar_advance_def)

lemma greedy_sample:
  assumes "is_greedy (sm_config sm)" and "sc_mirostat (sm_config sm) \<notin> {1, 2}"
    and "try_sample fo sm logits recent = (Inr t, sm')"
  obtains rng where "argmax (fst (masked_logits fo sm logits recent)) = Some t"
    and "sm' = advance_grammar (sm\<lparr>sm_rng := rng\<rparr>) t"
  using assms that
  by (auto simp: try_sample_def sample_standard_def case_prod_beta ok_or_def split: if_splits sum.splits option.splits)

text \<open>In a table sorted by distinct ids the search finds every entry: the range always holds its index.\<close>

lemma search_base_index:
  assumes "sorted_wrt (<) (map fst xs)" and "i < length xs"
  shows "base \<le> i \<Longrightarrow> i < base + n \<Longrightarrow> base + n \<le> length xs \<Longrightarrow> search_base xs (fst (xs ! i)) base n = i"
proof (induction n arbitrary: base rule: less_induct)
  case (less n)
  show ?case
  proof (cases "n \<le> 1")
    case False
    let ?mid = "base + n div 2"
    have half: "0 < n div 2" "n div 2 < n" and mid: "?mid < length xs" using False less.prems by linarith+
    have "fst (xs ! i) < fst (xs ! ?mid) \<longleftrightarrow> i < ?mid"
      using sorted_wrt_nth_less[OF assms(1), of i ?mid] sorted_wrt_nth_less[OF assms(1), of ?mid i] assms(2) mid
      by (cases i ?mid rule: linorder_cases) auto
    then have "search_base xs (fst (xs ! i)) base n =
        search_base xs (fst (xs ! i)) (if i < ?mid then base else ?mid) (n - n div 2)"
      using False by (subst search_base.simps) (simp add: Let_def)
    also have "\<dots> = i"
      using half less.prems by (intro less.IH) auto
    finally show ?thesis .
  qed (use less.prems in \<open>simp add: search_base.simps\<close>)
qed

lemma binary_search_finds:
  assumes "sorted_wrt (<) (map fst xs)" and "i < length xs"
  shows "binary_search_by_key xs (fst (xs ! i)) = Some i"
  using search_base_index[OF assms, of 0 "length xs"] assms(2) by (auto simp: binary_search_by_key_def)

lemma greedy_step_state:
  assumes "is_greedy (sm_config sm)" and "sc_mirostat (sm_config sm) \<notin> {1, 2}" and "sm_grammar sm = Some st"
    and "sc_token_vocab (sm_config sm) = Some vocab" and "sorted_wrt (<) (map fst vocab)"
    and "try_sample fo sm logits recent = (Inr t, sm')" and "(t, bytes) \<in> set vocab"
    and "grammar_advance bytes st = Inr st'"
  shows "sm_grammar sm' = Some st'"
proof -
  obtain rng where "sm' = advance_grammar (sm\<lparr>sm_rng := rng\<rparr>) t" using greedy_sample[OF assms(1,2,6)] by metis
  moreover obtain i where i: "i < length vocab" "vocab ! i = (t, bytes)" using assms(7) by (metis in_set_conv_nth)
  moreover have "binary_search_by_key vocab t = Some i" using binary_search_finds[OF assms(5) i(1)] by (simp add: i(2))
  ultimately show ?thesis by (simp add: advance_grammar_def assms(3,4,8))
qed

lemma greedy_allowed:
  assumes "is_greedy (sm_config sm)" and "sc_mirostat (sm_config sm) \<notin> {1, 2}" and "sm_grammar sm = Some st"
    and "sc_token_vocab (sm_config sm) = Some vocab" and "distinct (map fst vocab)"
    and "length logits \<le> 2 ^ 32" and tried: "try_sample fo sm logits recent = (Inr t, sm')" and t: "(t, bytes) \<in> set vocab"
    and t': "(t', bytes') \<in> set vocab" "unat t' < length logits"
      "f32_is_finite (fst (apply_stages_external fo (sm_pre sm) recent (logits, sm_rng sm)) ! unat t')"
      "token_allowed st (is_complete st) (sc_eog_token_ids (sm_config sm)) t' bytes'"
  shows "token_allowed st (is_complete st) (sc_eog_token_ids (sm_config sm)) t bytes"
proof (rule ccontr)
  let ?eog = "sc_eog_token_ids (sm_config sm)"
  assume no: "\<not> token_allowed st (is_complete st) ?eog t bytes"
  obtain ls rng where s: "apply_stages_external fo (sm_pre sm) recent (logits, sm_rng sm) = (ls, rng)" by fastforce
  have len: "length ls = length logits"
    using stages_length[of fo recent "ch_stages (sm_pre sm)" "(logits, sm_rng sm)"] s
    by (simp add: apply_stages_external_def del: stages_length)
  have masked: "fst (masked_logits fo sm logits recent) = apply_grammar_mask ls st vocab ?eog"
    by (simp add: masked_logits_def s assms(3,4))
  obtain r where "argmax (apply_grammar_mask ls st vocab ?eog) = Some t"
    using greedy_sample[OF assms(1,2) tried] masked by metis
  then obtain i where i: "i < length ls" "t = of_nat i" "\<not> f_dead (apply_grammar_mask ls st vocab ?eog ! i)"
    using argmax_spec[of "apply_grammar_mask ls st vocab ?eog"] by auto
  then have "unat t = i" using assms(6) len by (simp add: unat_of_nat)
  with mask_forbids[OF assms(5) t _ no t'(1) _ _ t'(4), of ls] i t'(2,3) len s show False by simp
qed

lemma typical_p_sample:
  assumes "f32_laws fo" and "f32_exp_laws fo" and "f_lt p f_one" and "logits \<noteq> []" and "length logits < 2 ^ 32"
    and c: "c = greedy_config\<lparr>sc_temperature := f_one, sc_top_k := 0, sc_typical_p := p,
           sc_banned_tokens := map of_nat [0..<length logits]\<rparr>"
  shows "fst (try_sample fo (sampler_new fo fresh c) logits recent) = Inr 0"
proof -
  let ?banned = "map of_nat [0..<length logits] :: u32 list"
  let ?ls = "logit_bias_apply fo [] ?banned logits"
  let ?rng = "xorshift_new fresh"
  have one: "\<not> f_is_nan f_one" "\<not> f_is_nan f_zero" "f_eq f_one f_one" "f_eq f_zero f_zero" "\<not> f_lt f_one f_one"
    "\<not> f_lt f_zero f_zero" "\<not> f_le f_one f_zero"
    by (simp_all add: f_is_nan_def f_eq_def f_lt_def f_le_def f32_key_def)
  have conf: "sm_config (sampler_new fo fresh c) = c" by (simp add: sampler_new_def)
  have pre: "ch_stages (sm_pre (sampler_new fo fresh c)) = [LogitBias [] ?banned]"
    and post: "ch_stages (sm_post (sampler_new fo fresh c)) = [TypicalPStage p]"
    using assms(3,4) one
    by (simp_all add: c greedy_config_def sampler_config_default_def sampler_new_def split_from_config_def
        push_pre_grammar_stages_def push_post_grammar_stages_def Let_def)
  have "?ls \<noteq> []" using assms(4) by (metis length_0_conv logit_bias_length)
  have bound: "of_nat i \<in> set ?banned \<and> i < 2 ^ 32" if "i < length logits" for i
    using that assms(5) by auto
  have dead: "f_dead v" if "v \<in> set ?ls" for v using all_banned_dead[OF bound that] by simp
  obtain rest where rest: "typical_p_apply fo p ?ls = f_zero # rest" "\<And>v. v \<in> set rest \<Longrightarrow> f_dead v"
    using typical_p_all_dead[OF assms(3) \<open>?ls \<noteq> []\<close> dead] by metis
  have masked: "masked_logits fo (sampler_new fo fresh c) logits recent = (?ls, ?rng)"
    by (simp add: masked_logits_def apply_stages_external_def pre)
      (simp add: c sampler_new_def greedy_config_def sampler_config_default_def)
  have "\<not> is_greedy c" using one by (simp add: c is_greedy_def)
  moreover have "sc_mirostat c = 0" by (simp add: c greedy_config_def sampler_config_default_def)
  ultimately show ?thesis
    using select_only_first[OF assms(1,2) rest(2)] assms(4)
    by (simp add: try_sample_def sample_standard_def conf masked apply_stages_external_def post rest(1)
        case_prod_beta ok_or_def)
qed

section \<open>An arithmetic for examples\<close>

text \<open>A crude arithmetic that satisfies the laws: every operation keeps its first argument where it may.\<close>

definition crude_ops :: f32_ops where
  "crude_ops = \<lparr>f_add = (\<lambda>a b. if f_null b then a else b), f_sub = (\<lambda>a b. a), f_mul = (\<lambda>a b. a),
     f_div = (\<lambda>a b. a), f_powf = (\<lambda>a b. a), f_exp = (\<lambda>x. if f_dead x then f_zero else f_one), f_ln = (\<lambda>x. x),
     f_log2 = (\<lambda>x. x), f_round = (\<lambda>x. x), f_of_nat = (\<lambda>n. f_one), f_to_nat = (\<lambda>x. 1),
     f_sort = (\<lambda>cmp idx. idx), f_select = (\<lambda>n cmp idx. idx)\<rparr>"

lemmas f32_eval = f_is_nan_def f_lt_def f_le_def f_eq_def f_max_def f32_key_def NEG_INFINITY_def f32_is_finite_def

lemma crude_laws: "f32_laws crude_ops"
  by (auto simp: f32_laws_def crude_ops_def f_null_def f_lt_def f_le_def f32_key_def f_is_nan_def split: if_splits)

lemma crude_exp_laws: "f32_exp_laws crude_ops"
  by (auto simp: f32_exp_laws_def crude_ops_def f_null_def f_dead_def f32_eval split: if_splits)

end
