(* ===== verification/Smp_Properties.thy ===== *)
theory Smp_Properties
  imports Smp_Safety "HOL-Library.Multiset"
begin

text \<open>
  The properties of the sampler.
\<close>

text \<open>C14: A banned token is never sampled: with a non-negative repetition penalty, no Mirostat and none of
  the stages that can bring a masked logit back, the token is an index of the logits and is not
  banned, except for the fallback of the stochastic draw, which is the last index.\<close>

theorem banned_token_never_sampled:
  assumes "f32_laws fo" and "sampler_ok sm" and "sc_mirostat (sm_config sm) \<notin> {1, 2}"
    and "no_revival (sm_config sm)" and "\<not> f_lt (sc_repetition_penalty (sm_config sm)) f_zero"
    and "length logits \<le> 2 ^ 32" and "try_sample fo sm logits recent = (Inr t, sm')"
  shows "unat t < length logits \<and> (t \<in> set (sc_banned_tokens (sm_config sm)) \<longrightarrow>
    \<not> is_greedy (sm_config sm) \<and> unat t = length logits - 1)"
proof -
  obtain i where i: "i < length logits" "t = of_nat i"
    "f_dead (fst (masked_logits fo sm logits recent) ! i) \<longrightarrow> \<not> is_greedy (sm_config sm) \<and> i = length logits - 1"
    using sampled_live[OF assms(1-4,7)] by blast
  moreover have "unat t = i" using i assms(6) by (simp add: unat_of_nat)
  ultimately show ?thesis
    using masked_logits_banned[OF assms(1,2,5), of t logits recent] by (auto simp: dead_at_def)
qed

definition banning_config :: sampler_config where
  "banning_config = greedy_config\<lparr>sc_banned_tokens := [1]\<rparr>"

lemmas sampler_eval = banning_config_def greedy_config_def sampler_config_default_def sampler_new_def
  split_from_config_def push_pre_grammar_stages_def push_post_grammar_stages_def push_if_def chain_push_def
  seeded_chain_def chain_with_seed_def chain_new_def try_sample_def sample_standard_def masked_logits_def
  apply_stages_external_def is_greedy_def advance_grammar_def ok_or_def argmax_def argmax_step_def
  logit_bias_apply_def on_logit_def

lemma banning_run: "try_sample crude_ops (sampler_new crude_ops 0 banning_config) [f_zero, f_one, f_half] [] =
    (Inr 2, sampler_new crude_ops 0 banning_config)"
  by (simp add: sampler_eval f32_eval)

lemma banned_token_never_sampled_witness:
  "unat (2 :: u32) < length [f_zero, f_one, f_half] \<and> \<not> ((2 :: u32) \<in> set (sc_banned_tokens banning_config) \<and> is_greedy banning_config)"
proof -
  have conf: "sm_config (sampler_new crude_ops 0 banning_config) = banning_config" by (simp add: sampler_new_def)
  have "sc_mirostat banning_config \<notin> {1, 2}" "no_revival banning_config"
    "\<not> f_lt (sc_repetition_penalty banning_config) f_zero"
    by (simp_all add: no_revival_def sampler_eval f32_eval)
  then show ?thesis
    using banned_token_never_sampled[OF crude_laws sampler_new_ok, of crude_ops 0 banning_config "[f_zero, f_one, f_half]" "[]" 2]
      banning_run by (simp add: conf)
qed

text \<open>C31: The greedy choice obeys the grammar: with a vocabulary table sorted by distinct ids, as its binary
  search requires, and whenever some allowed entry has a finite logit, the
  token chosen among the vocabulary is an allowed one, and, unless it ends the generation, the
  state of the grammar advances over its bytes.\<close>

theorem greedy_obeys_grammar:
  assumes "is_greedy (sm_config sm)" and "sc_mirostat (sm_config sm) \<notin> {1, 2}" and "sm_grammar sm = Some st"
    and "sc_token_vocab (sm_config sm) = Some vocab" and "sorted_wrt (<) (map fst vocab)"
    and "length logits \<le> 2 ^ 32" and "try_sample fo sm logits recent = (Inr t, sm')" and "(t, bytes) \<in> set vocab"
    and "(t', bytes') \<in> set vocab" and "unat t' < length logits"
    and "f32_is_finite (fst (apply_stages_external fo (sm_pre sm) recent (logits, sm_rng sm)) ! unat t')"
    and "token_allowed st (is_complete st) (sc_eog_token_ids (sm_config sm)) t' bytes'"
  shows "token_allowed st (is_complete st) (sc_eog_token_ids (sm_config sm)) t bytes \<and>
    (is_complete st \<and> t \<in> set (sc_eog_token_ids (sm_config sm)) \<or>
     (\<exists>st'. grammar_advance bytes st = Inr st' \<and> sm_grammar sm' = Some st'))"
proof -
  have "distinct (map fst vocab)" using assms(5) by (simp add: strict_sorted_iff)
  note allowed = greedy_allowed[OF assms(1-4) this assms(6-12)]
  from allowed_can_advance[OF this] show ?thesis
    using allowed greedy_step_state[OF assms(1-5,7,8)] by blast
qed

text \<open>The letter \<open>a\<close> and the letter \<open>b\<close>, of which the grammar \<open>root ::= "b"\<close> allows the second.\<close>

definition letter_grammar :: grammar where
  "letter_grammar = \<lparr>gr_rules = [(''root'', Literal [98])], gr_root = ''root'', gr_source = []\<rparr>"

definition letter_config :: sampler_config where
  "letter_config = greedy_config\<lparr>sc_token_vocab := Some [(0, [97]), (1, [98])], sc_grammar := Some letter_grammar\<rparr>"

lemmas letter_eval = letter_grammar_def grammar_state_new_def allows_token_checked_def grammar_advance_def
  is_complete_def MAX_DEPTH_def MAX_SIM_BYTES_def push_literal_def eval_nat_numeral

abbreviation letter_state :: grammar_state where "letter_state \<equiv> grammar_state_new letter_grammar"

lemma letter_facts: "is_complete letter_state = False"
    "allows_token_checked letter_state [97] = Inr False" "allows_token_checked letter_state [98] = Inr True"
  by (simp_all add: letter_eval)

lemma letter_allowed: "token_allowed letter_state False [] 0 [97] = False" "token_allowed letter_state False [] 1 [98] = True"
  by (simp_all add: token_allowed_def letter_facts)

lemma letter_mask: "apply_grammar_mask [f_one, f_half] letter_state [(0, [97]), (1, [98])] [] = [NEG_INFINITY, f_half]"
  by (simp add: apply_grammar_mask_def letter_facts letter_allowed f32_is_finite_def f32_gt_def f32_key_def)

abbreviation letter_sampler :: sampler where "letter_sampler \<equiv> sampler_new crude_ops 0 letter_config"

lemma letter_sampler_parts: "sm_config letter_sampler = letter_config" "sm_grammar letter_sampler = Some letter_state"
  "apply_stages_external crude_ops (sm_pre letter_sampler) [] ([f_one, f_half], sm_rng letter_sampler) =
     ([f_one, f_half], sm_rng letter_sampler)"
  by (simp_all add: letter_config_def sampler_eval f32_eval)

lemma letter_config_parts: "is_greedy letter_config" "sc_mirostat letter_config = 0" "sc_eog_token_ids letter_config = []"
  "sc_token_vocab letter_config = Some [(0, [97]), (1, [98])]"
  by (simp_all add: letter_config_def greedy_config_def sampler_config_default_def is_greedy_def)

lemma letter_run: "\<exists>sm'. try_sample crude_ops letter_sampler [f_one, f_half] [] = (Inr 1, sm')"
proof -
  have "masked_logits crude_ops letter_sampler [f_one, f_half] [] = ([NEG_INFINITY, f_half], sm_rng letter_sampler)"
    by (simp add: masked_logits_def letter_sampler_parts letter_config_parts letter_mask)
  moreover have "argmax [NEG_INFINITY, f_half] = Some 1"
    by (simp add: argmax_def argmax_step_def f32_eval)
  ultimately show ?thesis
    by (simp add: try_sample_def sample_standard_def letter_sampler_parts letter_config_parts ok_or_def)
qed

lemma greedy_obeys_grammar_witness: "token_allowed letter_state False [] 1 [98]"
proof -
  obtain sm' where run: "try_sample crude_ops letter_sampler [f_one, f_half] [] = (Inr 1, sm')" using letter_run by blast
  show ?thesis
    using greedy_obeys_grammar[OF _ _ letter_sampler_parts(2) _ _ _ run, of "[(0, [97]), (1, [98])]" "[98]" 1 "[98]"]
    by (simp add: letter_sampler_parts letter_config_parts letter_facts letter_allowed f32_is_finite_def)
qed

text \<open>A resumed sampler continues the stream: whatever the configuration without a grammar and whatever
  was sampled before, a new sampler on which the saved generator state and surprise are restored
  returns the same tokens from there on.\<close>

theorem resumed_sampler_continues:
  assumes "sc_grammar c = None" and "sm = snd (samples fo (sampler_new fo fresh c) calls)"
  shows "samples fo (restore_rng_state (rng_state sm) (sm_mu sm) (sampler_new fo fresh' c)) later = samples fo sm later"
proof -
  let ?new = "sampler_new fo fresh c" and ?new' = "sampler_new fo fresh' c"
  have start: "xs_state (sm_rng ?new) \<noteq> 0" by (rule sampler_new_state)
  have "sm_grammar ?new = None" using assms(1) by (simp add: sampler_new_def)
  then have same: "sm_config sm = c" "sm_pre sm = sm_pre ?new" "sm_post sm = sm_post ?new"
    "sm_grammar sm = None" "xs_state (sm_rng sm) \<noteq> 0"
    using samples_same[OF start, of fo calls] assms(2) by (simp_all add: sampler_new_def)
  then have "from_state_value (rng_state sm) = sm_rng sm"
    by (simp add: from_state_value_def rng_state_def state_value_def)
  then have "restore_rng_state (rng_state sm) (sm_mu sm) ?new' = sm"
    using same assms(1) by (simp add: restore_rng_state_def sampler_new_def)
  then show ?thesis by simp
qed

lemma resumed_sampler_continues_witness:
  "samples crude_ops (restore_rng_state (rng_state (sampler_new crude_ops 7 greedy_config))
       (sm_mu (sampler_new crude_ops 7 greedy_config)) (sampler_new crude_ops 8 greedy_config)) [([f_zero, f_one], [])] =
   samples crude_ops (sampler_new crude_ops 7 greedy_config) [([f_zero, f_one], [])]"
  by (rule resumed_sampler_continues[where calls = "[]" and fresh = 7])
     (simp_all add: greedy_config_def sampler_config_default_def)

text \<open>C35: Locally typical sampling brings a banned token back: with every token of the vocabulary banned and
  this stage configured, a call returns token 0 instead of the error.\<close>

theorem typical_p_revives_banned:
  assumes "f32_laws fo" and "f32_exp_laws fo" and "f_lt p f_one" and "logits \<noteq> []" and "length logits < 2 ^ 32"
    and "c = greedy_config\<lparr>sc_temperature := f_one, sc_top_k := 0, sc_typical_p := p,
           sc_banned_tokens := map of_nat [0..<length logits]\<rparr>"
  shows "fst (try_sample fo (sampler_new fo fresh c) logits recent) = Inr 0"
  using assms by (rule typical_p_sample)

lemma typical_p_revives_banned_witness:
  "fst (try_sample crude_ops (sampler_new crude_ops 0 (greedy_config\<lparr>sc_temperature := f_one, sc_top_k := 0,
     sc_typical_p := f_half, sc_banned_tokens := [0, 1]\<rparr>)) [f_one, f_half] []) = Inr 0"
  by (rule typical_p_revives_banned[OF crude_laws crude_exp_laws, where p = f_half])
     (simp_all add: f32_eval upt_rec)

text \<open>Top-K keeps exactly the \<open>k\<close> greatest logits: \<open>k\<close> positions keep their logit, all others are
  masked, and no masked position had a greater logit than a kept one. The partial sort is
  required to return a permutation that is partitioned at \<open>k\<close>.\<close>

theorem top_k_keeps_the_greatest:
  assumes "0 < k" and "k < length ls"
    and "idx = f_select fo (k - 1) (\<lambda>a b. cmp_or_equal (ls ! b) (ls ! a)) [0..<length ls]"
    and "mset idx = mset [0..<length ls]"
    and "\<And>i j. i < k \<Longrightarrow> k \<le> j \<Longrightarrow> j < length ls \<Longrightarrow> cmp_or_equal (ls ! (idx ! j)) (ls ! (idx ! i)) \<noteq> Greater"
  shows "\<exists>K. card K = k \<and> K \<subseteq> {..<length ls} \<and>
    (\<forall>i < length ls. top_k_apply fo k ls ! i = (if i \<in> K then ls ! i else NEG_INFINITY)) \<and>
    (\<forall>i \<in> K. \<forall>j < length ls. j \<in> K \<or> \<not> f_lt (ls ! i) (ls ! j))"
proof -
  have dist: "distinct idx" and idx: "set idx = {..<length ls}" and len: "length idx = length ls"
    using mset_eq_imp_distinct_iff[OF assms(4)] mset_eq_setD[OF assms(4)] mset_eq_length[OF assms(4)]
    by (simp_all add: atLeast0LessThan)
  let ?K = "set (take k idx)"
  have "card ?K = k" using dist len assms(2) by (simp add: distinct_card)
  moreover have "?K \<subseteq> {..<length ls}" using idx set_take_subset by fastforce
  moreover have "top_k_apply fo k ls ! i = (if i \<in> ?K then ls ! i else NEG_INFINITY)" if "i < length ls" for i
    using assms(1,2) that by (simp add: top_k_apply_def assms(3))
  moreover have "\<not> f_lt (ls ! i) (ls ! j)" if "i \<in> ?K" "j < length ls" "j \<notin> ?K" for i j
  proof -
    from that(1) obtain a where "a < length (take k idx)" "take k idx ! a = i" by (meson in_set_conv_nth)
    then have a: "a < k" "i = idx ! a" by simp_all
    have "j \<in> set idx" using that(2) idx by simp
    then obtain b where b: "b < length ls" "j = idx ! b" using len unfolding in_set_conv_nth by auto
    have "b < k \<Longrightarrow> j \<in> ?K" using b(2) len assms(2) nth_mem[of b "take k idx"] by simp
    with that(3) have "k \<le> b" by (meson not_le)
    have "cmp_or_equal (ls ! j) (ls ! i) \<noteq> Greater" using assms(5)[OF a(1) \<open>k \<le> b\<close> b(1)] a(2) b(2) by simp
    then show ?thesis unfolding cmp_or_equal_def using f_lt_irrefl f_lt_trans by metis
  qed
  ultimately show ?thesis by blast
qed

lemma top_k_keeps_the_greatest_witness:
  "\<exists>K. card K = 1 \<and> K \<subseteq> {..<length [f_one, f_zero]} \<and>
    (\<forall>i < length [f_one, f_zero]. top_k_apply crude_ops 1 [f_one, f_zero] ! i = (if i \<in> K then [f_one, f_zero] ! i else NEG_INFINITY)) \<and>
    (\<forall>i \<in> K. \<forall>j < length [f_one, f_zero]. j \<in> K \<or> \<not> f_lt ([f_one, f_zero] ! i) ([f_one, f_zero] ! j))"
  by (rule top_k_keeps_the_greatest[where idx = "[0, 1]"])
     (auto simp: crude_ops_def upt_rec cmp_or_equal_def f32_eval less_Suc_eq numeral_2_eq_2)

end
