(* ===== verification/Dec_Utf8.thy ===== *)
theory Dec_Utf8
  imports Tok_Text
begin

text \<open>
  \<open>Utf8StreamDecoder\<close> of \<open>oxillama-runtime/src/stream_decode.rs\<close>, with the parts of the standard
  library it rests on: \<open>core::str::from_utf8\<close> with the two numbers of its error, and
  \<open>String::from_utf8_lossy\<close>.
\<close>

section \<open>The standard library\<close>

text \<open>What stands at the front of a byte string: a character with so many bytes after its first, an
  invalid sequence of so many bytes, or the beginning of a character that is cut off.\<close>

datatype utf8_item = Whole nat | Bad nat | Cut

definition utf8_item :: "u8 \<Rightarrow> u8 list \<Rightarrow> utf8_item" where
  "utf8_item b bs =
     (if b \<le> 0x7F then Whole 0
      else if 0xC2 \<le> b \<and> b \<le> 0xDF
      then (case bs of [] \<Rightarrow> Cut | c # cs \<Rightarrow> if utf8_cont c then Whole 1 else Bad 1)
      else if 0xE0 \<le> b \<and> b \<le> 0xEF
      then (case bs of [] \<Rightarrow> Cut | c # cs \<Rightarrow>
              if \<not> utf8_three b c then Bad 1
              else case cs of [] \<Rightarrow> Cut | d # ds \<Rightarrow> if utf8_cont d then Whole 2 else Bad 2)
      else if 0xF0 \<le> b \<and> b \<le> 0xF4
      then (case bs of [] \<Rightarrow> Cut | c # cs \<Rightarrow>
              if \<not> utf8_four b c then Bad 1
              else case cs of [] \<Rightarrow> Cut | d # ds \<Rightarrow>
                if \<not> utf8_cont d then Bad 2
                else case ds of [] \<Rightarrow> Cut | e # es \<Rightarrow> if utf8_cont e then Whole 3 else Bad 3)
      else Bad 1)"

text \<open>\<open>Err\<close> of \<open>from_utf8\<close>: \<open>valid_up_to\<close>, and \<open>error_len\<close>, which is \<open>None\<close> at a cut character.\<close>

function utf8_error :: "u8 list \<Rightarrow> nat \<Rightarrow> (nat \<times> nat option) option" where
  "utf8_error [] k = None"
| "utf8_error (b # bs) k =
     (case utf8_item b bs of
        Whole n \<Rightarrow> utf8_error (drop n bs) (k + 1 + n)
      | Bad n \<Rightarrow> Some (k, Some n)
      | Cut \<Rightarrow> Some (k, None))"
  by pat_completeness auto
termination by (relation "measure (length \<circ> fst)") auto

definition replacement :: utf8 where
  "replacement = [0xEF, 0xBF, 0xBD]"

function from_utf8_lossy :: "u8 list \<Rightarrow> utf8" where
  "from_utf8_lossy [] = []"
| "from_utf8_lossy (b # bs) =
     (case utf8_item b bs of
        Whole n \<Rightarrow> b # take n bs @ from_utf8_lossy (drop n bs)
      | Bad n \<Rightarrow> replacement @ from_utf8_lossy (drop (n - 1) bs)
      | Cut \<Rightarrow> replacement)"
  by pat_completeness auto
termination by (relation "measure length") auto

declare utf8_error.simps(2) [simp del] and from_utf8_lossy.simps(2) [simp del]

lemma utf8_item_Bad_pos: "utf8_item b bs = Bad n \<Longrightarrow> 0 < n"
  by (auto simp: utf8_item_def split: if_splits list.splits)

lemma utf8_error_Bad: "utf8_error bs k = Some (v, Some n) \<Longrightarrow> 0 < n"
  by (induction bs k rule: utf8_error.induct)
    (auto simp: utf8_error.simps(2) dest: utf8_item_Bad_pos split: utf8_item.splits)

section \<open>The decoder\<close>

type_synonym utf8_decoder = "u8 list"

text \<open>The loop of \<open>push\<close> over the bytes not yet consumed: the text it adds and the bytes it leaves.
  The second check of the prefix that was found valid cannot fail.\<close>

function push_loop :: "u8 list \<Rightarrow> nat \<Rightarrow> utf8 \<Rightarrow> utf8 \<times> nat" where
  "push_loop pending consumed out =
     (if \<not> consumed < length pending then (out, consumed)
      else case utf8_error (drop consumed pending) 0 of
        None \<Rightarrow> (out @ drop consumed pending, length pending)
      | Some (valid_up_to, error_len) \<Rightarrow>
          let valid = take valid_up_to (drop consumed pending);
              out = (if valid_up_to > 0 then out @ valid else out)
          in if valid_up_to > 0 \<and> utf8_error valid 0 \<noteq> None then (out, consumed)
             else case error_len of
               Some bad \<Rightarrow> push_loop pending (consumed + (valid_up_to + bad)) (out @ replacement)
             | None \<Rightarrow> (out, consumed + valid_up_to))"
  by pat_completeness auto
termination
  by (relation "measure (\<lambda>(pending, consumed, out). length pending - consumed)") (auto dest: utf8_error_Bad)

declare push_loop.simps [simp del]

definition utf8_push :: "utf8_decoder \<Rightarrow> u8 list \<Rightarrow> utf8 \<times> utf8_decoder" where
  "utf8_push pending bytes =
     (if bytes = [] \<and> pending = [] then ([], pending)
      else let pending = pending @ bytes; (out, consumed) = push_loop pending 0 [] in (out, drop consumed pending))"

definition has_pending :: "utf8_decoder \<Rightarrow> bool" where
  "has_pending pending \<longleftrightarrow> pending \<noteq> []"

definition utf8_finish :: "utf8_decoder \<Rightarrow> utf8 \<times> utf8_decoder" where
  "utf8_finish pending = (if pending = [] then ([], pending) else (from_utf8_lossy pending, []))"

section \<open>The text that is settled, and the bytes that are not\<close>

definition behind :: "utf8 \<Rightarrow> utf8 \<times> u8 list \<Rightarrow> utf8 \<times> u8 list" where
  "behind t p = (t @ fst p, snd p)"

lemma behind_simps [simp]:
  "fst (behind t p) = t @ fst p" "snd (behind t p) = snd p" "behind s (behind t p) = behind (s @ t) p"
  "behind t (out, rest) = (t @ out, rest)" "behind [] p = p"
  by (simp_all add: behind_def)

function settle :: "u8 list \<Rightarrow> utf8 \<times> u8 list" where
  "settle [] = ([], [])"
| "settle (b # bs) =
     (case utf8_item b bs of
        Whole n \<Rightarrow> behind (b # take n bs) (settle (drop n bs))
      | Bad n \<Rightarrow> behind replacement (settle (drop (n - 1) bs))
      | Cut \<Rightarrow> ([], b # bs))"
  by pat_completeness auto
termination by (relation "measure length") auto

declare settle.simps(2) [simp del]

lemma utf8_item_append:
  "utf8_item b bs = Whole n \<Longrightarrow> utf8_item b (bs @ cs) = Whole n \<and> n \<le> length bs"
  "utf8_item b bs = Bad n \<Longrightarrow> utf8_item b (bs @ cs) = Bad n \<and> n - 1 \<le> length bs"
  by (auto simp: utf8_item_def split: if_splits list.splits)

lemma utf8_item_take: "utf8_item b bs = Whole n \<Longrightarrow> n \<le> k \<Longrightarrow> utf8_item b (take k bs) = Whole n"
  by (auto simp: utf8_item_def take_Cons' split: if_splits list.splits)

lemma settle_append: "settle (xs @ ys) = behind (fst (settle xs)) (settle (snd (settle xs) @ ys))"
proof (induction xs rule: settle.induct)
  case (2 b bs)
  show ?case
  proof (cases "utf8_item b bs")
    case (Whole n)
    then show ?thesis using 2(1)[OF Whole] utf8_item_append(1)[OF Whole, of ys] by (simp add: settle.simps(2))
  next
    case (Bad n)
    then have "n - Suc (length bs) = 0" using utf8_item_append(2)[OF Bad, of "[]"] by simp
    then show ?thesis using Bad 2(2)[OF Bad] utf8_item_append(2)[OF Bad, of ys] by (simp add: settle.simps(2))
  qed (simp add: settle.simps(2))
qed simp

lemma lossy_settle: "from_utf8_lossy bs = fst (settle bs) @ (if snd (settle bs) = [] then [] else replacement)"
  by (induction bs rule: settle.induct)
    (auto simp: settle.simps(2) from_utf8_lossy.simps(2) split: utf8_item.splits)

lemma settle_rest: "settle (snd (settle bs)) = ([], snd (settle bs))"
  by (induction bs rule: settle.induct) (auto simp: settle.simps(2) split: utf8_item.splits)

lemma settle_rest_length: "length (snd (settle bs)) \<le> length bs"
  by (induction bs rule: settle.induct) (auto simp: settle.simps(2) split: utf8_item.splits)

text \<open>\<open>from_utf8\<close> and the settled text agree up to the first error.\<close>

lemma utf8_error_ge: "utf8_error bs k = Some (u, len) \<Longrightarrow> k \<le> u"
  by (induction bs k rule: utf8_error.induct) (fastforce simp: utf8_error.simps(2) split: utf8_item.splits)+

lemma settle_valid: "utf8_error bs k = None \<Longrightarrow> settle bs = (bs, [])"
proof (induction bs k rule: utf8_error.induct)
  case (2 b bs k)
  then show ?case by (auto simp: utf8_error.simps(2) settle.simps(2) split: utf8_item.splits)
qed simp

lemma settle_error:
  "utf8_error bs k = Some (k + v, len) \<Longrightarrow> v \<le> length bs \<and> utf8_error (take v bs) j = None \<and>
     (case len of None \<Rightarrow> settle bs = (take v bs, drop v bs)
      | Some n \<Rightarrow> v + n \<le> length bs \<and> settle bs = behind (take v bs @ replacement) (settle (drop (v + n) bs)))"
proof (induction bs k arbitrary: v j rule: utf8_error.induct)
  case (2 b bs k)
  show ?case
  proof (cases "utf8_item b bs")
    case (Whole n)
    then have e: "utf8_error (drop n bs) (k + 1 + n) = Some (k + v, len)" and n: "n \<le> length bs"
      using 2(2) utf8_item_append(1)[OF Whole] by (simp_all add: utf8_error.simps(2))
    obtain w where "k + v = k + 1 + n + w" using utf8_error_ge[OF e] le_Suc_ex by blast
    then have w: "v = Suc (n + w)" by simp
    note ih = 2(1)[OF Whole, of w] and parts = utf8_item_take[OF Whole, of "n + w"] drop_take take_add
    show ?thesis
    proof (cases len)
      case None
      then show ?thesis using ih[of "Suc (j + n)"] e w n Whole parts(1)
        by (simp add: utf8_error.simps(2) settle.simps(2) le_diff_conv2 parts(2,3) add.commute)
    next
      case (Some m)
      then show ?thesis using ih[of "Suc (j + n)"] e w n Whole parts(1)
        by (simp add: utf8_error.simps(2) settle.simps(2) le_diff_conv2 parts(2,3) add.commute add.left_commute)
    qed
  next
    case (Bad n)
    then show ?thesis using 2(2) utf8_item_append(2)[OF Bad, of "[]"] utf8_item_Bad_pos[OF Bad]
      by (auto simp: utf8_error.simps(2) settle.simps(2) drop_Cons')
  next
    case Cut
    then show ?thesis using 2(2) by (auto simp: utf8_error.simps(2) settle.simps(2))
  qed
qed simp

lemma push_loop_settle:
  "consumed \<le> length pending \<Longrightarrow>
     fst (push_loop pending consumed out) = out @ fst (settle (drop consumed pending)) \<and>
     drop (snd (push_loop pending consumed out)) pending = snd (settle (drop consumed pending))"
proof (induction pending consumed out rule: push_loop.induct)
  case (1 pending consumed out)
  let ?rest = "drop consumed pending"
  show ?case
  proof (cases "consumed < length pending")
    case less: True
    show ?thesis
    proof (cases "utf8_error ?rest 0")
      case None
      then show ?thesis using less by (simp add: push_loop.simps[of pending consumed] settle_valid[OF None])
    next
      case (Some e)
      obtain v len where e: "utf8_error ?rest 0 = Some (v, len)" using Some by (cases e) simp
      note s = settle_error[of ?rest 0 v len 0, simplified, OF e]
      show ?thesis
      proof (cases len)
        case None
        then show ?thesis using less e s by (simp add: push_loop.simps[of pending consumed] add.commute)
      next
        case (Some bad)
        then have "v + bad \<le> length pending - consumed" using s by simp
        then have "consumed + (v + bad) \<le> length pending" using less by linarith
        then show ?thesis
          using 1(1)[OF _ e refl refl refl, of bad] less e s Some
          by (cases "v = 0") (simp_all add: push_loop.simps[of pending consumed] add.commute add.left_commute)
      qed
    qed
  qed (use 1(2) in \<open>simp add: push_loop.simps[of pending]\<close>)
qed

lemma utf8_push_settle: "utf8_push pending bytes = settle (pending @ bytes)"
proof -
  have "push_loop p 0 [] = (o', c) \<Longrightarrow> (o', drop c p) = settle p" for p o' c
    using push_loop_settle[of 0 p "[]"] by (simp add: prod_eq_iff)
  then show ?thesis by (auto simp: utf8_push_def Let_def simp del: drop_append split: prod.splits)
qed

text \<open>A stream of pushes: the outputs, one per push, and the bytes left at its end.\<close>

fun utf8_pushes :: "utf8_decoder \<Rightarrow> u8 list list \<Rightarrow> utf8 list \<times> utf8_decoder" where
  "utf8_pushes pending [] = ([], pending)"
| "utf8_pushes pending (bytes # rest) =
     (let (out, pending) = utf8_push pending bytes; (outs, pending) = utf8_pushes pending rest in (out # outs, pending))"

lemma utf8_pushes_settle:
  "settle pending = ([], pending) \<Longrightarrow>
     concat (fst (utf8_pushes pending chunks)) = fst (settle (pending @ concat chunks)) \<and>
     snd (utf8_pushes pending chunks) = snd (settle (pending @ concat chunks))"
proof (induction chunks arbitrary: pending)
  case (Cons bytes chunks)
  let ?s = "settle (pending @ bytes)"
  show ?case
    using Cons.IH[OF settle_rest, of "pending @ bytes"] settle_append[of "pending @ bytes" "concat chunks"]
    by (simp add: utf8_push_settle case_prod_beta)
qed simp

lemma utf8_stream_lossy:
  assumes "utf8_pushes [] chunks = (outs, pending)"
  shows "concat outs @ fst (utf8_finish pending) = from_utf8_lossy (concat chunks)"
proof -
  have p: "concat outs = fst (settle (concat chunks))" "pending = snd (settle (concat chunks))"
    using utf8_pushes_settle[of "[]" chunks] assms by simp_all
  then have "from_utf8_lossy pending = (if pending = [] then [] else replacement)"
    using settle_rest[of "concat chunks"] lossy_settle[of pending] by simp
  then show ?thesis using p lossy_settle[of "concat chunks"] by (simp add: utf8_finish_def)
qed

text \<open>What comes out is text, and text comes out as it is.\<close>

lemma utf8_item_char: "utf8_item b bs = Whole n \<Longrightarrow> char_ok (b # take n bs)"
  using lead_byte[of b] by (auto simp: utf8_item_def char_ok_def split: if_splits list.splits)

lemma char_replacement: "char_ok replacement"
  by (simp add: replacement_def char_ok_def char_width_def utf8_cont_def)

lemma text_ok_char_append: "char_ok c \<Longrightarrow> text_ok t \<Longrightarrow> text_ok (c @ t)"
  by (simp add: text_ok_def chars_char)

lemma settle_text: "text_ok (fst (settle bs))"
proof (induction bs rule: settle.induct)
  case (2 b bs)
  moreover have "text_ok []" by (simp add: text_ok_def)
  ultimately show ?case
    using utf8_item_char[of b bs] char_replacement text_ok_char_append[of "b # take n bs" for n]
    by (auto simp: settle.simps(2) text_ok_char_append split: utf8_item.splits)
qed (simp add: text_ok_def)

lemma lossy_text: "text_ok (from_utf8_lossy bs)"
proof -
  have "text_ok (if snd (settle bs) = [] then [] else replacement)"
    using chars_char[OF char_replacement, of "[]"] char_replacement by (simp add: text_ok_def)
  then show ?thesis unfolding lossy_settle by (rule text_ok_appendI[OF settle_text])
qed

lemma utf8_lead:
  "utf8_three b c \<Longrightarrow> 0xE0 \<le> b \<and> b \<le> 0xEF \<and> \<not> b \<le> 0xDF \<and> \<not> b \<le> 0x7F"
  "utf8_four b c \<Longrightarrow> 0xF0 \<le> b \<and> b \<le> 0xF4 \<and> \<not> b \<le> 0xDF \<and> \<not> b \<le> 0x7F \<and> \<not> b \<le> 0xEF"
  by (auto simp: utf8_cont_def utf8_three_def utf8_four_def word_le_nat_alt)

lemma utf8_valid_item:
  assumes "utf8_valid (b # bs)"
  shows "\<exists>n. utf8_item b bs = Whole n \<and> utf8_valid (drop n bs)"
proof -
  consider "b \<le> 0x7F" "utf8_valid bs"
    | c cs where "\<not> b \<le> 0x7F" "bs = c # cs" "0xC2 \<le> b" "b \<le> 0xDF" "utf8_cont c" "utf8_valid cs"
    | c d ds where "\<not> b \<le> 0x7F" "bs = c # d # ds" "\<not> (0xC2 \<le> b \<and> b \<le> 0xDF)" "utf8_three b c" "utf8_cont d"
        "utf8_valid ds"
    | c d e es where "\<not> b \<le> 0x7F" "bs = c # d # e # es" "\<not> (0xC2 \<le> b \<and> b \<le> 0xDF)" "\<not> utf8_three b c"
        "utf8_four b c" "utf8_cont d" "utf8_cont e" "utf8_valid es"
    using assms by (auto simp: utf8_valid.simps(2) split: list.splits if_splits)
  then show ?thesis
  proof cases
    case (3 c d ds)
    then show ?thesis using utf8_lead(1)[of b c] by (simp add: utf8_item_def)
  next
    case (4 c d e es)
    then show ?thesis using utf8_lead(2)[of b c] by (simp add: utf8_item_def)
  qed (simp_all add: utf8_item_def)
qed

lemma utf8_error_valid: "utf8_valid bs \<Longrightarrow> utf8_error bs k = None"
proof (induction bs k rule: utf8_error.induct)
  case (2 b bs k)
  then show ?case using utf8_valid_item[OF 2(2)] by (auto simp: utf8_error.simps(2))
qed simp

lemma lossy_valid: "utf8_valid bs \<Longrightarrow> from_utf8_lossy bs = bs"
  using settle_valid[OF utf8_error_valid, of bs] by (simp add: lossy_settle)

end
