(* ===== verification/Dec_Bridge.thy ===== *)
theory Dec_Bridge
  imports Tok_Safety Dec_Utf8
begin

text \<open>
  \<open>oxillama-runtime/src/tokenizer_bridge.rs\<close>: one interface over the vocabulary of a GGUF file and a
  \<open>tokenizer.json\<close>, and the choice between them, \<open>load_tokenizer\<close> of \<open>engine/mod.rs\<close>. The
  \<open>tokenizers\<close> crate is the record of parameters \<open>hf_ops\<close>.
\<close>

section \<open>Special tokens\<close>

definition eog_names :: "utf8 list" where
  "eog_names =
     map str_bytes [''<|eot_id|>'', ''<|im_end|>'', ''<|end|>'', ''<|return|>'', ''<|call|>'', ''<end_of_turn>'',
       ''<|endoftext|>'', ''</s>'', ''<|eom_id|>'', ''<EOT>'', ''[EOT]'', ''[EOS]'', ''<|end_of_text|>'',
       ''<end_of_utterance>''] @ [deepseek_end]"

definition bos_names :: "utf8 list" where
  "bos_names = map str_bytes [''<s>'', ''<|begin_of_text|>'', ''<|startoftext|>'']"

definition eot_names :: "utf8 list" where
  "eot_names = map str_bytes [''<|eot_id|>'', ''<|im_end|>'', ''<|end|>'', ''<end_of_turn>'']"

record special_tokens =
  spt_bos :: "u32 option"
  spt_eos :: "u32 option"
  spt_eot :: "u32 option"
  spt_unk :: "u32 option"
  spt_pad :: "u32 option"
  spt_sep :: "u32 option"
  spt_add_bos :: bool
  spt_add_eos :: bool
  spt_eog :: "u32 set"

definition special_default :: special_tokens where
  "special_default = \<lparr>spt_bos = None, spt_eos = None, spt_eot = None, spt_unk = None, spt_pad = None, spt_sep = None,
     spt_add_bos = False, spt_add_eos = False, spt_eog = {}\<rparr>"

definition read_token_id :: "metadata_store \<Rightarrow> string \<Rightarrow> u32 option" where
  "read_token_id m key =
     Option.bind (md_get m key) (\<lambda>v. or_else (as_u32 v) (Option.bind (as_i32 v) u32_try_from_i32))"

definition special_from_metadata :: "metadata_store \<Rightarrow> special_tokens" where
  "special_from_metadata m =
     (let eos = read_token_id m ''tokenizer.ggml.eos_token_id'';
          eot = read_token_id m ''tokenizer.ggml.eot_token_id'';
          eom = read_token_id m ''tokenizer.ggml.eom_token_id''
      in \<lparr>spt_bos = read_token_id m ''tokenizer.ggml.bos_token_id'', spt_eos = eos, spt_eot = eot,
          spt_unk = read_token_id m ''tokenizer.ggml.unknown_token_id'',
          spt_pad = read_token_id m ''tokenizer.ggml.padding_token_id'',
          spt_sep = read_token_id m ''tokenizer.ggml.separator_token_id'',
          spt_add_bos = md_flag m ''tokenizer.ggml.add_bos_token'' False,
          spt_add_eos = md_flag m ''tokenizer.ggml.add_eos_token'' False,
          spt_eog = set_option eos \<union> set_option eot \<union> set_option eom\<rparr>)"

definition special_is_empty :: "special_tokens \<Rightarrow> bool" where
  "special_is_empty s \<longleftrightarrow> spt_bos s = None \<and> spt_eos s = None \<and> spt_eot s = None \<and> spt_eog s = {}"

section \<open>The bridge\<close>

text \<open>What is used of a \<open>tokenizers::Tokenizer\<close>; an added token is its id, its text and whether it is special.\<close>

record 'h hf_ops =
  hf_encode :: "'h \<Rightarrow> utf8 \<Rightarrow> bool \<Rightarrow> string + u32 list"
  hf_decode :: "'h \<Rightarrow> u32 list \<Rightarrow> bool \<Rightarrow> string + utf8"
  hf_added :: "'h \<Rightarrow> (u32 \<times> utf8 \<times> bool) list"
  hf_vocab :: "'h \<Rightarrow> (utf8 \<times> u32) list"
  hf_id_to_token :: "'h \<Rightarrow> u32 \<Rightarrow> utf8 option"

datatype ('re, 'h) backend = GgufBackend "'re gguf_vocab" | HfBackend 'h

record ('re, 'h) tokenizer_bridge =
  tb_backend :: "('re, 'h) backend"
  tb_special :: special_tokens

datatype bridge_error =
    VocabError tokenizer_error
  | LoadFailed string
  | EncodingFailed string
  | DecodingFailed string
  | NoTokenizer
  | BridgePanic

definition from_gguf_metadata ::
  "(pre_type \<Rightarrow> 're list option) \<Rightarrow> metadata_store \<Rightarrow> bridge_error + ('re, 'h) tokenizer_bridge" where
  "from_gguf_metadata compile m =
     (case from_metadata compile m of
        Inl e \<Rightarrow> Inl (VocabError e)
      | Inr v \<Rightarrow> Inr \<lparr>tb_backend = GgufBackend v,
          tb_special = \<lparr>spt_bos = gv_bos_id v, spt_eos = gv_eos_id v, spt_eot = gv_eot_id v, spt_unk = gv_unk_id v,
            spt_pad = gv_pad_id v, spt_sep = gv_sep_id v, spt_add_bos = gv_add_bos v, spt_add_eos = gv_add_eos v,
            spt_eog = gv_eog_ids v\<rparr>\<rparr>)"

definition special_id_by_name :: "'h hf_ops \<Rightarrow> ('re, 'h) tokenizer_bridge \<Rightarrow> utf8 \<Rightarrow> u32 option" where
  "special_id_by_name hf tb name =
     (case tb_backend tb of
        GgufBackend v \<Rightarrow>
          Option.bind (token_to_id v name) (\<lambda>tid.
            if token_type_of v tid \<in> {Some Control, Some UserDefined} then Some tid else None)
      | HfBackend h \<Rightarrow>
          map_option fst (List.find (\<lambda>(tid, content, special). special \<and> content = name) (hf_added hf h)))"

fun find_special :: "'h hf_ops \<Rightarrow> ('re, 'h) tokenizer_bridge \<Rightarrow> utf8 list \<Rightarrow> u32 option" where
  "find_special hf tb [] = None"
| "find_special hf tb (name # names) =
     (case special_id_by_name hf tb name of None \<Rightarrow> find_special hf tb names | Some tid \<Rightarrow> Some tid)"

definition probe_bos_id :: "'h hf_ops \<Rightarrow> ('re, 'h) tokenizer_bridge \<Rightarrow> u32 option" where
  "probe_bos_id hf tb = find_special hf tb bos_names"

definition probe_eot_id :: "'h hf_ops \<Rightarrow> ('re, 'h) tokenizer_bridge \<Rightarrow> u32 option" where
  "probe_eot_id hf tb = find_special hf tb eot_names"

definition probe_eog_ids :: "'h hf_ops \<Rightarrow> ('re, 'h) tokenizer_bridge \<Rightarrow> u32 set" where
  "probe_eog_ids hf tb = \<Union> (set (map (\<lambda>name. set_option (special_id_by_name hf tb name)) eog_names))"

definition least_id :: "u32 set \<Rightarrow> u32 option" where
  "least_id ids = (if ids = {} then None else Some (Min ids))"

definition apply_gguf_specials ::
  "'h hf_ops \<Rightarrow> metadata_store \<Rightarrow> ('re, 'h) tokenizer_bridge \<Rightarrow> ('re, 'h) tokenizer_bridge" where
  "apply_gguf_specials hf m tb =
     (let new = special_from_metadata m; old = tb_special tb;
          eos = or_else (spt_eos new) (spt_eos old);
          eot = or_else (or_else (spt_eot new) (spt_eot old)) (probe_eot_id hf tb);
          eog = spt_eog old \<union> spt_eog new \<union> probe_eog_ids hf tb \<union> set_option eos \<union> set_option eot
      in tb\<lparr>tb_special :=
           \<lparr>spt_bos = or_else (or_else (spt_bos new) (spt_bos old)) (probe_bos_id hf tb),
            spt_eos = or_else eos (or_else eot (least_id eog)),
            spt_eot = eot,
            spt_unk = or_else (spt_unk new) (spt_unk old), spt_pad = or_else (spt_pad new) (spt_pad old),
            spt_sep = or_else (spt_sep new) (spt_sep old),
            spt_add_bos = (if md_get m ''tokenizer.ggml.add_bos_token'' \<noteq> None then spt_add_bos new else spt_add_bos old),
            spt_add_eos = (if md_get m ''tokenizer.ggml.add_eos_token'' \<noteq> None then spt_add_eos new else spt_add_eos old),
            spt_eog = eog\<rparr>\<rparr>)"

definition from_hf :: "'h hf_ops \<Rightarrow> 'h \<Rightarrow> ('re, 'h) tokenizer_bridge" where
  "from_hf hf h =
     (let tb = \<lparr>tb_backend = HfBackend h, tb_special = special_default\<rparr>;
          eot = probe_eot_id hf tb; eog = probe_eog_ids hf tb
      in tb\<lparr>tb_special := special_default\<lparr>spt_bos := probe_bos_id hf tb, spt_eot := eot, spt_eog := eog,
           spt_eos := or_else eot (least_id eog)\<rparr>\<rparr>)"

definition bridge_is_eog :: "('re, 'h) tokenizer_bridge \<Rightarrow> u32 \<Rightarrow> bool" where
  "bridge_is_eog tb tid \<longleftrightarrow> tid \<in> spt_eog (tb_special tb)"

section \<open>Encoding and decoding\<close>

definition encode_with ::
  "'h hf_ops \<Rightarrow> ('re \<Rightarrow> utf8 \<Rightarrow> (nat \<times> nat) option list) \<Rightarrow> (u32 \<Rightarrow> u32 list) \<Rightarrow> ('re, 'h) tokenizer_bridge \<Rightarrow>
     utf8 \<Rightarrow> bool \<Rightarrow> bool \<Rightarrow> bridge_error + u32 list" where
  "encode_with hf find_iter lower tb t add_special parse_special =
     (case tb_backend tb of
        GgufBackend v \<Rightarrow> ok_or (tokenize find_iter lower v t add_special parse_special) BridgePanic
      | HfBackend h \<Rightarrow>
          (case hf_encode hf h t add_special of
             Inl e \<Rightarrow> Inl (EncodingFailed e)
           | Inr ids \<Rightarrow>
               Inr (case spt_bos (tb_special tb) of
                      Some bos \<Rightarrow>
                        if add_special \<and> spt_add_bos (tb_special tb) \<and> (ids = [] \<or> hd ids \<noteq> bos) then bos # ids else ids
                    | None \<Rightarrow> ids)))"

definition decode_with :: "'h hf_ops \<Rightarrow> ('re, 'h) tokenizer_bridge \<Rightarrow> u32 list \<Rightarrow> bool \<Rightarrow> bridge_error + utf8" where
  "decode_with hf tb tokens skip_special =
     (case tb_backend tb of
        GgufBackend v \<Rightarrow> Inr (from_utf8_lossy (detokenize_bytes v tokens skip_special))
      | HfBackend h \<Rightarrow>
          (case hf_decode hf h tokens skip_special of Inl e \<Rightarrow> Inl (DecodingFailed e) | Inr t \<Rightarrow> Inr t))"

definition token_to_bytes :: "'h hf_ops \<Rightarrow> ('re, 'h) tokenizer_bridge \<Rightarrow> u32 \<Rightarrow> u8 list option" where
  "token_to_bytes hf tb tid =
     (case tb_backend tb of
        GgufBackend v \<Rightarrow> token_bytes v tid
      | HfBackend h \<Rightarrow> (case hf_decode hf h [tid] False of Inl e \<Rightarrow> None | Inr t \<Rightarrow> Some t))"

definition decode_token_bytes :: "'h hf_ops \<Rightarrow> ('re, 'h) tokenizer_bridge \<Rightarrow> u32 list \<Rightarrow> bool \<Rightarrow> u8 list" where
  "decode_token_bytes hf tb tokens skip_special =
     (case tb_backend tb of
        GgufBackend v \<Rightarrow> detokenize_bytes v tokens skip_special
      | HfBackend h \<Rightarrow>
          let specials = (if skip_special then set (map fst (filter (\<lambda>(_, _, special). special) (hf_added hf h))) else {})
          in concat (map (\<lambda>tid. if tid \<in> specials then []
                                else case token_to_bytes hf tb tid of None \<Rightarrow> [] | Some bs \<Rightarrow> bs) tokens))"

definition bridge_vocab_bytes :: "'h hf_ops \<Rightarrow> ('re, 'h) tokenizer_bridge \<Rightarrow> (u32 \<times> u8 list) list" where
  "bridge_vocab_bytes hf tb =
     (case tb_backend tb of
        GgufBackend v \<Rightarrow> vocab_bytes v
      | HfBackend h \<Rightarrow>
          sort_key fst (List.map_filter (\<lambda>(_, tid). map_option (Pair tid) (token_to_bytes hf tb tid)) (hf_vocab hf h)))"

definition bridge_vocab_size :: "'h hf_ops \<Rightarrow> ('re, 'h) tokenizer_bridge \<Rightarrow> nat" where
  "bridge_vocab_size hf tb =
     (case tb_backend tb of GgufBackend v \<Rightarrow> gv_len v | HfBackend h \<Rightarrow> length (hf_vocab hf h))"

definition bridge_id_to_token :: "'h hf_ops \<Rightarrow> ('re, 'h) tokenizer_bridge \<Rightarrow> u32 \<Rightarrow> utf8 option" where
  "bridge_id_to_token hf tb tid =
     (case tb_backend tb of GgufBackend v \<Rightarrow> id_to_token v tid | HfBackend h \<Rightarrow> hf_id_to_token hf h tid)"

section \<open>Loading\<close>

text \<open>The explicit path first, then the vocabulary of the file, then a sidecar next to it. Reading a
  \<open>tokenizer.json\<close> is the parameter \<open>open_hf\<close>.\<close>

definition load_tokenizer ::
  "'h hf_ops \<Rightarrow> (string \<Rightarrow> string + 'h) \<Rightarrow> (pre_type \<Rightarrow> 're list option) \<Rightarrow> string option \<Rightarrow> string option \<Rightarrow>
     metadata_store \<Rightarrow> bridge_error + ('re, 'h) tokenizer_bridge" where
  "load_tokenizer hf open_hf compile tokenizer_path sidecar m =
     (let from_path = (\<lambda>path. case open_hf path of
            Inl e \<Rightarrow> Inl (LoadFailed e)
          | Inr h \<Rightarrow> Inr (apply_gguf_specials hf m (from_hf hf h)))
      in case tokenizer_path of
           Some path \<Rightarrow> from_path path
         | None \<Rightarrow>
             case (if has_embedded_vocab m then from_gguf_metadata compile m else Inl NoTokenizer) of
               Inr tb \<Rightarrow> Inr tb
             | Inl _ \<Rightarrow> (case sidecar of Some path \<Rightarrow> from_path path | None \<Rightarrow> Inl NoTokenizer))"

section \<open>The end of the generation\<close>

text \<open>What declares the end of the generation is in the set that is tested.\<close>

definition specials_ok :: "special_tokens \<Rightarrow> bool" where
  "specials_ok s \<longleftrightarrow> finite (spt_eog s) \<and> set_option (spt_eos s) \<subseteq> spt_eog s \<and> set_option (spt_eot s) \<subseteq> spt_eog s"

lemma least_id_in: "finite ids \<Longrightarrow> set_option (least_id ids) \<subseteq> ids"
  by (simp add: least_id_def)

lemma fallback_in:
  "finite ids \<Longrightarrow> set_option x \<subseteq> ids \<Longrightarrow> set_option y \<subseteq> ids \<Longrightarrow>
     set_option (or_else x (or_else y (least_id ids))) \<subseteq> ids"
  using least_id_in[of ids] by (auto simp: or_else_def split: option.splits)

lemma finite_set_option: "finite (set_option x)"
  by (cases x) simp_all

lemma finite_probe: "finite (probe_eog_ids hf tb)"
  by (auto simp: probe_eog_ids_def)

lemma specials_applied:
  assumes "finite (spt_eog (tb_special tb))"
  shows "specials_ok (tb_special (apply_gguf_specials hf m tb))"
proof -
  let ?s = "tb_special (apply_gguf_specials hf m tb)"
  obtain eos where eos: "spt_eos ?s = or_else eos (or_else (spt_eot ?s) (least_id (spt_eog ?s)))" "set_option eos \<subseteq> spt_eog ?s"
    by (auto simp: apply_gguf_specials_def Let_def)
  have "finite (spt_eog ?s)"
    using assms finite_probe finite_set_option by (simp add: apply_gguf_specials_def special_from_metadata_def Let_def)
  moreover have "set_option (spt_eot ?s) \<subseteq> spt_eog ?s" by (auto simp: apply_gguf_specials_def Let_def)
  ultimately show ?thesis using fallback_in eos by (simp add: specials_ok_def)
qed

lemma from_hf_finite: "finite (spt_eog (tb_special (from_hf hf h)))"
  by (simp add: from_hf_def Let_def finite_probe)

lemma from_gguf_metadata_ok:
  assumes "from_gguf_metadata compile m = Inr tb"
  shows "specials_ok (tb_special tb)"
proof -
  obtain v where v: "from_metadata compile m = Inr v" "spt_eos (tb_special tb) = gv_eos_id v"
    "spt_eot (tb_special tb) = gv_eot_id v" "spt_eog (tb_special tb) = gv_eog_ids v"
    using assms by (auto simp: from_gguf_metadata_def split: sum.splits)
  obtain tokens vt ids pre pre_tok codes fs where
    "v = finish_vocab m tokens vt (normalize_len fs (length tokens) 0) (token_types codes (length tokens)) ids pre pre_tok"
    by (rule from_metadata_parts[OF v(1)])
  from finish_vocab_tables(11)[OF this] show ?thesis
    by (simp only: specials_ok_def v(2-4)) (simp add: finite_set_option le_supI1 le_supI2)
qed

lemma load_tokenizer_ok:
  assumes "load_tokenizer hf open_hf compile path sidecar m = Inr tb"
  shows "specials_ok (tb_special tb)"
  using assms from_gguf_metadata_ok specials_applied[OF from_hf_finite, of hf m hf]
  by (auto simp: load_tokenizer_def Let_def split: option.splits sum.splits if_splits)

end
