(* ===== verification/Dec_Stop.thy ===== *)
theory Dec_Stop
  imports Tok_Encode
begin

text \<open>
  \<open>StopSequenceBuffer\<close> of \<open>oxillama-runtime/src/stream_decode.rs\<close>: the text that could still become a
  stop sequence is held back. A slice off a character boundary would panic, the value \<open>None\<close>.
\<close>

section \<open>The buffer\<close>

record stop_feed =
  sf_emit :: utf8
  sf_matched :: "utf8 option"

record stop_buffer =
  stop_stops :: "utf8 list"
  stop_held :: utf8
  stop_max_len :: nat

definition stop_new :: "utf8 list \<Rightarrow> stop_buffer" where
  "stop_new stops =
     (let stops = filter (\<lambda>s. s \<noteq> []) stops
      in \<lparr>stop_stops = stops, stop_held = [], stop_max_len = fold max (map length stops) 0\<rparr>)"

definition stop_is_disabled :: "stop_buffer \<Rightarrow> bool" where
  "stop_is_disabled b \<longleftrightarrow> stop_stops b = []"

text \<open>The scan over the stop sequences: the earliest match so far, the longest at its place.\<close>

definition better_stop :: "utf8 \<Rightarrow> utf8 \<Rightarrow> (nat \<times> utf8) option \<Rightarrow> (nat \<times> utf8) option" where
  "better_stop held stop best =
     (case find_from stop held 0 of
        None \<Rightarrow> best
      | Some pos \<Rightarrow>
          (case best of
             None \<Rightarrow> Some (pos, stop)
           | Some (best_pos, best_stop) \<Rightarrow>
               if pos < best_pos \<or> pos = best_pos \<and> length stop > length best_stop then Some (pos, stop) else best))"

definition earliest_stop :: "utf8 list \<Rightarrow> utf8 \<Rightarrow> (nat \<times> utf8) option" where
  "earliest_stop stops held = fold (better_stop held) stops None"

text \<open>The loop over the lengths, from the longest.\<close>

fun partial_suffix :: "utf8 list \<Rightarrow> utf8 \<Rightarrow> nat \<Rightarrow> nat" where
  "partial_suffix stops held 0 = 0"
| "partial_suffix stops held (Suc n) =
     (let start = length held - Suc n; suffix = drop start held
      in if is_char_boundary held start \<and>
            (\<exists>stop \<in> set stops. length stop > length suffix \<and> take (length suffix) stop = suffix)
         then Suc n
         else partial_suffix stops held n)"

definition partial_suffix_len :: "stop_buffer \<Rightarrow> nat" where
  "partial_suffix_len b = partial_suffix (stop_stops b) (stop_held b) (min (stop_max_len b) (length (stop_held b)))"

definition stop_push :: "stop_buffer \<Rightarrow> utf8 \<Rightarrow> (stop_feed \<times> stop_buffer) option" where
  "stop_push b t =
     (if stop_stops b = [] then Some (\<lparr>sf_emit = t, sf_matched = None\<rparr>, b)
      else
        let b = b\<lparr>stop_held := stop_held b @ t\<rparr>
        in case earliest_stop (stop_stops b) (stop_held b) of
             Some (pos, stop) \<Rightarrow>
               map_option (\<lambda>emit. (\<lparr>sf_emit = emit, sf_matched = Some stop\<rparr>, b\<lparr>stop_held := []\<rparr>))
                 (str_get (stop_held b) 0 pos)
           | None \<Rightarrow>
               let split = length (stop_held b) - partial_suffix_len b
               in map_option (\<lambda>emit. (\<lparr>sf_emit = emit, sf_matched = None\<rparr>, b\<lparr>stop_held := drop split (stop_held b)\<rparr>))
                    (str_get (stop_held b) 0 split))"

definition stop_flush :: "stop_buffer \<Rightarrow> utf8 \<times> stop_buffer" where
  "stop_flush b = (stop_held b, b\<lparr>stop_held := []\<rparr>)"

section \<open>The specification over the whole text\<close>

definition stop_at :: "utf8 \<Rightarrow> utf8 \<Rightarrow> nat \<Rightarrow> bool" where
  "stop_at t stop pos \<longleftrightarrow> take (length stop) (drop pos t) = stop"

text \<open>The first place where one stands, and the longest that stands there.\<close>

definition first_stop :: "utf8 list \<Rightarrow> utf8 \<Rightarrow> nat \<Rightarrow> utf8 \<Rightarrow> bool" where
  "first_stop stops t pos stop \<longleftrightarrow> stop \<in> set stops \<and> stop_at t stop pos \<and>
     (\<forall>s p. s \<in> set stops \<longrightarrow> stop_at t s p \<longrightarrow> pos < p \<or> pos = p \<and> length s \<le> length stop)"

definition stop_free :: "utf8 list \<Rightarrow> utf8 \<Rightarrow> bool" where
  "stop_free stops t \<longleftrightarrow> (\<forall>s p. s \<in> set stops \<longrightarrow> \<not> stop_at t s p)"

text \<open>The last \<open>k\<close> bytes of a text are a proper beginning of a stop sequence.\<close>

definition open_end :: "utf8 list \<Rightarrow> utf8 \<Rightarrow> nat \<Rightarrow> bool" where
  "open_end stops t k \<longleftrightarrow> 0 < k \<and> k \<le> length t \<and>
     (\<exists>s \<in> set stops. k < length s \<and> take k s = drop (length t - k) t)"

definition stops_ok :: "utf8 list \<Rightarrow> bool" where
  "stops_ok stops \<longleftrightarrow> (\<forall>s \<in> set stops. s \<noteq> [] \<and> text_ok s)"

lemma stop_at_bound: "stop_at t s p \<Longrightarrow> s \<noteq> [] \<Longrightarrow> p + length s \<le> length t"
proof -
  assume "stop_at t s p" "s \<noteq> []"
  then have "length (take (length s) (drop p t)) = length s" by (simp add: stop_at_def)
  then show ?thesis using \<open>s \<noteq> []\<close> by (cases "p \<le> length t") (auto simp: min_def split: if_splits)
qed

lemma stop_at_drop: "stop_at (drop n t) s p \<longleftrightarrow> stop_at t s (n + p)"
  by (simp add: stop_at_def add.commute)

lemma find_from_stop:
  "find_from s t 0 = Some p \<Longrightarrow> stop_at t s p \<and> (\<forall>q. stop_at t s q \<longrightarrow> p \<le> q)"
  "find_from s t 0 = None \<Longrightarrow> \<not> stop_at t s q"
  using find_from_Some[of s t 0 p] find_from_None[of s t 0 q] by (auto simp: stop_at_def not_le[symmetric])

lemma earliest_stop_spec:
  "case earliest_stop stops t of None \<Rightarrow> stop_free stops t | Some (pos, stop) \<Rightarrow> first_stop stops t pos stop"
proof (induction stops rule: rev_induct)
  case Nil
  then show ?case by (simp add: earliest_stop_def stop_free_def)
next
  case (snoc s stops)
  have fold: "earliest_stop (stops @ [s]) t = better_stop t s (earliest_stop stops t)" by (simp add: earliest_stop_def)
  show ?case
  proof (cases "find_from s t 0")
    case None
    then show ?thesis using snoc find_from_stop(2)[OF None] unfolding fold
      by (auto simp: better_stop_def stop_free_def first_stop_def split: option.splits)
  next
    case (Some p)
    then show ?thesis using snoc find_from_stop(1)[OF Some] unfolding fold
      by (fastforce simp: better_stop_def stop_free_def first_stop_def split: option.splits)
  qed
qed

lemma stop_boundary:
  assumes "stops_ok stops" and "s \<in> set stops" and "0 < k" and "k \<le> length s" and "take k s = take k (drop p t)" and "p + k \<le> length t"
  shows "is_char_boundary t p"
proof -
  obtain b bs where s: "s = b # bs" using assms(1,2) by (cases s) (auto simp: stops_ok_def)
  then have "\<not> utf8_cont b" using assms(1,2) by (auto simp: stops_ok_def text_ok_def char_ok_def)
  moreover have "t ! p = b"
    using assms(3,5,6) s by (cases k) (auto simp: hd_drop_conv_nth[symmetric] dest: arg_cong[where f = hd])
  ultimately show ?thesis using assms(3,6) by (simp add: is_char_boundary_def)
qed

lemma partial_suffix_greatest:
  assumes "stops_ok stops" and "n \<le> length t"
  shows "(partial_suffix stops t n = 0 \<or> open_end stops t (partial_suffix stops t n)) \<and> partial_suffix stops t n \<le> n \<and>
    (\<forall>k \<le> n. open_end stops t k \<longrightarrow> k \<le> partial_suffix stops t n)"
  using assms(2)
proof (induction n)
  case (Suc n)
  let ?start = "length t - Suc n"
  have "open_end stops t (Suc n) \<longleftrightarrow> is_char_boundary t ?start \<and>
     (\<exists>stop \<in> set stops. length stop > length (drop ?start t) \<and> take (length (drop ?start t)) stop = drop ?start t)"
    (is "_ \<longleftrightarrow> ?bound \<and> ?some")
  proof
    assume o: "open_end stops t (Suc n)"
    then obtain s where s: "s \<in> set stops" "Suc n < length s" "take (Suc n) s = drop ?start t" by (auto simp: open_end_def)
    then show "?bound \<and> ?some"
      using stop_boundary[OF assms(1) s(1), of "Suc n" ?start t] Suc.prems by auto
  qed (use Suc.prems in \<open>auto simp: open_end_def\<close>)
  then show ?case using Suc by (auto simp: Let_def le_Suc_eq)
qed (simp add: open_end_def)

definition hold_len :: "utf8 list \<Rightarrow> utf8 \<Rightarrow> nat" where
  "hold_len stops t = partial_suffix stops t (length t)"

lemma hold_len_greatest:
  assumes "stops_ok stops"
  shows "hold_len stops t = 0 \<or> open_end stops t (hold_len stops t)" and "hold_len stops t \<le> length t"
    and "open_end stops t k \<Longrightarrow> k \<le> hold_len stops t"
  using partial_suffix_greatest[OF assms order_refl, of t] by (auto simp: hold_len_def open_end_def)

lemma hold_len_unique:
  assumes "stops_ok stops" and "k = 0 \<or> open_end stops t k" and "\<And>j. open_end stops t j \<Longrightarrow> j \<le> k"
  shows "hold_len stops t = k"
  using hold_len_greatest[OF assms(1), of t] assms(2,3) by (metis le_antisym le_zero_eq)

text \<open>Only what is held back can become part of a stop sequence.\<close>

lemma stop_in_held:
  assumes "stops_ok stops" and "stop_free stops seen" and "s \<in> set stops" and "stop_at (seen @ t) s p"
  shows "length seen - hold_len stops seen \<le> p"
proof (cases "p + length s \<le> length seen")
  case True
  then have "stop_at seen s p" using assms(4) by (simp add: stop_at_def)
  then show ?thesis using assms(2,3) by (auto simp: stop_free_def)
next
  case beyond: False
  show ?thesis
  proof (cases "p < length seen")
    case True
    let ?k = "length seen - p"
    have "take ?k s = take ?k (take (length s) (drop p (seen @ t)))" using assms(4) by (simp add: stop_at_def)
    also have "\<dots> = drop (length seen - ?k) seen" using True beyond by (simp add: min_def)
    finally have "take ?k s = drop (length seen - ?k) seen" .
    moreover have "?k < length s" using True beyond by linarith
    ultimately have "open_end stops seen ?k" using True assms(3) unfolding open_end_def by auto
    then show ?thesis using hold_len_greatest(3)[OF assms(1)] by fastforce
  qed simp
qed

lemma open_end_append:
  assumes "open_end stops (seen @ t) k"
  shows "k \<le> length t \<or> open_end stops seen (k - length t)"
proof (cases "k \<le> length t")
  case False
  obtain s where s: "s \<in> set stops" "k < length s" "take k s = drop (length (seen @ t) - k) (seen @ t)"
    using assms by (auto simp: open_end_def)
  have "take (k - length t) s = take (k - length t) (take k s)" by simp
  also have "\<dots> = take (k - length t) (drop (length seen - (k - length t)) seen @ t)"
  proof -
    have "length (seen @ t) - k = length seen - (k - length t)" using False by simp
    then show ?thesis using s(3) False by simp
  qed
  also have "\<dots> = drop (length seen - (k - length t)) seen" using False assms by (simp add: open_end_def)
  finally have "take (k - length t) s = drop (length seen - (k - length t)) seen" .
  moreover have "0 < k - length t" "k - length t \<le> length seen" "k - length t < length s"
    using False s(2) assms by (auto simp: open_end_def)
  ultimately show ?thesis using s(1) unfolding open_end_def by blast
qed simp

lemma open_end_drop: "k \<le> length (drop n t) \<Longrightarrow> open_end stops (drop n t) k \<longleftrightarrow> open_end stops t k"
  by (auto simp: open_end_def)


section \<open>A push against the whole text\<close>

definition buffer_after :: "utf8 list \<Rightarrow> utf8 \<Rightarrow> stop_buffer" where
  "buffer_after stops seen =
     \<lparr>stop_stops = stops, stop_held = drop (length seen - hold_len stops seen) seen,
      stop_max_len = fold max (map length stops) 0\<rparr>"

lemma fold_max_ge: "x \<in> set xs \<or> x = (m :: nat) \<Longrightarrow> x \<le> fold max xs m"
  unfolding Max.set_eq_fold[symmetric] by (rule Max_ge) auto

lemma first_stop_drop:
  assumes "\<And>s p. s \<in> set stops \<Longrightarrow> stop_at t s p \<Longrightarrow> n \<le> p"
  shows "first_stop stops (drop n t) pos stop \<longleftrightarrow> first_stop stops t (n + pos) stop"
proof
  assume f: "first_stop stops (drop n t) pos stop"
  have "n + pos < p \<or> n + pos = p \<and> length s \<le> length stop" if "s \<in> set stops" "stop_at t s p" for s p
    using f assms[OF that] that by (auto simp: first_stop_def stop_at_drop dest!: spec[of _ "p - n"] spec[of _ s])
  then show "first_stop stops t (n + pos) stop" using f by (auto simp: first_stop_def stop_at_drop)
next
  assume "first_stop stops t (n + pos) stop"
  then show "first_stop stops (drop n t) pos stop" by (fastforce simp: first_stop_def stop_at_drop)
qed

lemma held_back:
  fixes seen t :: utf8
  assumes "stops_ok stops"
  defines "held \<equiv> drop (length seen - hold_len stops seen) (seen @ t)"
  shows "partial_suffix stops held (min (fold max (map length stops) 0) (length held)) = hold_len stops (seen @ t)"
    and "hold_len stops (seen @ t) \<le> length held"
    and "is_char_boundary held (length held - hold_len stops (seen @ t))"
proof -
  let ?k = "hold_len stops (seen @ t)"
  let ?n = "min (fold max (map length stops) 0) (length held)"
  have short: "j \<le> ?n" if j: "open_end stops (seen @ t) j" for j
  proof -
    have "j \<le> length held"
      using open_end_append[OF j] hold_len_greatest(2,3)[OF assms(1), of seen] by (fastforce simp: held_def)
    moreover have "j \<le> fold max (map length stops) 0"
    proof -
      obtain s where s: "s \<in> set stops" "j < length s" using j by (auto simp: open_end_def)
      then have "length s \<le> fold max (map length stops) 0" by (intro fold_max_ge) simp
      then show ?thesis using s(2) by simp
    qed
    ultimately show ?thesis by simp
  qed
  have same: "open_end stops held j \<longleftrightarrow> open_end stops (seen @ t) j" if "j \<le> length held" for j
    using that open_end_drop[of j _ "seen @ t" stops] unfolding held_def by blast
  note great = partial_suffix_greatest[OF assms(1), of ?n held, OF min.cobounded2]
  show k: "partial_suffix stops held ?n = ?k"
  proof (rule hold_len_unique[OF assms(1), symmetric])
    show "partial_suffix stops held ?n = 0 \<or> open_end stops (seen @ t) (partial_suffix stops held ?n)"
      using great same[of "partial_suffix stops held ?n"] by auto
    show "j \<le> partial_suffix stops held ?n" if "open_end stops (seen @ t) j" for j
      using great short[OF that] same[of j] that by auto
  qed
  then show le: "?k \<le> length held" using great by simp
  show "is_char_boundary held (length held - ?k)"
  proof (cases "?k = 0")
    case False
    then have "open_end stops held ?k" using same[OF le] hold_len_greatest(1)[OF assms(1), of "seen @ t"] by simp
    then obtain s where "s \<in> set stops" "?k < length s" "take ?k s = drop (length held - ?k) held" by (auto simp: open_end_def)
    then show ?thesis using stop_boundary[OF assms(1), of s ?k "length held - ?k" held] False le by simp
  qed (simp add: is_char_boundary_def)
qed

lemma stop_push_spec:
  fixes seen t :: utf8
  assumes "stops_ok stops" and "stop_free stops seen"
  defines "off \<equiv> length seen - hold_len stops seen" and "all \<equiv> seen @ t"
  shows "(stop_free stops all \<and> off \<le> length all - hold_len stops all \<and>
      stop_push (buffer_after stops seen) t =
        Some (\<lparr>sf_emit = drop off (take (length all - hold_len stops all) all), sf_matched = None\<rparr>, buffer_after stops all)) \<or>
    (\<exists>pos stop b. first_stop stops all pos stop \<and> off \<le> pos \<and>
      stop_push (buffer_after stops seen) t = Some (\<lparr>sf_emit = drop off (take pos all), sf_matched = Some stop\<rparr>, b))"
proof -
  let ?held = "drop off all"
  have held: "stop_held (buffer_after stops seen) @ t = ?held" by (simp add: buffer_after_def off_def all_def)
  note in_held = stop_in_held[OF assms(1,2), of _ t, folded off_def all_def]
  note hb = held_back[OF assms(1), of seen t, folded off_def all_def]
  have none: "stops = [] \<Longrightarrow> hold_len stops x = 0" for x
    using hold_len_greatest(1)[OF assms(1), of x] by (auto simp: open_end_def)
  show ?thesis
  proof (cases "stops = []")
    case True
    then show ?thesis
      using none by (intro disjI1) (simp add: stop_push_def buffer_after_def off_def all_def stop_free_def)
  next
  case some_stops: False
  show ?thesis
  proof (cases "earliest_stop stops ?held")
    case (Some f)
    then obtain q stop where f: "earliest_stop stops ?held = Some (q, stop)" by (cases f) simp
    have first: "first_stop stops ?held q stop" using earliest_stop_spec[of stops ?held] f by simp
    have s: "stop \<in> set stops" "stop_at ?held stop q" "stop \<noteq> []"
      using first assms(1) by (auto simp: first_stop_def stops_ok_def)
    have "is_char_boundary ?held q"
      using stop_boundary[OF assms(1) s(1), of "length stop" q ?held] stop_at_bound[OF s(2,3)] s by (simp add: stop_at_def)
    then have "str_get ?held 0 q = Some (take q ?held)" by (simp add: str_get_def is_char_boundary_def)
    then have "\<exists>b. stop_push (buffer_after stops seen) t = Some (\<lparr>sf_emit = take q ?held, sf_matched = Some stop\<rparr>, b)"
      using f some_stops held by (simp add: stop_push_def Let_def) (simp add: buffer_after_def)
    moreover have "take q ?held = drop off (take (off + q) all)" by (simp only: drop_take diff_add_inverse)
    moreover have "first_stop stops all (off + q) stop" using first first_stop_drop[of stops all off] in_held by blast
    ultimately show ?thesis using le_add1[of off q] by metis
  next
    case None
    then have "stop_free stops ?held" using earliest_stop_spec[of stops ?held] by simp
    then have free: "stop_free stops all"
      unfolding stop_free_def stop_at_drop by (metis in_held le_add_diff_inverse)
    let ?k = "hold_len stops all"
    have get: "str_get ?held 0 (length ?held - ?k) = Some (take (length ?held - ?k) ?held)"
      using hb(3) by (simp add: str_get_def is_char_boundary_def)
    have "off \<le> length all" by (simp add: off_def all_def)
    then have len: "length all - ?k = off + (length ?held - ?k)" using hb(2) by simp
    have "stop_push (buffer_after stops seen) t =
        Some (\<lparr>sf_emit = take (length ?held - ?k) ?held, sf_matched = None\<rparr>,
          (buffer_after stops seen)\<lparr>stop_held := drop (length ?held - ?k) ?held\<rparr>)"
      using None some_stops held get hb(1)
      by (simp add: stop_push_def Let_def) (simp add: buffer_after_def partial_suffix_len_def Let_def)
    moreover have "take (length ?held - ?k) ?held = drop off (take (length all - ?k) all)"
      unfolding len by (simp only: drop_take diff_add_inverse)
    moreover have "(buffer_after stops seen)\<lparr>stop_held := drop (length ?held - ?k) ?held\<rparr> = buffer_after stops all"
      using len by (simp add: buffer_after_def add.commute)
    ultimately show ?thesis using free len by simp
  qed
  qed
qed


section \<open>A stream of pushes\<close>

text \<open>The caller's loop: the emitted text up to the first match, and the buffer when there is none.\<close>

fun stop_feeds :: "stop_buffer \<Rightarrow> utf8 list \<Rightarrow> (utf8 \<times> utf8 option \<times> stop_buffer) option" where
  "stop_feeds b [] = Some ([], None, b)"
| "stop_feeds b (t # ts) =
     Option.bind (stop_push b t) (\<lambda>(fed, b).
     case sf_matched fed of
       Some stop \<Rightarrow> Some (sf_emit fed, Some stop, b)
     | None \<Rightarrow> map_option (\<lambda>(out, m, b). (sf_emit fed @ out, m, b)) (stop_feeds b ts))"

text \<open>What the loop does, told over the text seen so far.\<close>

fun stop_reading :: "utf8 list \<Rightarrow> utf8 \<Rightarrow> utf8 list \<Rightarrow> utf8 \<Rightarrow> utf8 option \<Rightarrow> bool" where
  "stop_reading stops seen [] out m \<longleftrightarrow> m = None \<and> out = take (length seen - hold_len stops seen) seen"
| "stop_reading stops seen (t # ts) out m \<longleftrightarrow>
     (if stop_free stops (seen @ t) then stop_reading stops (seen @ t) ts out m
      else \<exists>pos stop. first_stop stops (seen @ t) pos stop \<and> out = take pos (seen @ t) \<and> m = Some stop)"

lemma stop_feeds_reading:
  assumes "stops_ok stops" and "stop_free stops seen"
  shows "\<exists>out m b. stop_feeds (buffer_after stops seen) ts = Some (out, m, b) \<and>
    stop_reading stops seen ts (take (length seen - hold_len stops seen) seen @ out) m \<and>
    (m = None \<longrightarrow> b = buffer_after stops (seen @ concat ts) \<and> stop_free stops (seen @ concat ts) \<and>
      take (length seen - hold_len stops seen) seen @ out @ stop_held b = seen @ concat ts)"
  using assms(2)
proof (induction ts arbitrary: seen)
  case Nil
  then show ?case by (simp add: buffer_after_def)
next
  case (Cons t ts)
  define off where "off = length seen - hold_len stops seen"
  have early: "take off seen @ drop off (take n (seen @ t)) = take n (seen @ t)" if "off \<le> n" for n
  proof -
    have "off \<le> length seen" by (simp add: off_def)
    then have "take off seen = take off (take n (seen @ t))" using that by (simp only: take_take min_absorb1 take_append) simp
    then show ?thesis by (simp only: append_take_drop_id)
  qed
  from stop_push_spec[OF assms(1) Cons.prems, of t, folded off_def] show ?case
  proof (elim disjE conjE exE)
    let ?all = "seen @ t"
    let ?n = "length ?all - hold_len stops ?all"
    assume free: "stop_free stops ?all" and le: "off \<le> ?n"
      and push: "stop_push (buffer_after stops seen) t = Some (\<lparr>sf_emit = drop off (take ?n ?all), sf_matched = None\<rparr>, buffer_after stops ?all)"
    have whole: "take off seen @ drop off (take ?n ?all) @ out = take ?n ?all @ out" for out
      using early[OF le] by (metis append.assoc)
    obtain out m b where ih: "stop_feeds (buffer_after stops ?all) ts = Some (out, m, b)"
      "stop_reading stops ?all ts (take ?n ?all @ out) m"
      "m = None \<longrightarrow> b = buffer_after stops (?all @ concat ts) \<and> stop_free stops (?all @ concat ts) \<and>
         take ?n ?all @ out @ stop_held b = ?all @ concat ts"
      using Cons.IH[OF free] by blast
    have "stop_feeds (buffer_after stops seen) (t # ts) = Some (drop off (take ?n ?all) @ out, m, b)"
      using push ih(1) by simp
    moreover have "stop_reading stops seen (t # ts) (take off seen @ drop off (take ?n ?all) @ out) m"
      using ih(2) by (simp only: stop_reading.simps free if_True whole)
    moreover have "m = None \<longrightarrow> b = buffer_after stops (seen @ concat (t # ts)) \<and> stop_free stops (seen @ concat (t # ts)) \<and>
        take off seen @ (drop off (take ?n ?all) @ out) @ stop_held b = seen @ concat (t # ts)"
      using ih(3) by (simp only: concat.simps append.assoc whole)
    ultimately show ?thesis unfolding off_def[symmetric] by blast
  next
    fix pos stop b
    assume first: "first_stop stops (seen @ t) pos stop" and "off \<le> pos"
      and push: "stop_push (buffer_after stops seen) t = Some (\<lparr>sf_emit = drop off (take pos (seen @ t)), sf_matched = Some stop\<rparr>, b)"
    note early[OF \<open>off \<le> pos\<close>]
    moreover have "\<not> stop_free stops (seen @ t)" using first by (auto simp: first_stop_def stop_free_def)
    ultimately show ?thesis using push first unfolding off_def[symmetric] by auto
  qed
qed

lemma stop_new_after: "stop_new stops = buffer_after (filter (\<lambda>s. s \<noteq> []) stops) []"
  by (simp add: stop_new_def buffer_after_def Let_def)

lemma stop_free_Nil: "stops_ok stops \<Longrightarrow> stop_free stops []"
  by (auto simp: stops_ok_def stop_free_def stop_at_def)

lemma first_stop_free:
  assumes "stops_ok stops" and "first_stop stops t pos stop"
  shows "stop_free stops (take pos t)"
proof -
  have "\<not> stop_at (take pos t) s p" if s: "s \<in> set stops" for s p
  proof
    assume at: "stop_at (take pos t) s p"
    have "s \<noteq> []" using assms(1) s by (auto simp: stops_ok_def)
    from stop_at_bound[OF at this] have le: "p + length s \<le> pos" by simp
    then have "min (length s) (pos - p) = length s" by linarith
    with at have "stop_at t s p" by (simp add: stop_at_def drop_take)
    with assms(2) s have "pos \<le> p" unfolding first_stop_def by (metis less_or_eq_imp_le nat_less_le order_refl)
    with le \<open>s \<noteq> []\<close> show False by (cases s) simp_all
  qed
  then show ?thesis by (simp add: stop_free_def)
qed

lemma first_stop_prefix: "first_stop stops t pos stop \<Longrightarrow> \<exists>rest. take pos t @ stop @ rest = t"
  unfolding first_stop_def stop_at_def by (metis append_take_drop_id)

end
