(* ===== verification/Dec_Loop.thy ===== *)
theory Dec_Loop
  imports Dec_Bridge Dec_Stop Smp_Sampler Kv_Contig
begin

text \<open>
  \<open>oxillama-runtime/src/engine/generation.rs\<close>: the decode loop that every way of generating shares,
  with the sampler, the token bytes, the streaming UTF-8 decoder and the stop sequences of the
  other theories. The model itself, a \<open>dyn ForwardPass\<close>, is the record of parameters \<open>forward_ops\<close>;
  what the caller's flag reads at an iteration is a function of the iteration. Times are not modelled.
\<close>

section \<open>Results and settings\<close>

datatype finish_reason = Eos | MaxTokens | ContextFull | Stopped | Cancelled

fun as_openai_str :: "finish_reason \<Rightarrow> string" where
  "as_openai_str Eos = ''stop''"
| "as_openai_str Stopped = ''stop''"
| "as_openai_str MaxTokens = ''length''"
| "as_openai_str ContextFull = ''length''"
| "as_openai_str Cancelled = ''cancelled''"

definition is_natural :: "finish_reason \<Rightarrow> bool" where
  "is_natural r \<longleftrightarrow> r = Eos \<or> r = Stopped"

definition is_cancelled :: "finish_reason \<Rightarrow> bool" where
  "is_cancelled r \<longleftrightarrow> r = Cancelled"

record generation_config =
  gc_max_tokens :: nat
  gc_sampler :: sampler_config
  gc_stop :: "utf8 list"
  gc_render_special :: bool
  gc_add_special :: bool
  gc_parse_special :: bool
  gc_cancel_flag :: "(nat \<Rightarrow> bool) option"

definition generation_config_default :: generation_config where
  "generation_config_default =
     \<lparr>gc_max_tokens = 128, gc_sampler = sampler_config_default, gc_stop = [], gc_render_special = False,
      gc_add_special = True, gc_parse_special = True, gc_cancel_flag = None\<rparr>"

definition generation_config_new :: "nat \<Rightarrow> generation_config" where
  "generation_config_new max_tokens = generation_config_default\<lparr>gc_max_tokens := max_tokens\<rparr>"

record generation_outcome =
  go_text :: utf8
  go_finish_reason :: finish_reason
  go_generated_tokens :: "u32 list"
  go_prompt_tokens :: nat
  go_stop_sequence :: "utf8 option"

definition completion_tokens :: "generation_outcome \<Rightarrow> nat" where
  "completion_tokens o' = length (go_generated_tokens o')"

definition total_tokens :: "generation_outcome \<Rightarrow> nat" where
  "total_tokens o' = go_prompt_tokens o' + length (go_generated_tokens o')"

text \<open>What the loop calls of the architecture; the error is \<open>ArchError\<close>.\<close>

record ('f, 'e) forward_ops =
  fw_forward :: "u32 list \<Rightarrow> 'f \<times> kv_cache \<Rightarrow> ('e + f32 list) \<times> 'f \<times> kv_cache"
  fw_max_context :: "'f \<Rightarrow> nat"
  fw_reset_sequence :: "'f \<Rightarrow> 'f"

datatype 'e runtime_error =
    ModelNotLoaded
  | ModelLoadError string
  | TokenizerFailed bridge_error
  | SamplingFailed sampling_error
  | ArchFailed 'e
  | KvFailed kv_error
  | DecodePanic

record engine_metrics =
  em_tokens_generated :: u64
  em_tokens_prefilled :: u64
  em_kv_cache_hits :: u64
  em_kv_cache_misses :: u64
  em_requests_started :: u64
  em_requests_completed :: u64

definition metrics_new :: engine_metrics where
  "metrics_new = \<lparr>em_tokens_generated = 0, em_tokens_prefilled = 0, em_kv_cache_hits = 0, em_kv_cache_misses = 0,
     em_requests_started = 0, em_requests_completed = 0\<rparr>"

section \<open>Prefill\<close>

text \<open>The architecture, its cache and the counters are threaded through every call.\<close>

type_synonym 'f live = "'f \<times> kv_cache"

fun chunks_of :: "nat \<Rightarrow> 'a list \<Rightarrow> 'a list list" where
  "chunks_of 0 xs = []"
| "chunks_of (Suc n) [] = []"
| "chunks_of (Suc n) (x # xs) = (x # take n xs) # chunks_of (Suc n) (drop n xs)"

fun forward_chunks ::
  "('f, 'e) forward_ops \<Rightarrow> u32 list list \<Rightarrow> f32 list \<Rightarrow> 'f live \<Rightarrow> ('e runtime_error + f32 list) \<times> 'f live" where
  "forward_chunks fw [] logits s = (Inr logits, s)"
| "forward_chunks fw (chunk # chunks) logits s =
     (case fw_forward fw chunk s of
        (Inl e, s) \<Rightarrow> (Inl (ArchFailed e), s)
      | (Inr logits, s) \<Rightarrow> forward_chunks fw chunks logits s)"

definition prefill_chunked ::
  "('f, 'e) forward_ops \<Rightarrow> u32 list \<Rightarrow> nat \<Rightarrow> 'f live \<Rightarrow> engine_metrics \<Rightarrow>
     ('e runtime_error + f32 list) \<times> 'f live \<times> engine_metrics" where
  "prefill_chunked fw tokens chunk_size s m =
     (if tokens = [] then (Inr [], s, m)
      else let chunk_size = (if chunk_size = 0 then length tokens else chunk_size);
               (res, s) = (if length tokens \<le> chunk_size then forward_chunks fw [tokens] [] s
                           else forward_chunks fw (chunks_of chunk_size tokens) [] s)
           in case res of
                Inl e \<Rightarrow> (Inl e, s, m)
              | Inr logits \<Rightarrow> (Inr logits, s, m\<lparr>em_tokens_prefilled := em_tokens_prefilled m + of_nat (length tokens)\<rparr>))"

section \<open>The loop\<close>

record ('re, 'h, 'f, 'e) decode_env =
  de_f32 :: f32_ops
  de_hf :: "'h hf_ops"
  de_forward :: "('f, 'e) forward_ops"
  de_tokenizer :: "('re, 'h) tokenizer_bridge"
  de_config :: generation_config
  de_max_ctx :: nat

record 'f decode_state =
  ds_live :: "'f live"
  ds_metrics :: engine_metrics
  ds_sampler :: sampler
  ds_detokenizer :: utf8_decoder
  ds_stop :: stop_buffer
  ds_generated :: "u32 list"
  ds_recent :: "u32 list"
  ds_text :: utf8
  ds_calls :: "utf8 list"
  ds_logits :: "f32 list"

text \<open>The callback gets a piece that is not empty, and the text grows by it.\<close>

definition emit :: "utf8 \<Rightarrow> 'f decode_state \<Rightarrow> 'f decode_state" where
  "emit piece s =
     (if piece = [] then s else s\<lparr>ds_calls := ds_calls s @ [piece], ds_text := ds_text s @ piece\<rparr>)"

definition flag_raised :: "generation_config \<Rightarrow> nat \<Rightarrow> bool" where
  "flag_raised config i = (case gc_cancel_flag config of None \<Rightarrow> False | Some flag \<Rightarrow> flag i)"

text \<open>One pass: the state, and how the loop ends when it does. Every pass that does not end it
  generates one token, so that their number is the iteration.\<close>

definition decode_step ::
  "('re, 'h, 'f, 'e) decode_env \<Rightarrow> 'f decode_state \<Rightarrow>
     'f decode_state \<times> ('e runtime_error + finish_reason \<times> utf8 option) option" where
  "decode_step env s =
     (if flag_raised (de_config env) (length (ds_generated s)) then (s, Some (Inr (Cancelled, None)))
      else if gc_max_tokens (de_config env) \<le> length (ds_generated s) then (s, Some (Inr (MaxTokens, None)))
      else if de_max_ctx env \<le> kc_seq_len (snd (ds_live s)) then (s, Some (Inr (ContextFull, None)))
      else if ds_logits s = [] then (s, Some (Inr (ContextFull, None)))
      else case try_sample (de_f32 env) (ds_sampler s) (ds_logits s) (ds_recent s) of
             (Inl e, sampler) \<Rightarrow> (s\<lparr>ds_sampler := sampler\<rparr>, Some (Inl (SamplingFailed e)))
           | (Inr next_token, sampler) \<Rightarrow>
               let s = s\<lparr>ds_sampler := sampler\<rparr>
               in if bridge_is_eog (de_tokenizer env) next_token then (s, Some (Inr (Eos, None)))
                  else let bytes = decode_token_bytes (de_hf env) (de_tokenizer env) [next_token]
                                     (\<not> gc_render_special (de_config env));
                           (decoded, detokenizer) = utf8_push (ds_detokenizer s) bytes;
                           s = s\<lparr>ds_detokenizer := detokenizer\<rparr>
                       in case stop_push (ds_stop s) decoded of
                            None \<Rightarrow> (s, Some (Inl DecodePanic))
                          | Some (fed, stop) \<Rightarrow>
                              let s = emit (sf_emit fed) (s\<lparr>ds_stop := stop\<rparr>)
                              in case sf_matched fed of
                                   Some matched \<Rightarrow>
                                     (s\<lparr>ds_generated := ds_generated s @ [next_token]\<rparr>,
                                      Some (Inr (Stopped, Some matched)))
                                 | None \<Rightarrow>
                                     let s = s\<lparr>ds_recent := ds_recent s @ [next_token],
                                               ds_generated := ds_generated s @ [next_token]\<rparr>
                                     in case fw_forward (de_forward env) [next_token] (ds_live s) of
                                          (Inl e, live) \<Rightarrow> (s\<lparr>ds_live := live\<rparr>, Some (Inl (ArchFailed e)))
                                        | (Inr logits, live) \<Rightarrow>
                                            (s\<lparr>ds_live := live, ds_logits := logits,
                                               ds_metrics := (ds_metrics s)\<lparr>em_tokens_generated :=
                                                 em_tokens_generated (ds_metrics s) + 1\<rparr>\<rparr>, None))"

lemma emit_same [simp]:
  "ds_generated (emit p s) = ds_generated s" "ds_live (emit p s) = ds_live s" "ds_recent (emit p s) = ds_recent s"
  "ds_stop (emit p s) = ds_stop s" "ds_detokenizer (emit p s) = ds_detokenizer s" "ds_sampler (emit p s) = ds_sampler s"
  "ds_logits (emit p s) = ds_logits s" "ds_metrics (emit p s) = ds_metrics s" "ds_text (emit p s) = ds_text s @ p"
  "concat (ds_calls (emit p s)) = concat (ds_calls s) @ p"
  by (simp_all add: emit_def)

text \<open>A pass that goes on, in full.\<close>

lemma decode_step_goes_on:
  assumes "decode_step env s = (s', None)"
  obtains tok sampler decoded detok fed stop logits live
  where "length (ds_generated s) < gc_max_tokens (de_config env)" and "kc_seq_len (snd (ds_live s)) < de_max_ctx env"
    and "\<not> flag_raised (de_config env) (length (ds_generated s))"
    and "try_sample (de_f32 env) (ds_sampler s) (ds_logits s) (ds_recent s) = (Inr tok, sampler)"
    and "\<not> bridge_is_eog (de_tokenizer env) tok"
    and "utf8_push (ds_detokenizer s) (decode_token_bytes (de_hf env) (de_tokenizer env) [tok]
           (\<not> gc_render_special (de_config env))) = (decoded, detok)"
    and "stop_push (ds_stop s) decoded = Some (fed, stop)" and "sf_matched fed = None"
    and "fw_forward (de_forward env) [tok] (ds_live s) = (Inr logits, live)"
    and "ds_generated s' = ds_generated s @ [tok]" and "ds_recent s' = ds_recent s @ [tok]"
    and "ds_text s' = ds_text s @ sf_emit fed" and "concat (ds_calls s') = concat (ds_calls s) @ sf_emit fed"
    and "ds_live s' = live" and "ds_stop s' = stop" and "ds_detokenizer s' = detok" and "ds_sampler s' = sampler"
    and "ds_logits s' = logits"
  using assms unfolding decode_step_def Let_def
  by (auto split: if_splits prod.splits sum.splits option.splits intro!: that)

function decode_loop ::
  "('re, 'h, 'f, 'e) decode_env \<Rightarrow> 'f decode_state \<Rightarrow>
     'f decode_state \<times> ('e runtime_error + finish_reason \<times> utf8 option)" where
  "decode_loop env s =
     (case decode_step env s of
        (s', Some result) \<Rightarrow> (s', result)
      | (s', None) \<Rightarrow> decode_loop env s')"
  by pat_completeness auto
termination
proof (relation "measure (\<lambda>(env, s). gc_max_tokens (de_config env) - length (ds_generated s))", goal_cases)
  case (2 env s s' p)
  then have "decode_step env s = (s', None)" by simp
  then show ?case by (rule decode_step_goes_on) simp
qed simp

declare decode_loop.simps [simp del]

section \<open>The whole run\<close>

text \<open>The model's own set ends the generation under a grammar unless the caller named one.\<close>

definition with_eog :: "('re, 'h) tokenizer_bridge \<Rightarrow> sampler_config \<Rightarrow> sampler_config" where
  "with_eog tb c =
     (if sc_eog_token_ids c = [] then c\<lparr>sc_eog_token_ids := sorted_list_of_set (spt_eog (tb_special tb))\<rparr> else c)"

record ('re, 'h, 'f, 'e) decode_context =
  dc_f32 :: f32_ops
  dc_hf :: "'h hf_ops"
  dc_forward :: "('f, 'e) forward_ops"
  dc_tokenizer :: "('re, 'h) tokenizer_bridge"
  dc_live :: "'f live"
  dc_metrics :: engine_metrics
  dc_fresh_seed :: u64

definition decode_env_of ::
  "('re, 'h, 'f, 'e) decode_context \<Rightarrow> generation_config \<Rightarrow> ('re, 'h, 'f, 'e) decode_env" where
  "decode_env_of ctx config =
     \<lparr>de_f32 = dc_f32 ctx, de_hf = dc_hf ctx, de_forward = dc_forward ctx, de_tokenizer = dc_tokenizer ctx,
      de_config = config,
      de_max_ctx = min (fw_max_context (dc_forward ctx) (fst (dc_live ctx))) (kc_max_seq_len (snd (dc_live ctx)))\<rparr>"

definition decode_start ::
  "('re, 'h, 'f, 'e) decode_context \<Rightarrow> generation_config \<Rightarrow> f32 list \<Rightarrow> u32 list \<Rightarrow> 'f decode_state" where
  "decode_start ctx config initial_logits recent =
     \<lparr>ds_live = dc_live ctx,
      ds_metrics = (dc_metrics ctx)\<lparr>em_requests_started := em_requests_started (dc_metrics ctx) + 1\<rparr>,
      ds_sampler = sampler_new (dc_f32 ctx) (dc_fresh_seed ctx) (with_eog (dc_tokenizer ctx) (gc_sampler config)),
      ds_detokenizer = [], ds_stop = stop_new (gc_stop config), ds_generated = [], ds_recent = recent,
      ds_text = [], ds_calls = [], ds_logits = initial_logits\<rparr>"

text \<open>What is still buffered is released: a cut-off UTF-8 tail, then the text held back.\<close>

definition release_tail ::
  "finish_reason \<times> utf8 option \<Rightarrow> 'f decode_state \<Rightarrow> ('f decode_state \<times> utf8 option) option" where
  "release_tail res s =
     (case res of (finish_reason, stop_sequence) \<Rightarrow>
        if finish_reason = Stopped then Some (s, stop_sequence)
        else
          let (tail, detokenizer) = utf8_finish (ds_detokenizer s);
              s = s\<lparr>ds_detokenizer := detokenizer\<rparr>
          in case (if tail = [] then Some (s, stop_sequence)
                   else map_option (\<lambda>(fed, stop). (emit (sf_emit fed) (s\<lparr>ds_stop := stop\<rparr>), sf_matched fed))
                          (stop_push (ds_stop s) tail)) of
               None \<Rightarrow> None
             | Some (s, stop_sequence) \<Rightarrow>
                 if stop_sequence = None
                 then let (held, stop) = stop_flush (ds_stop s)
                      in Some (emit held (s\<lparr>ds_stop := stop\<rparr>), stop_sequence)
                 else Some (s, stop_sequence))"

definition final_reason :: "finish_reason \<Rightarrow> utf8 option \<Rightarrow> finish_reason" where
  "final_reason finish_reason stop_sequence =
     (if stop_sequence \<noteq> None \<and> finish_reason \<noteq> Cancelled then Stopped else finish_reason)"

definition run_decode_loop ::
  "('re, 'h, 'f, 'e) decode_context \<Rightarrow> generation_config \<Rightarrow> f32 list \<Rightarrow> u32 list \<Rightarrow>
     ('e runtime_error + generation_outcome) \<times> 'f decode_state" where
  "run_decode_loop ctx config initial_logits recent =
     (case decode_loop (decode_env_of ctx config) (decode_start ctx config initial_logits recent) of
        (s, Inl e) \<Rightarrow> (Inl e, s)
      | (s, Inr (finish_reason, stop_sequence)) \<Rightarrow>
          (case release_tail (finish_reason, stop_sequence) s of
             None \<Rightarrow> (Inl DecodePanic, s)
           | Some (s, stop_sequence) \<Rightarrow>
               (Inr \<lparr>go_text = ds_text s, go_finish_reason = final_reason finish_reason stop_sequence,
                  go_generated_tokens = ds_generated s, go_prompt_tokens = length recent,
                  go_stop_sequence = stop_sequence\<rparr>,
                s\<lparr>ds_metrics := (ds_metrics s)\<lparr>em_requests_completed := em_requests_completed (ds_metrics s) + 1\<rparr>\<rparr>)))"

end
