(* ===== verification/Dec_Engine.thy ===== *)
theory Dec_Engine
  imports Dec_Loop Prefix_Cache
begin

text \<open>
  \<open>InferenceEngine\<close> of \<open>oxillama-runtime/src/engine/mod.rs\<close>, once a model is loaded: prefill, generation,
  the reuse of a cached prefix and the single steps that the scheduler drives.
\<close>

section \<open>State\<close>

record ('re, 'h, 'f) engine =
  en_prefill_chunk_size :: nat
  en_sampler :: sampler_config
  en_forward :: "'f option"
  en_kv :: "kv_cache option"
  en_tokenizer :: "('re, 'h) tokenizer_bridge option"
  en_eos_token_id :: "u32 option"
  en_metrics :: engine_metrics

text \<open>What the engine calls: arithmetic, the foreign tokenizer, the architecture, the conversions of the
  cache, and what the tokenizer of the file needs.\<close>

record ('re, 'h, 'f, 'e) engine_deps =
  ed_f32 :: f32_ops
  ed_hf :: "'h hf_ops"
  ed_forward :: "('f, 'e) forward_ops"
  ed_f16 :: f16_conv
  ed_find_iter :: "'re \<Rightarrow> utf8 \<Rightarrow> (nat \<times> nat) option list"
  ed_lower :: "u32 \<Rightarrow> u32 list"

definition engine_new :: "nat \<Rightarrow> sampler_config \<Rightarrow> ('re, 'h, 'f) engine" where
  "engine_new chunk c = \<lparr>en_prefill_chunk_size = chunk, en_sampler = c, en_forward = None, en_kv = None,
     en_tokenizer = None, en_eos_token_id = None, en_metrics = metrics_new\<rparr>"

definition DEFAULT_MAX_CONTEXT :: nat where
  "DEFAULT_MAX_CONTEXT = 4096"

definition resolve_context_size :: "nat option \<Rightarrow> nat \<Rightarrow> nat" where
  "resolve_context_size requested n_ctx_train =
     (case requested of
        None \<Rightarrow> max 1 (min n_ctx_train DEFAULT_MAX_CONTEXT)
      | Some ctx \<Rightarrow> if ctx = 0 then max 1 (min n_ctx_train DEFAULT_MAX_CONTEXT) else ctx)"

definition en_live :: "('re, 'h, 'f) engine \<Rightarrow> 'e runtime_error + 'f live" where
  "en_live en =
     and_then (ok_or (en_forward en) ModelNotLoaded) (\<lambda>f.
     and_then (ok_or (en_kv en) ModelNotLoaded) (\<lambda>kv. Inr (f, kv)))"

definition set_live :: "'f live \<Rightarrow> ('re, 'h, 'f) engine \<Rightarrow> ('re, 'h, 'f) engine" where
  "set_live s en = en\<lparr>en_forward := Some (fst s), en_kv := Some (snd s)\<rparr>"

section \<open>Sequences\<close>

definition en_reset :: "('f, 'e) forward_ops \<Rightarrow> ('re, 'h, 'f) engine \<Rightarrow> ('re, 'h, 'f) engine" where
  "en_reset fw en =
     en\<lparr>en_kv := map_option kv_clear (en_kv en), en_forward := map_option (fw_reset_sequence fw) (en_forward en)\<rparr>"

definition en_truncate :: "nat \<Rightarrow> ('re, 'h, 'f) engine \<Rightarrow> 'e runtime_error + ('re, 'h, 'f) engine" where
  "en_truncate n en =
     and_then (ok_or (en_kv en) ModelNotLoaded) (\<lambda>kv. Inr (en\<lparr>en_kv := Some (kv_truncate n kv)\<rparr>))"

definition kv_cache_seq_len :: "('re, 'h, 'f) engine \<Rightarrow> nat" where
  "kv_cache_seq_len en = (case en_kv en of None \<Rightarrow> 0 | Some kv \<Rightarrow> kc_seq_len kv)"

definition is_loaded :: "('re, 'h, 'f) engine \<Rightarrow> bool" where
  "is_loaded en \<longleftrightarrow> en_forward en \<noteq> None"

definition is_eos :: "('re, 'h, 'f) engine \<Rightarrow> u32 \<Rightarrow> bool" where
  "is_eos en token =
     (case en_tokenizer en of Some tb \<Rightarrow> bridge_is_eog tb token | None \<Rightarrow> en_eos_token_id en = Some token)"

definition en_eog_token_ids :: "('re, 'h, 'f) engine \<Rightarrow> u32 list" where
  "en_eog_token_ids en =
     (case en_tokenizer en of Some tb \<Rightarrow> sorted_list_of_set (spt_eog (tb_special tb)) | None \<Rightarrow> [])"

definition kv_restore ::
  "f16_conv \<Rightarrow> kv_cache_snapshot \<Rightarrow> ('re, 'h, 'f) engine \<Rightarrow> 'e runtime_error + ('re, 'h, 'f) engine" where
  "kv_restore fc snap en =
     and_then (ok_or (en_kv en) ModelNotLoaded) (\<lambda>kv.
       case kv_restore_from_snapshot fc (ks_keys snap) (ks_values snap) (ks_seq_len snap) kv of
         Inl e \<Rightarrow> Inl (KvFailed e)
       | Inr kv \<Rightarrow> Inr (en\<lparr>en_kv := Some kv\<rparr>))"

definition en_kv_snapshot :: "f16_conv \<Rightarrow> ('re, 'h, 'f) engine \<Rightarrow> kv_cache_snapshot option" where
  "en_kv_snapshot fc en = map_option (kv_snapshot fc) (en_kv en)"

section \<open>Tokenizing\<close>

definition en_tokenize_with ::
  "('re, 'h, 'f, 'e) engine_deps \<Rightarrow> ('re, 'h, 'f) engine \<Rightarrow> utf8 \<Rightarrow> bool \<Rightarrow> bool \<Rightarrow> 'e runtime_error + u32 list" where
  "en_tokenize_with deps en t add_special parse_special =
     and_then (ok_or (en_tokenizer en) ModelNotLoaded) (\<lambda>tb.
       case encode_with (ed_hf deps) (ed_find_iter deps) (ed_lower deps) tb t add_special parse_special of
         Inl e \<Rightarrow> Inl (TokenizerFailed e)
       | Inr ids \<Rightarrow> Inr ids)"

definition en_decode_token :: "('re, 'h, 'f, 'e) engine_deps \<Rightarrow> ('re, 'h, 'f) engine \<Rightarrow> u32 \<Rightarrow> bool \<Rightarrow> 'e runtime_error + utf8" where
  "en_decode_token deps en token skip_special =
     and_then (ok_or (en_tokenizer en) ModelNotLoaded) (\<lambda>tb.
       case decode_with (ed_hf deps) tb [token] skip_special of Inl e \<Rightarrow> Inl (TokenizerFailed e) | Inr t \<Rightarrow> Inr t)"

section \<open>Forward passes\<close>

definition en_prefill ::
  "('f, 'e) forward_ops \<Rightarrow> u32 list \<Rightarrow> ('re, 'h, 'f) engine \<Rightarrow> ('e runtime_error + unit) \<times> ('re, 'h, 'f) engine" where
  "en_prefill fw tokens en =
     (if tokens = [] then (Inr (), en)
      else case en_live en of
             Inl e \<Rightarrow> (Inl e, en)
           | Inr s \<Rightarrow>
               let (res, s, m) = prefill_chunked fw tokens (en_prefill_chunk_size en) s (en_metrics en);
                   en = (set_live s en)\<lparr>en_metrics := m\<rparr>
               in (case res of Inl e \<Rightarrow> Inl e | Inr logits \<Rightarrow> Inr (), en))"

definition forward_with ::
  "('f, 'e) forward_ops \<Rightarrow> u32 list \<Rightarrow> ('re, 'h, 'f) engine \<Rightarrow> ('e runtime_error + f32 list) \<times> ('re, 'h, 'f) engine" where
  "forward_with fw tokens en =
     (case en_live en of
        Inl e \<Rightarrow> (Inl e, en)
      | Inr s \<Rightarrow>
          let (res, s) = fw_forward fw tokens s
          in (case res of Inl e \<Rightarrow> Inl (ArchFailed e) | Inr logits \<Rightarrow> Inr logits, set_live s en))"

definition forward_prefill ::
  "('f, 'e) forward_ops \<Rightarrow> u32 list \<Rightarrow> ('re, 'h, 'f) engine \<Rightarrow> ('e runtime_error + f32 list) \<times> ('re, 'h, 'f) engine" where
  "forward_prefill fw tokens en =
     (if tokens = [] then (Inl (ModelLoadError ''forward_prefill called with empty token slice''), en)
      else forward_with fw tokens en)"

definition forward_decode ::
  "('f, 'e) forward_ops \<Rightarrow> u32 \<Rightarrow> ('re, 'h, 'f) engine \<Rightarrow> ('e runtime_error + f32 list) \<times> ('re, 'h, 'f) engine" where
  "forward_decode fw token en = forward_with fw [token] en"

definition forward_one ::
  "('f, 'e) forward_ops \<Rightarrow> u32 \<Rightarrow> ('re, 'h, 'f) engine \<Rightarrow> ('e runtime_error + f32 list) \<times> ('re, 'h, 'f) engine" where
  "forward_one fw token en = forward_with fw [token] en"

section \<open>Generation\<close>

text \<open>The calls of the callback are the last component.\<close>

definition decode_with_engine ::
  "('re, 'h, 'f, 'e) engine_deps \<Rightarrow> u64 \<Rightarrow> ('re, 'h) tokenizer_bridge \<Rightarrow> 'f live \<Rightarrow> generation_config \<Rightarrow>
     f32 list \<Rightarrow> u32 list \<Rightarrow> ('re, 'h, 'f) engine \<Rightarrow>
     ('e runtime_error + generation_outcome) \<times> ('re, 'h, 'f) engine \<times> utf8 list" where
  "decode_with_engine deps fresh tb s config logits recent en =
     (let (res, ds) = run_decode_loop
            \<lparr>dc_f32 = ed_f32 deps, dc_hf = ed_hf deps, dc_forward = ed_forward deps, dc_tokenizer = tb, dc_live = s,
             dc_metrics = en_metrics en, dc_fresh_seed = fresh\<rparr> config logits recent
      in (res, (set_live (ds_live ds) en)\<lparr>en_metrics := ds_metrics ds\<rparr>, ds_calls ds))"

definition generate_detailed_with_tokens ::
  "('re, 'h, 'f, 'e) engine_deps \<Rightarrow> u64 \<Rightarrow> u32 list \<Rightarrow> generation_config \<Rightarrow> ('re, 'h, 'f) engine \<Rightarrow>
     ('e runtime_error + generation_outcome) \<times> ('re, 'h, 'f) engine \<times> utf8 list" where
  "generate_detailed_with_tokens deps fresh prompt config en =
     (case en_tokenizer en of
        None \<Rightarrow> (Inl ModelNotLoaded, en, [])
      | Some tb \<Rightarrow>
          (case en_live en of
             Inl e \<Rightarrow> (Inl e, en, [])
           | Inr s \<Rightarrow>
               if prompt = []
               then (Inr \<lparr>go_text = [], go_finish_reason = Eos, go_generated_tokens = [], go_prompt_tokens = 0,
                       go_stop_sequence = None\<rparr>, en, [])
               else let (res, s, m) = prefill_chunked (ed_forward deps) prompt (en_prefill_chunk_size en) s (en_metrics en);
                        en = (set_live s en)\<lparr>en_metrics := m\<rparr>
                    in case res of
                         Inl e \<Rightarrow> (Inl e, en, [])
                       | Inr logits \<Rightarrow> decode_with_engine deps fresh tb s config logits prompt en))"

definition generate_detailed ::
  "('re, 'h, 'f, 'e) engine_deps \<Rightarrow> u64 \<Rightarrow> utf8 \<Rightarrow> generation_config \<Rightarrow> ('re, 'h, 'f) engine \<Rightarrow>
     ('e runtime_error + generation_outcome) \<times> ('re, 'h, 'f) engine \<times> utf8 list" where
  "generate_detailed deps fresh prompt config en =
     (case en_tokenize_with deps en prompt (gc_add_special config) (gc_parse_special config) of
        Inl e \<Rightarrow> (Inl e, en, [])
      | Inr prompt_tokens \<Rightarrow> generate_detailed_with_tokens deps fresh prompt_tokens config en)"

definition generate_with_config ::
  "('re, 'h, 'f, 'e) engine_deps \<Rightarrow> u64 \<Rightarrow> utf8 \<Rightarrow> nat \<Rightarrow> sampler_config \<Rightarrow> ('re, 'h, 'f) engine \<Rightarrow>
     ('e runtime_error + utf8) \<times> ('re, 'h, 'f) engine \<times> utf8 list" where
  "generate_with_config deps fresh prompt max_tokens c en =
     (let (res, en, calls) = generate_detailed deps fresh prompt
            (generation_config_default\<lparr>gc_max_tokens := max_tokens, gc_sampler := c\<rparr>) en
      in (case res of Inl e \<Rightarrow> Inl e | Inr out \<Rightarrow> Inr (go_text out), en, calls))"

definition generate ::
  "('re, 'h, 'f, 'e) engine_deps \<Rightarrow> u64 \<Rightarrow> utf8 \<Rightarrow> nat \<Rightarrow> ('re, 'h, 'f) engine \<Rightarrow>
     ('e runtime_error + utf8) \<times> ('re, 'h, 'f) engine \<times> utf8 list" where
  "generate deps fresh prompt max_tokens en = generate_with_config deps fresh prompt max_tokens (en_sampler en) en"

definition generate_with_logits_detailed ::
  "('re, 'h, 'f, 'e) engine_deps \<Rightarrow> u64 \<Rightarrow> u32 list \<Rightarrow> f32 list \<Rightarrow> generation_config \<Rightarrow> ('re, 'h, 'f) engine \<Rightarrow>
     ('e runtime_error + generation_outcome) \<times> ('re, 'h, 'f) engine \<times> utf8 list" where
  "generate_with_logits_detailed deps fresh prompt logits config en =
     (case en_tokenizer en of
        None \<Rightarrow> (Inl ModelNotLoaded, en, [])
      | Some tb \<Rightarrow>
          (case en_live en of
             Inl e \<Rightarrow> (Inl e, en, [])
           | Inr s \<Rightarrow> decode_with_engine deps fresh tb s config logits prompt en))"

section \<open>The prefix cache\<close>

definition prime_with_prefix ::
  "('f, 'e) forward_ops \<Rightarrow> f16_conv \<Rightarrow> cached_kv \<Rightarrow> nat \<Rightarrow> u32 list \<Rightarrow> ('re, 'h, 'f) engine \<Rightarrow>
     ('e runtime_error + f32 list) \<times> ('re, 'h, 'f) engine" where
  "prime_with_prefix fw fc cached restore_to suffix_tokens en =
     (if suffix_tokens = []
      then (Inl (ModelLoadError ''prime_with_prefix: suffix_tokens must contain at least one token''), en)
      else let en = en\<lparr>en_forward := map_option (fw_reset_sequence fw) (en_forward en)\<rparr>
           in case en_kv en of
                None \<Rightarrow> (Inl ModelNotLoaded, en)
              | Some kv \<Rightarrow>
                  (case kv_restore_from_snapshot fc (ck_keys cached) (ck_values cached) restore_to kv of
                     Inl e \<Rightarrow> (Inl (KvFailed e), en)
                   | Inr kv \<Rightarrow>
                       let en = en\<lparr>en_kv := Some kv,
                             en_metrics := (en_metrics en)\<lparr>em_kv_cache_hits := em_kv_cache_hits (en_metrics en) + 1\<rparr>\<rparr>
                       in forward_with fw suffix_tokens en))"

definition store_kv_in_prefix_cache ::
  "f16_conv \<Rightarrow> nat \<Rightarrow> u32 list \<Rightarrow> ('re, 'h, 'f) engine \<Rightarrow> prefix_cache \<Rightarrow> (bool \<times> prefix_cache) option" where
  "store_kv_in_prefix_cache fc now tokens en c =
     (case en_kv en of
        None \<Rightarrow> Some (False, c)
      | Some kv \<Rightarrow>
          prefix_store now tokens (fetch_keys fc kv) (fetch_values fc kv) (kc_seq_len kv) (kc_kv_dim kv)
            (kc_num_layers kv) c)"

definition record_kv_cache_miss :: "('re, 'h, 'f) engine \<Rightarrow> ('re, 'h, 'f) engine" where
  "record_kv_cache_miss en =
     en\<lparr>en_metrics := (en_metrics en)\<lparr>em_kv_cache_misses := em_kv_cache_misses (en_metrics en) + 1\<rparr>\<rparr>"

end
