(* ===== verification/Dec_Safety.thy ===== *)
theory Dec_Safety
  imports Dec_Engine
begin

text \<open>
  The decode loop against what it promises: the text is the decoding of the bytes of all generated
  tokens, cut at the first stop sequence; why it ends means what it says.
\<close>

section \<open>The text of the tokens\<close>

definition token_text_bytes :: "('re, 'h, 'f, 'e) decode_env \<Rightarrow> u32 \<Rightarrow> u8 list" where
  "token_text_bytes env t =
     decode_token_bytes (de_hf env) (de_tokenizer env) [t] (\<not> gc_render_special (de_config env))"

definition all_bytes :: "('re, 'h, 'f, 'e) decode_env \<Rightarrow> u32 list \<Rightarrow> u8 list" where
  "all_bytes env ts = concat (map (token_text_bytes env) ts)"

definition live_stops :: "generation_config \<Rightarrow> utf8 list" where
  "live_stops config = filter (\<lambda>s. s \<noteq> []) (gc_stop config)"

lemma live_stops_ok: "(\<And>s. s \<in> set (gc_stop config) \<Longrightarrow> text_ok s) \<Longrightarrow> stops_ok (live_stops config)"
  by (auto simp: live_stops_def stops_ok_def)

lemma settle_push:
  assumes "utf8_push (snd (settle bs)) new = (decoded, rest)"
  shows "settle (bs @ new) = (fst (settle bs) @ decoded, rest)"
  using assms settle_append[of bs new] by (simp add: utf8_push_settle)

section \<open>The invariant of the loop\<close>

definition decode_inv :: "('re, 'h, 'f, 'e) decode_env \<Rightarrow> u32 list \<Rightarrow> 'f decode_state \<Rightarrow> bool" where
  "decode_inv env prompt s \<longleftrightarrow>
     (let seen = fst (settle (all_bytes env (ds_generated s))); stops = live_stops (de_config env)
      in ds_detokenizer s = snd (settle (all_bytes env (ds_generated s))) \<and>
         ds_stop s = buffer_after stops seen \<and> stop_free stops seen \<and>
         ds_text s = take (length seen - hold_len stops seen) seen \<and>
         concat (ds_calls s) = ds_text s \<and> ds_recent s = prompt @ ds_generated s \<and>
         length (ds_generated s) \<le> gc_max_tokens (de_config env) \<and>
         (\<forall>t \<in> set (ds_generated s). \<not> bridge_is_eog (de_tokenizer env) t))"

text \<open>How a run that matched a stop sequence ends: the text is all that was read before it.\<close>

definition stopped_inv :: "('re, 'h, 'f, 'e) decode_env \<Rightarrow> utf8 \<Rightarrow> utf8 \<Rightarrow> 'f decode_state \<Rightarrow> bool" where
  "stopped_inv env seen m s \<longleftrightarrow>
     (\<exists>pos. first_stop (live_stops (de_config env)) seen pos m \<and> ds_text s = take pos seen) \<and>
     concat (ds_calls s) = ds_text s \<and> length (ds_generated s) \<le> gc_max_tokens (de_config env) \<and>
     (\<forall>t \<in> set (ds_generated s). \<not> bridge_is_eog (de_tokenizer env) t)"

definition reason_holds :: "('re, 'h, 'f, 'e) decode_env \<Rightarrow> finish_reason \<Rightarrow> 'f decode_state \<Rightarrow> bool" where
  "reason_holds env r s \<longleftrightarrow>
     (case r of
        MaxTokens \<Rightarrow> length (ds_generated s) = gc_max_tokens (de_config env)
      | ContextFull \<Rightarrow> de_max_ctx env \<le> kc_seq_len (snd (ds_live s)) \<or> ds_logits s = []
      | Cancelled \<Rightarrow> flag_raised (de_config env) (length (ds_generated s))
      | Eos \<Rightarrow> \<exists>t sm. fst (try_sample (de_f32 env) sm (ds_logits s) (ds_recent s)) = Inr t \<and>
                 bridge_is_eog (de_tokenizer env) t
      | Stopped \<Rightarrow> False)"

definition pass_result ::
  "('re, 'h, 'f, 'e) decode_env \<Rightarrow> u32 list \<Rightarrow> 'f decode_state \<Rightarrow>
     'e runtime_error + finish_reason \<times> utf8 option \<Rightarrow> bool" where
  "pass_result env prompt s r \<longleftrightarrow>
     (case r of
        Inl e \<Rightarrow> e \<noteq> DecodePanic
      | Inr (reason, None) \<Rightarrow> decode_inv env prompt s \<and> reason_holds env reason s
      | Inr (reason, Some m) \<Rightarrow>
          reason = Stopped \<and> stopped_inv env (fst (settle (all_bytes env (ds_generated s)))) m s)"

lemma emitted_text:
  assumes "off \<le> length seen" and "off \<le> n"
  shows "take off seen @ drop off (take n (seen @ t)) = take n (seen @ t)"
proof -
  have "take off seen = take off (take n (seen @ t))"
    using assms by (simp add: min_absorb1)
  then show ?thesis by (simp only: append_take_drop_id)
qed

lemma decode_pass:
  fixes s :: "'f decode_state" and env :: "('re, 'h, 'f, 'e) decode_env"
  assumes ok: "stops_ok (live_stops (de_config env))" and inv: "decode_inv env prompt s"
    and pass: "decode_step env s = (s', r)"
  shows "case r of None \<Rightarrow> decode_inv env prompt s' | Some res \<Rightarrow> pass_result env prompt s' res"
proof -
  define seen where "seen = fst (settle (all_bytes env (ds_generated s)))"
  define stops where "stops = live_stops (de_config env)"
  have parts: "ds_detokenizer s = snd (settle (all_bytes env (ds_generated s)))"
    "ds_stop s = buffer_after stops seen" "stop_free stops seen"
    "ds_text s = take (length seen - hold_len stops seen) seen" "concat (ds_calls s) = ds_text s"
    "ds_recent s = prompt @ ds_generated s" "\<forall>t \<in> set (ds_generated s). \<not> bridge_is_eog (de_tokenizer env) t"
    using inv by (simp_all add: decode_inv_def Let_def seen_def stops_def)
  have early: "decode_inv env prompt (s\<lparr>ds_sampler := sm\<rparr>)" for sm
    using inv by (simp add: decode_inv_def Let_def)
  have early': "decode_inv env prompt s" by (rule inv)
  consider
      (guard) reason where "s' = s" "r = Some (Inr (reason, None))" "reason_holds env reason s"
    | (error) e sm where "s' = s\<lparr>ds_sampler := sm\<rparr>" "r = Some (Inl (SamplingFailed e))"
    | (sampled) tok sm where "try_sample (de_f32 env) (ds_sampler s) (ds_logits s) (ds_recent s) = (Inr tok, sm)"
        "length (ds_generated s) < gc_max_tokens (de_config env)" "\<not> flag_raised (de_config env) (length (ds_generated s))"
        "kc_seq_len (snd (ds_live s)) < de_max_ctx env" "ds_logits s \<noteq> []"
  proof -
    have "length (ds_generated s) \<le> gc_max_tokens (de_config env)" using inv by (simp add: decode_inv_def Let_def)
    then show thesis
      using pass guard error sampled
      by (cases "try_sample (de_f32 env) (ds_sampler s) (ds_logits s) (ds_recent s)";
          cases "fst (try_sample (de_f32 env) (ds_sampler s) (ds_logits s) (ds_recent s))")
        (auto simp: decode_step_def reason_holds_def split: if_splits)
  qed
  then show ?thesis
  proof cases
    case guard
    then show ?thesis using inv by (simp add: pass_result_def)
  next
    case error
    then show ?thesis by (simp add: pass_result_def)
  next
    case (sampled tok sm)
    show ?thesis
    proof (cases "bridge_is_eog (de_tokenizer env) tok")
      case True
      then have "s' = s\<lparr>ds_sampler := sm\<rparr>" "r = Some (Inr (Eos, None))"
        using pass sampled by (auto simp: decode_step_def)
      moreover have "reason_holds env Eos (s\<lparr>ds_sampler := sm\<rparr>)"
        using True sampled(1) by (auto simp: reason_holds_def intro!: exI[of _ tok] exI[of _ "ds_sampler s"])
      ultimately show ?thesis using early by (simp add: pass_result_def)
    next
      case False
      obtain decoded detok where push: "utf8_push (ds_detokenizer s) (token_text_bytes env tok) = (decoded, detok)"
        by fastforce
      then have settled: "settle (all_bytes env (ds_generated s @ [tok])) = (seen @ decoded, detok)"
        using settle_push[of "all_bytes env (ds_generated s)"] parts(1) by (simp add: all_bytes_def seen_def)
      have off: "length seen - hold_len stops seen \<le> length seen" by simp
      note spec = stop_push_spec[OF ok[folded stops_def] parts(3), of decoded]
      have step: "decode_step env s =
          (case stop_push (buffer_after stops seen) decoded of
             None \<Rightarrow> (s\<lparr>ds_sampler := sm, ds_detokenizer := detok\<rparr>, Some (Inl DecodePanic))
           | Some (fed, stop) \<Rightarrow>
               let s = emit (sf_emit fed) (s\<lparr>ds_sampler := sm, ds_detokenizer := detok, ds_stop := stop\<rparr>)
               in case sf_matched fed of
                    Some matched \<Rightarrow> (s\<lparr>ds_generated := ds_generated s @ [tok]\<rparr>, Some (Inr (Stopped, Some matched)))
                  | None \<Rightarrow>
                      let s = s\<lparr>ds_recent := ds_recent s @ [tok], ds_generated := ds_generated s @ [tok]\<rparr>
                      in case fw_forward (de_forward env) [tok] (ds_live s) of
                           (Inl e, live) \<Rightarrow> (s\<lparr>ds_live := live\<rparr>, Some (Inl (ArchFailed e)))
                         | (Inr logits, live) \<Rightarrow>
                             (s\<lparr>ds_live := live, ds_logits := logits, ds_metrics := (ds_metrics s)\<lparr>em_tokens_generated :=
                                em_tokens_generated (ds_metrics s) + 1\<rparr>\<rparr>, None))"
        using sampled False push by (simp add: decode_step_def token_text_bytes_def parts(2) Let_def)
      from spec show ?thesis
      proof (elim disjE exE conjE)
        assume free: "stop_free stops (seen @ decoded)" and le: "length seen - hold_len stops seen \<le>
            length (seen @ decoded) - hold_len stops (seen @ decoded)"
          and fed: "stop_push (buffer_after stops seen) decoded =
            Some (\<lparr>sf_emit = drop (length seen - hold_len stops seen)
                (take (length (seen @ decoded) - hold_len stops (seen @ decoded)) (seen @ decoded)),
              sf_matched = None\<rparr>, buffer_after stops (seen @ decoded))"
        have inv': "decode_inv env prompt s2" if "ds_detokenizer s2 = detok" "ds_stop s2 = buffer_after stops (seen @ decoded)"
          "ds_generated s2 = ds_generated s @ [tok]" "ds_recent s2 = ds_recent s @ [tok]"
          "ds_text s2 = take (length (seen @ decoded) - hold_len stops (seen @ decoded)) (seen @ decoded)"
          "concat (ds_calls s2) = ds_text s2" for s2
          using that parts(6,7) sampled(2) False free
          by (simp only: decode_inv_def Let_def settled fst_conv snd_conv stops_def) simp
        show ?thesis
          using pass emitted_text[OF off le] parts(4,5)
          by (auto simp: step fed Let_def pass_result_def split: prod.splits sum.splits intro!: inv')
      next
        fix pos stop b
        assume first: "first_stop stops (seen @ decoded) pos stop" and le: "length seen - hold_len stops seen \<le> pos"
          and fed: "stop_push (buffer_after stops seen) decoded =
            Some (\<lparr>sf_emit = drop (length seen - hold_len stops seen) (take pos (seen @ decoded)), sf_matched = Some stop\<rparr>, b)"
        have "stopped_inv env (seen @ decoded) stop s2"
          if "ds_generated s2 = ds_generated s @ [tok]" "ds_text s2 = take pos (seen @ decoded)"
            "concat (ds_calls s2) = ds_text s2" for s2
          using that first parts(7) sampled(2) False by (auto simp: stopped_inv_def stops_def)
        then show ?thesis
          using pass emitted_text[OF off le] parts(4,5) settled
          by (auto simp: step fed Let_def pass_result_def)
      qed
    qed
  qed
qed

lemma decode_loop_next: "decode_step env s = (s', None) \<Longrightarrow> decode_loop env s = decode_loop env s'"
  and decode_loop_last: "decode_step env s = (s', Some r) \<Longrightarrow> decode_loop env s = (s', r)"
  by (simp_all add: decode_loop.simps[of env s])

lemma decode_loop_result:
  assumes "stops_ok (live_stops (de_config env))" and "decode_inv env prompt s" and "decode_loop env s = (s', r)"
  shows "pass_result env prompt s' r"
  using assms
proof (induction env s rule: decode_loop.induct)
  case (1 env s)
  obtain s1 r1 where pass: "decode_step env s = (s1, r1)" by fastforce
  note inv = decode_pass[OF "1.prems"(1,2) pass]
  show ?case
  proof (cases r1)
    case None
    then show ?thesis
      using "1.IH"[OF pass[symmetric] None "1.prems"(1)] "1.prems"(3) inv pass by (simp add: decode_loop.simps[of env s])
  next
    case (Some res)
    then show ?thesis using "1.prems"(3) inv pass by (simp add: decode_loop.simps[of env s])
  qed
qed

lemma decode_start_inv:
  assumes "stops_ok (live_stops config)"
  shows "decode_inv (decode_env_of ctx config) prompt (decode_start ctx config logits prompt)"
  using stop_free_Nil[OF assms] hold_len_greatest(2)[OF assms, of "[]"]
  by (simp add: decode_inv_def decode_env_of_def decode_start_def Let_def all_bytes_def stop_new_after live_stops_def)

section \<open>The release of the tail\<close>

definition outcome_text :: "utf8 list \<Rightarrow> utf8 \<Rightarrow> utf8 \<Rightarrow> utf8 option \<Rightarrow> bool" where
  "outcome_text stops whole t m \<longleftrightarrow>
     stop_free stops t \<and>
     (case m of None \<Rightarrow> t = whole | Some stop \<Rightarrow> stop \<in> set stops \<and> (\<exists>rest. whole = t @ stop @ rest))"

lemma first_stop_text:
  assumes "stops_ok stops" and "first_stop stops seen pos m" and "whole = seen @ rest"
  shows "outcome_text stops whole (take pos seen) (Some m)"
proof -
  obtain rest' where "take pos seen @ m @ rest' = seen" using first_stop_prefix[OF assms(2)] by blast
  then have "whole = take pos seen @ m @ rest' @ rest" by (simp only: assms(3) append.assoc[symmetric]) 
  moreover have "m \<in> set stops" using assms(2) by (simp add: first_stop_def)
  ultimately show ?thesis using first_stop_free[OF assms(1,2)] by (auto simp: outcome_text_def)
qed

lemma release_tail_text:
  fixes env :: "('re, 'h, 'f, 'e) decode_env"
  defines "stops \<equiv> \<lambda>env. live_stops (de_config env)"
  assumes ok: "stops_ok (stops env)" and res: "pass_result env prompt s (Inr (reason, m))"
  obtains s' m' where "release_tail (reason, m) s = Some (s', m')" and "ds_generated s' = ds_generated s"
    and "ds_live s' = ds_live s" and "ds_logits s' = ds_logits s" and "concat (ds_calls s') = ds_text s'"
    and "outcome_text (stops env) (from_utf8_lossy (all_bytes env (ds_generated s))) (ds_text s') m'"
    and "reason = Stopped \<longrightarrow> m' \<noteq> None"
proof -
  let ?bytes = "all_bytes env (ds_generated s)"
  define seen where "seen = fst (settle ?bytes)"
  have whole: "from_utf8_lossy ?bytes = seen @ (if snd (settle ?bytes) = [] then [] else replacement)"
    unfolding seen_def by (rule lossy_settle)
  show thesis
  proof (cases m)
    case (Some stop)
    then have r: "reason = Stopped" and st: "stopped_inv env seen stop s"
      using res by (simp_all add: pass_result_def seen_def)
    then obtain pos where "first_stop (stops env) seen pos stop" "ds_text s = take pos seen" "concat (ds_calls s) = ds_text s"
      by (auto simp: stopped_inv_def stops_def)
    then show thesis
      using that[of s "Some stop"] r Some first_stop_text[OF ok _ whole] by (simp add: release_tail_def)
  next
    case None
    then have inv: "decode_inv env prompt s" and r: "reason \<noteq> Stopped"
      using res by (auto simp: pass_result_def reason_holds_def)
    have parts: "ds_detokenizer s = snd (settle ?bytes)" "ds_stop s = buffer_after (stops env) seen"
      "stop_free (stops env) seen" "ds_text s = take (length seen - hold_len (stops env) seen) seen"
      "concat (ds_calls s) = ds_text s"
      using inv by (simp_all add: decode_inv_def Let_def seen_def stops_def)
    have off: "length seen - hold_len (stops env) seen \<le> length seen" by simp
    define tail where "tail = fst (utf8_finish (ds_detokenizer s))"
    have "from_utf8_lossy (snd (settle ?bytes)) = (if snd (settle ?bytes) = [] then [] else replacement)"
      using lossy_settle[of "snd (settle ?bytes)"] settle_rest[of ?bytes] by simp
    then have all: "from_utf8_lossy ?bytes = seen @ tail"
      using whole by (simp add: tail_def utf8_finish_def parts(1))
    obtain detok where fin: "utf8_finish (ds_detokenizer s) = (tail, detok)" by (metis prod.collapse tail_def)
    let ?s = "s\<lparr>ds_detokenizer := detok\<rparr>"
    have base: "ds_text (?s\<lparr>ds_stop := b\<rparr>) = ds_text s" "ds_stop (?s\<lparr>ds_stop := b\<rparr>) = b" for b by simp_all
    show thesis
    proof (cases "tail = []")
      case True
      let ?s' = "emit (stop_held (ds_stop s)) (?s\<lparr>ds_stop := snd (stop_flush (ds_stop s))\<rparr>)"
      have rel: "release_tail (reason, m) s = Some (?s', None)"
        using r True fin None by (simp add: release_tail_def stop_flush_def)
      have "ds_text ?s' = seen" using parts(2,4) by (simp add: buffer_after_def)
      then show thesis
        using that[OF rel] r parts(3,5) all True by (simp add: outcome_text_def)
    next
      case False
      from stop_push_spec[OF ok parts(3), of tail] show thesis
      proof (elim disjE exE conjE)
        assume free: "stop_free (stops env) (seen @ tail)"
          and le: "length seen - hold_len (stops env) seen \<le> length (seen @ tail) - hold_len (stops env) (seen @ tail)"
          and fed: "stop_push (buffer_after (stops env) seen) tail = Some (\<lparr>sf_emit =
              drop (length seen - hold_len (stops env) seen)
                (take (length (seen @ tail) - hold_len (stops env) (seen @ tail)) (seen @ tail)),
              sf_matched = None\<rparr>, buffer_after (stops env) (seen @ tail))"
        let ?emit = "drop (length seen - hold_len (stops env) seen)
                (take (length (seen @ tail) - hold_len (stops env) (seen @ tail)) (seen @ tail))"
        let ?s1 = "emit ?emit (?s\<lparr>ds_stop := buffer_after (stops env) (seen @ tail)\<rparr>)"
        let ?s' = "emit (stop_held (ds_stop ?s1)) (?s1\<lparr>ds_stop := snd (stop_flush (ds_stop ?s1))\<rparr>)"
        have rel: "release_tail (reason, m) s = Some (?s', None)"
          using r False fin fed parts(2) by (simp add: release_tail_def stop_flush_def)
        have "ds_text ?s1 = take (length (seen @ tail) - hold_len (stops env) (seen @ tail)) (seen @ tail)"
          using emitted_text[OF off le] by (simp only: emit_same base parts(4))
        moreover have "ds_text ?s' = ds_text ?s1 @ stop_held (buffer_after (stops env) (seen @ tail))"
          by (simp del: emit_same(9)) (simp add: emit_def)
        ultimately have "ds_text ?s' = seen @ tail"
          by (simp only: stop_buffer.simps buffer_after_def append_take_drop_id)
        then show thesis
          using that[OF rel] r parts(5) all free by (simp add: outcome_text_def)
      next
        fix pos stop b
        assume first: "first_stop (stops env) (seen @ tail) pos stop" and le: "length seen - hold_len (stops env) seen \<le> pos"
          and fed: "stop_push (buffer_after (stops env) seen) tail = Some (\<lparr>sf_emit =
              drop (length seen - hold_len (stops env) seen) (take pos (seen @ tail)), sf_matched = Some stop\<rparr>, b)"
        let ?s' = "emit (drop (length seen - hold_len (stops env) seen) (take pos (seen @ tail))) (?s\<lparr>ds_stop := b\<rparr>)"
        have rel: "release_tail (reason, m) s = Some (?s', Some stop)"
          using r False fin fed parts(2) by (simp add: release_tail_def)
        have "ds_text ?s' = take pos (seen @ tail)"
          using emitted_text[OF off le] by (simp only: emit_same base parts(4))
        then show thesis
          using that[OF rel] r parts(5) first_stop_text[OF ok first, of "from_utf8_lossy ?bytes" "[]"] all by simp
      qed
    qed
  qed
qed

section \<open>A run as a whole\<close>

lemma run_decode_parts:
  fixes ctx :: "('re, 'h, 'f, 'e) decode_context"
  assumes ok: "stops_ok (live_stops config)"
  obtains (failed) e s where "run_decode_loop ctx config logits prompt = (Inl e, s)" and "e \<noteq> DecodePanic"
  | (ended) s1 reason m and s2 :: "'f decode_state" and m' out s where "run_decode_loop ctx config logits prompt = (Inr out, s)"
    and "decode_loop (decode_env_of ctx config) (decode_start ctx config logits prompt) = (s1, Inr (reason, m))"
    and "pass_result (decode_env_of ctx config) prompt s1 (Inr (reason, m))"
    and "out = \<lparr>go_text = ds_text s2, go_finish_reason = final_reason reason m', go_generated_tokens = ds_generated s1,
           go_prompt_tokens = length prompt, go_stop_sequence = m'\<rparr>"
    and "ds_live s = ds_live s1" and "ds_logits s = ds_logits s1" and "ds_calls s = ds_calls s2"
    and "concat (ds_calls s2) = ds_text s2"
    and "outcome_text (live_stops config) (from_utf8_lossy (all_bytes (decode_env_of ctx config) (ds_generated s1)))
           (ds_text s2) m'"
    and "reason = Stopped \<longrightarrow> m' \<noteq> None"
proof -
  let ?env = "decode_env_of ctx config"
  have conf: "de_config ?env = config" by (simp add: decode_env_of_def)
  obtain s1 r where loop: "decode_loop ?env (decode_start ctx config logits prompt) = (s1, r)" by fastforce
  have res: "pass_result ?env prompt s1 r"
    using decode_loop_result[OF _ decode_start_inv[OF ok] loop] ok by (simp add: conf)
  show thesis
  proof (cases r)
    case (Inl e)
    then show thesis using failed[of e s1] loop res by (simp add: run_decode_loop_def pass_result_def)
  next
    case (Inr rm)
    obtain reason m where rm: "rm = (reason, m)" by fastforce
    have res': "pass_result ?env prompt s1 (Inr (reason, m))" using res by (simp add: Inr rm)
    obtain s2 m' where rel: "release_tail (reason, m) s1 = Some (s2, m')" and s2: "ds_generated s2 = ds_generated s1"
      "ds_live s2 = ds_live s1" "ds_logits s2 = ds_logits s1" "concat (ds_calls s2) = ds_text s2"
      "outcome_text (live_stops config) (from_utf8_lossy (all_bytes ?env (ds_generated s1))) (ds_text s2) m'"
      "reason = Stopped \<longrightarrow> m' \<noteq> None"
      using release_tail_text[OF _ res'] ok by (metis conf)
    let ?fin = "s2\<lparr>ds_metrics := (ds_metrics s2)\<lparr>em_requests_completed := em_requests_completed (ds_metrics s2) + 1\<rparr>\<rparr>"
    have run: "run_decode_loop ctx config logits prompt =
        (Inr \<lparr>go_text = ds_text s2, go_finish_reason = final_reason reason m', go_generated_tokens = ds_generated s1,
           go_prompt_tokens = length prompt, go_stop_sequence = m'\<rparr>, ?fin)"
      using loop rel s2(1) by (simp add: run_decode_loop_def Inr rm)
    show thesis
      by (rule ended[OF run loop[unfolded Inr rm] res' refl]) (use s2 in \<open>simp_all\<close>)
  qed
qed

lemma run_decode_ended:
  fixes ctx :: "('re, 'h, 'f, 'e) decode_context"
  assumes ok: "stops_ok (live_stops config)" and run: "run_decode_loop ctx config logits prompt = (Inr out, s)"
  obtains s1 reason m where
    "decode_loop (decode_env_of ctx config) (decode_start ctx config logits prompt) = (s1, Inr (reason, m))"
    and "pass_result (decode_env_of ctx config) prompt s1 (Inr (reason, m))"
    and "go_finish_reason out = final_reason reason (go_stop_sequence out)"
    and "go_generated_tokens out = ds_generated s1" and "ds_live s = ds_live s1" and "ds_logits s = ds_logits s1"
    and "concat (ds_calls s) = go_text out"
    and "outcome_text (live_stops config) (from_utf8_lossy (all_bytes (decode_env_of ctx config) (ds_generated s1)))
           (go_text out) (go_stop_sequence out)"
    and "reason = Stopped \<longrightarrow> go_stop_sequence out \<noteq> None"
proof (cases rule: run_decode_parts[OF ok, of ctx logits prompt])
  case 1
  then show thesis using run by simp
next
  case (2 s1 reason m s2 m' out' s')
  then show thesis using run that[of s1 reason m] by simp
qed

text \<open>Tokens fed to the model one at a time: the last prediction, and the state of the model and its cache.\<close>

definition feed ::
  "('f, 'e) forward_ops \<Rightarrow> u32 list \<Rightarrow> f32 list \<Rightarrow> 'f live \<Rightarrow> ('e runtime_error + f32 list) \<times> 'f live" where
  "feed fw ts logits live = forward_chunks fw (map (\<lambda>t. [t]) ts) logits live"

lemma feed_Nil [simp]: "feed fw [] logits live = (Inr logits, live)"
  by (simp add: feed_def)

lemma feed_step: "fw_forward fw [t] live = (Inr logits', live') \<Longrightarrow> feed fw (t # ts) logits live = feed fw ts logits' live'"
  by (simp add: feed_def)

lemma decode_step_ends:
  assumes "decode_step env s = (s', Some (Inr (reason, m)))"
  shows "ds_live s' = ds_live s \<and> ds_logits s' = ds_logits s \<and>
    (\<exists>ends. ds_generated s' = ds_generated s @ ends \<and> length ends = (if reason = Stopped then 1 else 0)) \<and>
    (flag_raised (de_config env) (length (ds_generated s)) \<longrightarrow> reason = Cancelled)"
  using assms unfolding decode_step_def Let_def
  by (auto split: if_splits prod.splits sum.splits option.splits)

text \<open>The loop feeds what it generates, all but a token that completed a stop sequence, and each only
  while there is room in the context.\<close>

lemma decode_loop_feeds:
  assumes "decode_loop env s = (s', Inr (reason, m))"
  shows "\<exists>ts ends. ds_generated s' = ds_generated s @ ts @ ends \<and> length ends = (if reason = Stopped then 1 else 0) \<and>
    feed (de_forward env) ts (ds_logits s) (ds_live s) = (Inr (ds_logits s'), ds_live s') \<and>
    (\<forall>i < length ts. kc_seq_len (snd (snd (feed (de_forward env) (take i ts) (ds_logits s) (ds_live s)))) < de_max_ctx env)"
  using assms
proof (induction env s rule: decode_loop.induct)
  case (1 env s)
  obtain s1 r1 where pass: "decode_step env s = (s1, r1)" by fastforce
  show ?case
  proof (cases r1)
    case (Some res)
    then have "decode_step env s = (s', Some (Inr (reason, m)))"
      using "1.prems" pass by (simp add: decode_loop.simps[of env s])
    from decode_step_ends[OF this] obtain ends where "ds_generated s' = ds_generated s @ ends"
      "length ends = (if reason = Stopped then 1 else 0)" "ds_live s' = ds_live s" "ds_logits s' = ds_logits s" by blast
    then show ?thesis by (intro exI[of _ "[]"] exI[of _ ends]) simp
  next
    case None
    then have "decode_loop env s1 = (s', Inr (reason, m))"
      using "1.prems" pass by (simp add: decode_loop.simps[of env s])
    from "1.IH"[OF pass[symmetric] None this] obtain ts ends where ts: "ds_generated s' = ds_generated s1 @ ts @ ends"
      "length ends = (if reason = Stopped then 1 else 0)"
      "feed (de_forward env) ts (ds_logits s1) (ds_live s1) = (Inr (ds_logits s'), ds_live s')"
      "\<forall>i < length ts. kc_seq_len (snd (snd (feed (de_forward env) (take i ts) (ds_logits s1) (ds_live s1)))) < de_max_ctx env"
      by blast
    obtain tok where tok: "fw_forward (de_forward env) [tok] (ds_live s) = (Inr (ds_logits s1), ds_live s1)"
      "ds_generated s1 = ds_generated s @ [tok]" "kc_seq_len (snd (ds_live s)) < de_max_ctx env"
      using decode_step_goes_on[OF pass[unfolded None]] by metis
    note step = feed_step[OF tok(1)]
    have "kc_seq_len (snd (snd (feed (de_forward env) (take i (tok # ts)) (ds_logits s) (ds_live s)))) < de_max_ctx env"
      if "i < length (tok # ts)" for i
      using that ts(4) tok(3) step by (cases i) auto
    with ts(1-3) tok(2) step show ?thesis by (intro exI[of _ "tok # ts"] exI[of _ ends]) simp
  qed
qed

lemma decode_loop_cancelled:
  assumes "flag_raised (de_config env) n" and "length (ds_generated s) \<le> n" and "decode_loop env s = (s', r)"
    and "r = Inr (reason, m)"
  shows "length (ds_generated s') \<le> n"
  using assms
proof (induction env s rule: decode_loop.induct)
  case (1 env s)
  obtain s1 r1 where pass: "decode_step env s = (s1, r1)" by fastforce
  show ?case
  proof (cases r1)
    case (Some res)
    then have "decode_step env s = (s', Some (Inr (reason, m)))"
      using "1.prems"(3,4) pass by (simp add: decode_loop.simps[of env s])
    from decode_step_ends[OF this] "1.prems"(1,2) show ?thesis
      by (cases "length (ds_generated s) = n") auto
  next
    case None
    obtain tok where "ds_generated s1 = ds_generated s @ [tok]"
      "\<not> flag_raised (de_config env) (length (ds_generated s))"
      using decode_step_goes_on[OF pass[unfolded None]] by metis
    then have "length (ds_generated s1) \<le> n" using "1.prems"(1,2) by (cases "length (ds_generated s) = n") auto
    then show ?thesis
      using "1.IH"[OF pass[symmetric] None "1.prems"(1)] "1.prems"(3,4) pass None
      by (simp add: decode_loop.simps[of env s])
  qed
qed

section \<open>Prefill in chunks\<close>

text \<open>A forward pass over two lists is a pass over the first, then one over the second.\<close>

definition fw_compositional :: "('f, 'e) forward_ops \<Rightarrow> bool" where
  "fw_compositional fw \<longleftrightarrow>
     (\<forall>xs ys s. xs \<noteq> [] \<longrightarrow> ys \<noteq> [] \<longrightarrow> fw_forward fw (xs @ ys) s =
        (case fw_forward fw xs s of (Inl e, s') \<Rightarrow> (Inl e, s') | (Inr l, s') \<Rightarrow> fw_forward fw ys s'))"

lemma forward_chunks_concat:
  assumes "fw_compositional fw" and "\<And>c. c \<in> set chunks \<Longrightarrow> c \<noteq> []" and "chunks \<noteq> []"
  shows "forward_chunks fw chunks logits s = forward_chunks fw [concat chunks] logits s"
  using assms(2,3)
proof (induction chunks arbitrary: logits s)
  case (Cons c chunks)
  show ?case
  proof (cases "chunks = []")
    case False
    have "c \<noteq> []" "concat chunks \<noteq> []" using Cons.prems(1) False by (auto simp: neq_Nil_conv)
    then have comp: "fw_forward fw (c @ concat chunks) s = (case fw_forward fw c s of (Inl e, s') \<Rightarrow> (Inl e, s')
        | (Inr l, s') \<Rightarrow> fw_forward fw (concat chunks) s')"
      using assms(1) unfolding fw_compositional_def by blast
    show ?thesis
    proof (cases "fst (fw_forward fw c s)")
      case (Inl e)
      then obtain s' where "fw_forward fw c s = (Inl e, s')" by (metis prod.collapse)
      then show ?thesis using comp by simp
    next
      case (Inr l)
      then obtain s' where "fw_forward fw c s = (Inr l, s')" by (metis prod.collapse)
      with comp Cons.IH[of l s'] Cons.prems(1) False show ?thesis by simp
    qed
  qed simp
qed simp

lemma chunks_of_concat: "concat (chunks_of (Suc n) xs) = xs"
  by (induction "Suc n" xs rule: chunks_of.induct) (simp_all only: chunks_of.simps concat.simps append_Cons append_take_drop_id)

lemma chunks_of_nonempty: "c \<in> set (chunks_of n xs) \<Longrightarrow> c \<noteq> [] \<and> length c \<le> n"
  by (induction n xs rule: chunks_of.induct) auto

end
