(* ===== verification/Dec_Properties.thy ===== *)
theory Dec_Properties
  imports Dec_Safety Smp_Safety
begin

text \<open>
  The properties of decoding: the text that a run delivers, its limits, and the tokenizer it uses.
\<close>

section \<open>A model for examples\<close>

text \<open>Token 1 is the letter \<open>h\<close>, token 2 the letter \<open>i\<close> and token 3 ends the generation; the model alternates.\<close>

definition letter_hf :: "unit hf_ops" where
  "letter_hf = \<lparr>hf_encode = (\<lambda>h t sp. Inr []),
     hf_decode = (\<lambda>h ts sp. Inr (map (\<lambda>t. if t = 1 then 104 else 105) ts)),
     hf_added = (\<lambda>h. [(3, [60, 47, 115, 62], True)]), hf_vocab = (\<lambda>h. [([104], 1), ([105], 2)]),
     hf_id_to_token = (\<lambda>h t. None)\<rparr>"

definition turn_ops :: "(nat, unit) forward_ops" where
  "turn_ops = \<lparr>fw_forward = (\<lambda>ts (n, kv).
       (Inr (if even (n + length ts) then [f_zero, f_zero, f_one, f_zero] else [f_zero, f_one, f_zero, f_zero]),
        n + length ts, kv\<lparr>kc_seq_len := kc_seq_len kv + length ts\<rparr>)),
     fw_max_context = (\<lambda>n. 100), fw_reset_sequence = (\<lambda>n. 0)\<rparr>"

definition turn_bridge :: "(unit, unit) tokenizer_bridge" where
  "turn_bridge = \<lparr>tb_backend = HfBackend (), tb_special = special_default\<lparr>spt_eog := {3}\<rparr>\<rparr>"

definition turn_context :: "(unit, unit, nat, unit) decode_context" where
  "turn_context = \<lparr>dc_f32 = crude_ops, dc_hf = letter_hf, dc_forward = turn_ops,
     dc_tokenizer = turn_bridge,
     dc_live = (1, kv_new 0 10 0), dc_metrics = metrics_new, dc_fresh_seed = 5\<rparr>"

definition turn_config :: "utf8 list \<Rightarrow> generation_config" where
  "turn_config stop = (generation_config_new 3)\<lparr>gc_sampler := greedy_config, gc_stop := stop\<rparr>"

definition turn_sampler :: sampler where
  "turn_sampler = sampler_new crude_ops 5 (greedy_config\<lparr>sc_eog_token_ids := [3]\<rparr>)"

lemmas pick_eval = turn_sampler_def greedy_config_def sampler_config_default_def sampler_new_def
  split_from_config_def push_pre_grammar_stages_def push_post_grammar_stages_def push_if_def chain_push_def
  seeded_chain_def chain_new_def try_sample_def sample_standard_def masked_logits_def
  apply_stages_external_def is_greedy_def advance_grammar_def ok_or_def argmax_def argmax_step_def

lemma turn_pick:
  "try_sample crude_ops turn_sampler [f_zero, f_zero, f_one, f_zero] recent = (Inr 2, turn_sampler)"
  "try_sample crude_ops turn_sampler [f_zero, f_one, f_zero, f_zero] recent = (Inr 1, turn_sampler)"
  by (simp_all add: pick_eval f32_eval)

lemma turn_bytes:
  "decode_token_bytes letter_hf turn_bridge [1] True = [104]"
  "decode_token_bytes letter_hf turn_bridge [2] True = [105]"
  by (simp_all add: decode_token_bytes_def token_to_bytes_def letter_hf_def turn_bridge_def)

lemma turn_eog: "bridge_is_eog turn_bridge t \<longleftrightarrow> t = 3" "spt_eog (tb_special turn_bridge) = {3}"
  by (simp_all add: bridge_is_eog_def turn_bridge_def)

lemma turn_utf8: "utf8_push [] [104] = ([104], [])" "utf8_push [] [105] = ([105], [])"
  by (simp_all add: utf8_push_settle settle.simps utf8_item_def)

definition turn_state :: "u32 list \<Rightarrow> utf8 \<Rightarrow> f32 list \<Rightarrow> nat decode_state" where
  "turn_state gen t logits =
     \<lparr>ds_live = (1 + length gen, (kv_new 0 10 0)\<lparr>kc_seq_len := length gen\<rparr>),
      ds_metrics = metrics_new\<lparr>em_requests_started := 1, em_tokens_generated := of_nat (length gen)\<rparr>,
      ds_sampler = turn_sampler, ds_detokenizer = [], ds_stop = stop_new [], ds_generated = gen, ds_recent = [7] @ gen,
      ds_text = t, ds_calls = map (\<lambda>b. [b]) t, ds_logits = logits\<rparr>"

definition turn_env :: "(unit, unit, nat, unit) decode_env" where
  "turn_env = decode_env_of turn_context (turn_config [])"

lemma turn_env: "turn_env = \<lparr>de_f32 = crude_ops, de_hf = letter_hf, de_forward = turn_ops,
    de_tokenizer = turn_bridge,
    de_config = turn_config [], de_max_ctx = 10\<rparr>"
  by (simp add: turn_env_def decode_env_of_def turn_context_def turn_ops_def kv_new_def kv_with_dtype_def)

lemma turn_config_parts: "gc_max_tokens (turn_config stop) = 3" "gc_stop (turn_config stop) = stop"
  "gc_render_special (turn_config stop) = False" "gc_cancel_flag (turn_config stop) = None"
  "gc_sampler (turn_config stop) = greedy_config"
  by (simp_all add: turn_config_def generation_config_new_def generation_config_default_def)

lemma turn_start: "decode_start turn_context (turn_config []) logits [7] = turn_state [] [] logits"
  by (simp add: decode_start_def turn_context_def turn_state_def turn_sampler_def with_eog_def greedy_config_def
      sampler_config_default_def turn_eog kv_new_def kv_with_dtype_def metrics_new_def turn_config_parts)

lemmas turn_step_eval = decode_step_def turn_env turn_state_def turn_config_parts turn_pick turn_utf8 turn_bytes
  flag_raised_def turn_eog stop_push_def stop_new_def emit_def turn_ops_def
  kv_new_def kv_with_dtype_def

lemma turn_steps:
  "decode_step turn_env (turn_state [] [] [f_zero, f_one, f_zero, f_zero]) =
     (turn_state [1] [104] [f_zero, f_zero, f_one, f_zero], None)"
  "decode_step turn_env (turn_state [1] [104] [f_zero, f_zero, f_one, f_zero]) =
     (turn_state [1, 2] [104, 105] [f_zero, f_one, f_zero, f_zero], None)"
  "decode_step turn_env (turn_state [1, 2] [104, 105] [f_zero, f_one, f_zero, f_zero]) =
     (turn_state [1, 2, 1] [104, 105, 104] [f_zero, f_zero, f_one, f_zero], None)"
  "decode_step turn_env (turn_state [1, 2, 1] [104, 105, 104] logits) =
     (turn_state [1, 2, 1] [104, 105, 104] logits, Some (Inr (MaxTokens, None)))"
  by (simp_all add: turn_step_eval)

lemma turn_loop: "decode_loop turn_env (turn_state [] [] [f_zero, f_one, f_zero, f_zero]) =
    (turn_state [1, 2, 1] [104, 105, 104] [f_zero, f_zero, f_one, f_zero], Inr (MaxTokens, None))"
  using decode_loop_next[OF turn_steps(1)] decode_loop_next[OF turn_steps(2)] decode_loop_next[OF turn_steps(3)]
    decode_loop_last[OF turn_steps(4)] by simp

definition turn_outcome :: generation_outcome where
  "turn_outcome = \<lparr>go_text = [104, 105, 104], go_finish_reason = MaxTokens, go_generated_tokens = [1, 2, 1],
     go_prompt_tokens = 1, go_stop_sequence = None\<rparr>"

lemma turn_run: "\<exists>s. run_decode_loop turn_context (turn_config []) [f_zero, f_one, f_zero, f_zero] [7] =
    (Inr turn_outcome, s)"
  using turn_loop unfolding turn_env_def
  by (simp add: run_decode_loop_def turn_start turn_outcome_def release_tail_def utf8_finish_def stop_flush_def
      final_reason_def) (simp add: turn_state_def stop_new_def emit_def)

section \<open>Properties\<close>

text \<open>C8: The text of a run is the decoding of its tokens: the pieces given to the callback are the
  returned text, which is the lossy UTF-8 decoding of the bytes of all generated tokens, whole
  characters across token boundaries included, up to the first stop sequence. It contains none,
  and the reported one stands right behind it.\<close>

theorem generated_text_is_the_decoding:
  assumes "\<And>stop. stop \<in> set (gc_stop config) \<Longrightarrow> text_ok stop"
    and "run_decode_loop ctx config logits prompt = (Inr out, s)"
  shows "concat (ds_calls s) = go_text out \<and>
    outcome_text (live_stops config)
      (from_utf8_lossy (all_bytes (decode_env_of ctx config) (go_generated_tokens out)))
      (go_text out) (go_stop_sequence out)"
  by (rule run_decode_ended[OF live_stops_ok[OF assms(1)] assms(2)]) simp_all

lemma generated_text_is_the_decoding_witness:
  "outcome_text [] (from_utf8_lossy (all_bytes turn_env [1, 2, 1])) [104, 105, 104] None"
proof -
  obtain s where "run_decode_loop turn_context (turn_config []) [f_zero, f_one, f_zero, f_zero] [7] = (Inr turn_outcome, s)"
    using turn_run by blast
  from generated_text_is_the_decoding[OF _ this] show ?thesis
    by (simp add: turn_outcome_def live_stops_def turn_config_parts turn_env_def)
qed

text \<open>C32: Decoding never panics: with stop sequences that are strings, no slice of the held-back text is
  off a character boundary, whatever bytes the tokens have.\<close>

theorem decode_never_panics:
  assumes "\<And>stop. stop \<in> set (gc_stop config) \<Longrightarrow> text_ok stop"
  shows "fst (run_decode_loop ctx config logits prompt) \<noteq> Inl DecodePanic"
  using live_stops_ok[OF assms] by (cases rule: run_decode_parts[of config ctx logits prompt]) auto

lemma decode_never_panics_witness:
  "fst (run_decode_loop turn_context (turn_config [[104]]) [f_zero, f_one, f_zero, f_zero] [7]) \<noteq> Inl DecodePanic"
  by (rule decode_never_panics) (simp add: turn_config_parts text_ok_def chars.simps char_ok_def char_width_def utf8_cont_def)

text \<open>C15: A run keeps its limits, and its reason is true, whatever the model does: at most \<open>max_tokens\<close> tokens
  and no end-of-generation token are generated; the model and its cache have been fed exactly the
  generated tokens, one at a time, all but one that completed a stop sequence, and each only while the cache
  was below the context length, the smaller of the model's and the cache's; \<open>MaxTokens\<close> is reported only
  when the budget is used up, \<open>ContextFull\<close> only when the cache has reached the context length or the model
  gave no logits, and \<open>Cancelled\<close> only when the flag was up.\<close>

theorem generation_limits:
  assumes "\<And>stop. stop \<in> set (gc_stop config) \<Longrightarrow> text_ok stop"
    and "run_decode_loop ctx config logits prompt = (Inr out, s)"
    and "max_ctx = min (fw_max_context (dc_forward ctx) (fst (dc_live ctx))) (kc_max_seq_len (snd (dc_live ctx)))"
  shows "length (go_generated_tokens out) \<le> gc_max_tokens config \<and>
    (\<forall>t \<in> set (go_generated_tokens out). \<not> bridge_is_eog (dc_tokenizer ctx) t) \<and>
    (\<exists>fed. (fed = go_generated_tokens out \<or>
        go_finish_reason out = Stopped \<and> (\<exists>t. go_generated_tokens out = fed @ [t])) \<and>
      feed (dc_forward ctx) fed logits (dc_live ctx) = (Inr (ds_logits s), ds_live s) \<and>
      (\<forall>i < length fed. kc_seq_len (snd (snd (feed (dc_forward ctx) (take i fed) logits (dc_live ctx)))) < max_ctx)) \<and>
    (case go_finish_reason out of
       MaxTokens \<Rightarrow> length (go_generated_tokens out) = gc_max_tokens config
     | ContextFull \<Rightarrow> max_ctx \<le> kc_seq_len (snd (ds_live s)) \<or> ds_logits s = []
     | Cancelled \<Rightarrow> flag_raised config (length (go_generated_tokens out))
     | _ \<Rightarrow> True)"
proof (rule run_decode_ended[OF live_stops_ok[OF assms(1)] assms(2)])
  fix s1 reason m
  let ?env = "decode_env_of ctx config"
  assume loop: "decode_loop ?env (decode_start ctx config logits prompt) = (s1, Inr (reason, m))"
    and res: "pass_result ?env prompt s1 (Inr (reason, m))"
    and out: "go_finish_reason out = final_reason reason (go_stop_sequence out)"
      "go_generated_tokens out = ds_generated s1" "ds_live s = ds_live s1" "ds_logits s = ds_logits s1"
    and stopped: "reason = Stopped \<longrightarrow> go_stop_sequence out \<noteq> None"
  have env: "de_forward ?env = dc_forward ctx" "de_config ?env = config" "de_tokenizer ?env = dc_tokenizer ctx"
    "de_max_ctx ?env = max_ctx"
    by (simp_all add: decode_env_of_def assms(3))
  obtain ts ends where fed: "ds_generated s1 = ts @ ends" "length ends = (if reason = Stopped then 1 else 0)"
    "feed (dc_forward ctx) ts logits (dc_live ctx) = (Inr (ds_logits s1), ds_live s1)"
    "\<forall>i < length ts. kc_seq_len (snd (snd (feed (dc_forward ctx) (take i ts) logits (dc_live ctx)))) < max_ctx"
    using decode_loop_feeds[OF loop] by (auto simp: env decode_start_def)
  have "reason = Stopped \<longrightarrow> go_finish_reason out = Stopped" using stopped by (auto simp: out(1) final_reason_def)
  then have "ts = ds_generated s1 \<or> go_finish_reason out = Stopped \<and> (\<exists>t. ds_generated s1 = ts @ [t])"
    using fed(1,2) by (auto simp: length_Suc_conv split: if_splits)
  moreover have "length (ds_generated s1) \<le> gc_max_tokens config"
    "\<forall>t \<in> set (ds_generated s1). \<not> bridge_is_eog (dc_tokenizer ctx) t"
    using res by (cases m; simp add: pass_result_def decode_inv_def stopped_inv_def env Let_def)+
  moreover have "go_finish_reason out = Stopped \<or> go_finish_reason out = reason \<and> reason_holds ?env reason s1"
    using stopped res by (cases m) (auto simp: out(1) final_reason_def pass_result_def)
  ultimately show ?thesis
    using fed(3,4) by (auto simp: out(2-4) env reason_holds_def split: finish_reason.splits)
qed

lemma generation_limits_witness:
  "\<exists>s. run_decode_loop turn_context (turn_config []) [f_zero, f_one, f_zero, f_zero] [7] = (Inr turn_outcome, s) \<and>
     length (go_generated_tokens turn_outcome) = gc_max_tokens (turn_config []) \<and>
     feed turn_ops [1, 2, 1] [f_zero, f_one, f_zero, f_zero] (dc_live turn_context) = (Inr (ds_logits s), ds_live s)"
proof -
  obtain s where run: "run_decode_loop turn_context (turn_config []) [f_zero, f_one, f_zero, f_zero] [7] = (Inr turn_outcome, s)"
    using turn_run by blast
  have out: "dc_forward turn_context = turn_ops" "go_generated_tokens turn_outcome = [1, 2, 1]"
    "go_finish_reason turn_outcome = MaxTokens" by (simp_all add: turn_context_def turn_outcome_def)
  from generation_limits[OF _ run refl] show ?thesis
    using run by (auto simp: out turn_config_parts)
qed

text \<open>Cancelling takes effect at the next token: a run whose flag is raised when it has generated \<open>n\<close>
  tokens generates no more than \<open>n\<close>.\<close>

theorem cancel_stops_at_boundary:
  assumes "gc_cancel_flag config = Some flag" and "flag n"
    and "\<And>stop. stop \<in> set (gc_stop config) \<Longrightarrow> text_ok stop"
    and "run_decode_loop ctx config logits prompt = (Inr out, s)"
  shows "length (go_generated_tokens out) \<le> n"
proof (rule run_decode_ended[OF live_stops_ok[OF assms(3)] assms(4)])
  fix s1 reason m
  assume loop: "decode_loop (decode_env_of ctx config) (decode_start ctx config logits prompt) = (s1, Inr (reason, m))"
    and out: "go_generated_tokens out = ds_generated s1"
  have "flag_raised (de_config (decode_env_of ctx config)) n"
    using assms(1,2) by (simp add: flag_raised_def decode_env_of_def)
  from decode_loop_cancelled[OF this _ loop refl] show ?thesis by (simp add: out decode_start_def)
qed

text \<open>A flag that is up from the start.\<close>

definition stop_config :: generation_config where
  "stop_config = (turn_config [])\<lparr>gc_cancel_flag := Some (\<lambda>i. i = 0)\<rparr>"

lemma stop_run: "\<exists>out s. run_decode_loop turn_context stop_config [f_zero] [7] = (Inr out, s)"
proof -
  have "flag_raised stop_config 0" "gc_max_tokens stop_config = 3" by (simp_all add: flag_raised_def stop_config_def turn_config_parts)
  then have "decode_step (decode_env_of turn_context stop_config) (decode_start turn_context stop_config [f_zero] [7]) =
      (decode_start turn_context stop_config [f_zero] [7], Some (Inr (Cancelled, None)))"
    by (simp add: decode_step_def decode_env_of_def decode_start_def)
  from decode_loop_last[OF this] show ?thesis
    by (simp add: run_decode_loop_def release_tail_def utf8_finish_def stop_flush_def Let_def decode_start_def)
qed

lemma cancel_stops_at_boundary_witness:
  "\<exists>out s. run_decode_loop turn_context stop_config [f_zero] [7] = (Inr out, s) \<and>
     length (go_generated_tokens out) \<le> 0"
proof -
  obtain out s where run: "run_decode_loop turn_context stop_config [f_zero] [7] = (Inr out, s)" using stop_run by blast
  from cancel_stops_at_boundary[OF _ _ _ this, of "\<lambda>i. i = 0" 0] run show ?thesis
    by (auto simp: turn_config_parts stop_config_def)
qed

text \<open>Prefill in chunks is prefill in one batch: whatever the chunk size, the logits, the cache and the
  counters are the same, for a model whose forward pass over two lists is one over the first and
  then one over the second.\<close>

theorem chunked_prefill_is_prefill:
  assumes "fw_compositional fw"
  shows "prefill_chunked fw tokens chunk_size s m = prefill_chunked fw tokens 0 s m"
proof (cases "tokens = [] \<or> chunk_size = 0 \<or> length tokens \<le> chunk_size")
  case False
  then obtain n where n: "chunk_size = Suc n" by (cases chunk_size) auto
  have "chunks_of (Suc n) tokens \<noteq> []" using False by (cases tokens) auto
  with forward_chunks_concat[OF assms, of "chunks_of (Suc n) tokens"] chunks_of_nonempty[of _ "Suc n" tokens]
  show ?thesis using False by (simp add: prefill_chunked_def n chunks_of_concat)
qed (auto simp: prefill_chunked_def)

text \<open>A model that keeps the tokens it has seen and answers with the last.\<close>

definition tail_ops :: "(u32 list, unit) forward_ops" where
  "tail_ops = \<lparr>fw_forward = (\<lambda>ts (f, kv). (Inr [last ts], f @ ts, kv)), fw_max_context = length,
     fw_reset_sequence = (\<lambda>f. [])\<rparr>"

lemma chunked_prefill_is_prefill_witness:
  "prefill_chunked tail_ops [1, 2, 3] 2 ([], kv_new 0 10 0) metrics_new =
   prefill_chunked tail_ops [1, 2, 3] 0 ([], kv_new 0 10 0) metrics_new"
  by (rule chunked_prefill_is_prefill) (auto simp: fw_compositional_def tail_ops_def)

text \<open>A loaded tokenizer can end a turn: whichever source it comes from, the EOS and the EOT id it
  declares are in the finite set of ids that the decode loop tests.\<close>

theorem loaded_tokenizer_ends_turns:
  assumes "load_tokenizer hf open_hf compile path sidecar m = Inr tb"
  shows "finite (spt_eog (tb_special tb)) \<and>
    set_option (spt_eos (tb_special tb)) \<union> set_option (spt_eot (tb_special tb)) \<subseteq> {t. bridge_is_eog tb t}"
  using load_tokenizer_ok[OF assms] by (auto simp: specials_ok_def bridge_is_eog_def)

lemma loaded_tokenizer_ends_turns_witness:
  "finite (spt_eog (tb_special (apply_gguf_specials letter_hf md_new (from_hf letter_hf ()) :: (unit, unit) tokenizer_bridge)))"
proof -
  have "load_tokenizer letter_hf (\<lambda>path. Inr ()) (\<lambda>pre. None) (Some []) None md_new =
      Inr (apply_gguf_specials letter_hf md_new (from_hf letter_hf ()) :: (unit, unit) tokenizer_bridge)"
    by (simp add: load_tokenizer_def)
  from loaded_tokenizer_ends_turns[OF this] show ?thesis by simp
qed

end
