(* ===== verification/Spc_Engine.thy ===== *)
theory Spc_Engine
  imports Dec_Engine
begin

text \<open>
  \<open>oxillama-runtime/src/speculative.rs\<close>: a small draft engine proposes tokens, a large target engine
  verifies them. Both are engines of \<open>Dec_Engine\<close>; the module's own copies of the generator and of
  the softmax are those of \<open>Smp_Float\<close> and \<open>Smp_Stages\<close>. 
\<close>

section \<open>Sampling\<close>

definition f_min :: "f32 \<Rightarrow> f32 \<Rightarrow> f32" where
  "f_min a b = (if f_is_nan a then b else if f_is_nan b then a else if f32_key b < f32_key a then b else a)"

abbreviation F_1E10 :: f32 where "F_1E10 \<equiv> 0x2EDBE6FF"

text \<open>The first index at which the running sum exceeds \<open>r\<close>.\<close>

fun first_above :: "f32_ops \<Rightarrow> f32 \<Rightarrow> f32 \<Rightarrow> nat \<Rightarrow> f32 list \<Rightarrow> nat option" where
  "first_above fo r cumulative i [] = None"
| "first_above fo r cumulative i (p # ps) =
     (let cumulative = f_add fo cumulative p
      in if f_lt r cumulative then Some i else first_above fo r cumulative (Suc i) ps)"

definition sample_with_prob :: "f32_ops \<Rightarrow> f32 list \<Rightarrow> xorshift64 \<Rightarrow> (u32 \<times> f32) \<times> xorshift64" where
  "sample_with_prob fo logits rng =
     (if logits = [] then ((0, f_one), rng)
      else let probs = softmax fo logits; (r, rng) = next_f32 fo rng
           in case first_above fo r f_zero 0 probs of
                Some i \<Rightarrow> ((of_nat i, probs ! i), rng)
              | None \<Rightarrow> ((of_nat (length probs - 1), probs ! (length probs - 1)), rng))"

text \<open>\<open>xs.get(i).copied().unwrap_or(0.0)\<close>.\<close>

definition get_or_zero :: "f32 list \<Rightarrow> nat \<Rightarrow> f32" where
  "get_or_zero xs i = (if i < length xs then xs ! i else f_zero)"

definition residual :: "f32_ops \<Rightarrow> f32 list \<Rightarrow> f32 list \<Rightarrow> f32 list" where
  "residual fo p_target p_draft =
     (let r = map (\<lambda>i. f_max (f_sub fo (get_or_zero p_target i) (get_or_zero p_draft i)) f_zero)
                [0..<max (length p_target) (length p_draft)];
          z = f_sum fo r
      in if f_lt F_1E10 z then map (\<lambda>v. f_div fo v z) r else p_target)"

definition sample_residual :: "f32_ops \<Rightarrow> f32 list \<Rightarrow> f32 list \<Rightarrow> xorshift64 \<Rightarrow> u32 \<times> xorshift64" where
  "sample_residual fo p_target p_draft rng =
     (let res = residual fo p_target p_draft; (r, rng) = next_f32 fo rng
      in case first_above fo r f_zero 0 res of
           Some i \<Rightarrow> (of_nat i, rng)
         | None \<Rightarrow> (of_nat (length res - 1), rng))"

section \<open>The delta sync\<close>

record delta_sync =
  dy_verified_len :: "nat option"
  dy_tokens_reused :: u64
  dy_rounds :: u64

definition delta_sync_new :: delta_sync where
  "delta_sync_new = \<lparr>dy_verified_len = None, dy_tokens_reused = 0, dy_rounds = 0\<rparr>"

definition delta_sync_reset :: "delta_sync \<Rightarrow> delta_sync" where
  "delta_sync_reset dy = dy\<lparr>dy_verified_len := None, dy_tokens_reused := 0, dy_rounds := 0\<rparr>"

definition rollback ::
  "nat \<Rightarrow> ('re, 'h, 'f) engine \<Rightarrow> delta_sync \<Rightarrow> 'e runtime_error + nat \<times> ('re, 'h, 'f) engine \<times> delta_sync" where
  "rollback keep en dy =
     (let before = kv_cache_seq_len en
      in and_then (en_truncate keep en) (\<lambda>en.
           let after = kv_cache_seq_len en
           in Inr (before - after, en, dy\<lparr>dy_verified_len := Some after,
                     dy_tokens_reused := dy_tokens_reused dy + of_nat after, dy_rounds := dy_rounds dy + 1\<rparr>)))"

section \<open>The phases of a round\<close>

text \<open>A proposal is the token, its probability and the logits it was drawn from.\<close>

type_synonym proposal = "u32 \<times> f32 \<times> f32 list"

fun propose ::
  "('re, 'h, 'f, 'e) engine_deps \<Rightarrow> nat \<Rightarrow> f32 list \<Rightarrow> ('re, 'h, 'f) engine \<Rightarrow> xorshift64 \<Rightarrow>
     ('e runtime_error + proposal list) \<times> ('re, 'h, 'f) engine \<times> xorshift64" where
  "propose deps 0 cur draft rng = (Inr [], draft, rng)"
| "propose deps (Suc k) cur draft rng =
     (let ((token, prob), rng) = sample_with_prob (ed_f32 deps) cur rng
      in if is_eos draft token then (Inr [], draft, rng)
         else case forward_one (ed_forward deps) token draft of
                (Inl e, draft) \<Rightarrow> (Inl e, draft, rng)
              | (Inr next_logits, draft) \<Rightarrow>
                  (case propose deps k next_logits draft rng of
                     (Inl e, draft, rng) \<Rightarrow> (Inl e, draft, rng)
                   | (Inr ps, draft, rng) \<Rightarrow> (Inr ((token, prob, cur) # ps), draft, rng)))"

definition accept_threshold :: "f32_ops \<Rightarrow> f32 \<Rightarrow> f32 \<Rightarrow> f32" where
  "accept_threshold fo p_target p_draft = f_min (f_div fo p_target (f_max p_draft F_1E10)) f_one"

text \<open>What the verification finds: how many proposals are accepted, the token drawn in place of a rejected
  one, whether an accepted one ends the text, and the target's prediction behind the accepted ones.\<close>

record verdict =
  vd_accepted :: nat
  vd_bonus :: "u32 option"
  vd_eos :: bool
  vd_next :: "f32 list"

fun verify ::
  "('re, 'h, 'f, 'e) engine_deps \<Rightarrow> proposal list \<Rightarrow> f32 list \<Rightarrow> ('re, 'h, 'f) engine \<Rightarrow> xorshift64 \<Rightarrow>
     ('e runtime_error + verdict) \<times> ('re, 'h, 'f) engine \<times> xorshift64" where
  "verify deps [] cur target rng =
     (Inr \<lparr>vd_accepted = 0, vd_bonus = None, vd_eos = False, vd_next = cur\<rparr>, target, rng)"
| "verify deps ((token, p_draft, draft_logits) # ps) cur target rng =
     (let target_probs = softmax (ed_f32 deps) cur;
          p_target = get_or_zero target_probs (unat token);
          (u, rng) = next_f32 (ed_f32 deps) rng
      in if f_le u (accept_threshold (ed_f32 deps) p_target p_draft)
         then if is_eos target token
              then (Inr \<lparr>vd_accepted = 0, vd_bonus = None, vd_eos = True, vd_next = cur\<rparr>, target, rng)
              else case forward_one (ed_forward deps) token target of
                     (Inl e, target) \<Rightarrow> (Inl e, target, rng)
                   | (Inr next_logits, target) \<Rightarrow>
                       (case verify deps ps next_logits target rng of
                          (Inl e, target, rng) \<Rightarrow> (Inl e, target, rng)
                        | (Inr v, target, rng) \<Rightarrow> (Inr (v\<lparr>vd_accepted := Suc (vd_accepted v)\<rparr>), target, rng))
         else let (bonus, rng) = sample_residual (ed_f32 deps) target_probs (softmax (ed_f32 deps) draft_logits) rng
              in (Inr \<lparr>vd_accepted = 0, vd_bonus = Some bonus, vd_eos = False, vd_next = cur\<rparr>, target, rng))"

section \<open>The generation loop\<close>

text \<open>The engine, the local variables of \<open>generate\<close> and the calls of the callback. The source counts the
  emitted tokens; here they are listed.\<close>

record ('re, 'h, 'f) spec_state =
  sp_draft :: "('re, 'h, 'f) engine"
  sp_target :: "('re, 'h, 'f) engine"
  sp_rng :: xorshift64
  sp_sync :: delta_sync
  sp_draft_next :: "f32 list"
  sp_target_next :: "f32 list"
  sp_committed_len :: nat
  sp_emitted :: "u32 list"
  sp_generated :: utf8
  sp_calls :: "utf8 list"

definition emit_token ::
  "('re, 'h, 'f, 'e) engine_deps \<Rightarrow> u32 \<Rightarrow> ('re, 'h, 'f) spec_state \<Rightarrow> 'e runtime_error + ('re, 'h, 'f) spec_state" where
  "emit_token deps token s =
     and_then (en_decode_token deps (sp_target s) token True) (\<lambda>t.
       Inr (s\<lparr>sp_calls := sp_calls s @ [t], sp_generated := sp_generated s @ t,
              sp_emitted := sp_emitted s @ [token]\<rparr>))"

fun emit_tokens ::
  "('re, 'h, 'f, 'e) engine_deps \<Rightarrow> u32 list \<Rightarrow> ('re, 'h, 'f) spec_state \<Rightarrow>
     ('e runtime_error + unit) \<times> ('re, 'h, 'f) spec_state" where
  "emit_tokens deps [] s = (Inr (), s)"
| "emit_tokens deps (token # tokens) s =
     (case emit_token deps token s of
        Inl e \<Rightarrow> (Inl e, s)
      | Inr s \<Rightarrow> emit_tokens deps tokens s)"

text \<open>The bonus token and the sync of the draft, from where the accepted tokens are committed.\<close>

definition draw_bonus :: "f32_ops \<Rightarrow> u32 option \<Rightarrow> f32 list \<Rightarrow> xorshift64 \<Rightarrow> u32 \<times> xorshift64" where
  "draw_bonus fo bonus_token target_next rng =
     (case bonus_token of
        Some r \<Rightarrow> (r, rng)
      | None \<Rightarrow> let ((t, p), rng) = sample_with_prob fo target_next rng in (t, rng))"

definition spec_bonus ::
  "('re, 'h, 'f, 'e) engine_deps \<Rightarrow> u32 option \<Rightarrow> ('re, 'h, 'f) spec_state \<Rightarrow>
     ('re, 'h, 'f) spec_state \<times> ('e runtime_error + unit) option" where
  "spec_bonus deps bonus_token s =
     (let (bonus, rng) = draw_bonus (ed_f32 deps) bonus_token (sp_target_next s) (sp_rng s);
          s = s\<lparr>sp_rng := rng\<rparr>
      in if is_eos (sp_target s) bonus then (s, Some (Inr ()))
         else case forward_one (ed_forward deps) bonus (sp_target s) of
                (Inl e, target) \<Rightarrow> (s\<lparr>sp_target := target\<rparr>, Some (Inl e))
              | (Inr logits, target) \<Rightarrow>
                  (case emit_token deps bonus (s\<lparr>sp_target := target, sp_target_next := logits\<rparr>) of
                     Inl e \<Rightarrow> (s\<lparr>sp_target := target, sp_target_next := logits\<rparr>, Some (Inl e))
                   | Inr s \<Rightarrow>
                       let s = s\<lparr>sp_committed_len := sp_committed_len s + 1\<rparr>
                       in case rollback (sp_committed_len s - 1) (sp_draft s) (sp_sync s) of
                            Inl e \<Rightarrow> (s, Some (Inl e))
                          | Inr (discarded, draft, sync) \<Rightarrow>
                              (case forward_one (ed_forward deps) bonus draft of
                                 (Inl e, draft) \<Rightarrow> (s\<lparr>sp_draft := draft, sp_sync := sync\<rparr>, Some (Inl e))
                               | (Inr logits, draft) \<Rightarrow>
                                   (s\<lparr>sp_draft := draft, sp_sync := sync, sp_draft_next := logits\<rparr>, None))))"

definition spec_round ::
  "('re, 'h, 'f, 'e) engine_deps \<Rightarrow> nat \<Rightarrow> nat \<Rightarrow> ('re, 'h, 'f) spec_state \<Rightarrow>
     ('re, 'h, 'f) spec_state \<times> ('e runtime_error + unit) option" where
  "spec_round deps num_speculative max_tokens s =
     (if max_tokens \<le> length (sp_emitted s) then (s, Some (Inr ()))
      else let k = min num_speculative (max_tokens - length (sp_emitted s))
           in case propose deps k (sp_draft_next s) (sp_draft s) (sp_rng s) of
                (Inl e, draft, rng) \<Rightarrow> (s\<lparr>sp_draft := draft, sp_rng := rng\<rparr>, Some (Inl e))
              | (Inr proposals, draft, rng) \<Rightarrow>
                  (case verify deps proposals (sp_target_next s) (sp_target s) rng of
                     (Inl e, target, rng) \<Rightarrow>
                       (s\<lparr>sp_draft := draft, sp_target := target, sp_rng := rng\<rparr>, Some (Inl e))
                   | (Inr v, target, rng) \<Rightarrow>
                       let s = s\<lparr>sp_draft := draft, sp_target := target, sp_rng := rng, sp_target_next := vd_next v\<rparr>;
                           accepted = take (vd_accepted v) (map fst proposals)
                       in case emit_tokens deps accepted s of
                            (Inl e, s) \<Rightarrow> (s, Some (Inl e))
                          | (Inr _, s) \<Rightarrow>
                              let s = s\<lparr>sp_committed_len := sp_committed_len s + vd_accepted v\<rparr>
                              in if vd_eos v \<or> max_tokens \<le> length (sp_emitted s) then (s, Some (Inr ()))
                                 else spec_bonus deps (vd_bonus v) s))"

lemma emit_token_same:
  assumes "emit_token deps t s = Inr s'"
  shows "sp_emitted s' = sp_emitted s @ [t]" and "sp_draft s' = sp_draft s" and "sp_target s' = sp_target s"
    and "sp_rng s' = sp_rng s" and "sp_sync s' = sp_sync s" and "sp_target_next s' = sp_target_next s"
    and "sp_committed_len s' = sp_committed_len s" and "sp_draft_next s' = sp_draft_next s"
    and "concat (sp_calls s) = sp_generated s \<Longrightarrow> concat (sp_calls s') = sp_generated s'"
  using assms by (auto simp: emit_token_def elim!: and_then_InrE)

lemma emit_tokens_same:
  assumes "emit_tokens deps ts s = (Inr u, s')"
  shows "sp_emitted s' = sp_emitted s @ ts \<and> sp_draft s' = sp_draft s \<and> sp_target s' = sp_target s \<and>
    sp_rng s' = sp_rng s \<and> sp_sync s' = sp_sync s \<and> sp_target_next s' = sp_target_next s \<and>
    sp_committed_len s' = sp_committed_len s \<and> sp_draft_next s' = sp_draft_next s \<and>
    (concat (sp_calls s) = sp_generated s \<longrightarrow> concat (sp_calls s') = sp_generated s')"
  using assms
proof (induction ts arbitrary: s)
  case (Cons t ts)
  then obtain s1 where s1: "emit_token deps t s = Inr s1" "emit_tokens deps ts s1 = (Inr u, s')"
    by (auto split: sum.splits)
  show ?case using Cons.IH[OF s1(2)] emit_token_same[OF s1(1)] by simp
qed simp

lemma spec_bonus_emits:
  assumes "spec_bonus deps b s = (s', None)"
  shows "length (sp_emitted s') = Suc (length (sp_emitted s))"
  using assms unfolding spec_bonus_def Let_def
  by (auto split: prod.splits sum.splits if_splits option.splits dest!: emit_token_same(1))

lemma spec_round_emits:
  assumes "spec_round deps num n s = (s', None)"
  shows "length (sp_emitted s) < length (sp_emitted s')" and "length (sp_emitted s) < n"
  using assms unfolding spec_round_def Let_def
  by (auto split: prod.splits sum.splits if_splits dest!: emit_tokens_same spec_bonus_emits)

function spec_loop ::
  "('re, 'h, 'f, 'e) engine_deps \<Rightarrow> nat \<Rightarrow> nat \<Rightarrow> ('re, 'h, 'f) spec_state \<Rightarrow>
     ('re, 'h, 'f) spec_state \<times> ('e runtime_error + unit)" where
  "spec_loop deps num_speculative max_tokens s =
     (case spec_round deps num_speculative max_tokens s of
        (s', None) \<Rightarrow> spec_loop deps num_speculative max_tokens s'
      | (s', Some r) \<Rightarrow> (s', r))"
  by pat_completeness auto
termination
proof (relation "measure (\<lambda>(deps, num, n, s). n - length (sp_emitted s))", goal_cases)
  case (2 deps num n s s' p)
  then have "spec_round deps num n s = (s', None)" by simp
  from spec_round_emits[OF this] show ?case by simp
qed simp

declare spec_loop.simps [simp del]

section \<open>The engine\<close>

record ('re, 'h, 'f) spec_engine =
  se_draft :: "('re, 'h, 'f) engine"
  se_target :: "('re, 'h, 'f) engine"
  se_num_speculative :: nat
  se_rng :: xorshift64
  se_sync :: delta_sync

text \<open>\<open>new\<close> behind the loading of the two models.\<close>

definition spec_new :: "('re, 'h, 'f) engine \<Rightarrow> ('re, 'h, 'f) engine \<Rightarrow> nat \<Rightarrow> u64 option \<Rightarrow> ('re, 'h, 'f) spec_engine" where
  "spec_new draft target num_speculative seed =
     \<lparr>se_draft = draft, se_target = target, se_num_speculative = num_speculative,
      se_rng = xorshift_new (case seed of None \<Rightarrow> 0x517CC1B727220A95 | Some s \<Rightarrow> s), se_sync = delta_sync_new\<rparr>"

definition spec_return :: "('re, 'h, 'f) spec_engine \<Rightarrow> ('re, 'h, 'f) spec_state \<Rightarrow> ('re, 'h, 'f) spec_engine" where
  "spec_return se s =
     se\<lparr>se_draft := sp_draft s, se_target := sp_target s, se_rng := sp_rng s, se_sync := sp_sync s\<rparr>"

text \<open>Prefill of all tokens but the last, in both engines, then the last one in both.\<close>

definition spec_prefill ::
  "('re, 'h, 'f, 'e) engine_deps \<Rightarrow> u32 list \<Rightarrow> ('re, 'h, 'f) engine \<Rightarrow> ('re, 'h, 'f) engine \<Rightarrow>
     ('e runtime_error + f32 list \<times> f32 list) \<times> ('re, 'h, 'f) engine \<times> ('re, 'h, 'f) engine" where
  "spec_prefill deps prompt draft target =
     (let fw = ed_forward deps
      in case en_prefill fw (butlast prompt) draft of
           (Inl e, draft) \<Rightarrow> (Inl e, draft, target)
         | (Inr _, draft) \<Rightarrow>
             (case en_prefill fw (butlast prompt) target of
                (Inl e, target) \<Rightarrow> (Inl e, draft, target)
              | (Inr _, target) \<Rightarrow>
                  (case forward_one fw (last prompt) draft of
                     (Inl e, draft) \<Rightarrow> (Inl e, draft, target)
                   | (Inr draft_next, draft) \<Rightarrow>
                       (case forward_one fw (last prompt) target of
                          (Inl e, target) \<Rightarrow> (Inl e, draft, target)
                        | (Inr target_next, target) \<Rightarrow> (Inr (draft_next, target_next), draft, target)))))"

definition spec_generate ::
  "('re, 'h, 'f, 'e) engine_deps \<Rightarrow> utf8 \<Rightarrow> nat \<Rightarrow> ('re, 'h, 'f) spec_engine \<Rightarrow>
     ('e runtime_error + utf8) \<times> ('re, 'h, 'f) spec_engine \<times> utf8 list" where
  "spec_generate deps prompt max_tokens se =
     (let draft = en_reset (ed_forward deps) (se_draft se); target = en_reset (ed_forward deps) (se_target se);
          se = se\<lparr>se_draft := draft, se_target := target, se_sync := delta_sync_reset (se_sync se)\<rparr>
      in case en_tokenize_with deps target prompt True True of
           Inl e \<Rightarrow> (Inl e, se, [])
         | Inr prompt_tokens \<Rightarrow>
             if prompt_tokens = [] then (Inr [], se, [])
             else case spec_prefill deps prompt_tokens draft target of
                    (Inl e, draft, target) \<Rightarrow> (Inl e, se\<lparr>se_draft := draft, se_target := target\<rparr>, [])
                  | (Inr (draft_next, target_next), draft, target) \<Rightarrow>
                      let (s, r) = spec_loop deps (se_num_speculative se) max_tokens
                            \<lparr>sp_draft = draft, sp_target = target, sp_rng = se_rng se, sp_sync = se_sync se,
                             sp_draft_next = draft_next, sp_target_next = target_next,
                             sp_committed_len = length prompt_tokens, sp_emitted = [], sp_generated = [], sp_calls = []\<rparr>
                      in (case r of Inl e \<Rightarrow> Inl e | Inr _ \<Rightarrow> Inr (sp_generated s), spec_return se s, sp_calls s))"

end
