(* ===== verification/Spc_Safety.thy ===== *)
theory Spc_Safety
  imports Spc_Engine
begin

text \<open>
  Speculative decoding against what it promises: both caches hold the committed tokens and nothing
  else at the start of every round, so that the engines compute the algorithm of speculative sampling
  on two prediction functions, which is stated here without caches or rollbacks.
\<close>

section \<open>Models that can be rewound\<close>

text \<open>\<open>rep p ts s\<close> says that the state \<open>s\<close> is that of a model which predicts by \<open>p\<close> and has been fed \<open>ts\<close>.
  This is what \<open>ForwardPass::forward\<close>, \<open>reset\<close> and the engine's \<open>truncate\<close> are documented to do. It holds of a model whose
  state is its KV cache; the recurrent state of a Mamba or Jamba pass is not rewound by \<open>truncate\<close>, so that
  nothing is claimed of speculation with these.\<close>

definition fw_rewinds ::
  "('f, 'e) forward_ops \<Rightarrow> ((u32 list \<Rightarrow> f32 list) \<Rightarrow> u32 list \<Rightarrow> 'f live \<Rightarrow> bool) \<Rightarrow> bool" where
  "fw_rewinds fw rep \<longleftrightarrow>
     (\<forall>p ts f kv. rep p ts (f, kv) \<longrightarrow>
        kc_seq_len kv = length ts \<and>
        (\<forall>toks logits s'. toks \<noteq> [] \<longrightarrow> fw_forward fw toks (f, kv) = (Inr logits, s') \<longrightarrow>
           logits = p (ts @ toks) \<and> rep p (ts @ toks) s') \<and>
        (\<forall>n \<le> length ts. rep p (take n ts) (f, kv_truncate n kv)) \<and>
        rep p [] (fw_reset_sequence fw f, kv_clear kv))"

definition engine_rep ::
  "((u32 list \<Rightarrow> f32 list) \<Rightarrow> u32 list \<Rightarrow> 'f live \<Rightarrow> bool) \<Rightarrow> (u32 list \<Rightarrow> f32 list) \<Rightarrow> u32 list \<Rightarrow>
     ('re, 'h, 'f) engine \<Rightarrow> bool" where
  "engine_rep rep p ts en \<longleftrightarrow> (\<exists>f kv. en_forward en = Some f \<and> en_kv en = Some kv \<and> rep p ts (f, kv))"

text \<open>What a step leaves alone.\<close>

definition same_tokenizer :: "('re, 'h, 'f) engine \<Rightarrow> ('re, 'h, 'f) engine \<Rightarrow> bool" where
  "same_tokenizer en en' \<longleftrightarrow> en_tokenizer en' = en_tokenizer en \<and> en_eos_token_id en' = en_eos_token_id en"

lemma same_tokenizer_refl [simp]: "same_tokenizer en en"
  by (simp add: same_tokenizer_def)

lemma same_tokenizer_trans [trans]: "same_tokenizer a b \<Longrightarrow> same_tokenizer b c \<Longrightarrow> same_tokenizer a c"
  by (simp add: same_tokenizer_def)

lemma same_tokenizer_eos: "same_tokenizer en en' \<Longrightarrow> is_eos en' = is_eos en"
  by (rule ext) (simp add: same_tokenizer_def is_eos_def split: option.split)

lemma same_tokenizer_decode: "same_tokenizer en en' \<Longrightarrow> en_decode_token deps en' t b = en_decode_token deps en t b"
  by (simp add: same_tokenizer_def en_decode_token_def)

lemma rewinds_step:
  assumes "fw_rewinds fw rep" and "rep p ts s" and "toks \<noteq> []" and "fw_forward fw toks s = (Inr l, s')"
  shows "l = p (ts @ toks) \<and> rep p (ts @ toks) s'"
proof -
  obtain f kv where s: "s = (f, kv)" by (cases s)
  then have "\<forall>toks logits s'. toks \<noteq> [] \<longrightarrow> fw_forward fw toks s = (Inr logits, s') \<longrightarrow>
      logits = p (ts @ toks) \<and> rep p (ts @ toks) s'"
    using assms(1,2) unfolding fw_rewinds_def by blast
  then show ?thesis using assms(3,4) by blast
qed

lemma forward_with_rep:
  assumes "fw_rewinds fw rep" and "engine_rep rep p ts en" and "toks \<noteq> []" and "forward_with fw toks en = (Inr l, en')"
  shows "l = p (ts @ toks) \<and> engine_rep rep p (ts @ toks) en' \<and> same_tokenizer en en'"
proof -
  obtain f kv where en: "en_forward en = Some f" "en_kv en = Some kv" "rep p ts (f, kv)"
    using assms(2) by (auto simp: engine_rep_def)
  obtain r s' where run: "fw_forward fw toks (f, kv) = (r, s')" by (metis surj_pair)
  then have r: "r = Inr l" and en': "en' = set_live s' en"
    using assms(4) en by (auto simp: forward_with_def en_live_def split: sum.splits)
  from rewinds_step[where rep = rep, OF assms(1) en(3) assms(3) run[unfolded r]] show ?thesis
    by (cases s') (simp add: engine_rep_def en' set_live_def same_tokenizer_def)
qed

lemma forward_one_rep:
  assumes "fw_rewinds fw rep" and "engine_rep rep p ts en" and "forward_one fw t en = (Inr l, en')"
  shows "l = p (ts @ [t]) \<and> engine_rep rep p (ts @ [t]) en' \<and> same_tokenizer en en'"
  using forward_with_rep[OF assms(1,2), of "[t]"] assms(3) by (simp add: forward_one_def)

lemma engine_rep_len: "fw_rewinds fw rep \<Longrightarrow> engine_rep rep p ts en \<Longrightarrow> kv_cache_seq_len en = length ts"
  by (auto simp: fw_rewinds_def engine_rep_def kv_cache_seq_len_def)

lemma engine_rep_reset:
  assumes "fw_rewinds fw rep" and "engine_rep rep p ts en"
  shows "engine_rep rep p [] (en_reset fw en) \<and> same_tokenizer en (en_reset fw en)"
  using assms by (auto simp: fw_rewinds_def engine_rep_def en_reset_def same_tokenizer_def)

lemma rollback_rep:
  assumes "fw_rewinds fw rep" and "engine_rep rep p ts en" and "n \<le> length ts" and "rollback n en dy = Inr (k, en', dy')"
  shows "engine_rep rep p (take n ts) en' \<and> same_tokenizer en en'"
proof -
  obtain f kv where en: "en_forward en = Some f" "en_kv en = Some kv" "rep p ts (f, kv)"
    using assms(2) by (auto simp: engine_rep_def)
  have "rep p (take n ts) (f, kv_truncate n kv)" using assms(1,3) en(3) unfolding fw_rewinds_def by blast
  moreover have "en' = en\<lparr>en_kv := Some (kv_truncate n kv)\<rparr>"
    using assms(4) en by (auto simp: rollback_def en_truncate_def Let_def)
  ultimately show ?thesis using en by (simp add: engine_rep_def same_tokenizer_def)
qed

text \<open>Prefill feeds its tokens, in chunks or not.\<close>

lemma forward_chunks_rep:
  assumes "fw_rewinds fw rep" and "rep p ts s" and "\<And>c. c \<in> set chunks \<Longrightarrow> c \<noteq> []"
    and "forward_chunks fw chunks l s = (Inr l', s')"
  shows "rep p (ts @ concat chunks) s'"
  using assms(2-)
proof (induction chunks arbitrary: ts l s)
  case (Cons c chunks)
  obtain r s1 where run: "fw_forward fw c s = (r, s1)" by (metis surj_pair)
  then obtain l1 where l1: "r = Inr l1" "forward_chunks fw chunks l1 s1 = (Inr l', s')"
    using Cons.prems(3) by (cases r) auto
  have "c \<noteq> []" using Cons.prems(2)[of c] by simp
  from rewinds_step[where rep = rep, OF assms(1) Cons.prems(1) this run[unfolded l1(1)]]
  have "rep p (ts @ c) s1" by simp
  from Cons.IH[OF this _ l1(2)] Cons.prems(2) show ?case by simp
qed simp

lemma chunks_of_parts: "concat (chunks_of (Suc n) xs) = xs" "c \<in> set (chunks_of (Suc n) xs) \<Longrightarrow> c \<noteq> []"
proof -
  show "concat (chunks_of (Suc n) xs) = xs"
    by (induction "Suc n" xs rule: chunks_of.induct)
      (simp_all only: chunks_of.simps concat.simps append_Cons append_take_drop_id)
  show "c \<in> set (chunks_of (Suc n) xs) \<Longrightarrow> c \<noteq> []"
    by (induction "Suc n" xs rule: chunks_of.induct) auto
qed

lemma prefill_chunked_rep:
  assumes "fw_rewinds fw rep" and "rep p ts s" and "prefill_chunked fw toks chunk s m = (Inr l, s', m')"
  shows "rep p (ts @ toks) s'"
proof -
  let ?chunk = "if chunk = 0 then length toks else chunk"
  let ?chunks = "if length toks \<le> ?chunk then [toks] else chunks_of ?chunk toks"
  have "rep p (ts @ toks) s'" if ne: "toks \<noteq> []"
  proof -
    from ne obtain n where n: "?chunk = Suc n" by (cases ?chunk) (auto split: if_splits)
    have parts: "concat ?chunks = toks" "\<And>c. c \<in> set ?chunks \<Longrightarrow> c \<noteq> []"
      using chunks_of_parts[where n = n] ne unfolding n by (auto split: if_splits)
    obtain l1 where "forward_chunks fw ?chunks [] s = (Inr l1, s')"
      using assms(3) ne by (auto simp: prefill_chunked_def Let_def split: prod.splits sum.splits if_splits)
    from forward_chunks_rep[where rep = rep, OF assms(1,2) parts(2) this] show ?thesis by (simp only: parts(1))
  qed
  then show ?thesis using assms(2,3) by (cases "toks = []") (auto simp: prefill_chunked_def)
qed

lemma en_prefill_rep:
  assumes "fw_rewinds fw rep" and "engine_rep rep p ts en" and "en_prefill fw toks en = (Inr u, en')"
  shows "engine_rep rep p (ts @ toks) en' \<and> same_tokenizer en en'"
proof -
  obtain f kv where en: "en_forward en = Some f" "en_kv en = Some kv" "rep p ts (f, kv)"
    using assms(2) by (auto simp: engine_rep_def)
  show ?thesis
  proof (cases "toks = []")
    case False
    obtain r s m where run: "prefill_chunked fw toks (en_prefill_chunk_size en) (f, kv) (en_metrics en) = (r, s, m)"
      by (metis prod.collapse)
    then obtain l where l: "r = Inr l" and en': "en' = (set_live s en)\<lparr>en_metrics := m\<rparr>"
      using assms(3) en False by (auto simp: en_prefill_def en_live_def split: sum.splits)
    from prefill_chunked_rep[where rep = rep, OF assms(1) en(3) run[unfolded l]] show ?thesis
      by (cases s) (simp add: engine_rep_def en' set_live_def same_tokenizer_def)
  qed (use assms(2,3) in \<open>simp add: en_prefill_def\<close>)
qed

section \<open>Speculative sampling without engines\<close>

text \<open>The algorithm that the engines implement, on two prediction functions: \<open>pd\<close> of the draft and \<open>pt\<close> of
  the target give the logits behind a text. There is no cache, nothing is rolled back, and the text so far is
  an argument. A proposal is accepted when the next random number is at most the quotient of the two
  probabilities, capped at one; the first rejected one is replaced by a draw from the residual; when all are
  accepted one more token is drawn from the target.\<close>

fun ref_propose ::
  "f32_ops \<Rightarrow> (u32 list \<Rightarrow> f32 list) \<Rightarrow> (u32 \<Rightarrow> bool) \<Rightarrow> nat \<Rightarrow> u32 list \<Rightarrow> xorshift64 \<Rightarrow> proposal list \<times> xorshift64" where
  "ref_propose fo pd eos 0 ctx rng = ([], rng)"
| "ref_propose fo pd eos (Suc k) ctx rng =
     (let ((t, q), rng) = sample_with_prob fo (pd ctx) rng
      in if eos t then ([], rng)
         else let (ps, rng) = ref_propose fo pd eos k (ctx @ [t]) rng in ((t, q, pd ctx) # ps, rng))"

fun ref_verify ::
  "f32_ops \<Rightarrow> (u32 list \<Rightarrow> f32 list) \<Rightarrow> (u32 \<Rightarrow> bool) \<Rightarrow> proposal list \<Rightarrow> u32 list \<Rightarrow> xorshift64 \<Rightarrow>
     (u32 list \<times> u32 option \<times> bool) \<times> xorshift64" where
  "ref_verify fo pt eos [] ctx rng = (([], None, False), rng)"
| "ref_verify fo pt eos ((t, q, l) # ps) ctx rng =
     (let probs = softmax fo (pt ctx); (u, rng) = next_f32 fo rng
      in if f_le u (f_min (f_div fo (get_or_zero probs (unat t)) (f_max q F_1E10)) f_one)
         then if eos t then (([], None, True), rng)
              else let ((ts, bonus, ended), rng) = ref_verify fo pt eos ps (ctx @ [t]) rng
                   in ((t # ts, bonus, ended), rng)
         else let (b, rng) = sample_residual fo probs (softmax fo l) rng in (([], Some b, False), rng))"

definition ref_round ::
  "f32_ops \<Rightarrow> (u32 list \<Rightarrow> f32 list) \<Rightarrow> (u32 list \<Rightarrow> f32 list) \<Rightarrow> (u32 \<Rightarrow> bool) \<Rightarrow> (u32 \<Rightarrow> bool) \<Rightarrow> nat \<Rightarrow> nat \<Rightarrow>
     u32 list \<Rightarrow> u32 list \<Rightarrow> xorshift64 \<Rightarrow> (u32 list \<times> xorshift64) \<times> bool" where
  "ref_round fo pt pd eosd eost num n prompt em rng =
     (if n \<le> length em then ((em, rng), True)
      else let (ps, rng) = ref_propose fo pd eosd (min num (n - length em)) (prompt @ em) rng;
               ((ts, bonus, ended), rng) = ref_verify fo pt eost ps (prompt @ em) rng;
               em = em @ ts
           in if ended \<or> n \<le> length em then ((em, rng), True)
              else let (b, rng) = (case bonus of
                         Some b \<Rightarrow> (b, rng)
                       | None \<Rightarrow> let ((t, q), rng) = sample_with_prob fo (pt (prompt @ em)) rng in (t, rng))
                   in if eost b then ((em, rng), True) else ((em @ [b], rng), False))"

lemma ref_round_grows:
  assumes "ref_round fo pt pd eosd eost num n prompt em rng = ((em', rng'), False)"
  shows "n - length em' < n - length em"
  using assms by (auto simp: ref_round_def Let_def split: if_splits prod.splits option.splits)

function ref_generate ::
  "f32_ops \<Rightarrow> (u32 list \<Rightarrow> f32 list) \<Rightarrow> (u32 list \<Rightarrow> f32 list) \<Rightarrow> (u32 \<Rightarrow> bool) \<Rightarrow> (u32 \<Rightarrow> bool) \<Rightarrow> nat \<Rightarrow> nat \<Rightarrow>
     u32 list \<Rightarrow> u32 list \<Rightarrow> xorshift64 \<Rightarrow> u32 list \<times> xorshift64" where
  "ref_generate fo pt pd eosd eost num n prompt em rng =
     (case ref_round fo pt pd eosd eost num n prompt em rng of
        ((em', rng'), False) \<Rightarrow> ref_generate fo pt pd eosd eost num n prompt em' rng'
      | (res, True) \<Rightarrow> res)"
  by pat_completeness auto
termination
  by (relation "measure (\<lambda>(fo, pt, pd, eosd, eost, num, n, prompt, em, rng). n - length em)")
    (auto dest!: ref_round_grows[OF sym])

declare ref_generate.simps [simp del]

section \<open>The engines compute it\<close>

lemma propose_ref:
  assumes "fw_rewinds (ed_forward deps) rep" and "engine_rep rep pd ctx en" and "cur = pd ctx"
    and "propose deps k cur en rng = (Inr ps, en', rng')"
  shows "ref_propose (ed_f32 deps) pd (is_eos en) k ctx rng = (ps, rng') \<and>
    engine_rep rep pd (ctx @ map fst ps) en' \<and> same_tokenizer en en' \<and> length ps \<le> k"
  using assms(2-)
proof (induction k arbitrary: ctx cur en rng ps)
  case (Suc k)
  obtain t prob rng1 where draw: "sample_with_prob (ed_f32 deps) cur rng = ((t, prob), rng1)" by (metis prod.collapse)
  show ?case
  proof (cases "is_eos en t")
    case False
    obtain r en1 where run: "forward_one (ed_forward deps) t en = (r, en1)" by fastforce
    then obtain l ps1 where l: "r = Inr l" "propose deps k l en1 rng1 = (Inr ps1, en', rng')" "ps = (t, prob, cur) # ps1"
      using Suc.prems(3) draw False by (auto split: sum.splits prod.splits)
    note one = forward_one_rep[OF assms(1) Suc.prems(1) run[unfolded l(1)]]
    have "is_eos en1 = is_eos en" using one same_tokenizer_eos by blast
    with Suc.IH[where ctx = "ctx @ [t]" and cur = l and en = en1 and rng = rng1 and ps = ps1] one l(2)
      same_tokenizer_trans[of en en1 en'] show ?thesis
      using draw Suc.prems(2) False by (simp add: l(3))
  qed (use Suc.prems draw in simp)
qed simp

lemma verify_ref:
  assumes "fw_rewinds (ed_forward deps) rep" and "engine_rep rep pt ctx en" and "cur = pt ctx"
    and "verify deps ps cur en rng = (Inr v, en', rng')"
  shows "let ts = take (vd_accepted v) (map fst ps)
    in ref_verify (ed_f32 deps) pt (is_eos en) ps ctx rng = ((ts, vd_bonus v, vd_eos v), rng') \<and>
       vd_accepted v \<le> length ps \<and> (\<forall>t \<in> set ts. \<not> is_eos en t) \<and>
       engine_rep rep pt (ctx @ ts) en' \<and> vd_next v = pt (ctx @ ts) \<and> same_tokenizer en en'"
  using assms(2-)
proof (induction ps arbitrary: ctx cur en rng v)
  case (Cons q ps)
  obtain t prob l where q: "q = (t, prob, l)" by (cases q)
  obtain u rng1 where u: "next_f32 (ed_f32 deps) rng = (u, rng1)" by fastforce
  let ?ok = "f_le u (accept_threshold (ed_f32 deps) (get_or_zero (softmax (ed_f32 deps) cur) (unat t)) prob)"
  show ?case
  proof (cases "?ok \<and> \<not> is_eos en t")
    case True
    obtain r en1 where run: "forward_one (ed_forward deps) t en = (r, en1)" by fastforce
    then obtain l1 v1 where l1: "r = Inr l1" "verify deps ps l1 en1 rng1 = (Inr v1, en', rng')"
      "v = v1\<lparr>vd_accepted := Suc (vd_accepted v1)\<rparr>"
      using Cons.prems(3) u True by (auto simp: q split: sum.splits prod.splits)
    note one = forward_one_rep[OF assms(1) Cons.prems(1) run[unfolded l1(1)]]
    then have "same_tokenizer en en1" by simp
    note eos = same_tokenizer_eos[OF this] and trans = same_tokenizer_trans[OF this]
    from Cons.IH[where ctx = "ctx @ [t]" and cur = l1 and en = en1 and rng = rng1 and v = v1] one l1(2) show ?thesis
      using True u Cons.prems(2) trans by (simp add: q l1(3) eos Let_def accept_threshold_def)
  next
    case False
    then show ?thesis
      using Cons.prems u by (auto simp: q Let_def accept_threshold_def split: if_splits prod.splits)
  qed
qed simp

section \<open>The invariant of the rounds\<close>

text \<open>What has been emitted: no end of the text, not too much, and the calls of the callback are the texts of
  the tokens.\<close>

definition spec_out ::
  "('re, 'h, 'f, 'e) engine_deps \<Rightarrow> ('re, 'h, 'f) engine \<Rightarrow> ('re, 'h, 'f) engine \<Rightarrow> nat \<Rightarrow> ('re, 'h, 'f) spec_state \<Rightarrow> bool" where
  "spec_out deps dn en n s \<longleftrightarrow>
     (\<forall>t \<in> set (sp_emitted s). \<not> is_eos en t) \<and> length (sp_emitted s) \<le> n \<and>
     same_tokenizer dn (sp_draft s) \<and> same_tokenizer en (sp_target s) \<and>
     map Inr (sp_calls s) = map (\<lambda>t. en_decode_token deps en t True) (sp_emitted s) \<and>
     sp_generated s = concat (sp_calls s)"

text \<open>The alignment that the comment in \<open>generate\<close> states for the top of every round.\<close>

definition aligned ::
  "((u32 list \<Rightarrow> f32 list) \<Rightarrow> u32 list \<Rightarrow> 'f live \<Rightarrow> bool) \<Rightarrow> (u32 list \<Rightarrow> f32 list) \<Rightarrow> (u32 list \<Rightarrow> f32 list) \<Rightarrow>
     u32 list \<Rightarrow> ('re, 'h, 'f) spec_state \<Rightarrow> bool" where
  "aligned rep pt pd prompt s \<longleftrightarrow>
     engine_rep rep pd (prompt @ sp_emitted s) (sp_draft s) \<and> engine_rep rep pt (prompt @ sp_emitted s) (sp_target s) \<and>
     sp_draft_next s = pd (prompt @ sp_emitted s) \<and> sp_target_next s = pt (prompt @ sp_emitted s) \<and>
     sp_committed_len s = length prompt + length (sp_emitted s)"

text \<open>How a round ends: as the reference does, aligned again when generation goes on, and with
  the target's cache at the emitted tokens in any case.\<close>

definition round_ok ::
  "('re, 'h, 'f, 'e) engine_deps \<Rightarrow> ((u32 list \<Rightarrow> f32 list) \<Rightarrow> u32 list \<Rightarrow> 'f live \<Rightarrow> bool) \<Rightarrow>
     (u32 list \<Rightarrow> f32 list) \<Rightarrow> (u32 list \<Rightarrow> f32 list) \<Rightarrow> u32 list \<Rightarrow> ('re, 'h, 'f) engine \<Rightarrow> ('re, 'h, 'f) engine \<Rightarrow> nat \<Rightarrow>
     (u32 list \<times> xorshift64) \<times> bool \<Rightarrow> ('re, 'h, 'f) spec_state \<Rightarrow> ('e runtime_error + unit) option \<Rightarrow> bool" where
  "round_ok deps rep pt pd prompt dn en n ref s r \<longleftrightarrow>
     (case r of
        None \<Rightarrow> ref = ((sp_emitted s, sp_rng s), False) \<and> spec_out deps dn en n s \<and> aligned rep pt pd prompt s
      | Some (Inl e) \<Rightarrow> True
      | Some (Inr u) \<Rightarrow> ref = ((sp_emitted s, sp_rng s), True) \<and> spec_out deps dn en n s \<and>
          engine_rep rep pt (prompt @ sp_emitted s) (sp_target s))"

lemma emit_token_out:
  assumes "spec_out deps dn en n s" and "emit_token deps t s = Inr s'" and "\<not> is_eos en t" and "length (sp_emitted s) < n"
  shows "spec_out deps dn en n s'"
proof -
  obtain piece where piece: "en_decode_token deps (sp_target s) t True = Inr piece"
    and s': "s' = s\<lparr>sp_calls := sp_calls s @ [piece], sp_generated := sp_generated s @ piece,
      sp_emitted := sp_emitted s @ [t]\<rparr>"
    using assms(2) by (auto simp: emit_token_def elim!: and_then_InrE)
  have "en_decode_token deps en t True = Inr piece"
    using piece same_tokenizer_decode[of en "sp_target s" deps t True] assms(1) by (simp add: spec_out_def)
  then show ?thesis
    using assms(1,3-) by (simp add: spec_out_def s')
qed

lemma emit_tokens_out:
  assumes "spec_out deps dn en n s" and "emit_tokens deps ts s = (Inr u, s')" and "\<forall>t \<in> set ts. \<not> is_eos en t"
    and "length (sp_emitted s) + length ts \<le> n"
  shows "spec_out deps dn en n s'"
  using assms
proof (induction ts arbitrary: s)
  case (Cons t ts)
  obtain s1 where s1: "emit_token deps t s = Inr s1" "emit_tokens deps ts s1 = (Inr u, s')"
    using Cons.prems(2) by (auto split: sum.splits)
  have "spec_out deps dn en n s1"
    using emit_token_out[OF Cons.prems(1) s1(1)] Cons.prems(3,4) by simp
  from Cons.IH[OF this s1(2)] show ?case using Cons.prems(3,4) emit_token_same(1)[OF s1(1)] by simp
qed simp

text \<open>How the end of a round and a round as a whole can go.\<close>

lemma spec_bonus_split:
  fixes deps :: "('re, 'h, 'f, 'e) engine_deps"
  assumes "spec_bonus deps bt s = (s', r)"
  shows "(\<exists>e. r = Some (Inl e)) \<or>
    (\<exists>b rng. draw_bonus (ed_f32 deps) bt (sp_target_next s) (sp_rng s) = (b, rng) \<and>
       is_eos (sp_target s) b \<and> s' = s\<lparr>sp_rng := rng\<rparr> \<and> r = Some (Inr ())) \<or>
    (\<exists>b rng logits target s2 k draft sync logits2 draft2.
       draw_bonus (ed_f32 deps) bt (sp_target_next s) (sp_rng s) = (b, rng) \<and> \<not> is_eos (sp_target s) b \<and>
       forward_one (ed_forward deps) b (sp_target s) = (Inr logits, target) \<and>
       emit_token deps b (s\<lparr>sp_rng := rng, sp_target := target, sp_target_next := logits\<rparr>) = Inr s2 \<and>
       (rollback (sp_committed_len s2) (sp_draft s2) (sp_sync s2) :: 'e runtime_error + _) = Inr (k, draft, sync) \<and>
       forward_one (ed_forward deps) b draft = (Inr logits2, draft2) \<and> r = None \<and>
       s' = s2\<lparr>sp_committed_len := sp_committed_len s2 + 1, sp_draft := draft2, sp_sync := sync,
              sp_draft_next := logits2\<rparr>)"
  using assms unfolding spec_bonus_def Let_def
  by (auto split: prod.splits sum.splits if_splits)

text \<open>What the reference does behind the accepted tokens.\<close>

definition ref_bonus ::
  "f32_ops \<Rightarrow> (u32 list \<Rightarrow> f32 list) \<Rightarrow> (u32 \<Rightarrow> bool) \<Rightarrow> u32 option \<Rightarrow> u32 list \<Rightarrow> u32 list \<Rightarrow> xorshift64 \<Rightarrow>
     (u32 list \<times> xorshift64) \<times> bool" where
  "ref_bonus fo pt eost bonus prompt em rng =
     (let (b, rng) = (case bonus of
            Some b \<Rightarrow> (b, rng)
          | None \<Rightarrow> let ((t, q), rng) = sample_with_prob fo (pt (prompt @ em)) rng in (t, rng))
      in if eost b then ((em, rng), True) else ((em @ [b], rng), False))"

lemma spec_bonus_ok:
  fixes s :: "('re, 'h, 'f) spec_state" and deps :: "('re, 'h, 'f, 'e) engine_deps"
  assumes rew: "fw_rewinds (ed_forward deps) rep" and out: "spec_out deps dn en n s"
    and draft: "engine_rep rep pd (prompt @ sp_emitted s @ rest) (sp_draft s)"
    and target: "engine_rep rep pt (prompt @ sp_emitted s) (sp_target s)"
    and next1: "sp_target_next s = pt (prompt @ sp_emitted s)"
    and len: "sp_committed_len s = length prompt + length (sp_emitted s)" and room: "length (sp_emitted s) < n"
    and run: "spec_bonus deps bt s = (s', r)"
  shows "round_ok deps rep pt pd prompt dn en n
    (ref_bonus (ed_f32 deps) pt (is_eos en) bt prompt (sp_emitted s) (sp_rng s)) s' r"
proof -
  let ?ctx = "prompt @ sp_emitted s"
  have tok: "same_tokenizer dn (sp_draft s)" "same_tokenizer en (sp_target s)" using out by (simp_all add: spec_out_def)
  note eos = same_tokenizer_eos[OF tok(2)]
  have ref: "ref_bonus (ed_f32 deps) pt (is_eos en) bt prompt (sp_emitted s) (sp_rng s) =
      (if is_eos en b then ((sp_emitted s, rng), True) else ((sp_emitted s @ [b], rng), False))"
    if "draw_bonus (ed_f32 deps) bt (sp_target_next s) (sp_rng s) = (b, rng)" for b rng
    using that unfolding ref_bonus_def draw_bonus_def next1 by (simp only: Let_def prod.case)
  from spec_bonus_split[OF run] show ?thesis
  proof (elim disjE exE conjE)
    fix b rng
    assume ends: "draw_bonus (ed_f32 deps) bt (sp_target_next s) (sp_rng s) = (b, rng)" "is_eos (sp_target s) b"
      "s' = s\<lparr>sp_rng := rng\<rparr>" "r = Some (Inr ())"
    then show ?thesis
      using out target ref[OF ends(1)] by (simp add: round_ok_def spec_out_def eos)
  next
    fix b rng logits target' k draft' sync logits2 draft2 and s2 :: "('re, 'h, 'f) spec_state"
    assume goes: "draw_bonus (ed_f32 deps) bt (sp_target_next s) (sp_rng s) = (b, rng)" "\<not> is_eos (sp_target s) b"
      "forward_one (ed_forward deps) b (sp_target s) = (Inr logits, target')"
      "emit_token deps b (s\<lparr>sp_rng := rng, sp_target := target', sp_target_next := logits\<rparr>) = Inr s2"
      "(rollback (sp_committed_len s2) (sp_draft s2) (sp_sync s2) :: 'e runtime_error + _) = Inr (k, draft', sync)"
      "forward_one (ed_forward deps) b draft' = (Inr logits2, draft2)" "r = None"
      "s' = s2\<lparr>sp_committed_len := sp_committed_len s2 + 1, sp_draft := draft2, sp_sync := sync, sp_draft_next := logits2\<rparr>"
    note t = forward_one_rep[where rep = rep, OF rew target goes(3)] and same = emit_token_same[OF goes(4)]
    have out1: "spec_out deps dn en n (s\<lparr>sp_rng := rng, sp_target := target', sp_target_next := logits\<rparr>)"
      using out t same_tokenizer_trans[OF tok(2)] by (simp add: spec_out_def)
    have out2: "spec_out deps dn en n s2"
      using emit_token_out[OF out1 goes(4)] goes(2) room eos by simp
    have "(rollback (length ?ctx) (sp_draft s) (sp_sync s) :: 'e runtime_error + _) = Inr (k, draft', sync)"
      using goes(5) by (simp add: same len)
    from rollback_rep[where rep = rep, OF rew draft _ this]
    have d: "engine_rep rep pd ?ctx draft'" "same_tokenizer dn draft'" using same_tokenizer_trans[OF tok(1)] by simp_all
    note d2 = forward_one_rep[where rep = rep, OF rew d(1) goes(6)]
    have "aligned rep pt pd prompt s'" using t d2 len by (simp add: aligned_def goes(8) same)
    moreover have "spec_out deps dn en n s'"
      using out2 d2 same_tokenizer_trans[OF d(2)] by (simp add: spec_out_def goes(8))
    ultimately show ?thesis using ref[OF goes(1)] goes(2) by (simp add: round_ok_def goes(7,8) same eos)
  qed (simp add: round_ok_def)
qed

lemma spec_round_split:
  assumes "spec_round deps num n s = (s', r)"
  shows "(\<exists>e. r = Some (Inl e)) \<or> n \<le> length (sp_emitted s) \<and> s' = s \<and> r = Some (Inr ()) \<or>
    (\<exists>ps draft rng1 v target rng2 s2.
       length (sp_emitted s) < n \<and>
       propose deps (min num (n - length (sp_emitted s))) (sp_draft_next s) (sp_draft s) (sp_rng s) = (Inr ps, draft, rng1) \<and>
       verify deps ps (sp_target_next s) (sp_target s) rng1 = (Inr v, target, rng2) \<and>
       emit_tokens deps (take (vd_accepted v) (map fst ps))
         (s\<lparr>sp_draft := draft, sp_target := target, sp_rng := rng2, sp_target_next := vd_next v\<rparr>) = (Inr (), s2) \<and>
       (let s3 = s2\<lparr>sp_committed_len := sp_committed_len s2 + vd_accepted v\<rparr>
        in if vd_eos v \<or> n \<le> length (sp_emitted s2) then s' = s3 \<and> r = Some (Inr ())
           else spec_bonus deps (vd_bonus v) s3 = (s', r)))"
  using assms unfolding spec_round_def Let_def
  by (auto split: prod.splits sum.splits if_splits)

lemma ref_round_step:
  assumes "ref_propose fo pd eosd (min num (n - length em)) (prompt @ em) rng = (ps, rng1)"
    and "ref_verify fo pt eost ps (prompt @ em) rng1 = ((ts, bonus, ended), rng2)" and "length em < n"
  shows "ref_round fo pt pd eosd eost num n prompt em rng =
    (if ended \<or> n \<le> length (em @ ts) then ((em @ ts, rng2), True) else ref_bonus fo pt eost bonus prompt (em @ ts) rng2)"
  using assms(3) unfolding ref_round_def ref_bonus_def assms(1,2) Let_def prod.case
  by (simp add: assms(1,2))

lemma spec_round_ok:
  fixes s :: "('re, 'h, 'f) spec_state" and deps :: "('re, 'h, 'f, 'e) engine_deps"
  assumes rew: "fw_rewinds (ed_forward deps) rep" and out: "spec_out deps dn en n s"
    and al: "aligned rep pt pd prompt s" and run: "spec_round deps num n s = (s', r)"
  shows "round_ok deps rep pt pd prompt dn en n
    (ref_round (ed_f32 deps) pt pd (is_eos dn) (is_eos en) num n prompt (sp_emitted s) (sp_rng s)) s' r"
  using spec_round_split[OF run]
proof (elim disjE exE conjE)
  assume "n \<le> length (sp_emitted s)" "s' = s" "r = Some (Inr ())"
  then show ?thesis using out al by (simp add: round_ok_def ref_round_def aligned_def)
next
  fix ps draft rng1 target rng2 and v :: verdict and s2 :: "('re, 'h, 'f) spec_state"
  let ?s3 = "s2\<lparr>sp_committed_len := sp_committed_len s2 + vd_accepted v\<rparr>"
  assume verified: "length (sp_emitted s) < n"
      "propose deps (min num (n - length (sp_emitted s))) (sp_draft_next s) (sp_draft s) (sp_rng s) = (Inr ps, draft, rng1)"
      "verify deps ps (sp_target_next s) (sp_target s) rng1 = (Inr v, target, rng2)"
      "emit_tokens deps (take (vd_accepted v) (map fst ps))
         (s\<lparr>sp_draft := draft, sp_target := target, sp_rng := rng2, sp_target_next := vd_next v\<rparr>) = (Inr (), s2)"
    and ends: "let s3 = ?s3 in if vd_eos v \<or> n \<le> length (sp_emitted s2) then s' = s3 \<and> r = Some (Inr ())
        else spec_bonus deps (vd_bonus v) s3 = (s', r)"
  let ?ctx = "prompt @ sp_emitted s" and ?ts = "take (vd_accepted v) (map fst ps)"
  let ?s1 = "s\<lparr>sp_draft := draft, sp_target := target, sp_rng := rng2, sp_target_next := vd_next v\<rparr>"
  have tok: "same_tokenizer dn (sp_draft s)" "same_tokenizer en (sp_target s)" using out by (simp_all add: spec_out_def)
  note eos = same_tokenizer_eos[OF tok(1)] same_tokenizer_eos[OF tok(2)]
  have p: "ref_propose (ed_f32 deps) pd (is_eos dn) (min num (n - length (sp_emitted s))) ?ctx (sp_rng s) = (ps, rng1)"
    "engine_rep rep pd (?ctx @ map fst ps) draft" "same_tokenizer (sp_draft s) draft" "length ps \<le> n - length (sp_emitted s)"
    using propose_ref[where rep = rep and ctx = ?ctx and pd = pd, OF rew _ _ verified(2)] al by (simp_all add: aligned_def eos)
  have v: "ref_verify (ed_f32 deps) pt (is_eos en) ps ?ctx rng1 = ((?ts, vd_bonus v, vd_eos v), rng2)"
    "vd_accepted v \<le> length ps" "\<forall>t \<in> set ?ts. \<not> is_eos en t" "engine_rep rep pt (?ctx @ ?ts) target"
    "vd_next v = pt (?ctx @ ?ts)" "same_tokenizer (sp_target s) target"
    using verify_ref[where rep = rep and pt = pt and ctx = ?ctx, OF rew _ _ verified(3)] al
    by (simp_all add: aligned_def Let_def eos)
  note ref = ref_round_step[OF p(1) v(1) verified(1)] and same = emit_tokens_same[OF verified(4)]
  have out1: "spec_out deps dn en n ?s1"
    using out same_tokenizer_trans[OF tok(1) p(3)] same_tokenizer_trans[OF tok(2) v(6)] by (simp add: spec_out_def)
  have "length (sp_emitted s) + length ?ts \<le> n" using p(4) v(2) verified(1) by simp
  then have out2: "spec_out deps dn en n s2" using emit_tokens_out[OF out1 verified(4)] v(3) by simp
  then have out3: "spec_out deps dn en n ?s3" by (simp add: spec_out_def)
  show ?thesis
  proof (cases "vd_eos v \<or> n \<le> length (sp_emitted s2)")
    case True
    then have "s' = ?s3" "r = Some (Inr ())" using ends by (simp_all add: Let_def)
    then show ?thesis using True out3 v(4) same ref by (simp add: round_ok_def)
  next
    case False
    then have "spec_bonus deps (vd_bonus v) ?s3 = (s', r)" using ends by (simp add: Let_def)
    from spec_bonus_ok[where rep = rep and rest = "drop (vd_accepted v) (map fst ps)", OF rew out3 _ _ _ _ _ this]
    show ?thesis using p(2) v(2,4,5) same al False ref by (simp add: aligned_def)
  qed
qed (simp add: round_ok_def)

lemma spec_loop_next: "spec_round deps num n s = (s', None) \<Longrightarrow> spec_loop deps num n s = spec_loop deps num n s'"
  and spec_loop_last: "spec_round deps num n s = (s', Some r) \<Longrightarrow> spec_loop deps num n s = (s', r)"
  by (simp_all add: spec_loop.simps[of deps num n s])

lemma spec_loop_ok:
  assumes "fw_rewinds (ed_forward deps) rep" and "spec_out deps dn en n s"
    and "aligned rep pt pd prompt s" and "spec_loop deps num n s = (s', Inr u)"
  shows "ref_generate (ed_f32 deps) pt pd (is_eos dn) (is_eos en) num n prompt (sp_emitted s) (sp_rng s) =
      (sp_emitted s', sp_rng s') \<and>
    spec_out deps dn en n s' \<and> engine_rep rep pt (prompt @ sp_emitted s') (sp_target s')"
  using assms
proof (induction deps num n s rule: spec_loop.induct)
  case (1 deps num n s)
  obtain s1 r where round: "spec_round deps num n s = (s1, r)" by (metis surj_pair)
  note ok = spec_round_ok[where rep = rep, OF "1.prems"(1-3) round]
  show ?case
  proof (cases r)
    case None
    then show ?thesis
      using "1.IH"[OF round[symmetric] None "1.prems"(1)] "1.prems"(4) ok round
      by (simp add: spec_loop_next spec_loop_last round_ok_def ref_generate.simps[of _ _ _ _ _ _ _ _ "sp_emitted s"])
  next
    case (Some res)
    then show ?thesis
      using "1.prems"(4) ok round
      by (simp add: spec_loop_next spec_loop_last round_ok_def ref_generate.simps[of _ _ _ _ _ _ _ _ "sp_emitted s"])
  qed
qed

lemma spec_prefill_rep:
  assumes "fw_rewinds (ed_forward deps) rep" and "engine_rep rep pd [] draft" and "engine_rep rep pt [] target"
    and "prompt \<noteq> []" and "spec_prefill deps prompt draft target = (Inr (ld, lt), draft', target')"
  shows "engine_rep rep pd prompt draft' \<and> engine_rep rep pt prompt target' \<and> ld = pd prompt \<and> lt = pt prompt \<and>
    same_tokenizer draft draft' \<and> same_tokenizer target target'"
proof -
  obtain d1 t1 where d1: "en_prefill (ed_forward deps) (butlast prompt) draft = (Inr (), d1)"
    "forward_one (ed_forward deps) (last prompt) d1 = (Inr ld, draft')"
    and t1: "en_prefill (ed_forward deps) (butlast prompt) target = (Inr (), t1)"
    "forward_one (ed_forward deps) (last prompt) t1 = (Inr lt, target')"
    using assms(5) by (auto simp: spec_prefill_def Let_def split: prod.splits sum.splits)
  note d = en_prefill_rep[where rep = rep, OF assms(1,2) d1(1)] and t = en_prefill_rep[where rep = rep, OF assms(1,3) t1(1)]
  show ?thesis
    using forward_one_rep[where rep = rep, OF assms(1) _ d1(2), of pd "butlast prompt"] d
      forward_one_rep[where rep = rep, OF assms(1) _ t1(2), of pt "butlast prompt"] t assms(4)
      same_tokenizer_trans[of draft d1 draft'] same_tokenizer_trans[of target t1 target'] by simp
qed

end
