(* ===== verification/Spc_Properties.thy ===== *)
theory Spc_Properties
  imports Spc_Safety Smp_Safety
begin

text \<open>
  The property of speculative decoding.
\<close>

text \<open>C9: Speculative decoding is speculative sampling: for models whose cache can be rewound, as that of an attention
  model can, the emitted tokens are exactly those that the algorithm on the bare predictions of the two
  models emits with the same random numbers, every proposal, acceptance test, residual draw and bonus
  draw taken at the prompt and the tokens emitted before it, and the generator is left in the same state. So no
  cache is stale after a rejection, and at the end the target's cache holds the prompt and the emitted tokens.
  These are at most \<open>max_tokens\<close>, none ends the text, and the callback gets the text of each.\<close>

theorem speculative_tokens_verified:
  fixes deps :: "('re, 'h, 'f, 'e) engine_deps"
  assumes "fw_rewinds (ed_forward deps) rep" and "engine_rep rep pd old (se_draft se)"
    and "engine_rep rep pt old' (se_target se)" and "spec_generate deps prompt n se = (Inr t, se', calls)"
  shows "\<exists>ids emitted. en_tokenize_with deps (se_target se) prompt True True = Inr ids \<and>
    t = concat calls \<and> map Inr calls = map (\<lambda>tok. en_decode_token deps (se_target se) tok True) emitted \<and>
    length emitted \<le> n \<and> (\<forall>tok \<in> set emitted. \<not> is_eos (se_target se) tok) \<and>
    (if ids = [] then emitted = []
     else ref_generate (ed_f32 deps) pt pd (is_eos (se_draft se)) (is_eos (se_target se)) (se_num_speculative se) n
            ids [] (se_rng se) = (emitted, se_rng se') \<and>
          engine_rep rep pt (ids @ emitted) (se_target se'))"
proof -
  let ?draft = "en_reset (ed_forward deps) (se_draft se)" and ?target = "en_reset (ed_forward deps) (se_target se)"
  have d: "engine_rep rep pd [] ?draft" "same_tokenizer (se_draft se) ?draft"
    and tg: "engine_rep rep pt [] ?target" "same_tokenizer (se_target se) ?target"
    using engine_rep_reset[where rep = rep, OF assms(1,2)] engine_rep_reset[where rep = rep, OF assms(1,3)] by simp_all
  have tokens: "en_tokenize_with deps ?target = en_tokenize_with deps (se_target se)"
    using tg(2) by (intro ext) (simp add: en_tokenize_with_def same_tokenizer_def)
  obtain ids where ids: "en_tokenize_with deps (se_target se) prompt True True = Inr ids"
    using assms(4) by (cases "en_tokenize_with deps (se_target se) prompt True True") (auto simp: spec_generate_def tokens Let_def)
  show ?thesis
  proof (cases "ids = []")
    case True
    then have "t = [] \<and> calls = []" using assms(4) by (simp add: spec_generate_def tokens ids)
    with ids True show ?thesis by (intro exI[of _ ids] exI[of _ "[]"]) simp
  next
    case False
    let ?start = "\<lambda>draft target ld lt. \<lparr>sp_draft = draft, sp_target = target, sp_rng = se_rng se,
      sp_sync = delta_sync_reset (se_sync se), sp_draft_next = ld, sp_target_next = lt,
      sp_committed_len = length ids, sp_emitted = [], sp_generated = [], sp_calls = []\<rparr>"
    obtain ld lt draft target u s where pre: "spec_prefill deps ids ?draft ?target = (Inr (ld, lt), draft, target)"
      and loop: "spec_loop deps (se_num_speculative se) n (?start draft target ld lt) = (s, Inr u)"
      and out: "t = sp_generated s" "calls = sp_calls s" "se_rng se' = sp_rng s" "se_target se' = sp_target s"
      using assms(4) False by (auto simp: spec_generate_def spec_return_def tokens ids Let_def split: prod.splits sum.splits)
    note fed = spec_prefill_rep[where rep = rep, OF assms(1) d(1) tg(1) False pre]
    have "aligned rep pt pd ids (?start draft target ld lt)" using fed by (simp add: aligned_def)
    moreover have "spec_out deps (se_draft se) (se_target se) n (?start draft target ld lt)"
      using fed same_tokenizer_trans[OF d(2)] same_tokenizer_trans[OF tg(2)] by (simp add: spec_out_def)
    ultimately show ?thesis
      using spec_loop_ok[where rep = rep, OF assms(1) _ _ loop] ids False
      by (intro exI[of _ ids] exI[of _ "sp_emitted s"]) (auto simp: spec_out_def out)
  qed
qed

text \<open>A model over one token, which both engines run.\<close>

definition mono_hf :: "unit hf_ops" where
  "mono_hf = \<lparr>hf_encode = (\<lambda>h t sp. Inr [0]), hf_decode = (\<lambda>h ts sp. Inr (map (\<lambda>t. 104) ts)),
     hf_added = (\<lambda>h. []), hf_vocab = (\<lambda>h. [([104], 0)]), hf_id_to_token = (\<lambda>h t. None)\<rparr>"

definition mono_ops :: "(unit, unit) forward_ops" where
  "mono_ops = \<lparr>fw_forward = (\<lambda>ts (f, kv). (Inr [f_one], f, kv\<lparr>kc_seq_len := kc_seq_len kv + length ts\<rparr>)),
     fw_max_context = (\<lambda>f. 10), fw_reset_sequence = (\<lambda>f. f)\<rparr>"

definition mono_deps :: "(unit, unit, unit, unit) engine_deps" where
  "mono_deps = \<lparr>ed_f32 = crude_ops, ed_hf = mono_hf, ed_forward = mono_ops,
     ed_f16 = \<lparr>fc_from_f32 = (\<lambda>w. 0), fc_to_f32 = (\<lambda>w. 0)\<rparr>, ed_find_iter = (\<lambda>re t. []), ed_lower = (\<lambda>c. [c])\<rparr>"

definition mono_engine :: "(unit, unit, unit) engine" where
  "mono_engine = (engine_new 0 greedy_config)\<lparr>en_forward := Some (), en_kv := Some (kv_new 0 10 0),
     en_tokenizer := Some \<lparr>tb_backend = HfBackend (), tb_special = special_default\<rparr>\<rparr>"

definition mono_rep :: "(u32 list \<Rightarrow> f32 list) \<Rightarrow> u32 list \<Rightarrow> unit live \<Rightarrow> bool" where
  "mono_rep p ts s \<longleftrightarrow> p = (\<lambda>ts. [f_one]) \<and> kc_seq_len (snd s) = length ts"

lemma mono_rewinds: "fw_rewinds mono_ops mono_rep"
  by (auto simp: fw_rewinds_def mono_rep_def mono_ops_def kv_truncate_def kv_clear_def)

lemma mono_engine_rep: "engine_rep mono_rep (\<lambda>ts. [f_one]) [] mono_engine"
  by (simp add: engine_rep_def mono_rep_def mono_engine_def kv_new_def kv_with_dtype_def)

lemma mono_sample: "\<exists>p rng'. sample_with_prob fo [f_one] rng = ((0, p), rng')"
  by (auto simp: sample_with_prob_def softmax_def exps_of_def Let_def split: prod.splits option.splits)

lemma mono_softmax: "\<exists>a. softmax fo [x] = [a]"
  by (simp add: softmax_def exps_of_def Let_def)

lemma mono_residual: "\<exists>rng'. sample_residual fo [a] [b] rng = (0, rng')"
  by (auto simp: sample_residual_def residual_def Let_def split: prod.splits option.splits)

definition mono :: "(unit, unit, unit) engine \<Rightarrow> bool" where
  "mono en \<longleftrightarrow> en_forward en = Some () \<and> en_kv en \<noteq> None \<and> en_tokenizer en = en_tokenizer mono_engine"

lemma mono_forward: "mono en \<Longrightarrow> \<exists>en'. forward_one mono_ops t en = (Inr [f_one], en') \<and> mono en'"
  by (auto simp: mono_def forward_one_def forward_with_def en_live_def mono_ops_def set_live_def)

lemma mono_rollback:
  "mono en \<Longrightarrow> \<exists>k en' dy'. (rollback n en dy :: unit runtime_error + _) = Inr (k, en', dy') \<and> mono en'"
  by (auto simp: mono_def rollback_def en_truncate_def Let_def)

lemma mono_facts: "mono mono_engine" "mono en \<Longrightarrow> \<not> is_eos en t" "mono en \<Longrightarrow> mono (en_reset mono_ops en)"
  "mono en \<Longrightarrow> en_decode_token mono_deps en t True = Inr [104]" "mono en \<Longrightarrow> en_tokenize_with mono_deps en [] True True = Inr [0]"
  by (auto simp: mono_def mono_engine_def is_eos_def bridge_is_eog_def special_default_def en_reset_def mono_ops_def
      en_decode_token_def decode_with_def mono_deps_def mono_hf_def en_tokenize_with_def encode_with_def)

definition mono_start :: "(unit, unit, unit) spec_state \<Rightarrow> bool" where
  "mono_start s \<longleftrightarrow> mono (sp_draft s) \<and> mono (sp_target s) \<and> sp_draft_next s = [f_one] \<and> sp_target_next s = [f_one] \<and>
     sp_emitted s = [] \<and> sp_generated s = [] \<and> sp_calls s = []"

lemma mono_bonus:
  assumes "mono_start s" and "bt = None \<or> bt = Some 0"
  shows "\<exists>s'. spec_bonus mono_deps bt s = (s', None) \<and> sp_emitted s' = [0] \<and> sp_generated s' = [104] \<and> sp_calls s' = [[104]]"
proof -
  have m: "mono (sp_draft s)" "mono (sp_target s)" "sp_target_next s = [f_one]"
    "sp_emitted s = []" "sp_generated s = []" "sp_calls s = []" using assms(1) by (simp_all add: mono_start_def)
  obtain rng where b: "draw_bonus (ed_f32 mono_deps) bt [f_one] (sp_rng s) = (0, rng)"
    using assms(2) mono_sample[of "ed_f32 mono_deps" "sp_rng s"] by (auto simp: draw_bonus_def)
  obtain target where t: "forward_one mono_ops 0 (sp_target s) = (Inr [f_one], target)" "mono target"
    using mono_forward[OF m(2)] by blast
  obtain k d1 dy where r: "(rollback (sp_committed_len s) (sp_draft s) (sp_sync s) :: unit runtime_error + _) = Inr (k, d1, dy)" "mono d1"
    using mono_rollback[OF m(1)] by blast
  obtain d2 where d: "forward_one mono_ops 0 d1 = (Inr [f_one], d2)" using mono_forward[OF r(2)] by blast
  have ops: "ed_forward mono_deps = mono_ops" by (simp add: mono_deps_def)
  show ?thesis
    using b t r d m by (simp add: spec_bonus_def ops emit_token_def mono_facts)
qed

lemma mono_round:
  assumes "mono_start s"
  shows "\<exists>s' r. spec_round mono_deps 1 1 s = (s', r) \<and> (r = None \<or> r = Some (Inr ())) \<and> sp_emitted s' = [0] \<and>
    sp_generated s' = [104] \<and> sp_calls s' = [[104]]"
proof -
  let ?fo = "ed_f32 mono_deps"
  have m: "mono (sp_draft s)" "mono (sp_target s)" "sp_draft_next s = [f_one]" "sp_target_next s = [f_one]"
    "sp_emitted s = []" "sp_generated s = []" "sp_calls s = []" using assms by (simp_all add: mono_start_def)
  have ops: "ed_forward mono_deps = mono_ops" by (simp add: mono_deps_def)
  obtain q rng1 where q: "sample_with_prob ?fo [f_one] (sp_rng s) = ((0, q), rng1)" using mono_sample by blast
  obtain d where d: "forward_one mono_ops 0 (sp_draft s) = (Inr [f_one], d)" "mono d" using mono_forward[OF m(1)] by blast
  have pro: "propose mono_deps 1 (sp_draft_next s) (sp_draft s) (sp_rng s) = (Inr [(0, q, [f_one])], d, rng1)"
    using q d m by (simp add: ops mono_facts)
  obtain u rng2 where u: "next_f32 ?fo rng1 = (u, rng2)" by fastforce
  obtain a where a: "softmax ?fo [f_one] = [a]" using mono_softmax by blast
  obtain t where t: "forward_one mono_ops 0 (sp_target s) = (Inr [f_one], t)" "mono t" using mono_forward[OF m(2)] by blast
  obtain rng3 where rng3: "sample_residual ?fo [a] [a] rng2 = (0, rng3)" using mono_residual by blast
  show ?thesis
  proof (cases "f_le u (accept_threshold ?fo (get_or_zero [a] 0) q)")
    case True
    then have "verify mono_deps [(0, q, [f_one])] (sp_target_next s) (sp_target s) rng1 =
        (Inr \<lparr>vd_accepted = 1, vd_bonus = None, vd_eos = False, vd_next = [f_one]\<rparr>, t, rng2)"
      using u a t m by (simp add: ops mono_facts)
    then show ?thesis using pro m t by (simp add: spec_round_def emit_token_def mono_facts)
  next
    case False
    then have "verify mono_deps [(0, q, [f_one])] (sp_target_next s) (sp_target s) rng1 =
        (Inr \<lparr>vd_accepted = 0, vd_bonus = Some 0, vd_eos = False, vd_next = [f_one]\<rparr>, sp_target s, rng3)"
      using u a m rng3 by simp
    moreover have "mono_start (s\<lparr>sp_draft := d, sp_rng := rng3, sp_target_next := [f_one]\<rparr>)"
      using assms d by (simp add: mono_start_def)
    ultimately show ?thesis using pro m mono_bonus[of _ "Some 0"] by (fastforce simp: spec_round_def)
  qed
qed

definition mono_spec :: "(unit, unit, unit) spec_engine" where
  "mono_spec = spec_new mono_engine mono_engine 1 None"

lemma mono_generate: "\<exists>se'. spec_generate mono_deps [] 1 mono_spec = (Inr [104], se', [[104]])"
proof -
  have ops: "ed_forward mono_deps = mono_ops" by (simp add: mono_deps_def)
  let ?e = "en_reset mono_ops mono_engine"
  have e: "mono ?e" by (simp add: mono_facts)
  obtain d where d: "forward_one mono_ops 0 ?e = (Inr [f_one], d)" "mono d" using mono_forward[OF e] by blast
  let ?s = "\<lparr>sp_draft = d, sp_target = d, sp_rng = se_rng mono_spec, sp_sync = delta_sync_reset (se_sync mono_spec),
    sp_draft_next = [f_one], sp_target_next = [f_one], sp_committed_len = 1, sp_emitted = [], sp_generated = [], sp_calls = []\<rparr>"
  have start: "mono_start ?s" using d by (simp add: mono_start_def)
  obtain s' r where round: "spec_round mono_deps 1 1 ?s = (s', r)" "r = None \<or> r = Some (Inr ())" "sp_emitted s' = [0]"
    "sp_generated s' = [104]" "sp_calls s' = [[104]]" using mono_round[OF start] by blast
  have "spec_round mono_deps 1 1 s' = (s', Some (Inr ()))" using round(3) by (simp add: spec_round_def)
  then have last: "spec_loop mono_deps 1 1 s' = (s', Inr ())" by (rule spec_loop_last)
  from round(2) have "spec_loop mono_deps 1 1 ?s = (s', Inr ())"
  proof
    assume "r = None"
    from spec_loop_next[OF round(1)[unfolded this]] last show ?thesis by simp
  next
    assume "r = Some (Inr ())"
    from spec_loop_last[OF round(1)[unfolded this]] show ?thesis .
  qed
  then show ?thesis
    using d round(4,5) by (simp add: spec_generate_def spec_prefill_def en_prefill_def ops e mono_facts Let_def
        mono_spec_def spec_new_def)
qed

lemma speculative_tokens_verified_witness:
  "\<exists>tok rng. ref_generate crude_ops (\<lambda>ts. [f_one]) (\<lambda>ts. [f_one]) (\<lambda>t. False) (\<lambda>t. False) 1 1 [0] [] (se_rng mono_spec) =
       ([tok], rng) \<and> en_decode_token mono_deps mono_engine tok True = Inr [104]"
proof -
  obtain se' where run: "spec_generate mono_deps [] 1 mono_spec = (Inr [104], se', [[104]])" using mono_generate by blast
  have eng: "se_draft mono_spec = mono_engine" "se_target mono_spec = mono_engine" "se_num_speculative mono_spec = 1"
    and ops: "ed_forward mono_deps = mono_ops" and fo: "ed_f32 mono_deps = crude_ops"
    and eos: "is_eos mono_engine = (\<lambda>t. False)"
    by (auto simp: mono_spec_def spec_new_def mono_deps_def mono_facts)
  have ids: "en_tokenize_with mono_deps mono_engine [] True True = Inr [0]" by (simp add: mono_facts)
  from speculative_tokens_verified[where rep = mono_rep, OF _ _ _ run, unfolded eng ops fo eos ids, OF mono_rewinds mono_engine_rep mono_engine_rep]
  obtain emitted where m: "map Inr [[104]] = map (\<lambda>tok. en_decode_token mono_deps mono_engine tok True) emitted"
    and ref: "ref_generate crude_ops (\<lambda>ts. [f_one]) (\<lambda>ts. [f_one]) (\<lambda>t. False) (\<lambda>t. False) 1 1 [0] [] (se_rng mono_spec) =
      (emitted, se_rng se')"
    by (metis list.distinct(1) sum.inject(2))
  obtain tok where "emitted = [tok]" "en_decode_token mono_deps mono_engine tok True = Inr [104]"
    using m by (cases emitted) auto
  then show ?thesis using ref by blast
qed

end
