(* ===== verification/Arch_Config.thy ===== *)
theory Arch_Config
  imports Gguf_Parser
begin

text \<open>
  \<open>oxillama-arch/src/config.rs\<close>: the hyperparameters of a model, read from the metadata of its
  file, with the sliding-window arithmetic of \<open>common/attention.rs\<close> and the scaling types of
  \<open>common/rope.rs\<close> that it calls. Floats are bit patterns.
\<close>

section \<open>Tables by architecture\<close>

datatype rope_style = Neox | Norm

definition norm_rope_archs :: "string list" where
  "norm_rope_archs =
    [''arcee'', ''arctic'', ''baichuan'', ''bailingmoe'', ''chameleon'', ''chatglm'', ''cohere2'',
     ''command-r'', ''deci'', ''deepseek'', ''deepseek2'', ''ernie4_5'', ''ernie4_5-moe'', ''glm-dsa'',
     ''granite'', ''granitehybrid'', ''granitemoe'', ''internlm2'', ''llada'', ''llama'', ''llama-embed'',
     ''llama4'', ''maincoder'', ''minicpm'', ''mistral3'', ''neo-bert'', ''olmo'', ''plm'', ''smollm3'',
     ''starcoder'', ''xverse'', ''mistral'', ''mixtral'', ''yi'', ''internlm3'', ''llava'', ''llava16'']"

definition rope_style_for_arch :: "string \<Rightarrow> rope_style" where
  "rope_style_for_arch arch_id = (if arch_id \<in> set norm_rope_archs then Norm else Neox)"

datatype swa_pattern = SwaAll | EveryNth u32 | EveryNthDenseFirst u32

fun is_interleaved :: "swa_pattern \<Rightarrow> bool" where
  "is_interleaved SwaAll = False"
| "is_interleaved (EveryNth n) = (n \<noteq> 0 \<and> n \<noteq> 1)"
| "is_interleaved (EveryNthDenseFirst n) = True"

fun is_sliding :: "swa_pattern \<Rightarrow> nat \<Rightarrow> bool" where
  "is_sliding SwaAll layer_idx = True"
| "is_sliding (EveryNth n) layer_idx = (if n = 0 then True else layer_idx mod unat n < unat n - 1)"
| "is_sliding (EveryNthDenseFirst n) layer_idx = (if n = 0 then True else layer_idx mod unat n \<noteq> 0)"

definition swa_pattern_for_arch :: "string \<Rightarrow> swa_pattern option" where
  "swa_pattern_for_arch arch_id =
     (if arch_id \<in> {''gemma2'', ''gpt-oss''} then Some (EveryNth 2)
      else if arch_id \<in> {''cohere2'', ''olmo2'', ''exaone4'', ''exaone-moe'', ''llama4'', ''afmoe''} then Some (EveryNth 4)
      else if arch_id = ''gemma3n'' then Some (EveryNth 5)
      else if arch_id \<in> {''gemma3'', ''gemma-embedding''} then Some (EveryNth 6)
      else if arch_id = ''smallthinker'' then Some (EveryNthDenseFirst 4)
      else if arch_id = ''phi3'' then Some (EveryNth 1)
      else if arch_id \<in> {''mistral'', ''mistral3''} then Some SwaAll
      else None)"

definition default_activation_for_arch :: "string \<Rightarrow> string" where
  "default_activation_for_arch arch_id =
     (if arch_id \<in> {''gemma'', ''gemma2'', ''gemma3'', ''gemma3n'', ''gemma-embedding''} then ''gelu_pytorch_tanh''
      else if arch_id \<in> {''bloom'', ''gpt2'', ''gptneox'', ''starcoder'', ''starcoder2'', ''phi2'', ''codeshell'',
        ''jais'', ''bert'', ''nomic-bert'', ''mpt'', ''refact''} then ''gelu''
      else ''silu'')"

definition quant_type_from_file_type :: "u32 \<Rightarrow> tensor_type option" where
  "quant_type_from_file_type t =
     (if t = 0 then Some F32 else if t = 1 then Some F16
      else if t = 2 then Some Q4_0 else if t = 3 then Some Q4_1
      else if t = 7 then Some Q8_0 else if t = 8 then Some Q5_0 else if t = 9 then Some Q5_1
      else if t \<in> {10, 21} then Some Q2K
      else if 11 \<le> t \<and> t \<le> 13 then Some Q3K
      else if t \<in> {14, 15} then Some Q4K else if t \<in> {16, 17} then Some Q5K
      else if t = 18 then Some Q6K else if t = 19 then Some Iq2Xxs else if t = 20 then Some Iq2Xs
      else if t \<in> {22, 23} then Some Iq3Xxs
      else if t = 24 then Some Iq1S else if t = 25 then Some Iq4Nl
      else if t \<in> {26, 27} then Some Iq3S else if t \<in> {28, 29} then Some Iq2S
      else if t = 30 then Some Iq4Xs else if t = 31 then Some Iq1M else if t = 32 then Some Bf16
      else None)"

section \<open>Errors and scaling types\<close>

text \<open>The variants of \<open>ArchError\<close> that reading a configuration can return; the text of
  \<open>NotSupported\<close> is the value it quotes.\<close>

datatype arch_error =
    UnknownArchitecture string
  | ConfigMismatch string string string
  | NotSupported string

datatype rope_scaling = Standard | Linear | Yarn | LongRope | Llama3

definition rope_scaling_parse :: "string \<Rightarrow> arch_error + rope_scaling" where
  "rope_scaling_parse v =
     (if v \<in> {''none'', []} then Inr Standard
      else if v = ''linear'' then Inr Linear
      else if v = ''yarn'' then Inr Yarn
      else if v \<in> {''longrope'', ''su''} then Inr LongRope
      else if v = ''llama3'' then Inr Llama3
      else Inl (NotSupported v))"

section \<open>Reading a key\<close>

text \<open>\<open>.ok()\<close>, and \<open>get_u32(..).map(|v| v as usize).unwrap_or(d)\<close>.\<close>

definition ok_of :: "'e + 'a \<Rightarrow> 'a option" where
  "ok_of r = (case r of Inl e \<Rightarrow> None | Inr a \<Rightarrow> Some a)"

definition unwrap_or :: "'a option \<Rightarrow> 'a \<Rightarrow> 'a" where
  "unwrap_or x d = (case x of None \<Rightarrow> d | Some a \<Rightarrow> a)"

definition some_if :: "('a \<Rightarrow> bool) \<Rightarrow> 'a option \<Rightarrow> 'a option" where
  "some_if p x = (case x of None \<Rightarrow> None | Some a \<Rightarrow> if p a then Some a else None)"

definition or_key :: "'a option \<Rightarrow> 'a option \<Rightarrow> 'a option" where
  "or_key x y = (case x of None \<Rightarrow> y | Some a \<Rightarrow> Some a)"

definition u_key :: "metadata_store \<Rightarrow> string \<Rightarrow> nat option" where
  "u_key m k = map_option unat (ok_of (md_get_u32 m k))"

definition f_key :: "metadata_store \<Rightarrow> string \<Rightarrow> u32 option" where
  "f_key m k = ok_of (md_get_f32 m k)"

definition b_key :: "metadata_store \<Rightarrow> string \<Rightarrow> bool option" where
  "b_key m k = Option.bind (md_get m k) as_bool"

definition s_key :: "metadata_store \<Rightarrow> string \<Rightarrow> string option" where
  "s_key m k = ok_of (md_get_string m k)"

section \<open>The vision encoder and the extra hyperparameters\<close>

record vision_config =
  vc_image_size :: nat
  vc_patch_size :: nat
  vc_hidden_size :: nat
  vc_num_heads :: nat
  vc_num_layers :: nat
  vc_window_size :: nat

definition vision_key :: "metadata_store \<Rightarrow> string \<Rightarrow> nat option" where
  "vision_key m suffix = or_key (u_key m (''clip.vision.'' @ suffix)) (u_key m (''vision.'' @ suffix))"

definition vision_from_metadata :: "metadata_store \<Rightarrow> vision_config option" where
  "vision_from_metadata m =
     map_option (\<lambda>num_layers.
       \<lparr>vc_image_size = unwrap_or (vision_key m ''image_size'') 224,
        vc_patch_size = unwrap_or (vision_key m ''patch_size'') 14,
        vc_hidden_size = unwrap_or (vision_key m ''embedding_length'') 1024,
        vc_num_heads = unwrap_or (vision_key m ''attention.head_count'') 16,
        vc_num_layers = num_layers,
        vc_window_size = unwrap_or (vision_key m ''window_size'') 0\<rparr>)
       (some_if (\<lambda>v. v > 0) (vision_key m ''block_count''))"

record extra_hparams =
  xh_rope_dimension_count :: "nat option"
  xh_rope_sections :: "nat list option"
  xh_attn_logit_softcapping :: "u32 option"
  xh_final_logit_softcapping :: "u32 option"
  xh_query_pre_attn_scalar :: "u32 option"
  xh_expert_group_count :: "nat option"
  xh_expert_group_used_count :: "nat option"
  xh_expert_weights_norm :: "bool option"
  xh_expert_weights_scale :: "u32 option"
  xh_clamp_kqv :: "u32 option"
  xh_max_alibi_bias :: "u32 option"
  xh_layer_norm_eps :: "u32 option"
  xh_use_parallel_residual :: "bool option"
  xh_sliding_window_pattern :: "u32 option"
  xh_attention_scale :: "u32 option"
  xh_value_length :: "nat option"

definition extra_from_metadata :: "metadata_store \<Rightarrow> string \<Rightarrow> extra_hparams" where
  "extra_from_metadata m arch =
     \<lparr>xh_rope_dimension_count = u_key m (arch @ ''.rope.dimension_count''),
      xh_rope_sections = some_if (\<lambda>v. v \<noteq> [])
        (map_option (\<lambda>arr. map unat (List.map_filter as_u32 arr))
          (Option.bind (md_get m (arch @ ''.rope.dimension_sections'')) as_array)),
      xh_attn_logit_softcapping = f_key m (arch @ ''.attn_logit_softcapping''),
      xh_final_logit_softcapping = f_key m (arch @ ''.final_logit_softcapping''),
      xh_query_pre_attn_scalar = f_key m (arch @ ''.attention.query_pre_attn_scalar''),
      xh_expert_group_count = u_key m (arch @ ''.expert_group_count''),
      xh_expert_group_used_count = u_key m (arch @ ''.expert_group_used_count''),
      xh_expert_weights_norm = b_key m (arch @ ''.expert_weights_norm''),
      xh_expert_weights_scale = f_key m (arch @ ''.expert_weights_scale''),
      xh_clamp_kqv = f_key m (arch @ ''.attention.clamp_kqv''),
      xh_max_alibi_bias = f_key m (arch @ ''.attention.max_alibi_bias''),
      xh_layer_norm_eps = f_key m (arch @ ''.attention.layer_norm_epsilon''),
      xh_use_parallel_residual = b_key m (arch @ ''.use_parallel_residual''),
      xh_sliding_window_pattern = ok_of (md_get_u32 m (arch @ ''.attention.sliding_window_pattern'')),
      xh_attention_scale = f_key m (arch @ ''.attention.scale''),
      xh_value_length = u_key m (arch @ ''.attention.value_length'')\<rparr>"

record deepseek_config =
  dk_q_lora_rank :: nat
  dk_kv_lora_rank :: nat
  dk_qk_nope_head_dim :: nat
  dk_qk_rope_head_dim :: nat
  dk_v_head_dim :: nat
  dk_n_shared_experts :: nat
  dk_n_routed_experts :: nat
  dk_top_k_routed :: nat
  dk_shared_expert_intermediate_size :: nat
  dk_routed_scaling_factor :: u32
  dk_first_k_dense_replace :: nat

definition deepseek_from_metadata :: "metadata_store \<Rightarrow> nat \<Rightarrow> deepseek_config" where
  "deepseek_from_metadata m hidden_size =
     \<lparr>dk_q_lora_rank = unwrap_or (u_key m ''deepseek2.attention.q_lora_rank'') 1536,
      dk_kv_lora_rank = unwrap_or (u_key m ''deepseek2.attention.kv_lora_rank'') 512,
      dk_qk_nope_head_dim = unwrap_or (u_key m ''deepseek2.attention.key_length'') 128,
      dk_qk_rope_head_dim = unwrap_or (u_key m ''deepseek2.attention.rope_head_dim'') 64,
      dk_v_head_dim = unwrap_or (u_key m ''deepseek2.attention.value_length'') 128,
      dk_n_shared_experts = unwrap_or (u_key m ''deepseek2.expert_shared_count'') 1,
      dk_n_routed_experts = unwrap_or (u_key m ''deepseek2.expert_count'') 64,
      dk_top_k_routed = unwrap_or (u_key m ''deepseek2.expert_used_count'') 6,
      dk_shared_expert_intermediate_size =
        unwrap_or (u_key m ''deepseek2.expert_shared_feed_forward_length'') (hidden_size * 2),
      dk_routed_scaling_factor = unwrap_or (f_key m ''deepseek2.expert_weights_scale'') 0x3F800000,
      dk_first_k_dense_replace = unwrap_or (u_key m ''deepseek2.leading_dense_block_count'') 1\<rparr>"

section \<open>The model configuration\<close>

record model_config =
  mc_architecture :: string
  mc_model_name :: string
  mc_hidden_size :: nat
  mc_intermediate_size :: nat
  mc_num_layers :: nat
  mc_num_attention_heads :: nat
  mc_num_kv_heads :: nat
  mc_head_dim :: nat
  mc_vocab_size :: nat
  mc_max_context_length :: nat
  mc_rms_norm_eps :: u32
  mc_rope_freq_base :: u32
  mc_quant_type :: "tensor_type option"
  mc_attention_bias :: bool
  mc_ffn_bias :: bool
  mc_activation :: string
  mc_sliding_window :: "nat option"
  mc_logit_scale :: u32
  mc_num_experts :: nat
  mc_num_experts_used :: nat
  mc_swa_window :: "u32 option"
  mc_swa_interleaved :: bool
  mc_rope_scaling_type :: rope_scaling
  mc_rope_scaling_factor :: u32
  mc_vision_config :: "vision_config option"

definition model_config_default :: model_config where
  "model_config_default =
     \<lparr>mc_architecture = [], mc_model_name = [], mc_hidden_size = 4096, mc_intermediate_size = 16384,
      mc_num_layers = 32, mc_num_attention_heads = 32, mc_num_kv_heads = 32, mc_head_dim = 128,
      mc_vocab_size = 32000, mc_max_context_length = 4096, mc_rms_norm_eps = 0x3727C5AC,
      mc_rope_freq_base = 0x461C4000, mc_quant_type = None, mc_attention_bias = False, mc_ffn_bias = False,
      mc_activation = ''silu'', mc_sliding_window = None, mc_logit_scale = 0x3F800000, mc_num_experts = 0,
      mc_num_experts_used = 0, mc_swa_window = None, mc_swa_interleaved = False,
      mc_rope_scaling_type = Standard, mc_rope_scaling_factor = 0x3F800000, mc_vision_config = None\<rparr>"

definition head_dim_of :: "metadata_store \<Rightarrow> string \<Rightarrow> nat \<Rightarrow> nat \<Rightarrow> nat" where
  "head_dim_of m arch hidden_size num_attention_heads =
     unwrap_or (some_if (\<lambda>v. v > 0)
       (or_key (some_if (\<lambda>v. v > 0) (u_key m (arch @ ''.attention.key_length'')))
          (if num_attention_heads = 0 then None else Some (hidden_size div num_attention_heads)))) 128"

definition vocab_size_of :: "metadata_store \<Rightarrow> string \<Rightarrow> nat" where
  "vocab_size_of m arch =
     unwrap_or (some_if (\<lambda>v. v > 0)
       (or_key (u_key m (arch @ ''.vocab_size''))
          (map_option length (Option.bind (md_get m ''tokenizer.ggml.tokens'') as_array)))) 32000"

text \<open>\<open>usize::to_string\<close>.\<close>

fun nat_to_string :: "nat \<Rightarrow> string" where
  "nat_to_string n =
     (if n < 10 then [char_of (48 + n)] else nat_to_string (n div 10) @ [char_of (48 + n mod 10)])"

declare nat_to_string.simps [simp del]

definition validate_attention_shape :: "string \<Rightarrow> nat \<Rightarrow> nat \<Rightarrow> nat \<Rightarrow> nat \<Rightarrow> arch_error + unit" where
  "validate_attention_shape arch hidden_size num_attention_heads num_kv_heads head_dim =
     (if num_attention_heads = 0 then Inl (ConfigMismatch (arch @ ''.attention.head_count'') ''> 0'' ''0'')
      else if num_kv_heads = 0 then Inl (ConfigMismatch (arch @ ''.attention.head_count_kv'') ''> 0'' ''0'')
      else if num_kv_heads > num_attention_heads
      then Inl (ConfigMismatch (arch @ ''.attention.head_count_kv'') (''<= head_count ('' @ nat_to_string num_attention_heads @ '')'')
             (nat_to_string num_kv_heads))
      else if num_attention_heads mod num_kv_heads \<noteq> 0
      then Inl (ConfigMismatch (arch @ ''.attention.head_count_kv'') (''a divisor of head_count ('' @ nat_to_string num_attention_heads @ '')'')
             (nat_to_string num_kv_heads))
      else if head_dim = 0 then Inl (ConfigMismatch (arch @ ''.attention.key_length'') ''> 0'' ''0'')
      else if hidden_size = 0 then Inl (ConfigMismatch (arch @ ''.embedding_length'') ''> 0'' ''0'')
      else Inr ())"

definition config_from_metadata :: "metadata_store \<Rightarrow> arch_error + model_config" where
  "config_from_metadata m =
     (case md_get_string m ''general.architecture'' of
        Inl _ \<Rightarrow> Inl (UnknownArchitecture ''<missing>'')
      | Inr arch \<Rightarrow>
          let hidden_size = unwrap_or (u_key m (arch @ ''.embedding_length'')) 4096;
              num_attention_heads = unwrap_or (u_key m (arch @ ''.attention.head_count'')) 32;
              num_kv_heads = unwrap_or (u_key m (arch @ ''.attention.head_count_kv'')) num_attention_heads;
              head_dim = head_dim_of m arch hidden_size num_attention_heads;
              sliding_window = u_key m (arch @ ''.attention.sliding_window'')
          in and_then (case md_get_string m (arch @ ''.rope.scaling.type'') of
                         Inr s \<Rightarrow> rope_scaling_parse s
                       | Inl _ \<Rightarrow> Inr Standard) (\<lambda>rope_scaling_type.
             and_then (validate_attention_shape arch hidden_size num_attention_heads num_kv_heads head_dim) (\<lambda>_.
               Inr \<lparr>mc_architecture = arch,
                 mc_model_name = unwrap_or (s_key m ''general.name'') ''unknown'',
                 mc_hidden_size = hidden_size,
                 mc_intermediate_size = unwrap_or (u_key m (arch @ ''.feed_forward_length'')) (hidden_size * 4),
                 mc_num_layers = unwrap_or (u_key m (arch @ ''.block_count'')) 32,
                 mc_num_attention_heads = num_attention_heads,
                 mc_num_kv_heads = num_kv_heads,
                 mc_head_dim = head_dim,
                 mc_vocab_size = vocab_size_of m arch,
                 mc_max_context_length = unwrap_or (u_key m (arch @ ''.context_length'')) 4096,
                 mc_rms_norm_eps = unwrap_or (or_key (f_key m (arch @ ''.attention.layer_norm_rms_epsilon''))
                   (f_key m (arch @ ''.attention.layer_norm_epsilon''))) 0x3727C5AC,
                 mc_rope_freq_base = unwrap_or (f_key m (arch @ ''.rope.freq_base'')) 0x461C4000,
                 mc_quant_type = Option.bind (ok_of (md_get_u32 m ''general.file_type'')) quant_type_from_file_type,
                 mc_attention_bias = False,
                 mc_ffn_bias = False,
                 mc_activation = unwrap_or (or_key (s_key m (arch @ ''.activation'')) (s_key m ''general.activation''))
                   (default_activation_for_arch arch),
                 mc_sliding_window = sliding_window,
                 mc_logit_scale = unwrap_or (f_key m (arch @ ''.logit_scale'')) 0x3F800000,
                 mc_num_experts = unwrap_or (u_key m (arch @ ''.expert_count'')) 0,
                 mc_num_experts_used = unwrap_or (u_key m (arch @ ''.expert_used_count'')) 0,
                 mc_swa_window = map_option word_of_nat sliding_window,
                 mc_swa_interleaved = (case swa_pattern_for_arch arch of None \<Rightarrow> False | Some p \<Rightarrow> is_interleaved p),
                 mc_rope_scaling_type = rope_scaling_type,
                 mc_rope_scaling_factor = unwrap_or (f_key m (arch @ ''.rope.scaling.factor'')) 0x3F800000,
                 mc_vision_config = vision_from_metadata m\<rparr>)))"

section \<open>Hints from the tensor table\<close>

definition ends_with :: "string \<Rightarrow> string \<Rightarrow> bool" where
  "ends_with name suffix \<longleftrightarrow> length suffix \<le> length name \<and> drop (length name - length suffix) name = suffix"

definition attn_bias_suffixes :: "string list" where
  "attn_bias_suffixes = [''attn_q.bias'', ''attn_k.bias'', ''attn_v.bias'', ''attn_qkv.bias'', ''attn_output.bias'']"

definition ffn_bias_suffixes :: "string list" where
  "ffn_bias_suffixes = [''ffn_up.bias'', ''ffn_down.bias'', ''ffn_gate.bias'']"

fun count_type :: "tensor_type \<Rightarrow> (tensor_type \<times> nat) list \<Rightarrow> (tensor_type \<times> nat) list" where
  "count_type t [] = [(t, 1)]"
| "count_type t ((u, n) # counts) = (if u = t then (u, n + 1) # counts else (u, n) # count_type t counts)"

text \<open>\<open>max_by_key\<close> returns the last of the greatest. The order in which a \<open>HashMap\<close> gives its
  entries is the parameter \<open>order\<close>.\<close>

fun last_max :: "(tensor_type \<times> nat) option \<Rightarrow> (tensor_type \<times> nat) list \<Rightarrow> (tensor_type \<times> nat) option" where
  "last_max best [] = best"
| "last_max best ((t, n) # counts) =
     last_max (case best of None \<Rightarrow> Some (t, n) | Some (u, k) \<Rightarrow> if k \<le> n then Some (t, n) else Some (u, k)) counts"

type_synonym count_order = "(tensor_type \<times> nat) list \<Rightarrow> (tensor_type \<times> nat) list"

definition apply_tensor_hints :: "count_order \<Rightarrow> tensor_store \<Rightarrow> model_config \<Rightarrow> model_config" where
  "apply_tensor_hints order tensors c =
     (let named = (\<lambda>suffixes. list_ex (\<lambda>(name, info). list_ex (ends_with name) suffixes) (ts_infos tensors));
          counts = fold (\<lambda>(name, info). count_type (ti_type info)) (ts_infos tensors) []
      in c\<lparr>mc_attention_bias := mc_attention_bias c \<or> named attn_bias_suffixes,
           mc_ffn_bias := mc_ffn_bias c \<or> named ffn_bias_suffixes,
           mc_quant_type := (case mc_quant_type c of
               Some t \<Rightarrow> Some t
             | None \<Rightarrow> map_option fst (last_max None (filter (\<lambda>(t, n). t \<noteq> F32 \<and> t \<noteq> F16) (order counts))))\<rparr>)"

definition config_from_metadata_and_tensors :: "count_order \<Rightarrow> metadata_store \<Rightarrow> tensor_store \<Rightarrow> arch_error + model_config" where
  "config_from_metadata_and_tensors order m tensors =
     and_then (config_from_metadata m) (\<lambda>c. Inr (apply_tensor_hints order tensors c))"

definition mc_rope_style :: "model_config \<Rightarrow> rope_style" where
  "mc_rope_style c = rope_style_for_arch (mc_architecture c)"

section \<open>The sliding window\<close>

definition mc_swa_pattern :: "model_config \<Rightarrow> swa_pattern option" where
  "mc_swa_pattern c =
     (case mc_swa_window c of
        None \<Rightarrow> None
      | Some _ \<Rightarrow> Some (unwrap_or (swa_pattern_for_arch (mc_architecture c))
          (if mc_swa_interleaved c then EveryNth 2 else SwaAll)))"

definition effective_attention_span :: "model_config \<Rightarrow> nat \<Rightarrow> u32" where
  "effective_attention_span c layer_idx =
     (case (mc_swa_window c, mc_swa_pattern c) of
        (Some window, Some pattern) \<Rightarrow> if is_sliding pattern layer_idx then window else - 1
      | _ \<Rightarrow> - 1)"

definition is_sliding_window_layer :: "model_config \<Rightarrow> nat \<Rightarrow> bool" where
  "is_sliding_window_layer c layer_idx \<longleftrightarrow> effective_attention_span c layer_idx \<noteq> - 1"

definition swa_attend_start :: "model_config \<Rightarrow> nat \<Rightarrow> nat \<Rightarrow> nat" where
  "swa_attend_start c layer_idx query_pos =
     (let span = effective_attention_span c layer_idx
      in if span = - 1 then 0
         else if unat span = 0 then query_pos
         else query_pos - (unat span - 1))"

section \<open>What a configuration guarantees\<close>

text \<open>What every architecture divides by and allocates.\<close>

definition config_ok :: "model_config \<Rightarrow> bool" where
  "config_ok c \<longleftrightarrow>
     0 < mc_num_kv_heads c \<and> mc_num_kv_heads c dvd mc_num_attention_heads c \<and>
     0 < mc_num_attention_heads c div mc_num_kv_heads c \<and> 0 < mc_head_dim c \<and> 0 < mc_hidden_size c \<and>
     0 < mc_vocab_size c \<and> mc_num_kv_heads c * mc_head_dim c < 2 ^ 64 \<and>
     mc_hidden_size c < 2 ^ 32 \<and> mc_intermediate_size c < 2 ^ 34 \<and> mc_num_layers c < 2 ^ 32"

lemma u_key_less: "u_key m k = Some n \<Longrightarrow> n < 2 ^ 32"
proof -
  have "unat w < 2 ^ 32" for w :: u32 using unsigned_less [of w] by simp
  then show "u_key m k = Some n \<Longrightarrow> n < 2 ^ 32" by (auto simp: u_key_def)
qed

lemma unwrap_u_key: "d < 2 ^ 32 \<Longrightarrow> unwrap_or (u_key m k) d < 2 ^ 32"
  by (cases "u_key m k") (auto simp: unwrap_or_def dest: u_key_less)

lemma head_dim_of_ok: "h < 2 ^ 32 \<Longrightarrow> 0 < head_dim_of m arch h n \<and> head_dim_of m arch h n < 2 ^ 32"
  by (auto simp: head_dim_of_def unwrap_or_def some_if_def or_key_def dest: u_key_less
      intro: le_less_trans[OF div_le_dividend] split: option.splits)

lemma vocab_size_of_pos: "0 < vocab_size_of m arch"
  by (auto simp: vocab_size_of_def unwrap_or_def some_if_def split: option.splits)

lemma validate_ok:
  assumes "validate_attention_shape arch h n kv d = Inr u"
  shows "0 < n" and "0 < kv" and "kv dvd n" and "0 < n div kv" and "0 < d" and "0 < h"
  using assms by (auto simp: validate_attention_shape_def div_greater_zero_iff mod_eq_0_iff_dvd split: if_splits)

lemma config_from_metadata_ok:
  assumes "config_from_metadata m = Inr c"
  shows "config_ok c"
proof -
  obtain arch where arch: "md_get_string m ''general.architecture'' = Inr arch"
    using assms by (auto simp: config_from_metadata_def split: sum.splits)
  let ?h = "unwrap_or (u_key m (arch @ ''.embedding_length'')) 4096"
  let ?n = "unwrap_or (u_key m (arch @ ''.attention.head_count'')) 32"
  let ?kv = "unwrap_or (u_key m (arch @ ''.attention.head_count_kv'')) ?n"
  let ?d = "head_dim_of m arch ?h ?n"
  have valid: "validate_attention_shape arch ?h ?n ?kv ?d = Inr ()"
    and c: "mc_num_kv_heads c = ?kv" "mc_num_attention_heads c = ?n" "mc_head_dim c = ?d" "mc_hidden_size c = ?h"
      "mc_vocab_size c = vocab_size_of m arch" "mc_num_layers c = unwrap_or (u_key m (arch @ ''.block_count'')) 32"
      "mc_intermediate_size c = unwrap_or (u_key m (arch @ ''.feed_forward_length'')) (?h * 4)"
    using assms by (auto simp: config_from_metadata_def arch Let_def elim!: and_then_InrE)
  have h: "?h < 2 ^ 32" and n: "?n < 2 ^ 32" by (rule unwrap_u_key, simp)+
  have kv: "?kv < 2 ^ 32" using n by (rule unwrap_u_key)
  have d: "?d < 2 ^ 32" using head_dim_of_ok[OF h] by blast
  have "?kv * ?d < 2 ^ 32 * 2 ^ 32" by (rule mult_strict_mono[OF kv d]) simp_all
  moreover have "unwrap_or (u_key m (arch @ ''.feed_forward_length'')) (?h * 4) < 2 ^ 34"
    using h by (cases "u_key m (arch @ ''.feed_forward_length'')") (auto simp: unwrap_or_def dest: u_key_less)
  moreover have "unwrap_or (u_key m (arch @ ''.block_count'')) 32 < 2 ^ 32" by (rule unwrap_u_key) simp
  ultimately show ?thesis
    using validate_ok[OF valid] h vocab_size_of_pos by (simp add: config_ok_def c)
qed

text \<open>The first visible key is the one that the rule of the window admits.\<close>

lemma swa_attend_start_visible:
  assumes "p \<le> q" and "effective_attention_span c l \<noteq> 0"
  shows "swa_attend_start c l q \<le> p \<longleftrightarrow> (is_sliding_window_layer c l \<longrightarrow> q - p < unat (effective_attention_span c l))"
proof -
  have "0 < unat (effective_attention_span c l)" using assms(2) by (simp add: unat_gt_0)
  then show ?thesis using assms(1) by (auto simp: swa_attend_start_def is_sliding_window_layer_def Let_def)
qed

section \<open>The predominant type\<close>

definition type_count :: "tensor_type \<Rightarrow> (tensor_type \<times> nat) list \<Rightarrow> nat" where
  "type_count t counts = (case map_of counts t of None \<Rightarrow> 0 | Some n \<Rightarrow> n)"

lemma map_of_count_type:
  "map_of (count_type t counts) = (map_of counts)(t \<mapsto> type_count t counts + 1)"
  by (induction t counts rule: count_type.induct) (auto simp: type_count_def fun_eq_iff)

lemma fst_count_type: "fst ` set (count_type t counts) = insert t (fst ` set counts)"
  by (induction t counts rule: count_type.induct) auto

lemma distinct_count_type: "distinct (map fst counts) \<Longrightarrow> distinct (map fst (count_type t counts))"
proof (induction t counts rule: count_type.induct)
  case (2 t u n counts)
  then show ?case by (auto simp: fst_count_type)
qed simp

lemma counts_of_fold:
  fixes infos :: "(string \<times> tensor_info) list"
  assumes "distinct (map fst counts)"
  defines "r \<equiv> fold (\<lambda>(name, info). count_type (ti_type info)) infos counts"
  shows "distinct (map fst r)"
    and "type_count t r = type_count t counts + length (filter (\<lambda>(name, info). ti_type info = t) infos)"
    and "fst ` set r = fst ` set counts \<union> ti_type ` snd ` set infos"
proof -
  have "distinct (map fst r) \<and>
      type_count t r = type_count t counts + length (filter (\<lambda>(name, info). ti_type info = t) infos) \<and>
      fst ` set r = fst ` set counts \<union> ti_type ` snd ` set infos"
    using assms(1) unfolding r_def
  proof (induction infos arbitrary: counts)
    case (Cons e infos)
    then show ?case
      using distinct_count_type[of counts "ti_type (snd e)"]
      by (auto simp: fst_count_type type_count_def map_of_count_type split_beta)
  qed simp
  then show "distinct (map fst r)"
    and "type_count t r = type_count t counts + length (filter (\<lambda>(name, info). ti_type info = t) infos)"
    and "fst ` set r = fst ` set counts \<union> ti_type ` snd ` set infos" by blast+
qed

text \<open>What \<open>max_by_key\<close> returns is one of the entries and no entry is greater.\<close>

lemma last_max_greatest:
  assumes "last_max best counts = Some (t, n)"
  shows "(t, n) \<in> set_option best \<union> set counts"
    and "(u, k) \<in> set_option best \<union> set counts \<Longrightarrow> k \<le> n"
proof -
  have "(t, n) \<in> set_option best \<union> set counts \<and> (\<forall>(u, k) \<in> set_option best \<union> set counts. k \<le> n)"
    using assms
  proof (induction best counts rule: last_max.induct)
    case (2 best u k counts)
    then show ?case by (auto split: option.splits if_splits prod.splits)
  qed auto
  then show "(t, n) \<in> set_option best \<union> set counts"
    and "(u, k) \<in> set_option best \<union> set counts \<Longrightarrow> k \<le> n" by auto
qed

lemma last_max_None: "last_max best counts = None \<longleftrightarrow> best = None \<and> counts = []"
  by (induction best counts rule: last_max.induct) (auto split: option.splits)

end
