(* ===== verification/Arch_Properties.thy ===== *)
theory Arch_Properties
  imports Arch_Config "HOL-Library.Multiset"
begin

text \<open>Properties of the model configuration, with their witnesses.\<close>

definition gemma_store :: metadata_store where
  "gemma_store = fold (\<lambda>(k, v). md_insert k v)
     [(''general.architecture'', VString ''gemma2''), (''gemma2.attention.head_count'', VUint32 8),
      (''gemma2.attention.head_count_kv'', VUint32 4), (''gemma2.attention.sliding_window'', VUint32 16)] md_new"

definition gemma_config :: model_config where
  "gemma_config = (case config_from_metadata gemma_store of Inr c \<Rightarrow> c)"

lemma gemma_get:
  "md_get gemma_store k =
     map_of [(''general.architecture'', VString ''gemma2''), (''gemma2.attention.head_count'', VUint32 8),
       (''gemma2.attention.head_count_kv'', VUint32 4), (''gemma2.attention.sliding_window'', VUint32 16)] k"
  by (simp add: gemma_store_def md_insert_def md_new_def md_get_def)

lemma gemma_keys:
  "md_get_string gemma_store ''general.architecture'' = Inr ''gemma2''"
  "md_get_string gemma_store ''gemma2.rope.scaling.type'' = Inl (InvalidMetadata ''gemma2.rope.scaling.type'' ExpectedString)"
  "u_key gemma_store ''gemma2.embedding_length'' = None"
  "u_key gemma_store ''gemma2.attention.head_count'' = Some 8"
  "u_key gemma_store ''gemma2.attention.head_count_kv'' = Some 4"
  "u_key gemma_store ''gemma2.attention.sliding_window'' = Some 16"
  "u_key gemma_store ''gemma2.attention.key_length'' = None"
  by (simp_all add: u_key_def ok_of_def md_get_string_def md_get_u32_def gemma_get)

lemma gemma_config_loads: "config_from_metadata gemma_store = Inr gemma_config"
  by (simp add: gemma_config_def config_from_metadata_def Let_def and_then_def validate_attention_shape_def
      gemma_keys head_dim_of_def unwrap_or_def some_if_def or_key_def)


section \<open>The shape\<close>

text \<open>C25: Whatever the metadata of a file says, a configuration that \<open>ModelConfig::from_metadata\<close>
  accepts has head counts that are positive and divide evenly, positive widths and a vocabulary that
  is not empty, and the width of a cached row fits a machine word: no later division by zero.\<close>

theorem config_shape_valid:
  assumes "config_from_metadata m = Inr c"
  shows "config_ok c"
  using assms by (rule config_from_metadata_ok)

theorem config_shape_valid_witness:
  "config_from_metadata gemma_store = Inr gemma_config \<and> config_ok gemma_config"
  using config_shape_valid [OF gemma_config_loads] gemma_config_loads by simp

section \<open>The sliding window\<close>











section \<open>The predominant type\<close>

text \<open>When the metadata names no file type, the type that \<open>apply_tensor_hints\<close> derives is one of
  the quantised types of the tensors and no other quantised type has more tensors, whatever the
  order in which the hash map gives its counts.\<close>

theorem quant_type_most_common:
  assumes "\<And>cs. mset (order cs) = mset cs" and "mc_quant_type c = None" and "u \<noteq> F32" and "u \<noteq> F16"
    and "mc_quant_type (apply_tensor_hints order ts c) = Some t"
  shows "t \<noteq> F32 \<and> t \<noteq> F16 \<and>
    length (filter (\<lambda>(name, info). ti_type info = u) (ts_infos ts))
      \<le> length (filter (\<lambda>(name, info). ti_type info = t) (ts_infos ts))"
proof -
  define counts where "counts = fold (\<lambda>(name, info). count_type (ti_type info)) (ts_infos ts) []"
  have counts: "distinct (map fst counts)"
    "type_count v counts = length (filter (\<lambda>(name, info). ti_type info = v) (ts_infos ts))" for v
    using counts_of_fold(1,2)[of "[]"] by (simp_all add: counts_def type_count_def)
  have order: "set (order counts) = set counts" using assms(1) mset_eq_setD by blast
  obtain n where n: "last_max None (filter (\<lambda>(t, n). t \<noteq> F32 \<and> t \<noteq> F16) (order counts)) = Some (t, n)"
    using assms(2,5) by (auto simp: apply_tensor_hints_def Let_def counts_def)
  have t: "(t, n) \<in> set counts" "t \<noteq> F32" "t \<noteq> F16" using last_max_greatest(1)[OF n] by (auto simp: order)
  have "type_count u counts \<le> n"
  proof (cases "map_of counts u")
    case (Some k)
    then show ?thesis
      using last_max_greatest(2)[OF n, of u k] assms(3,4) by (auto simp: order type_count_def dest: map_of_SomeD)
  qed (simp add: type_count_def)
  moreover have "type_count t counts = n" using t(1) counts(1) by (simp add: type_count_def)
  ultimately show ?thesis using t counts(2) by simp
qed

definition three_tensors :: tensor_store where
  "three_tensors = \<lparr>ts_infos = map (\<lambda>(name, t). (name, \<lparr>ti_name = name, ti_n_dims = 1, ti_dimensions = [32],
       ti_type = t, ti_offset = 0\<rparr>))
     [(''a'', F32), (''b'', Q4K), (''c'', Q6K), (''d'', Q4K), (''e'', F32), (''f'', F32)], ts_data_offset = 0\<rparr>"

theorem quant_type_most_common_witness:
  "mc_quant_type (apply_tensor_hints rev three_tensors model_config_default) = Some Q4K \<and>
   length (filter (\<lambda>(name, info). ti_type info = Q6K) (ts_infos three_tensors))
     \<le> length (filter (\<lambda>(name, info). ti_type info = Q4K) (ts_infos three_tensors))"
proof -
  have q: "mc_quant_type (apply_tensor_hints rev three_tensors model_config_default) = Some Q4K"
    by (simp add: apply_tensor_hints_def three_tensors_def model_config_default_def)
  have d: "mc_quant_type model_config_default = None" by (simp add: model_config_default_def)
  show ?thesis using quant_type_most_common [OF _ d _ _ q, of Q6K] q by simp
qed

end
