(* ===== verification/Eng_Load.thy ===== *)
theory Eng_Load
  imports Dec_Engine Arch_Config
begin

text \<open>
  Loading a model into \<open>InferenceEngine\<close> (\<open>oxillama-runtime/src/engine/mod.rs\<close>): the file is parsed,
  its configuration read, the forward pass built, an empty cache of the configured shape made and a
  tokenizer found. The disk, the construction of the forward pass and the \<open>tokenizers\<close> crate are
  parameters; the GPU policy is \<open>Off\<close> and all weights stay in memory.
\<close>

section \<open>The engine around its sequence\<close>

record engine_config =
  ec_model_path :: string
  ec_tokenizer_path :: "string option"
  ec_context_size :: "nat option"
  ec_num_threads :: nat
  ec_sampler :: sampler_config
  ec_prefill_chunk_size :: nat
  ec_kv_dtype :: kv_dtype

definition engine_config_default :: engine_config where
  "engine_config_default =
     \<lparr>ec_model_path = [], ec_tokenizer_path = None, ec_context_size = None, ec_num_threads = 0,
      ec_sampler = sampler_config_default, ec_prefill_chunk_size = 512, ec_kv_dtype = DtF32\<rparr>"

definition with_kv_dtype :: "kv_dtype \<Rightarrow> engine_config \<Rightarrow> engine_config" where
  "with_kv_dtype dtype config = config\<lparr>ec_kv_dtype := dtype\<rparr>"

text \<open>\<open>InferenceEngine\<close>: the fields of \<open>engine\<close> and those that only loading and snapshots use.\<close>

record ('re, 'h, 'f) session =
  ss_config :: engine_config
  ss_gguf :: "gguf_file option"
  ss_model_config :: "model_config option"
  ss_engine :: "('re, 'h, 'f) engine"

definition session_new :: "engine_config \<Rightarrow> ('re, 'h, 'f) session" where
  "session_new config =
     \<lparr>ss_config = config, ss_gguf = None, ss_model_config = None,
      ss_engine = engine_new (ec_prefill_chunk_size config) (ec_sampler config)\<rparr>"

section \<open>What loading calls\<close>

text \<open>A file of the disk with its modification time in seconds since the epoch, where it has one.\<close>

record disk_file =
  df_bytes :: "u8 list"
  df_mtime :: "nat option"

text \<open>\<open>ld_disk\<close> gives no file where the path does not exist, and an error where it cannot be read;
  \<open>ld_sidecar\<close> is the \<open>tokenizer.json\<close> next to the model.\<close>

record ('re, 'h, 'f, 'e) load_deps =
  ld_disk :: "string \<Rightarrow> (string + disk_file) option"
  ld_build :: "u8 list \<Rightarrow> gguf_file \<Rightarrow> model_config \<Rightarrow> 'e runtime_error + 'f"
  ld_hf :: "'h hf_ops"
  ld_open_hf :: "string \<Rightarrow> string + 'h"
  ld_hf_bytes :: "u8 list \<Rightarrow> string + 'h"
  ld_compile :: "pre_type \<Rightarrow> 're list option"
  ld_sidecar :: "string \<Rightarrow> string option"

text \<open>The errors of \<open>RuntimeError\<close> that loading and snapshots add to those of a run.\<close>

record model_fingerprint =
  mf_file_size :: u64
  mf_mtime_secs :: i64
  mf_head_hash :: "u8 list"
  mf_tail_hash :: "u8 list"
  mf_probe_size :: u32

datatype spec_reason =
    Truncated nat nat
  | BadMagic "u8 list"
  | BadVersion u32
  | TargetCorrupt
  | DraftCorrupt

datatype snapshot_reason =
    EncodeFailed string
  | DecodeFailed string
  | BadSnapshotMagic
  | BadSnapshotVersion u32

datatype 'e session_error =
    Runtime "'e runtime_error"
  | GgufFailed gguf_error
  | ConfigFailed arch_error
  | IoFailed string
  | GrammarFailed grammar_error
  | SnapshotIncompatible snapshot_reason
  | FingerprintMismatch model_fingerprint model_fingerprint
  | SpecIncompatible spec_reason
  | SnapshotPanic

fun map_err :: "('e \<Rightarrow> 'd) \<Rightarrow> 'e + 'a \<Rightarrow> 'd + 'a" where
  "map_err f (Inl e) = Inl (f e)"
| "map_err f (Inr a) = Inr a"

lemma map_err_Inr: "map_err f r = Inr a \<longleftrightarrow> r = Inr a"
  by (cases r) auto

section \<open>Loading\<close>

text \<open>From the bytes of the file on; \<open>tok\<close> finds the tokenizer.\<close>

definition load_parsed ::
  "('re, 'h, 'f, 'e) load_deps \<Rightarrow> (metadata_store \<Rightarrow> bridge_error + ('re, 'h) tokenizer_bridge) \<Rightarrow> u8 list \<Rightarrow>
     ('re, 'h, 'f) session \<Rightarrow> 'e session_error + ('re, 'h, 'f) session" where
  "load_parsed deps tok data s =
     and_then (map_err GgufFailed (gguf_parse data)) (\<lambda>gguf.
     and_then (map_err ConfigFailed (config_from_metadata (gf_metadata gguf))) (\<lambda>c.
       let c = c\<lparr>mc_max_context_length :=
             resolve_context_size (ec_context_size (ss_config s)) (mc_max_context_length c)\<rparr>
       in and_then (map_err Runtime (ld_build deps data gguf c)) (\<lambda>forward_pass.
            let kv_dim = mc_num_kv_heads c * mc_head_dim c;
                kv = kv_with_dtype (mc_num_layers c) (mc_max_context_length c) kv_dim (ec_kv_dtype (ss_config s))
            in and_then (map_err (Runtime \<circ> TokenizerFailed) (tok (gf_metadata gguf))) (\<lambda>tb.
                 Inr (s\<lparr>ss_gguf := Some gguf, ss_model_config := Some c,
                        ss_engine := (ss_engine s)\<lparr>en_forward := Some forward_pass, en_kv := Some kv,
                          en_tokenizer := Some tb, en_eos_token_id := spt_eos (tb_special tb)\<rparr>\<rparr>)))))"

definition load_model ::
  "('re, 'h, 'f, 'e) load_deps \<Rightarrow> ('re, 'h, 'f) session \<Rightarrow> ('e session_error + unit) \<times> ('re, 'h, 'f) session" where
  "load_model deps s =
     (let path = ec_model_path (ss_config s);
          tok = load_tokenizer (ld_hf deps) (ld_open_hf deps) (ld_compile deps) (ec_tokenizer_path (ss_config s))
            (ld_sidecar deps path)
      in case ld_disk deps path of
           None \<Rightarrow> (Inl (Runtime (ModelLoadError (''model file not found: '' @ path))), s)
         | Some (Inl e) \<Rightarrow> (Inl (GgufFailed (MmapError e)), s)
         | Some (Inr file) \<Rightarrow>
             (case load_parsed deps tok (df_bytes file) s of Inl e \<Rightarrow> (Inl e, s) | Inr s \<Rightarrow> (Inr (), s)))"

definition load_model_from_bytes ::
  "('re, 'h, 'f, 'e) load_deps \<Rightarrow> u8 list \<Rightarrow> u8 list \<Rightarrow> ('re, 'h, 'f) session \<Rightarrow>
     ('e session_error + unit) \<times> ('re, 'h, 'f) session" where
  "load_model_from_bytes deps model_bytes tokenizer_json s =
     (let tok = (\<lambda>m. case ld_hf_bytes deps tokenizer_json of
            Inl e \<Rightarrow> Inl (LoadFailed e)
          | Inr h \<Rightarrow> Inr (apply_gguf_specials (ld_hf deps) m (from_hf (ld_hf deps) h)))
      in case load_parsed deps tok model_bytes s of Inl e \<Rightarrow> (Inl e, s) | Inr s \<Rightarrow> (Inr (), s))"

section \<open>What a loaded engine satisfies\<close>

definition tokenizer_ok :: "('re, 'h) tokenizer_bridge \<Rightarrow> bool" where
  "tokenizer_ok tb \<longleftrightarrow> specials_ok (tb_special tb)"

text \<open>The configuration is valid, the cache has its shape, and the end of the text is known to be one.\<close>

definition session_ok :: "('re, 'h, 'f) session \<Rightarrow> bool" where
  "session_ok s \<longleftrightarrow>
     (\<exists>c kv f tb. ss_model_config s = Some c \<and> en_kv (ss_engine s) = Some kv \<and> en_forward (ss_engine s) = Some f \<and>
        en_tokenizer (ss_engine s) = Some tb \<and> config_ok c \<and> 0 < mc_max_context_length c \<and> kv_inv kv \<and>
        kc_num_layers kv = mc_num_layers c \<and> kc_max_seq_len kv = mc_max_context_length c \<and>
        kc_kv_dim kv = mc_num_kv_heads c * mc_head_dim c \<and> 0 < kc_kv_dim kv \<and> tokenizer_ok tb \<and>
        en_eos_token_id (ss_engine s) = spt_eos (tb_special tb))"

lemma resolve_pos: "0 < resolve_context_size r n"
  by (auto simp: resolve_context_size_def split: option.splits)

lemma load_parsed_parts:
  assumes "load_parsed deps tok data s = Inr s'"
  obtains gguf c f tb where "gguf_parse data = Inr gguf" and "config_from_metadata (gf_metadata gguf) = Inr c"
    and "ld_build deps data gguf (c\<lparr>mc_max_context_length :=
           resolve_context_size (ec_context_size (ss_config s)) (mc_max_context_length c)\<rparr>) = Inr f"
    and "tok (gf_metadata gguf) = Inr tb"
    and "s' = s\<lparr>ss_gguf := Some gguf, ss_model_config := Some (c\<lparr>mc_max_context_length :=
           resolve_context_size (ec_context_size (ss_config s)) (mc_max_context_length c)\<rparr>),
         ss_engine := (ss_engine s)\<lparr>en_forward := Some f, en_kv := Some (kv_with_dtype (mc_num_layers c)
             (resolve_context_size (ec_context_size (ss_config s)) (mc_max_context_length c))
             (mc_num_kv_heads c * mc_head_dim c) (ec_kv_dtype (ss_config s))),
           en_tokenizer := Some tb, en_eos_token_id := spt_eos (tb_special tb)\<rparr>\<rparr>"
  using assms by (auto simp: load_parsed_def Let_def map_err_Inr elim!: and_then_InrE)

lemma load_parsed_ok:
  assumes "load_parsed deps tok data s = Inr s'" and "\<And>m tb. tok m = Inr tb \<Longrightarrow> tokenizer_ok tb"
  shows "session_ok s'"
    and "\<exists>kv. en_kv (ss_engine s') = Some kv \<and> kc_seq_len kv = 0 \<and> kc_dtype kv = ec_kv_dtype (ss_config s)"
proof -
  obtain gguf c f tb where c: "config_from_metadata (gf_metadata gguf) = Inr c" and tb: "tok (gf_metadata gguf) = Inr tb"
    and s': "s' = s\<lparr>ss_gguf := Some gguf, ss_model_config := Some (c\<lparr>mc_max_context_length :=
           resolve_context_size (ec_context_size (ss_config s)) (mc_max_context_length c)\<rparr>),
         ss_engine := (ss_engine s)\<lparr>en_forward := Some f, en_kv := Some (kv_with_dtype (mc_num_layers c)
             (resolve_context_size (ec_context_size (ss_config s)) (mc_max_context_length c))
             (mc_num_kv_heads c * mc_head_dim c) (ec_kv_dtype (ss_config s))),
           en_tokenizer := Some tb, en_eos_token_id := spt_eos (tb_special tb)\<rparr>\<rparr>"
    using assms(1) by (rule load_parsed_parts)
  have "config_ok c" using c by (rule config_from_metadata_ok)
  moreover from this have "config_ok (c\<lparr>mc_max_context_length := n\<rparr>)" for n by (simp add: config_ok_def)
  ultimately show "session_ok s'"
    using assms(2)[OF tb] resolve_pos kv_with_dtype_inv
    by (simp add: session_ok_def s' kv_with_dtype_def config_ok_def)
  show "\<exists>kv. en_kv (ss_engine s') = Some kv \<and> kc_seq_len kv = 0 \<and> kc_dtype kv = ec_kv_dtype (ss_config s)"
    by (simp add: s' kv_with_dtype_def)
qed

lemma load_model_parsed:
  assumes "load_model deps s = (Inr u, s')"
  obtains df where "ld_disk deps (ec_model_path (ss_config s)) = Some (Inr df)"
    and "load_parsed deps (load_tokenizer (ld_hf deps) (ld_open_hf deps) (ld_compile deps)
           (ec_tokenizer_path (ss_config s)) (ld_sidecar deps (ec_model_path (ss_config s)))) (df_bytes df) s = Inr s'"
  using assms by (auto simp: load_model_def Let_def split: option.splits sum.splits)

lemma load_model_ok:
  assumes "load_model deps s = (Inr u, s')"
  shows "session_ok s'"
    and "\<exists>kv. en_kv (ss_engine s') = Some kv \<and> kc_seq_len kv = 0 \<and> kc_dtype kv = ec_kv_dtype (ss_config s)"
  using load_parsed_ok load_tokenizer_ok load_model_parsed[OF assms] by (metis tokenizer_ok_def)+

lemma load_model_from_bytes_ok:
  assumes "load_model_from_bytes deps bytes json s = (Inr u, s')"
  shows "session_ok s'"
    and "\<exists>kv. en_kv (ss_engine s') = Some kv \<and> kc_seq_len kv = 0 \<and> kc_dtype kv = ec_kv_dtype (ss_config s)"
proof -
  let ?tok = "\<lambda>m. case ld_hf_bytes deps json of Inl e \<Rightarrow> Inl (LoadFailed e)
     | Inr h \<Rightarrow> Inr (apply_gguf_specials (ld_hf deps) m (from_hf (ld_hf deps) h))"
  have load: "load_parsed deps ?tok bytes s = Inr s'"
    using assms by (auto simp: load_model_from_bytes_def Let_def split: sum.splits)
  have tok: "tokenizer_ok tb" if "?tok m = Inr tb" for m tb
    using that specials_applied[OF from_hf_finite] by (auto simp: tokenizer_ok_def split: sum.splits)
  show "session_ok s'" using load by (rule load_parsed_ok) (rule tok)
  show "\<exists>kv. en_kv (ss_engine s') = Some kv \<and> kc_seq_len kv = 0 \<and> kc_dtype kv = ec_kv_dtype (ss_config s)"
    using load by (rule load_parsed_ok) (rule tok)
qed

end
