(* ===== verification/Snp_Snapshot.thy ===== *)
theory Snp_Snapshot
  imports Eng_Load Spc_Engine Grammar_Parser
begin

text \<open>
  \<open>oxillama-runtime/src/snapshot.rs\<close> and the snapshots of \<open>speculative.rs\<close>: the fingerprint of a model
  file, the state of an engine as a value that \<open>oxicode\<close> encodes, the byte format of a speculative
  session, and resuming from both. The hash and the codec are parameters.
\<close>

section \<open>The fingerprint of a model file\<close>

definition DEFAULT_PROBE_SIZE :: u32 where
  "DEFAULT_PROBE_SIZE = 8388608"

definition compute_with_probe ::
  "(u8 list \<Rightarrow> u8 list) \<Rightarrow> (string \<Rightarrow> (string + disk_file) option) \<Rightarrow> string \<Rightarrow> u32 \<Rightarrow>
     'e session_error + model_fingerprint" where
  "compute_with_probe hash disk path probe_size =
     (case disk path of
        None \<Rightarrow> Inl (IoFailed path)
      | Some (Inl e) \<Rightarrow> Inl (IoFailed e)
      | Some (Inr file) \<Rightarrow>
          let bytes = df_bytes file; file_size = length bytes; head_read = min (unat probe_size) file_size;
              tail_start = file_size - unat probe_size; tail_read = file_size - tail_start
          in Inr \<lparr>mf_file_size = of_nat file_size,
                  mf_mtime_secs = (case df_mtime file of None \<Rightarrow> 0 | Some secs \<Rightarrow> of_nat secs),
                  mf_head_hash = hash (take head_read bytes),
                  mf_tail_hash = hash (take tail_read (drop tail_start bytes)), mf_probe_size = probe_size\<rparr>)"

definition fingerprint_compute ::
  "(u8 list \<Rightarrow> u8 list) \<Rightarrow> (string \<Rightarrow> (string + disk_file) option) \<Rightarrow> string \<Rightarrow> 'e session_error + model_fingerprint" where
  "fingerprint_compute hash disk path = compute_with_probe hash disk path DEFAULT_PROBE_SIZE"

definition fingerprint_verify ::
  "(u8 list \<Rightarrow> u8 list) \<Rightarrow> (string \<Rightarrow> (string + disk_file) option) \<Rightarrow> model_fingerprint \<Rightarrow> string \<Rightarrow>
     'e session_error + unit" where
  "fingerprint_verify hash disk fp path =
     and_then (compute_with_probe hash disk path (mf_probe_size fp)) (\<lambda>actual.
       if actual = fp then Inr () else Inl (FingerprintMismatch fp actual))"

section \<open>The state of an engine\<close>

record ssm_payload =
  sy_ssm_states :: "f32 list list"
  sy_step :: nat

datatype sequence_payload =
    AttentionPayload kv_payload
  | Mamba2Payload ssm_payload
  | JambaPayload kv_payload ssm_payload

record sampler_payload =
  yp_rng_state :: u64
  yp_mirostat_mu :: f32
  yp_temperature :: f32
  yp_top_k :: nat
  yp_top_p :: f32
  yp_min_p :: f32
  yp_repetition_penalty :: f32
  yp_repetition_penalty_window :: nat
  yp_seed :: "u64 option"
  yp_mirostat_mode :: u8
  yp_mirostat_tau :: f32
  yp_mirostat_eta :: f32

record grammar_payload =
  yg_grammar_source :: "u8 list"

record engine_snapshot =
  es_magic :: "u8 list"
  es_version :: u32
  es_arch_id :: string
  es_model_path :: string
  es_tokenizer_path :: "string option"
  es_model_fingerprint :: model_fingerprint
  es_tokens :: "u32 list"
  es_sequence_state :: sequence_payload
  es_sampler_state :: sampler_payload
  es_grammar_state :: "grammar_payload option"
  es_max_context_length :: nat
  es_num_threads :: nat
  es_prefill_chunk_size :: nat

definition SNAPSHOT_MAGIC :: "u8 list" where
  "SNAPSHOT_MAGIC = str_bytes ''OXISNAP1''"

definition SNAPSHOT_VERSION :: u32 where
  "SNAPSHOT_VERSION = 1"

text \<open>\<open>oxicode::encode_to_vec\<close> and \<open>decode_from_slice\<close>, without the number of bytes read.\<close>

record snapshot_codec =
  cd_encode :: "engine_snapshot \<Rightarrow> string + u8 list"
  cd_decode :: "u8 list \<Rightarrow> string + engine_snapshot"

definition engine_serialize :: "snapshot_codec \<Rightarrow> engine_snapshot \<Rightarrow> 'e session_error + u8 list" where
  "engine_serialize cd snap = map_err (\<lambda>e. SnapshotIncompatible (EncodeFailed e)) (cd_encode cd snap)"

definition engine_deserialize :: "snapshot_codec \<Rightarrow> u8 list \<Rightarrow> 'e session_error + engine_snapshot" where
  "engine_deserialize cd bytes =
     and_then (map_err (\<lambda>e. SnapshotIncompatible (DecodeFailed e)) (cd_decode cd bytes)) (\<lambda>snap.
       if es_magic snap \<noteq> SNAPSHOT_MAGIC then Inl (SnapshotIncompatible BadSnapshotMagic)
       else if es_version snap \<noteq> SNAPSHOT_VERSION
       then Inl (SnapshotIncompatible (BadSnapshotVersion (es_version snap)))
       else Inr snap)"

section \<open>Snapshot and resume of an engine\<close>

record snapshot_deps =
  sd_f32 :: f32_ops
  sd_f16 :: f16_conv
  sd_hash :: "u8 list \<Rightarrow> u8 list"
  sd_codec :: snapshot_codec

definition sampler_payload_of :: "f32_ops \<Rightarrow> sampler_config \<Rightarrow> sampler_payload" where
  "sampler_payload_of fo c =
     \<lparr>yp_rng_state = (case sc_seed c of None \<Rightarrow> 0 | Some seed \<Rightarrow> seed),
      yp_mirostat_mu = f_mul fo f_two (sc_mirostat_tau c), yp_temperature = sc_temperature c,
      yp_top_k = sc_top_k c, yp_top_p = sc_top_p c, yp_min_p = sc_min_p c,
      yp_repetition_penalty = sc_repetition_penalty c,
      yp_repetition_penalty_window = sc_repetition_penalty_window c, yp_seed = sc_seed c,
      yp_mirostat_mode = sc_mirostat c, yp_mirostat_tau = sc_mirostat_tau c, yp_mirostat_eta = sc_mirostat_eta c\<rparr>"

definition snapshot_value ::
  "snapshot_deps \<Rightarrow> engine_config \<Rightarrow> model_config \<Rightarrow> model_fingerprint \<Rightarrow> kv_cache \<Rightarrow> engine_snapshot" where
  "snapshot_value sd config c fp kv =
     \<lparr>es_magic = SNAPSHOT_MAGIC, es_version = SNAPSHOT_VERSION, es_arch_id = mc_architecture c,
      es_model_path = ec_model_path config, es_tokenizer_path = ec_tokenizer_path config,
      es_model_fingerprint = fp, es_tokens = [],
      es_sequence_state = AttentionPayload (kv_to_payload (sd_f16 sd) kv),
      es_sampler_state = sampler_payload_of (sd_f32 sd) (ec_sampler config),
      es_grammar_state = map_option (\<lambda>g. \<lparr>yg_grammar_source = gr_source g\<rparr>) (sc_grammar (ec_sampler config)),
      es_max_context_length = mc_max_context_length c, es_num_threads = ec_num_threads config,
      es_prefill_chunk_size = ec_prefill_chunk_size config\<rparr>"

definition session_snapshot ::
  "snapshot_deps \<Rightarrow> (string \<Rightarrow> (string + disk_file) option) \<Rightarrow> ('re, 'h, 'f) session \<Rightarrow> 'e session_error + u8 list" where
  "session_snapshot sd disk s =
     and_then (ok_or (ss_model_config s) (Runtime ModelNotLoaded)) (\<lambda>c.
     and_then (ok_or (en_kv (ss_engine s)) (Runtime ModelNotLoaded)) (\<lambda>kv.
     and_then (fingerprint_compute (sd_hash sd) disk (ec_model_path (ss_config s))) (\<lambda>fp.
       engine_serialize (sd_codec sd) (snapshot_value sd (ss_config s) c fp kv))))"

text \<open>The sampler of a resumed engine, and its grammar, parsed again.\<close>

definition resumed_sampler :: "sampler_payload \<Rightarrow> sampler_config" where
  "resumed_sampler y =
     sampler_config_default
       \<lparr>sc_temperature := yp_temperature y, sc_top_k := yp_top_k y, sc_top_p := yp_top_p y, sc_min_p := yp_min_p y,
        sc_repetition_penalty := yp_repetition_penalty y,
        sc_repetition_penalty_window := yp_repetition_penalty_window y, sc_seed := yp_seed y,
        sc_mirostat := yp_mirostat_mode y, sc_mirostat_tau := yp_mirostat_tau y,
        sc_mirostat_eta := yp_mirostat_eta y, sc_grammar := None, sc_token_vocab := None,
        sc_logit_bias := [], sc_banned_tokens := []\<rparr>"

definition reparse_grammar :: "grammar_payload option \<Rightarrow> sampler_config \<Rightarrow> 'e session_error + sampler_config" where
  "reparse_grammar gs c =
     (case gs of
        None \<Rightarrow> Inr c
      | Some gs \<Rightarrow>
          (case gbnf_parse (yg_grammar_source gs) of
             None \<Rightarrow> Inl SnapshotPanic
           | Some (Inl e) \<Rightarrow> Inl (GrammarFailed e)
           | Some (Inr g) \<Rightarrow> Inr (c\<lparr>sc_grammar := Some g\<rparr>)))"

definition resumed_config :: "engine_snapshot \<Rightarrow> string \<Rightarrow> sampler_config \<Rightarrow> engine_config" where
  "resumed_config snap model_path sampler =
     \<lparr>ec_model_path = model_path, ec_tokenizer_path = es_tokenizer_path snap,
      ec_context_size = Some (es_max_context_length snap), ec_num_threads = es_num_threads snap,
      ec_sampler = sampler, ec_prefill_chunk_size = es_prefill_chunk_size snap, ec_kv_dtype = DtF32\<rparr>"

definition restore_sequence ::
  "f16_conv \<Rightarrow> sequence_payload \<Rightarrow> ('re, 'h, 'f) session \<Rightarrow> 'e session_error + ('re, 'h, 'f) session" where
  "restore_sequence fc state s =
     (case state of
        AttentionPayload payload \<Rightarrow>
          and_then (ok_or (en_kv (ss_engine s)) (Runtime ModelNotLoaded)) (\<lambda>kv.
          and_then (map_err (Runtime \<circ> KvFailed) (kv_restore_from_payload fc payload kv)) (\<lambda>kv.
            Inr (s\<lparr>ss_engine := (ss_engine s)\<lparr>en_kv := Some kv\<rparr>\<rparr>)))
      | _ \<Rightarrow> Inr s)"

definition session_resume ::
  "snapshot_deps \<Rightarrow> ('re, 'h, 'f, 'e) load_deps \<Rightarrow> u8 list \<Rightarrow> string \<Rightarrow> 'e session_error + ('re, 'h, 'f) session" where
  "session_resume sd deps bytes model_path =
     and_then (engine_deserialize (sd_codec sd) bytes) (\<lambda>snap.
     and_then (fingerprint_verify (sd_hash sd) (ld_disk deps) (es_model_fingerprint snap) model_path) (\<lambda>_.
     and_then (reparse_grammar (es_grammar_state snap) (resumed_sampler (es_sampler_state snap))) (\<lambda>sampler.
       case load_model deps (session_new (resumed_config snap model_path sampler)) of
         (Inl e, s) \<Rightarrow> Inl e
       | (Inr _, s) \<Rightarrow> restore_sequence (sd_f16 sd) (es_sequence_state snap) s)))"

section \<open>The snapshot of a speculative session\<close>

record spec_snapshot =
  sn_target :: engine_snapshot
  sn_draft :: engine_snapshot
  sn_num_speculative :: nat
  sn_seed :: "u64 option"
  sn_accepted :: "u32 list"
  sn_rng_state :: u64

definition SPEC_SNAPSHOT_MAGIC :: "u8 list" where
  "SPEC_SNAPSHOT_MAGIC = str_bytes ''OXISPEC1''"

definition SPEC_SNAPSHOT_VERSION :: u32 where
  "SPEC_SNAPSHOT_VERSION = 1"

abbreviation le_u32 :: "u32 \<Rightarrow> u8 list" where "le_u32 \<equiv> to_le_bytes 4"

abbreviation le_u64 :: "u64 \<Rightarrow> u8 list" where "le_u64 \<equiv> to_le_bytes 8"

definition encode_seed :: "u64 option \<Rightarrow> u8 list" where
  "encode_seed seed = (case seed of None \<Rightarrow> [0] | Some seed \<Rightarrow> 1 # le_u64 seed)"

text \<open>The bytes around the two encoded engines.\<close>

definition spec_envelope :: "u8 list \<Rightarrow> u8 list \<Rightarrow> spec_snapshot \<Rightarrow> u8 list" where
  "spec_envelope target_bytes draft_bytes s =
     SPEC_SNAPSHOT_MAGIC @ le_u32 SPEC_SNAPSHOT_VERSION @
     le_u64 (of_nat (length target_bytes)) @ target_bytes @
     le_u64 (of_nat (length draft_bytes)) @ draft_bytes @
     le_u64 (of_nat (sn_num_speculative s)) @ encode_seed (sn_seed s) @
     le_u64 (of_nat (length (sn_accepted s))) @ concat (map le_u32 (sn_accepted s)) @
     le_u64 (sn_rng_state s)"

definition spec_encode :: "snapshot_codec \<Rightarrow> spec_snapshot \<Rightarrow> 'e session_error + u8 list" where
  "spec_encode cd s =
     and_then (engine_serialize cd (sn_target s)) (\<lambda>target_bytes.
     and_then (engine_serialize cd (sn_draft s)) (\<lambda>draft_bytes.
       Inr (spec_envelope target_bytes draft_bytes s)))"

text \<open>A decoder reads from a position and returns the next. An end that overflows \<open>usize\<close> panics: in the
  addition, or where overflow wraps, in the slice whose end then lies before its start.\<close>

type_synonym ('e, 'a) decoder = "u8 list \<Rightarrow> nat \<Rightarrow> 'e session_error + 'a \<times> nat"

definition dec_bind :: "('e, 'a) decoder \<Rightarrow> ('a \<Rightarrow> ('e, 'b) decoder) \<Rightarrow> ('e, 'b) decoder" where
  "dec_bind m f = (\<lambda>bytes pos. case m bytes pos of Inl e \<Rightarrow> Inl e | Inr (a, pos) \<Rightarrow> f a bytes pos)"

definition dec_of :: "'e session_error + 'a \<Rightarrow> ('e, 'a) decoder" where
  "dec_of r = (\<lambda>bytes pos. case r of Inl e \<Rightarrow> Inl e | Inr a \<Rightarrow> Inr (a, pos))"

definition read_exact :: "nat \<Rightarrow> ('e, u8 list) decoder" where
  "read_exact n = (\<lambda>bytes pos.
     if 2 ^ 64 \<le> pos + n then Inl SnapshotPanic
     else if length bytes < pos + n then Inl (SpecIncompatible (Truncated n pos))
     else Inr (take n (drop pos bytes), pos + n))"

definition read_u32_le :: "('e, u32) decoder" where
  "read_u32_le = dec_bind (read_exact 4) (\<lambda>bs. dec_of (Inr (from_le_bytes bs)))"

definition read_u64_le :: "('e, u64) decoder" where
  "read_u64_le = dec_bind (read_exact 8) (\<lambda>bs. dec_of (Inr (from_le_bytes bs)))"

definition read_embedded :: "snapshot_codec \<Rightarrow> spec_reason \<Rightarrow> ('e, engine_snapshot) decoder" where
  "read_embedded cd corrupt =
     dec_bind read_u64_le (\<lambda>len. dec_bind (read_exact (unat len)) (\<lambda>raw.
       dec_of (map_err (\<lambda>e :: unit session_error. SpecIncompatible corrupt) (engine_deserialize cd raw))))"

definition read_seed :: "('e, u64 option) decoder" where
  "read_seed =
     dec_bind (read_exact 1) (\<lambda>has_seed.
       if hd has_seed = 1 then dec_bind read_u64_le (\<lambda>seed. dec_of (Inr (Some seed))) else dec_of (Inr None))"

fun read_tokens :: "nat \<Rightarrow> ('e, u32 list) decoder" where
  "read_tokens 0 = dec_of (Inr [])"
| "read_tokens (Suc n) =
     dec_bind read_u32_le (\<lambda>tok. dec_bind (read_tokens n) (\<lambda>toks. dec_of (Inr (tok # toks))))"

text \<open>\<open>Vec::with_capacity\<close> panics when the capacity in bytes exceeds \<open>isize::MAX\<close>; that memory may
  run out below this limit is not modelled.\<close>

definition read_accepted :: "('e, u32 list) decoder" where
  "read_accepted =
     dec_bind read_u64_le (\<lambda>accepted_len.
       if unat accepted_len * 4 > isize_max then dec_of (Inl SnapshotPanic) else read_tokens (unat accepted_len))"

definition read_header :: "('e, unit) decoder" where
  "read_header =
     dec_bind (read_exact 8) (\<lambda>magic.
       if magic \<noteq> SPEC_SNAPSHOT_MAGIC then dec_of (Inl (SpecIncompatible (BadMagic magic)))
       else dec_bind read_u32_le (\<lambda>version.
         if version \<noteq> SPEC_SNAPSHOT_VERSION then dec_of (Inl (SpecIncompatible (BadVersion version)))
         else dec_of (Inr ())))"

definition spec_decoder :: "snapshot_codec \<Rightarrow> ('e, spec_snapshot) decoder" where
  "spec_decoder cd =
     dec_bind read_header (\<lambda>_.
     dec_bind (read_embedded cd TargetCorrupt) (\<lambda>target.
     dec_bind (read_embedded cd DraftCorrupt) (\<lambda>draft.
     dec_bind read_u64_le (\<lambda>num_speculative.
     dec_bind read_seed (\<lambda>seed.
     dec_bind read_accepted (\<lambda>accepted.
     dec_bind read_u64_le (\<lambda>rng_state.
       dec_of (Inr \<lparr>sn_target = target, sn_draft = draft, sn_num_speculative = unat num_speculative,
                    sn_seed = seed, sn_accepted = accepted, sn_rng_state = rng_state\<rparr>))))))))"

definition spec_decode :: "snapshot_codec \<Rightarrow> u8 list \<Rightarrow> 'e session_error + spec_snapshot" where
  "spec_decode cd bytes = (case spec_decoder cd bytes 0 of Inl e \<Rightarrow> Inl e | Inr (s, pos) \<Rightarrow> Inr s)"

definition spec_fingerprint :: "(u8 list \<Rightarrow> u8 list) \<Rightarrow> snapshot_codec \<Rightarrow> spec_snapshot \<Rightarrow> 'e session_error + u8 list" where
  "spec_fingerprint hash cd s = and_then (spec_encode cd s) (\<lambda>encoded. Inr (hash encoded))"

section \<open>Snapshot and resume of a speculative engine\<close>

record ('re, 'h, 'f) spec_session =
  pv_draft :: "('re, 'h, 'f) session"
  pv_target :: "('re, 'h, 'f) session"
  pv_num_speculative :: nat
  pv_rng :: xorshift64

definition spec_session_snapshot ::
  "snapshot_deps \<Rightarrow> (string \<Rightarrow> (string + disk_file) option) \<Rightarrow> ('re, 'h, 'f) spec_session \<Rightarrow> 'e session_error + u8 list" where
  "spec_session_snapshot sd disk se =
     and_then (session_snapshot sd disk (pv_target se)) (\<lambda>target_bytes.
     and_then (map_err (\<lambda>e :: unit session_error. SpecIncompatible TargetCorrupt)
         (engine_deserialize (sd_codec sd) target_bytes)) (\<lambda>target.
     and_then (session_snapshot sd disk (pv_draft se)) (\<lambda>draft_bytes.
     and_then (map_err (\<lambda>e :: unit session_error. SpecIncompatible DraftCorrupt)
         (engine_deserialize (sd_codec sd) draft_bytes)) (\<lambda>draft.
       spec_encode (sd_codec sd)
         \<lparr>sn_target = target, sn_draft = draft, sn_num_speculative = pv_num_speculative se, sn_seed = None,
          sn_accepted = [], sn_rng_state = xs_state (pv_rng se)\<rparr>))))"

definition spec_session_resume ::
  "snapshot_deps \<Rightarrow> ('re, 'h, 'f, 'e) load_deps \<Rightarrow> u8 list \<Rightarrow> string \<Rightarrow> string \<Rightarrow>
     'e session_error + ('re, 'h, 'f) spec_session" where
  "spec_session_resume sd deps bytes target_path draft_path =
     and_then (spec_decode (sd_codec sd) bytes) (\<lambda>snap.
     and_then (map_err (\<lambda>e :: unit session_error. SpecIncompatible TargetCorrupt)
         (engine_serialize (sd_codec sd) (sn_target snap))) (\<lambda>target_bytes.
     and_then (map_err (\<lambda>e :: unit session_error. SpecIncompatible DraftCorrupt)
         (engine_serialize (sd_codec sd) (sn_draft snap))) (\<lambda>draft_bytes.
     and_then (session_resume sd deps target_bytes target_path) (\<lambda>target.
     and_then (session_resume sd deps draft_bytes draft_path) (\<lambda>draft.
       Inr \<lparr>pv_draft = draft, pv_target = target, pv_num_speculative = sn_num_speculative snap,
            pv_rng = xorshift_new (sn_rng_state snap)\<rparr>)))))"

end
