(* ===== verification/Snp_Safety.thy ===== *)
theory Snp_Safety
  imports Snp_Snapshot
begin

text \<open>
  What the byte format and the snapshots guarantee: the decoder inverts the encoder, it answers the same
  on longer input unless it met the end, and a resumed session stands where the saved one stood.
\<close>

section \<open>Decoders that invert an encoder\<close>

text \<open>Wherever the bytes \<open>xs\<close> stand in the input, \<open>m\<close> reads them as \<open>a\<close>.\<close>

definition decodes :: "('e, 'a) decoder \<Rightarrow> u8 list \<Rightarrow> 'a \<Rightarrow> bool" where
  "decodes m xs a \<longleftrightarrow> (\<forall>pre post. length pre + length xs < 2 ^ 64 \<longrightarrow>
     m (pre @ xs @ post) (length pre) = Inr (a, length pre + length xs))"

lemma decodes_bind:
  assumes "decodes m xs a" and "decodes (f a) ys b"
  shows "decodes (dec_bind m f) (xs @ ys) b"
  unfolding decodes_def
proof (intro allI impI)
  fix pre post :: "u8 list" assume n: "length pre + length (xs @ ys) < 2 ^ 64"
  have "m (pre @ xs @ (ys @ post)) (length pre) = Inr (a, length pre + length xs)"
    using assms(1) n unfolding decodes_def by simp
  moreover have "f a ((pre @ xs) @ ys @ post) (length (pre @ xs)) = Inr (b, length (pre @ xs) + length ys)"
    using assms(2)[unfolded decodes_def, rule_format, of "pre @ xs" post] n by simp
  ultimately show "dec_bind m f (pre @ (xs @ ys) @ post) (length pre) = Inr (b, length pre + length (xs @ ys))"
    by (simp add: dec_bind_def)
qed

lemma decodes_bind_pure: "decodes m xs a \<Longrightarrow> decodes (f a) [] b \<Longrightarrow> decodes (dec_bind m f) xs b"
  using decodes_bind[of m xs a f "[]" b] by simp

lemma decodes_pure [simp]: "decodes (dec_of (Inr a)) [] a"
  by (simp add: decodes_def dec_of_def)

lemma decodes_exact: "length xs = n \<Longrightarrow> decodes (read_exact n) xs xs"
  by (auto simp: decodes_def read_exact_def)

lemma decodes_u32: "decodes read_u32_le (le_u32 w) w"
  unfolding read_u32_le_def
  by (rule decodes_bind_pure[OF decodes_exact]) (simp_all add: from_to_le_bytes)

lemma decodes_u64: "decodes read_u64_le (le_u64 w) w"
  unfolding read_u64_le_def
  by (rule decodes_bind_pure[OF decodes_exact]) (simp_all add: from_to_le_bytes)

lemma decodes_tokens: "decodes (read_tokens (length ts)) (concat (map le_u32 ts)) ts"
proof (induction ts)
  case (Cons t ts)
  show ?case by (simp, rule decodes_bind[OF decodes_u32], rule decodes_bind_pure[OF Cons.IH]) simp
qed simp

lemma decodes_seed: "decodes read_seed (encode_seed seed) seed"
proof (cases seed)
  case None
  show ?thesis unfolding read_seed_def encode_seed_def None option.case
    by (rule decodes_bind_pure[OF decodes_exact]) simp_all
next
  case (Some w)
  have split: "encode_seed (Some w) = [1] @ le_u64 w" by (simp add: encode_seed_def)
  show ?thesis unfolding Some split read_seed_def
    by (rule decodes_bind[OF decodes_exact]) (simp_all add: decodes_bind_pure[OF decodes_u64])
qed

lemma unat_len64: "n < 2 ^ 64 \<Longrightarrow> unat (of_nat n :: u64) = n"
  by (simp add: unat_of_nat_small)

lemma decodes_accepted:
  assumes "length ts * 4 \<le> isize_max"
  shows "decodes read_accepted (le_u64 (of_nat (length ts)) @ concat (map le_u32 ts)) ts"
proof -
  have n: "unat (of_nat (length ts) :: u64) = length ts" using assms by (intro unat_len64) simp
  show ?thesis unfolding read_accepted_def
    by (rule decodes_bind[OF decodes_u64]) (use assms n decodes_tokens in \<open>simp del: of_nat_mult\<close>)
qed

lemma decodes_header: "decodes read_header (SPEC_SNAPSHOT_MAGIC @ le_u32 SPEC_SNAPSHOT_VERSION) ()"
proof -
  have "decodes (read_exact 8) SPEC_SNAPSHOT_MAGIC SPEC_SNAPSHOT_MAGIC"
    by (rule decodes_exact) (simp add: SPEC_SNAPSHOT_MAGIC_def)
  then show ?thesis unfolding read_header_def
    by (rule decodes_bind) (simp add: decodes_bind_pure[OF decodes_u32])
qed

text \<open>What the codec promises, and the snapshots that \<open>snapshot\<close> writes.\<close>

definition codec_ok :: "snapshot_codec \<Rightarrow> bool" where
  "codec_ok cd \<longleftrightarrow> (\<forall>x bytes. cd_encode cd x = Inr bytes \<longrightarrow> cd_decode cd bytes = Inr x)"

definition current_format :: "engine_snapshot \<Rightarrow> bool" where
  "current_format snap \<longleftrightarrow> es_magic snap = SNAPSHOT_MAGIC \<and> es_version snap = SNAPSHOT_VERSION"

lemma deserialize_serialize:
  assumes "codec_ok cd" and "current_format snap"
    and "engine_serialize cd snap = (Inr bytes :: 'e session_error + _)"
  shows "engine_deserialize cd bytes = (Inr snap :: 'd session_error + _)"
proof -
  have "cd_encode cd snap = Inr bytes" using assms(3) by (simp add: engine_serialize_def map_err_Inr)
  then have "cd_decode cd bytes = Inr snap" using assms(1) by (simp add: codec_ok_def)
  then show ?thesis using assms(2) by (simp add: engine_deserialize_def current_format_def)
qed

lemma decodes_embedded:
  assumes "codec_ok cd" and "current_format snap" and "length bytes < 2 ^ 64"
    and "engine_serialize cd snap = (Inr bytes :: 'e session_error + _)"
  shows "decodes (read_embedded cd corrupt) (le_u64 (of_nat (length bytes)) @ bytes) snap"
  unfolding read_embedded_def
proof (rule decodes_bind[OF decodes_u64])
  have "decodes (read_exact (length bytes)) bytes bytes" by (rule decodes_exact) simp
  then show "decodes (dec_bind (read_exact (unat (of_nat (length bytes) :: u64))) (\<lambda>raw.
      dec_of (map_err (\<lambda>e :: unit session_error. SpecIncompatible corrupt) (engine_deserialize cd raw)))) bytes snap"
    unfolding unat_len64[OF assms(3)]
    by (rule decodes_bind_pure) (simp add: deserialize_serialize[OF assms(1,2,4)])
qed

section \<open>Decoders and the end of the input\<close>

definition stable :: "('e, 'a) decoder \<Rightarrow> bool" where
  "stable m \<longleftrightarrow> (\<forall>bytes pos post. (\<exists>n p. m bytes pos = Inl (SpecIncompatible (Truncated n p))) \<or>
     m (bytes @ post) pos = m bytes pos \<and> (\<forall>a p. m bytes pos = Inr (a, p) \<longrightarrow> pos \<le> length bytes \<longrightarrow> p \<le> length bytes))"

named_theorems stable_intros

lemma stable_bind [stable_intros]:
  assumes "stable m" and "\<And>a. stable (f a)"
  shows "stable (dec_bind m f)"
  unfolding stable_def
proof (intro allI)
  fix bytes post :: "u8 list" and pos :: nat
  have m: "(\<exists>n p. m bytes pos = Inl (SpecIncompatible (Truncated n p))) \<or>
     m (bytes @ post) pos = m bytes pos \<and> (\<forall>a p. m bytes pos = Inr (a, p) \<longrightarrow> pos \<le> length bytes \<longrightarrow> p \<le> length bytes)"
    using assms(1) unfolding stable_def by blast
  have f: "(\<exists>n p. f a bytes q = Inl (SpecIncompatible (Truncated n p))) \<or>
     f a (bytes @ post) q = f a bytes q \<and> (\<forall>b p. f a bytes q = Inr (b, p) \<longrightarrow> q \<le> length bytes \<longrightarrow> p \<le> length bytes)" for a q
    using assms(2) unfolding stable_def by blast
  show "(\<exists>n p. dec_bind m f bytes pos = Inl (SpecIncompatible (Truncated n p))) \<or>
     dec_bind m f (bytes @ post) pos = dec_bind m f bytes pos \<and>
     (\<forall>a p. dec_bind m f bytes pos = Inr (a, p) \<longrightarrow> pos \<le> length bytes \<longrightarrow> p \<le> length bytes)"
  proof (cases "m bytes pos")
    case (Inr ap)
    then show ?thesis using m f[of "fst ap" "snd ap"] by (cases ap) (auto simp: dec_bind_def)
  qed (use m in \<open>auto simp: dec_bind_def\<close>)
qed

lemma stable_of [stable_intros]: "stable (dec_of r)"
  by (auto simp: stable_def dec_of_def split: sum.splits)

lemma stable_exact [stable_intros]: "stable (read_exact n)"
  by (auto simp: stable_def read_exact_def)

lemma stable_if [stable_intros]: "stable m \<Longrightarrow> stable m' \<Longrightarrow> stable (if b then m else m')"
  by simp

lemma stable_words [stable_intros]: "stable read_u32_le" "stable read_u64_le"
  unfolding read_u32_le_def read_u64_le_def by (intro stable_intros)+

lemma stable_tokens [stable_intros]: "stable (read_tokens n)"
  by (induction n) (auto intro!: stable_intros)

lemma stable_decoder: "stable (spec_decoder cd)"
  unfolding spec_decoder_def read_header_def read_embedded_def read_seed_def read_accepted_def
  by (intro stable_intros)

section \<open>The byte format\<close>

text \<open>An encoding fits the address space, as every vector does.\<close>

definition spec_encodable :: "snapshot_codec \<Rightarrow> spec_snapshot \<Rightarrow> u8 list \<Rightarrow> bool" where
  "spec_encodable cd s bytes \<longleftrightarrow>
     codec_ok cd \<and> current_format (sn_target s) \<and> current_format (sn_draft s) \<and> sn_num_speculative s < 2 ^ 64 \<and>
     spec_encode cd s = (Inr bytes :: unit session_error + _) \<and> length bytes \<le> isize_max"

lemma spec_decodes:
  assumes "spec_encodable cd s bytes"
  shows "decodes (spec_decoder cd :: ('a, spec_snapshot) decoder) bytes s"
proof -
  note a = assms[unfolded spec_encodable_def]
  obtain t d where t: "engine_serialize cd (sn_target s) = (Inr t :: unit session_error + _)"
    and d: "engine_serialize cd (sn_draft s) = (Inr d :: unit session_error + _)"
    and bytes: "bytes = spec_envelope t d s"
    using a by (auto simp: spec_encode_def elim!: and_then_InrE)
  have n: "length t < 2 ^ 64" "length d < 2 ^ 64" "length (sn_accepted s) * 4 \<le> isize_max"
  proof -
    have "length (concat (map le_u32 ts)) = length ts * 4" for ts by (induction ts) simp_all
    then show "length t < 2 ^ 64" "length d < 2 ^ 64" "length (sn_accepted s) * 4 \<le> isize_max"
      using a by (simp_all add: bytes spec_envelope_def)
  qed
  have k: "unat (of_nat (sn_num_speculative s) :: u64) = sn_num_speculative s" using a by (simp add: unat_len64)
  have eta: "\<lparr>sn_target = sn_target s, sn_draft = sn_draft s, sn_num_speculative = sn_num_speculative s,
      sn_seed = sn_seed s, sn_accepted = sn_accepted s, sn_rng_state = sn_rng_state s\<rparr> = s" by simp
  have "decodes (spec_decoder cd :: ('a, spec_snapshot) decoder) ((SPEC_SNAPSHOT_MAGIC @ le_u32 SPEC_SNAPSHOT_VERSION) @
      (le_u64 (of_nat (length t)) @ t) @ (le_u64 (of_nat (length d)) @ d) @
      le_u64 (of_nat (sn_num_speculative s)) @ encode_seed (sn_seed s) @
      (le_u64 (of_nat (length (sn_accepted s))) @ concat (map le_u32 (sn_accepted s))) @
      le_u64 (sn_rng_state s) @ []) s"
    unfolding spec_decoder_def
    by (intro decodes_bind[OF decodes_header] decodes_bind[OF decodes_embedded[OF _ _ n(1) t]]
        decodes_bind[OF decodes_embedded[OF _ _ n(2) d]] decodes_bind[OF decodes_u64] decodes_bind[OF decodes_seed]
        decodes_bind[OF decodes_accepted[OF n(3)]]) (use a in \<open>simp_all add: k eta\<close>)
  then show ?thesis by (simp add: bytes spec_envelope_def)
qed

lemma spec_decoder_whole:
  assumes "spec_encodable cd s bytes"
  shows "spec_decoder cd bytes 0 = (Inr (s, length bytes) :: 'a session_error + _)"
proof -
  have "length bytes < 2 ^ 64" using assms by (simp add: spec_encodable_def)
  then show ?thesis using spec_decodes[OF assms, unfolded decodes_def, rule_format, of "[]" "[]"] by simp
qed

lemma spec_decode_encode:
  assumes "spec_encodable cd s bytes"
  shows "spec_decode cd bytes = (Inr s :: 'a session_error + _)"
  by (simp add: spec_decode_def spec_decoder_whole[OF assms])

lemma spec_decode_prefix:
  assumes "spec_encodable cd s bytes" and "n < length bytes"
  shows "\<exists>k p. spec_decode cd (take n bytes) = (Inl (SpecIncompatible (Truncated k p)) :: 'a session_error + _)"
proof -
  let ?dec = "spec_decoder cd :: ('a, spec_snapshot) decoder"
  have full: "?dec (take n bytes @ drop n bytes) 0 = Inr (s, length bytes)"
    using spec_decoder_whole[OF assms(1)] by simp
  have "(\<exists>k p. ?dec (take n bytes) 0 = Inl (SpecIncompatible (Truncated k p))) \<or>
     ?dec (take n bytes @ drop n bytes) 0 = ?dec (take n bytes) 0 \<and>
     (\<forall>a p. ?dec (take n bytes) 0 = Inr (a, p) \<longrightarrow> 0 \<le> length (take n bytes) \<longrightarrow> p \<le> length (take n bytes))"
    using stable_decoder[of cd] unfolding stable_def by blast
  then show ?thesis
  proof
    assume "?dec (take n bytes @ drop n bytes) 0 = ?dec (take n bytes) 0 \<and>
      (\<forall>a p. ?dec (take n bytes) 0 = Inr (a, p) \<longrightarrow> 0 \<le> length (take n bytes) \<longrightarrow> p \<le> length (take n bytes))"
    then have "length bytes \<le> length (take n bytes)" using full by (metis le0)
    then show ?thesis using assms(2) by simp
  qed (auto simp: spec_decode_def)
qed

end
