(* ===== verification/Snp_Resume.thy ===== *)
theory Snp_Resume
  imports Snp_Safety
begin

text \<open>
  A session that was loaded, has run, was saved and is resumed on the same disk: where it stands then,
  and what the fingerprint of the model file detects.
\<close>

section \<open>The fingerprint\<close>

lemma probe_size_of_compute:
  "compute_with_probe hash disk path probe = Inr fp \<Longrightarrow> mf_probe_size fp = probe"
  by (auto simp: compute_with_probe_def Let_def split: option.splits sum.splits)

lemma verify_unchanged:
  assumes "fingerprint_compute hash disk path = (Inr fp :: 'd session_error + _)"
  shows "fingerprint_verify hash disk fp path = (Inr () :: 'e session_error + _)"
proof -
  have "mf_probe_size fp = DEFAULT_PROBE_SIZE"
    using probe_size_of_compute assms unfolding fingerprint_compute_def by blast
  moreover have "compute_with_probe hash disk path DEFAULT_PROBE_SIZE = (Inr fp :: 'e session_error + _)"
    using assms unfolding fingerprint_compute_def compute_with_probe_def
    by (auto simp: Let_def split: option.splits sum.splits)
  ultimately show ?thesis by (simp add: fingerprint_verify_def)
qed

text \<open>What a probe reads of a file.\<close>

definition head_of :: "u32 \<Rightarrow> u8 list \<Rightarrow> u8 list" where
  "head_of probe bytes = take (unat probe) bytes"

definition tail_of :: "u32 \<Rightarrow> u8 list \<Rightarrow> u8 list" where
  "tail_of probe bytes = drop (length bytes - unat probe) bytes"

definition mtime_of :: "disk_file \<Rightarrow> i64" where
  "mtime_of df = (case df_mtime df of None \<Rightarrow> 0 | Some secs \<Rightarrow> of_nat secs)"

lemma compute_with_probe_eq:
  assumes "disk path = Some (Inr df)"
  shows "compute_with_probe hash disk path probe =
    Inr \<lparr>mf_file_size = of_nat (length (df_bytes df)), mf_mtime_secs = mtime_of df,
         mf_head_hash = hash (head_of probe (df_bytes df)), mf_tail_hash = hash (tail_of probe (df_bytes df)),
         mf_probe_size = probe\<rparr>"
proof -
  have "take (min (unat probe) (length bs)) bs = head_of probe bs" for bs :: "u8 list"
    by (cases "unat probe \<le> length bs") (simp_all add: head_of_def)
  then show ?thesis using assms by (simp add: compute_with_probe_def Let_def mtime_of_def tail_of_def)
qed

lemma verify_exactly:
  assumes "disk path = Some (Inr df)" and "disk' path' = Some (Inr df')"
    and "compute_with_probe hash disk path probe = (Inr fp :: 'd session_error + _)"
    and "length (df_bytes df) < 2 ^ 64" and "length (df_bytes df') < 2 ^ 64"
    and "\<And>x y. x \<in> {head_of probe (df_bytes df), tail_of probe (df_bytes df)} \<Longrightarrow> hash x = hash y \<Longrightarrow> x = y"
  shows "fingerprint_verify hash disk' fp path' = (Inr () :: 'e session_error + _) \<longleftrightarrow>
    length (df_bytes df') = length (df_bytes df) \<and> mtime_of df' = mtime_of df \<and>
    head_of probe (df_bytes df') = head_of probe (df_bytes df) \<and>
    tail_of probe (df_bytes df') = tail_of probe (df_bytes df)"
proof -
  have fp: "fp = \<lparr>mf_file_size = of_nat (length (df_bytes df)), mf_mtime_secs = mtime_of df,
      mf_head_hash = hash (head_of probe (df_bytes df)), mf_tail_hash = hash (tail_of probe (df_bytes df)),
      mf_probe_size = probe\<rparr>"
    using assms(3) by (simp add: compute_with_probe_eq[where disk = disk and path = path, OF assms(1)])
  have size: "(of_nat (length (df_bytes df')) :: u64) = of_nat (length (df_bytes df)) \<longleftrightarrow>
      length (df_bytes df') = length (df_bytes df)"
    using unat_len64[OF assms(4)] unat_len64[OF assms(5)] by metis
  have "hash (head_of probe (df_bytes df')) = hash (head_of probe (df_bytes df)) \<longleftrightarrow>
      head_of probe (df_bytes df') = head_of probe (df_bytes df)"
    and "hash (tail_of probe (df_bytes df')) = hash (tail_of probe (df_bytes df)) \<longleftrightarrow>
      tail_of probe (df_bytes df') = tail_of probe (df_bytes df)"
    using assms(6) by (metis insert_iff)+
  then show ?thesis by (auto simp: fingerprint_verify_def compute_with_probe_eq[where disk = disk' and path = path', OF assms(2)] fp size)
qed

section \<open>Sessions\<close>

text \<open>A session loaded with a configuration that has run since: its cache keeps the shape it was given
  and has rows behind every position.\<close>

definition has_run ::
  "('re, 'h, 'f, 'e) load_deps \<Rightarrow> engine_config \<Rightarrow> ('re, 'h, 'f) session \<Rightarrow> kv_cache \<Rightarrow> bool" where
  "has_run deps cfg s kv \<longleftrightarrow>
     (\<exists>s1 kv1. load_model deps (session_new cfg) = (Inr (), s1) \<and> en_kv (ss_engine s1) = Some kv1 \<and>
        ss_config s = cfg \<and> ss_gguf s = ss_gguf s1 \<and> ss_model_config s = ss_model_config s1 \<and>
        en_tokenizer (ss_engine s) = en_tokenizer (ss_engine s1) \<and>
        en_eos_token_id (ss_engine s) = en_eos_token_id (ss_engine s1) \<and>
        en_kv (ss_engine s) = Some kv \<and> kc_num_layers kv = kc_num_layers kv1 \<and>
        kc_max_seq_len kv = kc_max_seq_len kv1 \<and> kc_kv_dim kv = kc_kv_dim kv1) \<and>
     kv_inv kv \<and> kv_settled kv \<and> kc_seq_len kv \<le> kc_capacity_tokens kv \<and>
     (\<forall>g. sc_grammar (ec_sampler cfg) = Some g \<longrightarrow> gbnf_parse (gr_source g) = Some (Inr g))"

text \<open>The same model, tokenizer and sampling parameters, and the same rows in the cache.\<close>

definition stands_at :: "f16_conv \<Rightarrow> ('re, 'h, 'f) session \<Rightarrow> kv_cache \<Rightarrow> ('re, 'h, 'f) session \<Rightarrow> bool" where
  "stands_at fc s kv s' \<longleftrightarrow>
     session_ok s' \<and> ss_gguf s' = ss_gguf s \<and> ss_model_config s' = ss_model_config s \<and>
     en_tokenizer (ss_engine s') = en_tokenizer (ss_engine s) \<and>
     en_eos_token_id (ss_engine s') = en_eos_token_id (ss_engine s) \<and>
     sc_temperature (ec_sampler (ss_config s')) = sc_temperature (ec_sampler (ss_config s)) \<and>
     sc_grammar (ec_sampler (ss_config s')) = sc_grammar (ec_sampler (ss_config s)) \<and>
     (\<exists>kv'. en_kv (ss_engine s') = Some kv' \<and> kc_seq_len kv' = kc_seq_len kv \<and> kv_settled kv' \<and>
        (\<forall>layer < kc_num_layers kv. kv_copy_keys_into fc kv' layer = kv_copy_keys_into fc kv layer \<and>
           kv_copy_values_into fc kv' layer = kv_copy_values_into fc kv layer))"

lemma copy_prefix_length:
  assumes "kv_inv kv" and "is_side sel" and "l < kc_num_layers kv" and "n \<le> kc_capacity_tokens kv"
  shows "length (buf_copy_f32_prefix fc (n * kc_kv_dim kv) (sel kv ! l)) = n * kc_kv_dim kv"
proof -
  have "n * kc_kv_dim kv \<le> buf_len (sel kv ! l)"
    using side_buf(3)[OF assms(1-3)] assms(4) by simp
  then show ?thesis by (simp add: buf_copy_eq)
qed

text \<open>The payload of a cache, restored into an empty \<open>f32\<close> cache of the same shape.\<close>

lemma restore_payload:
  assumes kv: "kv_inv kv" "kv_settled kv" "kc_seq_len kv \<le> kc_capacity_tokens kv"
  shows "\<exists>kv'. kv_restore_from_payload fc (kv_to_payload fc kv)
        (kv_with_dtype (kc_num_layers kv) (kc_max_seq_len kv) (kc_kv_dim kv) DtF32) = Inr kv' \<and>
     kv_inv kv' \<and> kc_seq_len kv' = kc_seq_len kv \<and> kv_settled kv' \<and> kc_num_layers kv' = kc_num_layers kv \<and>
     kc_max_seq_len kv' = kc_max_seq_len kv \<and> kc_kv_dim kv' = kc_kv_dim kv \<and>
     (\<forall>layer < kc_num_layers kv. kv_copy_keys_into fc kv' layer = kv_copy_keys_into fc kv layer \<and>
           kv_copy_values_into fc kv' layer = kv_copy_values_into fc kv layer)"
proof -
  let ?n = "kc_seq_len kv" and ?d = "kc_kv_dim kv" and ?L = "kc_num_layers kv"
  let ?c = "kv_with_dtype ?L (kc_max_seq_len kv) ?d DtF32"
  let ?ks = "map (buf_copy_f32_prefix fc (?n * ?d)) (kc_keys kv)"
  let ?vs = "map (buf_copy_f32_prefix fc (?n * ?d)) (kc_values kv)"
  have len: "length (kc_keys kv) = ?L" "length (kc_values kv) = ?L"
    using kv(1) by (simp_all add: kv_inv_def bufs_ok_def)
  have shape: "kc_num_layers ?c = ?L" "kc_kv_dim ?c = ?d" "kc_max_seq_len ?c = kc_max_seq_len kv" "kc_dtype ?c = DtF32"
    by (simp_all add: kv_with_dtype_def)
  have "?n \<le> kc_max_seq_len ?c" using kv(1) by (simp add: shape kv_inv_def)
  moreover have "length ?ks = kc_num_layers ?c" "length ?vs = kc_num_layers ?c" by (simp_all add: shape len)
  moreover have "\<forall>l < kc_num_layers ?c. ?n * kc_kv_dim ?c \<le> length (?ks ! l)"
    "\<forall>l < kc_num_layers ?c. ?n * kc_kv_dim ?c \<le> length (?vs ! l)"
    using copy_prefix_length[OF kv(1) sides(1) _ kv(3)] copy_prefix_length[OF kv(1) sides(2) _ kv(3)]
    by (simp_all add: shape len)
  ultimately obtain kv' where kv': "kv_restore_from_snapshot fc ?ks ?vs ?n ?c = Inr kv'" "kv_inv kv'"
      "kc_seq_len kv' = ?n" "kc_stored_len kv' = ?n" "kc_num_layers kv' = ?L" "kc_kv_dim kv' = ?d"
    and rows: "\<forall>l < ?L. kv_copy_keys_into fc kv' l = Inr (map (enc_of fc DtF32) (take (?n * ?d) (?ks ! l))) \<and>
      kv_copy_values_into fc kv' l = Inr (map (enc_of fc DtF32) (take (?n * ?d) (?vs ! l)))"
    using kv_restore_holds[OF kv_with_dtype_inv, of ?n ?L "kc_max_seq_len kv" ?d DtF32 ?ks ?vs fc]
    unfolding shape by blast
  have "kc_max_seq_len kv' = kc_max_seq_len kv"
    using kv'(1) by (auto simp: kv_restore_from_snapshot_def Let_def kv_ensure_capacity_def shape
        elim!: and_then_InrE split: if_splits)
  moreover have "kv_restore_from_payload fc (kv_to_payload fc kv) ?c = Inr kv'"
    using kv'(1) by (simp add: kv_restore_from_payload_def kv_to_payload_def Let_def shape)
  moreover have "kv_copy_keys_into fc kv' l = kv_copy_keys_into fc kv l \<and>
      kv_copy_values_into fc kv' l = kv_copy_values_into fc kv l" if "l < ?L" for l
    using rows[rule_format, OF that] that kv(2) len copy_prefix_length[OF kv(1) sides(1) that kv(3)]
      copy_prefix_length[OF kv(1) sides(2) that kv(3)]
    by (simp add: kv_copy_keys_into_def kv_copy_values_into_def kv_copy_def kv_settled_def)
  ultimately show ?thesis using kv' by (auto simp: kv_settled_def)
qed

text \<open>The model loads again from the same file, with the context the first load settled on.\<close>

lemma resolve_again: "n \<noteq> 0 \<Longrightarrow> resolve_context_size (Some n) m = n"
  by (simp add: resolve_context_size_def)

lemma load_again:
  assumes "load_model deps (session_new cfg) = (Inr (), s1)" and "ss_model_config s1 = Some c"
    and "ec_model_path cfg' = ec_model_path cfg" and "ec_tokenizer_path cfg' = ec_tokenizer_path cfg"
    and "ec_context_size cfg' = Some (mc_max_context_length c)" and "ec_kv_dtype cfg' = DtF32"
  shows "\<exists>s2. load_model deps (session_new cfg') = (Inr (), s2) \<and> ss_config s2 = cfg' \<and> ss_gguf s2 = ss_gguf s1 \<and>
    ss_model_config s2 = ss_model_config s1 \<and> en_tokenizer (ss_engine s2) = en_tokenizer (ss_engine s1) \<and>
    en_eos_token_id (ss_engine s2) = en_eos_token_id (ss_engine s1) \<and>
    en_kv (ss_engine s2) = Some (kv_with_dtype (mc_num_layers c) (mc_max_context_length c)
      (mc_num_kv_heads c * mc_head_dim c) DtF32)"
proof -
  let ?tok = "load_tokenizer (ld_hf deps) (ld_open_hf deps) (ld_compile deps) (ec_tokenizer_path cfg)
      (ld_sidecar deps (ec_model_path cfg))"
  have cfg: "ss_config (session_new cfg) = cfg" "ss_config (session_new cfg') = cfg'" by (simp_all add: session_new_def)
  obtain df where df: "ld_disk deps (ec_model_path cfg) = Some (Inr df)"
    and load: "load_parsed deps ?tok (df_bytes df) (session_new cfg) = Inr s1"
    using load_model_parsed[OF assms(1)] unfolding cfg by blast
  obtain gguf c0 f tb where p: "gguf_parse (df_bytes df) = Inr gguf" "config_from_metadata (gf_metadata gguf) = Inr c0"
      "ld_build deps (df_bytes df) gguf (c0\<lparr>mc_max_context_length :=
         resolve_context_size (ec_context_size cfg) (mc_max_context_length c0)\<rparr>) = Inr f"
      "?tok (gf_metadata gguf) = Inr tb"
    and s1: "s1 = (session_new cfg)\<lparr>ss_gguf := Some gguf, ss_model_config := Some (c0\<lparr>mc_max_context_length :=
           resolve_context_size (ec_context_size cfg) (mc_max_context_length c0)\<rparr>),
         ss_engine := (ss_engine (session_new cfg))\<lparr>en_forward := Some f, en_kv := Some (kv_with_dtype (mc_num_layers c0)
             (resolve_context_size (ec_context_size cfg) (mc_max_context_length c0))
             (mc_num_kv_heads c0 * mc_head_dim c0) (ec_kv_dtype cfg)),
           en_tokenizer := Some tb, en_eos_token_id := spt_eos (tb_special tb)\<rparr>\<rparr>"
    using load by (rule load_parsed_parts) (unfold cfg, blast)
  have c: "c = c0\<lparr>mc_max_context_length := resolve_context_size (ec_context_size cfg) (mc_max_context_length c0)\<rparr>"
    using assms(2) by (simp add: s1)
  have n: "resolve_context_size (Some (mc_max_context_length c)) m = mc_max_context_length c" for m
    by (rule resolve_again) (use resolve_pos in \<open>auto simp: c\<close>)
  have c': "c0\<lparr>mc_max_context_length := mc_max_context_length c\<rparr> = c" by (simp add: c)
  have "ld_build deps (df_bytes df) gguf c = Inr f" using p(3) by (simp add: c)
  then show ?thesis using p(1,2,4) assms(3-6)
    by (simp add: load_model_def cfg df load_parsed_def Let_def n c' s1) (simp add: c)
qed

text \<open>What the snapshot of a session holds.\<close>

lemma snapshot_holds:
  assumes "codec_ok (sd_codec sd)" and "ss_model_config s = Some c" and "en_kv (ss_engine s) = Some kv"
    and "session_snapshot sd disk s = (Inr bytes :: 'd session_error + _)"
  obtains fp where "fingerprint_compute (sd_hash sd) disk (ec_model_path (ss_config s)) = (Inr fp :: 'd session_error + _)"
    and "engine_deserialize (sd_codec sd) bytes = (Inr (snapshot_value sd (ss_config s) c fp kv) :: 'e session_error + _)"
proof -
  obtain fp where fp: "fingerprint_compute (sd_hash sd) disk (ec_model_path (ss_config s)) = (Inr fp :: 'd session_error + _)"
    and "engine_serialize (sd_codec sd) (snapshot_value sd (ss_config s) c fp kv) = (Inr bytes :: 'd session_error + _)"
    using assms(2-4) by (auto simp: session_snapshot_def elim!: and_then_InrE)
  then have "engine_deserialize (sd_codec sd) bytes = (Inr (snapshot_value sd (ss_config s) c fp kv) :: 'e session_error + _)"
    by (intro deserialize_serialize[OF assms(1)]) (auto simp: current_format_def snapshot_value_def)
  with fp show thesis by (rule that)
qed

lemma reparse_ok:
  assumes "\<forall>g. sc_grammar c = Some g \<longrightarrow> gbnf_parse (gr_source g) = Some (Inr g)"
  shows "reparse_grammar (map_option (\<lambda>g. \<lparr>yg_grammar_source = gr_source g\<rparr>) (sc_grammar c))
      (resumed_sampler (sampler_payload_of fo c)) =
    Inr ((resumed_sampler (sampler_payload_of fo c))\<lparr>sc_grammar := sc_grammar c\<rparr>)"
  using assms by (cases "sc_grammar c") (simp_all add: reparse_grammar_def resumed_sampler_def)

lemma session_resumes:
  assumes codec: "codec_ok (sd_codec sd)" and run: "has_run deps cfg s kv"
    and snap: "session_snapshot sd (ld_disk deps) s = (Inr bytes :: 'd session_error + _)"
  shows "\<exists>s'. session_resume sd deps bytes (ec_model_path cfg) = Inr s' \<and> stands_at (sd_f16 sd) s kv s'"
proof -
  obtain s1 kv1 where s1: "load_model deps (session_new cfg) = (Inr (), s1)" "en_kv (ss_engine s1) = Some kv1"
      "ss_config s = cfg" "ss_gguf s = ss_gguf s1" "ss_model_config s = ss_model_config s1"
      "en_tokenizer (ss_engine s) = en_tokenizer (ss_engine s1)"
      "en_eos_token_id (ss_engine s) = en_eos_token_id (ss_engine s1)" "en_kv (ss_engine s) = Some kv"
      "kc_num_layers kv = kc_num_layers kv1" "kc_max_seq_len kv = kc_max_seq_len kv1" "kc_kv_dim kv = kc_kv_dim kv1"
    and kv: "kv_inv kv" "kv_settled kv" "kc_seq_len kv \<le> kc_capacity_tokens kv"
    and g: "\<forall>g. sc_grammar (ec_sampler cfg) = Some g \<longrightarrow> gbnf_parse (gr_source g) = Some (Inr g)"
    using run by (auto simp: has_run_def)
  obtain c where c: "ss_model_config s1 = Some c" "config_ok c" "0 < mc_max_context_length c"
      "kc_num_layers kv = mc_num_layers c" "kc_max_seq_len kv = mc_max_context_length c"
      "kc_kv_dim kv = mc_num_kv_heads c * mc_head_dim c"
    using load_model_ok(1)[OF s1(1)] s1(2,9-11) by (auto simp: session_ok_def)
  have "ss_model_config s = Some c" using s1(5) c(1) by simp
  then obtain fp where fp: "fingerprint_compute (sd_hash sd) (ld_disk deps) (ec_model_path cfg) = (Inr fp :: 'd session_error + _)"
    and decoded: "engine_deserialize (sd_codec sd) bytes = (Inr (snapshot_value sd cfg c fp kv) :: 'e session_error + _)"
    using snapshot_holds[OF codec _ s1(8) snap] unfolding s1(3) by blast
  let ?sampler = "(resumed_sampler (sampler_payload_of (sd_f32 sd) (ec_sampler cfg)))
      \<lparr>sc_grammar := sc_grammar (ec_sampler cfg)\<rparr>"
  let ?cfg = "resumed_config (snapshot_value sd cfg c fp kv) (ec_model_path cfg) ?sampler"
  obtain s2 where s2: "load_model deps (session_new ?cfg) = (Inr (), s2)" "ss_config s2 = ?cfg" "ss_gguf s2 = ss_gguf s1"
      "ss_model_config s2 = ss_model_config s1" "en_tokenizer (ss_engine s2) = en_tokenizer (ss_engine s1)"
      "en_eos_token_id (ss_engine s2) = en_eos_token_id (ss_engine s1)"
      "en_kv (ss_engine s2) = Some (kv_with_dtype (kc_num_layers kv) (kc_max_seq_len kv) (kc_kv_dim kv) DtF32)"
    using load_again[OF s1(1) c(1), of ?cfg] c(4-6) by (auto simp: resumed_config_def snapshot_value_def)
  obtain kv' where kv': "kv_restore_from_payload (sd_f16 sd) (kv_to_payload (sd_f16 sd) kv)
        (kv_with_dtype (kc_num_layers kv) (kc_max_seq_len kv) (kc_kv_dim kv) DtF32) = Inr kv'"
      "kv_inv kv'" "kc_seq_len kv' = kc_seq_len kv" "kv_settled kv'" "kc_num_layers kv' = kc_num_layers kv"
      "kc_max_seq_len kv' = kc_max_seq_len kv" "kc_kv_dim kv' = kc_kv_dim kv"
      "\<forall>layer < kc_num_layers kv. kv_copy_keys_into (sd_f16 sd) kv' layer = kv_copy_keys_into (sd_f16 sd) kv layer \<and>
         kv_copy_values_into (sd_f16 sd) kv' layer = kv_copy_values_into (sd_f16 sd) kv layer"
    using restore_payload[OF kv, of "sd_f16 sd"] by blast
  let ?s = "s2\<lparr>ss_engine := (ss_engine s2)\<lparr>en_kv := Some kv'\<rparr>\<rparr>"
  have "fingerprint_verify (sd_hash sd) (ld_disk deps) fp (ec_model_path cfg) = (Inr () :: 'e session_error + _)"
    using fp by (rule verify_unchanged)
  then have "session_resume sd deps bytes (ec_model_path cfg) = Inr ?s"
    using s2(1) kv'(1) by (simp add: session_resume_def decoded reparse_ok[OF g] restore_sequence_def s2(7)
        snapshot_value_def[of sd cfg c fp kv])
  moreover have "stands_at (sd_f16 sd) s kv ?s"
    using load_model_ok(1)[OF s2(1)] s1 s2 kv' c
    by (auto simp: stands_at_def session_ok_def resumed_config_def resumed_sampler_def sampler_payload_of_def)
  ultimately show ?thesis by blast
qed

section \<open>Speculative sessions\<close>

lemma deserialized_current:
  "engine_deserialize cd bytes = (Inr snap :: 'e session_error + _) \<Longrightarrow> current_format snap"
  by (auto simp: engine_deserialize_def current_format_def elim!: and_then_InrE split: if_splits)

lemma session_snapshot_again:
  assumes "codec_ok (sd_codec sd)" and "session_snapshot sd disk s = (Inr bytes :: 'e session_error + _)"
    and "engine_deserialize (sd_codec sd) bytes = (Inr snap :: 'd session_error + _)"
  shows "engine_serialize (sd_codec sd) snap = (Inr bytes :: 'c session_error + _)"
proof -
  obtain v where v: "cd_encode (sd_codec sd) v = Inr bytes"
    using assms(2) by (auto simp: session_snapshot_def engine_serialize_def map_err_Inr elim!: and_then_InrE)
  then have "cd_decode (sd_codec sd) bytes = Inr v" using assms(1) by (simp add: codec_ok_def)
  then have "snap = v" using assms(3) by (auto simp: engine_deserialize_def split: if_splits)
  then show ?thesis using v by (simp add: engine_serialize_def)
qed

lemma spec_session_resumes:
  assumes codec: "codec_ok (sd_codec sd)" and target: "has_run deps target_cfg (pv_target se) target_kv"
    and draft: "has_run deps draft_cfg (pv_draft se) draft_kv" and num: "pv_num_speculative se < 2 ^ 64"
    and rng: "xs_state (pv_rng se) \<noteq> 0"
    and snap: "spec_session_snapshot sd (ld_disk deps) se = (Inr bytes :: 'd session_error + _)"
    and size: "length bytes \<le> isize_max"
  shows "\<exists>se'. spec_session_resume sd deps bytes (ec_model_path target_cfg) (ec_model_path draft_cfg) = Inr se' \<and>
    stands_at (sd_f16 sd) (pv_target se) target_kv (pv_target se') \<and>
    stands_at (sd_f16 sd) (pv_draft se) draft_kv (pv_draft se') \<and>
    pv_num_speculative se' = pv_num_speculative se \<and> pv_rng se' = pv_rng se"
proof -
  obtain tb t db d where t: "session_snapshot sd (ld_disk deps) (pv_target se) = (Inr tb :: 'd session_error + _)"
      "engine_deserialize (sd_codec sd) tb = (Inr t :: unit session_error + _)"
    and d: "session_snapshot sd (ld_disk deps) (pv_draft se) = (Inr db :: 'd session_error + _)"
      "engine_deserialize (sd_codec sd) db = (Inr d :: unit session_error + _)"
    and enc: "spec_encode (sd_codec sd) \<lparr>sn_target = t, sn_draft = d, sn_num_speculative = pv_num_speculative se,
        sn_seed = None, sn_accepted = [], sn_rng_state = xs_state (pv_rng se)\<rparr> = (Inr bytes :: 'd session_error + _)"
    using snap by (auto simp: spec_session_snapshot_def map_err_Inr elim!: and_then_InrE)
  let ?s = "\<lparr>sn_target = t, sn_draft = d, sn_num_speculative = pv_num_speculative se,
        sn_seed = None, sn_accepted = [], sn_rng_state = xs_state (pv_rng se)\<rparr>"
  note ser_t = session_snapshot_again[OF codec t] and ser_d = session_snapshot_again[OF codec d]
  have "bytes = spec_envelope tb db ?s"
    using enc ser_t[where 'c = 'd] ser_d[where 'c = 'd] by (simp add: spec_encode_def)
  then have "spec_encode (sd_codec sd) ?s = (Inr bytes :: unit session_error + _)"
    using ser_t[where 'c = unit] ser_d[where 'c = unit] by (simp add: spec_encode_def)
  then have "spec_encodable (sd_codec sd) ?s bytes"
    using codec num size deserialized_current[OF t(2)] deserialized_current[OF d(2)] by (simp add: spec_encodable_def)
  then have dec: "spec_decode (sd_codec sd) bytes = (Inr ?s :: 'e session_error + _)" by (rule spec_decode_encode)
  obtain target' draft' where "session_resume sd deps tb (ec_model_path target_cfg) = Inr target'"
      "stands_at (sd_f16 sd) (pv_target se) target_kv target'"
      "session_resume sd deps db (ec_model_path draft_cfg) = Inr draft'"
      "stands_at (sd_f16 sd) (pv_draft se) draft_kv draft'"
    using session_resumes[OF codec target t(1)] session_resumes[OF codec draft d(1)] by blast
  moreover have "xorshift_new (xs_state (pv_rng se)) = pv_rng se" using rng by (simp add: xorshift_new_def)
  ultimately show ?thesis
    by (simp add: spec_session_resume_def dec ser_t[where 'c = unit] ser_d[where 'c = unit])
qed

section \<open>The sampler of a resumed engine\<close>

lemma load_model_config: "ss_config (snd (load_model deps s)) = ss_config s"
  by (auto simp: load_model_def Let_def elim!: load_parsed_parts split: option.splits sum.splits)

lemma resumed_no_vocab:
  fixes deps :: "('re, 'h, 'f, 'e) load_deps"
  assumes "session_resume sd deps bytes path = Inr s'"
  shows "sc_token_vocab (ec_sampler (ss_config s')) = None"
proof -
  obtain snap sampler s where gs: "reparse_grammar (es_grammar_state snap) (resumed_sampler (es_sampler_state snap)) =
        (Inr sampler :: 'e session_error + _)"
    and load: "load_model deps (session_new (resumed_config snap path sampler)) = (Inr (), s)"
    and restore: "restore_sequence (sd_f16 sd) (es_sequence_state snap) s = (Inr s' :: 'e session_error + _)"
    using assms by (auto simp: session_resume_def elim!: and_then_InrE split: prod.splits sum.splits)
  have "sc_token_vocab sampler = None"
    using gs by (auto simp: reparse_grammar_def resumed_sampler_def split: option.splits sum.splits)
  moreover have "ss_config s = resumed_config snap path sampler"
    using load_model_config[of deps "session_new (resumed_config snap path sampler)"] load
    by (simp add: session_new_def)
  moreover have "ss_config s' = ss_config s"
    using restore by (auto simp: restore_sequence_def elim!: and_then_InrE split: sequence_payload.splits)
  ultimately show ?thesis by (simp add: resumed_config_def)
qed

lemma sampler_without_vocab:
  assumes "sc_token_vocab c = None"
  shows "fst (try_sample fo (sampler_new fo fresh c) logits recent) =
    fst (try_sample fo (sampler_new fo fresh (c\<lparr>sc_grammar := None\<rparr>)) logits recent)"
proof -
  let ?c = "c\<lparr>sc_grammar := None\<rparr>"
  have split: "split_from_config ?c = split_from_config c"
    by (simp add: split_from_config_def push_pre_grammar_stages_def push_post_grammar_stages_def seeded_chain_def)
  have new: "sm_pre (sampler_new fo fresh ?c) = sm_pre (sampler_new fo fresh c)"
    "sm_post (sampler_new fo fresh ?c) = sm_post (sampler_new fo fresh c)"
    "sm_rng (sampler_new fo fresh ?c) = sm_rng (sampler_new fo fresh c)"
    "sm_mu (sampler_new fo fresh ?c) = sm_mu (sampler_new fo fresh c)"
    "sm_config (sampler_new fo fresh ?c) = ?c" "sm_config (sampler_new fo fresh c) = c"
    by (simp_all add: sampler_new_def split)
  have masked: "masked_logits fo (sampler_new fo fresh ?c) logits recent = masked_logits fo (sampler_new fo fresh c) logits recent"
    using assms by (simp add: masked_logits_def new split: option.splits prod.splits)
  have drawn: "rescaled fo ?c ls = rescaled fo c ls" "mirostat_draw fo ?c ls mu rng = mirostat_draw fo c ls mu rng" for ls mu rng
    by (simp_all add: rescaled_def mirostat_draw_def)
  have "fst (sample_standard fo (sampler_new fo fresh ?c) logits recent) = fst (sample_standard fo (sampler_new fo fresh c) logits recent)"
    by (simp add: sample_standard_def masked new is_greedy_def Let_def split: prod.splits)
  moreover have "fst (sample_mirostat fo (sampler_new fo fresh ?c) logits recent) = fst (sample_mirostat fo (sampler_new fo fresh c) logits recent)"
    by (simp add: sample_mirostat_def masked new drawn Let_def split: prod.splits)
  ultimately show ?thesis by (simp add: try_sample_def new Let_def split: prod.splits sum.splits) auto
qed

end
