(* ===== verification/Eng_Example.thy ===== *)
theory Eng_Example
  imports Snp_Resume Gguf_File Smp_Safety
begin

text \<open>
  A tiny model for the witnesses of loading and snapshots: a file of four metadata entries as the writer
  produces it, loaded, with one token in its cache.
\<close>

definition tiny_writer :: gguf_writer where
  "tiny_writer =
     \<lparr>gw_metadata = [(''general.architecture'', VString ''x''), (''x.embedding_length'', VUint32 2),
        (''x.attention.head_count'', VUint32 1), (''x.block_count'', VUint32 1)],
      gw_tensors = [], gw_tensor_metas = []\<rparr>"

lemma tiny_writer_ok: "writer_ok tiny_writer"
proof -
  have "list_all kv_ok (gw_metadata tiny_writer)"
    using utf8_ascii [of "''general.architecture''"] utf8_ascii [of "''x''"] utf8_ascii [of "''x.embedding_length''"]
      utf8_ascii [of "''x.attention.head_count''"] utf8_ascii [of "''x.block_count''"]
    by (simp add: tiny_writer_def kv_ok_def MAX_METADATA_ARRAY_DEPTH_def)
  moreover have "file_alignment (md_of_list (gw_metadata tiny_writer)) = GGUF_DEFAULT_ALIGNMENT"
    by (simp add: file_alignment_def md_get_of_list tiny_writer_def)
  ultimately show ?thesis by (simp add: writer_ok_def writer_shape_def) (simp add: tiny_writer_def)
qed

lemma tiny_writer_size: "length (written_bytes tiny_writer) \<le> 1000"
  unfolding written_bytes_body [OF writer_ok_shape [OF tiny_writer_ok]]
  by (simp add: writer_body_def prelude_body_def tiny_writer_def kv_bytes_def string_v3_bytes_def writer_offsets_def
      padding_def round_up_def)

lemma tiny_parse: "gguf_parse (written_bytes tiny_writer) = Inr (written_file tiny_writer)"
  using tiny_writer_size by (intro gguf_parse_written[OF tiny_writer_ok]) simp

lemma tiny_get:
  "md_get (gf_metadata (written_file tiny_writer)) k =
     map_of [(''x.block_count'', VUint32 1), (''x.attention.head_count'', VUint32 1), (''x.embedding_length'', VUint32 2),
       (''general.architecture'', VString ''x'')] k"
  by (simp add: md_get_of_list) (simp add: tiny_writer_def)

lemma tiny_keys:
  "md_get_string (gf_metadata (written_file tiny_writer)) ''general.architecture'' = Inr ''x''"
  "md_get_string (gf_metadata (written_file tiny_writer)) ''x.rope.scaling.type'' =
     Inl (InvalidMetadata ''x.rope.scaling.type'' ExpectedString)"
  "u_key (gf_metadata (written_file tiny_writer)) ''x.embedding_length'' = Some 2"
  "u_key (gf_metadata (written_file tiny_writer)) ''x.attention.head_count'' = Some 1"
  "u_key (gf_metadata (written_file tiny_writer)) ''x.attention.head_count_kv'' = None"
  "u_key (gf_metadata (written_file tiny_writer)) ''x.attention.key_length'' = None"
  "u_key (gf_metadata (written_file tiny_writer)) ''x.block_count'' = Some 1"
  by (simp_all add: u_key_def ok_of_def md_get_string_def md_get_u32_def tiny_get del: written_file_sel)

lemma tiny_model_config:
  "\<exists>c. config_from_metadata (gf_metadata (written_file tiny_writer)) = Inr c \<and> mc_num_layers c = 1 \<and>
     mc_num_kv_heads c = 1 \<and> mc_head_dim c = 2"
  by (simp add: config_from_metadata_def Let_def validate_attention_shape_def tiny_keys head_dim_of_def
      unwrap_or_def some_if_def or_key_def del: written_file_sel)

definition tiny_hf :: "unit hf_ops" where
  "tiny_hf = \<lparr>hf_encode = (\<lambda>h t sp. Inr [0]), hf_decode = (\<lambda>h ts sp. Inr []), hf_added = (\<lambda>h. []),
     hf_vocab = (\<lambda>h. []), hf_id_to_token = (\<lambda>h t. None)\<rparr>"

definition tiny_deps :: "(unit, unit, unit, unit) load_deps" where
  "tiny_deps =
     \<lparr>ld_disk = (\<lambda>path. if path = ''m'' then Some (Inr \<lparr>df_bytes = written_bytes tiny_writer, df_mtime = Some 5\<rparr>) else None),
      ld_build = (\<lambda>data gguf c. Inr ()), ld_hf = tiny_hf, ld_open_hf = (\<lambda>path. Inr ()), ld_hf_bytes = (\<lambda>json. Inr ()),
      ld_compile = (\<lambda>p. None), ld_sidecar = (\<lambda>path. None)\<rparr>"

text \<open>The grammar \<open>a::="x"\<close>.\<close>

definition tiny_grammar :: grammar where
  "tiny_grammar = \<lparr>gr_rules = [(''a'', Literal [120])], gr_root = ''a'', gr_source = [97, 58, 58, 61, 34, 120, 34]\<rparr>"

lemma tiny_grammar_parses: "gbnf_parse (gr_source tiny_grammar) = Some (Inr tiny_grammar)"
  unfolding tiny_grammar_def grammar.simps by code_simp

definition tiny_config :: engine_config where
  "tiny_config = engine_config_default\<lparr>ec_model_path := ''m'', ec_tokenizer_path := Some ''t'', ec_context_size := Some 2,
     ec_sampler := sampler_config_default\<lparr>sc_grammar := Some tiny_grammar\<rparr>\<rparr>"

lemma tiny_loads:
  "\<exists>s1. load_model tiny_deps (session_new tiny_config) = (Inr (), s1) \<and> ss_config s1 = tiny_config \<and>
     en_kv (ss_engine s1) = Some (kv_with_dtype 1 2 2 DtF32)"
proof -
  obtain c where c: "config_from_metadata (gf_metadata (written_file tiny_writer)) = Inr c" "mc_num_layers c = 1"
      "mc_num_kv_heads c = 1" "mc_head_dim c = 2"
    using tiny_model_config by blast
  have "isl (load_tokenizer tiny_hf (\<lambda>path. Inr ()) (\<lambda>p. None :: unit list option) (Some ''t'') None m) = False" for m
    by (simp add: load_tokenizer_def)
  then have "\<exists>tb. load_tokenizer tiny_hf (\<lambda>path. Inr ()) (\<lambda>p. None :: unit list option) (Some ''t'') None m = Inr tb" for m
    by (metis isl_def sum.collapse(2))
  then obtain tb where tb: "load_tokenizer tiny_hf (\<lambda>path. Inr ()) (\<lambda>p. None :: unit list option) (Some ''t'') None
      (gf_metadata (written_file tiny_writer)) = Inr tb" by blast
  show ?thesis using c tb
    by (simp add: load_model_def tiny_deps_def tiny_config_def engine_config_default_def session_new_def Let_def
        load_parsed_def tiny_parse resolve_context_size_def del: written_file_sel)
qed

definition tiny_kv :: kv_cache where
  "tiny_kv = \<lparr>kc_keys = [BufF32 [7, 8, 0, 0]], kc_values = [BufF32 [9, 10, 0, 0]], kc_seq_len = 1, kc_stored_len = 1,
     kc_capacity_tokens = 2, kc_block_tokens = 2, kc_max_seq_len = 2, kc_kv_dim = 2, kc_num_layers = 1, kc_dtype = DtF32\<rparr>"

definition tiny_session :: "(unit, unit, unit) session" where
  "tiny_session = (let s1 = snd (load_model tiny_deps (session_new tiny_config))
     in s1\<lparr>ss_engine := (ss_engine s1)\<lparr>en_kv := Some tiny_kv\<rparr>\<rparr>)"

lemma tiny_has_run: "has_run tiny_deps tiny_config tiny_session tiny_kv"
proof -
  obtain s1 where s1: "load_model tiny_deps (session_new tiny_config) = (Inr (), s1)" "ss_config s1 = tiny_config"
      "en_kv (ss_engine s1) = Some (kv_with_dtype 1 2 2 DtF32)"
    using tiny_loads by blast
  have "kv_inv tiny_kv" "kv_settled tiny_kv"
    by (simp_all add: kv_inv_def bufs_ok_def tiny_kv_def kv_settled_def)
  then show ?thesis using s1 unfolding has_run_def
    by (intro conjI exI[of _ s1] exI[of _ "kv_with_dtype 1 2 2 DtF32"])
      (simp_all add: tiny_session_def kv_with_dtype_def tiny_kv_def tiny_config_def tiny_grammar_parses)
qed

text \<open>A codec that knows one snapshot.\<close>

definition codec_for :: "engine_snapshot \<Rightarrow> snapshot_codec" where
  "codec_for v = \<lparr>cd_encode = (\<lambda>x. if x = v then Inr [1] else Inl ''unknown''),
     cd_decode = (\<lambda>bytes. if bytes = [1] then Inr v else Inl ''unknown'')\<rparr>"

lemma codec_for_ok: "codec_ok (codec_for v)"
  by (simp add: codec_ok_def codec_for_def)

definition tiny_snapshot :: engine_snapshot where
  "tiny_snapshot =
     snapshot_value \<lparr>sd_f32 = crude_ops, sd_f16 = \<lparr>fc_from_f32 = (\<lambda>w. 0), fc_to_f32 = (\<lambda>w. 0)\<rparr>,
         sd_hash = (\<lambda>bytes. bytes), sd_codec = \<lparr>cd_encode = (\<lambda>x. Inl []), cd_decode = (\<lambda>b. Inl [])\<rparr>\<rparr>
       tiny_config (the (ss_model_config tiny_session))
       \<lparr>mf_file_size = of_nat (length (written_bytes tiny_writer)), mf_mtime_secs = 5,
        mf_head_hash = head_of DEFAULT_PROBE_SIZE (written_bytes tiny_writer),
        mf_tail_hash = tail_of DEFAULT_PROBE_SIZE (written_bytes tiny_writer), mf_probe_size = DEFAULT_PROBE_SIZE\<rparr>
       tiny_kv"

definition tiny_sd :: snapshot_deps where
  "tiny_sd = \<lparr>sd_f32 = crude_ops, sd_f16 = \<lparr>fc_from_f32 = (\<lambda>w. 0), fc_to_f32 = (\<lambda>w. 0)\<rparr>,
     sd_hash = (\<lambda>bytes. bytes), sd_codec = codec_for tiny_snapshot\<rparr>"

lemma tiny_disk: "ld_disk tiny_deps ''m'' = Some (Inr \<lparr>df_bytes = written_bytes tiny_writer, df_mtime = Some 5\<rparr>)"
  by (simp add: tiny_deps_def)

lemma tiny_saved: "session_snapshot tiny_sd (ld_disk tiny_deps) tiny_session = (Inr [1] :: 'e session_error + _)"
proof -
  obtain s1 where s1: "load_model tiny_deps (session_new tiny_config) = (Inr (), s1)" "ss_config s1 = tiny_config"
    using tiny_loads by blast
  obtain c where c: "ss_model_config s1 = Some c" using load_model_ok(1)[OF s1(1)] by (auto simp: session_ok_def)
  have s: "ss_config tiny_session = tiny_config" "ss_model_config tiny_session = Some c"
      "en_kv (ss_engine tiny_session) = Some tiny_kv"
    using s1 c by (simp_all add: tiny_session_def)
  have "ec_model_path tiny_config = ''m''" by (simp add: tiny_config_def)
  then have "engine_serialize (codec_for tiny_snapshot) tiny_snapshot = (Inr [1] :: 'e session_error + _)"
    and "fingerprint_compute (sd_hash tiny_sd) (ld_disk tiny_deps) (ec_model_path tiny_config) =
      (Inr (es_model_fingerprint tiny_snapshot) :: 'e session_error + _)"
    by (simp_all add: engine_serialize_def codec_for_def fingerprint_compute_def compute_with_probe_eq[where disk = "ld_disk tiny_deps" and path = "''m''", OF tiny_disk]
        tiny_sd_def tiny_snapshot_def snapshot_value_def mtime_of_def)
  then show ?thesis
    by (simp add: session_snapshot_def s) (simp add: tiny_sd_def snapshot_value_def tiny_snapshot_def s)
qed

text \<open>Two such engines in a speculative session, and its bytes.\<close>

definition tiny_spec :: "(unit, unit, unit) spec_session" where
  "tiny_spec = \<lparr>pv_draft = tiny_session, pv_target = tiny_session, pv_num_speculative = 4, pv_rng = \<lparr>xs_state = 7\<rparr>\<rparr>"

definition tiny_spec_snapshot :: spec_snapshot where
  "tiny_spec_snapshot = \<lparr>sn_target = tiny_snapshot, sn_draft = tiny_snapshot, sn_num_speculative = 4, sn_seed = None,
     sn_accepted = [], sn_rng_state = 7\<rparr>"

definition tiny_spec_bytes :: "u8 list" where
  "tiny_spec_bytes = spec_envelope [1] [1] tiny_spec_snapshot"

lemma tiny_current: "current_format tiny_snapshot"
  by (simp add: current_format_def tiny_snapshot_def snapshot_value_def)

lemma tiny_spec_encodes: "spec_encode (codec_for tiny_snapshot) tiny_spec_snapshot = (Inr tiny_spec_bytes :: 'e session_error + _)"
  by (simp add: spec_encode_def tiny_spec_snapshot_def engine_serialize_def codec_for_def tiny_spec_bytes_def)

lemma tiny_spec_bytes_length: "length tiny_spec_bytes = 55"
  by (simp add: tiny_spec_bytes_def spec_envelope_def SPEC_SNAPSHOT_MAGIC_def encode_seed_def tiny_spec_snapshot_def)

lemma tiny_encodable: "spec_encodable (codec_for tiny_snapshot) tiny_spec_snapshot tiny_spec_bytes"
  unfolding spec_encodable_def tiny_spec_encodes
  by (simp add: codec_for_ok tiny_spec_bytes_length) (simp add: tiny_spec_snapshot_def tiny_current)

lemma tiny_spec_saved: "spec_session_snapshot tiny_sd (ld_disk tiny_deps) tiny_spec = (Inr tiny_spec_bytes :: 'e session_error + _)"
proof -
  have "engine_deserialize (sd_codec tiny_sd) [1] = (Inr tiny_snapshot :: unit session_error + _)"
    by (simp add: engine_deserialize_def tiny_sd_def codec_for_def tiny_current[unfolded current_format_def])
  moreover have "sd_codec tiny_sd = codec_for tiny_snapshot" by (simp add: tiny_sd_def)
  ultimately show ?thesis
    using tiny_spec_encodes by (simp add: spec_session_snapshot_def tiny_spec_def tiny_saved tiny_spec_snapshot_def)
qed

end
