(* ===== verification/Snp_Properties.thy ===== *)
theory Snp_Properties
  imports Eng_Example
begin

text \<open>The properties of loading and of snapshots, with their witnesses.\<close>

section \<open>Loading\<close>

text \<open>C13: An engine that \<open>load_model\<close> accepts is ready to run: its configuration is valid, its cache is
  empty and has the layers, the row width and the context of the configuration in the element type
  that was asked for, and its tokenizer knows every id that ends the text. The file on disk may hold
  any bytes.\<close>

theorem loaded_engine_ready:
  assumes "load_model deps s = (Inr u, s')"
  shows "session_ok s' \<and>
    (\<exists>kv. en_kv (ss_engine s') = Some kv \<and> kc_seq_len kv = 0 \<and> kc_dtype kv = ec_kv_dtype (ss_config s))"
  using load_model_ok[OF assms] by blast

theorem loaded_engine_ready_witness:
  "\<exists>s1. load_model tiny_deps (session_new tiny_config) = (Inr (), s1) \<and> session_ok s1"
  using tiny_loads loaded_engine_ready by blast

section \<open>The fingerprint\<close>

text \<open>The fingerprint of a model file accepts another file exactly when the two agree in length, in
  modification time and in what the probe reads at both ends, as long as the hash has no collision
  with these two blocks.\<close>

theorem fingerprint_exact:
  assumes "disk path = Some (Inr df)" and "disk' path' = Some (Inr df')"
    and "compute_with_probe hash disk path probe = (Inr fp :: 'd session_error + _)"
    and "length (df_bytes df) < 2 ^ 64" and "length (df_bytes df') < 2 ^ 64"
    and "\<And>x y. x \<in> {head_of probe (df_bytes df), tail_of probe (df_bytes df)} \<Longrightarrow> hash x = hash y \<Longrightarrow> x = y"
  shows "fingerprint_verify hash disk' fp path' = (Inr () :: 'e session_error + _) \<longleftrightarrow>
    length (df_bytes df') = length (df_bytes df) \<and> mtime_of df' = mtime_of df \<and>
    head_of probe (df_bytes df') = head_of probe (df_bytes df) \<and>
    tail_of probe (df_bytes df') = tail_of probe (df_bytes df)"
  using assms by (rule verify_exactly)

text \<open>A change between the two probes is not seen, one inside a probe is.\<close>

definition one_file :: "u8 list \<Rightarrow> string \<Rightarrow> (string + disk_file) option" where
  "one_file bytes path = Some (Inr \<lparr>df_bytes = bytes, df_mtime = None\<rparr>)"

definition probed :: "u8 list \<Rightarrow> model_fingerprint" where
  "probed bytes = \<lparr>mf_file_size = of_nat (length bytes), mf_mtime_secs = 0, mf_head_hash = take 2 bytes,
     mf_tail_hash = drop (length bytes - 2) bytes, mf_probe_size = 2\<rparr>"

theorem fingerprint_exact_witness:
  "fingerprint_verify (\<lambda>b. b) (one_file [1, 2, 9, 4, 5]) (probed [1, 2, 3, 4, 5]) [] = (Inr () :: unit session_error + _) \<and>
   fingerprint_verify (\<lambda>b. b) (one_file [1, 2, 3, 4, 6]) (probed [1, 2, 3, 4, 5]) [] \<noteq> (Inr () :: unit session_error + _)"
proof -
  have fp: "compute_with_probe (\<lambda>b. b) (one_file [1, 2, 3, 4, 5]) [] 2 =
      (Inr (probed [1, 2, 3, 4, 5]) :: unit session_error + _)"
    by (simp add: compute_with_probe_def one_file_def probed_def)
  note exact = fingerprint_exact [where path = "[]" and path' = "[]" and hash = "\<lambda>b. b" and probe = 2
      and disk = "one_file [1, 2, 3, 4, 5]" and df = "\<lparr>df_bytes = [1, 2, 3, 4, 5], df_mtime = None\<rparr>", OF _ _ fp]
  show ?thesis
    using exact [where disk' = "one_file [1, 2, 9, 4, 5]" and df' = "\<lparr>df_bytes = [1, 2, 9, 4, 5], df_mtime = None\<rparr>"]
      exact [where disk' = "one_file [1, 2, 3, 4, 6]" and df' = "\<lparr>df_bytes = [1, 2, 3, 4, 6], df_mtime = None\<rparr>"]
    by (simp add: one_file_def mtime_of_def head_of_def tail_of_def)
qed

section \<open>Resuming\<close>

text \<open>C10: A session that was loaded, has run and was saved resumes on the same disk: the resumed engine has
  the same model, tokenizer and context, and every row of keys and values reads back bit for bit,
  whatever element type the first cache had.\<close>

theorem session_resume_restores:
  assumes "codec_ok (sd_codec sd)" and "has_run deps cfg s kv"
    and "session_snapshot sd (ld_disk deps) s = (Inr bytes :: 'd session_error + _)"
  shows "\<exists>s'. session_resume sd deps bytes (ec_model_path cfg) = Inr s' \<and> stands_at (sd_f16 sd) s kv s'"
  using assms by (rule session_resumes)

theorem session_resume_restores_witness:
  "\<exists>s'. session_resume tiny_sd tiny_deps [1] ''m'' = Inr s' \<and> stands_at (sd_f16 tiny_sd) tiny_session tiny_kv s'"
proof -
  have "codec_ok (sd_codec tiny_sd)" "ec_model_path tiny_config = ''m''"
    by (simp_all add: tiny_sd_def codec_for_ok tiny_config_def)
  then show ?thesis using session_resume_restores [OF _ tiny_has_run tiny_saved] by simp
qed

text \<open>C33: A grammar that \<open>resume\<close> parses again never constrains a token: the sampler of the resumed engine has
  no vocabulary to check it against, so a call draws what a sampler without a grammar draws.\<close>

theorem resumed_grammar_inert:
  assumes "session_resume sd deps bytes path = Inr s'"
  shows "fst (try_sample fo (sampler_new fo fresh (ec_sampler (ss_config s'))) logits recent) =
    fst (try_sample fo (sampler_new fo fresh ((ec_sampler (ss_config s'))\<lparr>sc_grammar := None\<rparr>)) logits recent)"
  using resumed_no_vocab[OF assms] by (rule sampler_without_vocab)

theorem resumed_grammar_inert_witness:
  "\<exists>s'. session_resume tiny_sd tiny_deps [1] ''m'' = Inr s' \<and>
     sc_grammar (ec_sampler (ss_config s')) = Some tiny_grammar \<and>
     fst (try_sample crude_ops (sampler_new crude_ops 0 (ec_sampler (ss_config s'))) [f_one, f_half] []) =
     fst (try_sample crude_ops (sampler_new crude_ops 0 ((ec_sampler (ss_config s'))\<lparr>sc_grammar := None\<rparr>)) [f_one, f_half] [])"
proof -
  have "codec_ok (sd_codec tiny_sd)" by (simp add: tiny_sd_def codec_for_ok)
  then obtain s' where s': "session_resume tiny_sd tiny_deps [1] (ec_model_path tiny_config) = Inr s'"
    and at: "stands_at (sd_f16 tiny_sd) tiny_session tiny_kv s'"
    using session_resumes [OF _ tiny_has_run tiny_saved] by blast
  have "ss_config tiny_session = tiny_config" using tiny_has_run by (auto simp: has_run_def)
  then have "sc_grammar (ec_sampler (ss_config s')) = Some tiny_grammar"
    using at by (simp add: stands_at_def tiny_config_def)
  moreover have "ec_model_path tiny_config = ''m''" by (simp add: tiny_config_def)
  ultimately show ?thesis using resumed_grammar_inert [OF s'] s' by auto
qed

section \<open>The bytes of a speculative session\<close>

text \<open>The bytes of a speculative snapshot decode to the snapshot they were made from.\<close>

theorem spec_snapshot_roundtrip:
  assumes "spec_encodable cd s bytes"
  shows "spec_decode cd bytes = (Inr s :: 'e session_error + _)"
  using assms by (rule spec_decode_encode)

theorem spec_snapshot_roundtrip_witness:
  "spec_decode (codec_for tiny_snapshot) tiny_spec_bytes = (Inr tiny_spec_snapshot :: unit session_error + _)"
  using tiny_encodable by (rule spec_snapshot_roundtrip)

text \<open>C12: Cut anywhere, the bytes of a speculative snapshot are refused as truncated: they are never taken
  for another snapshot and never make the decoder panic.\<close>

theorem spec_truncation_refused:
  assumes "spec_encodable cd s bytes" and "n < length bytes"
  shows "\<exists>k p. spec_decode cd (take n bytes) = (Inl (SpecIncompatible (Truncated k p)) :: 'e session_error + _)"
  using assms by (rule spec_decode_prefix)

theorem spec_truncation_refused_witness:
  "\<exists>k p. spec_decode (codec_for tiny_snapshot) (take 30 tiny_spec_bytes) =
     (Inl (SpecIncompatible (Truncated k p)) :: unit session_error + _)"
  by (rule spec_truncation_refused [OF tiny_encodable]) (simp add: tiny_spec_bytes_length)

text \<open>C34: A length field near \<open>2 ^ 64\<close> makes the decoder panic, where every malformed input should be
  refused with an error: the end of the field is computed with an addition that is not checked.\<close>

theorem spec_huge_length_panics:
  "spec_decode cd (SPEC_SNAPSHOT_MAGIC @ le_u32 SPEC_SNAPSHOT_VERSION @ le_u64 (- 1) @ rest) =
     (Inl SnapshotPanic :: 'e session_error + _)"
proof -
  let ?h = "SPEC_SNAPSHOT_MAGIC @ le_u32 SPEC_SNAPSHOT_VERSION"
  have len: "length ?h = 12" by (simp add: SPEC_SNAPSHOT_MAGIC_def)
  have "read_header (?h @ le_u64 (- 1) @ rest) 0 = (Inr ((), 12) :: 'e session_error + _)"
    using decodes_header[unfolded decodes_def, rule_format, of "[]" "le_u64 (- 1) @ rest"] len by simp
  moreover have "read_u64_le (?h @ le_u64 (- 1) @ rest) 12 = (Inr (- 1, 20) :: 'e session_error + _)"
    using decodes_u64[of "- 1", unfolded decodes_def, rule_format, of ?h rest] len by simp
  moreover have "unat (- 1 :: u64) = 2 ^ 64 - 1" by (simp add: unsigned_minus_1_eq_mask mask_eq_exp_minus_1)
  ultimately show ?thesis
    by (simp add: spec_decode_def spec_decoder_def dec_bind_def read_embedded_def read_exact_def)
qed

text \<open>C11: A speculative session resumes from its bytes: both engines stand where they stood, and the number of
  proposals and the random state are the same, so the acceptance tests continue their stream.\<close>

theorem spec_session_resume_restores:
  assumes "codec_ok (sd_codec sd)" and "has_run deps target_cfg (pv_target se) target_kv"
    and "has_run deps draft_cfg (pv_draft se) draft_kv" and "pv_num_speculative se < 2 ^ 64"
    and "xs_state (pv_rng se) \<noteq> 0"
    and "spec_session_snapshot sd (ld_disk deps) se = (Inr bytes :: 'd session_error + _)"
    and "length bytes \<le> isize_max"
  shows "\<exists>se'. spec_session_resume sd deps bytes (ec_model_path target_cfg) (ec_model_path draft_cfg) = Inr se' \<and>
    stands_at (sd_f16 sd) (pv_target se) target_kv (pv_target se') \<and>
    stands_at (sd_f16 sd) (pv_draft se) draft_kv (pv_draft se') \<and>
    pv_num_speculative se' = pv_num_speculative se \<and> pv_rng se' = pv_rng se"
  using assms by (rule spec_session_resumes)

theorem spec_session_resume_restores_witness:
  "\<exists>se'. spec_session_resume tiny_sd tiny_deps tiny_spec_bytes ''m'' ''m'' = Inr se' \<and>
     stands_at (sd_f16 tiny_sd) tiny_session tiny_kv (pv_target se') \<and> pv_rng se' = \<lparr>xs_state = 7\<rparr>"
proof -
  have "codec_ok (sd_codec tiny_sd)" "ec_model_path tiny_config = ''m''"
    by (simp_all add: tiny_sd_def codec_for_ok tiny_config_def)
  moreover have "has_run tiny_deps tiny_config (pv_target tiny_spec) tiny_kv"
    "has_run tiny_deps tiny_config (pv_draft tiny_spec) tiny_kv" using tiny_has_run by (simp_all add: tiny_spec_def)
  moreover have "length tiny_spec_bytes \<le> isize_max" by (simp add: tiny_spec_bytes_length)
  ultimately show ?thesis
    using spec_session_resume_restores [OF _ _ _ _ _ tiny_spec_saved, of tiny_config tiny_kv tiny_config tiny_kv]
    by (auto simp: tiny_spec_def)
qed

end
