(* ===== verification/Spec2Isabelle.thy ===== *)
theory Spec2Isabelle
  imports Gguf_Properties Kv_Properties Scheduler_Properties Grammar_Properties Prefix_Properties Tok_Properties
    Smp_Properties Dec_Properties Spc_Properties Arch_Properties
    Snp_Properties
begin

text \<open>
  Verification of OxiLLaMa, a Rust inference engine for large language models. The development
  models the discrete core of the engine: what is read from and written to model files, where the
  keys and values of a sequence live, which tokens are computed when, which tokens a grammar lets
  through, which cached prefixes are reused, and how text becomes tokens and back. All paths below are relative to \<open>src/crates/\<close>.

  \<^bold>\<open>How the parts work together.\<close> A model file in the GGUF format is parsed into a metadata store
  and a tensor registry, from which the architecture code computes its forward passes. A vocabulary in
  the metadata gives the tokenizer, which turns the text of a request into token ids. The request
  becomes a sequence of the continuous-batching scheduler, which cuts prompts into chunks and
  gathers the chunks and single tokens of many sequences into batches. Each sequence owns a
  per-sequence state and a KV cache, contiguous or paged; pages and state slots come from pools.
  A prompt that was seen before is restored from the prefix cache, a radix tree over token
  sequences. When the logits of a token arrive, a grammar may mask the tokens that would leave
  its language before the sampler draws one. The decode loop of the engine feeds the token back,
  decodes its bytes incrementally, watches for stop sequences and hands text to a callback.
  Speculative decoding runs two such engines: a draft that proposes and a target that verifies.
  The live state of an engine, or of both, can be saved as bytes and resumed later.

  \<^bold>\<open>Theories.\<close> \<open>Prelude\<close> holds the machine integers, results with early return, little-endian
  bytes and the UTF-8 check.

  \<^item> GGUF (\<open>oxillama-gguf/src\<close>): \<open>Gguf_Types\<close> (\<open>types.rs\<close>, \<open>error.rs\<close>), \<open>Gguf_Reader\<close>
    (\<open>reader.rs\<close>), \<open>Gguf_Header\<close> (\<open>header.rs\<close>), \<open>Gguf_Metadata\<close> (\<open>metadata.rs\<close>), \<open>Gguf_Tensor\<close>
    (\<open>tensor_info.rs\<close>), \<open>Gguf_Parser\<close> (\<open>parser.rs\<close>) and \<open>Gguf_Writer\<close> (\<open>writer.rs\<close>) are the model,
    one definition per function. \<open>Gguf_Layout\<close> and \<open>Gguf_File\<close> describe a well-formed file as a
    value and its layout as bytes, \<open>Gguf_Roundtrip\<close> shows that every reader inverts its writer,
    \<open>Gguf_Stream\<close> what the streaming path writes as a client runs it,
    \<open>Gguf_Safety\<close> what the parser guarantees about any bytes it accepts; \<open>Gguf_Properties\<close> states
    the results.
  \<^item> Sequence state and pools: \<open>Seq_State\<close> (\<open>oxillama-arch/src/common/sequence_state.rs\<close> and the
    state of \<open>oxillama-arch/src/jamba/model.rs\<close>), \<open>Kv_Pool\<close> (\<open>oxillama-runtime/src/kv_pool.rs\<close>,
    \<open>sequence_pool.rs\<close>).
  \<^item> KV caches: \<open>Kv_Access\<close> is the trait \<open>KvCacheAccess\<close> of \<open>oxillama-arch/src/traits.rs\<close> as a
    locale (\<open>kv_access\<close>, extended by \<open>kv_rollback\<close>): the laws a cache promises, and once and for
    all that a cache keeping them reads back the tokens fed to it. \<open>Kv_Contig\<close>
    (\<open>oxillama-runtime/src/kv_cache/mod.rs\<close>, \<open>storage.rs\<close>) and \<open>Kv_Paged\<close> (\<open>kv_cache/paged.rs\<close>)
    are the two caches and interpret it. Properties in \<open>Kv_Properties\<close>.
  \<^item> Scheduler (\<open>oxillama-runtime/src/scheduler.rs\<close>): \<open>Scheduler\<close> is the model,
    \<open>Scheduler_Safety\<close> its step relation over all public operations, reachability, and the
    invariants; \<open>Scheduler_Properties\<close> what every batch satisfies.
  \<^item> Grammar (\<open>oxillama-runtime/src/sampling/grammar\<close>): \<open>Grammar_Types\<close> (nodes and, as the
    specification, the inductive relation \<open>matches\<close> between nodes and byte strings),
    \<open>Grammar_Machine\<close> (\<open>machine.rs\<close>), \<open>Grammar_Safety\<close> (soundness of the machine against
    \<open>matches\<close>), \<open>Grammar_Parser\<close> (\<open>parser.rs\<close>), \<open>Grammar_Descent\<close> (its termination),
    \<open>Grammar_Roundtrip\<close> (a printer, inverse to the parser), \<open>Grammar_Properties\<close>.
  \<^item> Prefix cache (\<open>oxillama-runtime/src/kv_cache/prefix.rs\<close>): \<open>Prefix_Tree\<close> is the radix tree,
    \<open>Prefix_Entries\<close> shows that each of its operations is one on a finite map, \<open>Entry_Store\<close> is
    the interface between tree and cache as a locale (interpreted on the tree), \<open>Prefix_Cache\<close> the
    cache with its counters and limits and the reads of \<open>oxillama-arch/src/common/kv_view.rs\<close>,
    \<open>Prefix_Properties\<close> the results, the last of which runs through the contiguous cache.

  \<^item> Tokenizer (\<open>oxillama-runtime/src/gguf_vocab\<close>): \<open>Tok_Text\<close> (strings as UTF-8 bytes and the
    byte-level alphabet of \<open>byte_level.rs\<close>), \<open>Tok_Symbols\<close> (the linked symbols of \<open>symbols.rs\<close> and
    what a chain of them shows), \<open>Tok_Merge\<close> (the greedy merge as a specification, and the locale
    \<open>merge_queue\<close>: a loop over a queue of possibly stale candidates that keeps its laws is the greedy
    merge), \<open>Tok_Vocab\<close> and \<open>Tok_Load\<close> (the vocabulary and its construction from metadata,
    \<open>mod.rs\<close>, and the names of \<open>pretok.rs\<close>), \<open>Tok_Bpe\<close> and \<open>Tok_Spm\<close> (\<open>bpe.rs\<close>, \<open>spm.rs\<close>; both
    interpret \<open>merge_queue\<close>), \<open>Tok_Wpm\<close> (\<open>wpm.rs\<close>), \<open>Tok_Encode\<close> (the split around special tokens
    and the drivers of \<open>mod.rs\<close>), \<open>Tok_Safety\<close> (what loading guarantees), \<open>Tok_Properties\<close>. The
    regular-expression engine, the table of patterns and the lower-case table of Unicode are
    parameters.
  \<^item> Sampler (\<open>oxillama-runtime/src/sampling\<close>): \<open>Smp_Float\<close> (\<open>f32\<close> as bit patterns with the exact
    comparisons, the record \<open>f32_ops\<close> of the rounding operations and its laws, and the generator of
    \<open>rng.rs\<close>), \<open>Smp_Stages\<close> (every stage of \<open>chain.rs\<close> and \<open>advanced.rs\<close>), \<open>Smp_Sampler\<close>
    (\<open>mod.rs\<close>, \<open>mirostat.rs\<close>), \<open>Smp_Safety\<close> (which stages keep a masked logit masked),
    \<open>Smp_Properties\<close>.
  \<^item> Decoding: \<open>Dec_Utf8\<close> and \<open>Dec_Stop\<close> (the incremental decoder and the stop buffer of
    \<open>oxillama-runtime/src/stream_decode.rs\<close>), \<open>Dec_Bridge\<close> (\<open>tokenizer_bridge.rs\<close>), \<open>Dec_Loop\<close>
    (the decode loop and the prefill of \<open>engine/generation.rs\<close>), \<open>Dec_Engine\<close> (\<open>engine/mod.rs\<close>,
    \<open>metrics.rs\<close>), \<open>Dec_Safety\<close> (the invariant of the loop, written over the text that the tokens
    decode to), \<open>Dec_Properties\<close>. The forward pass is a parameter.
  \<^item> Speculative decoding (\<open>oxillama-runtime/src/speculative.rs\<close>): \<open>Spc_Engine\<close> is the model,
    \<open>Spc_Safety\<close> the algorithm without caches, the alignment of both caches as an invariant of the
    rounds, and that the engines compute the algorithm; \<open>Spc_Properties\<close>. Recurrent models, whose state
    \<open>truncate\<close> does not rewind, are excluded there by the hypothesis \<open>fw_rewinds\<close>.
  \<^item> Model configuration (\<open>oxillama-arch/src/config.rs\<close>, the sliding window of
    \<open>common/attention.rs\<close>): \<open>Arch_Config\<close>, \<open>Arch_Properties\<close>.
  \<^item> Loading and snapshots: \<open>Eng_Load\<close> composes parser, configuration, cache and tokenizer as
    \<open>load_model\<close> of \<open>engine/mod.rs\<close> does, \<open>Snp_Snapshot\<close> is \<open>oxillama-runtime/src/snapshot.rs\<close>,
    \<open>Snp_Safety\<close> shows that decoders invert encoders and answer the same on longer input,
    \<open>Snp_Resume\<close> where a resumed session stands, \<open>Eng_Example\<close> a tiny model for the witnesses,
    \<open>Snp_Properties\<close>.

  \<^bold>\<open>Conventions.\<close> A struct is a record, an enum a datatype, \<open>Result\<close> a sum with the error on the
  left, \<open>?\<close> is \<open>and_then\<close>. Integers that come from a file or are kept in one are words of their
  width; sizes and indices of things held in memory are natural numbers (a Rust object has fewer
  than \<open>2 ^ 63\<close> bytes). Floats are their bit patterns; the half-precision conversions of the
  \<open>half\<close> crate are the parameter \<open>f16_conv\<close>, rounding arithmetic and the transcendental functions
  are the parameter \<open>f32_ops\<close> with the laws \<open>f32_laws\<close>, the clock is an argument, and a byte sink or source is a
  parameter with the laws of \<open>Write\<close> and \<open>Read\<close>. A \<open>HashMap\<close> is an association list whose order
  stands for the iteration order. A panic is an error value of its own (\<open>Panic\<close>).

  \<^bold>\<open>Fuel and bounds.\<close> The metadata parser recurses to the depth limit of the source. The GBNF
  parser has no limit in the source; its model takes fuel \<open>3 * n + 3\<close> for \<open>n\<close> remaining bytes and
  \<open>n + 1\<close> rules, and \<open>gbnf_parse_returns\<close> shows that this always suffices. The grammar machine's
  fuel is the source's own depth limit of 128. The eviction loop of the prefix cache is a
  \<open>partial_function\<close>; \<open>store_meets_limits\<close> shows that it returns. So are the merge loops of the
  tokenizer and its walks along the symbols; \<open>bpe_merges_greedily\<close> and \<open>spm_merges_greedily\<close> show that
  they return for texts of fewer than \<open>2 ^ 31\<close> characters, the range of the links. The decode loop ends because a run counts its
  tokens against \<open>max_tokens\<close>, the speculative loop because each round emits a token.

  \<^bold>\<open>Not modelled.\<close> The arithmetic of forward passes, quantisation kernels and GPU shaders; LoRA
  adapters, embeddings and the GPU and offload policies of the engine, with the weight pager behind them; file mapping, HTTP and async I/O; command
  line, bindings and benchmarks; log output, timing and memory statistics kept for display. Also
  left out: the model pool and rate limits of the server, which are asynchronous code over clocks
  and tasks, and the sharded and safetensors formats.
\<close>

end
